(* ===== verification/Prelude.thy ===== *)
theory Prelude
  imports Main "HOL-Library.AList" "HOL-Library.Word" "HOL-Library.Char_ord"
    "HOL-Library.List_Lexorder" "HOL-Library.Sublist"
begin

text \<open>
  Shared vocabulary of the development.

  \<^item> Python values: \<open>pyval\<close> for dynamically typed data (JSON documents, claim sets, request
    parameters, attribute bags), with truthiness and \<open>isinstance(_, int)\<close>.
  \<^item> Python exceptions of the core language as the datatype \<open>py_error\<close>; a call that can raise
    returns a sum, \<open>Inl\<close> for the exception.
  \<^item> Dictionaries: association lists in insertion order, read by \<open>map_of\<close> and written by
    \<open>AList.update\<close>/\<open>AList.delete\<close>, which keep the position of an existing key and append a
    new one, as a Python dict does.
  \<^item> Strings: a \<open>string\<close> is a list of code points below 256; \<open>utf8_encode\<close> and
    \<open>utf8_decode\<close> translate to bytes.  Code points from 256 on are outside the model:
    decoding them gives the error \<open>Unmodelled\<close>.
\<close>

named_theorems dict_simps \<open>reading a dictionary after an update\<close>
named_theorems res_splits \<open>case splits for results, options and conditionals\<close>

declare sum.splits [res_splits] option.splits [res_splits] prod.splits [res_splits]
  if_splits [res_splits]

section \<open>Errors and results\<close>

text \<open>
  The exceptions the program can see, and two outcomes that are none: input outside the model
  (\<open>Unmodelled\<close>) and a loop that does not end (\<open>Diverges\<close>).
\<close>

datatype py_error =
    ValueError | KeyError | TypeError | AttributeError | IndexError
  | UnicodeError | AssertionError | OverflowError | StructError | ZeroDivisionError | Unmodelled | Diverges

text \<open>\<open>except ValueError\<close> also catches a \<open>UnicodeDecodeError\<close>.\<close>

definition is_value_error :: "py_error \<Rightarrow> bool" where
  "is_value_error e \<longleftrightarrow> e = ValueError \<or> e = UnicodeError"

definition bind_res :: "'e + 'a \<Rightarrow> ('a \<Rightarrow> 'e + 'b) \<Rightarrow> 'e + 'b" where
  "bind_res m f = (case m of Inl e \<Rightarrow> Inl e | Inr x \<Rightarrow> f x)"

lemma bind_res_simps [simp]:
  "bind_res (Inl e) f = Inl e"
  "bind_res (Inr x) f = f x"
  by (simp_all add: bind_res_def)

lemma bind_res_Inr_iff:
  "bind_res m f = Inr y \<longleftrightarrow> (\<exists>x. m = Inr x \<and> f x = Inr y)"
  by (cases m) auto

lemma bind_res_InrE:
  assumes "bind_res m f = Inr y"
  obtains x where "m = Inr x" "f x = Inr y"
  using assms by (cases m) auto

fun map_res :: "('a \<Rightarrow> 'e + 'b) \<Rightarrow> 'a list \<Rightarrow> 'e + 'b list" where
  "map_res f [] = Inr []"
| "map_res f (x # xs) =
     (case f x of Inl e \<Rightarrow> Inl e
      | Inr y \<Rightarrow> (case map_res f xs of Inl e \<Rightarrow> Inl e | Inr ys \<Rightarrow> Inr (y # ys)))"

text \<open>A loop whose body may raise.\<close>

fun fold_res :: "('a \<Rightarrow> 's \<Rightarrow> 'e + 's) \<Rightarrow> 'a list \<Rightarrow> 's \<Rightarrow> 'e + 's" where
  "fold_res f [] s = Inr s"
| "fold_res f (x # xs) s = (case f x s of Inl e \<Rightarrow> Inl e | Inr s' \<Rightarrow> fold_res f xs s')"

text \<open>A loop whose body never raises is a fold, and an invariant of the body holds at its end.\<close>

lemma fold_res_invariant:
  assumes "P s" "\<And>x s. x \<in> set xs \<Longrightarrow> P s \<Longrightarrow> \<exists>s'. f x s = Inr s' \<and> P s'"
  shows "\<exists>s'. fold_res f xs s = Inr s' \<and> P s'"
  using assms
proof (induction xs arbitrary: s)
  case (Cons x xs)
  from Cons.prems(2) [of x s] Cons.prems(1) obtain s' where "f x s = Inr s'" "P s'" by auto
  with Cons.IH [of s'] Cons.prems(2) show ?case by auto
qed simp

definition isOk :: "'e + 'a \<Rightarrow> bool" where
  "isOk r = (case r of Inl _ \<Rightarrow> False | Inr _ \<Rightarrow> True)"

lemma isOk_simps [simp]: "\<not> isOk (Inl e)" "isOk (Inr x)"
  by (simp_all add: isOk_def)

lemma map_sum_Inr_iff: "map_sum id f r = Inr y \<longleftrightarrow> (\<exists>x. r = Inr x \<and> y = f x)"
  by (cases r) auto

lemma isOk_iff: "isOk r \<longleftrightarrow> (\<exists>x. r = Inr x)"
  by (cases r) auto

section \<open>Dictionaries\<close>

type_synonym ('k, 'v) dict = "('k \<times> 'v) list"

abbreviation dget :: "('k, 'v) dict \<Rightarrow> 'k \<Rightarrow> 'v option" where
  "dget d k \<equiv> map_of d k"

abbreviation dset :: "'k \<Rightarrow> 'v \<Rightarrow> ('k, 'v) dict \<Rightarrow> ('k, 'v) dict" where
  "dset \<equiv> AList.update"

abbreviation ddel :: "'k \<Rightarrow> ('k, 'v) dict \<Rightarrow> ('k, 'v) dict" where
  "ddel \<equiv> AList.delete"

abbreviation dkeys :: "('k, 'v) dict \<Rightarrow> 'k list" where
  "dkeys d \<equiv> map fst d"

abbreviation dvalues :: "('k, 'v) dict \<Rightarrow> 'v list" where
  "dvalues d \<equiv> map snd d"

text \<open>\<open>d.update(e)\<close>: the entries of \<open>e\<close> in order.\<close>

definition dmerge :: "('k, 'v) dict \<Rightarrow> ('k, 'v) dict \<Rightarrow> ('k, 'v) dict" where
  "dmerge d e = fold (\<lambda>(k, v). dset k v) e d"

text \<open>Mutating every value in place.\<close>

definition dmap :: "('v \<Rightarrow> 'w) \<Rightarrow> ('k, 'v) dict \<Rightarrow> ('k, 'w) dict" where
  "dmap f d = map (\<lambda>(k, v). (k, f v)) d"

text \<open>Mutating the value of one key in place, if it is there.\<close>

definition dupd :: "'k \<Rightarrow> ('v \<Rightarrow> 'v) \<Rightarrow> ('k, 'v) dict \<Rightarrow> ('k, 'v) dict" where
  "dupd k f d = map (\<lambda>(j, v). (j, if j = k then f v else v)) d"

lemma dget_dupd [dict_simps, simp]:
  "dget (dupd k f d) j = (if j = k then map_option f (dget d k) else dget d j)"
  by (induction d) (auto simp: dupd_def)

lemma dkeys_dupd [dict_simps, simp]: "dkeys (dupd k f d) = dkeys d"
  by (auto simp: dupd_def)

lemma dget_dset [dict_simps, simp]: "dget (dset k v d) j = (if j = k then Some v else dget d j)"
  by (simp add: update_conv)

lemma dget_ddel [dict_simps, simp]: "dget (ddel k d) j = (if j = k then None else dget d j)"
  by (simp add: delete_conv)

lemma dget_dmap [dict_simps, simp]: "dget (dmap f d) k = map_option f (dget d k)"
  by (induction d) (auto simp: dmap_def)

lemma dkeys_dmap [dict_simps, simp]: "dkeys (dmap f d) = dkeys d"
  by (auto simp: dmap_def)

lemma distinct_dkeys_dset [simp]: "distinct (dkeys d) \<Longrightarrow> distinct (dkeys (dset k v d))"
  by (rule distinct_update)

lemma distinct_dkeys_ddel [simp]: "distinct (dkeys d) \<Longrightarrow> distinct (dkeys (ddel k d))"
  by (rule distinct_delete)

lemma set_dkeys_dset [simp]: "set (dkeys (dset k v d)) = insert k (set (dkeys d))"
  by (induction d) auto

lemma fst_set_dset [simp]: "fst ` set (dset k v d) = insert k (fst ` set d)"
  by (induction d) auto

lemma dget_None_iff: "dget d k = None \<longleftrightarrow> k \<notin> set (dkeys d)"
  by (simp add: map_of_eq_None_iff)

lemma dget_in_values: "dget d k = Some v \<Longrightarrow> v \<in> set (dvalues d)"
  by (force dest: map_of_SomeD)

section \<open>Python values\<close>

datatype pyval =
    PNone
  | PBool bool
  | PInt int
  | PStr string
  | PList "pyval list"
  | PDict "(string \<times> pyval) list"

type_synonym pydict = "(string, pyval) dict"

fun truthy :: "pyval \<Rightarrow> bool" where
  "truthy PNone = False"
| "truthy (PBool b) = b"
| "truthy (PInt i) = (i \<noteq> 0)"
| "truthy (PStr s) = (s \<noteq> [])"
| "truthy (PList xs) = (xs \<noteq> [])"
| "truthy (PDict d) = (d \<noteq> [])"

text \<open>\<open>isinstance(v, int)\<close> holds of booleans too; \<open>as_int\<close> is the integer a comparison then uses.\<close>

fun as_int :: "pyval \<Rightarrow> int option" where
  "as_int (PInt i) = Some i"
| "as_int (PBool b) = Some (if b then 1 else 0)"
| "as_int _ = None"

fun as_str :: "pyval \<Rightarrow> string option" where
  "as_str (PStr s) = Some s"
| "as_str _ = None"

text \<open>\<open>d.get(k)\<close> on a dictionary of values: a missing key reads as \<open>None\<close>.\<close>

definition pget :: "pydict \<Rightarrow> string \<Rightarrow> pyval" where
  "pget d k = (case dget d k of None \<Rightarrow> PNone | Some v \<Rightarrow> v)"

lemma pget_simps [simp]:
  "pget [] k = PNone"
  "pget ((j, v) # d) k = (if k = j then v else pget d k)"
  by (simp_all add: pget_def)

lemma pget_dset [dict_simps, simp]: "pget (dset k v d) j = (if j = k then v else pget d j)"
  by (simp add: pget_def)

lemma as_str_iff [simp]: "as_str v = Some s \<longleftrightarrow> v = PStr s"
  by (cases v) auto

section \<open>Strings\<close>

definition is_space :: "char \<Rightarrow> bool" where
  "is_space c = (let n = of_char c :: nat in
     (9 \<le> n \<and> n \<le> 13) \<or> (28 \<le> n \<and> n \<le> 32) \<or> n = 133 \<or> n = 160)"

definition is_ascii :: "string \<Rightarrow> bool" where
  "is_ascii s = (\<forall>c \<in> set s. (of_char c :: nat) < 128)"

text \<open>\<open>s.lstrip()\<close>, \<open>s.strip()\<close> and the whitespace \<open>s.split()\<close>.\<close>

definition strip :: "string \<Rightarrow> string" where
  "strip s = rev (dropWhile is_space (rev (dropWhile is_space s)))"

fun split_ws_aux :: "string \<Rightarrow> string \<Rightarrow> string list" where
  "split_ws_aux acc [] = (if acc = [] then [] else [rev acc])"
| "split_ws_aux acc (c # cs) =
     (if is_space c then (if acc = [] then split_ws_aux [] cs else rev acc # split_ws_aux [] cs)
      else split_ws_aux (c # acc) cs)"

definition split_ws :: "string \<Rightarrow> string list" where
  "split_ws s = split_ws_aux [] s"

text \<open>\<open>s.split(c)\<close>: every occurrence separates; the result is never empty.\<close>

fun split_on :: "char \<Rightarrow> string \<Rightarrow> string list" where
  "split_on c [] = [[]]"
| "split_on c (x # xs) =
     (if x = c then [] # split_on c xs
      else (case split_on c xs of [] \<Rightarrow> [[x]] | y # ys \<Rightarrow> (x # y) # ys))"

text \<open>\<open>s.split(c, 1)\<close>: \<open>None\<close> when the separator is absent (a one-element list in Python).\<close>

fun split_once :: "char \<Rightarrow> string \<Rightarrow> (string \<times> string) option" where
  "split_once c [] = None"
| "split_once c (x # xs) =
     (if x = c then Some ([], xs)
      else (case split_once c xs of None \<Rightarrow> None | Some (a, b) \<Rightarrow> Some (x # a, b)))"

text \<open>\<open>s.split(c, 1)[0]\<close>.\<close>

definition before_first :: "char \<Rightarrow> string \<Rightarrow> string" where
  "before_first c s = takeWhile (\<lambda>x. x \<noteq> c) s"

definition join :: "string \<Rightarrow> string list \<Rightarrow> string" where
  "join sep xs = (case xs of [] \<Rightarrow> [] | y # ys \<Rightarrow> y @ concat (map (\<lambda>z. sep @ z) ys))"

definition remove_char :: "char \<Rightarrow> string \<Rightarrow> string" where
  "remove_char c s = filter (\<lambda>x. x \<noteq> c) s"

text \<open>The micro sign and y with diaeresis, whose capitals are above 255, are left as they are.\<close>

definition upper_char :: "char \<Rightarrow> string" where
  "upper_char c = (let n = of_char c :: nat in
     if 97 \<le> n \<and> n \<le> 122 then [char_of (n - 32)]
     else if n = 223 then ''SS''
     else if 224 \<le> n \<and> n \<le> 254 \<and> n \<noteq> 247 then [char_of (n - 32)]
     else [c])"

definition upper :: "string \<Rightarrow> string" where
  "upper s = concat (map upper_char s)"

definition lower_char :: "char \<Rightarrow> char" where
  "lower_char c = (let n = of_char c :: nat in
     if (65 \<le> n \<and> n \<le> 90) \<or> (192 \<le> n \<and> n \<le> 222 \<and> n \<noteq> 215) then char_of (n + 32) else c)"

definition lower :: "string \<Rightarrow> string" where
  "lower s = map lower_char s"

lemma split_on_not_Nil [simp]: "split_on c s \<noteq> []"
  by (induction s) (auto split: list.splits)

lemma split_on_no_sep: "x \<in> set (split_on c s) \<Longrightarrow> c \<notin> set x"
  by (induction s arbitrary: x) (auto split: list.splits if_splits)

lemma split_on_absent: "c \<notin> set s \<Longrightarrow> split_on c s = [s]"
  by (induction s) auto

lemma split_on_append:
  "c \<notin> set a \<Longrightarrow> split_on c (a @ c # b) = a # split_on c b"
  by (induction a) auto

lemma split_once_append:
  "c \<notin> set a \<Longrightarrow> split_once c (a @ c # b) = Some (a, b)"
  by (induction a) auto

lemma split_once_None_iff: "split_once c s = None \<longleftrightarrow> c \<notin> set s"
  by (induction s) (auto split: option.splits)

lemma split_once_SomeD: "split_once c s = Some (a, b) \<Longrightarrow> s = a @ c # b \<and> c \<notin> set a"
  by (induction s arbitrary: a) (auto split: if_splits option.splits)

lemma split_ws_aux_words:
  "(\<And>c. c \<in> set acc \<Longrightarrow> \<not> is_space c) \<Longrightarrow>
   \<forall>w \<in> set (split_ws_aux acc s). w \<noteq> [] \<and> (\<forall>c \<in> set w. \<not> is_space c)"
proof (induction s arbitrary: acc)
  case Nil
  then show ?case by simp
next
  case (Cons c cs)
  show ?case
  proof (cases "is_space c")
    case True
    with Cons.IH [of "[]"] Cons.prems show ?thesis by simp
  next
    case False
    with Cons.IH [of "c # acc"] Cons.prems show ?thesis by auto
  qed
qed

lemma split_ws_words:
  "w \<in> set (split_ws s) \<Longrightarrow> w \<noteq> [] \<and> (\<forall>c \<in> set w. \<not> is_space c)"
  using split_ws_aux_words [of "[]" s] by (simp add: split_ws_def)

text \<open>Decimal rendering of integers, \<open>str(i)\<close>.\<close>

fun nat_digits :: "nat \<Rightarrow> string" where
  "nat_digits n =
     (if n < 10 then [char_of (48 + n)] else nat_digits (n div 10) @ [char_of (48 + n mod 10)])"

declare nat_digits.simps [simp del]

definition int_str :: "int \<Rightarrow> string" where
  "int_str i = (if i < 0 then ''-'' @ nat_digits (nat (- i)) else nat_digits (nat i))"

text \<open>\<open>repr\<close> of a string and of a list of strings.\<close>

definition hex_digit :: "nat \<Rightarrow> char" where
  "hex_digit n = (if n < 10 then char_of (48 + n) else char_of (87 + n))"

definition repr_char :: "char \<Rightarrow> char \<Rightarrow> string" where
  "repr_char q c = (let n = of_char c :: nat in
     if c = q \<or> n = 92 then [char_of (92 :: nat), c]
     else if n = 10 then [char_of (92 :: nat), CHR ''n'']
     else if n = 13 then [char_of (92 :: nat), CHR ''r'']
     else if n = 9 then [char_of (92 :: nat), CHR ''t'']
     else if n < 32 \<or> (127 \<le> n \<and> n \<le> 160) \<or> n = 173
     then [char_of (92 :: nat), CHR ''x'', hex_digit (n div 16), hex_digit (n mod 16)]
     else [c])"

definition repr_str :: "string \<Rightarrow> string" where
  "repr_str s =
     (let q = (if CHR 0x27 \<in> set s \<and> CHR 0x22 \<notin> set s then CHR 0x22 else CHR 0x27)
      in [q] @ concat (map (repr_char q) s) @ [q])"

definition repr_list :: "string list \<Rightarrow> string" where
  "repr_list xs = ''['' @ join '', '' (map repr_str xs) @ '']''"

text \<open>\<open>repr\<close> and \<open>str\<close> of a value.\<close>

fun py_repr :: "pyval \<Rightarrow> string" where
  "py_repr PNone = ''None''"
| "py_repr (PBool b) = (if b then ''True'' else ''False'')"
| "py_repr (PInt i) = int_str i"
| "py_repr (PStr s) = repr_str s"
| "py_repr (PList xs) = ''['' @ join '', '' (map py_repr xs) @ '']''"
| "py_repr (PDict d) =
     ''{'' @ join '', '' (map (\<lambda>(k, v). repr_str k @ '': '' @ py_repr v) d) @ ''}''"

definition py_str :: "pyval \<Rightarrow> string" where
  "py_str v = (case v of PStr s \<Rightarrow> s | _ \<Rightarrow> py_repr v)"

text \<open>
  \<open>==\<close> on values: \<open>True == 1\<close> holds and the order of dictionary entries does not matter.
\<close>

fun py_norm :: "pyval \<Rightarrow> pyval" where
  "py_norm PNone = PNone"
| "py_norm (PBool b) = PInt (if b then 1 else 0)"
| "py_norm (PInt i) = PInt i"
| "py_norm (PStr s) = PStr s"
| "py_norm (PList xs) = PList (map py_norm xs)"
| "py_norm (PDict d) = PDict (sort_key fst (map (\<lambda>(k, v). (k, py_norm v)) d))"

definition py_eq :: "pyval \<Rightarrow> pyval \<Rightarrow> bool" where
  "py_eq x y = (py_norm x = py_norm y)"

lemma py_norm_PStr_iff [simp]:
  "py_norm v = PStr s \<longleftrightarrow> v = PStr s" "PStr s = py_norm v \<longleftrightarrow> v = PStr s"
  by (cases v; auto)+

lemma py_eq_PStr [simp]:
  "py_eq v (PStr s) \<longleftrightarrow> v = PStr s" "py_eq (PStr s) v \<longleftrightarrow> v = PStr s"
  by (auto simp: py_eq_def)

lemma py_eq_refl [simp]: "py_eq v v"
  by (simp add: py_eq_def)

section \<open>Bytes\<close>

type_synonym byte = "8 word"

definition utf8_char :: "char \<Rightarrow> byte list" where
  "utf8_char c = (let n = of_char c :: nat in
     if n < 128 then [of_nat n] else [of_nat (192 + n div 64), of_nat (128 + n mod 64)])"

definition utf8_encode :: "string \<Rightarrow> byte list" where
  "utf8_encode s = concat (map utf8_char s)"

text \<open>
  Decoding: one-byte sequences and the two-byte sequences that give a code point below 256.
  Longer or larger sequences are outside the model, anything else is invalid UTF-8.
\<close>

fun utf8_decode :: "byte list \<Rightarrow> py_error + string" where
  "utf8_decode [] = Inr []"
| "utf8_decode (b # bs) =
     (if unat b < 128
      then (case utf8_decode bs of Inl e \<Rightarrow> Inl e | Inr s \<Rightarrow> Inr (char_of (unat b) # s))
      else if unat b = 194 \<or> unat b = 195
      then (case bs of [] \<Rightarrow> Inl UnicodeError
            | c # cs \<Rightarrow>
                (if 128 \<le> unat c \<and> unat c < 192
                 then (case utf8_decode cs of Inl e \<Rightarrow> Inl e
                       | Inr s \<Rightarrow> Inr (char_of ((unat b - 192) * 64 + (unat c - 128)) # s))
                 else Inl UnicodeError))
      else if 196 \<le> unat b \<and> unat b < 245 then Inl Unmodelled
      else Inl UnicodeError)"

definition ascii_encode :: "string \<Rightarrow> py_error + byte list" where
  "ascii_encode s = (if is_ascii s then Inr (map of_char s) else Inl UnicodeError)"

definition ascii_decode :: "byte list \<Rightarrow> py_error + string" where
  "ascii_decode bs =
     (if \<forall>b \<in> set bs. unat b < 128 then Inr (map (\<lambda>b. char_of (unat b)) bs) else Inl UnicodeError)"

lemma unat_of_nat_byte: "n < 256 \<Longrightarrow> unat (of_nat n :: byte) = n"
  by (simp add: unat_of_nat)

lemma of_char_lt_256 [simp]: "(of_char c :: nat) < 256"
  by (metis nat_of_char_less_256)

lemma utf8_decode_char:
  "utf8_decode (utf8_char c @ bs) =
     (case utf8_decode bs of Inl e \<Rightarrow> Inl e | Inr s \<Rightarrow> Inr (c # s))"
proof -
  define n where "n = (of_char c :: nat)"
  have n: "n < 256" and c: "char_of n = c" by (simp_all add: n_def)
  show ?thesis
  proof (cases "n < 128")
    case True
    with n have "unat (of_nat n :: byte) = n" by (simp add: unat_of_nat_byte)
    with True c show ?thesis
      by (simp add: utf8_char_def Let_def n_def [symmetric] split: sum.split)
  next
    case False
    define q r where "q = 192 + n div 64" and "r = 128 + n mod 64"
    have "n div 64 < 4" using n less_mult_imp_div_less [of n 4 64] by simp
    moreover have "2 \<le> n div 64" using False div_le_mono [of 128 n 64] by simp
    ultimately have q: "q = 194 \<or> q = 195" unfolding q_def by linarith
    have r: "128 \<le> r" "r < 192" unfolding r_def by simp_all
    have nqr: "(q - 192) * 64 + (r - 128) = n" unfolding q_def r_def by (simp add: mult.commute)
    have u: "utf8_char c = [of_nat q, of_nat r]"
      using False by (simp add: utf8_char_def Let_def n_def [symmetric] q_def r_def)
    have uq: "unat (of_nat q :: byte) = q" "unat (of_nat r :: byte) = r"
      using q r by (auto intro!: unat_of_nat_byte)
    have "\<not> q < 128" using q by auto
    with q r show ?thesis
      unfolding u by (simp add: uq nqr c split: sum.split)
  qed
qed

lemma utf8_roundtrip [simp]: "utf8_decode (utf8_encode s) = Inr s"
  by (induction s) (simp_all add: utf8_encode_def utf8_decode_char)

lemma utf8_encode_inj: "utf8_encode s = utf8_encode t \<Longrightarrow> s = t"
  by (metis utf8_roundtrip sum.inject(2))

lemma utf8_encode_ascii: "is_ascii s \<Longrightarrow> utf8_encode s = map of_char s"
  by (induction s) (simp_all add: utf8_encode_def utf8_char_def is_ascii_def Let_def
      of_nat_of_char)

section \<open>Reachability in a finite graph given by a successor list\<close>

definition succ_rel :: "('a \<Rightarrow> 'a list) \<Rightarrow> ('a \<times> 'a) set" where
  "succ_rel f = {(x, y). y \<in> set (f x)}"

lemma succ_rel_iff [simp]: "(x, y) \<in> succ_rel f \<longleftrightarrow> y \<in> set (f x)"
  by (simp add: succ_rel_def)

end
