(* ===== verification/Search.thy ===== *)
theory Search
  imports Prelude
begin

text \<open>
  Recursive graph searches that are cut by a depth cap and by the path of keys above the
  current call (\<open>ReBAC.check\<close>, \<open>ReBAC.expand\<close>, \<open>PolicyDataset.resolve_group\<close>).
  One step of the unguarded search is a monotone functional \<open>F\<close>; the locale proves once that
  the guarded search from an empty path gives the answer of \<open>F\<close> nested \<open>M + 1\<close> deep.
\<close>

primrec level :: "(('k \<Rightarrow> bool) \<Rightarrow> 'k \<Rightarrow> bool) \<Rightarrow> nat \<Rightarrow> 'k \<Rightarrow> bool" where
  "level F 0 = (\<lambda>k. False)"
| "level F (Suc n) = F (level F n)"

locale guarded_search =
  fixes F :: "('k \<Rightarrow> bool) \<Rightarrow> 'k \<Rightarrow> bool"
    and M :: int
    and search :: "int \<Rightarrow> 'k set \<Rightarrow> 'k \<Rightarrow> bool"
  assumes F_mono: "F f k \<Longrightarrow> (\<And>j. f j \<Longrightarrow> g j) \<Longrightarrow> F g k"
    and search_eq: "search d seen k \<longleftrightarrow> d \<le> M \<and> k \<notin> seen \<and> F (search (d + 1) (insert k seen)) k"
begin

lemma level_Suc_mono: "level F n k \<Longrightarrow> level F (Suc n) k"
proof (induction n arbitrary: k)
  case (Suc n)
  from Suc.prems have "F (level F n) k" by simp
  then have "F (level F (Suc n)) k" by (rule F_mono) (rule Suc.IH)
  then show ?case by simp
qed simp

lemma level_mono: "m \<le> n \<Longrightarrow> level F m k \<Longrightarrow> level F n k"
  by (induction rule: dec_induct) (auto intro: level_Suc_mono simp del: level.simps)

lemma search_sound: "search d seen k \<Longrightarrow> level F (nat (M + 1 - d)) k"
proof (induction "nat (M + 1 - d)" arbitrary: d seen k)
  case 0
  then show ?case by (subst (asm) search_eq) simp
next
  case (Suc n)
  from Suc.prems have step: "F (search (d + 1) (insert k seen)) k"
    by (subst (asm) search_eq) simp
  have n: "n = nat (M + 1 - (d + 1))" using Suc.hyps(2) by linarith
  from step have "F (level F n) k"
    by (rule F_mono) (use Suc.hyps(1) [OF n] n in simp)
  then have "level F (Suc n) k" by simp
  then show ?case using Suc.hyps(2) by simp
qed

text \<open>A derivation of least height never meets a key of the path above it.\<close>

lemma search_complete:
  assumes "level F n k" "\<And>m. m < n \<Longrightarrow> \<not> level F m k"
    "\<And>j. j \<in> seen \<Longrightarrow> \<not> level F n j" "int n \<le> M + 1 - d"
  shows "search d seen k"
  using assms
proof (induction n arbitrary: k d seen rule: less_induct)
  case (less n)
  from less.prems(1) obtain m where m: "n = Suc m" by (cases n) auto
  have fresh: "k \<notin> seen" using less.prems(1,3) by blast
  have step: "F (level F m) k" using less.prems(1) by (simp add: m)
  have sub: "search (d + 1) (insert k seen) j" if "level F m j" for j
  proof -
    from ex_least_nat_le [of "\<lambda>i. level F i j", OF that] obtain i
      where "i \<le> m" and least: "\<And>i'. i' < i \<Longrightarrow> \<not> level F i' j" and i: "level F i j" by blast
    have "\<not> level F i j'" if "j' \<in> insert k seen" for j'
      using that less.prems(2) [of i] less.prems(3) [of j'] \<open>i \<le> m\<close> m level_mono [of i n j']
      by fastforce
    with less.IH [of i j "insert k seen" "d + 1"] i least \<open>i \<le> m\<close> m less.prems(4)
    show ?thesis by fastforce
  qed
  have "d \<le> M" using less.prems(4) m by simp
  with fresh F_mono [OF step sub] show ?case by (subst search_eq) simp
qed

lemma search_iff_level: "search 0 {} k \<longleftrightarrow> level F (nat (M + 1)) k"
proof
  assume "search 0 {} k"
  with search_sound [of 0 "{}" k] show "level F (nat (M + 1)) k" by simp
next
  assume d: "level F (nat (M + 1)) k"
  from ex_least_nat_le [of "\<lambda>i. level F i k", OF d] obtain i
    where "i \<le> nat (M + 1)" "\<And>i'. i' < i \<Longrightarrow> \<not> level F i' k" "level F i k" by blast
  moreover have "0 < nat (M + 1)" using d by (cases "nat (M + 1)") auto
  ultimately show "search 0 {} k" by (intro search_complete [of i]) auto
qed

end

end
