(* ===== verification/Rbac.thy ===== *)
theory Rbac
  imports Prelude
begin

text \<open>
  \<open>authlab/authz/rbac.py\<close>: the role store with its hierarchy.  A Python set of names is a
  list in the order the set is iterated; \<open>set(xs)\<close> keeps one occurrence of every element
  (\<open>remdups\<close>).  The stacks of the two graph walks are lists with the top first, so
  \<open>pop()\<close> takes the head and \<open>extend(xs)\<close> puts \<open>rev xs\<close> in front.
\<close>

section \<open>Data\<close>

record role =
  role_name :: string
  role_permissions :: "string list"
  role_inherits :: "string list"
  role_description :: string

record rbac =
  roles :: "(string, role) dict"
  assignments :: "(string, string list) dict"

definition new_rbac :: rbac where
  "new_rbac = \<lparr>roles = [], assignments = []\<rparr>"

text \<open>The roles a role inherits from directly; nothing for an unknown name.\<close>

definition parents :: "(string, role) dict \<Rightarrow> string \<Rightarrow> string list" where
  "parents rs n = (case dget rs n of None \<Rightarrow> [] | Some r \<Rightarrow> role_inherits r)"

section \<open>Definition of roles and the cycle check\<close>

function acyclic_loop ::
  "(string, role) dict \<Rightarrow> string list \<Rightarrow> string list \<Rightarrow> string list \<Rightarrow> py_error + unit" where
  "acyclic_loop rs seen [] path = Inr ()"
| "acyclic_loop rs seen (current # stack) path =
     (if current \<in> set path then Inl ValueError
      else (case dget rs current of
              None \<Rightarrow> acyclic_loop rs seen stack path
            | Some r \<Rightarrow>
                (if current \<in> set seen then acyclic_loop rs seen stack path
                 else acyclic_loop rs (current # seen) (rev (role_inherits r) @ stack)
                        (path @ [current]))))"
  by pat_completeness auto
termination
proof (relation "measures [\<lambda>(rs, seen, stack, path). card (set (dkeys rs) - set path),
    \<lambda>(rs, seen, stack, path). length stack]", goal_cases)
  case (4 rs seen current stack path r)
  from \<open>dget rs current = Some r\<close> have "current \<in> set (dkeys rs)"
    by (force dest: map_of_SomeD)
  with 4(1) have "set (dkeys rs) - set (path @ [current]) \<subset> set (dkeys rs) - set path" by auto
  then have "card (set (dkeys rs) - set (path @ [current])) < card (set (dkeys rs) - set path)"
    by (intro psubset_card_mono) auto
  then show ?case by simp
qed auto

definition assert_acyclic :: "rbac \<Rightarrow> string \<Rightarrow> py_error + unit" where
  "assert_acyclic s start = acyclic_loop (roles s) [] [start] []"

text \<open>
  \<open>define_role\<close> stores the role before it checks: when the check raises, the state the
  caller is left with already holds the role.
\<close>

definition define_role ::
  "rbac \<Rightarrow> string \<Rightarrow> string list \<Rightarrow> string list \<Rightarrow> string \<Rightarrow> (py_error + role) \<times> rbac" where
  "define_role s name permissions inherits description =
     (let r = \<lparr>role_name = name, role_permissions = remdups permissions,
               role_inherits = remdups inherits, role_description = description\<rparr>;
          s' = s\<lparr>roles := dset name r (roles s)\<rparr>
      in (case assert_acyclic s' name of Inl e \<Rightarrow> (Inl e, s') | Inr _ \<Rightarrow> (Inr r, s')))"

section \<open>Assignments\<close>

definition assign :: "rbac \<Rightarrow> string \<Rightarrow> string list \<Rightarrow> (py_error + unit) \<times> rbac" where
  "assign s subject names =
     (if \<exists>n \<in> set names. dget (roles s) n = None then (Inl KeyError, s)
      else (let held = (case dget (assignments s) subject of None \<Rightarrow> [] | Some h \<Rightarrow> h)
            in (Inr (), s\<lparr>assignments :=
                 dset subject (remdups (held @ names)) (assignments s)\<rparr>)))"

definition unassign :: "rbac \<Rightarrow> string \<Rightarrow> string list \<Rightarrow> rbac" where
  "unassign s subject names =
     (case dget (assignments s) subject of
        None \<Rightarrow> s
      | Some held \<Rightarrow>
          (if held = [] then s
           else s\<lparr>assignments :=
             dset subject (filter (\<lambda>n. n \<notin> set names) held) (assignments s)\<rparr>))"

section \<open>Resolution\<close>

text \<open>The work list of \<open>effective_roles\<close>; the result is kept in order of discovery.\<close>

function roles_loop ::
  "(string, role) dict \<Rightarrow> string list \<Rightarrow> string list \<Rightarrow> string list" where
  "roles_loop rs result [] = result"
| "roles_loop rs result (n # queue) =
     (if n \<in> set result then roles_loop rs result queue
      else (case dget rs n of
              None \<Rightarrow> roles_loop rs result queue
            | Some r \<Rightarrow> roles_loop rs (result @ [n]) (rev (role_inherits r) @ queue)))"
  by pat_completeness auto
termination
proof (relation "measures [\<lambda>(rs, result, queue). card (set (dkeys rs) - set result),
    \<lambda>(rs, result, queue). length queue]", goal_cases)
  case (4 rs result n queue r)
  from \<open>dget rs n = Some r\<close> have "n \<in> set (dkeys rs)" by (force dest: map_of_SomeD)
  with 4(1) have "set (dkeys rs) - set (result @ [n]) \<subset> set (dkeys rs) - set result" by auto
  then have "card (set (dkeys rs) - set (result @ [n])) < card (set (dkeys rs) - set result)"
    by (intro psubset_card_mono) auto
  then show ?case by simp
qed auto

definition held_roles :: "rbac \<Rightarrow> string \<Rightarrow> string list" where
  "held_roles s subject = (case dget (assignments s) subject of None \<Rightarrow> [] | Some h \<Rightarrow> h)"

definition effective_roles :: "rbac \<Rightarrow> string \<Rightarrow> string list" where
  "effective_roles s subject = roles_loop (roles s) [] (rev (held_roles s subject))"

definition permissions_of :: "rbac \<Rightarrow> string \<Rightarrow> string list" where
  "permissions_of s n = (case dget (roles s) n of None \<Rightarrow> [] | Some r \<Rightarrow> role_permissions r)"

definition effective_permissions :: "rbac \<Rightarrow> string \<Rightarrow> string list" where
  "effective_permissions s subject =
     remdups (concat (map (permissions_of s) (effective_roles s subject)))"

section \<open>Matching and decisions\<close>

definition matches :: "string \<Rightarrow> string \<Rightarrow> bool" where
  "matches granted required =
     (if granted = ''*'' \<or> granted = required then True
      else (case (split_once CHR '':'' granted, split_once CHR '':'' required) of
              (Some (g_resource, g_action), Some (r_resource, r_action)) \<Rightarrow>
                (g_resource = ''*'' \<or> g_resource = r_resource)
                \<and> (g_action = ''*'' \<or> g_action = r_action)
            | _ \<Rightarrow> False))"

definition can :: "rbac \<Rightarrow> string \<Rightarrow> string \<Rightarrow> bool" where
  "can s subject permission =
     (\<exists>g \<in> set (effective_permissions s subject). matches g permission)"

text \<open>The first granting (role, permission) pair in sorted order, and the text built from it.\<close>

definition explain_match :: "rbac \<Rightarrow> string \<Rightarrow> string \<Rightarrow> (string \<times> string) option" where
  "explain_match s subject permission =
     find (\<lambda>(_, g). matches g permission)
       (concat (map (\<lambda>r. map (Pair r) (sort (permissions_of s r)))
         (sort (effective_roles s subject))))"

definition explain :: "rbac \<Rightarrow> string \<Rightarrow> string \<Rightarrow> string" where
  "explain s subject permission =
     (case explain_match s subject permission of
        Some (r, g) \<Rightarrow>
          ''ALLOW: '' @ repr_str subject @ '' has role '' @ repr_str r @ '' (''
          @ (if r \<in> set (held_roles s subject) then ''directly assigned'' else ''inherited'')
          @ '')'' @ (if g = permission then [] else '' (via wildcard '' @ repr_str g @ '')'')
      | None \<Rightarrow>
          (let held = sort (effective_roles s subject)
           in ''DENY: '' @ repr_str subject @ '' holds roles ''
              @ repr_list (if held = [] then [''<none>''] else held)
              @ '' and none grant '' @ repr_str permission))"

definition subjects_with :: "rbac \<Rightarrow> string \<Rightarrow> string list" where
  "subjects_with s permission =
     sort (filter (\<lambda>u. can s u permission) (dkeys (assignments s)))"

section \<open>The inheritance graph\<close>

text \<open>Edges from a defined role to the roles it inherits.\<close>

definition inherits_rel :: "(string, role) dict \<Rightarrow> (string \<times> string) set" where
  "inherits_rel rs = {(a, b). b \<in> set (parents rs a)}"

lemma inherits_rel_iff [simp]: "(a, b) \<in> inherits_rel rs \<longleftrightarrow> b \<in> set (parents rs a)"
  by (simp add: inherits_rel_def)

lemma parents_None: "dget rs n = None \<Longrightarrow> parents rs n = []"
  and parents_Some: "dget rs n = Some r \<Longrightarrow> parents rs n = role_inherits r"
  by (simp_all add: parents_def)

lemma inherits_rel_dest:
  assumes "(x, y) \<in> (inherits_rel rs)\<^sup>*"
  shows "x = y \<or> (\<exists>z. z \<in> set (parents rs x) \<and> (z, y) \<in> (inherits_rel rs)\<^sup>*)"
  using assms by (cases rule: converse_rtranclE) auto

lemma undefined_reaches_itself:
  assumes "dget rs x = None" "(x, y) \<in> (inherits_rel rs)\<^sup>*"
  shows "y = x"
  using inherits_rel_dest [OF assms(2)] assms(1) by (auto simp: parents_None)

text \<open>When the check returns, nothing on the stack leads back to the path walked so far.\<close>

lemma acyclic_loop_avoids_path:
  assumes "acyclic_loop rs seen stack path = Inr ()" "set seen \<subseteq> set path"
    "x \<in> set stack" "(x, y) \<in> (inherits_rel rs)\<^sup>*"
  shows "y \<notin> set path"
  using assms
proof (induction rs seen stack path arbitrary: x y rule: acyclic_loop.induct)
  case (1 rs seen path)
  then show ?case by simp
next
  case (2 rs seen current stack path)
  from "2.prems"(1) have fresh: "current \<notin> set path" by (auto split: if_splits)
  show ?case
  proof (cases "dget rs current")
    case None
    with "2.prems" fresh "2.IH"(1) [OF fresh None] show ?thesis
      by (auto dest: undefined_reaches_itself [OF None])
  next
    case (Some r)
    from "2.prems"(2) fresh have unseen: "current \<notin> set seen" by auto
    note IH = "2.IH"(3) [OF fresh Some unseen]
    have next': "acyclic_loop rs (current # seen) (rev (role_inherits r) @ stack) (path @ [current]) = Inr ()"
      using "2.prems"(1) fresh Some unseen by simp
    have avoid: "y' \<notin> set path" if "z \<in> set (role_inherits r) \<union> set stack"
        "(z, y') \<in> (inherits_rel rs)\<^sup>*" for z y'
      using IH [OF next', of z y'] that "2.prems"(2) by auto
    from "2.prems"(3) consider "x = current" | "x \<in> set stack" by auto
    then show ?thesis
    proof cases
      case 1
      with inherits_rel_dest [OF "2.prems"(4)] fresh avoid show ?thesis
        by (auto simp: parents_Some [OF Some])
    qed (use avoid "2.prems"(4) in blast)
  qed
qed

text \<open>And no role reachable from the stack inherits from itself.\<close>

lemma acyclic_loop_sound:
  assumes "acyclic_loop rs seen stack path = Inr ()" "set seen \<subseteq> set path"
    "x \<in> set stack" "(x, y) \<in> (inherits_rel rs)\<^sup>*"
  shows "(y, y) \<notin> (inherits_rel rs)\<^sup>+"
  using assms
proof (induction rs seen stack path arbitrary: x y rule: acyclic_loop.induct)
  case (1 rs seen path)
  then show ?case by simp
next
  case (2 rs seen current stack path)
  from "2.prems"(1) have fresh: "current \<notin> set path" by (auto split: if_splits)
  show ?case
  proof (cases "dget rs current")
    case None
    from "2.prems"(1) fresh None have run: "acyclic_loop rs seen stack path = Inr ()" by simp
    from "2.prems"(3) consider "x = current" | "x \<in> set stack" by auto
    then show ?thesis
    proof cases
      case 1
      with None "2.prems"(4) have "y = current" by (auto dest: undefined_reaches_itself)
      then show ?thesis by (auto dest!: tranclD simp: parents_None [OF None])
    next
      case 2
      then show ?thesis using "2.IH"(1) [OF fresh None run] "2.prems"(2,4) by blast
    qed
  next
    case (Some r)
    from "2.prems"(2) fresh have unseen: "current \<notin> set seen" by auto
    have run: "acyclic_loop rs (current # seen) (rev (role_inherits r) @ stack) (path @ [current]) = Inr ()"
      using "2.prems"(1) fresh Some unseen by simp
    have sub: "set (current # seen) \<subseteq> set (path @ [current])" using "2.prems"(2) by auto
    have next': "(y', y') \<notin> (inherits_rel rs)\<^sup>+" if "z \<in> set (role_inherits r) \<union> set stack"
        "(z, y') \<in> (inherits_rel rs)\<^sup>*" for z y'
      using "2.IH"(3) [OF fresh Some unseen run sub, of z y'] that by auto
    have current: "(current, current) \<notin> (inherits_rel rs)\<^sup>+"
    proof
      assume "(current, current) \<in> (inherits_rel rs)\<^sup>+"
      then obtain z where "z \<in> set (role_inherits r)" "(z, current) \<in> (inherits_rel rs)\<^sup>*"
        by (auto dest!: tranclD simp: parents_Some [OF Some])
      with acyclic_loop_avoids_path [OF run sub, of z current] show False by auto
    qed
    from "2.prems"(3) consider "x = current" | "x \<in> set stack" by auto
    then show ?thesis
    proof cases
      case 1
      with inherits_rel_dest [OF "2.prems"(4)] current next' show ?thesis
        by (auto simp: parents_Some [OF Some])
    qed (use next' "2.prems"(4) in blast)
  qed
qed

section \<open>Resolution computes reachability\<close>

lemma roles_loop_sound:
  "set (roles_loop rs result queue) \<subseteq>
     set result \<union> {y. dget rs y \<noteq> None \<and> (\<exists>x \<in> set queue. (x, y) \<in> (inherits_rel rs)\<^sup>*)}"
proof (induction rs result queue rule: roles_loop.induct)
  case (2 rs result n queue)
  show ?case
  proof (cases "n \<in> set result \<or> dget rs n = None")
    case True
    then show ?thesis
      using "2.IH"(1,2) by (auto split: option.splits)
  next
    case False
    then obtain r where r: "dget rs n = Some r" and n: "n \<notin> set result" by auto
    have step: "(n, y) \<in> (inherits_rel rs)\<^sup>*" if "x \<in> set (role_inherits r)" "(x, y) \<in> (inherits_rel rs)\<^sup>*" for x y
      using that by (intro converse_rtrancl_into_rtrancl [of n x]) (auto simp: parents_Some [OF r])
    show ?thesis
      using "2.IH"(3) [OF n r] r n step by fastforce
  qed
qed simp

lemma roles_loop_mono: "set result \<subseteq> set (roles_loop rs result queue)"
  by (induction rs result queue rule: roles_loop.induct) (auto split: option.splits)

lemma roles_loop_queue:
  "x \<in> set queue \<Longrightarrow> dget rs x \<noteq> None \<Longrightarrow> x \<in> set (roles_loop rs result queue)"
proof (induction rs result queue rule: roles_loop.induct)
  case (2 rs result n queue)
  show ?case
  proof (cases "n \<in> set result")
    case True
    then show ?thesis using 2 roles_loop_mono [of result rs queue] by auto
  next
    case False
    then show ?thesis
      using 2 roles_loop_mono [of "result @ [n]" rs] by (fastforce split: option.splits)
  qed
qed simp

lemma roles_loop_closed:
  assumes "\<And>a b. a \<in> set result \<Longrightarrow> b \<in> set (parents rs a) \<Longrightarrow> dget rs b \<noteq> None \<Longrightarrow>
      b \<in> set result \<union> set queue"
    and "a \<in> set (roles_loop rs result queue)" "b \<in> set (parents rs a)" "dget rs b \<noteq> None"
  shows "b \<in> set (roles_loop rs result queue)"
  using assms
proof (induction rs result queue arbitrary: a b rule: roles_loop.induct)
  case (1 rs result)
  then show ?case by auto
next
  case (2 rs result n queue)
  show ?case
  proof (cases "n \<in> set result")
    case True
    have "a \<in> set (roles_loop rs result queue)" using "2.prems"(2) True by simp
    then have "b \<in> set (roles_loop rs result queue)"
      using "2.IH"(1) [OF True _ _ "2.prems"(3,4)] "2.prems"(1) True by auto
    with True show ?thesis by simp
  next
    case out: False
    show ?thesis
    proof (cases "dget rs n")
      case None
      have "b' \<in> set result \<union> set queue"
        if "a' \<in> set result" "b' \<in> set (parents rs a')" "dget rs b' \<noteq> None" for a' b'
        using "2.prems"(1) [OF that] that(3) None by auto
      with "2.IH"(2) [OF out None _ _ "2.prems"(3,4)] "2.prems"(2) out None show ?thesis by auto
    next
      case (Some r)
      have "b' \<in> set (result @ [n]) \<union> set (rev (role_inherits r) @ queue)"
        if "a' \<in> set (result @ [n])" "b' \<in> set (parents rs a')" "dget rs b' \<noteq> None" for a' b'
        using "2.prems"(1) [of a' b'] that by (auto simp: parents_Some [OF Some])
      with "2.IH"(3) [OF out Some _ _ "2.prems"(3,4)] "2.prems"(2) out Some show ?thesis by auto
    qed
  qed
qed

lemma effective_roles_sound:
  "n \<in> set (effective_roles s u) \<Longrightarrow>
     dget (roles s) n \<noteq> None \<and> (\<exists>h \<in> set (held_roles s u). (h, n) \<in> (inherits_rel (roles s))\<^sup>*)"
  using roles_loop_sound [of "roles s" "[]" "rev (held_roles s u)"]
  by (auto simp: effective_roles_def)

lemma effective_roles_complete:
  assumes "h \<in> set (held_roles s u)" "(h, n) \<in> (inherits_rel (roles s))\<^sup>*"
    and all_defined: "dget (roles s) n \<noteq> None"
  shows "n \<in> set (effective_roles s u)"
  using assms(2,3)
proof (induction rule: rtrancl_induct)
  case base
  then show ?case
    using roles_loop_queue [of h "rev (held_roles s u)" "roles s" "[]"] assms(1)
    by (auto simp: effective_roles_def)
next
  case (step y z)
  have "dget (roles s) y \<noteq> None"
    using step.hyps(2) by (cases "dget (roles s) y") (auto simp: parents_def)
  then have "y \<in> set (effective_roles s u)" by (rule step.IH)
  then show ?case
    using roles_loop_closed [of "[]" "roles s" "rev (held_roles s u)" y z] step.hyps(2) step.prems
    by (auto simp: effective_roles_def)
qed

section \<open>Properties of the operations\<close>

lemma can_iff:
  "can s u p \<longleftrightarrow> (\<exists>r \<in> set (effective_roles s u). \<exists>g \<in> set (permissions_of s r). matches g p)"
  by (auto simp: can_def effective_permissions_def)

lemma find_Some_iff_ex: "(\<exists>y. find P xs = Some y) \<longleftrightarrow> (\<exists>x \<in> set xs. P x)"
  by (induction xs) auto

lemma explain_match_iff: "(\<exists>m. explain_match s u p = Some m) \<longleftrightarrow> can s u p"
  unfolding explain_match_def find_Some_iff_ex can_iff by auto

lemma roles_define_role: "roles (snd (define_role s n ps is d)) = dset n
    \<lparr>role_name = n, role_permissions = remdups ps, role_inherits = remdups is, role_description = d\<rparr> (roles s)"
  by (simp add: define_role_def Let_def split: sum.splits)

text \<open>
  When \<open>define_role\<close> returns normally, no role reachable from the new role along
  \<open>inherits\<close> inherits from itself, so resolution from it walks an acyclic hierarchy.
\<close>

theorem define_role_acyclic:
  assumes "fst (define_role s n ps is d) = Inr r"
    and "(n, y) \<in> (inherits_rel (roles (snd (define_role s n ps is d))))\<^sup>*"
  shows "(y, y) \<notin> (inherits_rel (roles (snd (define_role s n ps is d))))\<^sup>+"
proof -
  let ?s' = "snd (define_role s n ps is d)"
  have "assert_acyclic ?s' n = Inr ()"
    using assms(1) by (auto simp: define_role_def Let_def split: sum.splits)
  then have "acyclic_loop (roles ?s') [] [n] [] = Inr ()" by (simp add: assert_acyclic_def)
  from acyclic_loop_sound [OF this, of n y] assms(2) show ?thesis by simp
qed

text \<open>Editor inherits viewer: the check passes, and the theorem applies to the pair.\<close>

definition sample_rbac :: rbac where
  "sample_rbac = snd (define_role new_rbac ''viewer'' [''doc:read''] [] [])"

theorem define_role_acyclic_witness:
  "fst (define_role sample_rbac ''editor'' [''doc:write''] [''viewer''] []) \<noteq> Inl ValueError \<and>
   (''viewer'', ''viewer'') \<notin>
     (inherits_rel (roles (snd (define_role sample_rbac ''editor'' [''doc:write''] [''viewer''] []))))\<^sup>+"
proof -
  let ?d = "define_role sample_rbac ''editor'' [''doc:write''] [''viewer''] []"
  have ok: "fst ?d = Inr \<lparr>role_name = ''editor'', role_permissions = [''doc:write''],
      role_inherits = [''viewer''], role_description = []\<rparr>"
    by (simp add: define_role_def sample_rbac_def new_rbac_def assert_acyclic_def Let_def)
  have "(''editor'', ''viewer'') \<in> (inherits_rel (roles (snd ?d)))\<^sup>*"
    by (rule r_into_rtrancl) (simp add: roles_define_role parents_def)
  from define_role_acyclic [OF ok this] ok show ?thesis by simp
qed

definition diamond_rbac :: rbac where
  "diamond_rbac =
     (let s1 = snd (define_role new_rbac ''base'' [''doc:read''] [] []);
          s2 = snd (define_role s1 ''left'' [] [''base''] [])
      in snd (define_role s2 ''right'' [] [''base''] []))"

text \<open>
  The walk keeps every role it has seen on its path, also after it has backtracked.  A
  diamond (\<open>root\<close> inherits \<open>left\<close> and \<open>right\<close>, both inherit \<open>base\<close>) has no cycle,
  but \<open>define_role\<close> raises \<open>ValueError\<close> for it, and the refused role stays in the store.
\<close>

theorem define_role_rejects_diamond:
  "fst (define_role diamond_rbac ''root'' [] [''left'', ''right''] []) = Inl ValueError
   \<and> dget (roles (snd (define_role diamond_rbac ''root'' [] [''left'', ''right''] []))) ''root'' \<noteq> None
   \<and> map (parents (roles (snd (define_role diamond_rbac ''root'' [] [''left'', ''right''] []))))
       [''root'', ''left'', ''right'', ''base''] = [[''left'', ''right''], [''base''], [''base''], []]"
  by (simp add: define_role_def diamond_rbac_def new_rbac_def assert_acyclic_def Let_def parents_def)

lemma can_reachable:
  "can s u p \<longleftrightarrow>
     (\<exists>h \<in> set (held_roles s u). \<exists>n r. (h, n) \<in> (inherits_rel (roles s))\<^sup>*
        \<and> dget (roles s) n = Some r \<and> (\<exists>g \<in> set (role_permissions r). matches g p))"
proof
  assume "can s u p"
  then obtain n g where n: "n \<in> set (effective_roles s u)" and g: "g \<in> set (permissions_of s n)" "matches g p"
    unfolding can_iff by blast
  from effective_roles_sound [OF n] obtain h r where "h \<in> set (held_roles s u)"
      "(h, n) \<in> (inherits_rel (roles s))\<^sup>*" "dget (roles s) n = Some r" by blast
  with g show "\<exists>h \<in> set (held_roles s u). \<exists>n r. (h, n) \<in> (inherits_rel (roles s))\<^sup>*
        \<and> dget (roles s) n = Some r \<and> (\<exists>g \<in> set (role_permissions r). matches g p)"
    by (auto simp: permissions_of_def)
next
  assume "\<exists>h \<in> set (held_roles s u). \<exists>n r. (h, n) \<in> (inherits_rel (roles s))\<^sup>*
        \<and> dget (roles s) n = Some r \<and> (\<exists>g \<in> set (role_permissions r). matches g p)"
  then obtain h n r g where h: "h \<in> set (held_roles s u)" "(h, n) \<in> (inherits_rel (roles s))\<^sup>*"
      and r: "dget (roles s) n = Some r" and g: "g \<in> set (role_permissions r)" "matches g p" by blast
  from effective_roles_complete [OF h] r have "n \<in> set (effective_roles s u)" by simp
  moreover have "g \<in> set (permissions_of s n)" using r g by (simp add: permissions_of_def)
  ultimately show "can s u p" unfolding can_iff using g(2) by blast
qed

text \<open>
  C19: A subject can exercise a permission exactly when some role reachable along
  \<open>inherits\<close> from an assigned role is defined and carries a granted permission that matches.
\<close>

theorem can_iff_reachable:
  "can s u p \<longleftrightarrow>
     (\<exists>h \<in> set (held_roles s u). \<exists>n r. (h, n) \<in> (inherits_rel (roles s))\<^sup>*
        \<and> dget (roles s) n = Some r \<and> (\<exists>g \<in> set (role_permissions r). matches g p))"
  by (rule can_reachable)

end
