(* ===== verification/Abac.thy ===== *)
theory Abac
  imports Prelude
begin

text \<open>
  \<open>authlab/authz/abac.py\<close>: policies with a target and a condition, combined by
  deny-overrides with default deny.  A condition is a function of the request that may
  raise; the engine treats a raise as "does not fire".
\<close>

section \<open>Data\<close>

datatype effect = ALLOW | DENY

record request =
  subject :: pydict
  resource :: pydict
  action :: string
  environment :: pydict

type_synonym condition = "request \<Rightarrow> py_error + bool"

record policy =
  policy_name :: string
  policy_effect :: effect
  policy_actions :: "string list"
  policy_resource_types :: "string list"
  policy_condition :: "condition option"

record policy_decision =
  decision_effect :: effect
  decision_reason :: string
  decision_matched :: "string list"

definition allowed :: "policy_decision \<Rightarrow> bool" where
  "allowed d = (decision_effect d = ALLOW)"

section \<open>Policies\<close>

text \<open>
  \<open>request.resource.get("type", "")\<close>: an absent type is the empty string; a type that is
  not a string equals no entry of \<open>resource_types\<close>.
\<close>

definition resource_type_in :: "request \<Rightarrow> string list \<Rightarrow> bool" where
  "resource_type_in r types =
     (case dget (resource r) ''type'' of
        None \<Rightarrow> [] \<in> set types
      | Some (PStr t) \<Rightarrow> t \<in> set types
      | Some _ \<Rightarrow> False)"

definition applies_to :: "policy \<Rightarrow> request \<Rightarrow> bool" where
  "applies_to p r =
     (let action_ok = ''*'' \<in> set (policy_actions p) \<or> action r \<in> set (policy_actions p);
          type_ok = ''*'' \<in> set (policy_resource_types p)
                    \<or> resource_type_in r (policy_resource_types p)
      in action_ok \<and> type_ok)"

definition policy_evaluate :: "policy \<Rightarrow> request \<Rightarrow> bool" where
  "policy_evaluate p r =
     (case policy_condition p of
        None \<Rightarrow> True
      | Some c \<Rightarrow> (case c r of Inl _ \<Rightarrow> False | Inr b \<Rightarrow> b))"

section \<open>The engine\<close>

text \<open>One round of the loop: the accumulators are the names of allows and denies so far.\<close>

definition evaluate_step ::
  "request \<Rightarrow> policy \<Rightarrow> string list \<times> string list \<Rightarrow> string list \<times> string list" where
  "evaluate_step r p acc =
     (case acc of (allows, denies) \<Rightarrow>
       if \<not> applies_to p r then (allows, denies)
       else if \<not> policy_evaluate p r then (allows, denies)
       else if policy_effect p = DENY then (allows, denies @ [policy_name p])
       else (allows @ [policy_name p], denies))"

definition evaluate :: "policy list \<Rightarrow> request \<Rightarrow> policy_decision" where
  "evaluate policies r =
     (case fold (evaluate_step r) policies ([], []) of (allows, denies) \<Rightarrow>
       if denies \<noteq> []
       then \<lparr>decision_effect = DENY, decision_reason = ''explicit deny from '' @ repr_list denies,
             decision_matched = denies @ allows\<rparr>
       else if allows \<noteq> []
       then \<lparr>decision_effect = ALLOW, decision_reason = ''allowed by '' @ repr_list allows,
             decision_matched = allows\<rparr>
       else \<lparr>decision_effect = DENY, decision_reason = ''default deny: no policy matched'',
             decision_matched = []\<rparr>)"

definition abac_can :: "policy list \<Rightarrow> request \<Rightarrow> bool" where
  "abac_can policies r = allowed (evaluate policies r)"

section \<open>Condition combinators\<close>

fun all_of :: "condition list \<Rightarrow> condition" where
  "all_of [] r = Inr True"
| "all_of (c # cs) r =
     (case c r of Inl e \<Rightarrow> Inl e | Inr b \<Rightarrow> if b then all_of cs r else Inr False)"

fun any_of :: "condition list \<Rightarrow> condition" where
  "any_of [] r = Inr False"
| "any_of (c # cs) r =
     (case c r of Inl e \<Rightarrow> Inl e | Inr b \<Rightarrow> if b then Inr True else any_of cs r)"

definition negate :: "condition \<Rightarrow> condition" where
  "negate c r = (case c r of Inl e \<Rightarrow> Inl e | Inr b \<Rightarrow> Inr (\<not> b))"

definition bag :: "request \<Rightarrow> string \<Rightarrow> py_error + pydict" where
  "bag r name =
     (if name = ''subject'' then Inr (subject r)
      else if name = ''resource'' then Inr (resource r)
      else if name = ''environment'' then Inr (environment r)
      else Inl KeyError)"

definition attr_equals :: "string \<Rightarrow> string \<Rightarrow> pyval \<Rightarrow> condition" where
  "attr_equals b key value r =
     (case bag r b of Inl e \<Rightarrow> Inl e | Inr d \<Rightarrow> Inr (py_eq (pget d key) value))"

definition attr_in :: "string \<Rightarrow> string \<Rightarrow> pyval list \<Rightarrow> condition" where
  "attr_in b key values r =
     (case bag r b of Inl e \<Rightarrow> Inl e | Inr d \<Rightarrow> Inr (\<exists>v \<in> set values. py_eq (pget d key) v))"

text \<open>
  \<open>value in (bag.get(key) or [])\<close>: membership of a list, key of a dictionary, substring of
  a string; another truthy container is a \<open>TypeError\<close>.
\<close>

definition py_in :: "pyval \<Rightarrow> pyval \<Rightarrow> py_error + bool" where
  "py_in x c =
     (if \<not> truthy c then Inr False
      else (case c of
              PList xs \<Rightarrow> Inr (\<exists>y \<in> set xs. py_eq x y)
            | PDict d \<Rightarrow> (case x of
                  PStr s \<Rightarrow> Inr (s \<in> set (dkeys d))
                | PList _ \<Rightarrow> Inl TypeError
                | PDict _ \<Rightarrow> Inl TypeError
                | _ \<Rightarrow> Inr False)
            | PStr t \<Rightarrow> (case x of PStr s \<Rightarrow> Inr (sublist s t) | _ \<Rightarrow> Inl TypeError)
            | _ \<Rightarrow> Inl TypeError))"

definition attr_contains :: "string \<Rightarrow> string \<Rightarrow> pyval \<Rightarrow> condition" where
  "attr_contains b key value r =
     (case bag r b of Inl e \<Rightarrow> Inl e | Inr d \<Rightarrow> py_in value (pget d key))"

definition attr_lte :: "string \<Rightarrow> string \<Rightarrow> int \<Rightarrow> condition" where
  "attr_lte b key limit r =
     (case bag r b of
        Inl e \<Rightarrow> Inl e
      | Inr d \<Rightarrow> (case as_int (pget d key) of None \<Rightarrow> Inr False | Some i \<Rightarrow> Inr (i \<le> limit)))"

definition subject_matches_resource_owner :: "string \<Rightarrow> string \<Rightarrow> condition" where
  "subject_matches_resource_owner subject_key resource_key r =
     (let s = pget (subject r) subject_key; owner = pget (resource r) resource_key
      in Inr (truthy s \<and> truthy owner \<and> py_str s = py_str owner))"

definition time_between :: "int \<Rightarrow> int \<Rightarrow> string \<Rightarrow> condition" where
  "time_between start_hour end_hour key r =
     (case as_int (pget (environment r) key) of
        None \<Rightarrow> Inr False
      | Some hour \<Rightarrow> Inr (start_hour \<le> hour \<and> hour < end_hour))"

section \<open>What the loop collects\<close>

definition fires :: "request \<Rightarrow> policy \<Rightarrow> bool" where
  "fires r p \<longleftrightarrow> applies_to p r \<and> policy_evaluate p r"

lemma evaluate_step_eq:
  "evaluate_step r p (a, d) =
     (if fires r p then (if policy_effect p = DENY then (a, d @ [policy_name p])
                         else (a @ [policy_name p], d)) else (a, d))"
  by (simp add: evaluate_step_def fires_def)

lemma effect_neq_DENY [simp]: "e \<noteq> DENY \<longleftrightarrow> e = ALLOW"
  by (cases e) simp_all

lemma fold_evaluate_step:
  "fold (evaluate_step r) ps (a, d) =
     (a @ map policy_name (filter (\<lambda>p. fires r p \<and> policy_effect p = ALLOW) ps),
      d @ map policy_name (filter (\<lambda>p. fires r p \<and> policy_effect p = DENY) ps))"
  by (induction ps arbitrary: a d) (auto simp: evaluate_step_eq)

lemma evaluate_effect:
  "decision_effect (evaluate ps r) =
     (if \<exists>p \<in> set ps. fires r p \<and> policy_effect p = DENY then DENY
      else if \<exists>p \<in> set ps. fires r p then ALLOW else DENY)"
  by (auto simp: evaluate_def fold_evaluate_step filter_empty_conv)

lemma evaluate_matched:
  "set (decision_matched (evaluate ps r)) = policy_name ` {p \<in> set ps. fires r p}"
proof -
  have "set (decision_matched (evaluate ps r)) =
      policy_name ` {p \<in> set ps. fires r p \<and> policy_effect p = DENY}
      \<union> policy_name ` {p \<in> set ps. fires r p \<and> policy_effect p = ALLOW}"
    by (auto simp: evaluate_def fold_evaluate_step filter_empty_conv)
  also have "\<dots> = policy_name ` {p \<in> set ps. fires r p}"
    using effect_neq_DENY by blast
  finally show ?thesis .
qed

lemma abac_can_iff:
  "abac_can ps r \<longleftrightarrow> (\<exists>p \<in> set ps. fires r p) \<and> \<not> (\<exists>p \<in> set ps. fires r p \<and> policy_effect p = DENY)"
  by (auto simp: abac_can_def allowed_def evaluate_effect)

text \<open>
  C33: Deny-overrides with default deny.  A request is allowed exactly when some ALLOW policy
  fires and no DENY policy fires, whatever the order of the policies; the decision lists
  the names of exactly the policies that fired.
\<close>

theorem evaluate_deny_overrides:
  "(allowed (evaluate ps r) \<longleftrightarrow>
      (\<exists>p \<in> set ps. policy_effect p = ALLOW \<and> applies_to p r \<and> policy_evaluate p r)
      \<and> \<not> (\<exists>p \<in> set ps. policy_effect p = DENY \<and> applies_to p r \<and> policy_evaluate p r))
   \<and> set (decision_matched (evaluate ps r)) =
       policy_name ` {p \<in> set ps. applies_to p r \<and> policy_evaluate p r}"
proof
  show "allowed (evaluate ps r) \<longleftrightarrow>
      (\<exists>p \<in> set ps. policy_effect p = ALLOW \<and> applies_to p r \<and> policy_evaluate p r)
      \<and> \<not> (\<exists>p \<in> set ps. policy_effect p = DENY \<and> applies_to p r \<and> policy_evaluate p r)"
    using abac_can_iff [of ps r] effect_neq_DENY unfolding abac_can_def fires_def by blast
qed (use evaluate_matched [of ps r] in \<open>simp add: fires_def\<close>)

text \<open>
  A policy whose condition raises on a request never grants it: the decision is the one
  without that policy.  Adding any DENY policy never turns a refusal into a grant.
\<close>

theorem raising_condition_never_grants:
  assumes "policy_condition p = Some c" "c r = Inl e"
  shows "evaluate (ps @ p # qs) r = evaluate (ps @ qs) r"
proof -
  have "\<not> fires r p" using assms by (simp add: fires_def policy_evaluate_def)
  then have "evaluate_step r p acc = acc" for acc
    by (cases acc) (simp add: evaluate_step_eq)
  then show ?thesis by (simp add: evaluate_def)
qed

text \<open>The condition looks up a bag that does not exist and raises \<open>KeyError\<close>.\<close>

definition broken_policy :: policy where
  "broken_policy = \<lparr>policy_name = ''allow-all'', policy_effect = ALLOW, policy_actions = [''*''],
     policy_resource_types = [''*''], policy_condition = Some (attr_equals ''sbj'' ''id'' (PStr ''x''))\<rparr>"

definition plain_request :: request where
  "plain_request = \<lparr>subject = [(''id'', PStr ''x'')], resource = [], action = ''read'', environment = []\<rparr>"

theorem raising_condition_never_grants_witness:
  "evaluate ([] @ broken_policy # []) plain_request = evaluate ([] @ []) plain_request
   \<and> decision_effect (evaluate [] plain_request) = DENY"
proof
  show "evaluate ([] @ broken_policy # []) plain_request = evaluate ([] @ []) plain_request"
    by (rule raising_condition_never_grants
          [where c = "attr_equals ''sbj'' ''id'' (PStr ''x'')" and e = KeyError])
       (simp_all add: broken_policy_def attr_equals_def bag_def plain_request_def)
  show "decision_effect (evaluate [] plain_request) = DENY" by (simp add: evaluate_def)
qed

end
