(* ===== verification/Rebac.thy ===== *)
theory Rebac
  imports Search
begin

text \<open>
  \<open>authlab/authz/rebac.py\<close>: relation tuples, userset rewrites and the recursive
  \<open>check\<close>/\<open>expand\<close>.  The tuple set is a list in iteration order.  The recursion is cut by
  a depth cap and by the path of keys above the current call; \<open>derives\<close> is the
  specification without the path.  The locale \<open>guarded_search\<close> is interpreted on \<open>check\<close>,
  which gives that cutting cycles never changes an answer.
\<close>

section \<open>Data\<close>

definition MAX_DEPTH :: int where
  "MAX_DEPTH = 25"

record reltuple =
  tuple_object :: string
  tuple_relation :: string
  tuple_user :: string

definition tuple_str :: "reltuple \<Rightarrow> string" where
  "tuple_str t = tuple_object t @ ''#'' @ tuple_relation t @ ''@'' @ tuple_user t"

definition tuple_parse :: "string \<Rightarrow> py_error + reltuple" where
  "tuple_parse text =
     (case split_once CHR ''#'' text of
        None \<Rightarrow> Inl ValueError
      | Some (object_part, rest) \<Rightarrow>
          (case split_once CHR ''@'' rest of
             None \<Rightarrow> Inl ValueError
           | Some (relation, user) \<Rightarrow>
               Inr \<lparr>tuple_object = object_part, tuple_relation = relation, tuple_user = user\<rparr>))"

definition user_is_userset :: "reltuple \<Rightarrow> bool" where
  "user_is_userset t = (CHR ''#'' \<in> set (tuple_user t))"

definition userset_of :: "reltuple \<Rightarrow> (string \<times> string) option" where
  "userset_of t = split_once CHR ''#'' (tuple_user t)"

datatype userset = Userset
  (us_kind: string)
  (us_relation: "string option")
  (us_tupleset_relation: "string option")
  (us_children: "userset list")

definition us_this :: userset where
  "us_this = Userset ''this'' None None []"

definition us_computed :: "string \<Rightarrow> userset" where
  "us_computed r = Userset ''computed_userset'' (Some r) None []"

definition us_through :: "string \<Rightarrow> string \<Rightarrow> userset" where
  "us_through t r = Userset ''tuple_to_userset'' (Some r) (Some t) []"

definition us_union :: "userset list \<Rightarrow> userset" where
  "us_union cs = Userset ''union'' None None cs"

type_synonym namespace_rules = "(string, userset) dict"

record rebac =
  max_depth :: int
  namespaces :: "(string, namespace_rules) dict"
  tuples :: "reltuple list"

definition new_rebac :: "int \<Rightarrow> py_error + rebac" where
  "new_rebac d = (if d < 0 then Inl ValueError
     else Inr \<lparr>max_depth = d, namespaces = [], tuples = []\<rparr>)"

text \<open>
  \<open>engine.namespace(name).relation(r, rewrite)\<close>: create the namespace when absent, then
  set the relation (the rewrite is \<open>this\<close> when none is given).
\<close>

definition namespace :: "rebac \<Rightarrow> string \<Rightarrow> rebac" where
  "namespace e name =
     (case dget (namespaces e) name of
        None \<Rightarrow> e\<lparr>namespaces := dset name [] (namespaces e)\<rparr>
      | Some _ \<Rightarrow> e)"

definition relation :: "rebac \<Rightarrow> string \<Rightarrow> string \<Rightarrow> userset option \<Rightarrow> rebac" where
  "relation e name r rewrite =
     (let e' = namespace e name;
          ns = (case dget (namespaces e') name of None \<Rightarrow> [] | Some n \<Rightarrow> n);
          rw = (case rewrite of None \<Rightarrow> us_this | Some u \<Rightarrow> u)
      in e'\<lparr>namespaces := dset name (dset r rw ns) (namespaces e')\<rparr>)"

definition rebac_write :: "rebac \<Rightarrow> reltuple \<Rightarrow> rebac" where
  "rebac_write e t = (if t \<in> set (tuples e) then e else e\<lparr>tuples := tuples e @ [t]\<rparr>)"

definition rebac_delete :: "rebac \<Rightarrow> reltuple \<Rightarrow> rebac" where
  "rebac_delete e t = e\<lparr>tuples := filter (\<lambda>u. u \<noteq> t) (tuples e)\<rparr>"

text \<open>\<open>write\<close> of a text: parsed first; a parse error leaves the store as it was.\<close>

definition write_text :: "rebac \<Rightarrow> string \<Rightarrow> (py_error + unit) \<times> rebac" where
  "write_text e s = (case tuple_parse s of Inl x \<Rightarrow> (Inl x, e) | Inr t \<Rightarrow> (Inr (), rebac_write e t))"

section \<open>Evaluation\<close>

definition object_type :: "string \<Rightarrow> string" where
  "object_type o1 = before_first CHR '':'' o1"

definition rewrite_for :: "rebac \<Rightarrow> string \<Rightarrow> string \<Rightarrow> userset" where
  "rewrite_for e o1 r =
     (case dget (namespaces e) (object_type o1) of
        None \<Rightarrow> us_this
      | Some ns \<Rightarrow> (case dget ns r of None \<Rightarrow> us_this | Some rw \<Rightarrow> rw))"

definition direct :: "rebac \<Rightarrow> string \<Rightarrow> string \<Rightarrow> string list" where
  "direct e o1 r =
     map tuple_user (filter (\<lambda>t. tuple_object t = o1 \<and> tuple_relation t = r) (tuples e))"

definition or_empty :: "string option \<Rightarrow> string" where
  "or_empty x = (case x of None \<Rightarrow> [] | Some s \<Rightarrow> s)"

type_synonym key = "string \<times> string \<times> string"

function check :: "rebac \<Rightarrow> string \<Rightarrow> string \<Rightarrow> string \<Rightarrow> int \<Rightarrow> key set \<Rightarrow> bool"
  and check_userset :: "rebac \<Rightarrow> userset \<Rightarrow> string \<Rightarrow> string \<Rightarrow> string \<Rightarrow> int \<Rightarrow> key set \<Rightarrow> bool"
where
  "check e o1 r u depth seen =
     (if depth > max_depth e then False
      else if (o1, r, u) \<in> seen then False
      else check_userset e (rewrite_for e o1 r) o1 r u depth (insert (o1, r, u) seen))"
| "check_userset e (Userset kind rel trel children) o1 r u depth seen =
     (if kind = ''union'' then
        list_ex (\<lambda>c. check_userset e c o1 r u depth seen) children
      else if kind = ''this'' then
        list_ex (\<lambda>c.
          if c = u then True
          else (case split_once CHR ''#'' c of
                  Some (sub_object, sub_relation) \<Rightarrow>
                    if check e sub_object sub_relation u (depth + 1) seen then True
                    else suffix '':*'' c \<and> prefix (butlast c) u
                | None \<Rightarrow> suffix '':*'' c \<and> prefix (butlast c) u)) (direct e o1 r)
      else if kind = ''computed_userset'' then
        check e o1 (or_empty rel) u (depth + 1) seen
      else if kind = ''tuple_to_userset'' then
        list_ex (\<lambda>p. check e (before_first CHR ''#'' p) (or_empty rel) u (depth + 1) seen)
          (direct e o1 (or_empty trel))
      else False)"
  by pat_completeness auto
termination
proof (relation "measures [\<lambda>x. (case x of
      Inl (e, o1, r, u, d, s) \<Rightarrow> if d > max_depth e then 0 else 2 * nat (max_depth e + 1 - d)
    | Inr (e, rw, o1, r, u, d, s) \<Rightarrow> if d > max_depth e then 1 else 2 * nat (max_depth e + 1 - d) - 1),
    \<lambda>x. (case x of Inl _ \<Rightarrow> 0 | Inr (e, rw, o1, r, u, d, s) \<Rightarrow> size rw)]", goal_cases)
  case (3 e kind rel trel children o1 r u depth seen c)
  then have "size c < Suc (size_list size children)"
    by (induction children) auto
  then show ?case by simp
qed auto

definition rebac_check :: "rebac \<Rightarrow> string \<Rightarrow> string \<Rightarrow> string \<Rightarrow> bool" where
  "rebac_check e o1 r u = check e o1 r u 0 {}"

declare check.simps [simp del] check_userset.simps [simp del]

section \<open>The userset tree\<close>

datatype expansion =
    DepthLimit
  | Cycle string
  | UnionNode "expansion list"
  | ThisNode string "string list" "(string \<times> expansion) list"
  | ComputedNode "string option" expansion
  | ThroughNode "(string \<times> expansion) list"
  | UnknownNode

function expand :: "rebac \<Rightarrow> string \<Rightarrow> string \<Rightarrow> int \<Rightarrow> (string \<times> string) set \<Rightarrow> expansion"
  and expand_userset ::
    "rebac \<Rightarrow> userset \<Rightarrow> string \<Rightarrow> string \<Rightarrow> int \<Rightarrow> (string \<times> string) set \<Rightarrow> expansion"
where
  "expand e o1 r depth path =
     (if depth > max_depth e then DepthLimit
      else if (o1, r) \<in> path then Cycle (o1 @ ''#'' @ r)
      else expand_userset e (rewrite_for e o1 r) o1 r depth (insert (o1, r) path))"
| "expand_userset e (Userset kind rel trel children) o1 r depth path =
     (if kind = ''union'' then
        UnionNode (map (\<lambda>c. expand_userset e c o1 r depth path) children)
      else if kind = ''this'' then
        (let candidates = sort (direct e o1 r)
         in ThisNode (o1 @ ''#'' @ r)
              (filter (\<lambda>c. CHR ''#'' \<notin> set c) candidates)
              (map (\<lambda>c. (c, case split_once CHR ''#'' c of
                    None \<Rightarrow> UnknownNode
                  | Some (sub_object, sub_relation) \<Rightarrow>
                      expand e sub_object sub_relation (depth + 1) path))
                (filter (\<lambda>c. CHR ''#'' \<in> set c) candidates)))
      else if kind = ''computed_userset'' then
        ComputedNode rel (expand e o1 (or_empty rel) (depth + 1) path)
      else if kind = ''tuple_to_userset'' then
        ThroughNode (map (\<lambda>p.
            (o1 @ ''#'' @ (case trel of None \<Rightarrow> ''None'' | Some t \<Rightarrow> t) @ ''@'' @ p,
             expand e (before_first CHR ''#'' p) (or_empty rel) (depth + 1) path))
          (sort (direct e o1 (or_empty trel))))
      else UnknownNode)"
  by pat_completeness auto
termination
proof (relation "measures [\<lambda>x. (case x of
      Inl (e, o1, r, d, s) \<Rightarrow> if d > max_depth e then 0 else 2 * nat (max_depth e + 1 - d)
    | Inr (e, rw, o1, r, d, s) \<Rightarrow> if d > max_depth e then 1 else 2 * nat (max_depth e + 1 - d) - 1),
    \<lambda>x. (case x of Inl _ \<Rightarrow> 0 | Inr (e, rw, o1, r, d, s) \<Rightarrow> size rw)]", goal_cases)
  case (3 e kind rel trel children o1 r depth path c)
  then have "size c < Suc (size_list size children)"
    by (induction children) auto
  then show ?case by simp
qed auto

declare expand.simps [simp del] expand_userset.simps [simp del]

text \<open>\<open>found\<close> of \<open>list_users\<close>, in order of discovery.\<close>

fun walk :: "expansion \<Rightarrow> string list" where
  "walk (ThisNode _ users usersets) = users @ concat (map (\<lambda>(c, x). walk x) usersets)"
| "walk (UnionNode cs) = concat (map walk cs)"
| "walk (ComputedNode _ x) = walk x"
| "walk (ThroughNode bs) = concat (map (\<lambda>(v, x). walk x) bs)"
| "walk _ = []"

definition list_users :: "rebac \<Rightarrow> string \<Rightarrow> string \<Rightarrow> string list" where
  "list_users e o1 r = sort (remdups (walk (expand e o1 r 0 {})))"

definition list_objects :: "rebac \<Rightarrow> string \<Rightarrow> string \<Rightarrow> string \<Rightarrow> string list" where
  "list_objects e u r otype =
     (let named = filter (prefix (otype @ '':'')) (map tuple_object (tuples e));
          targets = filter (prefix (otype @ '':''))
            (map (\<lambda>t. before_first CHR ''#'' (tuple_user t)) (tuples e))
      in sort (filter (\<lambda>o1. rebac_check e o1 r u) (remdups (named @ targets))))"

section \<open>The specification without the path\<close>

text \<open>
  One level of a rewrite, with the answers of the next level given by \<open>f\<close>; \<open>derives n\<close>
  nests at most \<open>n\<close> levels and keeps no path.
\<close>

definition direct_match :: "(string \<Rightarrow> string \<Rightarrow> bool) \<Rightarrow> string \<Rightarrow> string \<Rightarrow> bool" where
  "direct_match f u c \<longleftrightarrow> c = u
     \<or> (\<exists>a b. split_once CHR ''#'' c = Some (a, b) \<and> f a b)
     \<or> (suffix '':*'' c \<and> prefix (butlast c) u)"

fun eval_userset ::
  "rebac \<Rightarrow> (string \<Rightarrow> string \<Rightarrow> bool) \<Rightarrow> userset \<Rightarrow> string \<Rightarrow> string \<Rightarrow> string \<Rightarrow> bool" where
  "eval_userset e f (Userset kind rel trel children) o1 r u =
     (if kind = ''union'' then (\<exists>c \<in> set children. eval_userset e f c o1 r u)
      else if kind = ''this'' then
        (\<exists>c \<in> set (direct e o1 r). direct_match f u c)
      else if kind = ''computed_userset'' then f o1 (or_empty rel)
      else if kind = ''tuple_to_userset'' then
        (\<exists>p \<in> set (direct e o1 (or_empty trel)). f (before_first CHR ''#'' p) (or_empty rel))
      else False)"

definition rebac_step ::
  "rebac \<Rightarrow> string \<Rightarrow> (string \<times> string \<Rightarrow> bool) \<Rightarrow> string \<times> string \<Rightarrow> bool" where
  "rebac_step e u f k =
     eval_userset e (\<lambda>a b. f (a, b)) (rewrite_for e (fst k) (snd k)) (fst k) (snd k) u"

definition derives :: "rebac \<Rightarrow> string \<Rightarrow> nat \<Rightarrow> string \<Rightarrow> string \<Rightarrow> bool" where
  "derives e u n o1 r = level (rebac_step e u) n (o1, r)"

lemma direct_match_mono:
  "direct_match f u c \<Longrightarrow> (\<And>a b. f a b \<Longrightarrow> g a b) \<Longrightarrow> direct_match g u c"
  unfolding direct_match_def by metis

lemma direct_match_user: "direct_match f u u"
  by (simp add: direct_match_def)

lemma direct_match_userset: "split_once CHR ''#'' c = Some (a, b) \<Longrightarrow> f a b \<Longrightarrow> direct_match f u c"
  by (auto simp: direct_match_def)

lemma eval_userset_mono:
  "eval_userset e f rw o1 r u \<Longrightarrow> (\<And>a b. f a b \<Longrightarrow> g a b) \<Longrightarrow> eval_userset e g rw o1 r u"
proof (induction rw)
  case (Userset kind rel trel children)
  note fg = Userset.prems(2)
  have sub: "\<And>c. c \<in> set children \<Longrightarrow> eval_userset e f c o1 r u \<Longrightarrow> eval_userset e g c o1 r u"
    using Userset.IH fg by blast
  consider "kind = ''union''" | "kind = ''this''" | "kind = ''computed_userset''"
    | "kind = ''tuple_to_userset''"
  proof (rule ccontr)
    assume "\<not> thesis"
    with that have "kind \<noteq> ''union''" "kind \<noteq> ''this''" "kind \<noteq> ''computed_userset''"
      "kind \<noteq> ''tuple_to_userset''" by blast+
    with Userset.prems(1) show False by simp
  qed
  then show ?case
  proof cases
    case 1
    with Userset.prems(1) show ?thesis by (auto intro: sub)
  next
    case 2
    with Userset.prems(1) show ?thesis by (auto intro: direct_match_mono fg)
  qed (use Userset.prems(1) in \<open>auto intro: fg\<close>)
qed

lemma direct_match_code:
  "direct_match f u c \<longleftrightarrow>
     (if c = u then True
      else (case split_once CHR ''#'' c of
              Some (a, b) \<Rightarrow> if f a b then True else suffix '':*'' c \<and> prefix (butlast c) u
            | None \<Rightarrow> suffix '':*'' c \<and> prefix (butlast c) u))"
  by (cases "split_once CHR ''#'' c") (auto simp: direct_match_def)

text \<open>The two mutually recursive functions are one level of \<open>eval_userset\<close> over \<open>check\<close>.\<close>

lemma check_userset_eq:
  "check_userset e rw o1 r u depth seen =
     eval_userset e (\<lambda>a b. check e a b u (depth + 1) seen) rw o1 r u"
proof (induction rw)
  case (Userset kind rel trel children)
  have union: "(\<exists>c \<in> set children. check_userset e c o1 r u depth seen) \<longleftrightarrow>
      (\<exists>c \<in> set children. eval_userset e (\<lambda>a b. check e a b u (depth + 1) seen) c o1 r u)"
    using Userset.IH by auto
  show ?case
    unfolding check_userset.simps direct_match_code [symmetric] eval_userset.simps list_ex_iff
    by (simp only: union)
qed

lemma check_eq:
  "check e o1 r u depth seen \<longleftrightarrow> depth \<le> max_depth e \<and> (o1, r, u) \<notin> seen \<and>
     eval_userset e (\<lambda>a b. check e a b u (depth + 1) (insert (o1, r, u) seen)) (rewrite_for e o1 r) o1 r u"
  by (subst check.simps) (auto simp: check_userset_eq)

interpretation rs: guarded_search "rebac_step e u" "max_depth e"
  "\<lambda>d seen k. check e (fst k) (snd k) u d ((\<lambda>(a, b). (a, b, u)) ` seen)" for e u
proof unfold_locales
  fix f g :: "string \<times> string \<Rightarrow> bool" and k
  assume "rebac_step e u f k" "\<And>j. f j \<Longrightarrow> g j"
  then show "rebac_step e u g k"
    unfolding rebac_step_def by (rule eval_userset_mono) blast
next
  fix d seen and k :: "string \<times> string"
  show "check e (fst k) (snd k) u d ((\<lambda>(a, b). (a, b, u)) ` seen) \<longleftrightarrow>
      d \<le> max_depth e \<and> k \<notin> seen \<and>
      rebac_step e u (\<lambda>j. check e (fst j) (snd j) u (d + 1) ((\<lambda>(a, b). (a, b, u)) ` insert k seen)) k"
    by (subst check_eq) (auto simp: rebac_step_def case_prod_beta)
qed

lemma derives_Suc:
  "derives e u (Suc n) o1 r \<longleftrightarrow> eval_userset e (derives e u n) (rewrite_for e o1 r) o1 r u"
proof -
  have "derives e u n = (\<lambda>a b. level (rebac_step e u) n (a, b))" by (intro ext) (rule derives_def)
  then show ?thesis by (simp add: derives_def rebac_step_def)
qed

lemma derives_mono: "m \<le> n \<Longrightarrow> derives e u m o1 r \<Longrightarrow> derives e u n o1 r"
  unfolding derives_def by (rule rs.level_mono)

lemma check_derives: "rebac_check e o1 r u \<longleftrightarrow> derives e u (nat (max_depth e + 1)) o1 r"
  using rs.search_iff_level [where e = e and u = u and k = "(o1, r)"]
  by (simp add: rebac_check_def derives_def)

text \<open>
  C9: The recursive \<open>check\<close>, with its depth cap and its cycle guard, answers exactly as the
  unguarded specification nested \<open>max_depth + 1\<close> levels deep: cutting a cycle never
  changes an answer, and only the depth cap can refuse a derivable relation.
\<close>

theorem check_eq_derives:
  "rebac_check e o1 r u \<longleftrightarrow> derives e u (nat (max_depth e + 1)) o1 r"
  by (rule check_derives)

section \<open>Users listed by the tree can be checked\<close>

lemma walk_expand_userset:
  assumes "u \<in> set (walk (expand_userset e rw o1 r depth path))"
    and "\<And>a b. u \<in> set (walk (expand e a b (depth + 1) path)) \<Longrightarrow> f a b"
  shows "eval_userset e f rw o1 r u"
  using assms(1)
proof (induction rw)
  case (Userset kind rel trel children)
  show ?case
  proof (cases "kind = ''this''")
    case True
    from Userset.prems True consider "u \<in> set (direct e o1 r)"
      | c a b where "c \<in> set (direct e o1 r)" "split_once CHR ''#'' c = Some (a, b)"
          "u \<in> set (walk (expand e a b (depth + 1) path))"
      by (auto simp: expand_userset.simps Let_def split: option.splits)
    then show ?thesis
      using True assms(2) by cases (auto intro: direct_match_user direct_match_userset)
  next
    case False
    with Userset show ?thesis
      by (auto simp: expand_userset.simps Let_def split: if_splits dest!: assms(2))
  qed
qed

lemma walk_expand_sound:
  "u \<in> set (walk (expand e o1 r depth path)) \<Longrightarrow> derives e u (nat (max_depth e + 1 - depth)) o1 r"
proof (induction "nat (max_depth e + 1 - depth)" arbitrary: o1 r depth path)
  case 0
  then show ?case by (subst (asm) expand.simps) simp
next
  case (Suc n)
  from Suc.prems have step: "u \<in> set (walk (expand_userset e (rewrite_for e o1 r) o1 r depth (insert (o1, r) path)))"
    by (subst (asm) expand.simps) (auto split: if_splits)
  have n: "n = nat (max_depth e + 1 - (depth + 1))" using Suc.hyps(2) by linarith
  have "eval_userset e (derives e u n) (rewrite_for e o1 r) o1 r u"
    by (rule walk_expand_userset [OF step]) (use Suc.hyps(1) [OF n] n in simp)
  then show ?case using Suc.hyps(2) by (metis derives_Suc)
qed

text \<open>
  Every user the sharing dialog lists (\<open>list_users\<close>, the leaves of \<open>expand\<close>) passes
  \<open>check\<close> for that object and relation, and \<open>list_objects\<close> lists exactly the objects of the
  type, named by some tuple, on which the check succeeds.
\<close>

theorem listings_agree_with_check:
  "set (list_users e o1 r) \<subseteq> {x. rebac_check e o1 r x}
   \<and> set (list_objects e u r t) =
       {x. rebac_check e x r u \<and> prefix (t @ '':'') x
           \<and> x \<in> tuple_object ` set (tuples e)
                \<union> (\<lambda>y. before_first CHR ''#'' (tuple_user y)) ` set (tuples e)}"
proof
  show "set (list_users e o1 r) \<subseteq> {x. rebac_check e o1 r x}"
    using walk_expand_sound [of _ e o1 r 0 "{}"] by (auto simp: list_users_def check_derives)
  show "set (list_objects e u r t) =
       {x. rebac_check e x r u \<and> prefix (t @ '':'') x
           \<and> x \<in> tuple_object ` set (tuples e)
                \<union> (\<lambda>y. before_first CHR ''#'' (tuple_user y)) ` set (tuples e)}"
    by (auto simp: list_objects_def)
qed

section \<open>The worked example\<close>

definition google_drive_model :: rebac where
  "google_drive_model =
     (let e = \<lparr>max_depth = MAX_DEPTH, namespaces = [], tuples = []\<rparr>;
          e = relation e ''group'' ''member'' None;
          e = relation e ''folder'' ''owner'' None;
          e = relation e ''folder'' ''editor'' (Some (us_union [us_this, us_computed ''owner'']));
          e = relation e ''folder'' ''viewer'' (Some (us_union [us_this, us_computed ''editor'']));
          e = relation e ''document'' ''parent'' None;
          e = relation e ''document'' ''owner'' None;
          e = relation e ''document'' ''editor'' (Some (us_union
                [us_this, us_computed ''owner'', us_through ''parent'' ''editor'']));
          e = relation e ''document'' ''viewer'' (Some (us_union
                [us_this, us_computed ''editor'', us_through ''parent'' ''viewer'']))
      in e)"

text \<open>What a schema call changes.\<close>

lemma dget_relation:
  "dget (namespaces (relation e n r rw)) m =
     (if m = n then Some (dset r (case rw of None \<Rightarrow> us_this | Some u \<Rightarrow> u)
        (case dget (namespaces e) n of None \<Rightarrow> [] | Some ns \<Rightarrow> ns))
      else dget (namespaces e) m)"
  by (auto simp: relation_def namespace_def Let_def split: option.splits)

lemma relation_frame [simp]:
  "max_depth (relation e n r rw) = max_depth e" "tuples (relation e n r rw) = tuples e"
  by (auto simp: relation_def namespace_def Let_def split: option.splits)

lemma drive_namespaces:
  "dget (namespaces google_drive_model) ''folder'' = Some
     [(''owner'', us_this), (''editor'', us_union [us_this, us_computed ''owner'']),
      (''viewer'', us_union [us_this, us_computed ''editor''])]"
  "dget (namespaces google_drive_model) ''document'' = Some
     [(''parent'', us_this), (''owner'', us_this),
      (''editor'', us_union [us_this, us_computed ''owner'', us_through ''parent'' ''editor'']),
      (''viewer'', us_union [us_this, us_computed ''editor'', us_through ''parent'' ''viewer''])]"
  by (simp_all add: google_drive_model_def dget_relation)

lemma drive_max_depth: "max_depth google_drive_model = 25"
  by (simp add: google_drive_model_def MAX_DEPTH_def)

lemma direct_in:
  "t \<in> set (tuples e) \<Longrightarrow> tuple_object t = a \<Longrightarrow> tuple_relation t = r \<Longrightarrow>
     tuple_user t \<in> set (direct e a r)"
  by (auto simp: direct_def)

lemma derives_this:
  "rewrite_for e a r = us_this \<Longrightarrow> u \<in> set (direct e a r) \<Longrightarrow> derives e u (Suc n) a r"
  by (auto simp: derives_Suc us_this_def intro: direct_match_user)

lemma derives_union_computed:
  "rewrite_for e a r = us_union cs \<Longrightarrow> us_computed q \<in> set cs \<Longrightarrow> derives e u n a q \<Longrightarrow>
     derives e u (Suc n) a r"
  by (force simp: derives_Suc us_union_def us_computed_def or_empty_def)

lemma derives_union_through:
  "rewrite_for e a r = us_union cs \<Longrightarrow> us_through t q \<in> set cs \<Longrightarrow> p \<in> set (direct e a t) \<Longrightarrow>
     derives e u n (before_first CHR ''#'' p) q \<Longrightarrow> derives e u (Suc n) a r"
  by (force simp: derives_Suc us_union_def us_through_def or_empty_def)

text \<open>
  In the document/folder model, whatever other tuples are stored, the owner of a folder
  views every document whose parent is that folder: ownership flows through \<open>editor\<close>,
  \<open>viewer\<close> and the parent relation.
\<close>

theorem folder_owner_views_document:
  assumes "e = google_drive_model\<lparr>tuples := ts\<rparr>"
    and "object_type d = ''document''" and "object_type f = ''folder''" and "CHR ''#'' \<notin> set f"
    and "\<lparr>tuple_object = d, tuple_relation = ''parent'', tuple_user = f\<rparr> \<in> set ts"
    and "\<lparr>tuple_object = f, tuple_relation = ''owner'', tuple_user = u\<rparr> \<in> set ts"
  shows "rebac_check e d ''viewer'' u"
proof -
  have rw: "rewrite_for e f ''owner'' = us_this"
    "rewrite_for e f ''editor'' = us_union [us_this, us_computed ''owner'']"
    "rewrite_for e f ''viewer'' = us_union [us_this, us_computed ''editor'']"
    "rewrite_for e d ''viewer'' = us_union [us_this, us_computed ''editor'', us_through ''parent'' ''viewer'']"
    by (simp_all add: rewrite_for_def assms(1-3) drive_namespaces)
  have fu: "u \<in> set (direct e f ''owner'')" and df: "f \<in> set (direct e d ''parent'')"
    using direct_in [of _ e] assms(1,5,6) by fastforce+
  have bf: "before_first CHR ''#'' f = f"
    unfolding before_first_def using assms(4) by (subst takeWhile_eq_all_conv) auto
  have "derives e u (Suc 0) f ''owner''" by (rule derives_this [OF rw(1) fu])
  then have "derives e u (Suc (Suc 0)) f ''editor''" by (rule derives_union_computed [OF rw(2), rotated]) simp
  then have "derives e u (Suc (Suc (Suc 0))) f ''viewer''" by (rule derives_union_computed [OF rw(3), rotated]) simp
  then have "derives e u (Suc (Suc (Suc (Suc 0)))) d ''viewer''"
    by (intro derives_union_through [OF rw(4) _ df]) (simp_all only: bf list.set, simp)
  then have "derives e u (nat (max_depth e + 1)) d ''viewer''"
    by (rule derives_mono [rotated]) (simp add: assms(1) drive_max_depth)
  then show ?thesis by (simp add: check_derives)
qed

definition drive_tuples :: "reltuple list" where
  "drive_tuples =
     [\<lparr>tuple_object = ''folder:2024'', tuple_relation = ''owner'', tuple_user = ''user:alice''\<rparr>,
      \<lparr>tuple_object = ''document:budget'', tuple_relation = ''parent'', tuple_user = ''folder:2024''\<rparr>]"

theorem folder_owner_views_document_witness:
  "rebac_check (google_drive_model\<lparr>tuples := drive_tuples\<rparr>) ''document:budget'' ''viewer'' ''user:alice''"
  by (rule folder_owner_views_document [where ts = drive_tuples and f = "''folder:2024''"])
     (simp_all add: drive_tuples_def object_type_def before_first_def)

text \<open>
  Parsing the text of a tuple gives the tuple back when its object has no \<open>#\<close> and its
  relation no \<open>@\<close>; the user part is free, so usersets survive.
\<close>

theorem tuple_parse_str:
  assumes "CHR ''#'' \<notin> set (tuple_object t)" and "CHR ''@'' \<notin> set (tuple_relation t)"
  shows "tuple_parse (tuple_str t) = Inr t"
  using assms by (simp add: tuple_parse_def tuple_str_def split_once_append)

theorem tuple_parse_str_witness:
  "tuple_parse (tuple_str \<lparr>tuple_object = ''document:budget'', tuple_relation = ''editor'',
      tuple_user = ''group:finance#member''\<rparr>)
   = Inr \<lparr>tuple_object = ''document:budget'', tuple_relation = ''editor'',
      tuple_user = ''group:finance#member''\<rparr>"
  by (rule tuple_parse_str) simp_all

end
