(* ===== verification/PolicyComparison.thy ===== *)
theory PolicyComparison
  imports Rbac Abac Rebac "HOL-Library.Multiset"
begin

text \<open>
  \<open>authlab/authz/policy_comparison.py\<close>: one data set seen by five adapters (RBAC, ABAC,
  ReBAC, Cedar, Rego), which must agree.  Sets are lists in iteration order.  The names of
  \<open>Subject\<close>, \<open>Resource\<close> and \<open>AccessRequest\<close> fields carry a prefix.
\<close>

section \<open>Data\<close>

definition MAX_RELATIONSHIP_DEPTH :: int where
  "MAX_RELATIONSHIP_DEPTH = 25"

record subj =
  s_id :: string
  s_tenant :: string
  s_direct_groups :: "string list"
  s_tenant_admin :: bool

record res =
  r_id :: string
  r_tenant :: string
  r_owner :: string
  r_reader_group :: "string option"
  r_locked :: bool

record access_request =
  q_subject_id :: string
  q_action :: string
  q_resource_id :: string

record comparison_decision =
  d_model :: string
  d_allowed :: bool
  d_reason_code :: string
  d_policies :: "string list"

record relationship_resolution =
  rr_matched :: bool
  rr_visited :: "string list"
  rr_cycle_detected :: bool
  rr_depth_limited :: bool

record policy_dataset =
  subjects :: "(string, subj) dict"
  resources :: "(string, res) dict"
  group_parents :: "(string, string list) dict"
  max_relationship_depth :: int

section \<open>Nested group membership\<close>

definition parents_of :: "policy_dataset \<Rightarrow> string \<Rightarrow> string list" where
  "parents_of D g = (case dget (group_parents D) g of None \<Rightarrow> [] | Some ps \<Rightarrow> ps)"

lemma mult_drop: "(N, add_mset a N) \<in> mult less_than"
  using one_step_implies_mult [of "{#a#}" "{#}" less_than N] by simp

text \<open>
  The loop of \<open>resolve_group\<close>.  \<open>pending\<close> has the top of the stack first; the parents are
  pushed in reverse order, so the smallest is on top.
\<close>

function resolve_loop ::
  "policy_dataset \<Rightarrow> string \<Rightarrow> (string \<times> int \<times> string set) list \<Rightarrow> string list \<Rightarrow> bool \<Rightarrow> bool
     \<Rightarrow> relationship_resolution" where
  "resolve_loop D target [] visited cycle limited =
     \<lparr>rr_matched = False, rr_visited = sort visited, rr_cycle_detected = cycle,
      rr_depth_limited = limited\<rparr>"
| "resolve_loop D target ((grp, depth, path) # pending) visited cycle limited =
     (if grp \<in> path then resolve_loop D target pending visited True limited
      else if depth > max_relationship_depth D then resolve_loop D target pending visited cycle True
      else if grp = target then
        \<lparr>rr_matched = True, rr_visited = sort (List.insert grp visited), rr_cycle_detected = cycle,
         rr_depth_limited = limited\<rparr>
      else resolve_loop D target
             (map (\<lambda>p. (p, depth + 1, insert grp path)) (sort (parents_of D grp)) @ pending)
             (List.insert grp visited) cycle limited)"
  by pat_completeness auto
termination
proof (relation "inv_image (mult less_than)
    (\<lambda>(D, t, pending, v, c, l). mset (map (\<lambda>(g, d, p). nat (max_relationship_depth D + 1 - d)) pending))",
    goal_cases)
  case 1
  show ?case by (intro wf_inv_image wf_mult) simp
next
  case (4 D target grp depth path pending visited cycle limited)
  let ?I = "mset (map (\<lambda>(g, d, p). nat (max_relationship_depth D + 1 - d)) pending)"
  let ?K = "mset (map (\<lambda>x. nat (max_relationship_depth D - depth)) (parents_of D grp))"
  have "(?I + ?K, ?I + {#nat (max_relationship_depth D + 1 - depth)#}) \<in> mult less_than"
    by (rule one_step_implies_mult) (use 4 in auto)
  then show ?case by (simp add: multiset.map_comp comp_def add.commute)
qed (auto intro: mult_drop)

definition resolve_group :: "policy_dataset \<Rightarrow> string \<Rightarrow> string \<Rightarrow> relationship_resolution" where
  "resolve_group D subject_id target =
     (case dget (subjects D) subject_id of
        None \<Rightarrow> \<lparr>rr_matched = False, rr_visited = [], rr_cycle_detected = False, rr_depth_limited = False\<rparr>
      | Some s \<Rightarrow>
          resolve_loop D target (rev (map (\<lambda>g. (g, 0, {})) (sort (s_direct_groups s)))) [] False False)"

declare resolve_loop.simps [simp del]

section \<open>Adapters\<close>

definition deny :: "string \<Rightarrow> string \<Rightarrow> string list \<Rightarrow> comparison_decision" where
  "deny model code policies =
     \<lparr>d_model = model, d_allowed = False, d_reason_code = code, d_policies = policies\<rparr>"

definition allow :: "string \<Rightarrow> string \<Rightarrow> string list \<Rightarrow> comparison_decision" where
  "allow model code policies =
     \<lparr>d_model = model, d_allowed = True, d_reason_code = code, d_policies = policies\<rparr>"

definition is_rw :: "string \<Rightarrow> bool" where
  "is_rw a \<longleftrightarrow> a = ''read'' \<or> a = ''write''"

text \<open>\<open>resource.reader_group and resolve_group(subject.id, resource.reader_group).matched\<close>.\<close>

definition reads_by_group :: "policy_dataset \<Rightarrow> subj \<Rightarrow> res \<Rightarrow> bool" where
  "reads_by_group D s r =
     (case r_reader_group r of
        None \<Rightarrow> False
      | Some g \<Rightarrow> g \<noteq> [] \<and> rr_matched (resolve_group D (s_id s) g))"

subsection \<open>RBAC: materialised roles\<close>

definition define_if_new :: "string \<Rightarrow> string list \<Rightarrow> rbac \<Rightarrow> py_error + rbac" where
  "define_if_new name perms e =
     (if dget (roles e) name \<noteq> None then Inr e
      else (case define_role e name perms [] [] of
              (Inl x, _) \<Rightarrow> Inl x | (Inr _, e') \<Rightarrow> Inr e'))"

definition admin_permissions :: "policy_dataset \<Rightarrow> string \<Rightarrow> string list" where
  "admin_permissions D tenant =
     concat (map (\<lambda>item. map (\<lambda>a. r_id item @ '':'' @ a) [''read'', ''write''])
       (filter (\<lambda>item. r_tenant item = tenant) (dvalues (resources D))))"

definition rbac_resource_roles :: "policy_dataset \<Rightarrow> res \<Rightarrow> rbac \<Rightarrow> py_error + rbac" where
  "rbac_resource_roles D r e =
     bind_res (define_if_new (''owner:'' @ r_id r) [r_id r @ '':read'', r_id r @ '':write''] e)
       (\<lambda>e1. bind_res (define_if_new (''reader:'' @ r_id r) [r_id r @ '':read''] e1)
         (\<lambda>e2. define_if_new (''tenant-admin:'' @ r_tenant r) (admin_permissions D (r_tenant r)) e2))"

definition rbac_assigned :: "policy_dataset \<Rightarrow> subj \<Rightarrow> string list" where
  "rbac_assigned D s =
     (if s_tenant_admin s then [''tenant-admin:'' @ s_tenant s] else [])
     @ concat (map (\<lambda>r.
         (if s_id s = r_owner r then [''owner:'' @ r_id r] else [])
         @ (if reads_by_group D s r then [''reader:'' @ r_id r] else [])) (dvalues (resources D)))"

definition rbac_subject_roles :: "policy_dataset \<Rightarrow> subj \<Rightarrow> rbac \<Rightarrow> py_error + rbac" where
  "rbac_subject_roles D s e =
     (let assigned = rbac_assigned D s
      in if assigned = [] then Inr e
         else (case assign e (s_id s) assigned of (Inl x, _) \<Rightarrow> Inl x | (Inr _, e') \<Rightarrow> Inr e'))"

definition rbac_adapter_init :: "policy_dataset \<Rightarrow> py_error + rbac" where
  "rbac_adapter_init D =
     bind_res (fold_res (rbac_resource_roles D) (dvalues (resources D)) new_rbac)
       (fold_res (rbac_subject_roles D) (dvalues (subjects D)))"

definition rbac_decide :: "policy_dataset \<Rightarrow> rbac \<Rightarrow> access_request \<Rightarrow> comparison_decision" where
  "rbac_decide D e q =
     (case (dget (subjects D) (q_subject_id q), dget (resources D) (q_resource_id q)) of
        (Some s, Some r) \<Rightarrow>
          if s_tenant s \<noteq> r_tenant r then deny ''RBAC'' ''tenant-boundary'' [''application-tenant-guard'']
          else if r_locked r then deny ''RBAC'' ''explicit-deny'' [''application-locked-guard'']
          else if \<not> is_rw (q_action q) then deny ''RBAC'' ''default-deny'' []
          else if can e (s_id s) (r_id r @ '':'' @ q_action q)
          then allow ''RBAC'' ''materialized-role'' (sort (effective_roles e (s_id s)))
          else deny ''RBAC'' ''default-deny'' []
      | _ \<Rightarrow> deny ''RBAC'' ''unknown-entity'' [])"

subsection \<open>ABAC: attribute policies\<close>

definition abac_policies :: "policy list" where
  "abac_policies =
     [\<lparr>policy_name = ''deny-cross-tenant'', policy_effect = DENY, policy_actions = [''*''],
       policy_resource_types = [''*''], policy_condition = Some (\<lambda>q.
         Inr (\<not> py_eq (pget (subject q) ''tenant'') (pget (resource q) ''tenant'')))\<rparr>,
      \<lparr>policy_name = ''deny-locked'', policy_effect = DENY, policy_actions = [''*''],
       policy_resource_types = [''*''], policy_condition = Some (\<lambda>q.
         Inr (truthy (pget (resource q) ''locked'')))\<rparr>,
      \<lparr>policy_name = ''allow-tenant-admin'', policy_effect = ALLOW, policy_actions = [''read'', ''write''],
       policy_resource_types = [''*''], policy_condition = Some (\<lambda>q.
         Inr (truthy (pget (subject q) ''tenant_admin'')
              \<and> py_eq (pget (subject q) ''tenant'') (pget (resource q) ''tenant'')))\<rparr>,
      \<lparr>policy_name = ''allow-owner'', policy_effect = ALLOW, policy_actions = [''read'', ''write''],
       policy_resource_types = [''*''], policy_condition = Some (\<lambda>q.
         Inr (py_eq (pget (subject q) ''id'') (pget (resource q) ''owner'')))\<rparr>,
      \<lparr>policy_name = ''allow-reader-group'', policy_effect = ALLOW, policy_actions = [''read''],
       policy_resource_types = [''*''], policy_condition = Some (\<lambda>q.
         py_in (pget (resource q) ''reader_group'') (pget (subject q) ''effective_groups''))\<rparr>]"

definition known_groups :: "policy_dataset \<Rightarrow> string list" where
  "known_groups D = remdups (dkeys (group_parents D) @ concat (dvalues (group_parents D)))"

definition effective_groups :: "policy_dataset \<Rightarrow> subj \<Rightarrow> string list" where
  "effective_groups D s =
     remdups (filter (\<lambda>g. rr_matched (resolve_group D (s_id s) g)) (known_groups D)
       @ s_direct_groups s)"

definition abac_request :: "policy_dataset \<Rightarrow> subj \<Rightarrow> res \<Rightarrow> string \<Rightarrow> request" where
  "abac_request D s r act =
     \<lparr>subject = [(''id'', PStr (s_id s)), (''tenant'', PStr (s_tenant s)),
         (''tenant_admin'', PBool (s_tenant_admin s)),
         (''effective_groups'', PList (map PStr (effective_groups D s)))],
      resource = [(''id'', PStr (r_id r)), (''tenant'', PStr (r_tenant r)),
         (''owner'', PStr (r_owner r)),
         (''reader_group'', case r_reader_group r of None \<Rightarrow> PNone | Some g \<Rightarrow> PStr g),
         (''locked'', PBool (r_locked r))],
      action = act, environment = []\<rparr>"

definition abac_decide :: "policy_dataset \<Rightarrow> access_request \<Rightarrow> comparison_decision" where
  "abac_decide D q =
     (case (dget (subjects D) (q_subject_id q), dget (resources D) (q_resource_id q)) of
        (Some s, Some r) \<Rightarrow>
          (let decision = evaluate abac_policies (abac_request D s r (q_action q));
               matched = decision_matched decision
           in if allowed decision then allow ''ABAC'' ''attribute-policy'' matched
              else if ''deny-cross-tenant'' \<in> set matched then deny ''ABAC'' ''tenant-boundary'' matched
              else if ''deny-locked'' \<in> set matched then deny ''ABAC'' ''explicit-deny'' matched
              else deny ''ABAC'' ''default-deny'' matched)
      | _ \<Rightarrow> deny ''ABAC'' ''unknown-entity'' [])"

subsection \<open>ReBAC: relation tuples\<close>

definition rebac_schema :: "int \<Rightarrow> py_error + rebac" where
  "rebac_schema d =
     bind_res (new_rebac d) (\<lambda>e.
       Inr (relation (relation (relation (relation (relation (relation e
         ''group'' ''member'' None)
         ''tenant'' ''admin'' None)
         ''document'' ''owner'' None)
         ''document'' ''editor'' (Some (us_union [us_this, us_computed ''owner''])))
         ''document'' ''reader'' None)
         ''document'' ''viewer''
           (Some (us_union [us_this, us_computed ''editor'', us_computed ''reader'']))))"

definition subject_tuples :: "subj \<Rightarrow> string list" where
  "subject_tuples s =
     map (\<lambda>g. ''group:'' @ g @ ''#member@user:'' @ s_id s) (s_direct_groups s)
     @ (if s_tenant_admin s then [''tenant:'' @ s_tenant s @ ''#admin@user:'' @ s_id s] else [])"

definition group_tuples :: "string \<times> string list \<Rightarrow> string list" where
  "group_tuples x =
     (case x of (child, ps) \<Rightarrow>
       map (\<lambda>p. ''group:'' @ p @ ''#member@group:'' @ child @ ''#member'') ps)"

definition resource_tuples :: "res \<Rightarrow> string list" where
  "resource_tuples r =
     [''document:'' @ r_id r @ ''#owner@user:'' @ r_owner r]
     @ (case r_reader_group r of
          None \<Rightarrow> []
        | Some g \<Rightarrow>
            (if g = [] then [] else [''document:'' @ r_id r @ ''#reader@group:'' @ g @ ''#member'']))"

definition all_tuples :: "policy_dataset \<Rightarrow> string list" where
  "all_tuples D =
     concat (map subject_tuples (dvalues (subjects D)))
     @ concat (map group_tuples (group_parents D))
     @ concat (map resource_tuples (dvalues (resources D)))"

definition write_step :: "string \<Rightarrow> rebac \<Rightarrow> py_error + rebac" where
  "write_step t e = (case write_text e t of (Inl x, _) \<Rightarrow> Inl x | (Inr _, e') \<Rightarrow> Inr e')"

definition rebac_adapter_init :: "policy_dataset \<Rightarrow> py_error + rebac" where
  "rebac_adapter_init D =
     bind_res (rebac_schema (max_relationship_depth D)) (fold_res write_step (all_tuples D))"

definition rebac_decide :: "policy_dataset \<Rightarrow> rebac \<Rightarrow> access_request \<Rightarrow> comparison_decision" where
  "rebac_decide D e q =
     (case (dget (subjects D) (q_subject_id q), dget (resources D) (q_resource_id q)) of
        (Some s, Some r) \<Rightarrow>
          if s_tenant s \<noteq> r_tenant r then deny ''ReBAC'' ''tenant-boundary'' [''application-tenant-guard'']
          else if r_locked r then deny ''ReBAC'' ''explicit-deny'' [''application-locked-guard'']
          else if \<not> is_rw (q_action q) then deny ''ReBAC'' ''default-deny'' []
          else (let user = ''user:'' @ s_id s;
                    rel = (if q_action q = ''read'' then ''viewer'' else ''editor'')
                in if rebac_check e (''tenant:'' @ s_tenant s) ''admin'' user
                   then allow ''ReBAC'' ''relationship-path'' [''tenant-admin'']
                   else if rebac_check e (''document:'' @ r_id r) rel user
                   then allow ''ReBAC'' ''relationship-path'' [rel]
                   else deny ''ReBAC'' ''default-deny'' [])
      | _ \<Rightarrow> deny ''ReBAC'' ''unknown-entity'' [])"

subsection \<open>Cedar and Rego\<close>

definition cedar_decide :: "policy_dataset \<Rightarrow> access_request \<Rightarrow> comparison_decision" where
  "cedar_decide D q =
     (case (dget (subjects D) (q_subject_id q), dget (resources D) (q_resource_id q)) of
        (Some s, Some r) \<Rightarrow>
          (let forbids = (if s_tenant s \<noteq> r_tenant r then [''forbid-cross-tenant''] else [])
                 @ (if r_locked r then [''forbid-locked''] else [])
           in if forbids \<noteq> [] then
                deny ''Cedar'' (if ''forbid-cross-tenant'' \<in> set forbids then ''tenant-boundary''
                  else ''explicit-deny'') forbids
              else
                (let permits =
                   (if is_rw (q_action q)
                    then (if s_tenant_admin s then [''permit-tenant-admin''] else [])
                         @ (if s_id s = r_owner r then [''permit-owner''] else []) else [])
                   @ (if q_action q = ''read'' \<and> reads_by_group D s r then [''permit-reader-group''] else [])
                 in if permits \<noteq> [] then allow ''Cedar'' ''cedar-permit'' permits
                    else deny ''Cedar'' ''default-deny'' []))
      | _ \<Rightarrow> deny ''Cedar'' ''unknown-entity'' [])"

definition rego_decide :: "policy_dataset \<Rightarrow> access_request \<Rightarrow> comparison_decision" where
  "rego_decide D q =
     (case (dget (subjects D) (q_subject_id q), dget (resources D) (q_resource_id q)) of
        (Some s, Some r) \<Rightarrow>
          (let denied = s_tenant s \<noteq> r_tenant r \<or> r_locked r;
               permits =
                 (if is_rw (q_action q) \<and> s_tenant_admin s then [''permit_tenant_admin''] else [])
                 @ (if is_rw (q_action q) \<and> s_id s = r_owner r then [''permit_owner''] else [])
                 @ (if q_action q = ''read'' \<and> reads_by_group D s r then [''permit_reader_group''] else [])
           in if denied then
                deny ''Rego'' (if s_tenant s \<noteq> r_tenant r then ''tenant-boundary''
                  else ''explicit-deny'') [''deny'']
              else if permits \<noteq> [] then allow ''Rego'' ''rego-permit'' permits
              else deny ''Rego'' ''default-deny'' [])
      | _ \<Rightarrow> deny ''Rego'' ''unknown-entity'' [])"

section \<open>The comparison\<close>

record comparison =
  cmp_dataset :: policy_dataset
  cmp_rbac :: rbac
  cmp_rebac :: rebac

definition policy_comparison :: "policy_dataset \<Rightarrow> py_error + comparison" where
  "policy_comparison D =
     bind_res (rbac_adapter_init D) (\<lambda>e1. bind_res (rebac_adapter_init D) (\<lambda>e2.
       Inr \<lparr>cmp_dataset = D, cmp_rbac = e1, cmp_rebac = e2\<rparr>))"

definition decide_all :: "comparison \<Rightarrow> access_request \<Rightarrow> (string, comparison_decision) dict" where
  "decide_all c q =
     [(''RBAC'', rbac_decide (cmp_dataset c) (cmp_rbac c) q),
      (''ABAC'', abac_decide (cmp_dataset c) q),
      (''ReBAC'', rebac_decide (cmp_dataset c) (cmp_rebac c) q),
      (''Cedar'', cedar_decide (cmp_dataset c) q),
      (''Rego'', rego_decide (cmp_dataset c) q)]"

definition require_parity :: "comparison \<Rightarrow> access_request \<Rightarrow> py_error + bool" where
  "require_parity c q =
     (let effects = remdups (map d_allowed (dvalues (decide_all c q)))
      in if length effects \<noteq> 1 then Inl AssertionError else Inr (hd effects))"

text \<open>The identifiers \<open>list_objects_all\<close> reports for one adapter (its timing is not modelled).\<close>

definition adapter_object_ids ::
  "policy_dataset \<Rightarrow> (access_request \<Rightarrow> comparison_decision) \<Rightarrow> string \<Rightarrow> string \<Rightarrow> string list" where
  "adapter_object_ids D decide subject_id act =
     sort (filter (\<lambda>k. d_allowed (decide
         \<lparr>q_subject_id = subject_id, q_action = act, q_resource_id = k\<rparr>)) (dkeys (resources D)))"

definition list_objects_all ::
  "comparison \<Rightarrow> string \<Rightarrow> string \<Rightarrow> (string, string list \<times> nat) dict" where
  "list_objects_all c subject_id act =
     (let D = cmp_dataset c; n = length (resources D)
      in [(''RBAC'', adapter_object_ids D (rbac_decide D (cmp_rbac c)) subject_id act, n),
          (''ABAC'', adapter_object_ids D (abac_decide D) subject_id act, n),
          (''ReBAC'', adapter_object_ids D (rebac_decide D (cmp_rebac c)) subject_id act, n),
          (''Cedar'', adapter_object_ids D (cedar_decide D) subject_id act, n),
          (''Rego'', adapter_object_ids D (rego_decide D) subject_id act, n)])"

section \<open>The canonical data set\<close>

definition canonical_dataset :: "(string, string list) dict \<Rightarrow> int \<Rightarrow> policy_dataset" where
  "canonical_dataset gp depth =
     \<lparr>subjects =
        [(''alice'', \<lparr>s_id = ''alice'', s_tenant = ''blue'', s_direct_groups = [''platform''], s_tenant_admin = False\<rparr>),
         (''bob'', \<lparr>s_id = ''bob'', s_tenant = ''blue'', s_direct_groups = [], s_tenant_admin = False\<rparr>),
         (''root'', \<lparr>s_id = ''root'', s_tenant = ''blue'', s_direct_groups = [], s_tenant_admin = True\<rparr>),
         (''carol'', \<lparr>s_id = ''carol'', s_tenant = ''red'', s_direct_groups = [], s_tenant_admin = False\<rparr>),
         (''mallory'', \<lparr>s_id = ''mallory'', s_tenant = ''blue'', s_direct_groups = [], s_tenant_admin = False\<rparr>)],
      resources =
        [(''budget'', \<lparr>r_id = ''budget'', r_tenant = ''blue'', r_owner = ''bob'', r_reader_group = Some ''eng'', r_locked = False\<rparr>),
         (''locked'', \<lparr>r_id = ''locked'', r_tenant = ''blue'', r_owner = ''bob'', r_reader_group = Some ''eng'', r_locked = True\<rparr>),
         (''red-plan'', \<lparr>r_id = ''red-plan'', r_tenant = ''red'', r_owner = ''carol'', r_reader_group = Some ''eng'', r_locked = False\<rparr>)],
      group_parents = gp, max_relationship_depth = depth\<rparr>"

text \<open>\<open>canonical_dataset()\<close> with its default group graph.\<close>

definition default_groups :: "(string, string list) dict" where
  "default_groups = [(''platform'', [''eng''])]"

end
