(* ===== verification/PolicyParity.thy ===== *)
theory PolicyParity
  imports PolicyComparison
begin

text \<open>
  Agreement of the five adapters of \<open>policy_comparison.py\<close>.  \<open>grants\<close> is the access rule the
  module's Cedar and Rego sources state; each adapter is shown to decide it, under the
  conditions on the data set its encoding needs.
\<close>

section \<open>Group resolution is bounded reachability\<close>

definition parent_rel :: "policy_dataset \<Rightarrow> (string \<times> string) set" where
  "parent_rel D = {(g, p). p \<in> set (parents_of D g)}"

lemma parent_rel_iff [simp]: "(g, p) \<in> parent_rel D \<longleftrightarrow> p \<in> set (parents_of D g)"
  by (simp add: parent_rel_def)

text \<open>The depth-first search of one pending entry, as a recursive function.\<close>

function group_search :: "policy_dataset \<Rightarrow> string \<Rightarrow> int \<Rightarrow> string set \<Rightarrow> string \<Rightarrow> bool" where
  "group_search D t depth path g =
     (if g \<in> path then False
      else if depth > max_relationship_depth D then False
      else g = t \<or> list_ex (group_search D t (depth + 1) (insert g path)) (parents_of D g))"
  by pat_completeness auto
termination
  by (relation "measure (\<lambda>(D, t, d, p, g). nat (max_relationship_depth D + 1 - d))") auto

declare group_search.simps [simp del]

lemma resolve_loop_matched:
  "rr_matched (resolve_loop D t pending v c l) \<longleftrightarrow>
     (\<exists>(g, d, p) \<in> set pending. group_search D t d p g)"
proof (induction D t pending v c l rule: resolve_loop.induct)
  case (1 D target visited cycle limited)
  show ?case by (simp add: resolve_loop.simps)
next
  case (2 D target grp depth path pending visited cycle limited)
  show ?case
  proof (cases "grp \<in> path \<or> depth > max_relationship_depth D")
    case True
    then have "\<not> group_search D target depth path grp" by (subst group_search.simps) auto
    with True 2(1,2) show ?thesis by (auto simp: resolve_loop.simps)
  next
    case False
    show ?thesis
    proof (cases "grp = target")
      case True
      with False have "group_search D target depth path grp" by (subst group_search.simps) auto
      with True False show ?thesis by (auto simp: resolve_loop.simps)
    next
      case other: False
      with False have "group_search D target depth path grp \<longleftrightarrow>
          (\<exists>p \<in> set (parents_of D grp). group_search D target (depth + 1) (insert grp path) p)"
        by (subst group_search.simps) (simp add: list_ex_iff)
      with False other 2(3) show ?thesis by (auto simp: resolve_loop.simps)
    qed
  qed
qed

definition group_step :: "policy_dataset \<Rightarrow> string \<Rightarrow> (string \<Rightarrow> bool) \<Rightarrow> string \<Rightarrow> bool" where
  "group_step D t f g \<longleftrightarrow> g = t \<or> (\<exists>p \<in> set (parents_of D g). f p)"

interpretation gs: guarded_search "group_step D t" "max_relationship_depth D" "group_search D t" for D t
proof unfold_locales
  fix f g :: "string \<Rightarrow> bool" and k
  assume "group_step D t f k" "\<And>j. f j \<Longrightarrow> g j"
  then show "group_step D t g k" by (auto simp: group_step_def)
next
  fix d seen k
  show "group_search D t d seen k \<longleftrightarrow>
      d \<le> max_relationship_depth D \<and> k \<notin> seen
      \<and> group_step D t (group_search D t (d + 1) (insert k seen)) k"
    by (subst group_search.simps) (auto simp: group_step_def list_ex_iff)
qed

lemma level_group_step: "level (group_step D t) n g \<longleftrightarrow> (\<exists>k < n. (g, t) \<in> parent_rel D ^^ k)"
proof (induction n arbitrary: g)
  case (Suc n)
  have "level (group_step D t) (Suc n) g \<longleftrightarrow>
      g = t \<or> (\<exists>p. (g, p) \<in> parent_rel D \<and> (\<exists>k < n. (p, t) \<in> parent_rel D ^^ k))"
    by (auto simp: group_step_def Suc.IH)
  also have "\<dots> \<longleftrightarrow> (\<exists>k < Suc n. (g, t) \<in> parent_rel D ^^ k)"
  proof
    assume "g = t \<or> (\<exists>p. (g, p) \<in> parent_rel D \<and> (\<exists>k < n. (p, t) \<in> parent_rel D ^^ k))"
    then show "\<exists>k < Suc n. (g, t) \<in> parent_rel D ^^ k"
      by (metis Suc_less_eq relpow_0_I relpow_Suc_I2 zero_less_Suc)
  next
    assume "\<exists>k < Suc n. (g, t) \<in> parent_rel D ^^ k"
    then obtain k where k: "k < Suc n" "(g, t) \<in> parent_rel D ^^ k" by blast
    show "g = t \<or> (\<exists>p. (g, p) \<in> parent_rel D \<and> (\<exists>k < n. (p, t) \<in> parent_rel D ^^ k))"
    proof (cases k)
      case 0
      with k show ?thesis by simp
    next
      case (Suc m)
      with k relpow_Suc_D2 [of g t m "parent_rel D"] show ?thesis by fastforce
    qed
  qed
  finally show ?case .
qed simp

text \<open>Reached from one of the subject's own groups in at most \<open>d\<close> parent steps.\<close>

definition member_within :: "policy_dataset \<Rightarrow> int \<Rightarrow> subj \<Rightarrow> string \<Rightarrow> bool" where
  "member_within D d s t \<longleftrightarrow>
     (\<exists>g \<in> set (s_direct_groups s). \<exists>k. int k \<le> d \<and> (g, t) \<in> parent_rel D ^^ k)"

lemma resolve_group_matched:
  assumes "dget (subjects D) i = Some s"
  shows "rr_matched (resolve_group D i t) \<longleftrightarrow> member_within D (max_relationship_depth D) s t"
proof -
  have "group_search D t 0 {} g \<longleftrightarrow> (\<exists>k. int k \<le> max_relationship_depth D \<and> (g, t) \<in> parent_rel D ^^ k)" for g
    unfolding gs.search_iff_level level_group_step by (rule ex_cong1) auto
  then show ?thesis
    using assms by (auto simp: resolve_group_def resolve_loop_matched member_within_def)
qed

text \<open>
  \<open>resolve_group\<close> terminates on every graph, cyclic or not, and reports a match exactly
  when the target is at most \<open>max_relationship_depth\<close> parent steps away from a direct group
  of the subject: its cycle guard never hides a membership.
\<close>

theorem resolve_group_bounded_reachability:
  "rr_matched (resolve_group D i t) \<longleftrightarrow>
     (\<exists>s. dget (subjects D) i = Some s \<and>
        (\<exists>g \<in> set (s_direct_groups s). \<exists>k. int k \<le> max_relationship_depth D
           \<and> (g, t) \<in> {(a, b). b \<in> set (parents_of D a)} ^^ k))"
  by (cases "dget (subjects D) i")
     (simp_all add: resolve_group_matched member_within_def parent_rel_def, simp add: resolve_group_def)

section \<open>The access rule\<close>

definition grants_within :: "policy_dataset \<Rightarrow> int \<Rightarrow> access_request \<Rightarrow> bool" where
  "grants_within D d q \<longleftrightarrow>
     (\<exists>s r. dget (subjects D) (q_subject_id q) = Some s \<and> dget (resources D) (q_resource_id q) = Some r
        \<and> s_tenant s = r_tenant r \<and> \<not> r_locked r
        \<and> ((is_rw (q_action q) \<and> (s_tenant_admin s \<or> s_id s = r_owner r))
           \<or> (q_action q = ''read'' \<and> (\<exists>g. r_reader_group r = Some g \<and> g \<noteq> [] \<and> member_within D d s g))))"

text \<open>Dictionary keys are the identifiers of the entries, and no depth bound is negative.\<close>

definition well_keyed :: "policy_dataset \<Rightarrow> bool" where
  "well_keyed D \<longleftrightarrow>
     distinct (dkeys (subjects D)) \<and> distinct (dkeys (resources D))
     \<and> distinct (dkeys (group_parents D))
     \<and> (\<forall>(k, s) \<in> set (subjects D). s_id s = k) \<and> (\<forall>(k, r) \<in> set (resources D). r_id r = k)
     \<and> 0 \<le> max_relationship_depth D"

lemma well_keyedD:
  assumes "well_keyed D"
  shows "dget (subjects D) k = Some s \<Longrightarrow> s_id s = k"
    and "dget (resources D) k = Some r \<Longrightarrow> r_id r = k"
    and "s \<in> set (dvalues (subjects D)) \<Longrightarrow> dget (subjects D) (s_id s) = Some s"
    and "r \<in> set (dvalues (resources D)) \<Longrightarrow> dget (resources D) (r_id r) = Some r"
    and "0 \<le> max_relationship_depth D"
  using assms unfolding well_keyed_def by (fastforce dest: map_of_SomeD intro: map_of_is_SomeI)+

lemma reads_by_group_iff:
  assumes "dget (subjects D) (s_id s) = Some s"
  shows "reads_by_group D s r \<longleftrightarrow>
     (\<exists>g. r_reader_group r = Some g \<and> g \<noteq> [] \<and> member_within D (max_relationship_depth D) s g)"
  by (auto simp: reads_by_group_def resolve_group_matched [OF assms] split: option.splits)

lemma cedar_allowed:
  assumes "well_keyed D"
  shows "d_allowed (cedar_decide D q) \<longleftrightarrow> grants_within D (max_relationship_depth D) q"
proof (cases "dget (subjects D) (q_subject_id q)")
  case None
  then show ?thesis by (simp add: cedar_decide_def grants_within_def deny_def)
next
  case s: (Some s)
  with well_keyedD(1) [OF assms] have i: "dget (subjects D) (s_id s) = Some s" by metis
  show ?thesis
    by (cases "dget (resources D) (q_resource_id q)")
       (auto simp: cedar_decide_def grants_within_def deny_def allow_def Let_def s is_rw_def
          reads_by_group_iff [OF i])
qed

lemma rego_cedar: "d_allowed (rego_decide D q) \<longleftrightarrow> d_allowed (cedar_decide D q)"
  by (auto simp: rego_decide_def cedar_decide_def deny_def allow_def Let_def split: option.splits)

subsection \<open>ABAC\<close>

lemma member_within_direct: "0 \<le> d \<Longrightarrow> g \<in> set (s_direct_groups s) \<Longrightarrow> member_within D d s g"
  unfolding member_within_def by (intro bexI [of _ g] exI [of _ 0]) auto

lemma member_within_known:
  assumes "member_within D d s t"
  shows "t \<in> set (known_groups D) \<or> t \<in> set (s_direct_groups s)"
proof -
  from assms obtain g k where g: "g \<in> set (s_direct_groups s)" and k: "(g, t) \<in> parent_rel D ^^ k"
    unfolding member_within_def by blast
  show ?thesis
  proof (cases k)
    case 0
    with g k show ?thesis by simp
  next
    case (Suc n)
    with k obtain y where "t \<in> set (parents_of D y)" by (auto elim: relpow_Suc_E)
    then obtain ps where ps: "dget (group_parents D) y = Some ps" "t \<in> set ps"
      by (cases "dget (group_parents D) y") (auto simp: parents_of_def)
    have "ps \<in> set (dvalues (group_parents D))" by (rule dget_in_values [OF ps(1)])
    with ps(2) have "t \<in> set (known_groups D)" unfolding known_groups_def by fastforce
    then show ?thesis ..
  qed
qed

lemma effective_groups_iff:
  assumes "well_keyed D" "dget (subjects D) (s_id s) = Some s"
  shows "t \<in> set (effective_groups D s) \<longleftrightarrow> member_within D (max_relationship_depth D) s t"
  using member_within_known [of D "max_relationship_depth D" s t]
    member_within_direct [of "max_relationship_depth D" t s D] well_keyedD(5) [OF assms(1)]
  by (auto simp: effective_groups_def resolve_group_matched [OF assms(2)])

lemma py_in_groups: "py_in (PStr g) (PList (map PStr xs)) = Inr (g \<in> set xs)"
  by (auto simp: py_in_def)

lemma py_in_None: "py_in PNone (PList (map PStr xs)) = Inr False"
  by (auto simp: py_in_def py_eq_def)

lemma abac_allowed_iff:
  assumes "\<And>k r. dget (resources D) k = Some r \<Longrightarrow> r_reader_group r \<noteq> Some []"
    and "well_keyed D"
  shows "d_allowed (abac_decide D q) \<longleftrightarrow> grants_within D (max_relationship_depth D) q"
proof (cases "dget (subjects D) (q_subject_id q)")
  case None
  then show ?thesis by (simp add: abac_decide_def grants_within_def deny_def)
next
  case s: (Some s)
  with well_keyedD(1) [OF assms(2)] have i: "dget (subjects D) (s_id s) = Some s" by metis
  show ?thesis
  proof (cases "dget (resources D) (q_resource_id q)")
    case None
    then show ?thesis by (simp add: abac_decide_def grants_within_def deny_def s)
  next
    case r: (Some r)
    have "d_allowed (abac_decide D q) \<longleftrightarrow> abac_can abac_policies (abac_request D s r (q_action q))"
      by (simp add: abac_decide_def s r Let_def allow_def deny_def abac_can_def)
    also have "\<dots> \<longleftrightarrow> s_tenant s = r_tenant r \<and> \<not> r_locked r
        \<and> ((is_rw (q_action q) \<and> (s_tenant_admin s \<or> s_id s = r_owner r))
           \<or> (q_action q = ''read'' \<and> (\<exists>g. r_reader_group r = Some g \<and> g \<in> set (effective_groups D s))))"
      by (cases "r_reader_group r")
         (auto simp: abac_can_iff abac_policies_def fires_def applies_to_def policy_evaluate_def
            abac_request_def is_rw_def py_in_groups py_in_None)
    also have "\<dots> \<longleftrightarrow> grants_within D (max_relationship_depth D) q"
      using assms(1) [OF r] by (auto simp: grants_within_def s r effective_groups_iff [OF assms(2) i])
    finally show ?thesis .
  qed
qed

subsection \<open>RBAC\<close>

text \<open>The roles the adapter materialises, with their permissions.\<close>

definition role_def :: "policy_dataset \<Rightarrow> string \<Rightarrow> string list \<Rightarrow> bool" where
  "role_def D n ps \<longleftrightarrow> (\<exists>r \<in> set (dvalues (resources D)).
      (n = ''owner:'' @ r_id r \<and> ps = [r_id r @ '':read'', r_id r @ '':write''])
    \<or> (n = ''reader:'' @ r_id r \<and> ps = [r_id r @ '':read''])
    \<or> (n = ''tenant-admin:'' @ r_tenant r \<and> ps = admin_permissions D (r_tenant r)))"

definition role_names :: "res \<Rightarrow> string set" where
  "role_names r = {''owner:'' @ r_id r, ''reader:'' @ r_id r, ''tenant-admin:'' @ r_tenant r}"

definition roles_inv :: "policy_dataset \<Rightarrow> rbac \<Rightarrow> bool" where
  "roles_inv D e \<longleftrightarrow> (\<forall>n rl. dget (roles e) n = Some rl \<longrightarrow>
     role_inherits rl = [] \<and> (\<exists>ps. role_def D n ps \<and> set (role_permissions rl) = set ps))"

definition defined_roles :: "rbac \<Rightarrow> string set" where
  "defined_roles e = {n. dget (roles e) n \<noteq> None}"

lemma define_if_new_ok:
  assumes "roles_inv D e" "role_def D n ps"
  shows "\<exists>e'. define_if_new n ps e = Inr e' \<and> roles_inv D e' \<and> assignments e' = assignments e
     \<and> defined_roles e' = insert n (defined_roles e)"
proof (cases "dget (roles e) n")
  case None
  then show ?thesis
    using assms by (auto simp: define_if_new_def define_role_def assert_acyclic_def Let_def
        roles_inv_def defined_roles_def)
next
  case (Some r)
  with assms show ?thesis by (auto simp: define_if_new_def defined_roles_def)
qed

lemma rbac_resource_roles_ok:
  assumes "roles_inv D e" "r \<in> set (dvalues (resources D))"
  shows "\<exists>e'. rbac_resource_roles D r e = Inr e' \<and> roles_inv D e' \<and> assignments e' = assignments e
     \<and> defined_roles e' = role_names r \<union> defined_roles e"
proof -
  have d: "role_def D (''owner:'' @ r_id r) [r_id r @ '':read'', r_id r @ '':write'']"
    "role_def D (''reader:'' @ r_id r) [r_id r @ '':read'']"
    "role_def D (''tenant-admin:'' @ r_tenant r) (admin_permissions D (r_tenant r))"
    unfolding role_def_def using assms(2) by blast+
  from define_if_new_ok [OF assms(1) d(1)] obtain e1 where e1:
    "define_if_new (''owner:'' @ r_id r) [r_id r @ '':read'', r_id r @ '':write''] e = Inr e1"
    "roles_inv D e1" "assignments e1 = assignments e"
    "defined_roles e1 = insert (''owner:'' @ r_id r) (defined_roles e)" by blast
  from define_if_new_ok [OF e1(2) d(2)] obtain e2 where e2:
    "define_if_new (''reader:'' @ r_id r) [r_id r @ '':read''] e1 = Inr e2"
    "roles_inv D e2" "assignments e2 = assignments e1"
    "defined_roles e2 = insert (''reader:'' @ r_id r) (defined_roles e1)" by blast
  from define_if_new_ok [OF e2(2) d(3)] e1 e2 show ?thesis
    by (auto simp: rbac_resource_roles_def role_names_def)
qed

lemma rbac_roles_stage:
  assumes "roles_inv D e" "set xs \<subseteq> set (dvalues (resources D))"
  shows "\<exists>e'. fold_res (rbac_resource_roles D) xs e = Inr e' \<and> roles_inv D e'
     \<and> assignments e' = assignments e \<and> defined_roles e' = (\<Union>r \<in> set xs. role_names r) \<union> defined_roles e"
  using assms
proof (induction xs arbitrary: e)
  case (Cons r xs)
  then have r: "r \<in> set (dvalues (resources D))" by auto
  from rbac_resource_roles_ok [OF Cons.prems(1) r] obtain e1 where e1:
    "rbac_resource_roles D r e = Inr e1" "roles_inv D e1" "assignments e1 = assignments e"
    "defined_roles e1 = role_names r \<union> defined_roles e" by blast
  from Cons.IH [OF e1(2)] Cons.prems(2) e1 show ?case by (auto simp: Un_ac)
qed simp

text \<open>
  The second stage can fail: a tenant administrator of a tenant without resources is
  assigned a role that was never defined.
\<close>

definition admins_have_resources :: "policy_dataset \<Rightarrow> bool" where
  "admins_have_resources D \<longleftrightarrow> (\<forall>s \<in> set (dvalues (subjects D)). s_tenant_admin s \<longrightarrow>
     (\<exists>r \<in> set (dvalues (resources D)). r_tenant r = s_tenant s))"

lemma rbac_assigned_defined:
  assumes "admins_have_resources D" "s \<in> set (dvalues (subjects D))"
    "defined_roles e = (\<Union>r \<in> set (dvalues (resources D)). role_names r)"
  shows "set (rbac_assigned D s) \<subseteq> defined_roles e"
  using assms unfolding rbac_assigned_def admins_have_resources_def role_names_def by fastforce

lemma rbac_subject_roles_ok:
  assumes "set (rbac_assigned D s) \<subseteq> defined_roles e" "dget (assignments e) (s_id s) = None"
  shows "\<exists>e'. rbac_subject_roles D s e = Inr e' \<and> roles e' = roles e
     \<and> (\<forall>u. held_roles e' u = (if u = s_id s then remdups (rbac_assigned D s) else held_roles e u))
     \<and> (\<forall>u. u \<noteq> s_id s \<longrightarrow> dget (assignments e') u = dget (assignments e) u)"
proof (cases "rbac_assigned D s = []")
  case True
  then show ?thesis using assms(2) by (simp add: rbac_subject_roles_def held_roles_def)
next
  case False
  have "\<not> (\<exists>n \<in> set (rbac_assigned D s). dget (roles e) n = None)"
    using assms(1) unfolding defined_roles_def by blast
  with False assms(2) show ?thesis
    by (simp add: rbac_subject_roles_def Let_def assign_def held_roles_def)
qed

lemma rbac_subjects_stage:
  assumes "\<And>s. s \<in> set xs \<Longrightarrow> set (rbac_assigned D s) \<subseteq> defined_roles e"
    "\<And>s. s \<in> set xs \<Longrightarrow> dget (assignments e) (s_id s) = None" "distinct (map s_id xs)"
  shows "\<exists>e'. fold_res (rbac_subject_roles D) xs e = Inr e' \<and> roles e' = roles e
     \<and> (\<forall>s \<in> set xs. held_roles e' (s_id s) = remdups (rbac_assigned D s))
     \<and> (\<forall>u. u \<notin> s_id ` set xs \<longrightarrow> held_roles e' u = held_roles e u)"
  using assms
proof (induction xs arbitrary: e)
  case (Cons s xs)
  from rbac_subject_roles_ok [of D s e] Cons.prems(1,2) obtain e1 where e1:
    "rbac_subject_roles D s e = Inr e1" "roles e1 = roles e"
    "\<And>u. held_roles e1 u = (if u = s_id s then remdups (rbac_assigned D s) else held_roles e u)"
    "\<And>u. u \<noteq> s_id s \<Longrightarrow> dget (assignments e1) u = dget (assignments e) u" by force
  have "\<exists>e'. fold_res (rbac_subject_roles D) xs e1 = Inr e' \<and> roles e' = roles e1
     \<and> (\<forall>s \<in> set xs. held_roles e' (s_id s) = remdups (rbac_assigned D s))
     \<and> (\<forall>u. u \<notin> s_id ` set xs \<longrightarrow> held_roles e' u = held_roles e1 u)"
  proof (rule Cons.IH)
    fix s' assume s': "s' \<in> set xs"
    have "s_id s \<notin> s_id ` set xs" using Cons.prems(3) by simp
    with s' have "s_id s' \<noteq> s_id s" by (metis imageI)
    with e1(4) Cons.prems(2) [of s'] s' show "dget (assignments e1) (s_id s') = None" by simp
    show "set (rbac_assigned D s') \<subseteq> defined_roles e1"
      using Cons.prems(1) [of s'] s' e1(2) by (simp add: defined_roles_def)
  qed (use Cons.prems(3) in simp)
  then show ?case using e1 Cons.prems(3) by auto
qed simp

lemma rbac_adapter_init_ok:
  assumes "well_keyed D" "admins_have_resources D"
  shows "\<exists>e. rbac_adapter_init D = Inr e \<and> roles_inv D e
     \<and> defined_roles e = (\<Union>r \<in> set (dvalues (resources D)). role_names r)
     \<and> (\<forall>s \<in> set (dvalues (subjects D)). set (held_roles e (s_id s)) = set (rbac_assigned D s))"
proof -
  have "roles_inv D new_rbac" by (simp add: roles_inv_def new_rbac_def)
  from rbac_roles_stage [OF this order.refl] obtain e1 where e1:
    "fold_res (rbac_resource_roles D) (dvalues (resources D)) new_rbac = Inr e1" "roles_inv D e1"
    "assignments e1 = []" "defined_roles e1 = (\<Union>r \<in> set (dvalues (resources D)). role_names r)"
    by (auto simp: new_rbac_def defined_roles_def)
  have ids: "map s_id (dvalues (subjects D)) = dkeys (subjects D)"
    using assms(1) unfolding well_keyed_def by (auto simp: case_prod_beta)
  have "\<exists>e'. fold_res (rbac_subject_roles D) (dvalues (subjects D)) e1 = Inr e' \<and> roles e' = roles e1
     \<and> (\<forall>s \<in> set (dvalues (subjects D)). held_roles e' (s_id s) = remdups (rbac_assigned D s))
     \<and> (\<forall>u. u \<notin> s_id ` set (dvalues (subjects D)) \<longrightarrow> held_roles e' u = held_roles e1 u)"
  proof (rule rbac_subjects_stage)
    show "set (rbac_assigned D s) \<subseteq> defined_roles e1" if "s \<in> set (dvalues (subjects D))" for s
      using rbac_assigned_defined [OF assms(2) that e1(4)] .
    show "distinct (map s_id (dvalues (subjects D)))"
      unfolding ids using assms(1) by (simp add: well_keyed_def)
  qed (simp add: e1(3))
  then obtain e' where "fold_res (rbac_subject_roles D) (dvalues (subjects D)) e1 = Inr e'"
    "roles e' = roles e1"
    "\<forall>s \<in> set (dvalues (subjects D)). held_roles e' (s_id s) = remdups (rbac_assigned D s)" by blast
  with e1 show ?thesis
    by (intro exI [of _ e']) (simp add: rbac_adapter_init_def roles_inv_def defined_roles_def)
qed

text \<open>Resource identifiers a permission string can carry unambiguously.\<close>

definition plain_id :: "string \<Rightarrow> bool" where
  "plain_id x \<longleftrightarrow> CHR '':'' \<notin> set x \<and> CHR ''#'' \<notin> set x \<and> x \<noteq> ''*''"

lemma matches_permission:
  assumes "plain_id x" "plain_id y" "is_rw a"
  shows "matches (x @ CHR '':'' # a) (y @ CHR '':'' # b) \<longleftrightarrow> x = y \<and> a = b"
proof -
  have x: "x \<noteq> ''*''" using assms(1) by (simp add: plain_id_def)
  have a: "a \<noteq> ''*''" using assms(3) by (auto simp: is_rw_def)
  have "x @ CHR '':'' # a \<noteq> ''*''" using x by (cases x) auto
  moreover have "split_once CHR '':'' (x @ CHR '':'' # a) = Some (x, a)"
    "split_once CHR '':'' (y @ CHR '':'' # b) = Some (y, b)"
    using assms by (simp_all add: plain_id_def split_once_append)
  moreover from this have "x @ CHR '':'' # a = y @ CHR '':'' # b \<Longrightarrow> x = y \<and> a = b"
    by (metis option.inject prod.inject)
  ultimately show ?thesis unfolding matches_def using x a by auto
qed

lemma role_def_owner: "role_def D (''owner:'' @ i) ps \<Longrightarrow> ps = [i @ '':read'', i @ '':write'']"
  and role_def_reader: "role_def D (''reader:'' @ i) ps \<Longrightarrow> ps = [i @ '':read'']"
  and role_def_admin: "role_def D (''tenant-admin:'' @ t) ps \<Longrightarrow> ps = admin_permissions D t"
  by (auto simp: role_def_def)

lemma roles_inv_parents: "roles_inv D e \<Longrightarrow> parents (roles e) n = []"
  by (auto simp: roles_inv_def parents_def split: option.splits)

lemma roles_inv_can:
  assumes "roles_inv D e"
  shows "can e u p \<longleftrightarrow> (\<exists>n \<in> set (held_roles e u). n \<in> defined_roles e
           \<and> (\<exists>ps. role_def D n ps \<and> (\<exists>g \<in> set ps. matches g p)))"
proof -
  have "inherits_rel (roles e) = {}"
    using roles_inv_parents [OF assms] by (auto simp: inherits_rel_def)
  then have "can e u p \<longleftrightarrow> (\<exists>n \<in> set (held_roles e u). \<exists>r. dget (roles e) n = Some r
       \<and> (\<exists>g \<in> set (role_permissions r). matches g p))"
    unfolding can_reachable by auto
  also have "\<dots> \<longleftrightarrow> (\<exists>n \<in> set (held_roles e u). n \<in> defined_roles e
           \<and> (\<exists>ps. role_def D n ps \<and> (\<exists>g \<in> set ps. matches g p)))"
  proof (rule bex_cong [OF refl])
    fix n
    have uniq: "role_def D n ps \<Longrightarrow> role_def D n ps' \<Longrightarrow> ps = ps'" for ps ps'
      by (auto simp: role_def_def)
    show "(\<exists>r. dget (roles e) n = Some r \<and> (\<exists>g \<in> set (role_permissions r). matches g p)) \<longleftrightarrow>
        n \<in> defined_roles e \<and> (\<exists>ps. role_def D n ps \<and> (\<exists>g \<in> set ps. matches g p))"
    proof (cases "dget (roles e) n")
      case (Some r)
      with assms obtain ps where ps: "role_def D n ps" "set (role_permissions r) = set ps"
        unfolding roles_inv_def by blast
      then have "(\<exists>qs. role_def D n qs \<and> (\<exists>g \<in> set qs. matches g p)) \<longleftrightarrow> (\<exists>g \<in> set ps. matches g p)"
        using uniq by blast
      with Some ps(2) show ?thesis by (simp add: defined_roles_def)
    qed (simp add: defined_roles_def)
  qed
  finally show ?thesis .
qed

definition plain_resources :: "policy_dataset \<Rightarrow> bool" where
  "plain_resources D \<longleftrightarrow> (\<forall>r \<in> set (dvalues (resources D)). plain_id (r_id r))"

lemma same_resource:
  assumes "well_keyed D" "r \<in> set (dvalues (resources D))" "r' \<in> set (dvalues (resources D))" "r_id r = r_id r'"
  shows "r' = r"
  using well_keyedD(4) [OF assms(1,2)] well_keyedD(4) [OF assms(1,3)] assms(4) by (metis option.inject)

lemma permission_matches_iff:
  assumes "well_keyed D" "plain_resources D" "r \<in> set (dvalues (resources D))" "r' \<in> set (dvalues (resources D))" "is_rw b"
  shows "matches (r_id r' @ CHR '':'' # b) (r_id r @ CHR '':'' # act) \<longleftrightarrow> r' = r \<and> b = act"
proof -
  have "r_id r' = r_id r \<longleftrightarrow> r' = r" using same_resource [OF assms(1,3,4)] by metis
  moreover have "plain_id (r_id r')" "plain_id (r_id r)" using assms(2-4) unfolding plain_resources_def by blast+
  ultimately show ?thesis using matches_permission [OF _ _ assms(5)] by metis
qed

text \<open>Who may act on a resource is assigned a role with that permission.\<close>

lemma rbac_granting_role:
  assumes r: "r \<in> set (dvalues (resources D))" and t: "s_tenant s = r_tenant r" and a: "is_rw act"
    and "s_tenant_admin s \<or> s_id s = r_owner r \<or> (act = ''read'' \<and> reads_by_group D s r)"
  shows "\<exists>n \<in> set (rbac_assigned D s). \<exists>ps. role_def D n ps \<and> r_id r @ CHR '':'' # act \<in> set ps"
proof -
  have defs: "role_def D (''owner:'' @ r_id r) [r_id r @ '':read'', r_id r @ '':write'']"
    "role_def D (''reader:'' @ r_id r) [r_id r @ '':read'']"
    "role_def D (''tenant-admin:'' @ r_tenant r) (admin_permissions D (r_tenant r))"
    unfolding role_def_def using r by blast+
  consider "s_tenant_admin s" | "s_id s = r_owner r" | "act = ''read''" "reads_by_group D s r" using assms(4) by blast
  then show ?thesis
  proof cases
    case 1
    have "r_id r @ CHR '':'' # act \<in> set (admin_permissions D (r_tenant r))"
      using r a by (auto simp: admin_permissions_def is_rw_def)
    moreover have "''tenant-admin:'' @ r_tenant r \<in> set (rbac_assigned D s)" using 1 t by (simp add: rbac_assigned_def)
    ultimately show ?thesis using defs(3) by blast
  next
    case 2
    have "''owner:'' @ r_id r \<in> set (rbac_assigned D s)" using 2 r by (auto simp: rbac_assigned_def)
    moreover have "r_id r @ CHR '':'' # act \<in> set [r_id r @ '':read'', r_id r @ '':write'']" using a by (auto simp: is_rw_def)
    ultimately show ?thesis using defs(1) by blast
  next
    case 3
    have "''reader:'' @ r_id r \<in> set (rbac_assigned D s)" using 3 r by (auto simp: rbac_assigned_def)
    moreover have "r_id r @ CHR '':'' # act \<in> set [r_id r @ '':read'']" using 3 by simp
    ultimately show ?thesis using defs(2) by blast
  qed
qed

lemma rbac_can_iff:
  assumes D: "well_keyed D" "admins_have_resources D" "plain_resources D"
    and e: "rbac_adapter_init D = Inr e"
    and s: "s \<in> set (dvalues (subjects D))" and r: "r \<in> set (dvalues (resources D))"
    and t: "s_tenant s = r_tenant r" and a: "is_rw act"
  shows "can e (s_id s) (r_id r @ CHR '':'' # act) \<longleftrightarrow>
     s_tenant_admin s \<or> s_id s = r_owner r \<or> (act = ''read'' \<and> reads_by_group D s r)"
proof -
  let ?p = "r_id r @ CHR '':'' # act"
  from rbac_adapter_init_ok [OF D(1,2)] e have inv: "roles_inv D e"
    and defd: "defined_roles e = (\<Union>r \<in> set (dvalues (resources D)). role_names r)"
    and held: "set (held_roles e (s_id s)) = set (rbac_assigned D s)" using s by auto
  have sub: "set (rbac_assigned D s) \<subseteq> defined_roles e"
    by (rule rbac_assigned_defined [OF D(2) s defd])
  note m = permission_matches_iff [OF D(1,3) r]
  have rw: "is_rw ''read''" "is_rw ''write''" by (simp_all add: is_rw_def)
  have can: "can e (s_id s) ?p \<longleftrightarrow> (\<exists>n \<in> set (rbac_assigned D s). \<exists>ps. role_def D n ps \<and> (\<exists>g \<in> set ps. matches g ?p))"
    unfolding roles_inv_can [OF inv] held using sub by blast
  show ?thesis
  proof
    assume "can e (s_id s) ?p"
    then obtain n ps g where n: "n \<in> set (rbac_assigned D s)" and ps: "role_def D n ps"
      and g: "g \<in> set ps" "matches g ?p" unfolding can by blast
    from n consider "s_tenant_admin s"
      | r' where "r' \<in> set (dvalues (resources D))" "s_id s = r_owner r'" "n = ''owner:'' @ r_id r'"
      | r' where "r' \<in> set (dvalues (resources D))" "reads_by_group D s r'" "n = ''reader:'' @ r_id r'"
      by (auto simp: rbac_assigned_def split: if_splits)
    then show "s_tenant_admin s \<or> s_id s = r_owner r \<or> (act = ''read'' \<and> reads_by_group D s r)"
    proof cases
      case 2
      with ps role_def_owner have "ps = [r_id r' @ '':read'', r_id r' @ '':write'']" by blast
      with g m [OF 2(1)] rw 2(2) show ?thesis by auto
    next
      case 3
      with ps role_def_reader have "ps = [r_id r' @ '':read'']" by blast
      with g m [OF 3(1)] rw 3(2) show ?thesis by auto
    qed simp
  next
    assume "s_tenant_admin s \<or> s_id s = r_owner r \<or> (act = ''read'' \<and> reads_by_group D s r)"
    from rbac_granting_role [OF r t a this] show "can e (s_id s) ?p" unfolding can using m [OF r a] by blast
  qed
qed

lemma dget_dvalues: "dget d k = Some v \<Longrightarrow> v \<in> set (dvalues d)"
  by (rule dget_in_values)

lemma rbac_allowed:
  assumes "well_keyed D" "admins_have_resources D" "plain_resources D" "rbac_adapter_init D = Inr e"
  shows "d_allowed (rbac_decide D e q) \<longleftrightarrow> grants_within D (max_relationship_depth D) q"
proof (cases "dget (subjects D) (q_subject_id q)")
  case None
  then show ?thesis by (simp add: rbac_decide_def grants_within_def deny_def)
next
  case s: (Some s)
  with well_keyedD(1) [OF assms(1)] have i: "dget (subjects D) (s_id s) = Some s" by metis
  show ?thesis
  proof (cases "dget (resources D) (q_resource_id q)")
    case None
    then show ?thesis by (simp add: rbac_decide_def grants_within_def deny_def s)
  next
    case r: (Some r)
    have can: "s_tenant s = r_tenant r \<Longrightarrow> is_rw (q_action q) \<Longrightarrow>
        can e (s_id s) (r_id r @ CHR '':'' # q_action q) \<longleftrightarrow>
          s_tenant_admin s \<or> s_id s = r_owner r \<or> (q_action q = ''read'' \<and> reads_by_group D s r)"
      by (rule rbac_can_iff [OF assms dget_dvalues [OF s] dget_dvalues [OF r]])
    show ?thesis
      using can by (auto simp: rbac_decide_def grants_within_def deny_def allow_def s r is_rw_def
          reads_by_group_iff [OF i])
  qed
qed

subsection \<open>ReBAC\<close>

definition plain_dataset :: "policy_dataset \<Rightarrow> bool" where
  "plain_dataset D \<longleftrightarrow> plain_resources D
     \<and> (\<forall>r \<in> set (dvalues (resources D)). plain_id (r_owner r)
          \<and> (\<forall>g. r_reader_group r = Some g \<longrightarrow> plain_id g))
     \<and> (\<forall>s \<in> set (dvalues (subjects D)). plain_id (s_id s) \<and> plain_id (s_tenant s)
          \<and> (\<forall>g \<in> set (s_direct_groups s). plain_id g))
     \<and> (\<forall>(c, ps) \<in> set (group_parents D). plain_id c \<and> (\<forall>p \<in> set ps. plain_id p))"

definition tp :: "string \<Rightarrow> string \<Rightarrow> string \<Rightarrow> reltuple" where
  "tp a r u = \<lparr>tuple_object = a, tuple_relation = r, tuple_user = u\<rparr>"

lemma tp_eq_iff [simp]: "tp a r u = tp a' r' u' \<longleftrightarrow> a = a' \<and> r = r' \<and> u = u'"
  by (simp add: tp_def)

lemma parse_tp:
  "CHR ''#'' \<notin> set a \<Longrightarrow> CHR ''@'' \<notin> set r \<Longrightarrow> tuple_parse (a @ CHR ''#'' # r @ CHR ''@'' # u) = Inr (tp a r u)"
  by (simp add: tuple_parse_def split_once_append tp_def)

text \<open>The tuples the texts of the adapter stand for.\<close>

definition model_subject :: "subj \<Rightarrow> reltuple list" where
  "model_subject s =
     map (\<lambda>g. tp (''group:'' @ g) ''member'' (''user:'' @ s_id s)) (s_direct_groups s)
     @ (if s_tenant_admin s then [tp (''tenant:'' @ s_tenant s) ''admin'' (''user:'' @ s_id s)] else [])"

definition model_group :: "string \<times> string list \<Rightarrow> reltuple list" where
  "model_group x = map (\<lambda>p. tp (''group:'' @ p) ''member'' (''group:'' @ fst x @ ''#member'')) (snd x)"

definition model_resource :: "res \<Rightarrow> reltuple list" where
  "model_resource r = [tp (''document:'' @ r_id r) ''owner'' (''user:'' @ r_owner r)]
     @ (case r_reader_group r of None \<Rightarrow> []
        | Some g \<Rightarrow> if g = [] then [] else [tp (''document:'' @ r_id r) ''reader'' (''group:'' @ g @ ''#member'')])"

definition model_tuples :: "policy_dataset \<Rightarrow> reltuple list" where
  "model_tuples D = concat (map model_subject (dvalues (subjects D)))
     @ concat (map model_group (group_parents D)) @ concat (map model_resource (dvalues (resources D)))"

lemma plain_hash [simp]: "plain_id x \<Longrightarrow> CHR ''#'' \<notin> set x"
  by (simp add: plain_id_def)

lemma plain_datasetD:
  assumes "plain_dataset D"
  shows "s \<in> set (dvalues (subjects D)) \<Longrightarrow> plain_id (s_id s) \<and> plain_id (s_tenant s)"
    and "s \<in> set (dvalues (subjects D)) \<Longrightarrow> g \<in> set (s_direct_groups s) \<Longrightarrow> plain_id g"
    and "x \<in> set (group_parents D) \<Longrightarrow> plain_id (fst x)"
    and "x \<in> set (group_parents D) \<Longrightarrow> q \<in> set (snd x) \<Longrightarrow> plain_id q"
    and "r \<in> set (dvalues (resources D)) \<Longrightarrow> plain_id (r_id r) \<and> plain_id (r_owner r)"
    and "r \<in> set (dvalues (resources D)) \<Longrightarrow> r_reader_group r = Some g \<Longrightarrow> plain_id g"
  using assms unfolding plain_dataset_def plain_resources_def by (auto simp: case_prod_beta)

lemma parse_member:
  "plain_id g \<Longrightarrow> tuple_parse (''group:'' @ g @ ''#member@'' @ u) = Inr (tp (''group:'' @ g) ''member'' u)"
  using parse_tp [of "''group:'' @ g" "''member''" u] by simp

lemma parse_admin:
  "plain_id t \<Longrightarrow> tuple_parse (''tenant:'' @ t @ ''#admin@'' @ u) = Inr (tp (''tenant:'' @ t) ''admin'' u)"
  using parse_tp [of "''tenant:'' @ t" "''admin''" u] by simp

lemma parse_owner:
  "plain_id t \<Longrightarrow> tuple_parse (''document:'' @ t @ ''#owner@'' @ u) = Inr (tp (''document:'' @ t) ''owner'' u)"
  using parse_tp [of "''document:'' @ t" "''owner''" u] by simp

lemma parse_reader:
  "plain_id t \<Longrightarrow> tuple_parse (''document:'' @ t @ ''#reader@'' @ u) = Inr (tp (''document:'' @ t) ''reader'' u)"
  using parse_tp [of "''document:'' @ t" "''reader''" u] by simp

lemma map_parse_subject:
  assumes "plain_dataset D" "s \<in> set (dvalues (subjects D))"
  shows "map tuple_parse (subject_tuples s) = map Inr (model_subject s)"
  using plain_datasetD(1,2) [OF assms] parse_member [of _ "''user:'' @ s_id s"]
    parse_admin [of "s_tenant s" "''user:'' @ s_id s"]
  by (simp add: subject_tuples_def model_subject_def)

lemma map_parse_group:
  assumes "plain_dataset D" "x \<in> set (group_parents D)"
  shows "map tuple_parse (group_tuples x) = map Inr (model_group x)"
  using plain_datasetD(3,4) [OF assms] parse_member [of _ "''group:'' @ fst x @ ''#member''"]
  by (simp add: group_tuples_def model_group_def case_prod_beta)

lemma map_parse_resource:
  assumes "plain_dataset D" "r \<in> set (dvalues (resources D))"
  shows "map tuple_parse (resource_tuples r) = map Inr (model_resource r)"
  using plain_datasetD(5,6) [OF assms] parse_owner [of "r_id r" "''user:'' @ r_owner r"]
    parse_reader [of "r_id r"]
  by (cases "r_reader_group r") (simp_all add: resource_tuples_def model_resource_def)

lemma map_concat_map_cong:
  "(\<And>x. x \<in> set xs \<Longrightarrow> map f (g x) = map h (k x)) \<Longrightarrow>
     map f (concat (map g xs)) = map h (concat (map k xs))"
  by (induction xs) auto

lemma map_parse_all:
  assumes "plain_dataset D"
  shows "map tuple_parse (all_tuples D) = map Inr (model_tuples D)"
  unfolding all_tuples_def model_tuples_def map_append
  by (intro arg_cong2 [where f = "(@)"] map_concat_map_cong map_parse_subject [OF assms]
      map_parse_group [OF assms] map_parse_resource [OF assms])

lemma fold_write_step:
  "map tuple_parse ts = map Inr us \<Longrightarrow>
     \<exists>e'. fold_res write_step ts e = Inr e' \<and> set (tuples e') = set (tuples e) \<union> set us
       \<and> namespaces e' = namespaces e \<and> max_depth e' = max_depth e"
proof (induction ts arbitrary: us e)
  case (Cons t ts)
  then obtain u us' where us: "us = u # us'" "tuple_parse t = Inr u" "map tuple_parse ts = map Inr us'"
    by (cases us) auto
  from Cons.IH [OF us(3), of "rebac_write e u"] us show ?case
    by (auto simp: write_step_def write_text_def rebac_write_def split: if_splits)
qed simp

lemma rebac_adapter_init_ok:
  assumes "plain_dataset D" "0 \<le> max_relationship_depth D"
  shows "\<exists>e. rebac_adapter_init D = Inr e \<and> set (tuples e) = set (model_tuples D)
    \<and> max_depth e = max_relationship_depth D
    \<and> dget (namespaces e) ''group'' = Some [(''member'', us_this)]
    \<and> dget (namespaces e) ''tenant'' = Some [(''admin'', us_this)]
    \<and> dget (namespaces e) ''document'' = Some [(''owner'', us_this),
        (''editor'', us_union [us_this, us_computed ''owner'']), (''reader'', us_this),
        (''viewer'', us_union [us_this, us_computed ''editor'', us_computed ''reader''])]"
proof -
  obtain e0 where e0: "rebac_schema (max_relationship_depth D) = Inr e0" "tuples e0 = []"
    "max_depth e0 = max_relationship_depth D"
    "dget (namespaces e0) ''group'' = Some [(''member'', us_this)]"
    "dget (namespaces e0) ''tenant'' = Some [(''admin'', us_this)]"
    "dget (namespaces e0) ''document'' = Some [(''owner'', us_this),
        (''editor'', us_union [us_this, us_computed ''owner'']), (''reader'', us_this),
        (''viewer'', us_union [us_this, us_computed ''editor'', us_computed ''reader''])]"
    using assms(2) by (simp add: rebac_schema_def new_rebac_def dget_relation)
  from fold_write_step [OF map_parse_all [OF assms(1)], of e0] e0 show ?thesis
    by (auto simp: rebac_adapter_init_def)
qed

lemma direct_iff: "c \<in> set (direct e a r) \<longleftrightarrow> tp a r c \<in> set (tuples e)"
proof
  assume "c \<in> set (direct e a r)"
  then obtain t where "t \<in> set (tuples e)" "tuple_object t = a" "tuple_relation t = r" "tuple_user t = c"
    by (auto simp: direct_def)
  moreover have "t = tp (tuple_object t) (tuple_relation t) (tuple_user t)"
    by (cases t) (simp add: tp_def)
  ultimately show "tp a r c \<in> set (tuples e)" by metis
qed (force simp: direct_def tp_def)

lemma in_model_resource: "t \<in> set (model_resource r) \<longleftrightarrow>
    t = tp (''document:'' @ r_id r) ''owner'' (''user:'' @ r_owner r)
    \<or> (\<exists>g. r_reader_group r = Some g \<and> g \<noteq> []
         \<and> t = tp (''document:'' @ r_id r) ''reader'' (''group:'' @ g @ ''#member''))"
  by (cases "r_reader_group r") (auto simp: model_resource_def)

lemma in_model_subject: "t \<in> set (model_subject s) \<longleftrightarrow>
    (\<exists>g \<in> set (s_direct_groups s). t = tp (''group:'' @ g) ''member'' (''user:'' @ s_id s))
    \<or> (s_tenant_admin s \<and> t = tp (''tenant:'' @ s_tenant s) ''admin'' (''user:'' @ s_id s))"
  by (auto simp: model_subject_def)

lemma in_model_group: "t \<in> set (model_group x) \<longleftrightarrow>
    (\<exists>p \<in> set (snd x). t = tp (''group:'' @ p) ''member'' (''group:'' @ fst x @ ''#member''))"
  by (auto simp: model_group_def)

lemma in_model_tuples: "t \<in> set (model_tuples D) \<longleftrightarrow>
    (\<exists>s \<in> set (dvalues (subjects D)). t \<in> set (model_subject s))
    \<or> (\<exists>x \<in> set (group_parents D). t \<in> set (model_group x))
    \<or> (\<exists>r \<in> set (dvalues (resources D)). t \<in> set (model_resource r))"
  by (auto simp: model_tuples_def)

lemmas in_model = in_model_tuples in_model_subject in_model_group in_model_resource

lemma direct_model:
  assumes "set (tuples e) = set (model_tuples D)"
  shows "c \<in> set (direct e (''group:'' @ g) ''member'') \<longleftrightarrow>
      (\<exists>s \<in> set (dvalues (subjects D)). g \<in> set (s_direct_groups s) \<and> c = ''user:'' @ s_id s)
      \<or> (\<exists>x \<in> set (group_parents D). g \<in> set (snd x) \<and> c = ''group:'' @ fst x @ ''#member'')"
    and "c \<in> set (direct e (''tenant:'' @ t) ''admin'') \<longleftrightarrow>
      (\<exists>s \<in> set (dvalues (subjects D)). s_tenant_admin s \<and> s_tenant s = t \<and> c = ''user:'' @ s_id s)"
    and "c \<in> set (direct e (''document:'' @ i) ''owner'') \<longleftrightarrow>
      (\<exists>r \<in> set (dvalues (resources D)). r_id r = i \<and> c = ''user:'' @ r_owner r)"
    and "c \<in> set (direct e (''document:'' @ i) ''reader'') \<longleftrightarrow>
      (\<exists>r \<in> set (dvalues (resources D)). \<exists>g. r_id r = i \<and> r_reader_group r = Some g \<and> g \<noteq> []
         \<and> c = ''group:'' @ g @ ''#member'')"
    and "direct e (''document:'' @ i) ''viewer'' = []" and "direct e (''document:'' @ i) ''editor'' = []"
proof -
  have no: "tp (''document:'' @ i) r c \<notin> set (tuples e)" if "r = ''viewer'' \<or> r = ''editor''" for r c
    using that by (auto simp: assms in_model)
  then show "direct e (''document:'' @ i) ''viewer'' = []" "direct e (''document:'' @ i) ''editor'' = []"
    using direct_iff [of _ e "''document:'' @ i"] by (metis list.set_intros(1) neq_Nil_conv)+
qed (simp_all add: direct_iff assms in_model, blast+)

lemma wildcard_user:
  assumes "plain_id x"
  shows "\<not> suffix '':*'' (''user:'' @ x)"
proof (cases "rev x")
  case Nil
  then show ?thesis by (simp add: suffix_to_prefix)
next
  case (Cons a l)
  then have x: "x = rev l @ [a]" by (metis rev.simps(2) rev_rev_ident)
  show ?thesis
    using assms unfolding x plain_id_def by (cases l) (auto simp: suffix_to_prefix)
qed

lemma direct_match_plain_user:
  "plain_id x \<Longrightarrow> direct_match f u (''user:'' @ x) \<longleftrightarrow> u = ''user:'' @ x"
  using wildcard_user [of x] split_once_None_iff [of "CHR ''#''" "''user:'' @ x"]
  by (auto simp: direct_match_def)

lemma direct_match_member:
  assumes "plain_id g"
  shows "direct_match f (''user:'' @ x) (''group:'' @ g @ ''#member'') \<longleftrightarrow> f (''group:'' @ g) ''member''"
proof -
  have "split_once CHR ''#'' (''group:'' @ g @ ''#member'') = Some (''group:'' @ g, ''member'')"
    using split_once_append [of "CHR ''#''" "''group:'' @ g" "''member''"] assms by simp
  moreover have "\<not> suffix '':*'' (''group:'' @ g @ ''#member'')"
    by (auto simp: suffix_def dest: arg_cong [where f = last])
  ultimately show ?thesis by (auto simp: direct_match_def)
qed

lemma parents_of_iff:
  assumes "well_keyed D"
  shows "g \<in> set (parents_of D c) \<longleftrightarrow> (\<exists>x \<in> set (group_parents D). fst x = c \<and> g \<in> set (snd x))"
proof -
  have d: "distinct (dkeys (group_parents D))" using assms by (simp add: well_keyed_def)
  show ?thesis
  proof (cases "dget (group_parents D) c")
    case None
    then have "c \<notin> fst ` set (group_parents D)" by (simp add: map_of_eq_None_iff)
    with None show ?thesis by (auto simp: parents_of_def)
  next
    case (Some ps)
    then have "(c, ps) \<in> set (group_parents D)" by (rule map_of_SomeD)
    moreover have "ps' = ps" if "(c, ps') \<in> set (group_parents D)" for ps'
      using map_of_is_SomeI [OF d that] Some by simp
    ultimately have "(\<exists>x \<in> set (group_parents D). fst x = c \<and> g \<in> set (snd x)) \<longleftrightarrow> g \<in> set ps"
      by (metis fst_conv prod.collapse snd_conv)
    then show ?thesis by (simp add: parents_of_def Some)
  qed
qed

text \<open>What the adapter's engine knows about the data set.\<close>

definition rebac_models :: "policy_dataset \<Rightarrow> rebac \<Rightarrow> bool" where
  "rebac_models D e \<longleftrightarrow> set (tuples e) = set (model_tuples D)
     \<and> (\<forall>g. rewrite_for e (''group:'' @ g) ''member'' = us_this)
     \<and> (\<forall>t. rewrite_for e (''tenant:'' @ t) ''admin'' = us_this)
     \<and> (\<forall>i. rewrite_for e (''document:'' @ i) ''owner'' = us_this
          \<and> rewrite_for e (''document:'' @ i) ''reader'' = us_this
          \<and> rewrite_for e (''document:'' @ i) ''editor'' = us_union [us_this, us_computed ''owner'']
          \<and> rewrite_for e (''document:'' @ i) ''viewer'' =
              us_union [us_this, us_computed ''editor'', us_computed ''reader''])"

lemma rebac_init_models:
  assumes "plain_dataset D" "well_keyed D"
  shows "\<exists>e. rebac_adapter_init D = Inr e \<and> rebac_models D e \<and> max_depth e = max_relationship_depth D"
  using rebac_adapter_init_ok [OF assms(1) well_keyedD(5) [OF assms(2)]]
  by (auto simp: rebac_models_def rewrite_for_def object_type_def before_first_def)

lemma derives_this_iff:
  "rewrite_for e a r = us_this \<Longrightarrow> derives e u (Suc n) a r \<longleftrightarrow> (\<exists>c \<in> set (direct e a r). direct_match (derives e u n) u c)"
  by (simp add: derives_Suc us_this_def)

lemma derives_union_iff:
  "rewrite_for e a r = us_union cs \<Longrightarrow>
     derives e u (Suc n) a r \<longleftrightarrow> (\<exists>c \<in> set cs. eval_userset e (derives e u n) c a r u)"
  by (simp add: derives_Suc us_union_def)

lemma eval_this_iff: "eval_userset e f us_this a r u \<longleftrightarrow> (\<exists>c \<in> set (direct e a r). direct_match f u c)"
  and eval_computed_iff: "eval_userset e f (us_computed q) a r u \<longleftrightarrow> f a q"
  by (simp_all add: us_this_def us_computed_def or_empty_def)

lemma derives_0 [simp]: "\<not> derives e u 0 a r"
  by (simp add: derives_def)

lemma derives_member:
  assumes m: "rebac_models D e" and D: "plain_dataset D" "well_keyed D"
    and s: "s \<in> set (dvalues (subjects D))"
  shows "derives e (''user:'' @ s_id s) n (''group:'' @ g) ''member'' \<longleftrightarrow>
     (\<exists>k < n. \<exists>d \<in> set (s_direct_groups s). (d, g) \<in> parent_rel D ^^ k)"
proof (induction n arbitrary: g)
  case (Suc n)
  let ?u = "''user:'' @ s_id s"
  have ts: "set (tuples e) = set (model_tuples D)" and rw: "rewrite_for e (''group:'' @ g) ''member'' = us_this"
    using m by (auto simp: rebac_models_def)
  have same: "s' = s" if "s' \<in> set (dvalues (subjects D))" "s_id s' = s_id s" for s'
    using well_keyedD(3) [OF D(2) s] well_keyedD(3) [OF D(2) that(1)] that(2) by simp
  have "derives e ?u (Suc n) (''group:'' @ g) ''member'' \<longleftrightarrow>
      (\<exists>s' \<in> set (dvalues (subjects D)). g \<in> set (s_direct_groups s') \<and> ?u = ''user:'' @ s_id s')
      \<or> (\<exists>x \<in> set (group_parents D). g \<in> set (snd x) \<and> derives e ?u n (''group:'' @ fst x) ''member'')"
    unfolding derives_this_iff [OF rw] Bex_def direct_model(1) [OF ts]
    using plain_datasetD(1) [OF D(1)] plain_datasetD(3) [OF D(1)]
      direct_match_plain_user [of _ "derives e ?u n" ?u]
      direct_match_member [of _ "derives e ?u n" "s_id s"] by blast
  also have "\<dots> \<longleftrightarrow> g \<in> set (s_direct_groups s)
      \<or> (\<exists>c. (c, g) \<in> parent_rel D \<and> (\<exists>k < n. \<exists>d \<in> set (s_direct_groups s). (d, c) \<in> parent_rel D ^^ k))"
  proof -
    have "(\<exists>s' \<in> set (dvalues (subjects D)). g \<in> set (s_direct_groups s') \<and> ?u = ''user:'' @ s_id s')
        \<longleftrightarrow> g \<in> set (s_direct_groups s)"
      using s same by (metis same_append_eq)
    then show ?thesis unfolding Suc.IH parent_rel_iff parents_of_iff [OF D(2)] by blast
  qed
  also have "\<dots> \<longleftrightarrow> (\<exists>k < Suc n. \<exists>d \<in> set (s_direct_groups s). (d, g) \<in> parent_rel D ^^ k)"
  proof
    assume "g \<in> set (s_direct_groups s)
      \<or> (\<exists>c. (c, g) \<in> parent_rel D \<and> (\<exists>k < n. \<exists>d \<in> set (s_direct_groups s). (d, c) \<in> parent_rel D ^^ k))"
    then show "\<exists>k < Suc n. \<exists>d \<in> set (s_direct_groups s). (d, g) \<in> parent_rel D ^^ k"
      by (metis Suc_less_eq relpow_0_I relpow_Suc_I zero_less_Suc)
  next
    assume "\<exists>k < Suc n. \<exists>d \<in> set (s_direct_groups s). (d, g) \<in> parent_rel D ^^ k"
    then obtain k d where k: "k < Suc n" "d \<in> set (s_direct_groups s)" "(d, g) \<in> parent_rel D ^^ k" by blast
    show "g \<in> set (s_direct_groups s)
      \<or> (\<exists>c. (c, g) \<in> parent_rel D \<and> (\<exists>k < n. \<exists>d \<in> set (s_direct_groups s). (d, c) \<in> parent_rel D ^^ k))"
    proof (cases k)
      case 0
      with k show ?thesis by simp
    next
      case (Suc j)
      with k(3) obtain c where "(d, c) \<in> parent_rel D ^^ j" "(c, g) \<in> parent_rel D" by auto
      with k(1,2) Suc show ?thesis by blast
    qed
  qed
  finally show ?case .
qed simp

lemma derives_owner:
  assumes m: "rebac_models D e" and D: "plain_dataset D" "well_keyed D" and r: "r \<in> set (dvalues (resources D))"
  shows "derives e (''user:'' @ x) (Suc n) (''document:'' @ r_id r) ''owner'' \<longleftrightarrow> x = r_owner r"
proof -
  have ts: "set (tuples e) = set (model_tuples D)" and rw: "rewrite_for e (''document:'' @ r_id r) ''owner'' = us_this"
    using m by (auto simp: rebac_models_def)
  have "derives e (''user:'' @ x) (Suc n) (''document:'' @ r_id r) ''owner'' \<longleftrightarrow>
      (\<exists>r' \<in> set (dvalues (resources D)). r_id r' = r_id r \<and> ''user:'' @ x = ''user:'' @ r_owner r')"
    unfolding derives_this_iff [OF rw] Bex_def direct_model(3) [OF ts]
    using plain_datasetD(5) [OF D(1)] direct_match_plain_user [of _ "derives e (''user:'' @ x) n" "''user:'' @ x"]
    by blast
  also have "\<dots> \<longleftrightarrow> x = r_owner r" using r same_resource [OF D(2) r] by (metis same_append_eq)
  finally show ?thesis .
qed

lemma derives_reader:
  assumes m: "rebac_models D e" and D: "plain_dataset D" "well_keyed D" and r: "r \<in> set (dvalues (resources D))"
    and s: "s \<in> set (dvalues (subjects D))"
  shows "derives e (''user:'' @ s_id s) (Suc n) (''document:'' @ r_id r) ''reader'' \<longleftrightarrow>
     (\<exists>g. r_reader_group r = Some g \<and> g \<noteq> [] \<and> member_within D (int n - 1) s g)"
proof -
  let ?u = "''user:'' @ s_id s"
  have ts: "set (tuples e) = set (model_tuples D)" and rw: "rewrite_for e (''document:'' @ r_id r) ''reader'' = us_this"
    using m by (auto simp: rebac_models_def)
  have mw: "derives e ?u n (''group:'' @ g) ''member'' \<longleftrightarrow> member_within D (int n - 1) s g" for g
  proof -
    have "int k \<le> int n - 1 \<longleftrightarrow> k < n" for k by auto
    then show ?thesis unfolding derives_member [OF m D s] member_within_def by blast
  qed
  have "derives e ?u (Suc n) (''document:'' @ r_id r) ''reader'' \<longleftrightarrow>
      (\<exists>r' \<in> set (dvalues (resources D)). \<exists>g. r_id r' = r_id r \<and> r_reader_group r' = Some g \<and> g \<noteq> []
         \<and> derives e ?u n (''group:'' @ g) ''member'')"
    unfolding derives_this_iff [OF rw] Bex_def direct_model(4) [OF ts]
    using plain_datasetD(6) [OF D(1)] direct_match_member [of _ "derives e ?u n" "s_id s"] by blast
  also have "\<dots> \<longleftrightarrow> (\<exists>g. r_reader_group r = Some g \<and> g \<noteq> [] \<and> member_within D (int n - 1) s g)"
    unfolding mw using r same_resource [OF D(2) r] by metis
  finally show ?thesis .
qed

lemma derives_editor:
  assumes "rebac_models D e"
  shows "derives e u (Suc n) (''document:'' @ i) ''editor'' \<longleftrightarrow> derives e u n (''document:'' @ i) ''owner''"
    and "derives e u (Suc n) (''document:'' @ i) ''viewer'' \<longleftrightarrow>
      derives e u n (''document:'' @ i) ''editor'' \<or> derives e u n (''document:'' @ i) ''reader''"
proof -
  have ts: "set (tuples e) = set (model_tuples D)"
    and rw: "rewrite_for e (''document:'' @ i) ''editor'' = us_union [us_this, us_computed ''owner'']"
      "rewrite_for e (''document:'' @ i) ''viewer'' = us_union [us_this, us_computed ''editor'', us_computed ''reader'']"
    using assms by (auto simp: rebac_models_def)
  show "derives e u (Suc n) (''document:'' @ i) ''editor'' \<longleftrightarrow> derives e u n (''document:'' @ i) ''owner''"
    unfolding derives_union_iff [OF rw(1)] list.set bex_simps(5,6,7) eval_this_iff eval_computed_iff
      direct_model(6) [OF ts] by simp
  show "derives e u (Suc n) (''document:'' @ i) ''viewer'' \<longleftrightarrow>
      derives e u n (''document:'' @ i) ''editor'' \<or> derives e u n (''document:'' @ i) ''reader''"
    unfolding derives_union_iff [OF rw(2)] list.set bex_simps(5,6,7) eval_this_iff eval_computed_iff
      direct_model(5) [OF ts] by simp
qed

lemma derives_admin:
  assumes m: "rebac_models D e" and D: "plain_dataset D" "well_keyed D" and s: "s \<in> set (dvalues (subjects D))"
  shows "derives e (''user:'' @ s_id s) (Suc n) (''tenant:'' @ s_tenant s) ''admin'' \<longleftrightarrow> s_tenant_admin s"
proof -
  have ts: "set (tuples e) = set (model_tuples D)" and rw: "rewrite_for e (''tenant:'' @ s_tenant s) ''admin'' = us_this"
    using m by (auto simp: rebac_models_def)
  have same: "s' = s" if "s' \<in> set (dvalues (subjects D))" "s_id s' = s_id s" for s'
    using well_keyedD(3) [OF D(2) s] well_keyedD(3) [OF D(2) that(1)] that(2) by simp
  have "derives e (''user:'' @ s_id s) (Suc n) (''tenant:'' @ s_tenant s) ''admin'' \<longleftrightarrow>
      (\<exists>s' \<in> set (dvalues (subjects D)). s_tenant_admin s' \<and> s_tenant s' = s_tenant s
         \<and> ''user:'' @ s_id s = ''user:'' @ s_id s')"
    unfolding derives_this_iff [OF rw] Bex_def direct_model(2) [OF ts]
    using plain_datasetD(1) [OF D(1)]
      direct_match_plain_user [of _ "derives e (''user:'' @ s_id s) n" "''user:'' @ s_id s"] by blast
  also have "\<dots> \<longleftrightarrow> s_tenant_admin s" using s same by (metis same_append_eq)
  finally show ?thesis .
qed

text \<open>
  The document graph spends two levels of the depth budget before it reaches a group, so
  ReBAC decides the access rule with the depth bound lowered by two.
\<close>

lemma rebac_allowed:
  assumes D: "plain_dataset D" "well_keyed D" and m: "rebac_models D e"
    and M: "max_depth e = max_relationship_depth D" "2 \<le> max_relationship_depth D"
  shows "d_allowed (rebac_decide D e q) \<longleftrightarrow> grants_within D (max_relationship_depth D - 2) q"
proof (cases "dget (subjects D) (q_subject_id q)")
  case None
  then show ?thesis by (simp add: rebac_decide_def grants_within_def deny_def)
next
  case s: (Some s)
  show ?thesis
  proof (cases "dget (resources D) (q_resource_id q)")
    case None
    then show ?thesis by (simp add: rebac_decide_def grants_within_def deny_def s)
  next
    case r: (Some r)
    obtain n where n: "nat (max_relationship_depth D + 1) = Suc (Suc (Suc n))"
      and n2: "int (Suc n) - 1 = max_relationship_depth D - 2"
      using M(2) by (intro that [of "nat (max_relationship_depth D - 2)"]) auto
    note sr = dget_dvalues [OF s] dget_dvalues [OF r]
    have admin: "rebac_check e (''tenant:'' @ s_tenant s) ''admin'' (''user:'' @ s_id s) \<longleftrightarrow> s_tenant_admin s"
      unfolding check_derives M(1) n by (rule derives_admin [OF m D sr(1)])
    have editor: "rebac_check e (''document:'' @ r_id r) ''editor'' (''user:'' @ s_id s) \<longleftrightarrow> s_id s = r_owner r"
      unfolding check_derives M(1) n derives_editor [OF m] derives_owner [OF m D sr(2)] ..
    have viewer: "rebac_check e (''document:'' @ r_id r) ''viewer'' (''user:'' @ s_id s) \<longleftrightarrow> s_id s = r_owner r
        \<or> (\<exists>g. r_reader_group r = Some g \<and> g \<noteq> [] \<and> member_within D (max_relationship_depth D - 2) s g)"
      unfolding check_derives M(1) n derives_editor [OF m] derives_owner [OF m D sr(2)]
        derives_reader [OF m D sr(2) sr(1)] n2 ..
    show ?thesis
      using admin editor viewer
      by (auto simp: rebac_decide_def grants_within_def deny_def allow_def s r is_rw_def Let_def)
  qed
qed

section \<open>Parity\<close>

lemma require_parity_iff:
  "require_parity c q = Inr b \<longleftrightarrow> (\<forall>d \<in> set (dvalues (decide_all c q)). d_allowed d = b)"
proof -
  obtain x1 x2 x3 x4 x5 where x: "map d_allowed (dvalues (decide_all c q)) = [x1, x2, x3, x4, x5]"
    by (simp add: decide_all_def)
  have "(\<forall>d \<in> set (dvalues (decide_all c q)). d_allowed d = b) \<longleftrightarrow> (\<forall>y \<in> set [x1, x2, x3, x4, x5]. y = b)"
    unfolding x [symmetric] by simp
  then show ?thesis unfolding require_parity_def Let_def x by auto
qed

lemma grants_within_mono: "d \<le> d' \<Longrightarrow> grants_within D d q \<Longrightarrow> grants_within D d' q"
  unfolding grants_within_def member_within_def by (meson order_trans)

lemma comparison_decisions:
  assumes D: "well_keyed D" "plain_dataset D" "admins_have_resources D"
    and M: "2 \<le> max_relationship_depth D"
    and g: "\<And>r. r \<in> set (dvalues (resources D)) \<Longrightarrow> r_reader_group r \<noteq> Some []"
  shows "\<exists>c. policy_comparison D = Inr c
    \<and> (\<forall>q. map d_allowed (dvalues (decide_all c q)) =
         (let b = grants_within D (max_relationship_depth D) q;
              b' = grants_within D (max_relationship_depth D - 2) q in [b, b, b', b, b]))"
proof -
  have pr: "plain_resources D" using D(2) by (simp add: plain_dataset_def)
  from rbac_adapter_init_ok [OF D(1,3)] obtain e1 where e1: "rbac_adapter_init D = Inr e1" by blast
  from rebac_init_models [OF D(2,1)] obtain e2 where e2: "rebac_adapter_init D = Inr e2" "rebac_models D e2"
    "max_depth e2 = max_relationship_depth D" by blast
  have gg: "r_reader_group r \<noteq> Some []" if "dget (resources D) k = Some r" for k r
    using g dget_dvalues [OF that] by blast
  have "policy_comparison D = Inr \<lparr>cmp_dataset = D, cmp_rbac = e1, cmp_rebac = e2\<rparr>"
    by (simp add: policy_comparison_def e1 e2(1))
  then show ?thesis
    by (intro exI [of _ "\<lparr>cmp_dataset = D, cmp_rbac = e1, cmp_rebac = e2\<rparr>"] conjI allI)
       (simp_all add: decide_all_def Let_def rbac_allowed [OF D(1,3) pr e1] abac_allowed_iff [OF gg D(1)]
          rebac_allowed [OF D(2,1) e2(2,3) M] cedar_allowed [OF D(1)] rego_cedar)
qed

text \<open>
  C16: Parity of the five policy models.  On a data set whose dictionaries are keyed by the
  entries' identifiers, whose identifiers contain neither \<open>:\<close> nor \<open>#\<close> and are not \<open>*\<close>, where
  every tenant administrator's tenant owns a resource and every group chain within the
  depth bound is also within the bound lowered by two, all adapters can be built and
  \<open>require_parity\<close> never raises: it returns the access rule's answer for every request.
\<close>

theorem adapters_agree:
  assumes "well_keyed D" and "plain_dataset D" and "admins_have_resources D"
    and "2 \<le> max_relationship_depth D"
    and "\<And>r. r \<in> set (dvalues (resources D)) \<Longrightarrow> r_reader_group r \<noteq> Some []"
    and "\<And>s t. member_within D (max_relationship_depth D) s t \<Longrightarrow> member_within D (max_relationship_depth D - 2) s t"
  shows "\<exists>c. policy_comparison D = Inr c
     \<and> (\<forall>q. require_parity c q = Inr (grants_within D (max_relationship_depth D) q))"
proof -
  from comparison_decisions [OF assms(1-5)] obtain c where c: "policy_comparison D = Inr c"
    "\<And>q. map d_allowed (dvalues (decide_all c q)) =
         (let b = grants_within D (max_relationship_depth D) q;
              b' = grants_within D (max_relationship_depth D - 2) q in [b, b, b', b, b])" by blast
  have "grants_within D (max_relationship_depth D - 2) q = grants_within D (max_relationship_depth D) q" for q
  proof -
    have same: "member_within D (max_relationship_depth D - 2) = member_within D (max_relationship_depth D)"
    proof (intro ext iffI)
      fix s t assume "member_within D (max_relationship_depth D - 2) s t"
      then obtain g k where gk: "g \<in> set (s_direct_groups s)" "(g, t) \<in> parent_rel D ^^ k"
        "int k \<le> max_relationship_depth D - 2" unfolding member_within_def by blast
      then have "int k \<le> max_relationship_depth D" by simp
      with gk show "member_within D (max_relationship_depth D) s t" unfolding member_within_def by blast
    qed (rule assms(6))
    show ?thesis by (simp only: grants_within_def same)
  qed
  with c(2) have "map d_allowed (dvalues (decide_all c q)) = replicate 5 (grants_within D (max_relationship_depth D) q)" for q
    by (simp add: Let_def numeral_eq_Suc)
  then have "require_parity c q = Inr (grants_within D (max_relationship_depth D) q)" for q
    by (simp add: require_parity_def numeral_eq_Suc)
  with c(1) show ?thesis by blast
qed

lemma canonical_conditions:
  assumes "0 \<le> d"
  shows "well_keyed (canonical_dataset default_groups d)"
    and "plain_dataset (canonical_dataset default_groups d)"
    and "admins_have_resources (canonical_dataset default_groups d)"
    and "r \<in> set (dvalues (resources (canonical_dataset default_groups d))) \<Longrightarrow> r_reader_group r \<noteq> Some []"
    and "max_relationship_depth (canonical_dataset default_groups d) = d"
  using assms
  by (auto simp: well_keyed_def plain_dataset_def plain_resources_def plain_id_def admins_have_resources_def
      canonical_dataset_def default_groups_def)

lemma canonical_parents:
  "parent_rel (canonical_dataset default_groups d) = {(''platform'', ''eng'')}"
  by (auto simp: parent_rel_def parents_of_def canonical_dataset_def default_groups_def split: if_splits option.splits)

lemma canonical_chain:
  "(a, b) \<in> parent_rel (canonical_dataset default_groups d) ^^ k \<Longrightarrow> k = 0 \<or> (k = 1 \<and> a = ''platform'' \<and> b = ''eng'')"
  by (cases k; cases "k - 1") (auto simp: canonical_parents)

theorem adapters_agree_witness:
  "\<exists>c. policy_comparison (canonical_dataset default_groups MAX_RELATIONSHIP_DEPTH) = Inr c
     \<and> (\<forall>q. require_parity c q = Inr (grants_within (canonical_dataset default_groups MAX_RELATIONSHIP_DEPTH)
          (max_relationship_depth (canonical_dataset default_groups MAX_RELATIONSHIP_DEPTH)) q))"
proof (rule adapters_agree)
  fix s t
  let ?D = "canonical_dataset default_groups MAX_RELATIONSHIP_DEPTH"
  assume "member_within ?D (max_relationship_depth ?D) s t"
  then obtain g k where gk: "g \<in> set (s_direct_groups s)" "(g, t) \<in> parent_rel ?D ^^ k" unfolding member_within_def by blast
  from canonical_chain [OF gk(2)] have "int k \<le> max_relationship_depth ?D - 2"
    by (auto simp: canonical_conditions(5) MAX_RELATIONSHIP_DEPTH_def)
  with gk show "member_within ?D (max_relationship_depth ?D - 2) s t" unfolding member_within_def by blast
qed (use canonical_conditions [of MAX_RELATIONSHIP_DEPTH] in \<open>simp_all add: MAX_RELATIONSHIP_DEPTH_def\<close>)

definition alice_reads_budget :: access_request where
  "alice_reads_budget = \<lparr>q_subject_id = ''alice'', q_action = ''read'', q_resource_id = ''budget''\<rparr>"

text \<open>
  The depth bounds of the models are not aligned.  With the bound 2 the nested group of
  the canonical data set is within reach of \<open>resolve_group\<close> but not of the ReBAC check, so
  \<open>require_parity\<close> raises \<open>AssertionError\<close> for the very case the canonical table expects
  to be allowed.
\<close>

theorem depth_bounds_disagree:
  "\<exists>c. policy_comparison (canonical_dataset default_groups 2) = Inr c
     \<and> require_parity c alice_reads_budget = Inl AssertionError
     \<and> d_allowed (cedar_decide (cmp_dataset c) alice_reads_budget)
     \<and> \<not> d_allowed (rebac_decide (cmp_dataset c) (cmp_rebac c) alice_reads_budget)"
proof -
  let ?D = "canonical_dataset default_groups 2"
  have D: "well_keyed ?D" "plain_dataset ?D" "admins_have_resources ?D" "2 \<le> max_relationship_depth ?D"
    "\<And>r. r \<in> set (dvalues (resources ?D)) \<Longrightarrow> r_reader_group r \<noteq> Some []"
    using canonical_conditions [of 2] by simp_all
  from comparison_decisions [OF D] obtain c where c: "policy_comparison ?D = Inr c"
    "\<And>q. map d_allowed (dvalues (decide_all c q)) =
         (let b = grants_within ?D (max_relationship_depth ?D) q;
              b' = grants_within ?D (max_relationship_depth ?D - 2) q in [b, b, b', b, b])" by blast
  define al where "al = \<lparr>s_id = ''alice'', s_tenant = ''blue'', s_direct_groups = [''platform''], s_tenant_admin = False\<rparr>"
  have "(''platform'', ''eng'') \<in> parent_rel ?D ^^ 1" by (simp add: canonical_parents)
  then have "member_within ?D 2 al ''eng''"
    unfolding member_within_def al_def by (intro bexI [of _ "''platform''"] exI [of _ 1]) simp_all
  then have yes: "grants_within ?D 2 alice_reads_budget"
    by (simp add: grants_within_def alice_reads_budget_def al_def canonical_dataset_def)
  have "\<not> member_within ?D 0 al ''eng''"
    unfolding member_within_def al_def by simp
  then have no: "\<not> grants_within ?D 0 alice_reads_budget"
    by (simp add: grants_within_def alice_reads_budget_def al_def canonical_dataset_def is_rw_def)
  have m: "map d_allowed (dvalues (decide_all c alice_reads_budget)) = [True, True, False, True, True]"
    using c(2) [of alice_reads_budget] yes no by (simp add: canonical_conditions(5) Let_def)
  then have "require_parity c alice_reads_budget = Inl AssertionError"
    by (simp add: require_parity_def)
  with c(1) m show ?thesis by (auto simp: decide_all_def)
qed

definition lonely_admin :: policy_dataset where
  "lonely_admin = \<lparr>subjects = [(''root'', \<lparr>s_id = ''root'', s_tenant = ''green'', s_direct_groups = [],
       s_tenant_admin = True\<rparr>)], resources = [], group_parents = [], max_relationship_depth = 25\<rparr>"

text \<open>
  The RBAC adapter cannot be built when a tenant administrator's tenant owns no
  resource: the administrator is assigned a role no resource has defined, \<open>assign\<close> raises
  \<open>KeyError\<close>, and with it the whole comparison.
\<close>

theorem admin_without_resources_breaks_comparison:
  "policy_comparison lonely_admin = Inl KeyError \<and> \<not> admins_have_resources lonely_admin"
  by (simp add: policy_comparison_def rbac_adapter_init_def lonely_admin_def rbac_subject_roles_def
      rbac_assigned_def assign_def new_rbac_def Let_def admins_have_resources_def)

end
