(* ===== verification/Encoding.thy ===== *)
theory Encoding
  imports Prelude
begin

text \<open>
  \<open>authlab/util/encoding.py\<close> and \<open>authlab/util/ct.py\<close>: unpadded base64url, big-endian
  integers, comparison and random tokens.  \<open>base64.urlsafe_b64decode\<close> is CPython's lenient
  decoder: it skips characters outside both base64 alphabets, it accepts \<open>+\<close> and \<open>/\<close>
  beside \<open>-\<close> and \<open>_\<close>, and it stops at the padding that completes a group.
  The interface \<open>codec\<close> states what the components rely on when they encode and decode.
\<close>

section \<open>Codecs\<close>

locale codec =
  fixes enc :: "'a \<Rightarrow> 'b"
    and dec :: "'b \<Rightarrow> 'e + 'a"
    and valid :: "'a \<Rightarrow> bool"
  assumes dec_enc: "valid x \<Longrightarrow> dec (enc x) = Inr x"
begin

lemma enc_inj: "valid x \<Longrightarrow> valid y \<Longrightarrow> enc x = enc y \<longleftrightarrow> x = y"
  by (metis dec_enc sum.inject(2))

lemma enc_inj_on: "inj_on enc {x. valid x}"
  by (auto intro!: inj_onI simp: enc_inj)

lemma dec_enc_iff: "valid x \<Longrightarrow> dec (enc x) = Inr y \<longleftrightarrow> y = x"
  by (auto simp: dec_enc)

end

text \<open>Two codecs one after the other are a codec.\<close>

locale codec_chain = inner: codec enc1 dec1 valid1 + outer: codec enc2 dec2 valid2
  for enc1 :: "'a \<Rightarrow> 'b" and dec1 :: "'b \<Rightarrow> 'e + 'a" and valid1 :: "'a \<Rightarrow> bool"
    and enc2 :: "'b \<Rightarrow> 'c" and dec2 :: "'c \<Rightarrow> 'e + 'b" and valid2 :: "'b \<Rightarrow> bool" +
  assumes fits: "valid1 x \<Longrightarrow> valid2 (enc1 x)"
begin

lemma chain_dec_enc: "valid1 x \<Longrightarrow> bind_res (dec2 (enc2 (enc1 x))) dec1 = Inr x"
  by (simp add: outer.dec_enc fits inner.dec_enc)

end

sublocale codec_chain \<subseteq> chain: codec "\<lambda>x. enc2 (enc1 x)" "\<lambda>y. bind_res (dec2 y) dec1" valid1
  by unfold_locales (rule chain_dec_enc)

interpretation utf8: codec utf8_encode utf8_decode "\<lambda>_. True"
  by unfold_locales simp

section \<open>base64url\<close>

text \<open>The alphabet \<open>A-Z a-z 0-9 - _\<close>.\<close>

definition b64_char :: "nat \<Rightarrow> char" where
  "b64_char n =
     (if n < 26 then char_of (65 + n) else if n < 52 then char_of (71 + n)
      else if n < 62 then char_of (n - 4) else if n = 62 then CHR ''-'' else CHR ''_'')"

text \<open>The value of a character in the decoder's table; \<open>None\<close> for one it skips.\<close>

definition b64_value :: "char \<Rightarrow> nat option" where
  "b64_value c =
     (let n = of_char c :: nat in
      if 65 \<le> n \<and> n \<le> 90 then Some (n - 65)
      else if 97 \<le> n \<and> n \<le> 122 then Some (n - 71)
      else if 48 \<le> n \<and> n \<le> 57 then Some (n + 4)
      else if c = CHR ''-'' \<or> c = CHR ''+'' then Some 62
      else if c = CHR ''_'' \<or> c = CHR ''/'' then Some 63
      else None)"

fun b64u_encode :: "byte list \<Rightarrow> string" where
  "b64u_encode [] = []"
| "b64u_encode [a] = [b64_char (unat a div 4), b64_char (unat a mod 4 * 16)]"
| "b64u_encode [a, b] =
     [b64_char (unat a div 4), b64_char (unat a mod 4 * 16 + unat b div 16), b64_char (unat b mod 16 * 4)]"
| "b64u_encode (a # b # c # r) =
     [b64_char (unat a div 4), b64_char (unat a mod 4 * 16 + unat b div 16),
      b64_char (unat b mod 16 * 4 + unat c div 64), b64_char (unat c mod 64)] @ b64u_encode r"

text \<open>
  \<open>binascii.a2b_base64\<close> in its lenient mode: position in the group of four, the bits left
  over from the previous character, and the number of padding characters seen in a row.
\<close>

fun a2b_loop :: "nat \<Rightarrow> nat \<Rightarrow> nat \<Rightarrow> string \<Rightarrow> py_error + byte list" where
  "a2b_loop q left pads [] = (if q = 0 then Inr [] else Inl ValueError)"
| "a2b_loop q left pads (ch # s) =
     (if ch = CHR ''='' then
        (if q \<ge> 2 then (if q + Suc pads \<ge> 4 then Inr [] else a2b_loop q left (Suc pads) s)
         else a2b_loop q left pads s)
      else (case b64_value ch of
        None \<Rightarrow> a2b_loop q left pads s
      | Some v \<Rightarrow>
          (if q = 0 then a2b_loop 1 v 0 s
           else if q = 1 then map_sum id ((#) (of_nat (left * 4 + v div 16))) (a2b_loop 2 (v mod 16) 0 s)
           else if q = 2 then map_sum id ((#) (of_nat (left * 16 + v div 4))) (a2b_loop 3 (v mod 4) 0 s)
           else map_sum id ((#) (of_nat (left * 64 + v))) (a2b_loop 0 0 0 s))))"

definition urlsafe_b64decode :: "string \<Rightarrow> py_error + byte list" where
  "urlsafe_b64decode s = (if is_ascii s then a2b_loop 0 0 0 s else Inl ValueError)"

text \<open>The padding \<open>-len(text) % 4\<close> is put back before decoding.\<close>

definition b64u_decode :: "string \<Rightarrow> py_error + byte list" where
  "b64u_decode text = urlsafe_b64decode (text @ replicate (nat (- int (length text) mod 4)) CHR ''='')"

lemma of_char_char_of: "n < 256 \<Longrightarrow> (of_char (char_of n :: char) :: nat) = n"
  by (simp add: of_char_of)

lemma b64_value_char [simp]: "n < 64 \<Longrightarrow> b64_value (b64_char n) = Some n"
  by (auto simp: b64_char_def b64_value_def of_char_char_of Let_def)

lemma b64_char_ascii [simp]: "(of_char (b64_char n) :: nat) < 128"
  by (auto simp: b64_char_def of_char_char_of)

lemma b64_char_not_pad [simp]: "n < 64 \<Longrightarrow> b64_char n \<noteq> CHR ''=''"
  and b64_char_not_dot [simp]: "n < 64 \<Longrightarrow> b64_char n \<noteq> CHR ''.''"
  using b64_value_char [of n] by (auto simp: b64_value_def simp del: b64_value_char)

lemma byte_lt [simp]: "unat (a :: byte) < 256"
  using unsigned_less [of a] by simp

lemma div_mod_group:
  fixes x y m :: nat
  assumes "y < m"
  shows "(x * m + y) div m = x" "(x * m + y) mod m = y"
  using assms by simp_all

lemma byte_parts:
  fixes a :: byte
  shows "unat a div 4 < 64" "unat a div 16 < 16" "unat a div 64 < 4"
  using byte_lt [of a] by (auto intro!: less_mult_imp_div_less simp del: byte_lt)

lemma sextets:
  fixes a b c :: byte
  shows "unat a div 4 < 64" "unat a mod 4 * 16 < 64" "unat a mod 4 * 16 + unat b div 16 < 64"
    "unat b mod 16 * 4 < 64" "unat b mod 16 * 4 + unat c div 64 < 64"
proof -
  have "unat a mod 4 < 4" "unat b mod 16 < 16" by simp_all
  then show "unat a div 4 < 64" "unat a mod 4 * 16 < 64" "unat a mod 4 * 16 + unat b div 16 < 64"
    "unat b mod 16 * 4 < 64" "unat b mod 16 * 4 + unat c div 64 < 64"
    using byte_parts [of a] byte_parts [of b] byte_parts [of c] by linarith+
qed

lemma regroup:
  fixes a b c :: byte
  shows "(unat a mod 4 * 16 + unat b div 16) div 16 = unat a mod 4"
    "(unat a mod 4 * 16 + unat b div 16) mod 16 = unat b div 16"
    "(unat b mod 16 * 4 + unat c div 64) div 4 = unat b mod 16"
    "(unat b mod 16 * 4 + unat c div 64) mod 4 = unat c div 64"
  using byte_parts [of b] byte_parts [of c] by (simp_all only: div_mod_group)

lemma a2b_chars:
  "v < 64 \<Longrightarrow> a2b_loop 0 l p (b64_char v # s) = a2b_loop 1 v 0 s"
  "v < 64 \<Longrightarrow> a2b_loop (Suc 0) l p (b64_char v # s) =
     map_sum id ((#) (of_nat (l * 4 + v div 16))) (a2b_loop 2 (v mod 16) 0 s)"
  "v < 64 \<Longrightarrow> a2b_loop 2 l p (b64_char v # s) =
     map_sum id ((#) (of_nat (l * 16 + v div 4))) (a2b_loop 3 (v mod 4) 0 s)"
  "v < 64 \<Longrightarrow> a2b_loop 3 l p (b64_char v # s) = map_sum id ((#) (of_nat (l * 64 + v))) (a2b_loop 0 0 0 s)"
  by simp_all

lemma b64u_encode_ascii [simp]: "is_ascii (b64u_encode bs)"
  by (induction bs rule: b64u_encode.induct) (auto simp: is_ascii_def)

definition b64_pad :: "string \<Rightarrow> string" where
  "b64_pad text = replicate (nat (- int (length text) mod 4)) CHR ''=''"

lemma b64_pad_add4 [simp]: "b64_pad (w # x # y # z # s) = b64_pad s"
proof -
  have "- int (length (w # x # y # z # s)) mod 4 = - int (length s) mod 4" by simp presburger
  then show ?thesis by (simp only: b64_pad_def)
qed

lemma a2b_encode:
  "a2b_loop 0 0 0 (b64u_encode bs @ b64_pad (b64u_encode bs)) = Inr bs"
proof (induction bs rule: b64u_encode.induct)
  case 1
  show ?case by (simp add: b64_pad_def)
next
  case (2 a)
  show ?case by (simp add: b64_pad_def a2b_chars sextets regroup numeral_2_eq_2)
next
  case (3 a b)
  show ?case by (simp add: b64_pad_def a2b_chars sextets regroup del: of_nat_add of_nat_mult mod_mult_self3 div_mult_self3)
next
  case (4 a b c r)
  then show ?case by (simp add: a2b_chars sextets regroup del: of_nat_add of_nat_mult mod_mult_self3 div_mult_self3)
qed

lemma b64u_decode_encode [simp]: "b64u_decode (b64u_encode bs) = Inr bs"
proof -
  have "is_ascii (b64u_encode bs @ b64_pad (b64u_encode bs))"
    using b64u_encode_ascii [of bs] by (auto simp: is_ascii_def b64_pad_def)
  with a2b_encode [of bs] show ?thesis
    by (simp add: b64u_decode_def urlsafe_b64decode_def flip: b64_pad_def)
qed

interpretation b64u: codec b64u_encode b64u_decode "\<lambda>_. True"
  by unfold_locales simp

lemma b64u_no_dot [simp]: "CHR ''.'' \<notin> set (b64u_encode bs)"
  by (induction bs rule: b64u_encode.induct) (auto simp: sextets dest: sym)

lemma b64u_encode_Nil_iff [simp]: "b64u_encode bs = [] \<longleftrightarrow> bs = []"
  by (cases bs rule: b64u_encode.cases) simp_all

section \<open>Big-endian integers\<close>

fun bit_length :: "nat \<Rightarrow> nat" where
  "bit_length n = (if n = 0 then 0 else Suc (bit_length (n div 2)))"

declare bit_length.simps [simp del]

text \<open>\<open>value.to_bytes(k, "big")\<close> for a value that fits, and its little-endian variant.\<close>

primrec nat_be :: "nat \<Rightarrow> nat \<Rightarrow> byte list" where
  "nat_be 0 n = []"
| "nat_be (Suc k) n = nat_be k (n div 256) @ [of_nat n]"

definition nat_le :: "nat \<Rightarrow> nat \<Rightarrow> byte list" where
  "nat_le k n = rev (nat_be k n)"

definition int_to_bytes :: "int \<Rightarrow> nat option \<Rightarrow> py_error + byte list" where
  "int_to_bytes v len =
     (if v < 0 then Inl ValueError
      else (let k = (case len of None \<Rightarrow> max 1 ((bit_length (nat v) + 7) div 8) | Some k \<Rightarrow> k)
            in if nat v < 256 ^ k then Inr (nat_be k (nat v)) else Inl OverflowError))"

definition be_nat :: "byte list \<Rightarrow> nat" where
  "be_nat bs = foldl (\<lambda>n b. n * 256 + unat b) 0 bs"

definition le_nat :: "byte list \<Rightarrow> nat" where
  "le_nat bs = be_nat (rev bs)"

definition bytes_to_int :: "byte list \<Rightarrow> int" where
  "bytes_to_int bs = int (be_nat bs)"

definition b64u_encode_int :: "int \<Rightarrow> nat option \<Rightarrow> py_error + string" where
  "b64u_encode_int v len = map_sum id b64u_encode (int_to_bytes v len)"

definition b64u_decode_int :: "string \<Rightarrow> py_error + int" where
  "b64u_decode_int text = map_sum id bytes_to_int (b64u_decode text)"

lemma length_nat_be [simp]: "length (nat_be k n) = k"
  by (induction k arbitrary: n) simp_all

lemma be_nat_Nil [simp]: "be_nat [] = 0"
  and be_nat_snoc [simp]: "be_nat (bs @ [b]) = be_nat bs * 256 + unat b"
  by (simp_all add: be_nat_def)

lemma be_nat_zero_Cons: "be_nat (0 # bs) = be_nat bs"
  by (simp add: be_nat_def)

lemma be_nat_lt: "be_nat bs < 256 ^ length bs"
proof (induction bs rule: rev_induct)
  case (snoc b bs)
  have "be_nat bs * 256 + unat b < (be_nat bs + 1) * 256" by simp
  also have "\<dots> \<le> 256 ^ length bs * 256" using snoc by (intro mult_right_mono) auto
  finally show ?case by simp
qed simp

lemma be_nat_be: "be_nat (nat_be k n) = n mod 256 ^ k"
proof (induction k arbitrary: n)
  case (Suc k)
  have "n mod (256 * 256 ^ k) = 256 * (n div 256 mod 256 ^ k) + n mod 256"
    by (rule mod_mult2_eq)
  then show ?case by (simp add: Suc unat_of_nat take_bit_eq_mod)
qed simp

lemma nat_be_be_nat: "nat_be (length bs) (be_nat bs) = bs"
proof (induction bs rule: rev_induct)
  case (snoc b bs)
  have "(be_nat bs * 256 + unat b) div 256 = be_nat bs" by (rule div_mod_group) simp
  moreover have "(of_nat (be_nat bs * 256 + unat b) :: byte) = b"
    using div_mod_group(2) [of "unat b" 256 "be_nat bs"] by (simp only: word_unat_eq_iff unat_of_nat) simp
  ultimately show ?case using snoc by simp
qed simp

lemma le_nat_le: "le_nat (nat_le k n) = n mod 256 ^ k"
  by (simp add: le_nat_def nat_le_def be_nat_be)

lemma le_nat_lt: "le_nat bs < 256 ^ length bs"
  using be_nat_lt [of "rev bs"] by (simp add: le_nat_def)

lemma bit_length_le: "n < 2 ^ bit_length n"
proof (induction n rule: bit_length.induct)
  case (1 n)
  show ?case
  proof (cases "n = 0")
    case False
    with 1 have "n div 2 < 2 ^ bit_length (n div 2)" by simp
    then have "n < 2 * 2 ^ bit_length (n div 2)" by linarith
    with False show ?thesis by (subst bit_length.simps) simp
  qed (simp add: bit_length.simps)
qed

lemma bit_length_ge: "0 < n \<Longrightarrow> 2 ^ (bit_length n - 1) \<le> n"
proof (induction n rule: bit_length.induct)
  case (1 n)
  show ?case
  proof (cases "n = 1")
    case True
    then show ?thesis by (simp add: bit_length.simps)
  next
    case False
    with 1 have "0 < n div 2" by (simp add: div_greater_zero_iff)
    with 1 have "2 ^ (bit_length (n div 2) - 1) \<le> n div 2" by simp
    moreover have "bit_length (n div 2) = Suc (bit_length (n div 2) - 1)"
      using \<open>0 < n div 2\<close> by (cases "bit_length (n div 2)") (simp_all add: bit_length.simps [of "n div 2"])
    ultimately have "2 ^ bit_length (n div 2) \<le> n" 
    proof -
      assume a: "2 ^ (bit_length (n div 2) - 1) \<le> n div 2" "bit_length (n div 2) = Suc (bit_length (n div 2) - 1)"
      then have "(2 :: nat) ^ bit_length (n div 2) = 2 * 2 ^ (bit_length (n div 2) - 1)" by (metis power_Suc)
      with a(1) show ?thesis by linarith
    qed
    with 1 show ?thesis by (subst bit_length.simps) simp
  qed
qed

lemma bit_length_bound: "n < 2 ^ b \<Longrightarrow> bit_length n \<le> b"
proof (cases "n = 0")
  case False
  assume "n < 2 ^ b"
  with bit_length_ge [of n] False have "(2 :: nat) ^ (bit_length n - 1) < 2 ^ b" by linarith
  then have "bit_length n - 1 < b" by simp
  then show ?thesis by simp
qed (simp add: bit_length.simps)

lemma bit_length_bytes: "n < 256 ^ ((bit_length n + 7) div 8)"
proof -
  have "bit_length n \<le> 8 * ((bit_length n + 7) div 8)" by linarith
  then have "(2::nat) ^ bit_length n \<le> 2 ^ (8 * ((bit_length n + 7) div 8))" by (intro power_increasing) auto
  also have "\<dots> = 256 ^ ((bit_length n + 7) div 8)" by (simp add: power_mult)
  finally show ?thesis using bit_length_le [of n] by simp
qed

lemma int_to_bytes_min: "0 \<le> v \<Longrightarrow> \<exists>bs. int_to_bytes v None = Inr bs \<and> bytes_to_int bs = v"
proof -
  assume v: "0 \<le> v"
  let ?k = "max 1 ((bit_length (nat v) + 7) div 8)"
  have "(256::nat) ^ ((bit_length (nat v) + 7) div 8) \<le> 256 ^ ?k" by (intro power_increasing) auto
  with bit_length_bytes [of "nat v"] have "nat v < 256 ^ ?k" by linarith
  with v show ?thesis by (simp add: int_to_bytes_def bytes_to_int_def be_nat_be Let_def del: max.cobounded1)
qed

lemma int_to_bytes_fixed:
  "0 \<le> v \<Longrightarrow> v < 256 ^ k \<Longrightarrow> int_to_bytes v (Some k) = Inr (nat_be k (nat v))"
  by (auto simp: int_to_bytes_def nat_less_iff)

lemma bytes_to_int_nat_be: "0 \<le> v \<Longrightarrow> v < 256 ^ k \<Longrightarrow> bytes_to_int (nat_be k (nat v)) = v"
  by (auto simp: bytes_to_int_def be_nat_be nat_less_iff)

interpretation be_int: codec "\<lambda>v. nat_be k (nat v)" "\<lambda>bs. Inr (bytes_to_int bs) :: py_error + int"
  "\<lambda>v. 0 \<le> v \<and> v < 256 ^ k" for k
  by unfold_locales (simp add: bytes_to_int_nat_be)

lemma b64u_int_roundtrip:
  assumes "0 \<le> v"
  shows "bind_res (b64u_encode_int v None) b64u_decode_int = Inr v"
  using int_to_bytes_min [OF assms]
  by (auto simp: b64u_encode_int_def b64u_decode_int_def)

section \<open>Comparison and randomness\<close>

text \<open>\<open>constant_time_equals\<close> compares the UTF-8 bytes of its arguments.\<close>

definition constant_time_equals :: "string \<Rightarrow> string \<Rightarrow> bool" where
  "constant_time_equals a b \<longleftrightarrow> utf8_encode a = utf8_encode b"

lemma constant_time_equals_iff [simp]: "constant_time_equals a b \<longleftrightarrow> a = b"
  by (simp add: constant_time_equals_def utf8.enc_inj)

text \<open>
  The operating system's random source is a tape: byte \<open>i\<close> of the \<open>k\<close>-th request.  \<open>drawn\<close>
  counts the requests made so far.
\<close>

record rng =
  tape :: "nat \<Rightarrow> nat \<Rightarrow> byte"
  drawn :: nat

definition random_bytes :: "nat \<Rightarrow> rng \<Rightarrow> byte list \<times> rng" where
  "random_bytes n g = (map (tape g (drawn g)) [0..<n], g\<lparr>drawn := Suc (drawn g)\<rparr>)"

definition random_token :: "nat \<Rightarrow> rng \<Rightarrow> string \<times> rng" where
  "random_token n g = (case random_bytes n g of (bs, g') \<Rightarrow> (b64u_encode bs, g'))"

end
