(* ===== verification/Urls.thy ===== *)
theory Urls
  imports Encoding
begin

text \<open>
  What the program uses of \<open>urllib.parse\<close>: percent encoding, \<open>urlencode\<close>, \<open>parse_qsl\<close> and
  \<open>urlsplit\<close>.  Hosts in brackets and non-ASCII hosts, which go through \<open>ipaddress\<close> and
  Unicode normalisation, are outside the model.
\<close>

section \<open>Percent encoding\<close>

definition is_alpha :: "char \<Rightarrow> bool" where
  "is_alpha c = (let n = of_char c :: nat in (65 \<le> n \<and> n \<le> 90) \<or> (97 \<le> n \<and> n \<le> 122))"

definition is_digit :: "char \<Rightarrow> bool" where
  "is_digit c = (let n = of_char c :: nat in 48 \<le> n \<and> n \<le> 57)"

definition unreserved :: "char \<Rightarrow> bool" where
  "unreserved c \<longleftrightarrow> is_alpha c \<or> is_digit c \<or> c \<in> set ''_.-~''"

definition upper_hex :: "nat \<Rightarrow> char" where
  "upper_hex n = (if n < 10 then char_of (48 + n) else char_of (55 + n))"

definition quote_byte :: "string \<Rightarrow> byte \<Rightarrow> string" where
  "quote_byte safe b =
     (let c = char_of (unat b) in
      if unat b < 128 \<and> (unreserved c \<or> c \<in> set safe) then [c]
      else [CHR ''%'', upper_hex (unat b div 16), upper_hex (unat b mod 16)])"

definition quote :: "string \<Rightarrow> string \<Rightarrow> string" where
  "quote safe s = concat (map (quote_byte safe) (utf8_encode s))"

definition quote_plus :: "string \<Rightarrow> string" where
  "quote_plus s = map (\<lambda>c. if c = CHR '' '' then CHR ''+'' else c) (quote '' '' s)"

definition urlencode :: "(string \<times> pyval) list \<Rightarrow> string" where
  "urlencode kvs = join ''&'' (map (\<lambda>(k, v). quote_plus k @ ''='' @ quote_plus (py_str v)) kvs)"

definition hex_value :: "char \<Rightarrow> nat option" where
  "hex_value c =
     (let n = of_char c :: nat in
      if 48 \<le> n \<and> n \<le> 57 then Some (n - 48)
      else if 65 \<le> n \<and> n \<le> 70 then Some (n - 55)
      else if 97 \<le> n \<and> n \<le> 102 then Some (n - 87) else None)"

fun unquote_bytes :: "string \<Rightarrow> byte list" where
  "unquote_bytes [] = []"
| "unquote_bytes (c # s) =
     (case (c = CHR ''%'', s) of
        (True, a # b # r) \<Rightarrow>
          (case (hex_value a, hex_value b) of
             (Some x, Some y) \<Rightarrow> of_nat (16 * x + y) # unquote_bytes r
           | _ \<Rightarrow> of_char c # unquote_bytes s)
      | _ \<Rightarrow> of_char c # unquote_bytes s)"

definition unquote :: "string \<Rightarrow> py_error + string" where
  "unquote s =
     (if CHR ''%'' \<notin> set s then Inr s
      else if \<not> is_ascii s then Inl Unmodelled
      else (case utf8_decode (unquote_bytes s) of Inl _ \<Rightarrow> Inl Unmodelled | Inr t \<Rightarrow> Inr t))"

definition unquote_plus :: "string \<Rightarrow> py_error + string" where
  "unquote_plus s = unquote (map (\<lambda>c. if c = CHR ''+'' then CHR '' '' else c) s)"

text \<open>Fields with an empty value are dropped.\<close>

fun parse_fields :: "string list \<Rightarrow> py_error + (string \<times> string) list" where
  "parse_fields [] = Inr []"
| "parse_fields (f # fs) =
     (case split_once CHR ''='' f of
        None \<Rightarrow> parse_fields fs
      | Some (k, v) \<Rightarrow>
          (if v = [] then parse_fields fs
           else bind_res (unquote_plus k) (\<lambda>k'. bind_res (unquote_plus v) (\<lambda>v'.
             bind_res (parse_fields fs) (\<lambda>r. Inr ((k', v') # r))))))"

definition parse_qsl :: "string \<Rightarrow> py_error + (string \<times> string) list" where
  "parse_qsl qs = parse_fields (split_on CHR ''&'' qs)"

section \<open>Splitting\<close>

record url_parts =
  url_scheme :: string
  url_netloc :: string
  url_path :: string
  url_query :: string
  url_fragment :: string

definition scheme_char :: "char \<Rightarrow> bool" where
  "scheme_char c \<longleftrightarrow> is_alpha c \<or> is_digit c \<or> c \<in> set ''+-.''"

definition split_scheme :: "string \<Rightarrow> string \<times> string" where
  "split_scheme url =
     (case split_once CHR '':'' url of
        Some (s, r) \<Rightarrow>
          (if s \<noteq> [] \<and> is_alpha (hd s) \<and> list_all scheme_char s then (lower s, r) else ([], url))
      | None \<Rightarrow> ([], url))"

definition split_netloc :: "string \<Rightarrow> string \<times> string" where
  "split_netloc url =
     (if prefix ''//'' url
      then (takeWhile (\<lambda>c. c \<notin> set ''/?#'') (drop 2 url), dropWhile (\<lambda>c. c \<notin> set ''/?#'') (drop 2 url))
      else ([], url))"

definition split_at :: "char \<Rightarrow> string \<Rightarrow> string \<times> string" where
  "split_at c s = (case split_once c s of None \<Rightarrow> (s, []) | Some (a, b) \<Rightarrow> (a, b))"

definition urlsplit :: "string \<Rightarrow> py_error + url_parts" where
  "urlsplit text =
     (let url = filter (\<lambda>c. c \<notin> set [CHR 0x09, CHR 0x0a, CHR 0x0d])
                  (dropWhile (\<lambda>c. (of_char c :: nat) \<le> 32) text);
          (scheme, rest1) = split_scheme url;
          (netloc, rest2) = split_netloc rest1;
          (rest3, fragment) = split_at CHR ''#'' rest2;
          (path, query) = split_at CHR ''?'' rest3
      in if (CHR ''['' \<in> set netloc) \<noteq> (CHR '']'' \<in> set netloc) then Inl ValueError
         else if CHR ''['' \<in> set netloc \<or> \<not> is_ascii netloc then Inl Unmodelled
         else Inr \<lparr>url_scheme = scheme, url_netloc = netloc, url_path = path,
                url_query = query, url_fragment = fragment\<rparr>)"

text \<open>\<open>hostname\<close> and \<open>port\<close> of a result (no brackets, see above).\<close>

definition host_info :: "string \<Rightarrow> string" where
  "host_info netloc = rev (takeWhile (\<lambda>c. c \<noteq> CHR ''@'') (rev netloc))"

definition url_hostname :: "url_parts \<Rightarrow> string option" where
  "url_hostname u =
     (let h = before_first CHR '':'' (host_info (url_netloc u)); (a, z) = split_at CHR ''%'' h
      in if h = [] then None
         else Some (lower a @ (if CHR ''%'' \<in> set h then ''%'' @ z else [])))"

fun digits_value :: "nat \<Rightarrow> string \<Rightarrow> nat" where
  "digits_value n [] = n"
| "digits_value n (c # s) = digits_value (10 * n + (of_char c - 48)) s"

definition url_port :: "url_parts \<Rightarrow> py_error + int option" where
  "url_port u =
     (case split_once CHR '':'' (host_info (url_netloc u)) of
        None \<Rightarrow> Inr None
      | Some (_, p) \<Rightarrow>
          (if p = [] then Inr None
           else if \<not> list_all is_digit p then Inl ValueError
           else if digits_value 0 p \<le> 65535 then Inr (Some (int (digits_value 0 p))) else Inl ValueError))"

section \<open>Query strings come back as they were\<close>

lemma hex_value_upper_hex [simp]: "n < 16 \<Longrightarrow> hex_value (upper_hex n) = Some n"
  by (auto simp: hex_value_def upper_hex_def of_char_char_of Let_def)

lemma of_char_char_of_byte [simp]: "(of_char (char_of (unat b) :: char) :: byte) = b"
proof -
  have "(of_char (char_of (unat b) :: char) :: byte) = of_nat (of_char (char_of (unat b) :: char))"
    by (rule of_nat_of_char [symmetric])
  then show ?thesis by (simp add: of_char_of)
qed

definition query_char :: "char \<Rightarrow> bool" where
  "query_char c \<longleftrightarrow> unreserved c \<or> c = CHR ''%'' \<or> c = CHR '' ''"

lemma unreserved_not:
  "unreserved c \<Longrightarrow> c \<noteq> CHR ''%'' \<and> c \<noteq> CHR ''+'' \<and> c \<noteq> CHR ''&'' \<and> c \<noteq> CHR ''='' \<and> (of_char c :: nat) < 128"
  by (auto simp: unreserved_def is_alpha_def is_digit_def Let_def)

lemma query_char_not:
  "query_char c \<Longrightarrow> c \<noteq> CHR ''+'' \<and> c \<noteq> CHR ''&'' \<and> c \<noteq> CHR ''='' \<and> (of_char c :: nat) < 128"
  using unreserved_not [of c] by (auto simp: query_char_def)

lemma unreserved_upper_hex: "n < 16 \<Longrightarrow> unreserved (upper_hex n)"
  by (auto simp: unreserved_def is_alpha_def is_digit_def upper_hex_def of_char_char_of Let_def)

lemma query_char_quote: "c \<in> set (quote '' '' s) \<Longrightarrow> query_char c"
  using byte_parts
  by (auto simp: quote_def quote_byte_def query_char_def Let_def intro!: unreserved_upper_hex split: if_splits)

lemma unquote_bytes_quote_byte:
  "unquote_bytes (quote_byte '' '' b @ t) = b # unquote_bytes t"
proof (cases "unat b < 128 \<and> (unreserved (char_of (unat b)) \<or> char_of (unat b) = CHR '' '')")
  case True
  then have "char_of (unat b) \<noteq> CHR ''%''" using unreserved_not by auto
  with True show ?thesis by (auto simp: quote_byte_def Let_def)
next
  case False
  have "of_nat (16 * (unat b div 16) + unat b mod 16) = b" by simp
  then have "of_nat (16 * (unat b div 16)) + of_nat (unat b mod 16) = b" by (simp only: of_nat_add)
  with False show ?thesis using byte_parts [of b] by (auto simp: quote_byte_def Let_def simp del: of_nat_mult)
qed

lemma unquote_bytes_quote: "unquote_bytes (quote '' '' s) = utf8_encode s"
proof -
  have "unquote_bytes (concat (map (quote_byte '' '') bs)) = bs" for bs
    by (induction bs) (simp_all add: unquote_bytes_quote_byte)
  then show ?thesis by (simp add: quote_def)
qed

lemma unquote_bytes_plain: "CHR ''%'' \<notin> set s \<Longrightarrow> unquote_bytes s = map of_char s"
  by (induction s) auto

lemma unquote_quote: "unquote (quote '' '' s) = Inr s"
proof -
  let ?q = "quote '' '' s"
  have a: "is_ascii ?q" using query_char_quote query_char_not by (fastforce simp: is_ascii_def)
  show ?thesis
  proof (cases "CHR ''%'' \<in> set ?q")
    case True
    with a show ?thesis by (simp add: unquote_def unquote_bytes_quote)
  next
    case False
    then have "utf8_encode ?q = utf8_encode s"
      using utf8_encode_ascii [OF a] unquote_bytes_plain [OF False] by (simp add: unquote_bytes_quote)
    then have "?q = s" by (simp add: utf8.enc_inj)
    with False show ?thesis by (simp add: unquote_def)
  qed
qed

lemma unquote_plus_quote_plus [simp]: "unquote_plus (quote_plus s) = Inr s"
proof -
  have "map ((\<lambda>c. if c = CHR ''+'' then CHR '' '' else c) \<circ> (\<lambda>c. if c = CHR '' '' then CHR ''+'' else c))
      (quote '' '' s) = map id (quote '' '' s)"
    using query_char_quote [THEN query_char_not] by (intro map_cong) (auto simp del: quote_def)
  then show ?thesis by (simp add: unquote_plus_def quote_plus_def unquote_quote)
qed

lemma quote_plus_no_sep: "CHR ''&'' \<notin> set (quote_plus s)" "CHR ''='' \<notin> set (quote_plus s)"
  using query_char_quote [THEN query_char_not] by (auto simp: quote_plus_def split: if_splits)

lemma quote_plus_Nil_iff [simp]: "quote_plus s = [] \<longleftrightarrow> s = []"
proof
  assume "quote_plus s = []"
  then have "unquote_plus (quote_plus s) = Inr []" by (simp add: unquote_plus_def unquote_def)
  then show "s = []" by simp
qed (simp add: quote_plus_def quote_def utf8_encode_def)

lemma split_on_join:
  "\<forall>x \<in> set (y # ys). c \<notin> set x \<Longrightarrow> split_on c (join [c] (y # ys)) = y # ys"
proof (induction ys arbitrary: y)
  case Nil
  then show ?case by (simp add: join_def split_on_absent)
next
  case (Cons z zs)
  have "join [c] (y # z # zs) = y @ c # join [c] (z # zs)" by (simp add: join_def)
  with Cons show ?case by (simp add: split_on_append)
qed

definition query_pair :: "string \<times> pyval \<Rightarrow> string" where
  "query_pair kv = quote_plus (fst kv) @ ''='' @ quote_plus (py_str (snd kv))"

lemma parse_fields_pairs:
  "\<forall>kv \<in> set kvs. py_str (snd kv) \<noteq> [] \<Longrightarrow>
   parse_fields (map query_pair kvs) = Inr (map (\<lambda>(k, v). (k, py_str v)) kvs)"
  by (induction kvs)
    (auto simp: query_pair_def split_once_append [OF quote_plus_no_sep(2), simplified])

lemma parse_qsl_urlencode:
  assumes "\<forall>kv \<in> set kvs. py_str (snd kv) \<noteq> []"
  shows "parse_qsl (urlencode kvs) = Inr (map (\<lambda>(k, v). (k, py_str v)) kvs)"
proof (cases kvs)
  case Nil
  then show ?thesis by (simp add: parse_qsl_def urlencode_def join_def)
next
  case (Cons x xs)
  have u: "urlencode kvs = join ''&'' (map query_pair kvs)"
    unfolding urlencode_def by (rule arg_cong [where f = "join ''&''"]) (auto simp: query_pair_def)
  have "split_on CHR ''&'' (urlencode kvs) = map query_pair kvs"
    using split_on_join [of "query_pair x" "map query_pair xs" "CHR ''&''"]
    unfolding u unfolding Cons list.map by (auto simp: query_pair_def quote_plus_no_sep)
  with parse_fields_pairs [OF assms] show ?thesis by (simp add: parse_qsl_def)
qed

end
