(* ===== verification/Json.thy ===== *)
theory Json
  imports Urls
begin

text \<open>
  What the program uses of \<open>json\<close>: \<open>dumps(obj, separators=(",", ":"))\<close> and \<open>loads\<close>, with
  \<open>json_compact\<close>, \<open>json_b64u\<close> and \<open>b64u_json\<close> of \<open>authlab/util/encoding.py\<close> on top.
  Numbers with a fraction or an exponent, the non-finite ones, and escapes above \<open>00ff\<close> are
  outside the model.  Two limits of CPython are left out: integers of any length are converted (\<open>int\<close> and \<open>str\<close>
  refuse more than 4300 digits by default), and values are nested as deep as they are (\<open>json\<close> raises
  \<open>RecursionError\<close> near a thousand levels).  The parser runs on fuel; twice the
  length of the text is enough (\<open>json_fuel_enough\<close>).
\<close>

section \<open>Writing\<close>

definition json_escape :: "char \<Rightarrow> string" where
  "json_escape c =
     (let n = of_char c :: nat in
      if n = 34 then [CHR 0x5C, CHR 0x22]
      else if n = 92 then [CHR 0x5C, CHR 0x5C]
      else if n = 10 then [CHR 0x5C, CHR ''n'']
      else if n = 13 then [CHR 0x5C, CHR ''r'']
      else if n = 9 then [CHR 0x5C, CHR ''t'']
      else if n = 12 then [CHR 0x5C, CHR ''f'']
      else if n = 8 then [CHR 0x5C, CHR ''b'']
      else if 32 \<le> n \<and> n \<le> 126 then [c]
      else [CHR 0x5C, CHR ''u'', CHR ''0'', CHR ''0'', hex_digit (n div 16), hex_digit (n mod 16)])"

definition json_str :: "string \<Rightarrow> string" where
  "json_str s = CHR 0x22 # concat (map json_escape s) @ [CHR 0x22]"

fun json_dumps :: "pyval \<Rightarrow> string" where
  "json_dumps PNone = ''null''"
| "json_dumps (PBool b) = (if b then ''true'' else ''false'')"
| "json_dumps (PInt i) = int_str i"
| "json_dumps (PStr s) = json_str s"
| "json_dumps (PList vs) = ''['' @ join '','' (map json_dumps vs) @ '']''"
| "json_dumps (PDict kvs) = ''{'' @ join '','' (map (\<lambda>(k, v). json_str k @ '':'' @ json_dumps v) kvs) @ ''}''"

section \<open>Reading\<close>

definition skip_ws :: "string \<Rightarrow> string" where
  "skip_ws s = dropWhile (\<lambda>c. c \<in> {CHR '' '', CHR 0x09, CHR 0x0a, CHR 0x0d}) s"

text \<open>The text after the opening quote.\<close>

definition simple_escape :: "char \<Rightarrow> char option" where
  "simple_escape c =
     map_of [(CHR 0x22, CHR 0x22), (CHR 0x5C, CHR 0x5C), (CHR ''/'', CHR ''/''), (CHR ''b'', CHR 0x08),
       (CHR ''f'', CHR 0x0c), (CHR ''n'', CHR 0x0a), (CHR ''r'', CHR 0x0d), (CHR ''t'', CHR 0x09)] c"

fun hex4 :: "string \<Rightarrow> (nat \<times> string) option" where
  "hex4 (a # b # c # d # r) =
     (case (hex_value a, hex_value b, hex_value c, hex_value d) of
        (Some w, Some x, Some y, Some z) \<Rightarrow> Some (((w * 16 + x) * 16 + y) * 16 + z, r)
      | _ \<Rightarrow> None)"
| "hex4 _ = None"

lemma hex4_shorter: "hex4 s = Some (n, r) \<Longrightarrow> length r < length s"
  by (induction s rule: hex4.induct) (auto split: option.splits)

function json_string :: "string \<Rightarrow> py_error + (string \<times> string)" where
  "json_string [] = Inl ValueError"
| "json_string (c # s) =
     (if c = CHR 0x22 then Inr ([], s)
      else if c = CHR 0x5C then
        (case s of
           [] \<Rightarrow> Inl ValueError
         | e # r \<Rightarrow>
             (if e = CHR ''u'' then
                (case hex4 r of None \<Rightarrow> Inl ValueError
                 | Some (n, r') \<Rightarrow> if n \<ge> 256 then Inl Unmodelled
                     else map_sum id (map_prod ((#) (char_of n)) id) (json_string r'))
              else (case simple_escape e of None \<Rightarrow> Inl ValueError
                 | Some x \<Rightarrow> map_sum id (map_prod ((#) x) id) (json_string r))))
      else if (of_char c :: nat) < 32 then Inl ValueError
      else map_sum id (map_prod ((#) c) id) (json_string s))"
  by pat_completeness auto
termination by (relation "measure length") (auto dest: hex4_shorter)

definition is_frac_or_exp :: "string \<Rightarrow> bool" where
  "is_frac_or_exp s =
     (case s of
        c # d # r \<Rightarrow>
          (c = CHR ''.'' \<and> is_digit d)
          \<or> ((c = CHR ''e'' \<or> c = CHR ''E'')
             \<and> (is_digit d \<or> ((d = CHR ''+'' \<or> d = CHR ''-'') \<and> (case r of [] \<Rightarrow> False | x # _ \<Rightarrow> is_digit x))))
      | _ \<Rightarrow> False)"

definition json_digits :: "string \<Rightarrow> (nat \<times> string) option" where
  "json_digits s =
     (case s of
        [] \<Rightarrow> None
      | c # r \<Rightarrow>
          (if c = CHR ''0'' then Some (0, r)
           else if is_digit c then Some (digits_value 0 (takeWhile is_digit s), dropWhile is_digit s)
           else None))"

definition json_number :: "string \<Rightarrow> py_error + (pyval \<times> string)" where
  "json_number s =
     (if prefix ''NaN'' s \<or> prefix ''Infinity'' s \<or> prefix ''-Infinity'' s then Inl Unmodelled
      else (let neg = prefix ''-'' s in
        case json_digits (if neg then tl s else s) of
          None \<Rightarrow> Inl ValueError
        | Some (n, r) \<Rightarrow>
            (if is_frac_or_exp r then Inl Unmodelled
             else Inr (PInt (if neg then - int n else int n), r))))"

text \<open>A value, the rest of an array after \<open>[\<close> or a comma, the rest of an object likewise.\<close>

fun json_value :: "nat \<Rightarrow> string \<Rightarrow> py_error + (pyval \<times> string)"
  and json_items :: "nat \<Rightarrow> pyval list \<Rightarrow> string \<Rightarrow> py_error + (pyval \<times> string)"
  and json_members :: "nat \<Rightarrow> pydict \<Rightarrow> string \<Rightarrow> py_error + (pyval \<times> string)"
where
  "json_value 0 s = Inl Unmodelled"
| "json_value (Suc n) s =
     (case s of
        [] \<Rightarrow> Inl ValueError
      | c # r \<Rightarrow>
          (if c = CHR 0x22 then map_sum id (map_prod PStr id) (json_string r)
           else if c = CHR ''{'' then
             (case skip_ws r of
                d # r' \<Rightarrow> if d = CHR ''}'' then Inr (PDict [], r') else json_members n [] (skip_ws r)
              | [] \<Rightarrow> Inl ValueError)
           else if c = CHR ''['' then
             (case skip_ws r of
                d # r' \<Rightarrow> if d = CHR '']'' then Inr (PList [], r') else json_items n [] (skip_ws r)
              | [] \<Rightarrow> Inl ValueError)
           else if prefix ''null'' s then Inr (PNone, drop 4 s)
           else if prefix ''true'' s then Inr (PBool True, drop 4 s)
           else if prefix ''false'' s then Inr (PBool False, drop 5 s)
           else json_number s))"
| "json_items 0 acc s = Inl Unmodelled"
| "json_items (Suc n) acc s =
     (case json_value n s of
        Inl e \<Rightarrow> Inl e
      | Inr (v, r) \<Rightarrow>
          (case skip_ws r of
             [] \<Rightarrow> Inl ValueError
           | d # r' \<Rightarrow>
               (if d = CHR '']'' then Inr (PList (acc @ [v]), r')
                else if d = CHR '','' then json_items n (acc @ [v]) (skip_ws r')
                else Inl ValueError)))"
| "json_members 0 acc s = Inl Unmodelled"
| "json_members (Suc n) acc s =
     (case s of
        [] \<Rightarrow> Inl ValueError
      | q # r \<Rightarrow>
          (if q \<noteq> CHR 0x22 then Inl ValueError
           else (case json_string r of
              Inl e \<Rightarrow> Inl e
            | Inr (k, r1) \<Rightarrow>
                (case skip_ws r1 of
                   [] \<Rightarrow> Inl ValueError
                 | c # r2 \<Rightarrow>
                     (if c \<noteq> CHR '':'' then Inl ValueError
                      else (case json_value n (skip_ws r2) of
                         Inl e \<Rightarrow> Inl e
                       | Inr (v, r3) \<Rightarrow>
                           (case skip_ws r3 of
                              [] \<Rightarrow> Inl ValueError
                            | d # r4 \<Rightarrow>
                                (if d = CHR ''}'' then Inr (PDict (dset k v acc), r4)
                                 else if d = CHR '','' then json_members n (dset k v acc) (skip_ws r4)
                                 else Inl ValueError))))))))"

declare json_value.simps [simp del] json_items.simps [simp del] json_members.simps [simp del]

definition json_loads :: "string \<Rightarrow> py_error + pyval" where
  "json_loads s =
     (let t = skip_ws s in
      case json_value (2 * length t + 2) t of
        Inl e \<Rightarrow> Inl e
      | Inr (v, r) \<Rightarrow> if skip_ws r = [] then Inr v else Inl ValueError)"

text \<open>\<open>json.loads\<close> on bytes: UTF-8 unless the first bytes announce another encoding.\<close>

definition json_loads_bytes :: "byte list \<Rightarrow> py_error + pyval" where
  "json_loads_bytes bs =
     (if (length bs = 2 \<or> length bs \<ge> 4) \<and> (bs ! 0 = 0 \<or> bs ! 1 = 0) \<or>
         length bs \<ge> 2 \<and> bs ! 0 \<in> {0xFE, 0xFF} then Inl Unmodelled
      else bind_res (utf8_decode bs) json_loads)"

definition json_compact :: "pyval \<Rightarrow> byte list" where
  "json_compact v = utf8_encode (json_dumps v)"

definition json_b64u :: "pyval \<Rightarrow> string" where
  "json_b64u v = b64u_encode (json_compact v)"

definition b64u_json :: "string \<Rightarrow> py_error + pyval" where
  "b64u_json text = bind_res (b64u_decode text) (\<lambda>bs. bind_res (utf8_decode bs) json_loads)"

section \<open>Strings come back\<close>

lemma hex_value_hex_digit [simp]: "n < 16 \<Longrightarrow> hex_value (hex_digit n) = Some n"
  by (auto simp: hex_value_def hex_digit_def of_char_char_of Let_def)

lemma json_string_quote: "json_string (CHR 0x22 # r) = Inr ([], r)"
  by simp

lemma char_of_specials:
  "char_of (34 :: nat) = CHR 0x22" "char_of (92 :: nat) = CHR 0x5C" "char_of (10 :: nat) = CHR 0x0a"
  "char_of (13 :: nat) = CHR 0x0d" "char_of (9 :: nat) = CHR 0x09" "char_of (12 :: nat) = CHR 0x0c"
  "char_of (8 :: nat) = CHR 0x08"
  by (simp_all add: of_char_char_of flip: of_char_eq_iff [where 'a = nat])

lemma json_string_escape:
  "json_string (json_escape c @ r) = map_sum id (map_prod ((#) c) id) (json_string r)"
proof -
  define n where "n = (of_char c :: nat)"
  have n: "n < 256" and c: "c = char_of n" by (simp_all add: n_def)
  have q: "n div 16 < 16" using n by (auto intro: less_mult_imp_div_less)
  have h: "hex4 (CHR ''0'' # CHR ''0'' # hex_digit (n div 16) # hex_digit (n mod 16) # r) = Some (n, r)"
  proof -
    have "hex_value CHR ''0'' = Some 0" by (simp add: hex_value_def)
    with q show ?thesis by simp
  qed
  consider "n = 34" | "n = 92" | "n = 10" | "n = 13" | "n = 9" | "n = 12" | "n = 8"
    | (plain) "32 \<le> n" "n \<le> 126" "n \<noteq> 34" "n \<noteq> 92"
    | (other) "n \<noteq> 34" "n \<noteq> 92" "n \<noteq> 10" "n \<noteq> 13" "n \<noteq> 9" "n \<noteq> 12" "n \<noteq> 8" "\<not> (32 \<le> n \<and> n \<le> 126)"
    by blast
  then show ?thesis
  proof cases
    case plain
    then have "json_escape c = [c]" by (simp add: json_escape_def n_def [symmetric] Let_def)
    moreover have "c \<noteq> CHR 0x22" "c \<noteq> CHR 0x5C" using plain by (auto simp: n_def)
    ultimately show ?thesis using plain by (simp add: n_def [symmetric])
  next
    case other
    then have "json_escape c = [CHR 0x5C, CHR ''u'', CHR ''0'', CHR ''0'', hex_digit (n div 16), hex_digit (n mod 16)]"
      by (simp add: json_escape_def n_def [symmetric] Let_def)
    then show ?thesis using h n c by simp
  qed (simp_all add: c json_escape_def simple_escape_def char_of_specials)
qed

lemma json_string_str: "json_string (concat (map json_escape s) @ CHR 0x22 # r) = Inr (s, r)"
  by (induction s) (simp_all add: json_string_escape)

section \<open>Integers come back\<close>

lemma digits_value_append: "digits_value n (s @ t) = digits_value (digits_value n s) t"
  by (induction s arbitrary: n) simp_all

lemma digits_value_nat_digits: "digits_value 0 (nat_digits n) = n"
proof (induction n rule: nat_digits.induct)
  case (1 n)
  have "n mod 10 < 10" by simp
  then have "48 + n mod 10 < 256" by linarith
  with 1 show ?case by (subst nat_digits.simps) (simp add: digits_value_append of_char_char_of)
qed

lemma is_digit_char_of: "(n :: nat) < 10 \<Longrightarrow> is_digit (char_of (48 + n))"
  by (simp add: is_digit_def of_char_char_of)

lemma nat_digits_all: "c \<in> set (nat_digits n) \<Longrightarrow> is_digit c"
proof (induction n arbitrary: c rule: nat_digits.induct)
  case (1 n)
  have "n mod 10 < 10" by simp
  with 1 show ?case by (subst (asm) nat_digits.simps) (auto split: if_splits intro: is_digit_char_of)
qed

lemma nat_digits_head: "\<exists>c r. nat_digits n = c # r \<and> is_digit c \<and> (c = CHR ''0'' \<longrightarrow> n = 0 \<and> r = [])"
proof (induction n rule: nat_digits.induct)
  case (1 n)
  show ?case
  proof (cases "n < 10")
    case True
    then have "char_of (48 + n) = CHR ''0'' \<longleftrightarrow> n = 0"
      by (auto simp: of_char_char_of simp flip: of_char_eq_iff [where 'a = nat])
    with True show ?thesis by (subst nat_digits.simps) (simp add: is_digit_char_of)
  next
    case False
    with 1 obtain c r where "nat_digits (n div 10) = c # r" "is_digit c" "c = CHR ''0'' \<longrightarrow> n div 10 = 0" by blast
    moreover from False have "n div 10 \<noteq> 0" by (simp add: div_eq_0_iff)
    ultimately show ?thesis using False by (subst nat_digits.simps) simp
  qed
qed

definition ends_value :: "string \<Rightarrow> bool" where
  "ends_value r \<longleftrightarrow> (case r of [] \<Rightarrow> True | c # _ \<Rightarrow> c \<in> {CHR '','', CHR '']'', CHR ''}''})"

lemma ends_value_simps [simp]:
  "ends_value []" "ends_value (CHR '','' # r)" "ends_value (CHR '']'' # r)" "ends_value (CHR ''}'' # r)"
  by (simp_all add: ends_value_def)

lemma ends_value_not_digit: "ends_value r \<Longrightarrow> takeWhile is_digit r = [] \<and> dropWhile is_digit r = r"
  by (cases r) (auto simp: ends_value_def is_digit_def)

lemma ends_value_int: "ends_value r \<Longrightarrow> \<not> is_frac_or_exp r"
  by (auto simp: ends_value_def is_frac_or_exp_def split: list.splits)

lemma json_digits_nat: "ends_value r \<Longrightarrow> json_digits (nat_digits n @ r) = Some (n, r)"
proof -
  assume r: "ends_value r"
  obtain c s where cs: "nat_digits n = c # s" "is_digit c" "c = CHR ''0'' \<longrightarrow> n = 0 \<and> s = []"
    using nat_digits_head by blast
  have t: "takeWhile is_digit (nat_digits n @ r) = nat_digits n" "dropWhile is_digit (nat_digits n @ r) = r"
    using ends_value_not_digit [OF r] nat_digits_all by (simp_all add: takeWhile_append dropWhile_append)
  show ?thesis
  proof (cases "c = CHR ''0''")
    case True
    with cs show ?thesis by (simp add: json_digits_def)
  next
    case False
    with cs t digits_value_nat_digits [of n] show ?thesis by (simp add: json_digits_def)
  qed
qed

lemma is_digit_not: "is_digit c \<Longrightarrow> d \<in> set ''-NIntf []{},:'' \<or> d \<in> {CHR 0x22, CHR 0x09, CHR 0x0a, CHR 0x0d} \<Longrightarrow> d \<noteq> c \<and> c \<noteq> d"
  by (auto simp: is_digit_def Let_def)

lemma json_number_int: "ends_value r \<Longrightarrow> json_number (int_str i @ r) = Inr (PInt i, r)"
proof -
  assume r: "ends_value r"
  obtain c s where cs: "nat_digits (nat \<bar>i\<bar>) = c # s" "is_digit c" using nat_digits_head by blast
  have [simp]: "CHR ''-'' \<noteq> c" "CHR ''N'' \<noteq> c" "CHR ''I'' \<noteq> c" using is_digit_not [OF cs(2)] by simp_all
  show ?thesis
    using json_digits_nat [OF r, of "nat \<bar>i\<bar>"] ends_value_int [OF r] cs
    by (cases "i < 0") (simp_all add: json_number_def int_str_def Let_def)
qed

section \<open>Values come back\<close>

text \<open>A Python dictionary has every key once, at every depth.\<close>

fun json_clean :: "pyval \<Rightarrow> bool" where
  "json_clean (PList vs) = list_all json_clean vs"
| "json_clean (PDict kvs) = (distinct (dkeys kvs) \<and> list_all (\<lambda>kv. json_clean (snd kv)) kvs)"
| "json_clean _ = True"

lemma json_dumps_head:
  "\<exists>c r. json_dumps v = c # r \<and> c \<notin> {CHR '' '', CHR 0x09, CHR 0x0a, CHR 0x0d, CHR '']'', CHR ''}''}"
proof (cases v)
  case (PInt i)
  obtain c s where cs: "nat_digits (nat \<bar>i\<bar>) = c # s" "is_digit c" using nat_digits_head by blast
  have "c \<noteq> CHR '' ''" "c \<noteq> CHR 0x09" "c \<noteq> CHR 0x0a" "c \<noteq> CHR 0x0d" "c \<noteq> CHR '']''" "c \<noteq> CHR ''}''"
    using is_digit_not [OF cs(2)] by simp_all
  with PInt cs show ?thesis by (cases "i < 0") (simp_all add: int_str_def)
qed (auto simp: json_str_def)

lemma skip_ws_head:
  "c \<notin> {CHR '' '', CHR 0x09, CHR 0x0a, CHR 0x0d} \<Longrightarrow> skip_ws (c # r) = c # r"
  by (simp add: skip_ws_def)

lemma skip_ws_dumps [simp]: "skip_ws (json_dumps v @ r) = json_dumps v @ r"
  using json_dumps_head [of v] by (auto simp: skip_ws_head)

lemma skip_ws_punct [simp]:
  "skip_ws [] = []" "skip_ws (CHR '','' # r) = CHR '','' # r" "skip_ws (CHR '']'' # r) = CHR '']'' # r"
  "skip_ws (CHR ''}'' # r) = CHR ''}'' # r" "skip_ws (CHR '':'' # r) = CHR '':'' # r"
  "skip_ws (CHR 0x22 # r) = CHR 0x22 # r"
  by (simp_all add: skip_ws_def)

lemma join_Cons: "join sep (x # xs) = x @ (if xs = [] then [] else sep @ join sep xs)"
  by (cases xs) (simp_all add: join_def)

abbreviation dump_member :: "string \<times> pyval \<Rightarrow> string" where
  "dump_member \<equiv> \<lambda>(k, v). json_str k @ '':'' @ json_dumps v"

lemma skip_ws_members [simp]: "skip_ws (dump_member kv @ r) = dump_member kv @ r"
  by (cases kv) (simp add: json_str_def)

lemma json_items_dumps:
  assumes IH: "\<And>v n r. v \<in> set vs \<Longrightarrow> length (json_dumps v) \<le> n \<Longrightarrow> ends_value r \<Longrightarrow>
      json_value n (json_dumps v @ r) = Inr (v, r)"
    and "vs \<noteq> []" "length (join '','' (map json_dumps vs)) < n"
  shows "json_items n acc (join '','' (map json_dumps vs) @ CHR '']'' # r) = Inr (PList (acc @ vs), r)"
  using assms
proof (induction vs arbitrary: n acc)
  case (Cons v vs)
  obtain m where n: "n = Suc m" using Cons.prems(3) by (cases n) auto
  have len: "length (json_dumps v) \<le> m" using Cons.prems(3) n by (simp add: join_Cons)
  show ?case
  proof (cases "vs = []")
    case True
    then show ?thesis
      using Cons.prems(1) [OF _ len, of "CHR '']'' # r"] by (simp add: n json_items.simps join_Cons)
  next
    case False
    then obtain w ws where ws: "vs = w # ws" by (cases vs) auto
    have "json_items m (acc @ [v]) (join '','' (map json_dumps vs) @ CHR '']'' # r) = Inr (PList ((acc @ [v]) @ vs), r)"
      by (rule Cons.IH) (use Cons.prems n False in \<open>auto simp: join_Cons\<close>)
    moreover have "skip_ws (join '','' (map json_dumps vs) @ CHR '']'' # r) = join '','' (map json_dumps vs) @ CHR '']'' # r"
      by (simp add: ws join_Cons)
    ultimately show ?thesis
      using Cons.prems(1) [OF _ len, of "CHR '','' # join '','' (map json_dumps vs) @ CHR '']'' # r"] False
      by (simp add: n json_items.simps join_Cons)
  qed
qed simp

lemma dset_new: "k \<notin> set (dkeys d) \<Longrightarrow> dset k v d = d @ [(k, v)]"
  by (induction d) auto

lemma json_members_dumps:
  assumes IH: "\<And>k v n r. (k, v) \<in> set kvs \<Longrightarrow> length (json_dumps v) \<le> n \<Longrightarrow> ends_value r \<Longrightarrow>
      json_value n (json_dumps v @ r) = Inr (v, r)"
    and "kvs \<noteq> []" "length (join '','' (map dump_member kvs)) < n" "distinct (dkeys (acc @ kvs))"
  shows "json_members n acc (join '','' (map dump_member kvs) @ CHR ''}'' # r) = Inr (PDict (acc @ kvs), r)"
  using assms
proof (induction kvs arbitrary: n acc)
  case (Cons kv kvs)
  obtain k v where kv: "kv = (k, v)" by (cases kv)
  obtain m where n: "n = Suc m" using Cons.prems(3) by (cases n) auto
  have len: "length (json_dumps v) \<le> m" using Cons.prems(3) n by (simp add: join_Cons kv)
  have new: "dset k v acc = acc @ [(k, v)]" using Cons.prems(4) by (intro dset_new) (auto simp: kv)
  show ?case
  proof (cases "kvs = []")
    case True
    then show ?thesis
      using Cons.prems(1) [of k v, OF _ len, of "CHR ''}'' # r"]
      by (simp add: n json_members.simps join_Cons kv json_str_def json_string_str new)
  next
    case False
    then obtain w ws where ws: "kvs = w # ws" by (cases kvs) auto
    have "json_members m (acc @ [(k, v)]) (join '','' (map dump_member kvs) @ CHR ''}'' # r)
        = Inr (PDict ((acc @ [(k, v)]) @ kvs), r)"
      by (rule Cons.IH) (use Cons.prems n False kv in \<open>auto simp: join_Cons\<close>)
    moreover have "skip_ws (join '','' (map dump_member kvs) @ CHR ''}'' # r) = join '','' (map dump_member kvs) @ CHR ''}'' # r"
      using skip_ws_members [of w] by (simp add: ws join_Cons)
    ultimately show ?thesis
      using Cons.prems(1) [of k v, OF _ len, of "CHR '','' # join '','' (map dump_member kvs) @ CHR ''}'' # r"] False
      by (simp add: n json_members.simps join_Cons kv json_str_def json_string_str new)
  qed
qed simp

lemma json_value_dumps:
  "json_clean v \<Longrightarrow> length (json_dumps v) \<le> n \<Longrightarrow> ends_value r \<Longrightarrow> json_value n (json_dumps v @ r) = Inr (v, r)"
proof (induction v arbitrary: n r rule: json_dumps.induct)
  case (2 b)
  then show ?case by (cases n; cases b) (auto simp: json_value.simps)
next
  case (3 i)
  obtain c s where cs: "nat_digits (nat \<bar>i\<bar>) = c # s" "is_digit c" using nat_digits_head by blast
  have [simp]: "c \<noteq> CHR 0x22" "c \<noteq> CHR ''{''" "c \<noteq> CHR ''[''" "CHR ''n'' \<noteq> c" "CHR ''t'' \<noteq> c" "CHR ''f'' \<noteq> c"
    using is_digit_not [OF cs(2)] by simp_all
  from 3 have "0 < n" using cs by (auto simp: int_str_def split: if_splits)
  then obtain m where "n = Suc m" by (cases n) auto
  then show ?case
    using json_number_int [OF 3(3), of i] cs by (cases "i < 0") (simp_all add: json_value.simps int_str_def)
next
  case (4 s)
  then obtain m where "n = Suc m" by (cases n) (auto simp: json_str_def)
  then show ?case by (simp add: json_value.simps json_str_def json_string_str)
next
  case (5 vs)
  then obtain m where n: "n = Suc m" by (cases n) auto
  show ?case
  proof (cases vs)
    case Nil
    then show ?thesis by (simp add: n json_value.simps join_def)
  next
    case (Cons w ws)
    obtain c t where ct: "json_dumps w = c # t" "c \<noteq> CHR '']''" using json_dumps_head [of w] by auto
    have "json_items m [] (join '','' (map json_dumps vs) @ CHR '']'' # r) = Inr (PList ([] @ vs), r)"
      by (rule json_items_dumps) (use 5 n Cons in \<open>auto simp: list_all_iff\<close>)
    then show ?thesis
      using skip_ws_dumps [of w] ct by (simp add: n json_value.simps Cons join_Cons)
  qed
next
  case (6 kvs)
  then obtain m where n: "n = Suc m" by (cases n) auto
  show ?case
  proof (cases kvs)
    case Nil
    then show ?thesis by (simp add: n json_value.simps join_def)
  next
    case (Cons w ws)
    have "json_members m [] (join '','' (map dump_member kvs) @ CHR ''}'' # r) = Inr (PDict ([] @ kvs), r)"
    proof (rule json_members_dumps)
      fix k v n' r' assume kv: "(k, v) \<in> set kvs" "length (json_dumps v) \<le> n'" "ends_value r'"
      with 6(2) have "json_clean v" by (auto simp: list_all_iff)
      with 6(1) [OF kv(1) refl] kv show "json_value n' (json_dumps v @ r') = Inr (v, r')" by simp
    qed (use 6 n Cons in \<open>auto simp: list_all_iff\<close>)
    moreover obtain t where "join '','' (map dump_member kvs) = CHR 0x22 # t"
      by (cases w) (simp add: Cons join_Cons json_str_def)
    ultimately show ?thesis by (simp add: n json_value.simps)
  qed
next
  case 1
  then show ?case by (cases n) (auto simp: json_value.simps)
qed

lemma json_loads_dumps: "json_clean v \<Longrightarrow> json_loads (json_dumps v) = Inr v"
  using json_value_dumps [of v "2 * length (json_dumps v) + 2" "[]"] skip_ws_dumps [of v "[]"]
  by (simp add: json_loads_def)

interpretation json: codec json_dumps json_loads json_clean
  by unfold_locales (rule json_loads_dumps)

interpretation json_utf8: codec_chain json_dumps json_loads json_clean utf8_encode utf8_decode "\<lambda>_. True"
  by unfold_locales simp

interpretation json_b64: codec_chain json_compact "\<lambda>bs. bind_res (utf8_decode bs) json_loads" json_clean
  b64u_encode b64u_decode "\<lambda>_. True"
  by unfold_locales (use json_utf8.chain_dec_enc in \<open>simp_all add: json_compact_def\<close>)

lemma b64u_json_b64u: "json_clean v \<Longrightarrow> b64u_json (json_b64u v) = Inr v"
  using json_b64.chain_dec_enc by (simp add: b64u_json_def json_b64u_def)

section \<open>The fuel is enough\<close>

lemma skip_ws_shorter: "length (skip_ws s) \<le> length s"
  by (simp add: skip_ws_def length_dropWhile_le)

lemma skip_ws_Cons_shorter: "skip_ws s = c # r \<Longrightarrow> length r < length s"
  using skip_ws_shorter [of s] by simp

lemma json_string_shorter: "json_string s = Inr (t, r) \<Longrightarrow> length r < length s"
proof (induction s arbitrary: t r rule: json_string.induct)
  case (2 c s)
  then show ?case
    by (fastforce split: if_splits list.splits option.splits prod.splits sum.splits dest: hex4_shorter
        simp: map_sum_def)
qed simp

lemma json_number_shorter: "json_number s = Inr (v, r) \<Longrightarrow> length r < length s"
proof -
  have d: "length r < length s" if "json_digits s = Some (k, r)" for s r and k :: nat
    using that length_dropWhile_le [of is_digit "tl s"]
    by (cases s) (auto simp: json_digits_def split: if_splits)
  assume "json_number s = Inr (v, r)"
  then obtain k where "json_digits (if prefix ''-'' s then tl s else s) = Some (k, r)"
    by (auto simp: json_number_def Let_def split: if_splits option.splits)
  from d [OF this] show ?thesis by (auto split: if_splits)
qed

lemma json_value_shorter:
  "(\<forall>s v r. json_value n s = Inr (v, r) \<longrightarrow> length r < length s)
   \<and> (\<forall>acc s v r. json_items n acc s = Inr (v, r) \<longrightarrow> length r < length s)
   \<and> (\<forall>acc s v r. json_members n acc s = Inr (v, r) \<longrightarrow> length r < length s)"
proof (induction n)
  case 0
  show ?case by (simp add: json_value.simps json_items.simps json_members.simps)
next
  case (Suc n)
  then have IH: "\<And>s v r. json_value n s = Inr (v, r) \<Longrightarrow> length r < length s"
    "\<And>acc s v r. json_items n acc s = Inr (v, r) \<Longrightarrow> length r < length s"
    "\<And>acc s v r. json_members n acc s = Inr (v, r) \<Longrightarrow> length r < length s" by blast+
  have "length r < length s" if j: "json_value (Suc n) s = Inr (v, r)" for s v r
  proof -
    from j obtain c t where s: "s = c # t" by (cases s) (auto simp: json_value.simps)
    from j have "(\<exists>x. json_string t = Inr (x, r)) \<or> (\<exists>d. skip_ws t = d # r)
        \<or> json_members n [] (skip_ws t) = Inr (v, r) \<or> json_items n [] (skip_ws t) = Inr (v, r)
        \<or> r = drop 3 t \<or> r = drop 4 t \<or> json_number s = Inr (v, r)"
      unfolding s json_value.simps list.case
      by (cases "json_string t") (auto split: if_splits list.splits)
    then show ?thesis
      using IH(2) [of "[]" "skip_ws t" v r] IH(3) [of "[]" "skip_ws t" v r] skip_ws_shorter [of t]
        skip_ws_Cons_shorter [of t] json_string_shorter [of t] json_number_shorter [of s v r]
      by (auto simp: s dest: less_imp_le)
  qed
  moreover have "length r < length s" if i: "json_items (Suc n) acc s = Inr (v, r)" for acc s v r
  proof -
    from i obtain x r1 where 1: "json_value n s = Inr (x, r1)"
      by (auto simp: json_items.simps split: sum.splits)
    from i 1 obtain d r2 where 2: "skip_ws r1 = d # r2" by (auto simp: json_items.simps split: list.splits)
    from i 1 2 have "r = r2 \<or> json_items n (acc @ [x]) (skip_ws r2) = Inr (v, r)"
      by (auto simp: json_items.simps split: if_splits)
    with IH(1) [OF 1] IH(2) [of "acc @ [x]" "skip_ws r2" v r] skip_ws_shorter [of r2] skip_ws_Cons_shorter [OF 2]
    show ?thesis by auto
  qed
  moreover have "length r < length s" if i: "json_members (Suc n) acc s = Inr (v, r)" for acc s v r
  proof -
    from i obtain s0 where 0: "s = CHR 0x22 # s0" by (auto simp: json_members.simps split: list.splits if_splits)
    from i 0 obtain k r1 where 1: "json_string s0 = Inr (k, r1)"
      by (auto simp: json_members.simps split: sum.splits)
    from i 0 1 obtain r2 where 2: "skip_ws r1 = CHR '':'' # r2"
      by (auto simp: json_members.simps split: list.splits if_splits)
    from i 0 1 2 obtain x r3 where 3: "json_value n (skip_ws r2) = Inr (x, r3)"
      by (auto simp: json_members.simps split: sum.splits)
    from i 0 1 2 3 obtain d r4 where 4: "skip_ws r3 = d # r4"
      by (auto simp: json_members.simps split: list.splits)
    from i 0 1 2 3 4 have "r = r4 \<or> json_members n (dset k x acc) (skip_ws r4) = Inr (v, r)"
      by (auto simp: json_members.simps split: if_splits)
    with 0 json_string_shorter [OF 1] IH(1) [OF 3] IH(3) [of "dset k x acc" "skip_ws r4" v r]
      skip_ws_shorter [of r2] skip_ws_shorter [of r4] skip_ws_Cons_shorter [OF 2] skip_ws_Cons_shorter [OF 4]
    show ?thesis by auto
  qed
  ultimately show ?case by blast
qed

lemma json_fuel_step:
  "(\<forall>s. 2 * length s < n \<longrightarrow> json_value (Suc n) s = json_value n s)
   \<and> (\<forall>acc s. 2 * length s + 1 < n \<longrightarrow> json_items (Suc n) acc s = json_items n acc s)
   \<and> (\<forall>acc s. 2 * length s + 1 < n \<longrightarrow> json_members (Suc n) acc s = json_members n acc s)"
proof (induction n)
  case (Suc n)
  then have IH: "\<And>s. 2 * length s < n \<Longrightarrow> json_value (Suc n) s = json_value n s"
    "\<And>acc s. 2 * length s + 1 < n \<Longrightarrow> json_items (Suc n) acc s = json_items n acc s"
    "\<And>acc s. 2 * length s + 1 < n \<Longrightarrow> json_members (Suc n) acc s = json_members n acc s" by blast+
  have "json_value (Suc (Suc n)) s = json_value (Suc n) s" if l: "2 * length s < Suc n" for s
  proof (cases s)
    case (Cons c r)
    with l skip_ws_shorter [of r] have "2 * length (skip_ws r) + 1 < n \<or> n = 1 \<and> skip_ws r = []" by (cases n) auto
    then show ?thesis
    proof
      assume "2 * length (skip_ws r) + 1 < n"
      with IH(2,3) have i: "json_items (Suc n) [] (skip_ws r) = json_items n [] (skip_ws r)"
        "json_members (Suc n) [] (skip_ws r) = json_members n [] (skip_ws r)" by blast+
      show ?thesis unfolding json_value.simps(2) Cons list.case i ..
    next
      assume "n = 1 \<and> skip_ws r = []"
      then show ?thesis by (simp add: Cons json_value.simps(2))
    qed
  qed (simp add: json_value.simps)
  moreover have "json_items (Suc (Suc n)) acc s = json_items (Suc n) acc s" if l: "2 * length s + 1 < Suc n" for acc s
  proof -
    from l have v: "json_value (Suc n) s = json_value n s" by (intro IH(1)) simp
    have i: "json_items (Suc n) acc' (skip_ws r2) = json_items n acc' (skip_ws r2)"
      if "json_value n s = Inr (x, r1)" "skip_ws r1 = d # r2" for x r1 d r2 acc'
    proof (rule IH(2))
      from json_value_shorter that(1) have "length r1 < length s" by blast
      with skip_ws_Cons_shorter [OF that(2)] skip_ws_shorter [of r2] l show "2 * length (skip_ws r2) + 1 < n" by linarith
    qed
    show ?thesis unfolding json_items.simps(2) [of "Suc n" acc s] json_items.simps(2) [of n acc s] v by (auto split: sum.split list.split dest: i)
  qed
  moreover have "json_members (Suc (Suc n)) acc s = json_members (Suc n) acc s"
    if l: "2 * length s + 1 < Suc n" for acc s
  proof (cases s)
    case (Cons q r)
    have v: "json_value (Suc n) (skip_ws r2) = json_value n (skip_ws r2)"
      if "json_string r = Inr (k, r1)" "skip_ws r1 = c # r2" for k r1 c r2
      using json_string_shorter [OF that(1)] skip_ws_Cons_shorter [OF that(2)] skip_ws_shorter [of r2] l Cons
      by (intro IH(1)) simp
    have i: "json_members (Suc n) acc' (skip_ws r4) = json_members n acc' (skip_ws r4)"
      if "json_string r = Inr (k, r1)" "skip_ws r1 = c # r2" "json_value n (skip_ws r2) = Inr (x, r3)" "skip_ws r3 = d # r4"
      for k r1 c r2 x r3 d r4 acc'
    proof (rule IH(3))
      from json_value_shorter that(3) have "length r3 < length (skip_ws r2)" by blast
      with json_string_shorter [OF that(1)] skip_ws_Cons_shorter [OF that(2)] skip_ws_shorter [of r2]
        skip_ws_Cons_shorter [OF that(4)] skip_ws_shorter [of r4] l Cons
      show "2 * length (skip_ws r4) + 1 < n" by simp
    qed
    show ?thesis unfolding Cons json_members.simps(2) [of "Suc n" acc "q # r"] json_members.simps(2) [of n acc "q # r"] list.case
      by (auto split: sum.split list.split simp: v dest: i)
  qed (simp add: json_members.simps)
  ultimately show ?case by blast
qed simp

lemma json_fuel_enough: "2 * length s < n \<Longrightarrow> json_value (n + k) s = json_value n s"
  by (induction k) (use json_fuel_step in \<open>auto\<close>)

section \<open>The property\<close>

text \<open>
  C36: A JSON value the program serialises as a JOSE segment (\<open>json_b64u\<close>) is read back
  unchanged by \<open>b64u_json\<close>, whatever its nesting, its strings' control and quote characters
  and its integers, provided that no dictionary lists a key twice; and different values give
  different segments.
\<close>

theorem json_segment_roundtrip:
  assumes "json_clean v" and "json_clean w"
  shows "b64u_json (json_b64u v) = Inr v \<and> (json_b64u v = json_b64u w \<longleftrightarrow> v = w)"
  using b64u_json_b64u [OF assms(1)] b64u_json_b64u [OF assms(2)] by (metis sum.inject(2))

definition sample_claims :: pyval where
  "sample_claims = PDict [(''sub'', PStr [CHR 0x22, CHR 0x0a, CHR ''a'']), (''aud'', PList [PStr ''x'', PNone]),
     (''exp'', PInt (- 12)), (''ok'', PBool True)]"

theorem json_segment_roundtrip_witness:
  "b64u_json (json_b64u sample_claims) = Inr sample_claims
   \<and> (json_b64u sample_claims = json_b64u PNone \<longleftrightarrow> sample_claims = PNone)"
  by (rule json_segment_roundtrip) (simp_all add: sample_claims_def)

end
