(* ===== verification/Hashing.thy ===== *)
theory Hashing
  imports Encoding
begin

unbundle bit_operations_syntax

text \<open>
  What the program uses of the standard library's \<open>hashlib\<close> and \<open>hmac\<close>: SHA-1, SHA-256,
  SHA-384, SHA-512 (FIPS 180-4) and HMAC (RFC 2104), as executable functions on byte lists.
\<close>

section \<open>Words and blocks\<close>

definition be_word :: "byte list \<Rightarrow> 'w::len word" where
  "be_word bs = of_nat (be_nat bs)"

fun chunks :: "nat \<Rightarrow> 'a list \<Rightarrow> 'a list list" where
  "chunks n xs = (if n = 0 \<or> xs = [] then [] else take n xs # chunks n (drop n xs))"

declare chunks.simps [simp del]

text \<open>Padding to a multiple of \<open>block\<close> bytes with the bit length in the last \<open>k\<close> bytes.\<close>

definition md_pad :: "nat \<Rightarrow> nat \<Rightarrow> byte list \<Rightarrow> byte list" where
  "md_pad block k m =
     (let l = length m; zeros = (block - (l + 1 + k) mod block) mod block
      in m @ [0x80] @ replicate zeros 0 @ nat_be k (8 * l))"

section \<open>SHA-2\<close>

record 'w sha2 =
  big0 :: "nat \<times> nat \<times> nat"
  big1 :: "nat \<times> nat \<times> nat"
  small0 :: "nat \<times> nat \<times> nat"
  small1 :: "nat \<times> nat \<times> nat"
  round_constants :: "'w list"
  word_bytes :: nat

definition big_sigma :: "nat \<times> nat \<times> nat \<Rightarrow> 'w::len word \<Rightarrow> 'w word" where
  "big_sigma r x = (case r of (a, b, c) \<Rightarrow> word_rotr a x XOR word_rotr b x XOR word_rotr c x)"

definition small_sigma :: "nat \<times> nat \<times> nat \<Rightarrow> 'w::len word \<Rightarrow> 'w word" where
  "small_sigma r x = (case r of (a, b, c) \<Rightarrow> word_rotr a x XOR word_rotr b x XOR drop_bit c x)"

text \<open>The message schedule, newest word first.\<close>

definition schedule_step :: "('w::len word) sha2 \<Rightarrow> 'w word list \<Rightarrow> 'w word list" where
  "schedule_step p ws =
     (small_sigma (small1 p) (ws ! 1) + ws ! 6 + small_sigma (small0 p) (ws ! 14) + ws ! 15) # ws"

definition schedule :: "('w::len word) sha2 \<Rightarrow> byte list \<Rightarrow> 'w word list" where
  "schedule p block =
     rev ((schedule_step p ^^ (length (round_constants p) - 16))
       (rev (map be_word (chunks (word_bytes p) block))))"

fun sha2_round :: "('w::len word) sha2 \<Rightarrow> 'w word \<times> 'w word \<Rightarrow> 'w word list \<Rightarrow> 'w word list" where
  "sha2_round p (k, w) [a, b, c, d, e, f, g, h] =
     (let t1 = h + big_sigma (big1 p) e + ((e AND f) XOR (NOT e AND g)) + k + w;
          t2 = big_sigma (big0 p) a + ((a AND b) XOR (a AND c) XOR (b AND c))
      in [t1 + t2, a, b, c, d + t1, e, f, g])"
| "sha2_round p kw s = s"

definition sha2_compress :: "('w::len word) sha2 \<Rightarrow> byte list \<Rightarrow> 'w word list \<Rightarrow> 'w word list" where
  "sha2_compress p block s =
     map2 (+) s (fold (sha2_round p) (zip (round_constants p) (schedule p block)) s)"

definition sha2_hash :: "('w::len word) sha2 \<Rightarrow> 'w word list \<Rightarrow> byte list \<Rightarrow> byte list" where
  "sha2_hash p h0 m =
     concat (map (\<lambda>w. nat_be (word_bytes p) (unat w))
       (fold (sha2_compress p) (chunks (16 * word_bytes p) (md_pad (16 * word_bytes p) (2 * word_bytes p) m)) h0))"

definition SHA256_K :: "32 word list" where
  "SHA256_K =
    [1116352408, 1899447441, 3049323471, 3921009573, 961987163, 1508970993, 2453635748, 2870763221,
    3624381080, 310598401, 607225278, 1426881987, 1925078388, 2162078206, 2614888103, 3248222580,
    3835390401, 4022224774, 264347078, 604807628, 770255983, 1249150122, 1555081692, 1996064986,
    2554220882, 2821834349, 2952996808, 3210313671, 3336571891, 3584528711, 113926993, 338241895,
    666307205, 773529912, 1294757372, 1396182291, 1695183700, 1986661051, 2177026350, 2456956037,
    2730485921, 2820302411, 3259730800, 3345764771, 3516065817, 3600352804, 4094571909, 275423344,
    430227734, 506948616, 659060556, 883997877, 958139571, 1322822218, 1537002063, 1747873779,
    1955562222, 2024104815, 2227730452, 2361852424, 2428436474, 2756734187, 3204031479, 3329325298]"

definition SHA512_K :: "64 word list" where
  "SHA512_K =
    [4794697086780616226, 8158064640168781261, 13096744586834688815, 16840607885511220156,
    4131703408338449720, 6480981068601479193, 10538285296894168987, 12329834152419229976,
    15566598209576043074, 1334009975649890238, 2608012711638119052, 6128411473006802146,
    8268148722764581231, 9286055187155687089, 11230858885718282805, 13951009754708518548,
    16472876342353939154, 17275323862435702243, 1135362057144423861, 2597628984639134821,
    3308224258029322869, 5365058923640841347, 6679025012923562964, 8573033837759648693,
    10970295158949994411, 12119686244451234320, 12683024718118986047, 13788192230050041572,
    14330467153632333762, 15395433587784984357, 489312712824947311, 1452737877330783856,
    2861767655752347644, 3322285676063803686, 5560940570517711597, 5996557281743188959,
    7280758554555802590, 8532644243296465576, 9350256976987008742, 10552545826968843579,
    11727347734174303076, 12113106623233404929, 14000437183269869457, 14369950271660146224,
    15101387698204529176, 15463397548674623760, 17586052441742319658, 1182934255886127544,
    1847814050463011016, 2177327727835720531, 2830643537854262169, 3796741975233480872,
    4115178125766777443, 5681478168544905931, 6601373596472566643, 7507060721942968483,
    8399075790359081724, 8693463985226723168, 9568029438360202098, 10144078919501101548,
    10430055236837252648, 11840083180663258601, 13761210420658862357, 14299343276471374635,
    14566680578165727644, 15097957966210449927, 16922976911328602910, 17689382322260857208,
    500013540394364858, 748580250866718886, 1242879168328830382, 1977374033974150939,
    2944078676154940804, 3659926193048069267, 4368137639120453308, 4836135668995329356,
    5532061633213252278, 6448918945643986474, 6902733635092675308, 7801388544844847127]"

definition SHA256_PARAMS :: "(32 word) sha2" where
  "SHA256_PARAMS = \<lparr>big0 = (2, 13, 22), big1 = (6, 11, 25), small0 = (7, 18, 3), small1 = (17, 19, 10),
     round_constants = SHA256_K, word_bytes = 4\<rparr>"

definition SHA512_PARAMS :: "(64 word) sha2" where
  "SHA512_PARAMS = \<lparr>big0 = (28, 34, 39), big1 = (14, 18, 41), small0 = (1, 8, 7), small1 = (19, 61, 6),
     round_constants = SHA512_K, word_bytes = 8\<rparr>"

definition sha256 :: "byte list \<Rightarrow> byte list" where
  "sha256 m = sha2_hash SHA256_PARAMS
    [1779033703, 3144134277, 1013904242, 2773480762, 1359893119, 2600822924, 528734635, 1541459225] m"

definition sha512 :: "byte list \<Rightarrow> byte list" where
  "sha512 m = sha2_hash SHA512_PARAMS
    [7640891576956012808, 13503953896175478587, 4354685564936845355, 11912009170470909681,
    5840696475078001361, 11170449401992604703, 2270897969802886507, 6620516959819538809] m"

definition sha384 :: "byte list \<Rightarrow> byte list" where
  "sha384 m = take 48 (sha2_hash SHA512_PARAMS
    [14680500436340154072, 7105036623409894663, 10473403895298186519, 1526699215303891257,
    7436329637833083697, 10282925794625328401, 15784041429090275239, 5167115440072839076] m)"

section \<open>SHA-1\<close>

definition sha1_schedule_step :: "32 word list \<Rightarrow> 32 word list" where
  "sha1_schedule_step ws = word_rotl 1 (ws ! 2 XOR ws ! 7 XOR ws ! 13 XOR ws ! 15) # ws"

definition sha1_schedule :: "byte list \<Rightarrow> 32 word list" where
  "sha1_schedule block = rev ((sha1_schedule_step ^^ 64) (rev (map be_word (chunks 4 block))))"

fun sha1_round :: "nat \<times> 32 word \<Rightarrow> 32 word list \<Rightarrow> 32 word list" where
  "sha1_round (t, w) [a, b, c, d, e] =
     (let f = (if t < 20 then (b AND c) XOR (NOT b AND d)
               else if t < 40 then b XOR c XOR d
               else if t < 60 then (b AND c) XOR (b AND d) XOR (c AND d)
               else b XOR c XOR d);
          k = (if t < 20 then 0x5a827999 else if t < 40 then 0x6ed9eba1
               else if t < 60 then 0x8f1bbcdc else 0xca62c1d6)
      in [word_rotl 5 a + f + e + k + w, a, word_rotl 30 b, c, d])"
| "sha1_round tw s = s"

definition sha1_compress :: "byte list \<Rightarrow> 32 word list \<Rightarrow> 32 word list" where
  "sha1_compress block s = map2 (+) s (fold sha1_round (zip [0..<80] (sha1_schedule block)) s)"

definition sha1 :: "byte list \<Rightarrow> byte list" where
  "sha1 m =
     concat (map (\<lambda>w. nat_be 4 (unat w))
       (fold sha1_compress (chunks 64 (md_pad 64 8 m))
         [1732584193, 4023233417, 2562383102, 271733878, 3285377520]))"

section \<open>Hashes by name and HMAC\<close>

record hash_alg =
  digest :: "byte list \<Rightarrow> byte list"
  digest_size :: nat
  block_size :: nat

definition hash_named :: "string \<Rightarrow> hash_alg option" where
  "hash_named name =
     (if name = ''sha1'' then Some \<lparr>digest = sha1, digest_size = 20, block_size = 64\<rparr>
      else if name = ''sha256'' then Some \<lparr>digest = sha256, digest_size = 32, block_size = 64\<rparr>
      else if name = ''sha384'' then Some \<lparr>digest = sha384, digest_size = 48, block_size = 128\<rparr>
      else if name = ''sha512'' then Some \<lparr>digest = sha512, digest_size = 64, block_size = 128\<rparr>
      else None)"

definition hmac_alg :: "hash_alg \<Rightarrow> byte list \<Rightarrow> byte list \<Rightarrow> byte list" where
  "hmac_alg h key msg =
     (let k0 = (if length key > block_size h then digest h key else key);
          k = k0 @ replicate (block_size h - length k0) 0
      in digest h (map (\<lambda>b. b XOR 0x5c) k @ digest h (map (\<lambda>b. b XOR 0x36) k @ msg)))"

definition hmac_new :: "string \<Rightarrow> byte list \<Rightarrow> byte list \<Rightarrow> py_error + byte list" where
  "hmac_new name key msg =
     (case hash_named name of None \<Rightarrow> Inl Unmodelled | Some h \<Rightarrow> Inr (hmac_alg h key msg))"

definition hashlib_new :: "string \<Rightarrow> byte list \<Rightarrow> py_error + byte list" where
  "hashlib_new name msg =
     (case hash_named name of None \<Rightarrow> Inl Unmodelled | Some h \<Rightarrow> Inr (digest h msg))"

section \<open>Digest lengths\<close>

lemma length_sha2_round [simp]: "length (sha2_round p kw s) = length s"
  by (cases "(p, kw, s)" rule: sha2_round.cases) (simp_all add: Let_def)

lemma length_sha1_round [simp]: "length (sha1_round tw s) = length s"
  by (cases "(tw, s)" rule: sha1_round.cases) (simp_all add: Let_def)

lemma length_fold:
  assumes "\<And>x s. length (f x s) = length s"
  shows "length (fold f xs s) = length s"
  by (induction xs arbitrary: s) (simp_all add: assms)

lemma length_sha2_compress [simp]: "length (sha2_compress p b s) = length s"
  by (simp add: sha2_compress_def length_fold)

lemma length_sha1_compress [simp]: "length (sha1_compress b s) = length s"
  by (simp add: sha1_compress_def length_fold)

lemma length_sha2_hash: "length (sha2_hash p h0 m) = length h0 * word_bytes p"
  by (simp add: sha2_hash_def length_concat comp_def length_fold sum_list_triv)

lemma length_sha256 [simp]: "length (sha256 m) = 32"
  and length_sha512 [simp]: "length (sha512 m) = 64"
  and length_sha384 [simp]: "length (sha384 m) = 48"
  by (simp_all add: sha256_def sha512_def sha384_def length_sha2_hash SHA256_PARAMS_def SHA512_PARAMS_def)

lemma length_sha1 [simp]: "length (sha1 m) = 20"
  by (simp add: sha1_def length_concat comp_def length_fold sum_list_triv)

lemma hash_named_length: "hash_named name = Some h \<Longrightarrow> length (digest h m) = digest_size h"
  by (auto simp: hash_named_def split: if_splits)

lemma hash_named_digest_size: "hash_named name = Some h \<Longrightarrow> 20 \<le> digest_size h"
  by (auto simp: hash_named_def split: if_splits)

lemma hmac_new_length:
  "hmac_new name key msg = Inr mac \<Longrightarrow> \<exists>h. hash_named name = Some h \<and> length mac = digest_size h"
  by (auto simp: hmac_new_def hmac_alg_def Let_def hash_named_length split: option.splits)

end
