(* ===== verification/Arith.thy ===== *)
theory Arith
  imports Encoding
begin

text \<open>
  Modular arithmetic: Python's three-argument \<open>pow\<close>, also with the exponent \<open>-1\<close>, and the
  small part of number theory the signature scheme rests on (Fermat's little theorem and
  the Chinese remainder theorem for two moduli).
\<close>

section \<open>Powers and inverses\<close>

text \<open>\<open>pow(b, e, m)\<close> for a natural exponent and a positive modulus.\<close>

fun pow_mod :: "int \<Rightarrow> nat \<Rightarrow> int \<Rightarrow> int" where
  "pow_mod b e m =
     (if e = 0 then 1 mod m
      else if even e then pow_mod (b * b mod m) (e div 2) m
      else b * pow_mod (b * b mod m) (e div 2) m mod m)"

declare pow_mod.simps [simp del]

lemma pow_mod_eq: "pow_mod b e m = b ^ e mod m"
proof (induction b e m rule: pow_mod.induct)
  case (1 b e m)
  have sq: "(b * b mod m) ^ (e div 2) mod m = b ^ (2 * (e div 2)) mod m"
    by (simp add: power_mod power_mult power2_eq_square)
  show ?case
  proof (cases "e = 0")
    case True
    then show ?thesis by (simp add: pow_mod.simps)
  next
    case False
    show ?thesis
    proof (cases "even e")
      case True
      with 1(1) False sq show ?thesis by (subst pow_mod.simps) simp
    next
      case odd: False
      then have "b ^ e = b * b ^ (2 * (e div 2))" by (metis odd_two_times_div_two_succ power_Suc Suc_eq_plus1)
      with 1(2) False odd sq show ?thesis by (subst pow_mod.simps) (simp add: mod_mult_right_eq)
    qed
  qed
qed

text \<open>The extended Euclidean algorithm.\<close>

function egcd :: "int \<Rightarrow> int \<Rightarrow> int \<times> int \<times> int" where
  "egcd a b =
     (if b \<le> 0 then (a, 1, 0)
      else (case egcd b (a mod b) of (g, x, y) \<Rightarrow> (g, y, x - a div b * y)))"
  by pat_completeness auto
termination by (relation "measure (\<lambda>(a, b). nat b)") auto

declare egcd.simps [simp del]

lemma egcd_bezout:
  "egcd a b = (g, x, y) \<Longrightarrow> 0 \<le> b \<Longrightarrow> g = a * x + b * y \<and> (0 \<le> a \<longrightarrow> g = gcd a b)"
proof (induction a b arbitrary: g x y rule: egcd.induct)
  case (1 a b)
  show ?case
  proof (cases "b \<le> 0")
    case True
    with 1 show ?thesis by (auto simp: egcd.simps)
  next
    case False
    obtain g' x' y' where r: "egcd b (a mod b) = (g', x', y')" by (cases "egcd b (a mod b)")
    with 1(2) False have g: "g = g'" "x = y'" "y = x' - a div b * y'" by (auto simp: egcd.simps [of a b])
    have ih: "g' = b * x' + a mod b * y'" "g' = gcd b (a mod b)"
      using 1(1) [OF False r] False by auto
    have "a * y' + b * (x' - a div b * y') = b * x' + (a - b * (a div b)) * y'" by (simp add: algebra_simps)
    also have "a - b * (a div b) = a mod b" by (simp add: minus_mult_div_eq_mod)
    finally show ?thesis using g ih by (simp add: gcd_red_int [symmetric] gcd.commute)
  qed
qed

text \<open>\<open>pow(a, -1, m)\<close>; \<open>ValueError\<close> when \<open>a\<close> has no inverse.\<close>

definition inv_mod :: "int \<Rightarrow> int \<Rightarrow> py_error + int" where
  "inv_mod a m =
     (case egcd (a mod m) m of (g, x, y) \<Rightarrow> if g = 1 then Inr (x mod m) else Inl ValueError)"

lemma inv_mod_correct:
  assumes "inv_mod a m = Inr x" "0 < m"
  shows "a * x mod m = 1 mod m" "0 \<le> x" "x < m"
proof -
  obtain g u v where e: "egcd (a mod m) m = (g, u, v)" by (cases "egcd (a mod m) m")
  with assms have "g = 1" "x = u mod m" by (auto simp: inv_mod_def split: if_splits)
  moreover have "g = a mod m * u + m * v" using egcd_bezout [OF e] assms(2) by simp
  ultimately have "1 mod m = a mod m * u mod m" by (metis mod_mult_self2)
  then show "a * x mod m = 1 mod m" using \<open>x = u mod m\<close> by (simp add: mod_mult_left_eq mod_mult_right_eq)
  show "0 \<le> x" "x < m" using \<open>x = u mod m\<close> assms(2) by simp_all
qed

lemma inv_mod_defined:
  assumes "0 < m" "coprime a m"
  shows "\<exists>x. inv_mod a m = Inr x"
proof -
  obtain g u v where e: "egcd (a mod m) m = (g, u, v)" by (cases "egcd (a mod m) m")
  with assms(1) have "g = gcd (a mod m) m" using egcd_bezout [OF e] by simp
  also have "\<dots> = gcd a m" by (simp add: gcd_red_int [symmetric] gcd.commute)
  finally show ?thesis using assms e by (simp add: inv_mod_def)
qed

section \<open>Fermat and the Chinese remainder\<close>

definition prime_nat :: "nat \<Rightarrow> bool" where
  "prime_nat p \<longleftrightarrow> 1 < p \<and> (\<forall>d \<in> {2..<p}. \<not> d dvd p)"

lemma prime_nat_dvd: "prime_nat p \<Longrightarrow> d dvd p \<Longrightarrow> d = 1 \<or> d = p"
proof -
  assume p: "prime_nat p" "d dvd p"
  then have "0 < p" by (simp add: prime_nat_def)
  with p(2) have "d \<le> p" "d \<noteq> 0" by (auto dest: dvd_imp_le)
  moreover have "d \<notin> {2..<p}" using p by (auto simp: prime_nat_def)
  ultimately show ?thesis by auto
qed

lemma prime_nat_coprime: "prime_nat p \<Longrightarrow> \<not> p dvd a \<Longrightarrow> coprime p a"
  using prime_nat_dvd [of p "gcd p a"] by (auto simp: coprime_iff_gcd_eq_1) (metis gcd_dvd2)

lemma prime_dvd_binomial:
  assumes "prime_nat p" "0 < k" "k < p"
  shows "p dvd (p choose k)"
proof -
  have "\<not> p dvd k" using assms by (auto dest: dvd_imp_le)
  then have "coprime p k" by (rule prime_nat_coprime [OF assms(1)])
  moreover have "p dvd (p choose k) * k"
    using times_binomial_minus1_eq [of k p] assms(2) by (simp add: mult.commute)
  ultimately show ?thesis by (simp add: coprime_dvd_mult_left_iff)
qed

lemma freshman_dream:
  assumes "prime_nat p"
  shows "(a + 1) ^ p mod int p = (a ^ p + 1) mod int p"
proof -
  have p: "0 < p" using assms by (simp add: prime_nat_def)
  have "(a + 1) ^ p = (\<Sum>k\<le>p. int (p choose k) * a ^ k)" by (simp add: binomial_ring)
  also have "{..p} = insert 0 (insert p {1..<p})" using p by auto
  also have "(\<Sum>k\<in>insert 0 (insert p {1..<p}). int (p choose k) * a ^ k) =
      1 + a ^ p + (\<Sum>k\<in>{1..<p}. int (p choose k) * a ^ k)"
    using p by simp
  finally have "(a + 1) ^ p = 1 + a ^ p + (\<Sum>k\<in>{1..<p}. int (p choose k) * a ^ k)" .
  moreover have "int p dvd (\<Sum>k\<in>{1..<p}. int (p choose k) * a ^ k)"
    using prime_dvd_binomial [OF assms] by (intro dvd_sum dvd_mult2) auto
  ultimately show ?thesis by (simp add: add.commute mod_eq_dvd_iff)
qed

text \<open>\<open>x ^ k\<close> is \<open>x\<close> modulo \<open>m\<close>, for every \<open>x\<close>.\<close>

definition fixes_powers :: "int \<Rightarrow> nat \<Rightarrow> bool" where
  "fixes_powers m k \<longleftrightarrow> (\<forall>x. x ^ k mod m = x mod m)"

lemma fermat_nat:
  assumes "prime_nat p"
  shows "int n ^ p mod int p = int n mod int p"
proof (induction n)
  case 0
  then show ?case using assms by (simp add: prime_nat_def zero_power)
next
  case (Suc n)
  have "int (Suc n) ^ p mod int p = (int n ^ p + 1) mod int p"
    using freshman_dream [OF assms, of "int n"] by (simp add: add.commute)
  also have "\<dots> = (int n + 1) mod int p" using Suc by (metis mod_add_left_eq)
  finally show ?case by (simp add: add.commute)
qed

lemma fermat: "prime_nat p \<Longrightarrow> fixes_powers (int p) p"
proof -
  assume p: "prime_nat p"
  have "x ^ p mod int p = x mod int p" for x
  proof -
    obtain n where n: "x mod int p = int n"
      using p by (metis pos_mod_sign of_nat_0_less_iff prime_nat_def nonneg_int_cases zero_less_one order_less_trans)
    have "x ^ p mod int p = int n ^ p mod int p" by (metis n power_mod)
    also have "\<dots> = x mod int p" using fermat_nat [OF p, of n] by (metis n mod_mod_trivial)
    finally show ?thesis .
  qed
  then show ?thesis by (simp add: fixes_powers_def)
qed

lemma fixes_powers_step:
  assumes "fixes_powers (int p) p" "0 < p"
  shows "fixes_powers (int p) (1 + (p - 1) * j)"
proof (induction j)
  case (Suc j)
  have "x ^ (1 + (p - 1) * Suc j) mod int p = x mod int p" for x
  proof -
    have "1 + (p - 1) * Suc j = (p - 1) + (1 + (p - 1) * j)" by simp
    then have "x ^ (1 + (p - 1) * Suc j) = x ^ (p - 1) * x ^ (1 + (p - 1) * j)" by (metis power_add)
    also have "\<dots> mod int p = x ^ (p - 1) * x mod int p"
      using Suc by (metis fixes_powers_def mod_mult_right_eq)
    also have "x ^ (p - 1) * x = x ^ p" using assms(2) by (simp flip: power_Suc2)
    finally show ?thesis using assms(1) by (simp add: fixes_powers_def)
  qed
  then show ?case by (simp add: fixes_powers_def)
qed (simp add: fixes_powers_def)

lemma prime_fixes_powers:
  assumes "prime_nat p" "1 \<le> k" "(p - 1) dvd (k - 1)"
  shows "fixes_powers (int p) k"
proof -
  from assms obtain j where "k - 1 = (p - 1) * j" by blast
  with assms(2) have "k = 1 + (p - 1) * j" by simp
  with fixes_powers_step [OF fermat [OF assms(1)]] assms(1) show ?thesis by (simp add: prime_nat_def)
qed

lemma mod_both:
  assumes "coprime p q" "a mod p = b mod p" "a mod q = (b :: int) mod q"
  shows "a mod (p * q) = b mod (p * q)"
  using assms by (simp add: mod_eq_dvd_iff divides_mult)

lemma fixes_powers_mult:
  "coprime p q \<Longrightarrow> fixes_powers p k \<Longrightarrow> fixes_powers q k \<Longrightarrow> fixes_powers (p * q) k"
  unfolding fixes_powers_def by (blast intro: mod_both)

lemma fixes_powers_primes:
  assumes "distinct ps" "list_all (\<lambda>p. prime_nat p \<and> (p - 1) dvd (k - 1)) ps" "1 \<le> k"
  shows "fixes_powers (int (prod_list ps)) k"
  using assms
proof (induction ps)
  case (Cons p ps)
  have "coprime p (prod_list ps)"
  proof (rule prod_list_coprime_right)
    fix q assume "q \<in> set ps"
    with Cons.prems have "prime_nat q" "prime_nat p" "p \<noteq> q" by (auto simp: list_all_iff)
    then show "coprime p q"
      by (metis prime_nat_coprime prime_nat_dvd prime_nat_def less_irrefl)
  qed
  with Cons show ?case by (auto intro!: fixes_powers_mult prime_fixes_powers)
qed (simp add: fixes_powers_def)

end
