(* ===== verification/Rsa.thy ===== *)
theory Rsa
  imports Arith Hashing
begin

text \<open>
  \<open>authlab/crypto/primes.py\<close> and \<open>authlab/crypto/rsa.py\<close>: probable primes, key generation and
  RSASSA-PKCS1-v1_5.  The loops that search for primes may run for ever; they are partial
  functions and \<open>None\<close> is a run that does not return.
\<close>

section \<open>Probable primes\<close>

definition randbits :: "nat \<Rightarrow> rng \<Rightarrow> nat \<times> rng" where
  "randbits k g =
     (case random_bytes ((k + 7) div 8) g of (bs, g') \<Rightarrow> (be_nat bs div 2 ^ (8 * ((k + 7) div 8) - k), g'))"

partial_function (option) randbelow :: "nat \<Rightarrow> rng \<Rightarrow> (nat \<times> rng) option" where
  "randbelow n g =
     (case randbits (bit_length n) g of (r, g') \<Rightarrow> if r < n then Some (r, g') else randbelow n g')"

definition SMALL_PRIMES :: "nat list" where
  "SMALL_PRIMES =
     [2, 3, 5, 7, 11, 13, 17, 19, 23, 29, 31, 37, 41, 43, 47, 53, 59, 61, 67, 71, 73, 79, 83,
      89, 97, 101, 103, 107, 109, 113, 127, 131, 137, 139, 149, 151, 157, 163, 167, 173, 179,
      181, 191, 193, 197, 199, 211, 223, 227, 229, 233, 239, 241, 251, 257, 263, 269, 271, 277,
      281, 283, 293, 307, 311, 313, 317, 331, 337, 347, 349, 353, 359, 367, 373, 379, 383, 389,
      397, 401, 409, 419, 421, 431, 433, 439, 443, 449, 457, 461, 463, 467, 479, 487, 491, 499,
      503, 509, 521, 523, 541]"

text \<open>Trial division: \<open>Some\<close> when it decides.\<close>

fun trial_division :: "nat list \<Rightarrow> nat \<Rightarrow> bool option" where
  "trial_division [] n = None"
| "trial_division (p # ps) n =
     (if n = p then Some True else if n mod p = 0 then Some False else trial_division ps n)"

text \<open>\<open>n - 1 = d * 2 ^ s\<close> with \<open>d\<close> odd.\<close>

fun split_powers :: "nat \<Rightarrow> nat \<Rightarrow> nat \<times> nat" where
  "split_powers d s = (if d \<noteq> 0 \<and> even d then split_powers (d div 2) (s + 1) else (d, s))"

declare split_powers.simps [simp del]

primrec mr_squares :: "nat \<Rightarrow> int \<Rightarrow> int \<Rightarrow> bool" where
  "mr_squares 0 x n = False"
| "mr_squares (Suc k) x n =
     (let x' = pow_mod x 2 n in if x' = n - 1 then True else mr_squares k x' n)"

primrec mr_rounds :: "nat \<Rightarrow> nat \<Rightarrow> nat \<Rightarrow> nat \<Rightarrow> rng \<Rightarrow> (bool \<times> rng) option" where
  "mr_rounds 0 n d s g = Some (True, g)"
| "mr_rounds (Suc k) n d s g =
     (case randbelow (n - 3) g of
        None \<Rightarrow> None
      | Some (r, g') \<Rightarrow>
          (let x = pow_mod (int (r + 2)) d (int n) in
           if x = 1 \<or> x = int n - 1 then mr_rounds k n d s g'
           else if mr_squares (s - 1) x (int n) then mr_rounds k n d s g'
           else Some (False, g')))"

definition is_probable_prime :: "nat \<Rightarrow> nat \<Rightarrow> rng \<Rightarrow> (bool \<times> rng) option" where
  "is_probable_prime n rounds g =
     (if n < 2 then Some (False, g)
      else (case trial_division SMALL_PRIMES n of
        Some b \<Rightarrow> Some (b, g)
      | None \<Rightarrow> (case split_powers (n - 1) 0 of (d, s) \<Rightarrow> mr_rounds rounds n d s g)))"

partial_function (option) prime_loop :: "nat \<Rightarrow> nat \<Rightarrow> rng \<Rightarrow> (nat \<times> rng) option" where
  "prime_loop bits rounds g =
     (case randbits bits g of (r, g1) \<Rightarrow>
       (let candidate = Bit_Operations.or r (Bit_Operations.or (2 ^ (bits - 1)) (Bit_Operations.or (2 ^ (bits - 2)) 1))
        in Option.bind (is_probable_prime candidate rounds g1) (\<lambda>(b, g2).
             if b then Some (candidate, g2) else prime_loop bits rounds g2)))"

definition generate_prime :: "nat \<Rightarrow> nat \<Rightarrow> rng \<Rightarrow> (py_error + nat \<times> rng) option" where
  "generate_prime bits rounds g =
     (if bits < 16 then Some (Inl ValueError) else map_option Inr (prime_loop bits rounds g))"

section \<open>Keys\<close>

record rsa_public =
  rsa_n :: int
  rsa_e :: int

record rsa_private =
  rsk_n :: int
  rsk_e :: int
  rsk_d :: int
  rsk_p :: int
  rsk_q :: int
  rsk_dp :: int
  rsk_dq :: int
  rsk_qinv :: int

definition int_bit_length :: "int \<Rightarrow> nat" where
  "int_bit_length v = bit_length (nat \<bar>v\<bar>)"

definition key_size_bytes :: "int \<Rightarrow> nat" where
  "key_size_bytes n = (int_bit_length n + 7) div 8"

definition rsa_public_of :: "rsa_private \<Rightarrow> rsa_public" where
  "rsa_public_of k = \<lparr>rsa_n = rsk_n k, rsa_e = rsk_e k\<rparr>"

text \<open>\<open>pow(b, e, m)\<close> on integers.\<close>

definition pow3 :: "int \<Rightarrow> int \<Rightarrow> int \<Rightarrow> py_error + int" where
  "pow3 b e m =
     (if m = 0 then Inl ValueError
      else if 0 \<le> e then Inr (pow_mod b (nat e) m)
      else if m < 0 then Inl Unmodelled
      else map_sum id (\<lambda>x. pow_mod x (nat (- e)) m) (inv_mod b m))"

fun rsa_gcd :: "nat \<Rightarrow> nat \<Rightarrow> nat" where
  "rsa_gcd a b = (if b = 0 then a else rsa_gcd b (a mod b))"

declare rsa_gcd.simps [simp del]

definition rsa_lcm :: "nat \<Rightarrow> nat \<Rightarrow> nat" where
  "rsa_lcm a b = a div rsa_gcd a b * b"

partial_function (option) keypair_loop :: "nat \<Rightarrow> nat \<Rightarrow> rng \<Rightarrow> (py_error + rsa_private \<times> rng) option" where
  "keypair_loop bits e g =
     Option.bind (generate_prime (bits div 2) 40 g) (\<lambda>r1. case r1 of
       Inl x \<Rightarrow> Some (Inl x)
     | Inr (p, g1) \<Rightarrow>
        Option.bind (generate_prime (bits div 2) 40 g1) (\<lambda>r2. case r2 of
          Inl x \<Rightarrow> Some (Inl x)
        | Inr (q, g2) \<Rightarrow>
           (let n = p * q; lam = rsa_lcm (p - 1) (q - 1) in
            if p = q then keypair_loop bits e g2
            else if \<bar>int p - int q\<bar> < 2 ^ (bits div 2 - 100) then keypair_loop bits e g2
            else if bit_length n \<noteq> bits then keypair_loop bits e g2
            else if rsa_gcd e lam \<noteq> 1 then keypair_loop bits e g2
            else (case inv_mod (int e) (int lam) of
              Inl x \<Rightarrow> Some (Inl x)
            | Inr d \<Rightarrow>
                if int_bit_length d \<le> bits div 4 then keypair_loop bits e g2
                else (case inv_mod (int q) (int p) of
                  Inl x \<Rightarrow> Some (Inl x)
                | Inr qinv \<Rightarrow>
                    Some (Inr (\<lparr>rsk_n = int n, rsk_e = int e, rsk_d = d, rsk_p = int p, rsk_q = int q,
                      rsk_dp = d mod int (p - 1), rsk_dq = d mod int (q - 1), rsk_qinv = qinv\<rparr>, g2)))))))"

definition generate_rsa_keypair :: "nat \<Rightarrow> nat \<Rightarrow> rng \<Rightarrow> (py_error + rsa_private \<times> rng) option" where
  "generate_rsa_keypair bits e g =
     (if bits < 512 then Some (Inl ValueError) else keypair_loop bits e g)"

section \<open>Signatures\<close>

definition rsasp1 :: "rsa_private \<Rightarrow> int \<Rightarrow> py_error + int" where
  "rsasp1 key m =
     (if \<not> (0 \<le> m \<and> m < rsk_n key) then Inl ValueError
      else bind_res (pow3 m (rsk_dp key) (rsk_p key)) (\<lambda>m1.
        bind_res (pow3 m (rsk_dq key) (rsk_q key)) (\<lambda>m2.
          let h = (rsk_qinv key * (m1 - m2)) mod rsk_p key in Inr (m2 + h * rsk_q key))))"

definition rsavp1 :: "rsa_public \<Rightarrow> int \<Rightarrow> py_error + int" where
  "rsavp1 key s = (if \<not> (0 \<le> s \<and> s < rsa_n key) then Inl ValueError else pow3 s (rsa_e key) (rsa_n key))"

definition digest_info_prefix :: "string \<Rightarrow> byte list option" where
  "digest_info_prefix name = map_of
     [(''sha256'', [48, 49, 48, 13, 6, 9, 96, 134, 72, 1, 101, 3, 4, 2, 1, 5, 0, 4, 32]),
      (''sha384'', [48, 65, 48, 13, 6, 9, 96, 134, 72, 1, 101, 3, 4, 2, 2, 5, 0, 4, 48]),
      (''sha512'', [48, 81, 48, 13, 6, 9, 96, 134, 72, 1, 101, 3, 4, 2, 3, 5, 0, 4, 64])] name"

definition emsa_pkcs1_v15_encode :: "byte list \<Rightarrow> nat \<Rightarrow> string \<Rightarrow> py_error + byte list" where
  "emsa_pkcs1_v15_encode message em_len hash_name =
     (case digest_info_prefix hash_name of
        None \<Rightarrow> Inl ValueError
      | Some pre \<Rightarrow>
          bind_res (hashlib_new hash_name message) (\<lambda>dig.
            let t = pre @ dig in
            if em_len < length t + 11 then Inl ValueError
            else Inr ([0x00, 0x01] @ replicate (em_len - length t - 3) 0xff @ [0x00] @ t)))"

definition rsassa_sign :: "rsa_private \<Rightarrow> byte list \<Rightarrow> string \<Rightarrow> py_error + byte list" where
  "rsassa_sign key message hash_name =
     (let k = key_size_bytes (rsk_n key) in
      bind_res (emsa_pkcs1_v15_encode message k hash_name) (\<lambda>em.
        bind_res (rsasp1 key (bytes_to_int em)) (\<lambda>s. int_to_bytes s (Some k))))"

definition rsassa_verify :: "rsa_public \<Rightarrow> byte list \<Rightarrow> byte list \<Rightarrow> string \<Rightarrow> py_error + bool" where
  "rsassa_verify key message signature hash_name =
     (let k = key_size_bytes (rsa_n key) in
      if length signature \<noteq> k then Inr False
      else (case bind_res (rsavp1 key (bytes_to_int signature)) (\<lambda>m.
              bind_res (int_to_bytes m (Some k)) (\<lambda>em.
                bind_res (emsa_pkcs1_v15_encode message k hash_name) (\<lambda>expected. Inr (em, expected)))) of
          Inl e \<Rightarrow> if is_value_error e then Inr False else Inl e
        | Inr (em, expected) \<Rightarrow> Inr (em = expected)))"

section \<open>Every signature verifies\<close>

text \<open>What a key pair satisfies: the CRT exponents undo the public one modulo each factor.\<close>

definition rsa_key_ok :: "rsa_private \<Rightarrow> bool" where
  "rsa_key_ok k \<longleftrightarrow> 0 < rsk_p k \<and> 0 < rsk_q k \<and> rsk_n k = rsk_p k * rsk_q k \<and> coprime (rsk_p k) (rsk_q k)
     \<and> 0 \<le> rsk_e k \<and> 0 \<le> rsk_dp k \<and> 0 \<le> rsk_dq k
     \<and> fixes_powers (rsk_p k) (nat (rsk_dp k) * nat (rsk_e k))
     \<and> fixes_powers (rsk_q k) (nat (rsk_dq k) * nat (rsk_e k))
     \<and> rsk_qinv k * rsk_q k mod rsk_p k = 1 mod rsk_p k"

lemma crt_combine:
  fixes p q m1 m2 :: int
  assumes "0 < p" "0 < q" "qinv * q mod p = 1 mod p" "0 \<le> m2" "m2 < q"
  defines "s \<equiv> m2 + (qinv * (m1 - m2)) mod p * q"
  shows "0 \<le> s" "s < p * q" "s mod p = m1 mod p" "s mod q = m2 mod q"
proof -
  let ?h = "(qinv * (m1 - m2)) mod p"
  have h: "0 \<le> ?h" "?h \<le> p - 1" using assms(1) by (simp_all add: zle_diff1_eq)
  show "0 \<le> s" using h assms by (simp add: s_def)
  have "?h * q \<le> (p - 1) * q" using h assms(2) by (intro mult_right_mono) auto
  then show "s < p * q" using assms(5) by (simp add: s_def algebra_simps)
  have "s mod p = (m2 + (qinv * (m1 - m2)) * q) mod p"
    unfolding s_def by (metis mod_add_right_eq mod_mult_left_eq)
  also have "(qinv * (m1 - m2)) * q = (m1 - m2) * (qinv * q)" by (simp add: ac_simps)
  also have "(m2 + (m1 - m2) * (qinv * q)) mod p = (m2 + (m1 - m2) * 1) mod p"
    using assms(3) by (metis mod_add_right_eq mod_mult_right_eq)
  finally show "s mod p = m1 mod p" by simp
  show "s mod q = m2 mod q" by (simp add: s_def)
qed

lemma rsa_roundtrip:
  assumes k: "rsa_key_ok k" and m: "0 \<le> m" "m < rsk_n k"
  shows "\<exists>s. rsasp1 k m = Inr s \<and> 0 \<le> s \<and> s < rsk_n k \<and> rsavp1 (rsa_public_of k) s = Inr m"
proof -
  let ?p = "rsk_p k" and ?q = "rsk_q k" and ?e = "nat (rsk_e k)"
  from k have pq: "0 < ?p" "0 < ?q" "rsk_n k = ?p * ?q" "coprime ?p ?q" "0 \<le> rsk_e k" "0 \<le> rsk_dp k" "0 \<le> rsk_dq k"
    "rsk_qinv k * ?q mod ?p = 1 mod ?p"
    and fx: "fixes_powers ?p (nat (rsk_dp k) * ?e)" "fixes_powers ?q (nat (rsk_dq k) * ?e)"
    by (auto simp: rsa_key_ok_def)
  define m1 m2 where "m1 = m ^ nat (rsk_dp k) mod ?p" and "m2 = m ^ nat (rsk_dq k) mod ?q"
  define s where "s = m2 + (rsk_qinv k * (m1 - m2)) mod ?p * ?q"
  have m2: "0 \<le> m2" "m2 < ?q" using pq by (simp_all add: m2_def)
  note s = crt_combine [OF pq(1,2,8) m2, of m1, folded s_def]
  have sp: "rsasp1 k m = Inr s"
    using m pq by (simp add: rsasp1_def pow3_def pow_mod_eq m1_def m2_def s_def Let_def)
  have "s ^ ?e mod ?p = m mod ?p"
  proof -
    have "s ^ ?e mod ?p = (m ^ nat (rsk_dp k)) ^ ?e mod ?p" using s(3) by (metis m1_def mod_mod_trivial power_mod)
    then show ?thesis using fx(1) by (simp add: fixes_powers_def power_mult)
  qed
  moreover have "s ^ ?e mod ?q = m mod ?q"
  proof -
    have "s ^ ?e mod ?q = (m ^ nat (rsk_dq k)) ^ ?e mod ?q" using s(4) by (metis m2_def mod_mod_trivial power_mod)
    then show ?thesis using fx(2) by (simp add: fixes_powers_def power_mult)
  qed
  ultimately have "s ^ ?e mod rsk_n k = m mod rsk_n k" unfolding pq(3) by (rule mod_both [OF pq(4)])
  then have "rsavp1 (rsa_public_of k) s = Inr m"
    using s(1,2) pq m by (simp add: rsavp1_def rsa_public_of_def pow3_def pow_mod_eq)
  with sp s(1,2) pq(3) show ?thesis by auto
qed

lemma key_size_bounds:
  assumes "0 < n"
  shows "256 ^ (key_size_bytes n - 1) \<le> n" "n < 256 ^ key_size_bytes n"
proof -
  let ?b = "bit_length (nat n)"
  have n: "key_size_bytes n = (?b + 7) div 8" using assms by (simp add: key_size_bytes_def int_bit_length_def)
  have "nat n < 256 ^ key_size_bytes n" unfolding n by (rule bit_length_bytes)
  then show "n < 256 ^ key_size_bytes n" using assms by (simp add: nat_less_iff)
  have "8 * (key_size_bytes n - 1) \<le> ?b - 1" unfolding n by linarith
  then have "(2::nat) ^ (8 * (key_size_bytes n - 1)) \<le> 2 ^ (?b - 1)" by (intro power_increasing) auto
  also have "\<dots> \<le> nat n" using bit_length_ge [of "nat n"] assms by simp
  finally have "(256::nat) ^ (key_size_bytes n - 1) \<le> nat n" by (simp add: power_mult)
  then show "256 ^ (key_size_bytes n - 1) \<le> n" using assms by (simp add: le_nat_iff)
qed

text \<open>The hash's \<open>DigestInfo\<close> and at least eight bytes of padding fit the modulus.\<close>

definition em_fits :: "nat \<Rightarrow> string \<Rightarrow> bool" where
  "em_fits k name \<longleftrightarrow> (case (digest_info_prefix name, hash_named name) of
     (Some pre, Some h) \<Rightarrow> length pre + digest_size h + 11 \<le> k | _ \<Rightarrow> False)"

lemma emsa_encode_ok:
  assumes "em_fits k name"
  shows "\<exists>r. emsa_pkcs1_v15_encode m k name = Inr (0 # r) \<and> length r + 1 = k"
proof -
  from assms obtain pre h where p: "digest_info_prefix name = Some pre" "hash_named name = Some h"
    and k: "length pre + digest_size h + 11 \<le> k"
    by (auto simp: em_fits_def split: option.splits)
  have "length (digest h m) = digest_size h" using p(2) by (rule hash_named_length)
  with p k show ?thesis by (simp add: emsa_pkcs1_v15_encode_def hashlib_new_def Let_def)
qed

lemma rsassa_verify_sign:
  assumes k: "rsa_key_ok k" and fits: "em_fits (key_size_bytes (rsk_n k)) name"
  shows "\<exists>sig. rsassa_sign k m name = Inr sig \<and> length sig = key_size_bytes (rsk_n k)
     \<and> rsassa_verify (rsa_public_of k) m sig name = Inr True"
proof -
  let ?k = "key_size_bytes (rsk_n k)"
  have n: "0 < rsk_n k" using k by (simp add: rsa_key_ok_def)
  note b = key_size_bounds [OF n]
  from emsa_encode_ok [OF fits, of m] obtain r where
    em: "emsa_pkcs1_v15_encode m ?k name = Inr (0 # r)" "length r + 1 = ?k" by blast
  have lt: "bytes_to_int (0 # r) < rsk_n k"
  proof -
    have "int (be_nat r) < int (256 ^ length r)" using be_nat_lt [of r] by (simp only: of_nat_less_iff)
    also have "\<dots> = 256 ^ (?k - 1)" by (simp add: flip: em(2))
    also have "\<dots> \<le> rsk_n k" by (rule b(1))
    finally show ?thesis by (simp add: bytes_to_int_def be_nat_zero_Cons)
  qed
  obtain s where s: "rsasp1 k (bytes_to_int (0 # r)) = Inr s" "0 \<le> s" "s < rsk_n k"
      "rsavp1 (rsa_public_of k) s = Inr (bytes_to_int (0 # r))"
    using rsa_roundtrip [OF k _ lt] by (auto simp: bytes_to_int_def)
  have sk: "s < 256 ^ ?k" using s(3) b(2) by simp
  have e: "int_to_bytes (bytes_to_int (0 # r)) (Some ?k) = Inr (0 # r)"
  proof -
    have "bytes_to_int (0 # r) < 256 ^ ?k" using lt b(2) by simp
    moreover have "nat_be ?k (be_nat (0 # r)) = 0 # r" using nat_be_be_nat [of "0 # r"] em(2)
      by (metis One_nat_def add.right_neutral add_Suc_right list.size(4))
    ultimately show ?thesis by (simp add: int_to_bytes_fixed bytes_to_int_def)
  qed
  have "rsassa_sign k m name = Inr (nat_be ?k (nat s))"
    using s(1,2) sk by (simp add: rsassa_sign_def Let_def em(1) int_to_bytes_fixed)
  moreover have "rsassa_verify (rsa_public_of k) m (nat_be ?k (nat s)) name = Inr True"
  proof -
    have "bytes_to_int (nat_be ?k (nat s)) = s" using s(2) sk by (rule bytes_to_int_nat_be)
    moreover have "rsa_n (rsa_public_of k) = rsk_n k" by (simp add: rsa_public_of_def)
    ultimately show ?thesis by (simp add: rsassa_verify_def Let_def s(4) e em(1))
  qed
  ultimately show ?thesis by simp
qed

text \<open>A generated key satisfies \<open>rsa_key_ok\<close> when the two probable primes are odd primes.\<close>

lemma rsa_gcd_eq: "rsa_gcd a b = gcd a b"
proof (induction a b rule: rsa_gcd.induct)
  case (1 a b)
  then show ?case by (subst rsa_gcd.simps) (simp add: gcd_red_nat [symmetric] gcd.commute)
qed

lemma rsa_lcm_dvd: "a dvd rsa_lcm a b" "b dvd rsa_lcm a b"
proof -
  have "a div gcd a b * b = a * (b div gcd a b)" by (simp add: div_mult_swap dvd_div_mult)
  then show "a dvd rsa_lcm a b" by (simp add: rsa_lcm_def rsa_gcd_eq)
qed (simp add: rsa_lcm_def)

lemma exponent_fixes_powers:
  assumes p: "prime_nat p" "2 < p" and d: "int e * d mod int l = 1 mod int l" "(p - 1) dvd l"
  shows "fixes_powers (int p) (nat (d mod int (p - 1)) * e)"
proof -
  let ?d = "nat (d mod int (p - 1))"
  have "int (p - 1) dvd int l" using d(2) by (simp only: int_dvd_int_iff)
  then have "int e * d mod int (p - 1) = 1 mod int (p - 1)" using d(1) by (metis mod_mod_cancel)
  moreover have "int (?d * e) = d mod int (p - 1) * int e" using p by simp
  ultimately have "int (?d * e) mod int (p - 1) = 1 mod int (p - 1)"
    by (metis mod_mult_left_eq mult.commute)
  then have dv: "int (p - 1) dvd int (?d * e) - 1" by (simp only: mod_eq_dvd_iff)
  have nz: "?d * e \<noteq> 0"
  proof
    assume "?d * e = 0"
    with dv have "int (p - 1) dvd int 0 - 1" by (simp only:)
    moreover have "int 0 - 1 = - (1 :: int)" by simp
    ultimately have "int (p - 1) dvd - (1 :: int)" by (simp only:)
    then have "int (p - 1) dvd 1" unfolding dvd_minus_iff .
    then have "int (p - 1) \<le> 1" by (rule zdvd_imp_le) simp
    with p(2) show False by linarith
  qed
  then have ge: "1 \<le> ?d * e" by linarith
  then have "int (?d * e - 1) = int (?d * e) - int 1" by (rule of_nat_diff)
  then have "int (?d * e) - 1 = int (?d * e - 1)" unfolding of_nat_1 by (rule sym)
  with dv have "int (p - 1) dvd int (?d * e - 1)" by (simp only:)
  then have "(p - 1) dvd (?d * e - 1)" unfolding int_dvd_int_iff .
  from prime_fixes_powers [OF p(1) ge this] show ?thesis .
qed

definition odd_primes :: "rsa_private \<Rightarrow> bool" where
  "odd_primes k \<longleftrightarrow> prime_nat (nat (rsk_p k)) \<and> prime_nat (nat (rsk_q k)) \<and> 2 < rsk_p k \<and> 2 < rsk_q k"

lemma keypair_parts_ok:
  assumes pr: "prime_nat p" "prime_nat q" "2 < p" "2 < q" and "p \<noteq> q"
    and d: "inv_mod (int e) (int (rsa_lcm (p - 1) (q - 1))) = Inr d" and qi: "inv_mod (int q) (int p) = Inr qinv"
  shows "rsa_key_ok \<lparr>rsk_n = int (p * q), rsk_e = int e, rsk_d = d, rsk_p = int p, rsk_q = int q,
     rsk_dp = d mod int (p - 1), rsk_dq = d mod int (q - 1), rsk_qinv = qinv\<rparr>"
proof -
  let ?l = "rsa_lcm (p - 1) (q - 1)"
  have "?l \<noteq> 0" using pr by (auto simp: rsa_lcm_def rsa_gcd_eq div_eq_0_iff gcd_le1_nat not_less)
  then have inv: "int e * d mod int ?l = 1 mod int ?l" using inv_mod_correct(1) [OF d] by simp
  have "coprime p q"
    using prime_nat_coprime [OF pr(1), of q] prime_nat_dvd [OF pr(2), of p] pr \<open>p \<noteq> q\<close> by auto
  moreover have "qinv * int q mod int p = 1 mod int p"
    using inv_mod_correct(1) [OF qi] pr by (simp add: mult.commute)
  ultimately show ?thesis
    using exponent_fixes_powers [OF pr(1,3) inv rsa_lcm_dvd(1)] exponent_fixes_powers [OF pr(2,4) inv rsa_lcm_dvd(2)] pr
    by (simp add: rsa_key_ok_def)
qed

lemma bind_prime_D:
  "Option.bind m (\<lambda>r. case r of Inl x \<Rightarrow> Some (Inl x) | Inr (p, g1) \<Rightarrow> f p g1) = Some (Inr y)
   \<Longrightarrow> \<exists>p g1. m = Some (Inr (p, g1)) \<and> f p g1 = Some (Inr y)"
  by (cases m) (auto split: sum.splits)

lemma keypair_loop_ok:
  "keypair_loop bits e g = Some r \<Longrightarrow> (\<forall>k g'. r = Inr (k, g') \<longrightarrow> odd_primes k \<longrightarrow> rsa_key_ok k)"
proof (induction rule: keypair_loop.raw_induct [rotated, consumes 1, case_names step])
  case (step loop bits e g r)
  show ?case
  proof (intro allI impI)
    fix k g' assume r: "r = Inr (k, g')" and odd: "odd_primes k"
    from step(2) [unfolded r] obtain p g1 q g2 where
      "(let n = p * q; lam = rsa_lcm (p - 1) (q - 1) in
            if p = q then loop bits e g2
            else if \<bar>int p - int q\<bar> < 2 ^ (bits div 2 - 100) then loop bits e g2
            else if bit_length n \<noteq> bits then loop bits e g2
            else if rsa_gcd e lam \<noteq> 1 then loop bits e g2
            else (case inv_mod (int e) (int lam) of
              Inl x \<Rightarrow> Some (Inl x)
            | Inr d \<Rightarrow>
                if int_bit_length d \<le> bits div 4 then loop bits e g2
                else (case inv_mod (int q) (int p) of
                  Inl x \<Rightarrow> Some (Inl x)
                | Inr qinv \<Rightarrow>
                    Some (Inr (\<lparr>rsk_n = int n, rsk_e = int e, rsk_d = d, rsk_p = int p, rsk_q = int q,
                      rsk_dp = d mod int (p - 1), rsk_dq = d mod int (q - 1), rsk_qinv = qinv\<rparr>, g2)))))
        = Some (Inr (k, g'))"
      by (blast dest: bind_prime_D)
    then have "loop bits e g2 = Some (Inr (k, g')) \<or>
        (\<exists>d qinv. p \<noteq> q \<and> inv_mod (int e) (int (rsa_lcm (p - 1) (q - 1))) = Inr d \<and> inv_mod (int q) (int p) = Inr qinv
          \<and> k = \<lparr>rsk_n = int (p * q), rsk_e = int e, rsk_d = d, rsk_p = int p, rsk_q = int q,
               rsk_dp = d mod int (p - 1), rsk_dq = d mod int (q - 1), rsk_qinv = qinv\<rparr>)"
      by (auto simp: Let_def split: if_splits sum.splits)
    then show "rsa_key_ok k"
    proof
      assume "loop bits e g2 = Some (Inr (k, g'))"
      with step(1) odd show ?thesis by blast
    next
      assume "\<exists>d qinv. p \<noteq> q \<and> inv_mod (int e) (int (rsa_lcm (p - 1) (q - 1))) = Inr d \<and> inv_mod (int q) (int p) = Inr qinv
          \<and> k = \<lparr>rsk_n = int (p * q), rsk_e = int e, rsk_d = d, rsk_p = int p, rsk_q = int q,
               rsk_dp = d mod int (p - 1), rsk_dq = d mod int (q - 1), rsk_qinv = qinv\<rparr>"
      then obtain d qinv where d: "p \<noteq> q" "inv_mod (int e) (int (rsa_lcm (p - 1) (q - 1))) = Inr d"
          "inv_mod (int q) (int p) = Inr qinv"
        and k: "k = \<lparr>rsk_n = int (p * q), rsk_e = int e, rsk_d = d, rsk_p = int p, rsk_q = int q,
               rsk_dp = d mod int (p - 1), rsk_dq = d mod int (q - 1), rsk_qinv = qinv\<rparr>" by blast
      from odd have "prime_nat p" "prime_nat q" "2 < p" "2 < q" by (simp_all add: odd_primes_def k)
      then show ?thesis unfolding k using d by (rule keypair_parts_ok)
    qed
  qed
qed

lemma generated_key_ok:
  "generate_rsa_keypair bits e g = Some (Inr (k, g')) \<Longrightarrow> odd_primes k \<Longrightarrow> rsa_key_ok k"
  using keypair_loop_ok by (auto simp: generate_rsa_keypair_def split: if_splits)

section \<open>The property\<close>

text \<open>
  C37: Under a well-formed key whose modulus is long enough for the hash, signing always
  returns, the signature has exactly the modulus's length, and it verifies under the public
  half of the key.
\<close>

theorem rsa_signature_verifies:
  assumes "rsa_key_ok k" and "em_fits (key_size_bytes (rsk_n k)) name"
  shows "\<exists>sig. rsassa_sign k m name = Inr sig \<and> length sig = key_size_bytes (rsk_n k)
     \<and> rsassa_verify (rsa_public_of k) m sig name = Inr True"
  using assms by (rule rsassa_verify_sign)

text \<open>A well-formed key with small prime factors, for which the kernel can check the conditions.\<close>

definition small_factors_q :: "nat list" where
  "small_factors_q = [3, 11, 23, 41, 53, 71, 89, 107, 131, 149, 173, 191, 227, 239, 257, 269, 293, 317, 353, 383, 401, 431, 449, 467, 491, 509, 557, 569, 593, 617, 647, 659, 683]"

definition small_factors_p :: "nat list" where
  "small_factors_p = [5, 17, 29, 47, 59, 83, 101, 113, 137, 167, 179, 197, 233, 251, 263, 281, 311, 347, 359, 389, 419, 443, 461, 479, 503, 521, 563, 587, 599, 641, 653, 677, 701]"

definition sample_key :: rsa_private where
  "sample_key =
     \<lparr>rsk_n = 1489086015413050685008299505523342680469960779384843118330103662156781752255246904139981263756915594195037016762709294657782408680757267128547400858896715,
      rsk_e = 3,
      rsk_d = 6009450930289905242326771488833760914202121370645488718870388362667,
      rsk_p = 143726792995013001762623514020015564330580000902894657980947937701137003654855,
      rsk_q = 10360531842276051056423509910172753675003895484666981536585326897208744746333,
      rsk_dp = 622617796833896333793702280773532386058667,
      rsk_dq = 2889337748492022259753535708287927467,
      rsk_qinv = 85415123083335926987663796965786095979049061803311207302195366574436027605117\<rparr>"

lemma coprime_by_inverse: "x * q mod p = 1 mod p \<Longrightarrow> coprime p (q :: int)"
proof (rule coprimeI)
  fix c assume "x * q mod p = 1 mod p" "c dvd p" "c dvd q"
  then have "c dvd x * q - 1" by (metis dvd_trans mod_eq_dvd_iff)
  with \<open>c dvd q\<close> show "is_unit c" by (metis dvd_diff_right_iff dvd_mult)
qed

lemma prime_nat_trial:
  assumes "1 < p" "p < 27 * 27" "list_all (\<lambda>d. p \<le> d \<or> p mod d \<noteq> 0)
    [2, 3, 4, 5, 6, 7, 8, 9, 10, 11, 12, 13, 14, 15, 16, 17, 18, 19, 20, 21, 22, 23, 24, 25, 26]"
  shows "prime_nat p"
proof (unfold prime_nat_def, intro conjI ballI notI assms(1))
  fix d assume d: "d \<in> {2..<p}" "d dvd p"
  then obtain c where c: "p = d * c" by blast
  have small: "\<not> x dvd p" if "x \<in> {2..<p}" "x < 27" for x
  proof -
    have "[2..<27] = [2, 3, 4, 5, 6, 7, 8, 9, 10, 11, 12, 13, 14, 15, 16, 17, 18, 19, 20, 21, 22, 23, 24, 25, 26]"
      by (simp add: upt_rec_numeral)
    moreover have "x \<in> set [2..<27]" using that by (simp only: set_upt) simp
    ultimately have "x \<in> set [2, 3, 4, 5, 6, 7, 8, 9, 10, 11, 12, 13, 14, 15, 16, 17, 18, 19, 20, 21, 22, 23, 24, 25, 26]"
      by (simp only:)
    with assms(3) have "p \<le> x \<or> p mod x \<noteq> 0" unfolding list_all_iff by blast
    with that show ?thesis by (auto simp: dvd_eq_mod_eq_0)
  qed
  have "d < 27 \<or> c < 27"
  proof (rule ccontr)
    assume "\<not> (d < 27 \<or> c < 27)"
    then have "27 * 27 \<le> d * c" by (intro mult_le_mono) auto
    with assms(2) c show False by simp
  qed
  then show False
  proof
    assume "d < 27"
    with small [OF d(1)] d(2) show False by blast
  next
    assume "c < 27"
    moreover have "c \<in> {2..<p}"
    proof -
      have "c \<noteq> 0" "c \<noteq> 1" using c d(1) by auto
      moreover have "c < p" using c d(1) \<open>c \<noteq> 0\<close> by simp
      ultimately show ?thesis by auto
    qed
    ultimately show False using small [of c] c by simp
  qed
qed

lemma small_factors_prime: "list_all prime_nat small_factors_p" "list_all prime_nat small_factors_q"
  by (simp_all add: small_factors_q_def small_factors_p_def prime_nat_trial)

lemma list_all_quotients:
  "list_all2 (\<lambda>r c. n = (r - 1) * c) rs cs \<Longrightarrow> list_all (\<lambda>r. (r - 1 :: nat) dvd n) rs"
  by (induction rule: list_all2_induct) auto

lemma small_factors_exponents:
  "list_all (\<lambda>r. (r - 1) dvd (nat (rsk_dp sample_key) * 3 - 1)) small_factors_p"
  "list_all (\<lambda>r. (r - 1) dvd (nat (rsk_dq sample_key) * 3 - 1)) small_factors_q"
proof -
  show "list_all (\<lambda>r. (r - 1) dvd (nat (rsk_dp sample_key) * 3 - 1)) small_factors_p"
    by (rule list_all_quotients [where cs = "[466963347625422250345276710580149289544000, 116740836906355562586319177645037322386000, 66709049660774607192182387225735612792000, 40605508489167152203937105267839068656000, 32204368801753258644501842108975813072000, 22778699884166939041233010272202404368000, 18678533905016890013811068423205971581760, 16677262415193651798045596806433903198000, 13734216106630066186625785605298508516000, 11252128858443909646874137604340946736000, 10493558373604994389781499114160658192000, 9529864237253515313168912460819373256000, 8051092200438314661125460527243953268000, 7471413562006756005524427369282388632704, 7129211414128583974737049016490828848000, 6670904966077460719218238722573561279200, 6025333517747383875422925297808377929600, 5398420203762106940407823243701147856000, 5217467571233768160282421347264237872000, 4814055130158992271600790830723188552000, 4468548781104519142060064216077983632000, 4225912648193866518961780186245694928000, 4060550848916715220393710526783906865600, 3907643076363366111675955737072378992000, 3720823487055157373269137136096807088000, 3592025750964786541117513158308840688800, 3323582545376670820962823562848037648000, 3187463123723018773687895635359380816000, 3123500653012857861841315789833774512000, 2918520922658889064657979441125933059650, 2864805813652897241382065709080670488000, 2763096731511374262398087044852954376000, 2668361986430984287687295489029424511680]"])
       (simp add: small_factors_p_def sample_key_def)
  show "list_all (\<lambda>r. (r - 1) dvd (nat (rsk_dq sample_key) * 3 - 1)) small_factors_q"
    by (rule list_all_quotients [where cs = "[4334006622738033389630303562431891200, 866801324547606677926060712486378240, 394000602067093944511845778402899200, 216700331136901669481515178121594560, 166692562413001284216550137016611200, 123828760649658096846580101783768320, 98500150516773486127961444600724800, 81773709862981762068496293630790400, 66677024965200513686620054806644480, 58567657064027478238247345438268800, 50395425845791085925933762353859200, 45621122344610877785582142762440960, 38354040909186136191418615596742400, 36420223720487675543111794642284800, 33859426740140885856486746581499150, 32343333005507711862912713152476800, 29684976868068721846782901112547200, 27430421662898945503989263053366400, 24625037629193371531990361150181200, 22691134150460907799111536976083200, 21670033113690166948151517812159456, 20158170338316434370373504941543680, 19348243851509077632278140903713800, 18600886792867096092833920868806400, 17689822949951156692368585969109760, 17063018199756036967048439222172800, 15589951880352638092195336555510400, 15260586699781807709965857614196800, 14641914266006869559561836359567200, 14071450073824783732565920657246400, 13417977160179669936935924341894400, 13173272409538095409210649125932800, 12709696840873998210059541238803200]"])
       (simp add: small_factors_q_def sample_key_def)
qed

lemma key_size_unique:
  assumes "256 ^ (k - 1) \<le> n" "n < 256 ^ k" "0 < (n :: int)"
  shows "key_size_bytes n = k"
proof -
  note b = key_size_bounds [OF assms(3)]
  from b(1) assms(2) have "(256 :: int) ^ (key_size_bytes n - 1) < 256 ^ k" by linarith
  then have "key_size_bytes n - 1 < k" by (rule power_less_imp_less_exp [rotated]) simp
  moreover from b(2) assms(1) have "(256 :: int) ^ (k - 1) < 256 ^ key_size_bytes n" by linarith
  then have "k - 1 < key_size_bytes n" by (rule power_less_imp_less_exp [rotated]) simp
  ultimately show ?thesis by linarith
qed

lemma sample_key_parts:
  "rsk_p sample_key = int (prod_list small_factors_p)" "rsk_q sample_key = int (prod_list small_factors_q)"
  "rsk_n sample_key = rsk_p sample_key * rsk_q sample_key" "0 < rsk_p sample_key" "0 < rsk_q sample_key"
  "rsk_e sample_key = 3" "0 \<le> rsk_dp sample_key" "0 \<le> rsk_dq sample_key"
  "1 \<le> nat (rsk_dp sample_key) * 3" "1 \<le> nat (rsk_dq sample_key) * 3"
  "distinct small_factors_p" "distinct small_factors_q"
  by (simp_all add: sample_key_def small_factors_q_def small_factors_p_def)

lemma sample_key_inverse: "rsk_qinv sample_key * rsk_q sample_key mod rsk_p sample_key = 1 mod rsk_p sample_key"
proof -
  have "rsk_qinv sample_key * rsk_q sample_key = 1 + rsk_p sample_key * 6157140809142910998246871390412843951621813879229266841108964936892000177752"
    by (simp add: sample_key_def)
  then show ?thesis by (simp only: mod_mult_self2)
qed

lemma sample_key_ok: "rsa_key_ok sample_key"
proof -
  have "list_all (\<lambda>r. prime_nat r \<and> (r - 1) dvd (nat (rsk_dp sample_key) * 3 - 1)) small_factors_p"
    "list_all (\<lambda>r. prime_nat r \<and> (r - 1) dvd (nat (rsk_dq sample_key) * 3 - 1)) small_factors_q"
    using small_factors_prime small_factors_exponents unfolding list_all_iff by blast+
  then have "fixes_powers (rsk_p sample_key) (nat (rsk_dp sample_key) * 3)"
    "fixes_powers (rsk_q sample_key) (nat (rsk_dq sample_key) * 3)"
    unfolding sample_key_parts(1,2)
    using fixes_powers_primes [OF sample_key_parts(11) _ sample_key_parts(9)]
      fixes_powers_primes [OF sample_key_parts(12) _ sample_key_parts(10)] by blast+
  moreover have "nat (rsk_e sample_key) = 3" "0 \<le> rsk_e sample_key" by (simp_all add: sample_key_parts(6))
  ultimately show ?thesis
    using coprime_by_inverse [OF sample_key_inverse] sample_key_inverse sample_key_parts(3-5,7,8)
    unfolding rsa_key_ok_def by metis
qed

lemma sample_key_size: "key_size_bytes (rsk_n sample_key) = 64"
  by (rule key_size_unique) (simp_all add: sample_key_def)

theorem rsa_signature_verifies_witness:
  "\<exists>sig. rsassa_sign sample_key [1, 2, 3] ''sha256'' = Inr sig \<and> length sig = key_size_bytes (rsk_n sample_key)
     \<and> rsassa_verify (rsa_public_of sample_key) [1, 2, 3] sig ''sha256'' = Inr True"
  by (rule rsa_signature_verifies [OF sample_key_ok])
     (simp add: sample_key_size em_fits_def digest_info_prefix_def hash_named_def)

end
