(* ===== verification/Mfa.thy ===== *)
theory Mfa
  imports Hashing Urls
begin

text \<open>
  \<open>authlab/mfa\<close>: one-time passwords (\<open>hotp.py\<close>, \<open>totp.py\<close>) and recovery codes
  (\<open>recovery.py\<close>).  The clock is the argument \<open>now\<close> of a call, the random source a tape.
\<close>

section \<open>HOTP\<close>

text \<open>\<open>str(n).zfill(digits)\<close> for a natural number.\<close>

definition zfill :: "nat \<Rightarrow> string \<Rightarrow> string" where
  "zfill d s = replicate (d - length s) CHR ''0'' @ s"

definition hotp :: "byte list \<Rightarrow> int \<Rightarrow> int \<Rightarrow> string \<Rightarrow> py_error + string" where
  "hotp secret counter digits algorithm =
     (if counter < 0 then Inl ValueError
      else if \<not> (6 \<le> digits \<and> digits \<le> 10) then Inl ValueError
      else if counter \<ge> 2 ^ 64 then Inl StructError
      else bind_res (hmac_new algorithm secret (nat_be 8 (nat counter))) (\<lambda>mac.
        let offset = unat (last mac) mod 16;
            truncated = be_nat (take 4 (drop offset mac)) mod 2 ^ 31
        in Inr (zfill (nat digits) (nat_digits (truncated mod 10 ^ nat digits)))))"

text \<open>Try the candidates in order; an exception ends the scan.\<close>

fun first_match :: "('a \<Rightarrow> 'e + bool) \<Rightarrow> 'a list \<Rightarrow> 'e + 'a option" where
  "first_match f [] = Inr None"
| "first_match f (x # xs) =
     bind_res (f x) (\<lambda>b. if b then Inr (Some x) else first_match f xs)"

definition hotp_verify ::
  "byte list \<Rightarrow> string \<Rightarrow> int \<Rightarrow> int \<Rightarrow> string \<Rightarrow> int \<Rightarrow> py_error + int option" where
  "hotp_verify secret code counter digits algorithm look_ahead =
     first_match (\<lambda>c. bind_res (hotp secret c digits algorithm)
         (\<lambda>expected. Inr (constant_time_equals expected code)))
       (map (\<lambda>offset. counter + offset) [0..look_ahead])"

section \<open>TOTP\<close>

definition timecode :: "int \<Rightarrow> int \<Rightarrow> int \<Rightarrow> py_error + int" where
  "timecode now period t0 = (if period = 0 then Inl ZeroDivisionError else Inr ((now - t0) div period))"

definition totp :: "byte list \<Rightarrow> int \<Rightarrow> int \<Rightarrow> int \<Rightarrow> string \<Rightarrow> int \<Rightarrow> py_error + string" where
  "totp secret now period digits algorithm t0 =
     bind_res (timecode now period t0) (\<lambda>c. hotp secret c digits algorithm)"

definition totp_verify ::
  "byte list \<Rightarrow> string \<Rightarrow> int \<Rightarrow> int \<Rightarrow> int \<Rightarrow> string \<Rightarrow> int \<Rightarrow> int \<Rightarrow> py_error + int option" where
  "totp_verify secret code now period digits algorithm window t0 =
     bind_res (timecode now period t0) (\<lambda>current.
       first_match (\<lambda>step. if step < 0 then Inr False
           else bind_res (hotp_verify secret code step digits algorithm 0) (\<lambda>r. Inr (r \<noteq> None)))
         (map (\<lambda>drift. current + drift) [- window..window]))"

text \<open>Unpadded base32.\<close>

definition b32_char :: "nat \<Rightarrow> char" where
  "b32_char n = (if n < 26 then char_of (65 + n) else char_of (24 + n))"

definition b32_unpadded :: "byte list \<Rightarrow> string" where
  "b32_unpadded bs =
     (let n = length bs; k = (8 * n + 4) div 5; v = be_nat bs * 2 ^ (5 * k - 8 * n)
      in map (\<lambda>i. b32_char (v div 32 ^ (k - 1 - i) mod 32)) [0..<k])"

definition provisioning_uri ::
  "byte list \<Rightarrow> string \<Rightarrow> string \<Rightarrow> int \<Rightarrow> int \<Rightarrow> string \<Rightarrow> string" where
  "provisioning_uri secret account_name issuer period digits algorithm =
     ''otpauth://totp/'' @ quote '''' (issuer @ '':'' @ account_name) @ ''?''
     @ urlencode [(''secret'', PStr (b32_unpadded secret)), (''issuer'', PStr issuer),
         (''algorithm'', PStr (upper algorithm)), (''digits'', PInt digits), (''period'', PInt period)]"

record totp_state =
  t_secret :: "byte list"
  t_period :: int
  t_digits :: int
  t_algorithm :: string
  t_window :: int
  t_last_step :: "int option"

definition totp_generate :: "rng \<Rightarrow> totp_state \<times> rng" where
  "totp_generate g =
     (case random_bytes 20 g of (secret, g') \<Rightarrow>
       (\<lparr>t_secret = secret, t_period = 30, t_digits = 6, t_algorithm = ''sha1'', t_window = 1,
         t_last_step = None\<rparr>, g'))"

definition now_code :: "totp_state \<Rightarrow> int \<Rightarrow> py_error + string" where
  "now_code t now = totp (t_secret t) now (t_period t) (t_digits t) (t_algorithm t) 0"

definition seconds_remaining :: "totp_state \<Rightarrow> int \<Rightarrow> py_error + int" where
  "seconds_remaining t now =
     (if t_period t = 0 then Inl ZeroDivisionError else Inr (t_period t - now mod t_period t))"

definition totp_check :: "totp_state \<Rightarrow> string \<Rightarrow> int \<Rightarrow> (py_error + bool) \<times> totp_state" where
  "totp_check t code now =
     (case totp_verify (t_secret t) (remove_char CHR '' '' (strip code)) now (t_period t) (t_digits t)
         (t_algorithm t) (t_window t) 0 of
        Inl e \<Rightarrow> (Inl e, t)
      | Inr None \<Rightarrow> (Inr False, t)
      | Inr (Some step) \<Rightarrow>
          (case t_last_step t of
             Some l \<Rightarrow> if step \<le> l then (Inr False, t) else (Inr True, t\<lparr>t_last_step := Some step\<rparr>)
           | None \<Rightarrow> (Inr True, t\<lparr>t_last_step := Some step\<rparr>)))"

section \<open>Recovery codes\<close>

definition RECOVERY_ALPHABET :: string where
  "RECOVERY_ALPHABET = ''0123456789ABCDEFGHJKMNPQRSTVWXYZ''"

definition format_code :: "byte list \<Rightarrow> string" where
  "format_code raw =
     (let text = map (\<lambda>i. RECOVERY_ALPHABET ! (be_nat raw div 32 ^ i mod 32)) [0..<10]
      in take 5 text @ ''-'' @ drop 5 text)"

definition normalise :: "string \<Rightarrow> string" where
  "normalise code = remove_char CHR '' '' (remove_char CHR ''-'' (upper (strip code)))"

record recovery_codes =
  rc_hashes :: "(byte list \<times> byte list) list"
  rc_used :: "nat set"

definition recovery_digest :: "byte list \<Rightarrow> string \<Rightarrow> py_error + byte list" where
  "recovery_digest salt code =
     bind_res (ascii_encode (normalise code)) (\<lambda>bs. Inr (sha256 (salt @ bs)))"

fun generate_loop :: "nat \<Rightarrow> (byte list \<times> byte list) list \<Rightarrow> string list \<Rightarrow> rng
    \<Rightarrow> py_error + ((byte list \<times> byte list) list \<times> string list) \<times> rng" where
  "generate_loop 0 hs plain g = Inr ((hs, plain), g)"
| "generate_loop (Suc n) hs plain g =
     (case random_bytes 10 g of (raw, g1) \<Rightarrow>
       (case random_bytes 16 g1 of (salt, g2) \<Rightarrow>
         bind_res (recovery_digest salt (format_code raw)) (\<lambda>d.
           generate_loop n (hs @ [(salt, d)]) (plain @ [format_code raw]) g2)))"

definition recovery_generate :: "nat \<Rightarrow> rng \<Rightarrow> py_error + (recovery_codes \<times> string list) \<times> rng" where
  "recovery_generate count g =
     bind_res (generate_loop count [] [] g) (\<lambda>((hs, plain), g').
       Inr ((\<lparr>rc_hashes = hs, rc_used = {}\<rparr>, plain), g'))"

text \<open>One round of the scan: every entry is hashed, only the first unused match is burned.\<close>

definition consume_step ::
  "string \<Rightarrow> nat \<times> byte list \<times> byte list \<Rightarrow> bool \<times> nat set \<Rightarrow> py_error + (bool \<times> nat set)" where
  "consume_step code entry acc =
     (case (entry, acc) of ((index, salt, d), (matched, used)) \<Rightarrow>
       bind_res (recovery_digest salt code) (\<lambda>x.
         Inr (if x = d \<and> index \<notin> used \<and> \<not> matched then (True, insert index used) else (matched, used))))"

definition consume :: "recovery_codes \<Rightarrow> string \<Rightarrow> (py_error + bool) \<times> recovery_codes" where
  "consume s code =
     (case fold_res (consume_step code) (zip [0..<length (rc_hashes s)] (rc_hashes s)) (False, rc_used s) of
        Inl e \<Rightarrow> (Inl e, s)
      | Inr (matched, used) \<Rightarrow> (Inr matched, s\<lparr>rc_used := used\<rparr>))"

definition remaining :: "recovery_codes \<Rightarrow> int" where
  "remaining s = int (length (rc_hashes s)) - int (card (rc_used s))"

section \<open>The shape of a code\<close>

lemma length_nat_digits: "n < 10 ^ k \<Longrightarrow> 0 < k \<Longrightarrow> length (nat_digits n) \<le> k"
proof (induction n arbitrary: k rule: nat_digits.induct)
  case (1 n)
  show ?case
  proof (cases "n < 10")
    case True
    with 1 show ?thesis by (subst nat_digits.simps) simp
  next
    case False
    with 1 have k: "k \<noteq> 1" by (intro notI) simp
    with 1(3) obtain j where j: "k = Suc j" "0 < j" by (cases k) auto
    with 1(2) have "n div 10 < 10 ^ j" by (auto intro: less_mult_imp_div_less simp: mult.commute)
    with 1(1) [OF False _ j(2)] False j show ?thesis by (subst nat_digits.simps) simp
  qed
qed

lemma nat_digits_digits: "list_all is_digit (nat_digits n)"
proof (induction n rule: nat_digits.induct)
  case (1 n)
  have "n mod 10 < 10" by simp
  then have "48 + n mod 10 < 256" by linarith
  moreover have "is_digit (char_of (48 + n mod 10))" "n < 10 \<Longrightarrow> is_digit (char_of (48 + n))"
    using \<open>n mod 10 < 10\<close> by (simp_all add: is_digit_def of_char_char_of)
  ultimately show ?case using 1 by (subst nat_digits.simps) simp
qed

lemma zfill_shape:
  "length s \<le> d \<Longrightarrow> list_all is_digit s \<Longrightarrow> length (zfill d s) = d \<and> list_all is_digit (zfill d s)"
  by (auto simp: zfill_def list_all_iff) (simp add: is_digit_def)

text \<open>
  \<open>hotp\<close> returns exactly when the counter fits eight bytes, the number of digits is between
  6 and 10 and the hash is one of the library's, and then the code has that many characters,
  all decimal digits: the truncated value is zero-padded, never shortened.
\<close>

theorem hotp_code_shape:
  "isOk (hotp secret c d alg) = (0 \<le> c \<and> c < 2 ^ 64 \<and> 6 \<le> d \<and> d \<le> 10 \<and> hash_named alg \<noteq> None)
   \<and> {code. hotp secret c d alg = Inr code} \<subseteq> {code. int (length code) = d \<and> list_all is_digit code}"
proof -
  have shape: "int (length (zfill (nat d) (nat_digits (t mod 10 ^ nat d)))) = d
      \<and> list_all is_digit (zfill (nat d) (nat_digits (t mod 10 ^ nat d)))" if "6 \<le> d" for t
  proof -
    have "length (nat_digits (t mod 10 ^ nat d)) \<le> nat d" using that by (intro length_nat_digits) auto
    from zfill_shape [OF this nat_digits_digits] that show ?thesis by simp
  qed
  show ?thesis
    using shape by (auto simp: hotp_def isOk_def hmac_new_def Let_def split: option.splits)
qed

section \<open>A one-time password is accepted once\<close>

text \<open>The steps a sequence of \<open>verify\<close> calls accepts.\<close>

definition accepted_step :: "totp_state \<Rightarrow> string \<Rightarrow> int \<Rightarrow> int option" where
  "accepted_step t code now =
     (case totp_check t code now of (Inr True, t') \<Rightarrow> t_last_step t' | _ \<Rightarrow> None)"

fun accepted :: "totp_state \<Rightarrow> (string \<times> int) list \<Rightarrow> int list" where
  "accepted t [] = []"
| "accepted t ((code, now) # calls) =
     (case accepted_step t code now of None \<Rightarrow> [] | Some s \<Rightarrow> [s])
     @ accepted (snd (totp_check t code now)) calls"

lemma first_match_SomeD: "first_match f xs = Inr (Some x) \<Longrightarrow> x \<in> set xs \<and> f x = Inr True"
  by (induction xs) (auto elim!: bind_res_InrE split: if_splits)

lemma hotp_verify_SomeD:
  "hotp_verify secret code c d alg 0 = Inr (Some x) \<Longrightarrow> x = c \<and> hotp secret c d alg = Inr code"
  unfolding hotp_verify_def by (drule first_match_SomeD) (auto elim!: bind_res_InrE)

lemma totp_verify_SomeD:
  assumes "totp_verify secret code now p d alg w 0 = Inr (Some s)"
  shows "\<bar>s - now div p\<bar> \<le> w" "0 \<le> s" "hotp secret s d alg = Inr code"
proof -
  from assms have "s \<in> set (map (\<lambda>drift. now div p + drift) [- w..w])"
    and "(if s < 0 then Inr False else bind_res (hotp_verify secret code s d alg 0) (\<lambda>r. Inr (r \<noteq> None)))
      = (Inr True :: py_error + bool)"
    by (auto simp: totp_verify_def timecode_def dest!: first_match_SomeD split: if_splits)
  then show "\<bar>s - now div p\<bar> \<le> w" "0 \<le> s" "hotp secret s d alg = Inr code"
    by (auto elim!: bind_res_InrE dest: hotp_verify_SomeD split: if_splits)
qed

lemma totp_check_cases:
  obtains (kept) "snd (totp_check t code now) = t" "accepted_step t code now = None"
  | (accepted) s where "snd (totp_check t code now) = t\<lparr>t_last_step := Some s\<rparr>"
      "accepted_step t code now = Some s" "set_option (t_last_step t) \<subseteq> {..<s}"
      "totp_verify (t_secret t) (remove_char CHR '' '' (strip code)) now (t_period t) (t_digits t)
         (t_algorithm t) (t_window t) 0 = Inr (Some s)"
proof (cases "totp_verify (t_secret t) (remove_char CHR '' '' (strip code)) now (t_period t) (t_digits t)
         (t_algorithm t) (t_window t) 0")
  case (Inl e)
  then show thesis using kept by (simp add: totp_check_def accepted_step_def)
next
  case (Inr r)
  show thesis
  proof (cases r)
    case None
    with Inr show thesis using kept by (simp add: totp_check_def accepted_step_def)
  next
    case (Some s)
    show thesis
    proof (cases "set_option (t_last_step t) \<subseteq> {..<s}")
      case True
      with Inr Some show thesis
        using accepted by (cases "t_last_step t") (simp_all add: totp_check_def accepted_step_def)
    next
      case False
      with Inr Some show thesis
        using kept by (cases "t_last_step t") (auto simp: totp_check_def accepted_step_def)
    qed
  qed
qed

lemma accepted_sorted:
  "sorted_wrt (<) (accepted t calls) \<and> (\<forall>l. t_last_step t = Some l \<longrightarrow> (\<forall>s \<in> set (accepted t calls). l < s))"
proof (induction t calls rule: accepted.induct)
  case (2 t code now calls)
  show ?case
  proof (cases rule: totp_check_cases [of t code now])
    case kept
    with 2 show ?thesis by simp
  next
    case (accepted s)
    with 2 show ?thesis by (auto simp: less_trans)
  qed
qed simp

text \<open>
  C34: Replay refusal.  Over any sequence of \<open>verify\<close> calls, with any codes at any times
  (a clock that runs backwards included), the accepted time steps are strictly increasing,
  so no step is accepted twice; and a step accepted at some time is within the window of
  that time, is above the last accepted one, and its HOTP value is the presented code.
\<close>

theorem totp_accepts_once:
  "sorted_wrt (<) (accepted t calls)
   \<and> set_option (accepted_step t code now) \<subseteq>
       {s. \<bar>s - now div t_period t\<bar> \<le> t_window t \<and> set_option (t_last_step t) \<subseteq> {..<s}
         \<and> hotp (t_secret t) s (t_digits t) (t_algorithm t) = Inr (remove_char CHR '' '' (strip code))}"
  using accepted_sorted [of t calls]
  by (cases rule: totp_check_cases [of t code now]) (auto dest: totp_verify_SomeD)

section \<open>A recovery code is burned once\<close>

lemma consume_fold:
  assumes "ascii_encode (normalise code) = Inr bs"
  shows "fold_res (consume_step code) es (m, u) = Inr (if m then (True, u) else
     (case find (\<lambda>(i, salt, d). sha256 (salt @ bs) = d \<and> i \<notin> u) es of
        None \<Rightarrow> (False, u) | Some (i, _) \<Rightarrow> (True, insert i u)))"
proof (induction es arbitrary: m u)
  case (Cons e es)
  obtain i salt d where e: "e = (i, salt, d)" by (cases e)
  have step: "consume_step code e (m, u) =
      Inr (if sha256 (salt @ bs) = d \<and> i \<notin> u \<and> \<not> m then (True, insert i u) else (m, u))" for m
    by (simp add: e consume_step_def recovery_digest_def assms)
  show ?case by (cases m) (simp_all add: step [unfolded e] Cons.IH e)
qed simp

lemma consume_fold_error:
  assumes "ascii_encode (normalise code) = Inl x"
  shows "fold_res (consume_step code) es acc = (case es of [] \<Rightarrow> Inr acc | _ \<Rightarrow> Inl x)"
  by (cases es; cases acc) (simp_all add: consume_step_def recovery_digest_def assms case_prod_beta)

definition unused_match :: "recovery_codes \<Rightarrow> byte list \<Rightarrow> (nat \<times> byte list \<times> byte list) option" where
  "unused_match s bs =
     find (\<lambda>(i, salt, d). sha256 (salt @ bs) = d \<and> i \<notin> rc_used s)
       (zip [0..<length (rc_hashes s)] (rc_hashes s))"

lemma consume_eq:
  "consume s code =
     (case ascii_encode (normalise code) of
        Inl x \<Rightarrow> if rc_hashes s = [] then (Inr False, s) else (Inl x, s)
      | Inr bs \<Rightarrow> (case unused_match s bs of None \<Rightarrow> (Inr False, s)
          | Some (i, _) \<Rightarrow> (Inr True, s\<lparr>rc_used := insert i (rc_used s)\<rparr>)))"
  by (auto simp: consume_def consume_fold consume_fold_error unused_match_def
      split: sum.splits option.splits list.splits)

text \<open>The number of successful calls in a sequence.\<close>

fun successes :: "recovery_codes \<Rightarrow> string list \<Rightarrow> nat" where
  "successes s [] = 0"
| "successes s (c # cs) =
     (case consume s c of (r, s') \<Rightarrow> (if r = Inr True then 1 else 0) + successes s' cs)"

lemma consume_cases:
  obtains (refused) r where "consume s code = (r, s)" "r \<noteq> Inr True"
  | (burned) i where "consume s code = (Inr True, s\<lparr>rc_used := insert i (rc_used s)\<rparr>)"
      "i < length (rc_hashes s)" "i \<notin> rc_used s"
proof (cases "ascii_encode (normalise code)")
  case (Inl x)
  then show ?thesis using refused by (cases "rc_hashes s = []") (simp_all add: consume_eq)
next
  case (Inr bs)
  show ?thesis
  proof (cases "unused_match s bs")
    case None
    with Inr show ?thesis using refused by (simp add: consume_eq)
  next
    case (Some e)
    then have "fst e < length (rc_hashes s)" "fst e \<notin> rc_used s"
      by (auto simp: unused_match_def find_Some_iff case_prod_beta)
    moreover have "consume s code = (Inr True, s\<lparr>rc_used := insert (fst e) (rc_used s)\<rparr>)"
      using Inr Some by (simp add: consume_eq case_prod_beta)
    ultimately show ?thesis using burned by blast
  qed
qed

lemma successes_le:
  "rc_used s \<subseteq> {..<length (rc_hashes s)} \<Longrightarrow> successes s cs + card (rc_used s) \<le> length (rc_hashes s)"
proof (induction cs arbitrary: s)
  case Nil
  then show ?case using card_mono [of "{..<length (rc_hashes s)}" "rc_used s"] by simp
next
  case (Cons c cs)
  show ?case
  proof (cases rule: consume_cases [of s c])
    case (refused r)
    with Cons show ?thesis by simp
  next
    case (burned i)
    have "finite (rc_used s)" using Cons.prems finite_subset by blast
    with Cons.IH [of "s\<lparr>rc_used := insert i (rc_used s)\<rparr>"] Cons.prems burned show ?thesis by simp
  qed
qed

text \<open>
  C35: Whatever codes are presented in whatever order, a set of recovery codes is accepted at
  most as many times as it has entries, and a call that succeeds burns one unused entry.
\<close>

theorem recovery_codes_are_single_use:
  "successes \<lparr>rc_hashes = hs, rc_used = {}\<rparr> codes \<le> length hs
   \<and> (\<exists>i. consume s code = (Inr True, s\<lparr>rc_used := insert i (rc_used s)\<rparr>) \<and> i \<notin> rc_used s
        \<or> snd (consume s code) = s \<and> fst (consume s code) \<noteq> Inr True)"
  using successes_le [of "\<lparr>rc_hashes = hs, rc_used = {}\<rparr>" codes]
  by (cases rule: consume_cases [of s code]) auto

end
