(* ===== verification/Der.thy ===== *)
theory Der
  imports Encoding
begin

text \<open>
  \<open>authlab/crypto/asn1.py\<close>: the DER encodings the program writes, and the DER reader of
  \<open>authlab/crypto/ec.py\<close> for ECDSA signatures.
\<close>

section \<open>Writing\<close>

definition der_length :: "nat \<Rightarrow> py_error + byte list" where
  "der_length n =
     (if n < 0x80 then Inr [of_nat n]
      else bind_res (int_to_bytes (int n) None) (\<lambda>body.
        if Bit_Operations.or 0x80 (length body) < 256
        then Inr (of_nat (Bit_Operations.or 0x80 (length body)) # body) else Inl ValueError))"

definition tlv :: "byte \<Rightarrow> byte list \<Rightarrow> py_error + byte list" where
  "tlv tag v = map_sum id (\<lambda>l. tag # l @ v) (der_length (length v))"

definition der_integer :: "int \<Rightarrow> py_error + byte list" where
  "der_integer v =
     bind_res (int_to_bytes v None) (\<lambda>body.
       tlv 0x02 (if unat (hd body) \<ge> 128 then 0 # body else body))"

definition der_sequence :: "byte list list \<Rightarrow> py_error + byte list" where
  "der_sequence items = tlv 0x30 (concat items)"

definition der_null :: "byte list" where
  "der_null = [0x05, 0x00]"

definition der_bit_string :: "byte list \<Rightarrow> py_error + byte list" where
  "der_bit_string d = tlv 0x03 (0 # d)"

definition der_octet_string :: "byte list \<Rightarrow> py_error + byte list" where
  "der_octet_string d = tlv 0x04 d"

text \<open>One arc of an object identifier, base 128 with continuation bits.\<close>

fun oid_tail :: "nat \<Rightarrow> byte list \<Rightarrow> byte list" where
  "oid_tail part acc = (if part = 0 then acc else oid_tail (part div 128) (of_nat (part mod 128 + 128) # acc))"

declare oid_tail.simps [simp del]

definition oid_arc :: "nat \<Rightarrow> byte list" where
  "oid_arc part = oid_tail (part div 128) [of_nat (part mod 128)]"

definition der_oid :: "nat list \<Rightarrow> py_error + byte list" where
  "der_oid parts =
     (case parts of
        a # b # rest \<Rightarrow>
          (if a * 40 + b < 256 then tlv 0x06 (of_nat (a * 40 + b) # concat (map oid_arc rest)) else Inl ValueError)
      | _ \<Rightarrow> Inl IndexError)"

definition RSA_ENCRYPTION_OID :: "nat list" where
  "RSA_ENCRYPTION_OID = [1, 2, 840, 113549, 1, 1, 1]"

definition der_encode_rsa_public_key :: "int \<Rightarrow> int \<Rightarrow> bool \<Rightarrow> py_error + byte list" where
  "der_encode_rsa_public_key n e pkcs8 =
     bind_res (map_res der_integer [n, e]) (\<lambda>items. bind_res (der_sequence items) (\<lambda>pkcs1.
       if \<not> pkcs8 then Inr pkcs1
       else bind_res (der_oid RSA_ENCRYPTION_OID) (\<lambda>oid. bind_res (der_sequence [oid, der_null]) (\<lambda>alg.
         bind_res (der_bit_string pkcs1) (\<lambda>bits. der_sequence [alg, bits])))))"

definition der_encode_rsa_private_key :: "int list \<Rightarrow> bool \<Rightarrow> py_error + byte list" where
  "der_encode_rsa_private_key numbers pkcs8 =
     bind_res (map_res der_integer (0 # numbers)) (\<lambda>items. bind_res (der_sequence items) (\<lambda>pkcs1.
       if \<not> pkcs8 then Inr pkcs1
       else bind_res (der_oid RSA_ENCRYPTION_OID) (\<lambda>oid. bind_res (der_sequence [oid, der_null]) (\<lambda>alg.
         bind_res (der_integer 0) (\<lambda>v. bind_res (der_octet_string pkcs1) (\<lambda>oct. der_sequence [v, alg, oct]))))))"

section \<open>Reading\<close>

text \<open>
  \<open>_read_tlv\<close>: slices beyond the end of the input are shorter, not errors; an index beyond
  it is an \<open>IndexError\<close>.
\<close>

definition read_tlv :: "byte list \<Rightarrow> byte \<Rightarrow> py_error + byte list \<times> byte list" where
  "read_tlv data tag =
     (case data of
        [] \<Rightarrow> Inl ValueError
      | t # rest \<Rightarrow>
          (if t \<noteq> tag then Inl ValueError
           else (case rest of
              [] \<Rightarrow> Inl IndexError
            | l # _ \<Rightarrow>
                (if unat l \<ge> 128 then
                   (let count = unat l mod 128 in
                    if count = 0 \<or> count > 4 then Inl ValueError
                    else (let len = be_nat (take count (drop 2 data)); body = drop (2 + count) data
                          in Inr (take len body, drop len body)))
                 else Inr (take (unat l) (drop 2 data), drop (unat l) (drop 2 data))))))"

definition signature_to_der :: "int \<times> int \<Rightarrow> py_error + byte list" where
  "signature_to_der sig =
     (case sig of (r, s) \<Rightarrow>
       bind_res (der_integer r) (\<lambda>a. bind_res (der_integer s) (\<lambda>b. der_sequence [a, b])))"

definition signature_from_der :: "byte list \<Rightarrow> py_error + int \<times> int" where
  "signature_from_der data =
     (if length data < 8 \<or> hd data \<noteq> 0x30 then Inl ValueError
      else bind_res (read_tlv data 0x30) (\<lambda>(body, rest).
        if rest \<noteq> [] then Inl ValueError
        else bind_res (read_tlv body 0x02) (\<lambda>(r_bytes, body1).
          bind_res (read_tlv body1 0x02) (\<lambda>(s_bytes, body2).
            if body2 \<noteq> [] then Inl ValueError
            else Inr (bytes_to_int r_bytes, bytes_to_int s_bytes)))))"

section \<open>Signatures come back\<close>

text \<open>The sizes \<open>read_tlv\<close> understands: at most four length bytes.\<close>

lemma der_length_read:
  assumes "n < 2 ^ 32"
  shows "\<exists>l. der_length n = Inr l \<and> (\<forall>tag v r. length v = n \<longrightarrow> read_tlv (tag # l @ v @ r) tag = Inr (v, r))"
proof (cases "n < 0x80")
  case True
  then have "unat (of_nat n :: byte) = n" by (simp add: unat_of_nat_byte)
  with True show ?thesis by (simp add: der_length_def read_tlv_def)
next
  case False
  obtain body where body: "int_to_bytes (int n) None = Inr body" "bytes_to_int body = int n"
    using int_to_bytes_min [of "int n"] by auto
  define k where "k = length body"
  have "k = max 1 ((bit_length n + 7) div 8)"
    using body(1) by (auto simp: k_def int_to_bytes_def Let_def split: if_splits)
  moreover have "bit_length n \<le> 32" using assms by (rule bit_length_bound)
  ultimately have "1 \<le> k" "k \<le> 4" by auto
  then have "k = 1 \<or> k = 2 \<or> k = 3 \<or> k = 4" by linarith
  then have l: "Bit_Operations.or 128 k = 128 + k" by (elim disjE) simp_all
  have u: "unat (of_nat (128 + k) :: byte) = 128 + k" using \<open>k \<le> 4\<close> by (intro unat_of_nat_byte) simp
  have dl: "der_length n = Inr (of_nat (128 + k) # body)"
    using False \<open>k \<le> 4\<close> by (simp add: der_length_def body(1) k_def [symmetric] l)
  have "read_tlv (tag # (of_nat (128 + k) # body) @ v @ r) tag = Inr (v, r)" if "length v = n" for tag v r
  proof -
    have "be_nat body = n" using body(2) by (simp add: bytes_to_int_def)
    with that u \<open>1 \<le> k\<close> \<open>k \<le> 4\<close> show ?thesis
      by (simp add: read_tlv_def Let_def k_def [symmetric] del: of_nat_add)
  qed
  with dl show ?thesis by blast
qed

lemma tlv_read:
  assumes "length v < 2 ^ 32"
  shows "\<exists>t. tlv tag v = Inr t \<and> length v + 2 \<le> length t \<and> length t \<le> length v + 6
     \<and> (\<exists>t'. t = tag # t') \<and> (\<forall>r. read_tlv (t @ r) tag = Inr (v, r))"
proof -
  from der_length_read [OF assms] obtain l where l: "der_length (length v) = Inr l"
    "\<And>r. read_tlv (tag # l @ v @ r) tag = Inr (v, r)" by blast
  have "1 \<le> length l \<and> length l \<le> 5"
  proof -
    have "bit_length (length v) \<le> 32" using assms by (rule bit_length_bound)
    with l(1) show ?thesis
      by (auto simp: der_length_def int_to_bytes_def Let_def split: if_splits elim!: bind_res_InrE)
  qed
  with l show ?thesis by (simp add: tlv_def)
qed

lemma der_integer_read:
  assumes "0 \<le> v" "v < 256 ^ 66"
  shows "\<exists>t c. der_integer v = Inr t \<and> 3 \<le> length t \<and> length t \<le> 73 \<and> bytes_to_int c = v
     \<and> (\<forall>r. read_tlv (t @ r) 0x02 = Inr (c, r))"
proof -
  obtain body where body: "int_to_bytes v None = Inr body" "bytes_to_int body = v"
    using int_to_bytes_min [OF assms(1)] by auto
  define c where "c = (if unat (hd body) \<ge> 128 then 0 # body else body)"
  have "nat v < 2 ^ 528" using assms by (simp add: nat_less_iff)
  then have "bit_length (nat v) \<le> 528" by (rule bit_length_bound)
  then have "1 \<le> length body" "length body \<le> 66"
    using body(1) assms(1) by (auto simp: int_to_bytes_def Let_def split: if_splits)
  then have len: "1 \<le> length c" "length c \<le> 67" by (simp_all add: c_def)
  then have "length c < 2 ^ 32" by simp
  from tlv_read [OF this, where tag = "0x02"] obtain t where t: "tlv 0x02 c = Inr t" "length c + 2 \<le> length t" "length t \<le> length c + 6"
    "\<And>r. read_tlv (t @ r) 0x02 = Inr (c, r)" by blast
  have "bytes_to_int c = v" using body(2) by (simp add: c_def bytes_to_int_def be_nat_zero_Cons)
  with t len show ?thesis by (intro exI [of _ t] exI [of _ c]) (simp add: der_integer_def body(1) c_def [symmetric])
qed

lemma signature_der_roundtrip:
  assumes "0 \<le> r" "r < 256 ^ 66" "0 \<le> s" "s < 256 ^ 66"
  shows "bind_res (signature_to_der (r, s)) signature_from_der = Inr (r, s)"
proof -
  obtain a ca where a: "der_integer r = Inr a" "3 \<le> length a" "length a \<le> 73" "bytes_to_int ca = r"
    "\<And>x. read_tlv (a @ x) 0x02 = Inr (ca, x)" using der_integer_read [OF assms(1,2)] by blast
  obtain b cb where b: "der_integer s = Inr b" "3 \<le> length b" "length b \<le> 73" "bytes_to_int cb = s"
    "\<And>x. read_tlv (b @ x) 0x02 = Inr (cb, x)" using der_integer_read [OF assms(3,4)] by blast
  have "length (a @ b) < 2 ^ 32" using a(3) b(3) by simp
  from tlv_read [OF this, where tag = "0x30"] obtain t where t: "tlv 0x30 (a @ b) = Inr t" "length (a @ b) + 2 \<le> length t"
    "\<exists>t'. t = 0x30 # t'" "\<And>x. read_tlv (t @ x) 0x30 = Inr (a @ b, x)" by blast
  have "signature_to_der (r, s) = Inr t" by (simp add: signature_to_der_def a(1) b(1) der_sequence_def t(1))
  moreover have "signature_from_der t = Inr (r, s)"
    using t(2,3) t(4) [of "[]"] a(2) b(2) a(5) [of b] b(5) [of "[]"]
    by (auto simp: signature_from_der_def a(4) b(4))
  ultimately show ?thesis by simp
qed

text \<open>
  ECDSA signatures in the DER form WebAuthn and X.509 use are read back unchanged, for
  every pair of integers that fits the widest supported curve.
\<close>

theorem der_signature_roundtrip:
  assumes "0 \<le> r" and "r < 256 ^ 66" and "0 \<le> s" and "s < 256 ^ 66"
  shows "bind_res (signature_to_der (r, s)) signature_from_der = Inr (r, s)"
  using assms by (rule signature_der_roundtrip)

theorem der_signature_roundtrip_witness:
  "bind_res (signature_to_der (255, 2 ^ 500)) signature_from_der = Inr (255, 2 ^ 500)"
  by (rule der_signature_roundtrip) simp_all

text \<open>
  The reader is not strict: the second integer of the sequence announces two bytes, only
  one is there, and the truncated signature is accepted.
\<close>

theorem truncated_signature_accepted:
  "signature_from_der [0x30, 0x06, 0x02, 0x01, 0x05, 0x02, 0x02, 0x07] = Inr (5, 7)"
  by (simp add: signature_from_der_def read_tlv_def bytes_to_int_def be_nat_def)

end
