(* ===== verification/Ec.thy ===== *)
theory Ec
  imports Arith Hashing Der
begin

text \<open>
  \<open>authlab/crypto/ec.py\<close>: the NIST prime curves and ECDSA with the deterministic nonce of
  RFC 6979.  The two loops that retry are partial functions; \<open>Diverges\<close> is a run that does
  not return.
\<close>

section \<open>Curves and points\<close>

record curve =
  c_name :: string
  c_p :: int
  c_b :: int
  c_gx :: int
  c_gy :: int
  c_n :: int
  c_field_bytes :: nat
  c_oid :: string
  c_jose_crv :: string
  c_jose_alg :: string
  c_hash_name :: string

definition curve_a :: "curve \<Rightarrow> int" where
  "curve_a c = c_p c - 3"

definition SECP256R1 :: curve where
  "SECP256R1 =
     \<lparr>c_name = ''secp256r1'',
      c_p = 0xffffffff00000001000000000000000000000000ffffffffffffffffffffffff,
      c_b = 0x5ac635d8aa3a93e7b3ebbd55769886bc651d06b0cc53b0f63bce3c3e27d2604b,
      c_gx = 0x6b17d1f2e12c4247f8bce6e563a440f277037d812deb33a0f4a13945d898c296,
      c_gy = 0x4fe342e2fe1a7f9b8ee7eb4a7c0f9e162bce33576b315ececbb6406837bf51f5,
      c_n = 0xffffffff00000000ffffffffffffffffbce6faada7179e84f3b9cac2fc632551,
      c_field_bytes = 32,
      c_oid = ''1.2.840.10045.3.1.7'',
      c_jose_crv = ''P-256'',
      c_jose_alg = ''ES256'',
      c_hash_name = ''sha256''\<rparr>"

definition SECP384R1 :: curve where
  "SECP384R1 =
     \<lparr>c_name = ''secp384r1'',
      c_p = 0xfffffffffffffffffffffffffffffffffffffffffffffffffffffffffffffffeffffffff0000000000000000ffffffff,
      c_b = 0xb3312fa7e23ee7e4988e056be3f82d19181d9c6efe8141120314088f5013875ac656398d8a2ed19d2a85c8edd3ec2aef,
      c_gx = 0xaa87ca22be8b05378eb1c71ef320ad746e1d3b628ba79b9859f741e082542a385502f25dbf55296c3a545e3872760ab7,
      c_gy = 0x3617de4a96262c6f5d9e98bf9292dc29f8f41dbd289a147ce9da3113b5f0b8c00a60b1ce1d7e819d7a431d7c90ea0e5f,
      c_n = 0xffffffffffffffffffffffffffffffffffffffffffffffffc7634d81f4372ddf581a0db248b0a77aecec196accc52973,
      c_field_bytes = 48,
      c_oid = ''1.3.132.0.34'',
      c_jose_crv = ''P-384'',
      c_jose_alg = ''ES384'',
      c_hash_name = ''sha384''\<rparr>"

definition SECP521R1 :: curve where
  "SECP521R1 =
     \<lparr>c_name = ''secp521r1'',
      c_p = 0x1ffffffffffffffffffffffffffffffffffffffffffffffffffffffffffffffffffffffffffffffffffffffffffffffffffffffffffffffffffffffffffffffffff,
      c_b = 0x51953eb9618e1c9a1f929a21a0b68540eea2da725b99b315f3b8b489918ef109e156193951ec7e937b1652c0bd3bb1bf073573df883d2c34f1ef451fd46b503f00,
      c_gx = 0xc6858e06b70404e9cd9e3ecb662395b4429c648139053fb521f828af606b4d3dbaa14b5e77efe75928fe1dc127a2ffa8de3348b3c1856a429bf97e7e31c2e5bd66,
      c_gy = 0x11839296a789a3bc0045c8a5fb42c7d1bd998f54449579b446817afbd17273e662c97ee72995ef42640c550b9013fad0761353c7086a272c24088be94769fd16650,
      c_n = 0x1fffffffffffffffffffffffffffffffffffffffffffffffffffffffffffffffffa51868783bf2f966b7fcc0148f709a5d03bb5c9b8899c47aebb6fb71e91386409,
      c_field_bytes = 66,
      c_oid = ''1.3.132.0.35'',
      c_jose_crv = ''P-521'',
      c_jose_alg = ''ES512'',
      c_hash_name = ''sha512''\<rparr>"

definition CURVES :: "curve list" where
  "CURVES = [SECP256R1, SECP384R1, SECP521R1]"

definition curve_by_jose_crv :: "string \<Rightarrow> curve option" where
  "curve_by_jose_crv name = find (\<lambda>c. c_jose_crv c = name) CURVES"

definition curve_by_oid :: "string \<Rightarrow> curve option" where
  "curve_by_oid oid = find (\<lambda>c. c_oid c = oid) CURVES"

text \<open>An affine point, or \<open>None\<close> for the point at infinity, on its curve.\<close>

record ec_point =
  pt_xy :: "(int \<times> int) option"
  pt_curve :: curve

definition generator :: "curve \<Rightarrow> ec_point" where
  "generator c = \<lparr>pt_xy = Some (c_gx c, c_gy c), pt_curve = c\<rparr>"

definition infinity :: "curve \<Rightarrow> ec_point" where
  "infinity c = \<lparr>pt_xy = None, pt_curve = c\<rparr>"

definition is_on_curve :: "ec_point \<Rightarrow> bool" where
  "is_on_curve pt =
     (case pt_xy pt of
        None \<Rightarrow> True
      | Some (x, y) \<Rightarrow>
          (let c = pt_curve pt in
           if \<not> (0 \<le> x \<and> x < c_p c \<and> 0 \<le> y \<and> y < c_p c) then False
           else (y * y - (x * x * x + curve_a c * x + c_b c)) mod c_p c = 0))"

section \<open>Group operations\<close>

definition point_double :: "ec_point \<Rightarrow> py_error + ec_point" where
  "point_double pt =
     (let c = pt_curve pt in
      case pt_xy pt of
        None \<Rightarrow> Inr (infinity c)
      | Some (x, y) \<Rightarrow>
          (if y = 0 then Inr (infinity c)
           else bind_res (inv_mod (2 * y) (c_p c)) (\<lambda>i.
             let lam = ((3 * x * x + curve_a c) * i) mod c_p c;
                 x3 = (lam * lam - 2 * x) mod c_p c
             in Inr \<lparr>pt_xy = Some (x3, (lam * (x - x3) - y) mod c_p c), pt_curve = c\<rparr>)))"

definition point_add :: "ec_point \<Rightarrow> ec_point \<Rightarrow> py_error + ec_point" where
  "point_add p1 p2 =
     (case (pt_xy p1, pt_xy p2) of
        (None, _) \<Rightarrow> Inr p2
      | (_, None) \<Rightarrow> Inr p1
      | (Some (x1, y1), Some (x2, y2)) \<Rightarrow>
          (if pt_curve p1 \<noteq> pt_curve p2 then Inl ValueError
           else (let c = pt_curve p1 in
             if x1 = x2 then
               (if (y1 + y2) mod c_p c = 0 then Inr (infinity c) else point_double p1)
             else bind_res (inv_mod (x2 - x1) (c_p c)) (\<lambda>i.
               let lam = ((y2 - y1) * i) mod c_p c;
                   x3 = (lam * lam - x1 - x2) mod c_p c
               in Inr \<lparr>pt_xy = Some (x3, (lam * (x1 - x3) - y1) mod c_p c), pt_curve = c\<rparr>))))"

text \<open>The Montgomery ladder over the bits of the scalar, most significant first.\<close>

definition ladder_step :: "nat \<Rightarrow> nat \<Rightarrow> ec_point \<times> ec_point \<Rightarrow> py_error + ec_point \<times> ec_point" where
  "ladder_step k i rs =
     (case rs of (r0, r1) \<Rightarrow>
       bind_res (point_add r0 r1) (\<lambda>s.
         if bit k i then bind_res (point_double r1) (\<lambda>d. Inr (s, d))
         else bind_res (point_double r0) (\<lambda>d. Inr (d, s))))"

definition scalar_mult :: "int \<Rightarrow> ec_point \<Rightarrow> py_error + ec_point" where
  "scalar_mult k0 pt =
     (let c = pt_curve pt; k = nat (k0 mod c_n c) in
      if k = 0 \<or> pt_xy pt = None then Inr (infinity c)
      else map_sum id fst (fold_res (ladder_step k) (rev [0..<bit_length k]) (infinity c, pt)))"

section \<open>Keys\<close>

record ec_private =
  ec_d :: int
  ec_curve :: curve

definition to_uncompressed :: "ec_point \<Rightarrow> py_error + byte list" where
  "to_uncompressed pt =
     (case pt_xy pt of
        None \<Rightarrow> Inl TypeError
      | Some (x, y) \<Rightarrow>
          bind_res (int_to_bytes x (Some (c_field_bytes (pt_curve pt)))) (\<lambda>bx.
            bind_res (int_to_bytes y (Some (c_field_bytes (pt_curve pt)))) (\<lambda>bytes_y. Inr (0x04 # bx @ bytes_y))))"

definition from_uncompressed :: "byte list \<Rightarrow> curve \<Rightarrow> py_error + ec_point" where
  "from_uncompressed data c =
     (let size = c_field_bytes c in
      if length data \<noteq> 1 + 2 * size \<or> hd data \<noteq> 0x04 then Inl ValueError
      else (let pt = \<lparr>pt_xy = Some (bytes_to_int (take size (drop 1 data)), bytes_to_int (drop (1 + size) data)),
                      pt_curve = c\<rparr>
            in if is_on_curve pt then Inr pt else Inl ValueError))"

definition ec_public_of :: "ec_private \<Rightarrow> py_error + ec_point" where
  "ec_public_of k = scalar_mult (ec_d k) (generator (ec_curve k))"

section \<open>ECDSA\<close>

definition bits2int :: "byte list \<Rightarrow> curve \<Rightarrow> int" where
  "bits2int data c =
     (let excess = int (length data) * 8 - int (bit_length (nat (c_n c)))
      in if excess > 0 then bytes_to_int data div 2 ^ nat excess else bytes_to_int data)"

partial_function (option) drbg_loop :: "hash_alg \<Rightarrow> curve \<Rightarrow> byte list \<Rightarrow> byte list \<Rightarrow> int option" where
  "drbg_loop h c k v =
     (let v1 = hmac_alg h k v; candidate = bits2int v1 c in
      if 1 \<le> candidate \<and> candidate < c_n c then Some candidate
      else (let k1 = hmac_alg h k (v1 @ [0x00]) in drbg_loop h c k1 (hmac_alg h k1 v1)))"

definition rfc6979_k :: "int \<Rightarrow> byte list \<Rightarrow> curve \<Rightarrow> hash_alg \<Rightarrow> py_error + int" where
  "rfc6979_k d dig c h =
     bind_res (int_to_bytes d (Some (c_field_bytes c))) (\<lambda>x.
       bind_res (int_to_bytes (bits2int dig c mod c_n c) (Some (c_field_bytes c))) (\<lambda>h1.
         let v0 = replicate (digest_size h) 0x01;
             k0 = replicate (digest_size h) 0x00;
             k1 = hmac_alg h k0 (v0 @ [0x00] @ x @ h1);
             v1 = hmac_alg h k1 v0;
             k2 = hmac_alg h k1 (v1 @ [0x01] @ x @ h1);
             v2 = hmac_alg h k2 v1
         in (case drbg_loop h c k2 v2 of None \<Rightarrow> Inl Diverges | Some k \<Rightarrow> Inr k)))"

text \<open>
  One attempt: \<open>Inr None\<close> when the code goes round its loop again.  The nonce is a function of
  the key and the message, so a second attempt would be the same as the first.
\<close>

definition ecdsa_attempt :: "ec_private \<Rightarrow> byte list \<Rightarrow> hash_alg \<Rightarrow> py_error + (int \<times> int) option" where
  "ecdsa_attempt key dig h =
     (let c = ec_curve key; z = bits2int dig c in
      bind_res (rfc6979_k (ec_d key) dig c h) (\<lambda>k.
        bind_res (scalar_mult k (generator c)) (\<lambda>pt.
          case pt_xy pt of
            None \<Rightarrow> Inl TypeError
          | Some (x, _) \<Rightarrow>
              (let r = x mod c_n c in
               if r = 0 then Inr None
               else bind_res (inv_mod k (c_n c)) (\<lambda>i.
                 let s = (i * (z + r * ec_d key)) mod c_n c in
                 if s = 0 then Inr None
                 else Inr (Some (r, if s > c_n c div 2 then c_n c - s else s)))))))"

partial_function (option) ecdsa_loop :: "ec_private \<Rightarrow> byte list \<Rightarrow> hash_alg \<Rightarrow> (py_error + int \<times> int) option" where
  "ecdsa_loop key dig h =
     (case ecdsa_attempt key dig h of
        Inl e \<Rightarrow> Some (Inl e)
      | Inr (Some sig) \<Rightarrow> Some (Inr sig)
      | Inr None \<Rightarrow> ecdsa_loop key dig h)"

definition ecdsa_sign :: "ec_private \<Rightarrow> byte list \<Rightarrow> string \<Rightarrow> py_error + int \<times> int" where
  "ecdsa_sign key message hash_name =
     (case hash_named hash_name of
        None \<Rightarrow> Inl Unmodelled
      | Some h \<Rightarrow>
          (case ecdsa_loop key (digest h message) h of None \<Rightarrow> Inl Diverges | Some r \<Rightarrow> r))"

definition ecdsa_verify :: "ec_point \<Rightarrow> byte list \<Rightarrow> int \<times> int \<Rightarrow> string \<Rightarrow> py_error + bool" where
  "ecdsa_verify key message signature hash_name =
     (let c = pt_curve key; (r, s) = signature in
      if \<not> (1 \<le> r \<and> r < c_n c \<and> 1 \<le> s \<and> s < c_n c) then Inr False
      else if \<not> is_on_curve key then Inr False
      else bind_res (hashlib_new hash_name message) (\<lambda>dig.
        let z = bits2int dig c in
        bind_res (inv_mod s (c_n c)) (\<lambda>w.
          bind_res (scalar_mult (z * w mod c_n c) (generator c)) (\<lambda>a.
            bind_res (scalar_mult (r * w mod c_n c) key) (\<lambda>b.
              bind_res (point_add a b) (\<lambda>pt.
                case pt_xy pt of None \<Rightarrow> Inr False | Some (x, _) \<Rightarrow> Inr (x mod c_n c = r)))))))"

definition signature_to_raw :: "int \<times> int \<Rightarrow> curve \<Rightarrow> py_error + byte list" where
  "signature_to_raw sig c =
     (case sig of (r, s) \<Rightarrow>
       bind_res (int_to_bytes r (Some (c_field_bytes c))) (\<lambda>a.
         bind_res (int_to_bytes s (Some (c_field_bytes c))) (\<lambda>b. Inr (a @ b))))"

definition signature_from_raw :: "byte list \<Rightarrow> curve \<Rightarrow> py_error + int \<times> int" where
  "signature_from_raw data c =
     (let size = c_field_bytes c in
      if length data \<noteq> size * 2 then Inl ValueError
      else Inr (bytes_to_int (take size data), bytes_to_int (drop size data)))"

section \<open>Properties of the encodings and of the group operations\<close>

lemma signature_raw_roundtrip:
  "0 \<le> r \<Longrightarrow> r < 256 ^ c_field_bytes c \<Longrightarrow> 0 \<le> s \<Longrightarrow> s < 256 ^ c_field_bytes c \<Longrightarrow>
   bind_res (signature_to_raw (r, s) c) (\<lambda>d. signature_from_raw d c) = Inr (r, s)"
  by (simp add: signature_to_raw_def signature_from_raw_def int_to_bytes_fixed Let_def bytes_to_int_nat_be)

end
