(* ===== verification/Ed25519.thy ===== *)
theory Ed25519
  imports Arith Hashing
begin

text \<open>
  \<open>authlab/crypto/ed25519.py\<close>: Ed25519 in extended homogeneous coordinates.  The module's
  constants are definitions here, computed as the module computes them.
\<close>

section \<open>Constants\<close>

definition ED_P :: int where
  "ED_P = 2 ^ 255 - 19"

definition ED_L :: int where
  "ED_L = 2 ^ 252 + 27742317777372353535851937790883648493"

definition ED_D :: int where
  "ED_D = (case inv_mod 121666 ED_P of Inr i \<Rightarrow> (- 121665 * i) mod ED_P | Inl _ \<Rightarrow> 0)"

definition SQRT_M1 :: int where
  "SQRT_M1 = pow_mod 2 (nat ((ED_P - 1) div 4)) ED_P"

type_synonym ext = "int \<times> int \<times> int \<times> int"

definition IDENTITY :: ext where
  "IDENTITY = (0, 1, 1, 0)"

section \<open>Points\<close>

definition recover_x :: "int \<Rightarrow> int \<Rightarrow> py_error + int option" where
  "recover_x y sb =
     (if y \<ge> ED_P then Inr None
      else bind_res (inv_mod (ED_D * y * y + 1) ED_P) (\<lambda>i.
        let x2 = (y * y - 1) * i mod ED_P in
        if x2 = 0 then Inr (if sb \<noteq> 0 then None else Some 0)
        else (let x0 = pow_mod x2 (nat ((ED_P + 3) div 8)) ED_P;
                  x1 = (if (x0 * x0 - x2) mod ED_P \<noteq> 0 then x0 * SQRT_M1 mod ED_P else x0)
              in if (x1 * x1 - x2) mod ED_P \<noteq> 0 then Inr None
                 else Inr (Some (if x1 mod 2 \<noteq> sb then ED_P - x1 else x1)))))"

definition ed_point_add :: "ext \<Rightarrow> ext \<Rightarrow> ext" where
  "ed_point_add p q =
     (case (p, q) of ((p0, p1, p2, p3), (q0, q1, q2, q3)) \<Rightarrow>
       (let a = (p1 - p0) * (q1 - q0) mod ED_P;
            b = (p1 + p0) * (q1 + q0) mod ED_P;
            c = 2 * p3 * q3 * ED_D mod ED_P;
            d = 2 * p2 * q2 mod ED_P;
            e = b - a; f = d - c; g = d + c; h = b + a
        in (e * f mod ED_P, g * h mod ED_P, f * g mod ED_P, e * h mod ED_P)))"

fun ed_mul_loop :: "nat \<Rightarrow> ext \<Rightarrow> ext \<Rightarrow> ext" where
  "ed_mul_loop k pt acc =
     (if k = 0 then acc
      else ed_mul_loop (k div 2) (ed_point_add pt pt) (if odd k then ed_point_add acc pt else acc))"

declare ed_mul_loop.simps [simp del]

definition ed_point_mul :: "int \<Rightarrow> ext \<Rightarrow> ext" where
  "ed_point_mul k pt = ed_mul_loop (nat k) pt IDENTITY"

definition ed_point_equal :: "ext \<Rightarrow> ext \<Rightarrow> bool" where
  "ed_point_equal p q =
     (case (p, q) of ((p0, p1, p2, p3), (q0, q1, q2, q3)) \<Rightarrow>
       if (p0 * q2 - q0 * p2) mod ED_P \<noteq> 0 then False else (p1 * q2 - q1 * p2) mod ED_P = 0)"

definition point_compress :: "ext \<Rightarrow> py_error + byte list" where
  "point_compress pt =
     (case pt of (p0, p1, p2, p3) \<Rightarrow>
       bind_res (inv_mod p2 ED_P) (\<lambda>z.
         let x = p0 * z mod ED_P; y = p1 * z mod ED_P
         in Inr (nat_le 32 (Bit_Operations.or (nat y) (nat (x mod 2) * 2 ^ 255)))))"

definition point_decompress :: "byte list \<Rightarrow> py_error + ext option" where
  "point_decompress data =
     (if length data \<noteq> 32 then Inr None
      else (let v = int (le_nat data); sb = v div 2 ^ 255; y = v mod 2 ^ 255 in
        map_sum id (map_option (\<lambda>x. (x, y, 1, x * y mod ED_P))) (recover_x y sb)))"

definition BASE_Y :: int where
  "BASE_Y = (case inv_mod 5 ED_P of Inr i \<Rightarrow> 4 * i mod ED_P | Inl _ \<Rightarrow> 0)"

definition BASE_POINT :: ext where
  "BASE_POINT = (case recover_x BASE_Y 0 of Inr (Some x) \<Rightarrow> (x, BASE_Y, 1, x * BASE_Y mod ED_P) | _ \<Rightarrow> IDENTITY)"

definition is_prime_order_point :: "ext \<Rightarrow> bool" where
  "is_prime_order_point pt \<longleftrightarrow>
     \<not> ed_point_equal pt IDENTITY \<and> ed_point_equal (ed_point_mul ED_L pt) IDENTITY"

definition sha512_mod_l :: "byte list \<Rightarrow> int" where
  "sha512_mod_l data = int (le_nat (sha512 data)) mod ED_L"

definition expand_secret :: "byte list \<Rightarrow> py_error + int \<times> byte list" where
  "expand_secret seed =
     (if length seed \<noteq> 32 then Inl ValueError
      else (let d = sha512 seed; n = le_nat (take 32 d)
            in Inr (int (Bit_Operations.or (Bit_Operations.and n (2 ^ 254 - 8)) (2 ^ 254)), drop 32 d)))"

section \<open>Keys and signatures\<close>

text \<open>The constructor of a public key validates its 32 bytes.\<close>

definition ed_public_key :: "byte list \<Rightarrow> py_error + byte list" where
  "ed_public_key data =
     (if length data \<noteq> 32 then Inl ValueError
      else bind_res (point_decompress data) (\<lambda>r. case r of
        None \<Rightarrow> Inl ValueError
      | Some pt \<Rightarrow> if is_prime_order_point pt then Inr data else Inl ValueError))"

definition ed_private_key :: "byte list \<Rightarrow> py_error + byte list" where
  "ed_private_key seed = (if length seed \<noteq> 32 then Inl ValueError else Inr seed)"

definition ed_public_of :: "byte list \<Rightarrow> py_error + byte list" where
  "ed_public_of seed =
     bind_res (expand_secret seed) (\<lambda>(k, _).
       bind_res (point_compress (ed_point_mul k BASE_POINT)) ed_public_key)"

definition ed25519_sign :: "byte list \<Rightarrow> byte list \<Rightarrow> py_error + byte list" where
  "ed25519_sign seed message =
     bind_res (expand_secret seed) (\<lambda>(k, pre).
       bind_res (point_compress (ed_point_mul k BASE_POINT)) (\<lambda>pub.
         let r = sha512_mod_l (pre @ message) in
         bind_res (point_compress (ed_point_mul r BASE_POINT)) (\<lambda>r_point.
           let challenge = sha512_mod_l (r_point @ pub @ message);
               s = (r + challenge * k) mod ED_L
           in Inr (r_point @ nat_le 32 (nat s)))))"

definition ed25519_verify :: "byte list \<Rightarrow> byte list \<Rightarrow> byte list \<Rightarrow> py_error + bool" where
  "ed25519_verify key message signature =
     (if length signature \<noteq> 64 then Inr False
      else bind_res (point_decompress key) (\<lambda>pa. case pa of
        None \<Rightarrow> Inr False
      | Some point_a \<Rightarrow>
          bind_res (point_decompress (take 32 signature)) (\<lambda>pr. case pr of
            None \<Rightarrow> Inr False
          | Some point_r \<Rightarrow>
              if \<not> is_prime_order_point point_r then Inr False
              else (let s = int (le_nat (drop 32 signature)) in
                if s \<ge> ED_L then Inr False
                else (let challenge = sha512_mod_l (take 32 signature @ key @ message) in
                  Inr (ed_point_equal (ed_point_mul s BASE_POINT)
                    (ed_point_add point_r (ed_point_mul challenge point_a))))))))"

section \<open>A scalar has one encoding\<close>

text \<open>
  Malleability guard.  Two signatures with the same commitment and scalars that are equal
  modulo the group order are the same bytes when both are accepted, so adding the group
  order to the scalar of an accepted signature never gives a second accepted one.
\<close>

lemma ed25519_verify_scalar:
  "ed25519_verify key m sig = Inr True \<Longrightarrow> length sig = 64 \<and> int (le_nat (drop 32 sig)) < ED_L"
  by (auto simp: ed25519_verify_def Let_def split: if_splits option.splits elim!: bind_res_InrE)

end
