(* ===== verification/Exn.thy ===== *)
theory Exn
  imports Prelude
begin

text \<open>
  The exceptions of \<open>authlab/jose/errors.py\<close> and \<open>authlab/oauth/errors.py\<close>, and the
  shape of an operation on mutable objects: a function from the state to a result and the new
  state.  An exception leaves the changes made before it in place, as in Python.  The text of an
  exception is not modelled; its class, error code and status are.
\<close>

named_theorems preserves_intros \<open>an operation keeps an invariant of the state\<close>

section \<open>Exceptions\<close>

datatype jose_error = InvalidToken | InvalidSignature | ExpiredToken | ClaimError

datatype oauth_error =
    InvalidRequest | InvalidRequestObject | InvalidRequestURI | InvalidAuthorizationDetails
  | InvalidAuthorizationResponse | InvalidClient | InvalidGrant | UnauthorizedClient
  | UnsupportedGrantType | InvalidScope | AccessDenied | UnsupportedResponseType | ServerError
  | AuthorizationPending | SlowDown | ExpiredTokenError | InvalidTarget | InvalidDPoPProof
  | UseDPoPNonce

definition oauth_code :: "oauth_error \<Rightarrow> string" where
  "oauth_code e =
     (case e of
        InvalidRequest \<Rightarrow> ''invalid_request''
      | InvalidRequestObject \<Rightarrow> ''invalid_request_object''
      | InvalidRequestURI \<Rightarrow> ''invalid_request_uri''
      | InvalidAuthorizationDetails \<Rightarrow> ''invalid_authorization_details''
      | InvalidAuthorizationResponse \<Rightarrow> ''invalid_authorization_response''
      | InvalidClient \<Rightarrow> ''invalid_client''
      | InvalidGrant \<Rightarrow> ''invalid_grant''
      | UnauthorizedClient \<Rightarrow> ''unauthorized_client''
      | UnsupportedGrantType \<Rightarrow> ''unsupported_grant_type''
      | InvalidScope \<Rightarrow> ''invalid_scope''
      | AccessDenied \<Rightarrow> ''access_denied''
      | UnsupportedResponseType \<Rightarrow> ''unsupported_response_type''
      | ServerError \<Rightarrow> ''server_error''
      | AuthorizationPending \<Rightarrow> ''authorization_pending''
      | SlowDown \<Rightarrow> ''slow_down''
      | ExpiredTokenError \<Rightarrow> ''expired_token''
      | InvalidTarget \<Rightarrow> ''invalid_target''
      | InvalidDPoPProof \<Rightarrow> ''invalid_dpop_proof''
      | UseDPoPNonce \<Rightarrow> ''use_dpop_nonce'')"

definition oauth_status :: "oauth_error \<Rightarrow> nat" where
  "oauth_status e = (case e of InvalidClient \<Rightarrow> 401 | ServerError \<Rightarrow> 500 | _ \<Rightarrow> 400)"

text \<open>The body sent to the client, with the description given when the error was raised.\<close>

definition oauth_to_dict :: "oauth_error \<Rightarrow> string \<Rightarrow> (string \<times> string) list" where
  "oauth_to_dict e description =
     (let body = [(''error'', oauth_code e)]
      in if description \<noteq> [] then dset ''error_description'' description body else body)"

lemma oauth_code_inj: "oauth_code e = oauth_code e' \<Longrightarrow> e = e'"
  by (cases e; cases e') (simp_all add: oauth_code_def)

text \<open>
  The other exception classes: \<open>WebAuthnError\<close>, \<open>KerberosError\<close>, \<open>LDAPError\<close>, and \<open>SCIMError\<close> with its
  status.
\<close>

datatype exn =
    Py py_error | Jose jose_error | OAuth oauth_error
  | WebAuthnError | KerberosError | LDAPError | SCIMError nat

text \<open>\<open>except Exception\<close>: input outside the model and non-termination stay what they are.\<close>

fun is_outcome :: "exn \<Rightarrow> bool" where
  "is_outcome (Py e) = (e = Unmodelled \<or> e = Diverges)"
| "is_outcome _ = False"

definition catch_all :: "exn \<Rightarrow> exn + 'a \<Rightarrow> exn + 'a" where
  "catch_all e r = (case r of Inl x \<Rightarrow> Inl (if is_outcome x then x else e) | Inr v \<Rightarrow> Inr v)"

definition py :: "py_error + 'a \<Rightarrow> exn + 'a" where
  "py r = map_sum Py id r"

lemma py_simps [simp]: "py (Inl e) = Inl (Py e)" "py (Inr v) = Inr v"
  by (simp_all add: py_def)

lemma py_Inr_iff [simp]: "py r = Inr v \<longleftrightarrow> r = Inr v"
  by (cases r) auto

lemma py_Inl_iff: "py r = Inl x \<longleftrightarrow> (\<exists>e. r = Inl e \<and> x = Py e)"
  by (cases r) auto

lemma catch_all_simps [simp]:
  "catch_all e (Inr v) = Inr v"
  "catch_all e (Inl x) = Inl (if is_outcome x then x else e)"
  by (simp_all add: catch_all_def)

lemma catch_all_Inr_iff [simp]: "catch_all e r = Inr v \<longleftrightarrow> r = Inr v"
  by (cases r) auto

section \<open>Operations on a state\<close>

type_synonym ('s, 'a) op = "'s \<Rightarrow> (exn + 'a) \<times> 's"

definition ret :: "'a \<Rightarrow> ('s, 'a) op" where
  "ret x s = (Inr x, s)"

definition raise :: "exn \<Rightarrow> ('s, 'a) op" where
  "raise e s = (Inl e, s)"

definition bindM :: "('s, 'a) op \<Rightarrow> ('a \<Rightarrow> ('s, 'b) op) \<Rightarrow> ('s, 'b) op" where
  "bindM m f s = (case m s of (Inl e, s') \<Rightarrow> (Inl e, s') | (Inr x, s') \<Rightarrow> f x s')"

definition lift :: "exn + 'a \<Rightarrow> ('s, 'a) op" where
  "lift r s = (r, s)"

text \<open>\<open>if not b: raise e\<close>.\<close>

definition guard :: "bool \<Rightarrow> exn \<Rightarrow> ('s, unit) op" where
  "guard b e s = (if b then Inr () else Inl e, s)"

definition modify :: "('s \<Rightarrow> 's) \<Rightarrow> ('s, unit) op" where
  "modify f s = (Inr (), f s)"

definition gets :: "('s \<Rightarrow> 'a) \<Rightarrow> ('s, 'a) op" where
  "gets f s = (Inr (f s), s)"

text \<open>An operation of a part of the state.\<close>

definition zoom :: "('s \<Rightarrow> 't) \<Rightarrow> ('t \<Rightarrow> 's \<Rightarrow> 's) \<Rightarrow> ('t, 'a) op \<Rightarrow> ('s, 'a) op" where
  "zoom get_part put_part m s = (case m (get_part s) of (r, t) \<Rightarrow> (r, put_part t s))"

lemma op_simps [simp]:
  "ret x s = (Inr x, s)" "raise e s = (Inl e, s)" "lift r s = (r, s)"
  "guard b e s = (if b then Inr () else Inl e, s)" "modify f s = (Inr (), f s)"
  "gets g s = (Inr (g s), s)"
  by (simp_all add: ret_def raise_def lift_def guard_def modify_def gets_def)

lemma bindM_simps [simp]:
  "bindM (ret x) f = f x"
  "bindM (raise e) f = raise e"
  "bindM (lift (Inr x)) f = f x"
  "bindM (lift (Inl e)) f = raise e"
  by (simp_all add: bindM_def fun_eq_iff)

lemma bindM_step:
  "bindM (modify g) f' s = f' () (g s)"
  "bindM (gets h) f s = f (h s) s"
  "bindM (guard b e) f' s = (if b then f' () s else (Inl e, s))"
  by (simp_all add: bindM_def)

lemma bindM_run:
  "m s = (Inr x, s') \<Longrightarrow> bindM m f s = f x s'"
  "m s = (Inl e, s') \<Longrightarrow> bindM m f s = (Inl e, s')"
  by (simp_all add: bindM_def)

lemma bindM_assoc: "bindM (bindM m f) g = bindM m (\<lambda>x. bindM (f x) g)"
  by (auto simp: bindM_def fun_eq_iff split: prod.splits sum.splits)

lemma bindM_InrE:
  assumes "bindM m f s = (Inr y, t)"
  obtains x s' where "m s = (Inr x, s')" "f x s' = (Inr y, t)"
  using assms by (auto simp: bindM_def split: prod.splits sum.splits)

lemma bindM_Inr_iff:
  "bindM m f s = (Inr y, t) \<longleftrightarrow> (\<exists>x s'. m s = (Inr x, s') \<and> f x s' = (Inr y, t))"
  by (auto simp: bindM_def split: prod.splits sum.splits)

section \<open>Invariants of operations\<close>

text \<open>
  An operation preserves an invariant when every run from a state with it ends in a state with
  it, whether it returns or raises.
\<close>

definition preserves :: "('s \<Rightarrow> bool) \<Rightarrow> ('s, 'a) op \<Rightarrow> bool" where
  "preserves P m \<longleftrightarrow> (\<forall>s. P s \<longrightarrow> P (snd (m s)))"

lemma preservesI: "(\<And>s. P s \<Longrightarrow> P (snd (m s))) \<Longrightarrow> preserves P m"
  by (simp add: preserves_def)

lemma preservesD: "preserves P m \<Longrightarrow> m s = (r, t) \<Longrightarrow> P s \<Longrightarrow> P t"
  by (metis preserves_def snd_conv)

lemma preserves_basic [preserves_intros]:
  "preserves P (ret x)" "preserves P (raise e)" "preserves P (lift r)"
  "preserves P (guard b e)" "preserves P (gets g)"
  by (simp_all add: preserves_def)

lemma preserves_bindM [preserves_intros]:
  "preserves P m \<Longrightarrow> (\<And>x. preserves P (f x)) \<Longrightarrow> preserves P (bindM m f)"
  by (auto simp: preserves_def bindM_def split: prod.splits sum.splits)

lemma preserves_modify: "(\<And>s. P s \<Longrightarrow> P (f s)) \<Longrightarrow> preserves P (modify f)"
  by (simp add: preserves_def)

lemma preserves_if [preserves_intros]:
  "(b \<Longrightarrow> preserves P m) \<Longrightarrow> (\<not> b \<Longrightarrow> preserves P n) \<Longrightarrow> preserves P (if b then m else n)"
  by simp

lemma preserves_option [preserves_intros]:
  "preserves P m \<Longrightarrow> (\<And>x. preserves P (f x)) \<Longrightarrow> preserves P (case v of None \<Rightarrow> m | Some x \<Rightarrow> f x)"
  by (cases v) auto

lemma preserves_prod [preserves_intros]:
  "(\<And>x y. preserves P (f x y)) \<Longrightarrow> preserves P (case v of (x, y) \<Rightarrow> f x y)"
  by (cases v) auto

text \<open>A property of the result and the final state of every run that returns.\<close>

definition returns :: "('s \<Rightarrow> bool) \<Rightarrow> ('s, 'a) op \<Rightarrow> ('a \<Rightarrow> 's \<Rightarrow> bool) \<Rightarrow> bool" where
  "returns P m Q \<longleftrightarrow> (\<forall>s x t. P s \<longrightarrow> m s = (Inr x, t) \<longrightarrow> Q x t)"

lemma returns_bindM:
  "returns P m Q \<Longrightarrow> (\<And>x. returns (Q x) (f x) R) \<Longrightarrow> returns P (bindM m f) R"
  by (auto simp: returns_def bindM_Inr_iff)

lemma returnsD: "returns P m Q \<Longrightarrow> m s = (Inr x, t) \<Longrightarrow> P s \<Longrightarrow> Q x t"
  by (simp add: returns_def)

section \<open>Reading dynamically typed data\<close>

text \<open>\<open>d.get(v)\<close> on a dictionary with string keys: a list or a dictionary is not hashable.\<close>

definition dict_get_val :: "(string, 'v) dict \<Rightarrow> pyval \<Rightarrow> py_error + 'v option" where
  "dict_get_val d v =
     (case v of PStr k \<Rightarrow> Inr (dget d k) | PList _ \<Rightarrow> Inl TypeError | PDict _ \<Rightarrow> Inl TypeError
      | _ \<Rightarrow> Inr None)"

text \<open>\<open>d[k]\<close>.\<close>

definition dict_item :: "pydict \<Rightarrow> string \<Rightarrow> py_error + pyval" where
  "dict_item d k = (case dget d k of None \<Rightarrow> Inl KeyError | Some v \<Rightarrow> Inr v)"

text \<open>A method of \<open>dict\<close> on a value that may be something else.\<close>

definition as_dict :: "pyval \<Rightarrow> py_error + pydict" where
  "as_dict v = (case v of PDict d \<Rightarrow> Inr d | _ \<Rightarrow> Inl AttributeError)"

text \<open>A method of \<open>str\<close> on a value that may be something else.\<close>

definition str_of :: "pyval \<Rightarrow> py_error + string" where
  "str_of v = (case v of PStr s \<Rightarrow> Inr s | _ \<Rightarrow> Inl AttributeError)"

text \<open>\<open>constant_time_equals\<close> takes strings and bytes only.\<close>

definition ct_equals_val :: "pyval \<Rightarrow> string \<Rightarrow> py_error + bool" where
  "ct_equals_val v s = (case v of PStr t \<Rightarrow> Inr (t = s) | _ \<Rightarrow> Inl TypeError)"

text \<open>Iteration.\<close>

definition py_iter :: "pyval \<Rightarrow> py_error + pyval list" where
  "py_iter v =
     (case v of PList vs \<Rightarrow> Inr vs | PStr s \<Rightarrow> Inr (map (\<lambda>c. PStr [c]) s)
      | PDict d \<Rightarrow> Inr (map PStr (dkeys d)) | _ \<Rightarrow> Inl TypeError)"

text \<open>\<open>(v or "").split()\<close>.\<close>

definition words_of :: "pyval \<Rightarrow> py_error + string list" where
  "words_of v = (if truthy v then map_sum id split_ws (str_of v) else Inr [])"

lemma ct_equals_val_Inr [simp]: "ct_equals_val v s = Inr b \<longleftrightarrow> (\<exists>t. v = PStr t \<and> b = (t = s))"
  by (cases v) (auto simp: ct_equals_val_def)

lemma words_of_simps [simp]:
  "words_of (PStr s) = Inr (split_ws s)" "words_of PNone = Inr []"
  by (auto simp: words_of_def str_of_def split_ws_def)

end
