(* ===== verification/Jws.thy ===== *)
theory Jws
  imports Exn Json Rsa Ec Ed25519
begin

text \<open>
  \<open>authlab/jose/jws.py\<close>: algorithms, typed keys, and signing, parsing and verifying compact
  JWS tokens.  A key argument of \<open>JWS.verify\<close> is an operation from the parsed header to an
  optional key, so that a key set may refresh itself while it is asked.  \<open>signature_scheme\<close>
  is what the token layer needs of an algorithm; it holds of HMAC and of RSASSA-PKCS1-v1_5.
\<close>

section \<open>Algorithms\<close>

datatype jose_key =
    KBytes "byte list" | KRsaPriv rsa_private | KRsaPub rsa_public
  | KEcPriv ec_private | KEcPub ec_point | KEdPriv "byte list" | KEdPub "byte list"

datatype alg_kind = HMAC | RSA | ECDSA | EdDSA

record algorithm =
  alg_name :: string
  alg_kind :: alg_kind
  alg_hash :: string
  alg_curve :: "curve option"

definition FORBIDDEN_HEADERS :: "string list" where
  "FORBIDDEN_HEADERS = [''jwk'', ''jku'', ''x5u'', ''x5c'']"

definition mk_alg :: "string \<Rightarrow> alg_kind \<Rightarrow> string \<Rightarrow> curve option \<Rightarrow> algorithm" where
  "mk_alg name k h c = \<lparr>alg_name = name, alg_kind = k, alg_hash = h, alg_curve = c\<rparr>"

definition HS256 :: algorithm where "HS256 = mk_alg ''HS256'' HMAC ''sha256'' None"
definition HS384 :: algorithm where "HS384 = mk_alg ''HS384'' HMAC ''sha384'' None"
definition HS512 :: algorithm where "HS512 = mk_alg ''HS512'' HMAC ''sha512'' None"
definition RS256 :: algorithm where "RS256 = mk_alg ''RS256'' RSA ''sha256'' None"
definition RS384 :: algorithm where "RS384 = mk_alg ''RS384'' RSA ''sha384'' None"
definition RS512 :: algorithm where "RS512 = mk_alg ''RS512'' RSA ''sha512'' None"
definition ES256 :: algorithm where "ES256 = mk_alg ''ES256'' ECDSA ''sha256'' (Some SECP256R1)"
definition ES384 :: algorithm where "ES384 = mk_alg ''ES384'' ECDSA ''sha384'' (Some SECP384R1)"
definition ES512 :: algorithm where "ES512 = mk_alg ''ES512'' ECDSA ''sha512'' (Some SECP521R1)"
definition EDDSA :: algorithm where "EDDSA = mk_alg ''EdDSA'' EdDSA ''sha512'' None"

definition ALGORITHMS :: "(string, algorithm) dict" where
  "ALGORITHMS =
     map (\<lambda>a. (alg_name a, a)) [HS256, HS384, HS512, RS256, RS384, RS512, ES256, ES384, ES512, EDDSA]"

lemmas algorithm_defs = mk_alg_def HS256_def HS384_def HS512_def RS256_def RS384_def RS512_def
  ES256_def ES384_def ES512_def EDDSA_def

definition require_curve :: "algorithm \<Rightarrow> curve \<Rightarrow> exn + unit" where
  "require_curve a c =
     (case alg_curve a of
        None \<Rightarrow> Inr ()
      | Some c' \<Rightarrow> if c \<noteq> c' then Inl (Jose InvalidSignature) else Inr ())"

definition algorithm_sign :: "algorithm \<Rightarrow> jose_key \<Rightarrow> byte list \<Rightarrow> exn + byte list" where
  "algorithm_sign a key signing_input =
     (case alg_kind a of
        HMAC \<Rightarrow>
          (case key of KBytes secret \<Rightarrow> py (hmac_new (alg_hash a) secret signing_input)
           | _ \<Rightarrow> Inl (Jose InvalidSignature))
      | RSA \<Rightarrow>
          (case key of KRsaPriv k \<Rightarrow> py (rsassa_sign k signing_input (alg_hash a))
           | _ \<Rightarrow> Inl (Jose InvalidSignature))
      | ECDSA \<Rightarrow>
          (case key of
             KEcPriv k \<Rightarrow>
               bind_res (require_curve a (ec_curve k)) (\<lambda>_.
                 bind_res (py (ecdsa_sign k signing_input (alg_hash a))) (\<lambda>sig.
                   py (signature_to_raw sig (ec_curve k))))
           | _ \<Rightarrow> Inl (Jose InvalidSignature))
      | EdDSA \<Rightarrow>
          (case key of KEdPriv seed \<Rightarrow> py (ed25519_sign seed signing_input)
           | _ \<Rightarrow> Inl (Jose InvalidSignature)))"

definition algorithm_verify :: "algorithm \<Rightarrow> jose_key \<Rightarrow> byte list \<Rightarrow> byte list \<Rightarrow> exn + bool" where
  "algorithm_verify a key signing_input signature =
     (case alg_kind a of
        HMAC \<Rightarrow>
          (case key of
             KBytes secret \<Rightarrow>
               bind_res (py (hmac_new (alg_hash a) secret signing_input)) (\<lambda>expected. Inr (expected = signature))
           | _ \<Rightarrow> Inl (Jose InvalidSignature))
      | RSA \<Rightarrow>
          (case (case key of KRsaPriv k \<Rightarrow> KRsaPub (rsa_public_of k) | _ \<Rightarrow> key) of
             KRsaPub k \<Rightarrow> py (rsassa_verify k signing_input signature (alg_hash a))
           | _ \<Rightarrow> Inl (Jose InvalidSignature))
      | ECDSA \<Rightarrow>
          bind_res (case key of KEcPriv k \<Rightarrow> map_sum id KEcPub (py (ec_public_of k)) | _ \<Rightarrow> Inr key) (\<lambda>public.
            case public of
              KEcPub k \<Rightarrow>
                bind_res (require_curve a (pt_curve k)) (\<lambda>_.
                  case signature_from_raw signature (pt_curve k) of
                    Inl e \<Rightarrow> if is_value_error e then Inr False else Inl (Py e)
                  | Inr parsed \<Rightarrow> py (ecdsa_verify k signing_input parsed (alg_hash a)))
            | _ \<Rightarrow> Inl (Jose InvalidSignature))
      | EdDSA \<Rightarrow>
          bind_res (case key of KEdPriv seed \<Rightarrow> map_sum id KEdPub (py (ed_public_of seed)) | _ \<Rightarrow> Inr key) (\<lambda>public.
            case public of
              KEdPub k \<Rightarrow> py (ed25519_verify k signing_input signature)
            | _ \<Rightarrow> Inl (Jose InvalidSignature)))"

section \<open>Tokens\<close>

record parsed_jws =
  jws_header :: pydict
  jws_payload :: "byte list"
  jws_signature :: "byte list"
  jws_signing_input :: "byte list"
  jws_raw :: string

text \<open>The header of a new token: caller-supplied headers never replace \<open>alg\<close>.\<close>

definition jws_build_header :: "algorithm \<Rightarrow> pydict \<Rightarrow> string option \<Rightarrow> string option \<Rightarrow> exn + pydict" where
  "jws_build_header a headers kid typ =
     (let h0 = [(''alg'', PStr (alg_name a))];
          h1 = (case typ of Some t \<Rightarrow> if t \<noteq> [] then dset ''typ'' (PStr t) h0 else h0 | None \<Rightarrow> h0);
          h2 = (case kid of Some k \<Rightarrow> if k \<noteq> [] then dset ''kid'' (PStr k) h1 else h1 | None \<Rightarrow> h1)
      in fold_res (\<lambda>(name, value) h.
           if name \<in> set FORBIDDEN_HEADERS then Inl (Jose InvalidSignature)
           else if name = ''alg'' then Inr h
           else Inr (dset name value h)) headers h2)"

text \<open>The payload is bytes or a set of claims.\<close>

definition jws_sign ::
  "byte list + pydict \<Rightarrow> jose_key \<Rightarrow> algorithm \<Rightarrow> pydict \<Rightarrow> string option \<Rightarrow> string option \<Rightarrow> exn + string" where
  "jws_sign payload key a headers kid typ =
     bind_res (jws_build_header a headers kid typ) (\<lambda>header.
       let payload_segment = (case payload of Inl raw \<Rightarrow> b64u_encode raw | Inr claims \<Rightarrow> json_b64u (PDict claims));
           text = json_b64u (PDict header) @ ''.'' @ payload_segment
       in bind_res (py (ascii_encode text)) (\<lambda>signing_input.
            bind_res (algorithm_sign a key signing_input) (\<lambda>signature.
              Inr (text @ ''.'' @ b64u_encode signature))))"

definition jws_parse :: "string \<Rightarrow> exn + parsed_jws" where
  "jws_parse token =
     (case split_on CHR ''.'' token of
        [header_seg, payload_seg, signature_seg] \<Rightarrow>
          (if header_seg = [] \<or> payload_seg = [] then Inl (Jose InvalidToken)
           else bind_res
             (catch_all (Jose InvalidToken) (py
               (bind_res (b64u_json header_seg) (\<lambda>header.
                 bind_res (b64u_decode payload_seg) (\<lambda>payload.
                   bind_res (b64u_decode signature_seg) (\<lambda>signature. Inr (header, payload, signature)))))))
             (\<lambda>(header, payload, signature).
               case header of
                 PDict h \<Rightarrow>
                   bind_res (py (ascii_encode (header_seg @ ''.'' @ payload_seg))) (\<lambda>signing_input.
                     Inr \<lparr>jws_header = h, jws_payload = payload, jws_signature = signature,
                          jws_signing_input = signing_input, jws_raw = token\<rparr>)
               | _ \<Rightarrow> Inl (Jose InvalidToken)))
      | _ \<Rightarrow> Inl (Jose InvalidToken))"

text \<open>The checks between parsing and asking for the key.\<close>

definition jws_select :: "parsed_jws \<Rightarrow> string list \<Rightarrow> bool \<Rightarrow> exn + algorithm" where
  "jws_select parsed allowed allow_forbidden =
     (if \<not> allow_forbidden \<and> list_ex (\<lambda>name. dget (jws_header parsed) name \<noteq> None) FORBIDDEN_HEADERS
      then Inl (Jose InvalidSignature)
      else (case pget (jws_header parsed) ''alg'' of
          PStr name \<Rightarrow>
            (if name \<notin> set allowed then Inl (Jose InvalidSignature)
             else (case dget ALGORITHMS name of
                 None \<Rightarrow> Inl (Jose InvalidSignature)
               | Some a \<Rightarrow> if jws_signature parsed = [] then Inl (Jose InvalidSignature) else Inr a))
        | _ \<Rightarrow> Inl (Jose InvalidSignature)))"

definition jws_verify ::
  "string \<Rightarrow> (pydict \<Rightarrow> ('s, jose_key option) op) \<Rightarrow> string list \<Rightarrow> bool \<Rightarrow> ('s, parsed_jws) op" where
  "jws_verify token key allowed allow_forbidden =
     (if allowed = [] then raise (Jose InvalidSignature)
      else if ''none'' \<in> set (map lower allowed) then raise (Jose InvalidSignature)
      else bindM (lift (jws_parse token)) (\<lambda>parsed.
        bindM (lift (jws_select parsed allowed allow_forbidden)) (\<lambda>a.
          bindM (key (jws_header parsed)) (\<lambda>resolved.
            case resolved of
              None \<Rightarrow> raise (Jose InvalidSignature)
            | Some k \<Rightarrow>
                bindM (lift (algorithm_verify a k (jws_signing_input parsed) (jws_signature parsed))) (\<lambda>good.
                  if good then ret parsed else raise (Jose InvalidSignature))))))"

text \<open>A key that is not a callable.\<close>

definition static_key :: "jose_key \<Rightarrow> pydict \<Rightarrow> ('s, jose_key option) op" where
  "static_key k header = ret (Some k)"

section \<open>What a verified token is\<close>

lemma jws_parse_D:
  assumes "jws_parse token = Inr p"
  obtains hs ps ss where "split_on CHR ''.'' token = [hs, ps, ss]"
    "b64u_json hs = Inr (PDict (jws_header p))" "b64u_decode ps = Inr (jws_payload p)"
    "b64u_decode ss = Inr (jws_signature p)" "jws_signing_input p = map of_char (hs @ ''.'' @ ps)"
    "is_ascii (hs @ ''.'' @ ps)" "jws_raw p = token"
  using assms
  by (fastforce simp: jws_parse_def ascii_encode_def split: list.splits if_splits pyval.splits elim!: bind_res_InrE)

text \<open>The kind of key an algorithm accepts.\<close>

fun key_fits :: "alg_kind \<Rightarrow> jose_key \<Rightarrow> bool" where
  "key_fits HMAC (KBytes _) = True"
| "key_fits RSA (KRsaPriv _) = True"
| "key_fits RSA (KRsaPub _) = True"
| "key_fits ECDSA (KEcPriv _) = True"
| "key_fits ECDSA (KEcPub _) = True"
| "key_fits EdDSA (KEdPriv _) = True"
| "key_fits EdDSA (KEdPub _) = True"
| "key_fits _ _ = False"

lemma algorithm_verify_key_fits: "algorithm_verify a key m sig = Inr b \<Longrightarrow> key_fits (alg_kind a) key"
  by (cases "(alg_kind a, key)" rule: key_fits.cases) (auto simp: algorithm_verify_def elim!: bind_res_InrE)

lemma jws_select_D:
  "jws_select p allowed allow_forbidden = Inr a \<Longrightarrow>
   pget (jws_header p) ''alg'' = PStr (alg_name a) \<and> alg_name a \<in> set allowed \<and> dget ALGORITHMS (alg_name a) = Some a
   \<and> jws_signature p \<noteq> [] \<and> (allow_forbidden \<or> (\<forall>name \<in> set FORBIDDEN_HEADERS. dget (jws_header p) name = None))"
  by (auto simp: jws_select_def list_ex_iff ALGORITHMS_def algorithm_defs FORBIDDEN_HEADERS_def
      split: if_splits pyval.splits option.splits)

lemma jws_verify_D:
  assumes "jws_verify token key allowed allow_forbidden s = (Inr p, s')"
  obtains a k where "jws_parse token = Inr p" "jws_select p allowed allow_forbidden = Inr a"
    "key (jws_header p) s = (Inr (Some k), s')"
    "algorithm_verify a k (jws_signing_input p) (jws_signature p) = Inr True"
    "''none'' \<notin> set (map lower allowed)"
  using assms
  by (auto simp: jws_verify_def bindM_Inr_iff split: if_splits option.splits)

text \<open>A token is rejected without asking for a key, and so without changing the state, when its header is not acceptable.\<close>

lemma jws_verify_rejects:
  assumes "jws_parse token = Inr p" "jws_select p allowed allow_forbidden = Inl e"
  shows "\<exists>x. jws_verify token key allowed allow_forbidden s = (Inl x, s)"
  using assms by (simp add: jws_verify_def bindM_def split: if_splits)

section \<open>Tokens that were signed\<close>

lemma split_on_two_dots:
  "CHR ''.'' \<notin> set a \<Longrightarrow> CHR ''.'' \<notin> set b \<Longrightarrow> CHR ''.'' \<notin> set c \<Longrightarrow>
   split_on CHR ''.'' (a @ ''.'' @ b @ ''.'' @ c) = [a, b, c]"
  by (simp add: split_on_append split_on_absent)

lemma json_b64u_no_dot [simp]: "CHR ''.'' \<notin> set (json_b64u v)"
  and json_b64u_ascii [simp]: "is_ascii (json_b64u v)"
  by (simp_all add: json_b64u_def)

lemma json_dumps_not_Nil [simp]: "json_dumps v \<noteq> []"
  using json_dumps_head [of v] by auto

lemma utf8_encode_Nil_iff [simp]: "utf8_encode s = [] \<longleftrightarrow> s = []"
  by (cases s) (simp_all add: utf8_encode_def utf8_char_def Let_def)

lemma json_b64u_not_Nil [simp]: "json_b64u v \<noteq> []"
  by (simp add: json_b64u_def json_compact_def)

lemma is_ascii_simps [simp]:
  "is_ascii (a @ b) \<longleftrightarrow> is_ascii a \<and> is_ascii b"
  "is_ascii (c # a) \<longleftrightarrow> (of_char c :: nat) < 128 \<and> is_ascii a"
  by (auto simp: is_ascii_def)

definition payload_segment :: "byte list + pydict \<Rightarrow> string" where
  "payload_segment payload = (case payload of Inl raw \<Rightarrow> b64u_encode raw | Inr claims \<Rightarrow> json_b64u (PDict claims))"

definition payload_bytes :: "byte list + pydict \<Rightarrow> byte list" where
  "payload_bytes payload = (case payload of Inl raw \<Rightarrow> raw | Inr claims \<Rightarrow> json_compact (PDict claims))"

lemma payload_segment_simps [simp]:
  "CHR ''.'' \<notin> set (payload_segment payload)" "is_ascii (payload_segment payload)"
  "b64u_decode (payload_segment payload) = Inr (payload_bytes payload)"
  "payload_segment payload = [] \<longleftrightarrow> payload = Inl []"
  by (cases payload; simp add: payload_segment_def payload_bytes_def json_b64u_def json_compact_def)+

lemma jws_parse_signed:
  assumes "json_clean (PDict header)" "payload \<noteq> Inl []"
  shows "jws_parse ((json_b64u (PDict header) @ ''.'' @ payload_segment payload) @ ''.'' @ b64u_encode sig) =
    Inr \<lparr>jws_header = header, jws_payload = payload_bytes payload, jws_signature = sig,
         jws_signing_input = map of_char (json_b64u (PDict header) @ ''.'' @ payload_segment payload),
         jws_raw = (json_b64u (PDict header) @ ''.'' @ payload_segment payload) @ ''.'' @ b64u_encode sig\<rparr>"
  using assms split_on_two_dots [of "json_b64u (PDict header)" "payload_segment payload" "b64u_encode sig"]
  by (simp add: jws_parse_def b64u_json_b64u ascii_encode_def)

text \<open>What the token layer needs of an algorithm: \<open>pair sk vk\<close> relates a signing and a verification key.\<close>

locale signature_scheme =
  fixes a :: algorithm and pair :: "jose_key \<Rightarrow> jose_key \<Rightarrow> bool"
  assumes sign_verify: "pair sk vk \<Longrightarrow>
      \<exists>sig. algorithm_sign a sk m = Inr sig \<and> sig \<noteq> [] \<and> algorithm_verify a vk m sig = Inr True"
    and registered: "dget ALGORITHMS (alg_name a) = Some a"
begin

lemma signed_token_verifies:
  assumes keys: "pair sk vk"
    and header: "jws_build_header a headers kid typ = Inr header" "json_clean (PDict header)"
      "pget header ''alg'' = PStr (alg_name a)" "\<forall>name \<in> set FORBIDDEN_HEADERS. dget header name = None"
    and payload: "payload \<noteq> Inl []"
    and allowed: "alg_name a \<in> set allowed" "''none'' \<notin> set (map lower allowed)"
  shows "\<exists>token p. jws_sign payload sk a headers kid typ = Inr token
    \<and> jws_parse token = Inr p \<and> jws_header p = header \<and> jws_payload p = payload_bytes payload
    \<and> is_ascii token
    \<and> (\<forall>key s s'. key header s = (Inr (Some vk), s') \<longrightarrow> jws_verify token key allowed False s = (Inr p, s'))"
proof -
  let ?text = "json_b64u (PDict header) @ ''.'' @ payload_segment payload"
  from sign_verify [OF keys] obtain sig
    where sig: "algorithm_sign a sk (map of_char ?text) = Inr sig" "sig \<noteq> []"
      "algorithm_verify a vk (map of_char ?text) sig = Inr True" by blast
  let ?token = "?text @ ''.'' @ b64u_encode sig"
  obtain p where p: "jws_parse ?token = Inr p" "jws_header p = header" "jws_payload p = payload_bytes payload"
    "jws_signature p = sig" "jws_signing_input p = map of_char ?text"
    using jws_parse_signed [OF header(2) payload, of sig] by simp
  have "jws_sign payload sk a headers kid typ = Inr ?token"
    using header(1) sig(1) by (simp add: jws_sign_def Let_def payload_segment_def [symmetric] ascii_encode_def)
  moreover have "jws_select p allowed False = Inr a"
    using p header allowed sig(2) registered by (auto simp: jws_select_def list_ex_iff)
  then have "jws_verify ?token key allowed False s = (Inr p, s')"
    if "key header s = (Inr (Some vk), s')" for key s s'
    using that p allowed sig(3) by (auto simp: jws_verify_def bindM_def)
  moreover have "is_ascii ?token" by simp
  ultimately show ?thesis using p(1-3) by blast
qed

end

lemma hmac_new_not_Nil: "hmac_new name key m = Inr mac \<Longrightarrow> mac \<noteq> []"
  using hash_named_digest_size by (fastforce dest: hmac_new_length)

text \<open>HMAC, with the same secret on both sides.\<close>

lemma hmac_sign_verify:
  assumes "alg_kind a = HMAC" "hash_named (alg_hash a) \<noteq> None" "sk = KBytes secret" "vk = sk"
  shows "\<exists>sig. algorithm_sign a sk m = Inr sig \<and> sig \<noteq> [] \<and> algorithm_verify a vk m sig = Inr True"
  using assms hmac_new_not_Nil [of "alg_hash a" secret m]
  by (auto simp: algorithm_sign_def algorithm_verify_def hmac_new_def split: option.splits)

definition hmac_pair :: "jose_key \<Rightarrow> jose_key \<Rightarrow> bool" where
  "hmac_pair sk vk \<longleftrightarrow> vk = sk \<and> (\<exists>secret. sk = KBytes secret)"

text \<open>RSA, with a well-formed private key that is long enough for the hash.\<close>

definition rsa_pair :: "algorithm \<Rightarrow> jose_key \<Rightarrow> jose_key \<Rightarrow> bool" where
  "rsa_pair a sk vk \<longleftrightarrow>
     (\<exists>k. sk = KRsaPriv k \<and> vk = KRsaPub (rsa_public_of k) \<and> rsa_key_ok k
        \<and> em_fits (key_size_bytes (rsk_n k)) (alg_hash a))"

lemma rsa_sign_verify:
  assumes "alg_kind a = RSA" "rsa_pair a sk vk"
  shows "\<exists>sig. algorithm_sign a sk m = Inr sig \<and> sig \<noteq> [] \<and> algorithm_verify a vk m sig = Inr True"
proof -
  from assms(2) obtain k where k: "sk = KRsaPriv k" "vk = KRsaPub (rsa_public_of k)" "rsa_key_ok k"
    "em_fits (key_size_bytes (rsk_n k)) (alg_hash a)" by (auto simp: rsa_pair_def)
  from rsassa_verify_sign [OF k(3,4), of m] obtain sig where
    "rsassa_sign k m (alg_hash a) = Inr sig" "length sig = key_size_bytes (rsk_n k)"
    "rsassa_verify (rsa_public_of k) m sig (alg_hash a) = Inr True" by blast
  moreover have "0 < key_size_bytes (rsk_n k)" using k(4) by (auto simp: em_fits_def split: option.splits)
  ultimately show ?thesis using assms(1) k(1,2)
    by (auto simp: algorithm_sign_def algorithm_verify_def)
qed

interpretation hs256: signature_scheme HS256 hmac_pair
  by unfold_locales
     (auto simp: hmac_pair_def algorithm_defs hash_named_def ALGORITHMS_def intro!: hmac_sign_verify)

interpretation rs256: signature_scheme RS256 "rsa_pair RS256"
  by unfold_locales (auto simp: algorithm_defs ALGORITHMS_def intro!: rsa_sign_verify)

section \<open>The properties\<close>

text \<open>
  C20: A token that \<open>JWS.verify\<close> accepts names an algorithm that the caller allowed and the
  library implements, never \<open>none\<close>; its signature is not empty and verifies, over the
  bytes of the first two segments as they were received, under the key the caller resolved
  from the header; that key is of the kind the algorithm takes, so an RSA or EC public key is
  never used as an HMAC secret; and no header nominates a key.
\<close>

theorem verified_token_is_authentic:
  assumes "jws_verify token key allowed False s = (Inr p, s')"
  shows "\<exists>a k hs ps ss. split_on CHR ''.'' token = [hs, ps, ss]
    \<and> jws_signing_input p = map of_char (hs @ ''.'' @ ps)
    \<and> b64u_decode ps = Inr (jws_payload p) \<and> b64u_decode ss = Inr (jws_signature p)
    \<and> pget (jws_header p) ''alg'' = PStr (alg_name a) \<and> alg_name a \<in> set allowed
    \<and> dget ALGORITHMS (alg_name a) = Some a \<and> lower (alg_name a) \<noteq> ''none''
    \<and> key (jws_header p) s = (Inr (Some k), s') \<and> key_fits (alg_kind a) k
    \<and> jws_signature p \<noteq> []
    \<and> algorithm_verify a k (jws_signing_input p) (jws_signature p) = Inr True
    \<and> (\<forall>name \<in> set FORBIDDEN_HEADERS. dget (jws_header p) name = None)"
proof -
  from assms obtain a k where v: "jws_parse token = Inr p" "jws_select p allowed False = Inr a"
    "key (jws_header p) s = (Inr (Some k), s')"
    "algorithm_verify a k (jws_signing_input p) (jws_signature p) = Inr True"
    "''none'' \<notin> set (map lower allowed)" by (rule jws_verify_D)
  from v(1) obtain hs ps ss where "split_on CHR ''.'' token = [hs, ps, ss]"
    "b64u_decode ps = Inr (jws_payload p)" "b64u_decode ss = Inr (jws_signature p)"
    "jws_signing_input p = map of_char (hs @ ''.'' @ ps)" by (rule jws_parse_D) metis
  moreover have "lower (alg_name a) \<noteq> ''none''"
    using jws_select_D [OF v(2)] v(5) by (metis image_eqI image_set)
  ultimately show ?thesis
    using jws_select_D [OF v(2)] v(3) algorithm_verify_key_fits [OF v(4)] v(4) by blast
qed

definition sample_header :: pydict where
  "sample_header = [(''alg'', PStr ''RS256''), (''typ'', PStr ''JWT''), (''kid'', PStr ''k1'')]"

definition sample_token :: string where
  "sample_token =
     (case jws_sign (Inr [(''sub'', PStr ''alice'')]) (KRsaPriv sample_key) RS256 [] (Some ''k1'') (Some ''JWT'') of
        Inr t \<Rightarrow> t | Inl _ \<Rightarrow> [])"

lemma sample_pair: "rsa_pair RS256 (KRsaPriv sample_key) (KRsaPub (rsa_public_of sample_key))"
  using sample_key_ok
  by (simp add: rsa_pair_def sample_key_size em_fits_def digest_info_prefix_def hash_named_def algorithm_defs)

lemma sample_token_verifies:
  "\<exists>p. jws_payload p = json_compact (PDict [(''sub'', PStr ''alice'')])
     \<and> jws_verify sample_token (static_key (KRsaPub (rsa_public_of sample_key))) [''RS256''] False () = (Inr p, ())"
proof -
  have build: "jws_build_header RS256 [] (Some ''k1'') (Some ''JWT'') = Inr sample_header"
    by (simp add: jws_build_header_def sample_header_def algorithm_defs)
  have header: "json_clean (PDict sample_header)" "pget sample_header ''alg'' = PStr (alg_name RS256)"
    "\<forall>name \<in> set FORBIDDEN_HEADERS. dget sample_header name = None"
    "alg_name RS256 \<in> set [''RS256'']" "''none'' \<notin> set (map lower [''RS256''])"
    by (simp_all add: sample_header_def algorithm_defs FORBIDDEN_HEADERS_def lower_def lower_char_def)
  from rs256.signed_token_verifies [OF sample_pair build header(1,2,3) _ header(4,5), of "Inr [(''sub'', PStr ''alice'')]"]
  obtain token p where token: "jws_sign (Inr [(''sub'', PStr ''alice'')]) (KRsaPriv sample_key) RS256 [] (Some ''k1'') (Some ''JWT'') = Inr token"
    and p: "jws_payload p = payload_bytes (Inr [(''sub'', PStr ''alice'')])"
    and verify: "\<And>key (s :: unit) s'. key sample_header s = (Inr (Some (KRsaPub (rsa_public_of sample_key))), s') \<Longrightarrow>
      jws_verify token key [''RS256''] False s = (Inr p, s')"
    by blast
  have "jws_verify token (static_key (KRsaPub (rsa_public_of sample_key))) [''RS256''] False () = (Inr p, ())"
    by (rule verify) (simp add: static_key_def)
  moreover have "sample_token = token" unfolding sample_token_def token by simp
  ultimately show ?thesis using p by (auto simp: payload_bytes_def)
qed

theorem verified_token_is_authentic_witness:
  "\<exists>p a k. jws_verify sample_token (static_key (KRsaPub (rsa_public_of sample_key))) [''RS256''] False () = (Inr p, ())
     \<and> alg_name a \<in> set [''RS256''] \<and> key_fits (alg_kind a) k
     \<and> algorithm_verify a k (jws_signing_input p) (jws_signature p) = Inr True"
  using sample_token_verifies verified_token_is_authentic by meson

end
