(* ===== verification/Jwks.thy ===== *)
theory Jwks
  imports Jws
begin

text \<open>
  \<open>authlab/jose/jwks.py\<close>: JSON Web Keys, thumbprints, and key sets resolved by \<open>kid\<close>.
  A JWK is the JSON value it was parsed from.  \<open>fetch\<close> is code outside the library: a
  parameter of the key set, which gives the keys that the n-th refresh returns.
\<close>

section \<open>Keys\<close>

definition b64u_decode_val :: "pyval \<Rightarrow> py_error + byte list" where
  "b64u_decode_val v = (case v of PStr s \<Rightarrow> b64u_decode s | _ \<Rightarrow> Inl TypeError)"

text \<open>A member of the key that has to be there, base64url-decoded.\<close>

definition jwk_bytes :: "pydict \<Rightarrow> string \<Rightarrow> py_error + byte list" where
  "jwk_bytes data name = bind_res (dict_item data name) b64u_decode_val"

definition jwk_kid :: "pyval \<Rightarrow> py_error + pyval" where
  "jwk_kid jwk = map_sum id (\<lambda>d. pget d ''kid'') (as_dict jwk)"

definition jwk_kty :: "pydict \<Rightarrow> pyval" where
  "jwk_kty data = (case dget data ''kty'' of None \<Rightarrow> PStr [] | Some v \<Rightarrow> v)"

text \<open>The members of a thumbprint, in lexicographic order.\<close>

definition thumbprint_members :: "pydict \<Rightarrow> py_error + string list" where
  "thumbprint_members data =
     (let kty = pget data ''kty'' in
      if kty = PStr ''RSA'' then Inr [''e'', ''kty'', ''n'']
      else if kty = PStr ''oct'' then Inr [''k'', ''kty'']
      else if kty = PStr ''EC'' then Inr [''crv'', ''kty'', ''x'', ''y'']
      else if kty = PStr ''OKP'' then Inr [''crv'', ''kty'', ''x'']
      else Inl ValueError)"

definition thumbprint :: "pydict \<Rightarrow> py_error + string" where
  "thumbprint data =
     bind_res (thumbprint_members data) (\<lambda>names.
       bind_res (map_res (\<lambda>k. map_sum id (\<lambda>v. (k, v)) (dict_item data k)) names) (\<lambda>required.
         Inr (b64u_encode (sha256 (json_compact (PDict required))))))"

text \<open>\<open>kid or cls.thumbprint(data)\<close>, written into the key.\<close>

definition with_kid :: "string option \<Rightarrow> pydict \<Rightarrow> py_error + pydict" where
  "with_kid kid data =
     (case kid of
        Some k \<Rightarrow> if k \<noteq> [] then Inr (dset ''kid'' (PStr k) data)
                  else map_sum id (\<lambda>t. dset ''kid'' (PStr t) data) (thumbprint data)
      | None \<Rightarrow> map_sum id (\<lambda>t. dset ''kid'' (PStr t) data) (thumbprint data))"

definition from_rsa_public :: "rsa_public \<Rightarrow> string option \<Rightarrow> string \<Rightarrow> string \<Rightarrow> py_error + pydict" where
  "from_rsa_public key kid alg use =
     bind_res (b64u_encode_int (rsa_n key) (Some (key_size_bytes (rsa_n key)))) (\<lambda>n.
       bind_res (b64u_encode_int (rsa_e key) None) (\<lambda>e.
         with_kid kid
           [(''kty'', PStr ''RSA''), (''use'', PStr use), (''alg'', PStr alg), (''n'', PStr n), (''e'', PStr e)]))"

text \<open>Members whose values are integers, each at its width.\<close>

definition int_members :: "(string \<times> int \<times> nat) list \<Rightarrow> py_error + pydict" where
  "int_members ms = map_res (\<lambda>(name, v, width). map_sum id (\<lambda>t. (name, PStr t)) (b64u_encode_int v (Some width))) ms"

definition from_rsa_private :: "rsa_private \<Rightarrow> string option \<Rightarrow> string \<Rightarrow> py_error + pydict" where
  "from_rsa_private key kid alg =
     bind_res (from_rsa_public (rsa_public_of key) kid alg ''sig'') (\<lambda>public.
       let size = key_size_bytes (rsk_n key); half = (int_bit_length (rsk_p key) + 7) div 8 in
       map_sum id (dmerge public)
         (int_members [(''d'', rsk_d key, size), (''p'', rsk_p key, half), (''q'', rsk_q key, half),
            (''dp'', rsk_dp key, half), (''dq'', rsk_dq key, half), (''qi'', rsk_qinv key, half)]))"

definition from_ec_public :: "ec_point \<Rightarrow> string option \<Rightarrow> string option \<Rightarrow> string \<Rightarrow> py_error + pydict" where
  "from_ec_public key kid alg use =
     (case pt_xy key of
        None \<Rightarrow> Inl TypeError
      | Some (x, y) \<Rightarrow>
          (let c = pt_curve key in
           bind_res (b64u_encode_int x (Some (c_field_bytes c))) (\<lambda>bx.
             bind_res (b64u_encode_int y (Some (c_field_bytes c))) (\<lambda>bytes_y.
               with_kid kid
                 [(''kty'', PStr ''EC''), (''use'', PStr use),
                  (''alg'', PStr (case alg of Some a \<Rightarrow> if a \<noteq> [] then a else c_jose_alg c | None \<Rightarrow> c_jose_alg c)),
                  (''crv'', PStr (c_jose_crv c)), (''x'', PStr bx), (''y'', PStr bytes_y)]))))"

definition from_ec_private :: "ec_private \<Rightarrow> string option \<Rightarrow> string option \<Rightarrow> py_error + pydict" where
  "from_ec_private key kid alg =
     bind_res (ec_public_of key) (\<lambda>pub.
       bind_res (from_ec_public pub kid alg ''sig'') (\<lambda>public.
         map_sum id (\<lambda>d. dset ''d'' (PStr d) public)
           (b64u_encode_int (ec_d key) (Some (c_field_bytes (ec_curve key))))))"

definition from_okp_public :: "byte list \<Rightarrow> string option \<Rightarrow> string \<Rightarrow> string \<Rightarrow> py_error + pydict" where
  "from_okp_public key kid alg use =
     with_kid kid
       [(''kty'', PStr ''OKP''), (''use'', PStr use), (''alg'', PStr alg), (''crv'', PStr ''Ed25519''),
        (''x'', PStr (b64u_encode key))]"

definition from_okp_private :: "byte list \<Rightarrow> string option \<Rightarrow> string \<Rightarrow> py_error + pydict" where
  "from_okp_private seed kid alg =
     bind_res (ed_public_of seed) (\<lambda>pub.
       map_sum id (dset ''d'' (PStr (b64u_encode seed))) (from_okp_public pub kid alg ''sig''))"

definition from_secret :: "byte list \<Rightarrow> string \<Rightarrow> string \<Rightarrow> pydict" where
  "from_secret secret kid alg =
     [(''kty'', PStr ''oct''), (''kid'', PStr kid), (''alg'', PStr alg), (''k'', PStr (b64u_encode secret))]"

definition PRIVATE_MEMBERS :: "string list" where
  "PRIVATE_MEMBERS = [''d'', ''p'', ''q'', ''dp'', ''dq'', ''qi'', ''oth'', ''k'']"

definition jwk_public :: "pydict \<Rightarrow> pydict" where
  "jwk_public data = filter (\<lambda>(k, v). k \<notin> set PRIVATE_MEMBERS) data"

definition to_rsa_public :: "pydict \<Rightarrow> py_error + rsa_public" where
  "to_rsa_public data =
     (if jwk_kty data \<noteq> PStr ''RSA'' then Inl ValueError
      else bind_res (jwk_bytes data ''n'') (\<lambda>n. bind_res (jwk_bytes data ''e'') (\<lambda>e.
        Inr \<lparr>rsa_n = bytes_to_int n, rsa_e = bytes_to_int e\<rparr>)))"

definition jwk_curve :: "pydict \<Rightarrow> py_error + curve" where
  "jwk_curve data =
     (if jwk_kty data \<noteq> PStr ''EC'' then Inl ValueError
      else (case pget data ''crv'' of
          PStr name \<Rightarrow> (case curve_by_jose_crv name of None \<Rightarrow> Inl ValueError | Some c \<Rightarrow> Inr c)
        | _ \<Rightarrow> Inl ValueError))"

definition to_ec_public :: "pydict \<Rightarrow> py_error + ec_point" where
  "to_ec_public data =
     bind_res (jwk_curve data) (\<lambda>c.
       bind_res (jwk_bytes data ''x'') (\<lambda>x_raw. bind_res (jwk_bytes data ''y'') (\<lambda>y_raw.
         if length x_raw \<noteq> c_field_bytes c \<or> length y_raw \<noteq> c_field_bytes c then Inl ValueError
         else (let pt = \<lparr>pt_xy = Some (bytes_to_int x_raw, bytes_to_int y_raw), pt_curve = c\<rparr>
               in if is_on_curve pt then Inr pt else Inl ValueError))))"

definition to_okp_public :: "pydict \<Rightarrow> py_error + byte list" where
  "to_okp_public data =
     (if jwk_kty data \<noteq> PStr ''OKP'' then Inl ValueError
      else if pget data ''crv'' \<noteq> PStr ''Ed25519'' then Inl ValueError
      else bind_res (jwk_bytes data ''x'') (\<lambda>raw.
        if length raw \<noteq> 32 then Inl ValueError else ed_public_key raw))"

definition key_material :: "pyval \<Rightarrow> py_error + jose_key" where
  "key_material jwk =
     bind_res (as_dict jwk) (\<lambda>data.
       if jwk_kty data = PStr ''RSA'' then map_sum id KRsaPub (to_rsa_public data)
       else if jwk_kty data = PStr ''EC'' then map_sum id KEcPub (to_ec_public data)
       else if jwk_kty data = PStr ''OKP'' then map_sum id KEdPub (to_okp_public data)
       else if jwk_kty data = PStr ''oct'' then map_sum id KBytes (jwk_bytes data ''k'')
       else Inl ValueError)"

section \<open>Key sets\<close>

record jwkset =
  jk_keys :: "pyval list"
  jk_fetch :: "(nat \<Rightarrow> exn + pyval list) option"
  jk_refreshes :: nat
  jk_max_refreshes :: nat

definition jwkset_of :: "pyval list \<Rightarrow> jwkset" where
  "jwkset_of keys = \<lparr>jk_keys = keys, jk_fetch = None, jk_refreshes = 0, jk_max_refreshes = 5\<rparr>"

definition jwkset_add :: "pyval \<Rightarrow> jwkset \<Rightarrow> jwkset" where
  "jwkset_add key ks = ks\<lparr>jk_keys := jk_keys ks @ [key]\<rparr>"

text \<open>The first key with the given \<open>kid\<close>.\<close>

fun find_kid :: "pyval \<Rightarrow> pyval list \<Rightarrow> py_error + pyval option" where
  "find_kid kid [] = Inr None"
| "find_kid kid (key # keys) =
     bind_res (jwk_kid key) (\<lambda>k. if py_eq k kid then Inr (Some key) else find_kid kid keys)"

definition by_kid :: "pyval \<Rightarrow> (jwkset, pyval option) op" where
  "by_kid kid ks =
     (if kid = PNone then (Inr (case jk_keys ks of [key] \<Rightarrow> Some key | _ \<Rightarrow> None), ks)
      else (case find_kid kid (jk_keys ks) of
          Inl e \<Rightarrow> (Inl (Py e), ks)
        | Inr (Some key) \<Rightarrow> (Inr (Some key), ks)
        | Inr None \<Rightarrow>
            (case jk_fetch ks of
               None \<Rightarrow> (Inr None, ks)
             | Some fetch \<Rightarrow>
                 (if jk_refreshes ks < jk_max_refreshes ks then
                    (let ks1 = ks\<lparr>jk_refreshes := jk_refreshes ks + 1\<rparr> in
                     case fetch (jk_refreshes ks) of
                       Inl e \<Rightarrow> (Inl e, ks1)
                     | Inr keys \<Rightarrow> (py (find_kid kid keys), ks1\<lparr>jk_keys := keys\<rparr>))
                  else (Inr None, ks)))))"

text \<open>The key argument that \<open>resolver\<close> gives to \<open>JWS.verify\<close>.\<close>

definition jwks_resolver :: "pydict \<Rightarrow> (jwkset, jose_key option) op" where
  "jwks_resolver header =
     bindM (by_kid (pget header ''kid'')) (\<lambda>found.
       case found of
         None \<Rightarrow> ret None
       | Some jwk \<Rightarrow> bindM (lift (py (key_material jwk))) (\<lambda>k. ret (Some k)))"

definition public_set :: "jwkset \<Rightarrow> py_error + pydict" where
  "public_set ks =
     map_sum id (\<lambda>docs. [(''keys'', PList docs)])
       (map_res (\<lambda>key. map_sum id (\<lambda>d. PDict (jwk_public d)) (as_dict key)) (jk_keys ks))"

definition jwkset_from_json :: "pydict \<Rightarrow> py_error + jwkset" where
  "jwkset_from_json document =
     map_sum id jwkset_of (case dget document ''keys'' of None \<Rightarrow> Inr [] | Some v \<Rightarrow> py_iter v)"

section \<open>Looking keys up\<close>

lemma find_kid_Some: "find_kid kid keys = Inr (Some key) \<Longrightarrow> key \<in> set keys \<and> (\<exists>d. key = PDict d \<and> py_eq (pget d ''kid'') kid)"
  by (induction keys) (auto simp: jwk_kid_def as_dict_def split: if_splits pyval.splits elim!: bind_res_InrE)

lemma by_kid_unchanged_config:
  assumes "by_kid kid ks = (r, ks')"
  shows "jk_fetch ks' = jk_fetch ks \<and> jk_max_refreshes ks' = jk_max_refreshes ks
    \<and> (ks' = ks \<or> jk_refreshes ks < jk_max_refreshes ks \<and> jk_refreshes ks' = jk_refreshes ks + 1)"
  using assms by (auto simp: by_kid_def Let_def split: if_splits sum.splits option.splits)

lemma jwks_resolver_D:
  assumes "jwks_resolver header ks = (Inr (Some k), ks')"
  obtains key where "by_kid (pget header ''kid'') ks = (Inr (Some key), ks')" "key_material key = Inr k"
  using assms by (auto simp: jwks_resolver_def bindM_Inr_iff split: option.splits)

text \<open>A sequence of lookups; results are collected, exceptions do not stop it.\<close>

fun lookups :: "pyval list \<Rightarrow> jwkset \<Rightarrow> jwkset" where
  "lookups [] ks = ks"
| "lookups (kid # kids) ks = lookups kids (snd (by_kid kid ks))"

lemma lookups_config:
  "jk_refreshes ks \<le> jk_max_refreshes ks \<Longrightarrow>
   jk_refreshes (lookups kids ks) \<le> jk_max_refreshes ks \<and> jk_max_refreshes (lookups kids ks) = jk_max_refreshes ks"
proof (induction kids arbitrary: ks)
  case (Cons kid kids)
  obtain r ks' where step: "by_kid kid ks = (r, ks')" by fastforce
  from by_kid_unchanged_config [OF step] Cons.prems Cons.IH [of ks'] step show ?case by auto
qed simp

text \<open>
  However many tokens with unknown key ids arrive, the key set asks the identity provider
  for its keys at most \<open>max_refreshes\<close> times; and a key that a lookup returns is in the set
  afterwards and carries the id that was asked for, or the token named none and the set holds
  just that key.
\<close>

theorem key_refresh_is_bounded:
  assumes "jk_refreshes ks \<le> jk_max_refreshes ks"
  shows "jk_refreshes (lookups kids ks) \<le> jk_max_refreshes ks
    \<and> (\<forall>key ks'. by_kid kid (lookups kids ks) = (Inr (Some key), ks') \<longrightarrow>
         key \<in> set (jk_keys ks') \<and>
         (if kid = PNone then jk_keys ks' = [key] else \<exists>d. key = PDict d \<and> py_eq (pget d ''kid'') kid))"
proof -
  have "key \<in> set (jk_keys ks') \<and>
      (if kid = PNone then jk_keys ks' = [key] else \<exists>d. key = PDict d \<and> py_eq (pget d ''kid'') kid)"
    if "by_kid kid l = (Inr (Some key), ks')" for key l ks'
    using that
    by (auto simp: by_kid_def Let_def split: if_splits sum.splits option.splits list.splits dest: find_kid_Some)
  with lookups_config [OF assms] show ?thesis by blast
qed

definition sample_jwkset :: jwkset where
  "sample_jwkset = \<lparr>jk_keys = [], jk_fetch = Some (\<lambda>n. Inr []), jk_refreshes = 0, jk_max_refreshes = 1\<rparr>"

theorem key_refresh_is_bounded_witness:
  "jk_refreshes (lookups [PStr ''a'', PStr ''b''] sample_jwkset) \<le> 1"
  using key_refresh_is_bounded [of sample_jwkset "[PStr ''a'', PStr ''b'']"]
  by (simp add: sample_jwkset_def del: lookups.simps)

section \<open>Publishing keys\<close>

lemma int_to_bytes_D: "int_to_bytes v len = Inr bs \<Longrightarrow> bytes_to_int bs = v"
proof -
  assume a: "int_to_bytes v len = Inr bs"
  then obtain k where "0 \<le> v" "nat v < 256 ^ k" "bs = nat_be k (nat v)"
    by (auto simp: int_to_bytes_def Let_def split: if_splits option.splits)
  then show ?thesis by (simp add: bytes_to_int_def be_nat_be)
qed

lemma b64u_encode_int_D:
  "b64u_encode_int v len = Inr t \<Longrightarrow> \<exists>bs. b64u_decode t = Inr bs \<and> bytes_to_int bs = v"
  using int_to_bytes_D [of v len] by (auto simp: b64u_encode_int_def map_sum_def split: sum.splits)

lemma with_kid_D:
  "with_kid kid data = Inr d \<Longrightarrow> \<exists>k. d = dset ''kid'' (PStr k) data \<and> (\<forall>k'. kid = Some k' \<and> k' \<noteq> [] \<longrightarrow> k = k')"
  by (auto simp: with_kid_def map_sum_def split: option.splits if_splits sum.splits)

lemma from_rsa_public_D:
  assumes "from_rsa_public key kid alg use = Inr data"
  obtains n e k where
    "data = [(''kty'', PStr ''RSA''), (''use'', PStr use), (''alg'', PStr alg), (''n'', PStr n), (''e'', PStr e), (''kid'', PStr k)]"
    "\<exists>bs. b64u_decode n = Inr bs \<and> bytes_to_int bs = rsa_n key"
    "\<exists>bs. b64u_decode e = Inr bs \<and> bytes_to_int bs = rsa_e key"
    "\<And>k'. kid = Some k' \<Longrightarrow> k' \<noteq> [] \<Longrightarrow> k = k'"
proof -
  from assms obtain n e where
    n: "b64u_encode_int (rsa_n key) (Some (key_size_bytes (rsa_n key))) = Inr n" and
    e: "b64u_encode_int (rsa_e key) None = Inr e" and
    d: "with_kid kid [(''kty'', PStr ''RSA''), (''use'', PStr use), (''alg'', PStr alg), (''n'', PStr n), (''e'', PStr e)] = Inr data"
    unfolding from_rsa_public_def by (elim bind_res_InrE) blast
  from with_kid_D [OF d] obtain k where
    "data = [(''kty'', PStr ''RSA''), (''use'', PStr use), (''alg'', PStr alg), (''n'', PStr n), (''e'', PStr e), (''kid'', PStr k)]"
    "\<And>k'. kid = Some k' \<Longrightarrow> k' \<noteq> [] \<Longrightarrow> k = k'" by auto
  then show thesis by (rule that [OF _ b64u_encode_int_D [OF n] b64u_encode_int_D [OF e]])
qed

lemma from_rsa_public_material:
  "from_rsa_public key kid alg use = Inr data \<Longrightarrow> key_material (PDict data) = Inr (KRsaPub key)"
  by (erule from_rsa_public_D)
     (auto simp: key_material_def as_dict_def jwk_kty_def to_rsa_public_def jwk_bytes_def dict_item_def b64u_decode_val_def)

lemma from_rsa_public_public: "from_rsa_public key kid alg use = Inr data \<Longrightarrow> jwk_public data = data"
  by (erule from_rsa_public_D) (simp add: jwk_public_def PRIVATE_MEMBERS_def)

lemma int_members_names: "int_members ms = Inr ds \<Longrightarrow> map fst ds = map fst ms"
  by (induction ms arbitrary: ds) (auto simp: int_members_def map_sum_def split: sum.splits)

text \<open>Entries that are dropped anyway may be written at any time.\<close>

lemma jwk_public_dset: "k \<in> set PRIVATE_MEMBERS \<Longrightarrow> jwk_public (dset k v d) = jwk_public d"
  by (induction d) (auto simp: jwk_public_def)

lemma jwk_public_dmerge: "fst ` set ds \<subseteq> set PRIVATE_MEMBERS \<Longrightarrow> jwk_public (dmerge d ds) = jwk_public d"
  unfolding dmerge_def by (induction ds arbitrary: d) (auto simp: jwk_public_dset)

lemma from_rsa_private_public:
  assumes "from_rsa_private key kid alg = Inr data"
  shows "from_rsa_public (rsa_public_of key) kid alg ''sig'' = Inr (jwk_public data)"
proof -
  from assms obtain public ds where public: "from_rsa_public (rsa_public_of key) kid alg ''sig'' = Inr public"
    and ds: "int_members [(''d'', rsk_d key, key_size_bytes (rsk_n key)),
        (''p'', rsk_p key, (int_bit_length (rsk_p key) + 7) div 8), (''q'', rsk_q key, (int_bit_length (rsk_p key) + 7) div 8),
        (''dp'', rsk_dp key, (int_bit_length (rsk_p key) + 7) div 8), (''dq'', rsk_dq key, (int_bit_length (rsk_p key) + 7) div 8),
        (''qi'', rsk_qinv key, (int_bit_length (rsk_p key) + 7) div 8)] = Inr ds" and data: "data = dmerge public ds"
    unfolding from_rsa_private_def Let_def by (auto elim!: bind_res_InrE simp: map_sum_def split: sum.splits)
  have "fst ` set ds \<subseteq> set PRIVATE_MEMBERS"
    using arg_cong [OF int_members_names [OF ds], of set] by (simp add: PRIVATE_MEMBERS_def)
  with public data show ?thesis by (simp add: jwk_public_dmerge from_rsa_public_public)
qed

lemma rsa_jwk_resolves:
  assumes "from_rsa_public key (Some kid) alg use = Inr doc" "kid \<noteq> []" "pget header ''kid'' = PStr kid"
  shows "jwks_resolver header (jwkset_of [PDict doc]) = (Inr (Some (KRsaPub key)), jwkset_of [PDict doc])"
proof -
  have "pget doc ''kid'' = PStr kid"
    using assms(1,2) by (elim from_rsa_public_D) auto
  then show ?thesis
    using from_rsa_public_material [OF assms(1)] assms(3)
    by (simp add: jwks_resolver_def by_kid_def jwkset_of_def jwk_kid_def as_dict_def bindM_def)
qed

text \<open>
  An RSA key survives publication: the document served for a key set that holds its
  public or its private JWK contains none of the private members, and a client that parses
  the document and resolves the key id of a token header obtains exactly the public key.
\<close>

theorem published_rsa_key_resolves:
  assumes "from_rsa_private key (Some kid) alg = Inr data" "kid \<noteq> []"
  shows "\<exists>doc public. public_set (jwkset_of [PDict data]) = Inr [(''keys'', PList [PDict doc])]
    \<and> from_rsa_public (rsa_public_of key) (Some kid) alg ''sig'' = Inr doc
    \<and> set (dkeys doc) \<inter> set PRIVATE_MEMBERS = {}
    \<and> jwkset_from_json [(''keys'', PList [PDict doc])] = Inr public
    \<and> jwks_resolver [(''kid'', PStr kid)] public = (Inr (Some (KRsaPub (rsa_public_of key))), public)"
proof -
  let ?doc = "jwk_public data"
  have doc: "from_rsa_public (rsa_public_of key) (Some kid) alg ''sig'' = Inr ?doc"
    by (rule from_rsa_private_public [OF assms(1)])
  have "jwks_resolver [(''kid'', PStr kid)] (jwkset_of [PDict ?doc]) =
      (Inr (Some (KRsaPub (rsa_public_of key))), jwkset_of [PDict ?doc])"
    by (rule rsa_jwk_resolves [OF doc assms(2)]) simp
  moreover have "set (dkeys ?doc) \<inter> set PRIVATE_MEMBERS = {}" by (auto simp: jwk_public_def)
  ultimately show ?thesis using doc
    by (simp add: public_set_def jwkset_of_def as_dict_def jwkset_from_json_def py_iter_def)
qed

lemma b64u_encode_int_ok: "0 \<le> v \<Longrightarrow> v < 256 ^ k \<Longrightarrow> \<exists>t. b64u_encode_int v (Some k) = Inr t"
  by (simp add: b64u_encode_int_def int_to_bytes_fixed)

lemma sample_private_jwk: "\<exists>data. from_rsa_private sample_key (Some ''k1'') ''RS256'' = Inr data"
proof -
  have half: "key_size_bytes (rsk_p sample_key) = 33"
    by (rule key_size_unique) (simp_all add: sample_key_def)
  have "\<exists>t. b64u_encode_int (rsk_n sample_key) (Some 64) = Inr t" "\<exists>t. b64u_encode_int (rsk_d sample_key) (Some 64) = Inr t"
    "\<exists>t. b64u_encode_int (rsk_p sample_key) (Some 33) = Inr t" "\<exists>t. b64u_encode_int (rsk_q sample_key) (Some 33) = Inr t"
    "\<exists>t. b64u_encode_int (rsk_dp sample_key) (Some 33) = Inr t" "\<exists>t. b64u_encode_int (rsk_dq sample_key) (Some 33) = Inr t"
    "\<exists>t. b64u_encode_int (rsk_qinv sample_key) (Some 33) = Inr t"
    by (rule b64u_encode_int_ok; simp add: sample_key_def)+
  moreover have "\<exists>t. b64u_encode_int (rsk_e sample_key) None = Inr t"
    using int_to_bytes_min [of "rsk_e sample_key"] by (auto simp: b64u_encode_int_def sample_key_parts)
  ultimately show ?thesis
    using sample_key_size half
    by (auto simp: from_rsa_private_def from_rsa_public_def rsa_public_of_def with_kid_def int_members_def
        Let_def key_size_bytes_def)
qed

lemma sample_public_jwk: "\<exists>doc. from_rsa_public (rsa_public_of sample_key) (Some ''k1'') ''RS256'' ''sig'' = Inr doc"
  using sample_private_jwk from_rsa_private_public by blast

theorem published_rsa_key_resolves_witness:
  "\<exists>doc public. jwkset_from_json [(''keys'', PList [PDict doc])] = Inr public
    \<and> jwks_resolver [(''kid'', PStr ''k1'')] public = (Inr (Some (KRsaPub (rsa_public_of sample_key))), public)"
proof -
  obtain data where "from_rsa_private sample_key (Some ''k1'') ''RS256'' = Inr data" using sample_private_jwk by blast
  from published_rsa_key_resolves [OF this] show ?thesis by auto
qed

end
