(* ===== verification/Jwt.thy ===== *)
theory Jwt
  imports Jwks
begin

text \<open>
  \<open>authlab/jose/jwt.py\<close>: issuing and validating JSON Web Tokens.  The clock is an argument of
  the calls; the random source is the state of an issuing operation.
\<close>

section \<open>Claims\<close>

text \<open>The audience, as a list of strings.\<close>

definition claims_aud :: "pydict \<Rightarrow> py_error + string list" where
  "claims_aud raw =
     (case pget raw ''aud'' of
        PNone \<Rightarrow> Inr []
      | PStr s \<Rightarrow> Inr [s]
      | v \<Rightarrow> map_sum id (map py_str) (py_iter v))"

definition claims_scopes :: "pydict \<Rightarrow> string list" where
  "claims_scopes raw =
     (case pget raw ''scope'' of PStr s \<Rightarrow> split_ws s | PList vs \<Rightarrow> map py_str vs | _ \<Rightarrow> [])"

section \<open>Issuing\<close>

definition draw_token :: "nat \<Rightarrow> (rng, string) op" where
  "draw_token n g = (case random_token n g of (t, g') \<Rightarrow> (Inr t, g'))"

text \<open>\<open>jti or random_token(16)\<close>.\<close>

definition token_or :: "string option \<Rightarrow> nat \<Rightarrow> (rng, string) op" where
  "token_or v n = (case v of Some t \<Rightarrow> if t \<noteq> [] then ret t else draw_token n | None \<Rightarrow> draw_token n)"

definition issue_claims :: "string \<Rightarrow> string \<Rightarrow> pyval \<Rightarrow> int \<Rightarrow> int \<Rightarrow> string \<Rightarrow> int option \<Rightarrow> pydict \<Rightarrow> pydict" where
  "issue_claims issuer subject audience now lifetime jti not_before extra =
     (let claims = [(''iss'', PStr issuer), (''sub'', PStr subject), (''aud'', audience), (''iat'', PInt now),
                    (''exp'', PInt (now + lifetime)), (''jti'', PStr jti)];
          claims1 = (case not_before of None \<Rightarrow> claims | Some n \<Rightarrow> dset ''nbf'' (PInt n) claims)
      in dmerge claims1 extra)"

definition jwt_issue ::
  "int \<Rightarrow> jose_key \<Rightarrow> algorithm \<Rightarrow> string \<Rightarrow> string \<Rightarrow> pyval \<Rightarrow> int \<Rightarrow> int option \<Rightarrow> pydict \<Rightarrow> string option \<Rightarrow> string
   \<Rightarrow> string option \<Rightarrow> (rng, string) op" where
  "jwt_issue now key a issuer subject audience lifetime not_before extra kid ty jti =
     bindM (token_or jti 16) (\<lambda>t.
       lift (jws_sign (Inr (issue_claims issuer subject audience now lifetime t not_before extra)) key a [] kid (Some ty)))"

text \<open>Reading claims without verifying; the result may be any JSON value.\<close>

definition jwt_peek :: "string \<Rightarrow> exn + pyval" where
  "jwt_peek token =
     bind_res (jws_parse token) (\<lambda>p.
       catch_all (Jose InvalidToken) (py (bind_res (utf8_decode (jws_payload p)) json_loads)))"

section \<open>Validating\<close>

record jwt_validator =
  v_issuer :: string
  v_audience :: string
  v_allowed :: "string list"
  v_leeway :: int
  v_require :: "string list"
  v_max_age :: "int option"
  v_expected_typ :: "string option"

definition check_typ :: "jwt_validator \<Rightarrow> pydict \<Rightarrow> exn + unit" where
  "check_typ v header =
     (case v_expected_typ v of
        None \<Rightarrow> Inr ()
      | Some want \<Rightarrow>
          (let ty = pget header ''typ''
           in if ty = PNone \<or> lower (py_str ty) \<noteq> lower want then Inl (Jose ClaimError) else Inr ()))"

text \<open>A numeric claim: absent, or checked with \<open>test\<close>.\<close>

definition check_time :: "pyval \<Rightarrow> (int \<Rightarrow> exn + unit) \<Rightarrow> exn + unit" where
  "check_time claim test =
     (if claim = PNone then Inr ()
      else (case as_int claim of None \<Rightarrow> Inl (Jose ClaimError) | Some t \<Rightarrow> test t))"

definition check_times :: "jwt_validator \<Rightarrow> int \<Rightarrow> pydict \<Rightarrow> exn + unit" where
  "check_times v now claims =
     bind_res (check_time (pget claims ''exp'') (\<lambda>exp.
         if now > exp + v_leeway v then Inl (Jose ExpiredToken) else Inr ())) (\<lambda>_.
       bind_res (check_time (pget claims ''nbf'') (\<lambda>nbf.
           if now + v_leeway v < nbf then Inl (Jose ExpiredToken) else Inr ())) (\<lambda>_.
         check_time (pget claims ''iat'') (\<lambda>iat.
           if iat > now + v_leeway v then Inl (Jose ClaimError)
           else (case v_max_age v of
               None \<Rightarrow> Inr ()
             | Some m \<Rightarrow> if now - iat > m + v_leeway v then Inl (Jose ExpiredToken) else Inr ()))))"

definition check_nonce :: "string option \<Rightarrow> pydict \<Rightarrow> exn + unit" where
  "check_nonce nonce claims =
     (case nonce of
        None \<Rightarrow> Inr ()
      | Some n \<Rightarrow>
          (let actual = pget claims ''nonce'' in
           if actual = PNone then Inl (Jose ClaimError)
           else if \<not> constant_time_equals (py_str actual) n then Inl (Jose ClaimError) else Inr ()))"

definition validate_claims :: "jwt_validator \<Rightarrow> int \<Rightarrow> string option \<Rightarrow> parsed_jws \<Rightarrow> exn + pydict" where
  "validate_claims v now nonce parsed =
     bind_res (check_typ v (jws_header parsed)) (\<lambda>_.
       bind_res (catch_all (Jose InvalidToken) (py (bind_res (utf8_decode (jws_payload parsed)) json_loads))) (\<lambda>payload.
         case payload of
           PDict claims \<Rightarrow>
             (if list_ex (\<lambda>name. dget claims name = None) (v_require v) then Inl (Jose ClaimError)
              else if pget claims ''iss'' \<noteq> PStr (v_issuer v) then Inl (Jose ClaimError)
              else bind_res (py (claims_aud claims)) (\<lambda>aud.
                if v_audience v \<notin> set aud then Inl (Jose ClaimError)
                else bind_res (check_times v now claims) (\<lambda>_.
                  bind_res (check_nonce nonce claims) (\<lambda>_. Inr claims))))
         | _ \<Rightarrow> Inl (Jose InvalidToken)))"

definition jwt_validate ::
  "jwt_validator \<Rightarrow> (pydict \<Rightarrow> ('s, jose_key option) op) \<Rightarrow> int \<Rightarrow> string \<Rightarrow> string option \<Rightarrow> ('s, pydict) op" where
  "jwt_validate v key now token nonce =
     bindM (jws_verify token key (v_allowed v) False) (\<lambda>parsed. lift (validate_claims v now nonce parsed))"

section \<open>What a validated token says\<close>

lemma check_time_ok: "check_time claim test = Inr u \<longleftrightarrow> claim = PNone \<or> (\<exists>t. as_int claim = Some t \<and> test t = Inr u)"
  by (auto simp: check_time_def split: option.splits)

lemma check_times_ok:
  "check_times v now claims = Inr u \<Longrightarrow>
   (\<forall>t. as_int (pget claims ''exp'') = Some t \<longrightarrow> now \<le> t + v_leeway v)
   \<and> (\<forall>t. as_int (pget claims ''nbf'') = Some t \<longrightarrow> t \<le> now + v_leeway v)
   \<and> (\<forall>t. as_int (pget claims ''iat'') = Some t \<longrightarrow> t \<le> now + v_leeway v
        \<and> (\<forall>m. v_max_age v = Some m \<longrightarrow> now - t \<le> m + v_leeway v))
   \<and> (\<forall>name \<in> {''exp'', ''nbf'', ''iat''}. pget claims name = PNone \<or> as_int (pget claims name) \<noteq> None)"
  unfolding check_times_def
  by (elim bind_res_InrE) (fastforce simp: check_time_ok split: if_splits option.splits)

lemma check_nonce_ok:
  "check_nonce nonce claims = Inr u \<longleftrightarrow>
   (\<forall>n. nonce = Some n \<longrightarrow> pget claims ''nonce'' \<noteq> PNone \<and> py_str (pget claims ''nonce'') = n)"
  by (auto simp: check_nonce_def Let_def split: option.splits)

lemma validate_claims_D:
  assumes "validate_claims v now nonce parsed = Inr claims"
  shows "bind_res (utf8_decode (jws_payload parsed)) json_loads = Inr (PDict claims)
    \<and> check_typ v (jws_header parsed) = Inr ()
    \<and> (\<forall>name \<in> set (v_require v). dget claims name \<noteq> None)
    \<and> pget claims ''iss'' = PStr (v_issuer v)
    \<and> (\<exists>aud. claims_aud claims = Inr aud \<and> v_audience v \<in> set aud)
    \<and> check_times v now claims = Inr () \<and> check_nonce nonce claims = Inr ()"
  using assms
  by (auto simp: validate_claims_def list_ex_iff split: pyval.splits if_splits elim!: bind_res_InrE)

text \<open>
  Claims that \<open>JWTValidator.validate\<close> returns are the JSON object in the payload of a
  token whose signature verified under an allowed algorithm; every required claim is there,
  the issuer and one of the audiences are the expected ones, no time bound is violated by
  more than the leeway, the token is not older than the maximal age, and the nonce is the one
  of the session.
\<close>

theorem validated_claims_are_checked:
  assumes "jwt_validate v key now token nonce s = (Inr claims, s')"
  shows "\<exists>parsed. jws_verify token key (v_allowed v) False s = (Inr parsed, s')
    \<and> bind_res (utf8_decode (jws_payload parsed)) json_loads = Inr (PDict claims)
    \<and> (\<forall>name \<in> set (v_require v). dget claims name \<noteq> None)
    \<and> pget claims ''iss'' = PStr (v_issuer v)
    \<and> (\<exists>aud. claims_aud claims = Inr aud \<and> v_audience v \<in> set aud)
    \<and> (\<forall>t. as_int (pget claims ''exp'') = Some t \<longrightarrow> now \<le> t + v_leeway v)
    \<and> (\<forall>t. as_int (pget claims ''nbf'') = Some t \<longrightarrow> t \<le> now + v_leeway v)
    \<and> (\<forall>t. as_int (pget claims ''iat'') = Some t \<longrightarrow> t \<le> now + v_leeway v
         \<and> (\<forall>m. v_max_age v = Some m \<longrightarrow> now - t \<le> m + v_leeway v))
    \<and> (\<forall>n. nonce = Some n \<longrightarrow> py_str (pget claims ''nonce'') = n)"
proof -
  from assms obtain parsed where p: "jws_verify token key (v_allowed v) False s = (Inr parsed, s')"
    "validate_claims v now nonce parsed = Inr claims"
    by (auto simp: jwt_validate_def bindM_Inr_iff)
  note d = validate_claims_D [OF p(2)]
  then have times: "check_times v now claims = Inr ()" and nonce: "check_nonce nonce claims = Inr ()" by blast+
  show ?thesis
    by (intro exI [of _ parsed] conjI p(1)) (use d check_times_ok [OF times] nonce in \<open>auto simp: check_nonce_ok\<close>)
qed

section \<open>A token that was issued validates\<close>

text \<open>Claims that the caller adds and that do not replace the registered ones.\<close>

definition plain_extra :: "pydict \<Rightarrow> bool" where
  "plain_extra extra \<longleftrightarrow>
     json_clean (PDict extra) \<and> set (dkeys extra) \<inter> {''iss'', ''sub'', ''aud'', ''iat'', ''exp'', ''nbf'', ''jti''} = {}"

lemma dget_dmerge: "distinct (dkeys e) \<Longrightarrow> dget (dmerge d e) k = (case dget e k of None \<Rightarrow> dget d k | Some v \<Rightarrow> Some v)"
proof (induction e arbitrary: d)
  case (Cons kv e)
  obtain j v where kv: "kv = (j, v)" by fastforce
  have "dget e j = None" using Cons.prems kv by (simp add: dget_None_iff)
  with Cons kv show ?case by (auto simp: dmerge_def split: option.split)
qed (simp add: dmerge_def)

lemma distinct_dmerge: "distinct (dkeys d) \<Longrightarrow> distinct (dkeys (dmerge d e))"
  unfolding dmerge_def by (induction e arbitrary: d) (auto simp: distinct_update)

lemma json_clean_dset: "json_clean (PDict d) \<Longrightarrow> json_clean v \<Longrightarrow> json_clean (PDict (dset k v d))"
proof -
  have "list_all (\<lambda>kv. json_clean (snd kv)) d \<Longrightarrow> json_clean v \<Longrightarrow> list_all (\<lambda>kv. json_clean (snd kv)) (dset k v d)"
    by (induction d) auto
  then show "json_clean (PDict d) \<Longrightarrow> json_clean v \<Longrightarrow> ?thesis" by (auto simp: distinct_update)
qed

lemma json_clean_dmerge: "json_clean (PDict d) \<Longrightarrow> list_all (\<lambda>kv. json_clean (snd kv)) e \<Longrightarrow> json_clean (PDict (dmerge d e))"
  unfolding dmerge_def
  by (induction e arbitrary: d) (auto simp: json_clean_dset simp del: json_clean.simps)

lemma issue_claims_parts:
  assumes "plain_extra extra"
  shows "pget (issue_claims issuer subject audience now lifetime jti nbf extra) ''iss'' = PStr issuer"
    "pget (issue_claims issuer subject audience now lifetime jti nbf extra) ''sub'' = PStr subject"
    "pget (issue_claims issuer subject audience now lifetime jti nbf extra) ''aud'' = audience"
    "pget (issue_claims issuer subject audience now lifetime jti nbf extra) ''iat'' = PInt now"
    "pget (issue_claims issuer subject audience now lifetime jti nbf extra) ''exp'' = PInt (now + lifetime)"
    "pget (issue_claims issuer subject audience now lifetime jti nbf extra) ''jti'' = PStr jti"
    "pget (issue_claims issuer subject audience now lifetime jti nbf extra) ''nbf'' = (case nbf of None \<Rightarrow> PNone | Some n \<Rightarrow> PInt n)"
    "\<And>k. k \<notin> {''iss'', ''sub'', ''aud'', ''iat'', ''exp'', ''nbf'', ''jti''} \<Longrightarrow>
      pget (issue_claims issuer subject audience now lifetime jti nbf extra) k = pget extra k"
proof -
  have d: "distinct (dkeys extra)" using assms by (simp add: plain_extra_def)
  have n: "dget extra k = None" if "k \<in> {''iss'', ''sub'', ''aud'', ''iat'', ''exp'', ''nbf'', ''jti''}" for k
  proof -
    from assms that have "k \<notin> set (dkeys extra)" unfolding plain_extra_def by (metis disjoint_iff)
    then show ?thesis by (rule dget_None_iff [THEN iffD2])
  qed
  note dg = dget_dmerge [OF d]
  show "pget (issue_claims issuer subject audience now lifetime jti nbf extra) ''iss'' = PStr issuer"
    "pget (issue_claims issuer subject audience now lifetime jti nbf extra) ''sub'' = PStr subject"
    "pget (issue_claims issuer subject audience now lifetime jti nbf extra) ''aud'' = audience"
    "pget (issue_claims issuer subject audience now lifetime jti nbf extra) ''iat'' = PInt now"
    "pget (issue_claims issuer subject audience now lifetime jti nbf extra) ''exp'' = PInt (now + lifetime)"
    "pget (issue_claims issuer subject audience now lifetime jti nbf extra) ''jti'' = PStr jti"
    "pget (issue_claims issuer subject audience now lifetime jti nbf extra) ''nbf'' = (case nbf of None \<Rightarrow> PNone | Some n \<Rightarrow> PInt n)"
    by (simp_all add: issue_claims_def Let_def pget_def dg n split: option.split)
  show "pget (issue_claims issuer subject audience now lifetime jti nbf extra) k = pget extra k"
    if "k \<notin> {''iss'', ''sub'', ''aud'', ''iat'', ''exp'', ''nbf'', ''jti''}" for k
    using that by (simp add: issue_claims_def Let_def pget_def dg split: option.split)
qed

lemma issue_claims_clean:
  "plain_extra extra \<Longrightarrow> json_clean audience \<Longrightarrow>
   json_clean (PDict (issue_claims issuer subject audience now lifetime jti nbf extra))"
  unfolding issue_claims_def Let_def
  by (rule json_clean_dmerge) (auto simp: plain_extra_def split: option.split)

definition issue_header :: "algorithm \<Rightarrow> string option \<Rightarrow> string \<Rightarrow> pydict" where
  "issue_header a kid ty =
     [(''alg'', PStr (alg_name a))] @ (if ty \<noteq> [] then [(''typ'', PStr ty)] else [])
       @ (case kid of Some k \<Rightarrow> if k \<noteq> [] then [(''kid'', PStr k)] else [] | None \<Rightarrow> [])"

lemma build_issue_header: "jws_build_header a [] kid (Some ty) = Inr (issue_header a kid ty)"
  by (auto simp: jws_build_header_def issue_header_def split: option.split)

lemma issue_header_ok:
  "json_clean (PDict (issue_header a kid ty))" "pget (issue_header a kid ty) ''alg'' = PStr (alg_name a)"
  "\<forall>name \<in> set FORBIDDEN_HEADERS. dget (issue_header a kid ty) name = None"
  "ty \<noteq> [] \<Longrightarrow> pget (issue_header a kid ty) ''typ'' = PStr ty"
  by (auto simp: issue_header_def FORBIDDEN_HEADERS_def split: option.split)

lemma json_bytes_back: "json_clean v \<Longrightarrow> bind_res (utf8_decode (json_compact v)) json_loads = Inr v"
  by (simp add: json_compact_def json_loads_dumps)

lemma token_or_total: "\<exists>t g'. token_or v n g = (Inr t, g')"
  by (cases "random_token n g") (simp add: token_or_def draw_token_def split: option.split)

text \<open>What a validator accepts of claims it reads, when they are those of \<open>issue\<close>.\<close>

definition accepts_issued :: "jwt_validator \<Rightarrow> int \<Rightarrow> string option \<Rightarrow> pydict \<Rightarrow> string \<Rightarrow> bool" where
  "accepts_issued v now nonce claims ty \<longleftrightarrow>
     pget claims ''iss'' = PStr (v_issuer v)
     \<and> (\<exists>aud. claims_aud claims = Inr aud \<and> v_audience v \<in> set aud)
     \<and> (\<forall>name \<in> set (v_require v). dget claims name \<noteq> None)
     \<and> check_times v now claims = Inr () \<and> check_nonce nonce claims = Inr ()
     \<and> (\<forall>want. v_expected_typ v = Some want \<longrightarrow> ty \<noteq> [] \<and> lower ty = lower want)"

lemma validate_claims_accepts:
  assumes "accepts_issued v now nonce claims ty" "json_clean (PDict claims)"
    and "jws_payload p = json_compact (PDict claims)" "jws_header p = issue_header a kid ty"
  shows "validate_claims v now nonce p = Inr claims"
proof -
  have "check_typ v (jws_header p) = Inr ()"
    using assms(1,4) issue_header_ok(4) [of ty a kid]
    by (auto simp: check_typ_def accepts_issued_def py_str_def split: option.split)
  then show ?thesis
    using assms(1,3) json_bytes_back [OF assms(2)]
    by (auto simp: validate_claims_def accepts_issued_def list_ex_iff)
qed

context signature_scheme
begin

lemma issued_token_validates:
  assumes keys: "pair sk vk" and extra: "plain_extra extra" and aud: "json_clean audience"
    and allowed: "alg_name a \<in> set (v_allowed v)" "''none'' \<notin> set (map lower (v_allowed v))"
  shows "\<exists>jti g' token. jwt_issue now sk a issuer subject audience lifetime nbf extra kid ty jti0 g = (Inr token, g')
    \<and> is_ascii token
    \<and> (\<forall>key (s :: 's) s' now' nonce. key (issue_header a kid ty) s = (Inr (Some vk), s') \<longrightarrow>
         accepts_issued v now' nonce (issue_claims issuer subject audience now lifetime jti nbf extra) ty \<longrightarrow>
         jwt_validate v key now' token nonce s
           = (Inr (issue_claims issuer subject audience now lifetime jti nbf extra), s'))"
proof -
  obtain jti g' where jti: "token_or jti0 16 g = (Inr jti, g')" using token_or_total by blast
  let ?claims = "issue_claims issuer subject audience now lifetime jti nbf extra"
  note clean = issue_claims_clean [OF extra aud]
  from signed_token_verifies [OF keys build_issue_header issue_header_ok(1,2,3) _ allowed, of "Inr ?claims" kid ty]
  obtain token p where token: "jws_sign (Inr ?claims) sk a [] kid (Some ty) = Inr token"
    and p: "jws_header p = issue_header a kid ty" "jws_payload p = json_compact (PDict ?claims)" and ascii: "is_ascii token"
    and verify: "\<And>key (s :: 's) s'. key (issue_header a kid ty) s = (Inr (Some vk), s') \<Longrightarrow>
      jws_verify token key (v_allowed v) False s = (Inr p, s')"
    unfolding payload_bytes_def by auto
  have "jwt_validate v key now' token nonce s = (Inr ?claims, s')"
    if "key (issue_header a kid ty) s = (Inr (Some vk), s')" "accepts_issued v now' nonce ?claims ty" for key and s :: 's and s' now' nonce
    using verify [of key s s', OF that(1)] validate_claims_accepts [OF that(2) clean p(2,1)]
    by (simp add: jwt_validate_def bindM_run(1))
  moreover have "jwt_issue now sk a issuer subject audience lifetime nbf extra kid ty jti0 g = (Inr token, g')"
    by (simp add: jwt_issue_def bindM_run(1) [where m = "token_or jti0 16" and s = g, OF jti] token)
  ultimately show ?thesis using ascii by blast
qed

end

lemma accepts_issued_claims:
  assumes "plain_extra extra"
    and "v_audience v \<in> set auds" "set (v_require v) \<subseteq> {''iss'', ''sub'', ''aud'', ''exp'', ''iat''}"
    and "0 \<le> v_leeway v" "now \<le> now'" "now' \<le> now + lifetime + v_leeway v"
    and "v_max_age v = None" "v_expected_typ v = Some ty" "ty \<noteq> []"
    and "\<forall>n. nonce = Some n \<longrightarrow> pget extra ''nonce'' = PStr n"
  shows "accepts_issued v now' nonce
    (issue_claims (v_issuer v) subject (PList (map PStr auds)) now lifetime jti None extra) ty"
proof -
  let ?claims = "issue_claims (v_issuer v) subject (PList (map PStr auds)) now lifetime jti None extra"
  note c = issue_claims_parts [OF assms(1), where issuer = "v_issuer v" and subject = subject
      and audience = "PList (map PStr auds)" and now = now and lifetime = lifetime and jti = jti and nbf = None]
  have "claims_aud ?claims = Inr auds" by (simp add: claims_aud_def c(3) py_iter_def py_str_def comp_def)
  moreover have "dget ?claims name \<noteq> None" if "name \<in> set (v_require v)" for name
    using that assms(3) c(1-5) by (auto simp: pget_def split: option.splits)
  moreover have "check_times v now' ?claims = Inr ()"
    using assms(4-7) by (simp add: check_times_def check_time_def c)
  moreover have "check_nonce nonce ?claims = Inr ()"
    using assms(10) c(8) [of "''nonce''"] by (auto simp: check_nonce_ok py_str_def)
  ultimately show ?thesis
    using assms(2,8,9) c(1) by (simp add: accepts_issued_def)
qed

text \<open>
  A token that the library issues under RS256 with a well-formed key is accepted, with
  exactly the claims it was issued with, by a validator for the issuer, one of the audiences
  and the type, that resolves the key from a key set by the header's \<open>kid\<close>, at any time from
  the issue to the end of the lifetime plus the leeway; the key set is not refreshed.
\<close>

theorem issued_token_is_accepted:
  assumes "rsa_key_ok k" "em_fits (key_size_bytes (rsk_n k)) ''sha256''"
    and "jwks_resolver (issue_header RS256 kid ty) ks = (Inr (Some (KRsaPub (rsa_public_of k))), ks)"
    and "plain_extra extra" "v_audience v \<in> set auds" "set (v_require v) \<subseteq> {''iss'', ''sub'', ''aud'', ''exp'', ''iat''}"
    and "''RS256'' \<in> set (v_allowed v)" "''none'' \<notin> set (map lower (v_allowed v))"
    and "0 \<le> v_leeway v" "now \<le> now'" "now' \<le> now + lifetime + v_leeway v"
    and "v_max_age v = None" "v_expected_typ v = Some ty" "ty \<noteq> []"
    and "\<forall>n. nonce = Some n \<longrightarrow> pget extra ''nonce'' = PStr n"
  shows "\<exists>token g' jti.
    jwt_issue now (KRsaPriv k) RS256 (v_issuer v) subject (PList (map PStr auds)) lifetime None extra kid ty jti0 g
      = (Inr token, g')
    \<and> jwt_validate v jwks_resolver now' token nonce ks
      = (Inr (issue_claims (v_issuer v) subject (PList (map PStr auds)) now lifetime jti None extra), ks)"
proof -
  have pair: "rsa_pair RS256 (KRsaPriv k) (KRsaPub (rsa_public_of k))"
    using assms(1,2) by (simp add: rsa_pair_def algorithm_defs)
  have aud: "json_clean (PList (map PStr auds))" by (simp add: list_all_iff)
  have "alg_name RS256 \<in> set (v_allowed v)" using assms(7) by (simp add: algorithm_defs)
  from rs256.issued_token_validates [OF pair assms(4) aud this assms(8)]
  obtain jti g' token where
    issue: "jwt_issue now (KRsaPriv k) RS256 (v_issuer v) subject (PList (map PStr auds)) lifetime None extra kid ty jti0 g = (Inr token, g')"
    and validate: "\<And>key (s :: jwkset) s' now' nonce. key (issue_header RS256 kid ty) s = (Inr (Some (KRsaPub (rsa_public_of k))), s') \<Longrightarrow>
      accepts_issued v now' nonce (issue_claims (v_issuer v) subject (PList (map PStr auds)) now lifetime jti None extra) ty \<Longrightarrow>
      jwt_validate v key now' token nonce s
        = (Inr (issue_claims (v_issuer v) subject (PList (map PStr auds)) now lifetime jti None extra), s')"
    by blast
  with validate [of jwks_resolver ks ks, OF assms(3) accepts_issued_claims [OF assms(4,5,6,9,10,11,12,13,14,15)]] show ?thesis by blast
qed

definition sample_validator :: jwt_validator where
  "sample_validator =
     \<lparr>v_issuer = ''as'', v_audience = ''api'', v_allowed = [''RS256''], v_leeway = 60, v_require = [''iss'', ''sub''],
      v_max_age = None, v_expected_typ = Some ''at+jwt''\<rparr>"

lemma sample_fits: "em_fits (key_size_bytes (rsk_n sample_key)) ''sha256''"
  by (simp add: sample_key_size em_fits_def digest_info_prefix_def hash_named_def)

lemma issue_header_kid: "kid \<noteq> [] \<Longrightarrow> pget (issue_header a (Some kid) ty) ''kid'' = PStr kid"
  by (simp add: issue_header_def)

lemma sample_extra: "plain_extra [(''scope'', PStr ''read'')]"
  by (simp add: plain_extra_def)

lemma sample_validator_simps:
  "v_audience sample_validator \<in> set [''api'']" "set (v_require sample_validator) \<subseteq> {''iss'', ''sub'', ''aud'', ''exp'', ''iat''}"
  "''RS256'' \<in> set (v_allowed sample_validator)" "''none'' \<notin> set (map lower (v_allowed sample_validator))"
  "0 \<le> v_leeway sample_validator" "v_max_age sample_validator = None" "v_expected_typ sample_validator = Some ''at+jwt''"
  by (simp_all add: sample_validator_def lower_def lower_char_def)

lemma sample_issue_context:
  obtains ks where "jwks_resolver (issue_header RS256 (Some ''k1'') ''at+jwt'') ks
      = (Inr (Some (KRsaPub (rsa_public_of sample_key))), ks)"
proof -
  from sample_public_jwk obtain doc where
    "from_rsa_public (rsa_public_of sample_key) (Some ''k1'') ''RS256'' ''sig'' = Inr doc" by blast
  from rsa_jwk_resolves [OF this _ issue_header_kid] show thesis by (rule that) simp_all
qed

theorem issued_token_is_accepted_witness:
  "\<exists>token g' jti ks. jwt_issue 1000 (KRsaPriv sample_key) RS256 ''as'' ''alice'' (PList [PStr ''api'']) 300 None
      [(''scope'', PStr ''read'')] (Some ''k1'') ''at+jwt'' None \<lparr>tape = \<lambda>i j. 7, drawn = 0\<rparr> = (Inr token, g')
    \<and> jwt_validate sample_validator jwks_resolver 1300 token None ks
      = (Inr (issue_claims ''as'' ''alice'' (PList [PStr ''api'']) 1000 300 jti None [(''scope'', PStr ''read'')]), ks)"
proof -
  obtain ks where ks: "jwks_resolver (issue_header RS256 (Some ''k1'') ''at+jwt'') ks
      = (Inr (Some (KRsaPub (rsa_public_of sample_key))), ks)" by (rule sample_issue_context)
  have "v_issuer sample_validator = ''as''" by (simp add: sample_validator_def)
  moreover have "(1000 :: int) \<le> 1300" "(1300 :: int) \<le> 1000 + 300 + v_leeway sample_validator" "''at+jwt'' \<noteq> []"
    "\<forall>n. None = Some n \<longrightarrow> pget [(''scope'', PStr ''read'')] ''nonce'' = PStr n"
    by (simp_all add: sample_validator_def)
  ultimately show ?thesis
    using issued_token_is_accepted [OF sample_key_ok sample_fits ks sample_extra sample_validator_simps(1-5) _ _
        sample_validator_simps(6,7), of 1000 1300 300 None "''alice''" None "\<lparr>tape = \<lambda>i j. 7, drawn = 0\<rparr>"]
    by fastforce
qed

lemma sample_validated_token:
  "\<exists>token ks claims. jwt_validate sample_validator jwks_resolver 1300 token None ks = (Inr claims, ks)"
proof -
  obtain ks where ks: "jwks_resolver (issue_header RS256 (Some ''k1'') ''at+jwt'') ks
      = (Inr (Some (KRsaPub (rsa_public_of sample_key))), ks)" by (rule sample_issue_context)
  have allowed: "alg_name RS256 \<in> set (v_allowed sample_validator)" by (simp add: sample_validator_def algorithm_defs)
  have accepts: "accepts_issued sample_validator 1300 None
      (issue_claims (v_issuer sample_validator) ''alice'' (PList (map PStr [''api''])) 1000 300 jti None [(''scope'', PStr ''read'')]) ''at+jwt''" for jti
    by (rule accepts_issued_claims [OF sample_extra sample_validator_simps(1,2,5) _ _ sample_validator_simps(6,7)])
       (simp_all add: sample_validator_def)
  have aud: "json_clean (PList (map PStr [''api'']))" by simp
  from rs256.issued_token_validates [OF sample_pair sample_extra aud allowed sample_validator_simps(4),
      where 's = jwkset and issuer = "v_issuer sample_validator" and subject = "''alice''" and now = 1000 and lifetime = 300
        and nbf = None and kid = "Some ''k1''" and ty = "''at+jwt''"]
  obtain jti token where "\<And>key (s :: jwkset) s' now' nonce.
      key (issue_header RS256 (Some ''k1'') ''at+jwt'') s = (Inr (Some (KRsaPub (rsa_public_of sample_key))), s') \<Longrightarrow>
      accepts_issued sample_validator now' nonce (issue_claims (v_issuer sample_validator) ''alice'' (PList (map PStr [''api''])) 1000 300 jti None
        [(''scope'', PStr ''read'')]) ''at+jwt'' \<Longrightarrow>
      jwt_validate sample_validator key now' token nonce s
        = (Inr (issue_claims (v_issuer sample_validator) ''alice'' (PList (map PStr [''api''])) 1000 300 jti None [(''scope'', PStr ''read'')]), s')"
    by blast
  from this [of jwks_resolver ks ks, OF ks accepts] show ?thesis by blast
qed

theorem validated_claims_are_checked_witness:
  "\<exists>token ks claims. jwt_validate sample_validator jwks_resolver 1300 token None ks = (Inr claims, ks)
     \<and> pget claims ''iss'' = PStr ''as'' \<and> (\<exists>aud. claims_aud claims = Inr aud \<and> ''api'' \<in> set aud)"
proof -
  from sample_validated_token obtain token ks claims where
    v: "jwt_validate sample_validator jwks_resolver 1300 token None ks = (Inr claims, ks)" by blast
  from validated_claims_are_checked [OF v] v show ?thesis by (auto simp: sample_validator_def)
qed

end
