(* ===== verification/Pkce.thy ===== *)
theory Pkce
  imports Jwt
begin

text \<open>
  \<open>authlab/oauth/pkce.py\<close>: proof keys for the code exchange.  The verifier comes from a request
  and the challenge from a stored request, so both may be any value.
\<close>

definition verifier_shape :: "string \<Rightarrow> bool" where
  "verifier_shape s \<longleftrightarrow> list_all unreserved s \<and> 43 \<le> length s \<and> length s \<le> 128"

text \<open>\<open>$\<close> also matches before a newline at the end.\<close>

definition verifier_pattern :: "string \<Rightarrow> bool" where
  "verifier_pattern s \<longleftrightarrow> verifier_shape s \<or> (s \<noteq> [] \<and> last s = CHR 0x0a \<and> verifier_shape (butlast s))"

definition create_verifier :: "nat \<Rightarrow> (rng, string) op" where
  "create_verifier n g = (case random_bytes n g of (bs, g') \<Rightarrow> (Inr (b64u_encode bs), g'))"

definition create_challenge :: "string \<Rightarrow> pyval \<Rightarrow> exn + string" where
  "create_challenge verifier meth =
     (if meth = PStr ''S256''
      then map_sum id (\<lambda>raw. b64u_encode (sha256 raw)) (py (ascii_encode verifier))
      else if meth = PStr ''plain'' then Inr verifier
      else Inl (OAuth InvalidRequest))"

definition generate_pair :: "pyval \<Rightarrow> (rng, string \<times> string) op" where
  "generate_pair meth =
     bindM (create_verifier 32) (\<lambda>verifier.
       bindM (lift (create_challenge verifier meth)) (\<lambda>challenge. ret (verifier, challenge)))"

definition pkce_verify :: "pyval \<Rightarrow> pyval \<Rightarrow> pyval \<Rightarrow> bool \<Rightarrow> exn + unit" where
  "pkce_verify verifier challenge meth allow_plain =
     (if meth = PStr ''plain'' \<and> \<not> allow_plain then Inl (OAuth InvalidRequest)
      else if \<not> truthy verifier then Inl (OAuth InvalidGrant)
      else (case verifier of
          PStr v \<Rightarrow>
            (if \<not> verifier_pattern v then Inl (OAuth InvalidGrant)
             else bind_res (create_challenge v meth) (\<lambda>c.
               bind_res (py (ct_equals_val challenge c)) (\<lambda>same.
                 if same then Inr () else Inl (OAuth InvalidGrant))))
        | _ \<Rightarrow> Inl (Py TypeError)))"

section \<open>Properties\<close>

lemma b64_char_unreserved: "n < 64 \<Longrightarrow> unreserved (b64_char n)"
  by (auto simp: b64_char_def unreserved_def is_alpha_def is_digit_def of_char_char_of Let_def)

lemma b64u_unreserved: "list_all unreserved (b64u_encode bs)"
  by (induction bs rule: b64u_encode.induct) (auto simp: Let_def sextets intro!: b64_char_unreserved)

lemma length_b64u: "length (b64u_encode bs) = (4 * length bs + 2) div 3"
  by (induction bs rule: b64u_encode.induct) simp_all

lemma random_bytes_length: "random_bytes n g = (bs, g') \<Longrightarrow> length bs = n"
  by (auto simp: random_bytes_def)

lemma unreserved_ascii: "list_all unreserved s \<Longrightarrow> is_ascii s"
  using unreserved_not by (auto simp: is_ascii_def list_all_iff)

lemma is_ascii_newline: "is_ascii t \<Longrightarrow> is_ascii (t @ [CHR 0x0a])"
  by (simp add: is_ascii_def)

lemma verifier_pattern_ascii: "verifier_pattern s \<Longrightarrow> is_ascii s"
proof -
  have nl: "is_ascii s" if "s \<noteq> []" "last s = CHR 0x0a" "is_ascii (butlast s)"
  proof -
    from that(1,2) have "s = butlast s @ [CHR 0x0a]" by (metis append_butlast_last_id)
    with that(3) show ?thesis by (metis is_ascii_newline)
  qed
  show "verifier_pattern s \<Longrightarrow> ?thesis"
    unfolding verifier_pattern_def verifier_shape_def using unreserved_ascii nl by blast
qed

lemma generated_verifier_shape:
  "create_verifier 32 g = (Inr v, g') \<Longrightarrow> verifier_shape v"
  by (auto simp: create_verifier_def verifier_shape_def b64u_unreserved length_b64u dest: random_bytes_length split: prod.splits)

lemma pkce_verify_iff:
  "pkce_verify verifier challenge meth False = Inr () \<longleftrightarrow>
   meth = PStr ''S256'' \<and> (\<exists>v. verifier = PStr v \<and> verifier_pattern v \<and> challenge = PStr (b64u_encode (sha256 (map of_char v))))"
  by (cases verifier)
     (auto simp: pkce_verify_def create_challenge_def ascii_encode_def verifier_pattern_ascii bind_res_Inr_iff
       verifier_pattern_def verifier_shape_def split: if_splits)

text \<open>
  The code exchange is bound to whoever started the flow: the check passes exactly when
  the method is \<open>S256\<close> and the challenge is the base64url SHA-256 of an ASCII verifier of the
  right shape, so neither a missing verifier nor the \<open>plain\<close> method gets through; and a pair
  that the client generates always passes.
\<close>

theorem pkce_binds_the_exchange:
  "(pkce_verify verifier challenge meth False = Inr () \<longleftrightarrow>
     meth = PStr ''S256'' \<and> (\<exists>v. verifier = PStr v \<and> verifier_pattern v
       \<and> challenge = PStr (b64u_encode (sha256 (map of_char v)))))
   \<and> (\<exists>v c g'. generate_pair (PStr ''S256'') g = (Inr (v, c), g') \<and> verifier_shape v
       \<and> pkce_verify (PStr v) (PStr c) (PStr ''S256'') False = Inr ())"
proof -
  obtain v g' where v: "create_verifier 32 g = (Inr v, g')"
    by (cases "random_bytes 32 g") (simp add: create_verifier_def)
  note shape = generated_verifier_shape [OF v]
  then have "is_ascii v" by (auto simp: verifier_shape_def unreserved_ascii)
  with shape have "generate_pair (PStr ''S256'') g = (Inr (v, b64u_encode (sha256 (map of_char v))), g')"
    by (simp add: generate_pair_def bindM_def v create_challenge_def ascii_encode_def)
  then show ?thesis using shape by (auto simp: pkce_verify_iff verifier_pattern_def)
qed

text \<open>
  The pattern accepts a verifier followed by a newline, which is not in the alphabet of the
  standard: \<open>$\<close> is not the end of the string.
\<close>

lemma verifier_with_newline: "verifier_shape v \<Longrightarrow> verifier_pattern (v @ [CHR 0x0a])"
  by (simp add: verifier_pattern_def)

end
