(* ===== verification/Dpop.thy ===== *)
theory Dpop
  imports Pkce
begin

text \<open>
  \<open>authlab/oauth/dpop.py\<close>: proofs of possession.  The verifier's replay cache is a dictionary
  from \<open>jti\<close> to expiry; the clock is an argument of the calls.  \<open>urlunsplit\<close> is modelled for
  URLs with an authority (without one its result depends on the Python version).
\<close>

section \<open>Keys and URLs\<close>

definition DPOP_TYP :: string where
  "DPOP_TYP = ''dpop+jwt''"

definition ec_public_jwk :: "ec_point \<Rightarrow> py_error + pydict" where
  "ec_public_jwk key =
     (case pt_xy key of
        None \<Rightarrow> Inl TypeError
      | Some (x, y) \<Rightarrow>
          bind_res (b64u_encode_int x (Some 32)) (\<lambda>bx. bind_res (b64u_encode_int y (Some 32)) (\<lambda>bytes_y.
            Inr [(''kty'', PStr ''EC''), (''crv'', PStr ''P-256''), (''x'', PStr bx), (''y'', PStr bytes_y)])))"

text \<open>\<open>except KeyError\<close> turns a missing coordinate into the protocol error.\<close>

definition ec_public_from_jwk :: "pyval \<Rightarrow> exn + ec_point" where
  "ec_public_from_jwk jwk =
     bind_res (py (as_dict jwk)) (\<lambda>data.
       if pget data ''kty'' \<noteq> PStr ''EC'' \<or> pget data ''crv'' \<noteq> PStr ''P-256'' then Inl (OAuth InvalidDPoPProof)
       else if dget data ''d'' \<noteq> None then Inl (OAuth InvalidDPoPProof)
       else (case bind_res (jwk_bytes data ''x'') (\<lambda>x. bind_res (jwk_bytes data ''y'') (\<lambda>y.
                 Inr \<lparr>pt_xy = Some (bytes_to_int x, bytes_to_int y), pt_curve = SECP256R1\<rparr>)) of
           Inl e \<Rightarrow> Inl (if e = KeyError then OAuth InvalidDPoPProof else Py e)
         | Inr key \<Rightarrow> if is_on_curve key then Inr key else Inl (OAuth InvalidDPoPProof)))"

definition jkt :: "pyval \<Rightarrow> py_error + string" where
  "jkt jwk = bind_res (as_dict jwk) thumbprint"

definition urlunsplit_base :: "string \<Rightarrow> string \<Rightarrow> string \<Rightarrow> py_error + string" where
  "urlunsplit_base scheme netloc path =
     (if netloc = [] then Inl Unmodelled
      else (let url = ''//'' @ netloc @ (if path \<noteq> [] \<and> hd path \<noteq> CHR ''/'' then CHR ''/'' # path else path)
            in Inr (if scheme \<noteq> [] then scheme @ '':'' @ url else url)))"

definition normalize_htu :: "string \<Rightarrow> py_error + string" where
  "normalize_htu url =
     bind_res (urlsplit url) (\<lambda>parts.
       urlunsplit_base (lower (url_scheme parts)) (lower (url_netloc parts)) (url_path parts))"

definition access_token_hash :: "string \<Rightarrow> py_error + string" where
  "access_token_hash token = map_sum id (\<lambda>raw. b64u_encode (sha256 raw)) (ascii_encode token)"

section \<open>The client\<close>

text \<open>A proof by the key \<open>private\<close>; the random source is the state.\<close>

definition dpop_public_jwk :: "ec_private \<Rightarrow> py_error + pydict" where
  "dpop_public_jwk private = bind_res (ec_public_of private) ec_public_jwk"

definition dpop_thumbprint :: "ec_private \<Rightarrow> py_error + string" where
  "dpop_thumbprint private = bind_res (dpop_public_jwk private) thumbprint"

definition dpop_proof ::
  "ec_private \<Rightarrow> int \<Rightarrow> string \<Rightarrow> string \<Rightarrow> string option \<Rightarrow> string option \<Rightarrow> (rng, string) op" where
  "dpop_proof private now meth url access_token nonce =
     bindM (lift (py (dpop_public_jwk private))) (\<lambda>jwk.
       let header = [(''typ'', PStr DPOP_TYP), (''alg'', PStr ''ES256''), (''jwk'', PDict jwk)] in
       bindM (draw_token 16) (\<lambda>jti.
         bindM (lift (py (normalize_htu url))) (\<lambda>htu.
           bindM (lift (py (case access_token of None \<Rightarrow> Inr None | Some t \<Rightarrow> map_sum id Some (access_token_hash t)))) (\<lambda>ath.
             let payload = [(''jti'', PStr jti), (''htm'', PStr (upper meth)), (''htu'', PStr htu), (''iat'', PInt now)]
                   @ (case ath of None \<Rightarrow> [] | Some a \<Rightarrow> [(''ath'', PStr a)])
                   @ (case nonce of None \<Rightarrow> [] | Some n \<Rightarrow> [(''nonce'', PStr n)]);
                 text = json_b64u (PDict header) @ ''.'' @ json_b64u (PDict payload)
             in bindM (lift (py (ascii_encode text))) (\<lambda>signing_input.
                  bindM (lift (py (ecdsa_sign private signing_input (c_hash_name (ec_curve private))))) (\<lambda>sig.
                    bindM (lift (py (signature_to_raw sig SECP256R1))) (\<lambda>raw.
                      ret (text @ ''.'' @ b64u_encode raw))))))))"

section \<open>The verifier\<close>

record dpop_verifier =
  dv_max_age :: int
  dv_require_nonce :: bool
  dv_seen :: "(string, int) dict"
  dv_nonce :: "string option"

definition dpop_issue_nonce :: "dpop_verifier \<times> rng \<Rightarrow> string \<times> dpop_verifier \<times> rng" where
  "dpop_issue_nonce st =
     (case st of (d, g) \<Rightarrow> (case random_token 16 g of (n, g') \<Rightarrow> (n, d\<lparr>dv_nonce := Some n\<rparr>, g')))"

definition dpop_purge :: "int \<Rightarrow> dpop_verifier \<Rightarrow> dpop_verifier" where
  "dpop_purge now d = d\<lparr>dv_seen := filter (\<lambda>(k, e). \<not> e < now) (dv_seen d)\<rparr>"

text \<open>The three segments, decoded: header, payload, signature, signing input.\<close>

definition dpop_parse :: "string \<Rightarrow> exn + pyval \<times> pyval \<times> byte list \<times> string" where
  "dpop_parse proof =
     (if proof = [] then Inl (OAuth InvalidDPoPProof)
      else (case split_on CHR ''.'' proof of
          [header_seg, payload_seg, signature_seg] \<Rightarrow>
            catch_all (OAuth InvalidDPoPProof) (py
              (bind_res (bind_res (b64u_decode header_seg) json_loads_bytes) (\<lambda>header.
                bind_res (bind_res (b64u_decode payload_seg) json_loads_bytes) (\<lambda>payload.
                  bind_res (b64u_decode signature_seg) (\<lambda>signature.
                    Inr (header, payload, signature, header_seg @ ''.'' @ payload_seg))))))
        | _ \<Rightarrow> Inl (OAuth InvalidDPoPProof)))"

text \<open>Header and signature; the result is the embedded key.\<close>

definition dpop_check_signature :: "pydict \<Rightarrow> string \<Rightarrow> byte list \<Rightarrow> exn + pyval" where
  "dpop_check_signature header text signature =
     (if pget header ''typ'' \<noteq> PStr DPOP_TYP then Inl (OAuth InvalidDPoPProof)
      else if pget header ''alg'' \<noteq> PStr ''ES256'' then Inl (OAuth InvalidDPoPProof)
      else (case dget header ''jwk'' of
          None \<Rightarrow> Inl (OAuth InvalidDPoPProof)
        | Some jwk \<Rightarrow>
            bind_res (ec_public_from_jwk jwk) (\<lambda>public.
              bind_res (py (ascii_encode text)) (\<lambda>signing_input.
                bind_res (py (signature_from_raw signature SECP256R1)) (\<lambda>sig.
                  bind_res (py (ecdsa_verify public signing_input sig ''sha256'')) (\<lambda>good.
                    if good then Inr jwk else Inl (OAuth InvalidDPoPProof)))))))"

text \<open>The claims that tie the proof to the request; the result is the issue time and the \<open>jti\<close>.\<close>

definition dpop_check_request :: "int \<Rightarrow> int \<Rightarrow> string \<Rightarrow> string \<Rightarrow> pydict \<Rightarrow> exn + int \<times> string" where
  "dpop_check_request now max_age meth url payload =
     bind_res (py (str_of (case dget payload ''htm'' of None \<Rightarrow> PStr [] | Some v \<Rightarrow> v))) (\<lambda>htm.
       if upper htm \<noteq> upper meth then Inl (OAuth InvalidDPoPProof)
       else bind_res (py (normalize_htu url)) (\<lambda>htu.
         if pget payload ''htu'' \<noteq> PStr htu then Inl (OAuth InvalidDPoPProof)
         else (case as_int (pget payload ''iat'') of
             None \<Rightarrow> Inl (OAuth InvalidDPoPProof)
           | Some iat \<Rightarrow>
               (if \<bar>now - iat\<bar> > max_age then Inl (OAuth InvalidDPoPProof)
                else (case pget payload ''jti'' of
                    PStr jti \<Rightarrow> if jti = [] then Inl (OAuth InvalidDPoPProof) else Inr (iat, jti)
                  | _ \<Rightarrow> Inl (OAuth InvalidDPoPProof))))))"

text \<open>The server's nonce, the access token and the expected key.\<close>

definition dpop_check_nonce :: "dpop_verifier \<Rightarrow> pydict \<Rightarrow> exn + unit" where
  "dpop_check_nonce d payload =
     (if \<not> dv_require_nonce d then Inr ()
      else if pget payload ''nonce'' = PNone then Inl (OAuth UseDPoPNonce)
      else (case dv_nonce d of
          None \<Rightarrow> Inl (OAuth UseDPoPNonce)
        | Some n \<Rightarrow>
            if constant_time_equals (py_str (pget payload ''nonce'')) n then Inr () else Inl (OAuth UseDPoPNonce)))"

definition dpop_check_ath :: "string option \<Rightarrow> pydict \<Rightarrow> exn + unit" where
  "dpop_check_ath access_token payload =
     (case access_token of
        None \<Rightarrow> Inr ()
      | Some t \<Rightarrow>
          (if pget payload ''ath'' = PNone then Inl (OAuth InvalidDPoPProof)
           else bind_res (py (access_token_hash t)) (\<lambda>h.
             if constant_time_equals (py_str (pget payload ''ath'')) h then Inr () else Inl (OAuth InvalidDPoPProof))))"

definition dpop_check_key :: "string option \<Rightarrow> pyval \<Rightarrow> exn + string" where
  "dpop_check_key expected jwk =
     bind_res (py (jkt jwk)) (\<lambda>thumb.
       case expected of
         None \<Rightarrow> Inr thumb
       | Some e \<Rightarrow> if constant_time_equals thumb e then Inr thumb else Inl (OAuth InvalidDPoPProof))"

definition dpop_verify ::
  "int \<Rightarrow> string \<Rightarrow> string \<Rightarrow> string \<Rightarrow> string option \<Rightarrow> string option \<Rightarrow> (dpop_verifier, string) op" where
  "dpop_verify now proof meth url access_token expected_jkt d =
     (case bind_res (dpop_parse proof) (\<lambda>(header, payload, signature, text).
             bind_res (py (as_dict header)) (\<lambda>h.
               bind_res (dpop_check_signature h text signature) (\<lambda>jwk.
                 bind_res (py (as_dict payload)) (\<lambda>p.
                   bind_res (dpop_check_request now (dv_max_age d) meth url p) (\<lambda>(iat, jti). Inr (jwk, p, jti)))))) of
        Inl e \<Rightarrow> (Inl e, d)
      | Inr (jwk, p, jti) \<Rightarrow>
          (let d1 = dpop_purge now d in
           if dget (dv_seen d1) jti \<noteq> None then (Inl (OAuth InvalidDPoPProof), d1)
           else (case bind_res (dpop_check_nonce d1 p) (\<lambda>_.
                        bind_res (dpop_check_ath access_token p) (\<lambda>_. dpop_check_key expected_jkt jwk)) of
               Inl e \<Rightarrow> (Inl e, d1)
             | Inr thumb \<Rightarrow> (Inr thumb, d1\<lparr>dv_seen := dset jti (now + dv_max_age d * 2) (dv_seen d1)\<rparr>))))"

section \<open>A proof is for one request and is accepted once\<close>

lemma dpop_check_request_D:
  assumes "dpop_check_request now max_age meth url payload = Inr (iat, jti)"
  shows "(\<exists>htm. pget payload ''htm'' = PStr htm \<and> upper htm = upper meth \<or> dget payload ''htm'' = None \<and> upper meth = [])
    \<and> (\<exists>htu. normalize_htu url = Inr htu \<and> pget payload ''htu'' = PStr htu)
    \<and> as_int (pget payload ''iat'') = Some iat \<and> \<bar>now - iat\<bar> \<le> max_age
    \<and> pget payload ''jti'' = PStr jti \<and> jti \<noteq> []"
  using assms
  by (auto simp: dpop_check_request_def str_of_def pget_def upper_def elim!: bind_res_InrE split: option.splits if_splits pyval.splits)

lemma dpop_check_signature_D:
  assumes "dpop_check_signature header text signature = Inr jwk"
  shows "pget header ''typ'' = PStr DPOP_TYP \<and> pget header ''alg'' = PStr ''ES256'' \<and> dget header ''jwk'' = Some jwk
    \<and> (\<exists>public sig. ec_public_from_jwk jwk = Inr public \<and> signature_from_raw signature SECP256R1 = Inr sig
         \<and> ecdsa_verify public (map of_char text) sig ''sha256'' = Inr True)"
  using assms
  by (auto simp: dpop_check_signature_def ascii_encode_def elim!: bind_res_InrE split: option.splits if_splits)

text \<open>The part of a verification that does not depend on the replay cache.\<close>

definition dpop_request ::
  "int \<Rightarrow> int \<Rightarrow> string \<Rightarrow> string \<Rightarrow> string \<Rightarrow> exn + pyval \<times> pydict \<times> string" where
  "dpop_request now max_age proof meth url =
     bind_res (dpop_parse proof) (\<lambda>(header, payload, signature, text).
       bind_res (py (as_dict header)) (\<lambda>h.
         bind_res (dpop_check_signature h text signature) (\<lambda>jwk.
           bind_res (py (as_dict payload)) (\<lambda>p.
             bind_res (dpop_check_request now max_age meth url p) (\<lambda>(iat, jti). Inr (jwk, p, jti))))))"

lemma dpop_request_D:
  assumes "dpop_request now max_age proof meth url = Inr (jwk, p, jti)"
  obtains h signature input iat where "dpop_parse proof = Inr (PDict h, PDict p, signature, input)"
    "dpop_check_signature h input signature = Inr jwk" "dpop_check_request now max_age meth url p = Inr (iat, jti)"
  using assms
  by (auto simp: dpop_request_def as_dict_def elim!: bind_res_InrE split: pyval.splits)

lemma dpop_verify_D:
  assumes "dpop_verify now proof meth url access_token expected d = (Inr thumb, d')"
  obtains jwk p jti where "dpop_request now (dv_max_age d) proof meth url = Inr (jwk, p, jti)"
    "dget (dv_seen (dpop_purge now d)) jti = None" "dpop_check_nonce (dpop_purge now d) p = Inr ()"
    "dpop_check_ath access_token p = Inr ()" "dpop_check_key expected jwk = Inr thumb"
    "d' = (dpop_purge now d)\<lparr>dv_seen := dset jti (now + dv_max_age d * 2) (dv_seen (dpop_purge now d))\<rparr>"
  using assms
  by (auto simp: dpop_verify_def dpop_request_def [symmetric] Let_def elim!: bind_res_InrE split: sum.splits prod.splits if_splits)

lemma dpop_verify_state:
  assumes "dpop_verify now proof meth url access_token expected d = (r, d')"
  shows "d' = d \<or> d' = dpop_purge now d
    \<or> (\<exists>jti. dget (dv_seen (dpop_purge now d)) jti = None
         \<and> d' = (dpop_purge now d)\<lparr>dv_seen := dset jti (now + dv_max_age d * 2) (dv_seen (dpop_purge now d))\<rparr>)"
  using assms
  by (auto simp: dpop_verify_def Let_def split: sum.splits prod.splits if_splits)

lemma dget_purge: "distinct (dkeys (dv_seen d)) \<Longrightarrow>
  dget (dv_seen (dpop_purge now d)) k = (case dget (dv_seen d) k of Some e \<Rightarrow> if e < now then None else Some e | None \<Rightarrow> None)"
proof -
  have "distinct (dkeys xs) \<Longrightarrow> dget (filter (\<lambda>(k, e). \<not> e < now) xs) k =
      (case dget xs k of Some e \<Rightarrow> if e < now then None else Some e | None \<Rightarrow> None)" for xs
    by (induction xs) (auto split: option.splits simp: dget_None_iff dest: map_of_SomeD)
  then show "distinct (dkeys (dv_seen d)) \<Longrightarrow> ?thesis" by (simp add: dpop_purge_def)
qed

lemma purge_simps [simp]:
  "dv_max_age (dpop_purge now d) = dv_max_age d" "dv_require_nonce (dpop_purge now d) = dv_require_nonce d"
  "dv_nonce (dpop_purge now d) = dv_nonce d"
  "distinct (dkeys (dv_seen d)) \<Longrightarrow> distinct (dkeys (dv_seen (dpop_purge now d)))"
  by (auto simp: dpop_purge_def distinct_map_filter case_prod_beta)

text \<open>What anybody may do with the verifier while its clock does not go back.\<close>

inductive dpop_runs :: "int \<Rightarrow> dpop_verifier \<Rightarrow> int \<Rightarrow> dpop_verifier \<Rightarrow> bool" where
  stay: "dpop_runs t d t d"
| call: "dpop_runs t d u d1 \<Longrightarrow> u \<le> now \<Longrightarrow> dpop_verify now proof meth url at ex d1 = (r, d2) \<Longrightarrow> dpop_runs t d now d2"
| nonce: "dpop_runs t d u d1 \<Longrightarrow> dpop_issue_nonce (d1, g) = (n, d2, g') \<Longrightarrow> dpop_runs t d u d2"

text \<open>An accepted \<open>jti\<close> stays in the cache until its entry has expired.\<close>

definition remembers :: "string \<Rightarrow> int \<Rightarrow> int \<Rightarrow> dpop_verifier \<Rightarrow> bool" where
  "remembers jti k now d \<longleftrightarrow> distinct (dkeys (dv_seen d)) \<and> (k < now \<or> dget (dv_seen d) jti = Some k)"

lemma remembers_purge: "remembers jti k u d \<Longrightarrow> u \<le> now \<Longrightarrow> remembers jti k now (dpop_purge now d)"
  by (fastforce simp: remembers_def dget_purge split: option.splits)

lemma remembers_run:
  "dpop_runs t d u d' \<Longrightarrow> remembers jti k t d \<Longrightarrow> remembers jti k u d' \<and> dv_max_age d' = dv_max_age d \<and> t \<le> u"
proof (induction rule: dpop_runs.induct)
  case (call t d u d1 now pf meth url at ex r d2)
  then have r: "remembers jti k u d1" and "dv_max_age d1 = dv_max_age d" "t \<le> u" by auto
  moreover from remembers_purge [OF r \<open>u \<le> now\<close>] r \<open>u \<le> now\<close>
  have "remembers jti k now d2 \<and> dv_max_age d2 = dv_max_age d1"
    using dpop_verify_state [OF call.hyps(3)] by (auto simp: remembers_def simp del: map_of_eq_Some_iff split: if_splits)
  ultimately show ?case using \<open>u \<le> now\<close> by auto
next
  case (nonce t d u d1 g n d2 g')
  then show ?case by (auto simp: dpop_issue_nonce_def remembers_def split: prod.splits)
qed simp

lemma dpop_replay_rejected:
  assumes "dpop_verify now proof meth url access_token expected d = (Inr thumb, d1)"
    and "distinct (dkeys (dv_seen d))" "dpop_runs now d1 u d2" "u \<le> later"
  shows "\<exists>e d3. dpop_verify later proof meth' url' access_token' expected' d2 = (Inl e, d3)"
proof (rule ccontr)
  from assms(1) obtain jwk p jti where req: "dpop_request now (dv_max_age d) proof meth url = Inr (jwk, p, jti)"
    and d1: "d1 = (dpop_purge now d)\<lparr>dv_seen := dset jti (now + dv_max_age d * 2) (dv_seen (dpop_purge now d))\<rparr>"
    by (rule dpop_verify_D)
  from req obtain h signature input iat where parse: "dpop_parse proof = Inr (PDict h, PDict p, signature, input)"
    and check: "dpop_check_request now (dv_max_age d) meth url p = Inr (iat, jti)" by (rule dpop_request_D)
  note c = dpop_check_request_D [OF check]
  let ?k = "now + dv_max_age d * 2"
  have "remembers jti ?k now d1" using assms(2) by (simp add: d1 remembers_def distinct_update)
  from remembers_run [OF assms(3) this] have rem: "remembers jti ?k u d2" and age: "dv_max_age d2 = dv_max_age d"
    by (auto simp: d1)
  assume "\<nexists>e d3. dpop_verify later proof meth' url' access_token' expected' d2 = (Inl e, d3)"
  then obtain t d3 where "dpop_verify later proof meth' url' access_token' expected' d2 = (Inr t, d3)"
    by (metis surj_pair sumE)
  then obtain jwk2 p2 jti2 where req2: "dpop_request later (dv_max_age d) proof meth' url' = Inr (jwk2, p2, jti2)"
    and fresh: "dget (dv_seen (dpop_purge later d2)) jti2 = None"
    using age by (metis dpop_verify_D)
  from req2 obtain h2 s2 t2 iat2 where "dpop_parse proof = Inr (PDict h2, PDict p2, s2, t2)"
    and "dpop_check_request later (dv_max_age d) meth' url' p2 = Inr (iat2, jti2)" by (rule dpop_request_D)
  with dpop_check_request_D [of later "dv_max_age d" meth' url' p2 iat2 jti2] c parse
  have "iat2 = iat" "jti2 = jti" "\<bar>later - iat\<bar> \<le> dv_max_age d" by auto
  with c have "\<not> ?k < later" by linarith
  with remembers_purge [OF rem assms(4)] fresh \<open>jti2 = jti\<close> show False by (simp add: remembers_def)
qed

text \<open>
  A server that answers calls with proofs: each call comes some time after the one before, and
  the proofs that were accepted are collected.
\<close>

type_synonym dpop_call = "nat \<times> string \<times> string \<times> string \<times> string option \<times> string option"

fun dpop_serve :: "int \<Rightarrow> dpop_verifier \<Rightarrow> dpop_call list \<Rightarrow> string list" where
  "dpop_serve now d [] = []"
| "dpop_serve now d ((delay, pf, meth, url, at, ex) # calls) =
     (case dpop_verify (now + int delay) pf meth url at ex d of
        (Inl _, d') \<Rightarrow> dpop_serve (now + int delay) d' calls
      | (Inr _, d') \<Rightarrow> pf # dpop_serve (now + int delay) d' calls)"

lemma dpop_serve_replay:
  assumes "dpop_verify now pf meth url at ex d = (Inr thumb, d1)" "distinct (dkeys (dv_seen d))"
  shows "dpop_runs now d1 u d2 \<Longrightarrow> pf \<notin> set (dpop_serve u d2 calls)"
proof (induction u d2 calls rule: dpop_serve.induct)
  case (2 u d2 delay pf' meth' url' at' ex' calls)
  let ?t = "u + int delay"
  obtain r d3 where v: "dpop_verify ?t pf' meth' url' at' ex' d2 = (r, d3)" by fastforce
  have run: "dpop_runs now d1 ?t d3" by (rule dpop_runs.call [OF 2(3) _ v]) simp
  show ?case
  proof (cases r)
    case (Inl e)
    with 2(1) [OF v [symmetric] Inl run] v show ?thesis by simp
  next
    case (Inr x)
    have "pf' \<noteq> pf"
      using dpop_replay_rejected [OF assms 2(3), of ?t meth' url' at' ex'] v Inr by auto
    with 2(2) [OF v [symmetric] Inr run] v Inr show ?thesis by simp
  qed
qed simp

lemma dpop_verify_distinct:
  assumes "dpop_verify now pf meth url at ex d = (r, d')" "distinct (dkeys (dv_seen d))"
  shows "distinct (dkeys (dv_seen d'))"
proof -
  have "dpop_runs now d now d'" by (rule dpop_runs.call [OF dpop_runs.stay _ assms(1)]) simp
  moreover have "remembers [] (now - 1) now d" using assms(2) by (simp add: remembers_def)
  ultimately show ?thesis using remembers_run [of now d now d' "[]" "now - 1"] by (simp add: remembers_def)
qed

lemma dpop_serve_distinct: "distinct (dkeys (dv_seen d)) \<Longrightarrow> distinct (dpop_serve now d calls)"
proof (induction now d calls rule: dpop_serve.induct)
  case (2 now d delay pf meth url at ex calls)
  obtain r d' where v: "dpop_verify (now + int delay) pf meth url at ex d = (r, d')" by fastforce
  note d' = dpop_verify_distinct [OF v 2(3)]
  show ?case
  proof (cases r)
    case (Inl e)
    with 2(1) [OF v [symmetric] Inl d'] v show ?thesis by simp
  next
    case (Inr x)
    have "pf \<notin> set (dpop_serve (now + int delay) d' calls)"
      by (rule dpop_serve_replay [OF v [unfolded Inr] 2(3) dpop_runs.stay])
    with 2(2) [OF v [symmetric] Inr d'] v Inr show ?thesis by simp
  qed
qed simp

text \<open>
  C13: A server never accepts the same proof twice, whatever the requests are and however the
  clock advances between them, starting from an empty replay cache.
\<close>

theorem dpop_proofs_are_single_use:
  "distinct (dpop_serve now \<lparr>dv_max_age = max_age, dv_require_nonce = need_nonce, dv_seen = [], dv_nonce = n\<rparr> calls)"
  by (rule dpop_serve_distinct) simp

text \<open>
  The verifier accepts a proof exactly when it was made for this request: it is typed and
  signed under the P-256 key it carries, names the method and the URL, was issued within the
  window around the clock, has an identifier that is not in the purged replay cache, carries
  the server's nonce where one is required and the hash of the access token presented, and the
  thumbprint of its key, which is the result, is the expected one.
\<close>

theorem dpop_accepts_exactly:
  "(\<exists>d1. dpop_verify now pf meth url access_token expected d = (Inr thumb, d1)) \<longleftrightarrow>
     (\<exists>h p signature input jwk iat jti.
        dpop_parse pf = Inr (PDict h, PDict p, signature, input)
        \<and> dpop_check_signature h input signature = Inr jwk
        \<and> dpop_check_request now (dv_max_age d) meth url p = Inr (iat, jti)
        \<and> dget (dv_seen (dpop_purge now d)) jti = None
        \<and> dpop_check_nonce d p = Inr ()
        \<and> dpop_check_ath access_token p = Inr ()
        \<and> jkt jwk = Inr thumb \<and> (expected = None \<or> expected = Some thumb))"
  (is "?l = ?r")
proof
  assume ?l
  then obtain d1 where "dpop_verify now pf meth url access_token expected d = (Inr thumb, d1)" ..
  then show ?r
    by (rule dpop_verify_D; elim dpop_request_D)
       (force simp: dpop_check_key_def dpop_check_nonce_def elim!: bind_res_InrE split: option.splits if_splits)
next
  assume ?r
  then show ?l
    by (auto simp: dpop_verify_def dpop_check_key_def dpop_check_nonce_def Let_def as_dict_def)
qed

end
