(* ===== verification/Rar.thy ===== *)
theory Rar
  imports Exn Json
begin

text \<open>
  \<open>authlab/oauth/rar.py\<close>: the common fields of rich authorization requests.
\<close>

definition MAX_AUTHORIZATION_DETAILS :: nat where
  "MAX_AUTHORIZATION_DETAILS = 16"

definition rar_error :: "exn + 'a" where
  "rar_error = Inl (OAuth InvalidAuthorizationDetails)"

text \<open>A member that is absent or a non-empty array of non-empty strings.\<close>

definition string_array :: "pyval \<Rightarrow> bool" where
  "string_array v \<longleftrightarrow>
     (case v of PList items \<Rightarrow> items \<noteq> [] \<and> list_all (\<lambda>i. case i of PStr s \<Rightarrow> s \<noteq> [] | _ \<Rightarrow> False) items | _ \<Rightarrow> False)"

definition check_string_array :: "pydict \<Rightarrow> string \<Rightarrow> exn + unit" where
  "check_string_array detail name =
     (let member = pget detail name in if member \<noteq> PNone \<and> \<not> string_array member then rar_error else Inr ())"

definition check_location :: "pyval \<Rightarrow> unit \<Rightarrow> exn + unit" where
  "check_location location u =
     (case location of
        PStr s \<Rightarrow>
          bind_res (py (urlsplit s)) (\<lambda>parts.
            if url_scheme parts \<noteq> ''https'' \<or> url_netloc parts = [] then rar_error else Inr ())
      | _ \<Rightarrow> rar_error)"

definition check_locations :: "pydict \<Rightarrow> exn + unit" where
  "check_locations detail =
     (case pget detail ''locations'' of
        PNone \<Rightarrow> Inr ()
      | PList ls \<Rightarrow> if ls = [] then rar_error else fold_res check_location ls ()
      | _ \<Rightarrow> rar_error)"

definition check_identifier :: "pydict \<Rightarrow> exn + unit" where
  "check_identifier detail =
     (case pget detail ''identifier'' of PNone \<Rightarrow> Inr () | PStr _ \<Rightarrow> Inr () | _ \<Rightarrow> rar_error)"

definition check_detail :: "string list \<Rightarrow> pyval \<Rightarrow> exn + pyval" where
  "check_detail supported d =
     (case d of
        PDict detail \<Rightarrow>
          (case pget detail ''type'' of
             PStr t \<Rightarrow>
               (if t = [] \<or> \<not> is_ascii t then rar_error
                else if t \<notin> set supported then rar_error
                else bind_res (fold_res (\<lambda>name _. check_string_array detail name) [''actions'', ''datatypes'', ''privileges''] ()) (\<lambda>_.
                  bind_res (check_locations detail) (\<lambda>_.
                    bind_res (check_identifier detail) (\<lambda>_.
                      bind_res (check_string_array detail ''credential_identifiers'') (\<lambda>_. Inr d)))))
           | _ \<Rightarrow> rar_error)
      | _ \<Rightarrow> rar_error)"

definition validate_details :: "string list \<Rightarrow> pyval \<Rightarrow> exn + pyval list" where
  "validate_details supported v =
     (case v of
        PList ds \<Rightarrow>
          (if ds = [] then rar_error
           else if length ds > MAX_AUTHORIZATION_DETAILS then rar_error
           else map_res (check_detail supported) ds)
      | _ \<Rightarrow> rar_error)"

text \<open>A string is parsed first; \<open>except (JSONDecodeError, TypeError)\<close>.\<close>

definition validate_authorization_details :: "pyval \<Rightarrow> string list \<Rightarrow> exn + pyval list" where
  "validate_authorization_details v supported =
     (case v of
        PStr s \<Rightarrow>
          (case json_loads s of
             Inl e \<Rightarrow> if e = ValueError \<or> e = TypeError then rar_error else Inl (Py e)
           | Inr value \<Rightarrow> validate_details supported value)
      | _ \<Rightarrow> validate_details supported v)"

section \<open>What is granted is what was asked for\<close>

lemma check_detail_id:
  "check_detail supported d = Inr d' \<Longrightarrow>
   d' = d \<and> (\<exists>fields t. d = PDict fields \<and> pget fields ''type'' = PStr t \<and> t \<in> set supported \<and> t \<noteq> [] \<and> is_ascii t)"
  by (auto simp: check_detail_def rar_error_def elim!: bind_res_InrE split: pyval.splits if_splits)

lemma map_res_id:
  assumes "map_res f xs = Inr ys" "\<And>x y. f x = Inr y \<Longrightarrow> y = x"
  shows "ys = xs \<and> (\<forall>x \<in> set xs. f x = Inr x)"
  using assms
proof (induction xs arbitrary: ys)
  case (Cons x xs)
  from Cons.prems(1) obtain y zs where "f x = Inr y" "map_res f xs = Inr zs" "ys = y # zs"
    by (auto split: sum.splits)
  with Cons.IH [of zs] Cons.prems(2) show ?case by auto
qed simp

lemma validate_details_D:
  assumes "validate_details supported v = Inr ds"
  shows "v = PList ds \<and> ds \<noteq> [] \<and> length ds \<le> MAX_AUTHORIZATION_DETAILS
    \<and> (\<forall>d \<in> set ds. check_detail supported d = Inr d)"
  using assms map_res_id [of "check_detail supported" _ ds] check_detail_id
  by (auto simp: validate_details_def rar_error_def not_less split: pyval.splits if_splits)

text \<open>
  Validated authorization details are the array that was sent, as a value or as JSON text,
  unchanged and in order: between one and sixteen objects, each of a supported type; and
  validating them again, as happens when a pushed request is resolved, gives the same array.
\<close>

theorem authorization_details_are_preserved:
  assumes "validate_authorization_details v supported = Inr ds"
  shows "(v = PList ds \<or> (\<exists>s. v = PStr s \<and> json_loads s = Inr (PList ds)))
    \<and> ds \<noteq> [] \<and> length ds \<le> 16
    \<and> list_all (\<lambda>d. \<exists>fields t. d = PDict fields \<and> pget fields ''type'' = PStr t \<and> t \<in> set supported) ds
    \<and> validate_authorization_details (PList ds) supported = Inr ds"
proof -
  obtain w where w: "validate_details supported w = Inr ds" "v = w \<or> (\<exists>s. v = PStr s \<and> json_loads s = Inr w)"
    using assms by (auto simp: validate_authorization_details_def rar_error_def split: pyval.splits sum.splits if_splits)
  note d = validate_details_D [OF w(1)]
  then have "validate_authorization_details (PList ds) supported = Inr ds"
    using w(1) by (simp add: validate_authorization_details_def)
  with d w(2) check_detail_id show ?thesis
    by (fastforce simp: MAX_AUTHORIZATION_DETAILS_def list_all_iff)
qed

theorem authorization_details_are_preserved_witness:
  "length [PDict [(''type'', PStr ''payment_initiation''), (''actions'', PList [PStr ''write''])]] \<le> 16
   \<and> validate_authorization_details
       (PList [PDict [(''type'', PStr ''payment_initiation''), (''actions'', PList [PStr ''write''])]]) [''payment_initiation'']
     = Inr [PDict [(''type'', PStr ''payment_initiation''), (''actions'', PList [PStr ''write''])]]"
proof -
  have "validate_authorization_details
       (PList [PDict [(''type'', PStr ''payment_initiation''), (''actions'', PList [PStr ''write''])]]) [''payment_initiation'']
     = Inr [PDict [(''type'', PStr ''payment_initiation''), (''actions'', PList [PStr ''write''])]]"
    by (simp add: validate_authorization_details_def validate_details_def check_detail_def check_string_array_def
        check_locations_def check_identifier_def string_array_def MAX_AUTHORIZATION_DETAILS_def is_ascii_def Let_def)
  from authorization_details_are_preserved [OF this] show ?thesis by blast
qed

end
