(* ===== verification/OauthModels.thy ===== *)
theory OauthModels
  imports Dpop Rar
begin

text \<open>
  \<open>authlab/oauth/models.py\<close>: the records of the authorization server and its in-memory store.
  Fields that come from a request without a type check keep the value they were sent with.
\<close>

section \<open>Records\<close>

record client =
  cl_id :: string
  cl_secret :: "string option"
  cl_redirect_uris :: "string list"
  cl_grant_types :: "string list"
  cl_response_types :: "string list"
  cl_scopes :: "string list"
  cl_auth_method :: string
  cl_require_pkce :: bool
  cl_name :: string
  cl_tls_bound :: bool
  cl_require_dpop :: bool
  cl_jwks :: "pydict option"
  cl_rotate :: bool
  cl_delivery_mode :: string
  cl_notification_endpoint :: "string option"
  cl_introspection_audiences :: "string list"

definition is_public :: "client \<Rightarrow> bool" where
  "is_public c \<longleftrightarrow> cl_auth_method c = ''none''"

record user =
  us_subject :: string
  us_username :: string
  us_password_hash :: string
  us_email :: string
  us_name :: string
  us_email_verified :: bool
  us_totp_secret :: "byte list option"
  us_groups :: "string list"
  us_roles :: "string list"

record auth_code =
  ac_code :: string
  ac_client_id :: string
  ac_subject :: string
  ac_redirect_uri :: string
  ac_scope :: "string list"
  ac_expires_at :: int
  ac_challenge :: pyval
  ac_method :: pyval
  ac_nonce :: pyval
  ac_amr :: "string list"
  ac_auth_time :: int
  ac_used :: bool
  ac_resource :: "string list"
  ac_dpop_jkt :: pyval
  ac_details :: "pyval list"

record access_token =
  at_token :: string
  at_client_id :: string
  at_subject :: "string option"
  at_scope :: "string list"
  at_expires_at :: int
  at_issued_at :: int
  at_type :: string
  at_audience :: "string list"
  at_revoked :: bool
  at_jkt :: "string option"
  at_x5t :: "string option"
  at_jti :: string
  at_details :: "pyval list"

record refresh_token =
  rt_token :: string
  rt_client_id :: string
  rt_subject :: string
  rt_scope :: "string list"
  rt_expires_at :: int
  rt_family :: string
  rt_used :: bool
  rt_revoked :: bool
  rt_rotated_to :: "string option"
  rt_jkt :: "string option"
  rt_x5t :: "string option"
  rt_details :: "pyval list"

record device_code =
  dc_device_code :: string
  dc_user_code :: string
  dc_client_id :: string
  dc_scope :: "string list"
  dc_expires_at :: int
  dc_interval :: int
  dc_approved :: bool
  dc_denied :: bool
  dc_subject :: "string option"
  dc_last_polled_at :: int
  dc_amr :: "string list"

section \<open>The store\<close>

record store =
  st_clients :: "(string, client) dict"
  st_users :: "(string, user) dict"
  st_codes :: "(string, auth_code) dict"
  st_access_tokens :: "(string, access_token) dict"
  st_refresh_tokens :: "(string, refresh_token) dict"
  st_device_codes :: "(string, device_code) dict"
  st_seen_jtis :: "(string, int) dict"
  st_events :: "(string \<times> string) list"

definition empty_store :: store where
  "empty_store =
     \<lparr>st_clients = [], st_users = [], st_codes = [], st_access_tokens = [], st_refresh_tokens = [],
      st_device_codes = [], st_seen_jtis = [], st_events = []\<rparr>"

definition store_log :: "string \<Rightarrow> string \<Rightarrow> store \<Rightarrow> store" where
  "store_log kind message st = st\<lparr>st_events := st_events st @ [(kind, message)]\<rparr>"

definition user_by_username :: "store \<Rightarrow> string \<Rightarrow> user option" where
  "user_by_username st name = find (\<lambda>u. us_username u = name) (dvalues (st_users st))"

text \<open>The number of tokens that were not revoked before, and the store with all of them revoked.\<close>

definition revoke_refresh_family :: "string \<Rightarrow> store \<Rightarrow> nat \<times> store" where
  "revoke_refresh_family family st =
     (length (filter (\<lambda>t. rt_family t = family \<and> \<not> rt_revoked t) (dvalues (st_refresh_tokens st))),
      st\<lparr>st_refresh_tokens :=
           dmap (\<lambda>t. if rt_family t = family \<and> \<not> rt_revoked t then t\<lparr>rt_revoked := True\<rparr> else t)
             (st_refresh_tokens st)\<rparr>)"

definition revoke_access_for_family_subject :: "string \<Rightarrow> string \<Rightarrow> store \<Rightarrow> nat \<times> store" where
  "revoke_access_for_family_subject client_id subject st =
     (length (filter (\<lambda>t. at_client_id t = client_id \<and> at_subject t = Some subject \<and> \<not> at_revoked t)
        (dvalues (st_access_tokens st))),
      st\<lparr>st_access_tokens :=
           dmap (\<lambda>t. if at_client_id t = client_id \<and> at_subject t = Some subject \<and> \<not> at_revoked t
                     then t\<lparr>at_revoked := True\<rparr> else t)
             (st_access_tokens st)\<rparr>)"

end
