(* ===== verification/AuthServer.thy ===== *)
theory AuthServer
  imports OauthModels
begin

text \<open>
  \<open>authlab/oauth/authorization_server.py\<close>: registration, the authorization endpoint, client
  authentication, the token endpoint with its four grants, device authorization,
  introspection, revocation and metadata.  The server object is a record; its clock is the
  field \<open>as_now\<close> (shared with its DPoP verifier, as \<open>__post_init__\<close> sets it up) and the
  operating system's random source the field \<open>as_rng\<close>.  Request parameters are dictionaries
  of arbitrary values.
\<close>

section \<open>The server\<close>

record auth_server =
  as_issuer :: string
  as_store :: store
  as_now :: int
  as_rng :: rng
  as_access_token_lifetime :: int
  as_refresh_token_lifetime :: int
  as_code_lifetime :: int
  as_device_code_lifetime :: int
  as_id_token_lifetime :: int
  as_jwt_access_tokens :: bool
  as_signing_key :: jose_key
  as_signing_kid :: string
  as_jwks :: jwkset
  as_dpop :: dpop_verifier
  as_supported_scopes :: "string list"
  as_known_resources :: "string list"
  as_detail_types :: "string list"

definition CLIENT_ASSERTION_TYPE :: string where
  "CLIENT_ASSERTION_TYPE = ''urn:ietf:params:oauth:client-assertion-type:jwt-bearer''"

definition DEVICE_GRANT :: string where
  "DEVICE_GRANT = ''urn:ietf:params:oauth:grant-type:device_code''"

definition USER_CODE_ALPHABET :: string where
  "USER_CODE_ALPHABET = ''BCDFGHJKLMNPQRSTVWXZ''"

text \<open>\<open>__post_init__\<close>: a key that was not given is generated, and an empty key set gets its public half.\<close>

definition post_init :: "jose_key option \<Rightarrow> auth_server \<Rightarrow> exn + auth_server" where
  "post_init key s =
     bind_res
       (case key of
          Some k \<Rightarrow> Inr (s\<lparr>as_signing_key := k\<rparr>)
        | None \<Rightarrow>
            (case generate_rsa_keypair 2048 65537 (as_rng s) of
               None \<Rightarrow> Inl (Py Diverges)
             | Some (Inl e) \<Rightarrow> Inl (Py e)
             | Some (Inr (k, g)) \<Rightarrow> Inr (s\<lparr>as_signing_key := KRsaPriv k, as_rng := g\<rparr>)))
       (\<lambda>s. if jk_keys (as_jwks s) \<noteq> [] then Inr s
            else (case as_signing_key s of
                KRsaPriv k \<Rightarrow>
                  bind_res (py (from_rsa_public (rsa_public_of k) (Some (as_signing_kid s)) ''RS256'' ''sig'')) (\<lambda>doc.
                    Inr (s\<lparr>as_jwks := jwkset_add (PDict doc) (as_jwks s)\<rparr>))
              | _ \<Rightarrow> Inl (Py AttributeError)))"

section \<open>Access to the parts of the server\<close>

definition fail :: "oauth_error \<Rightarrow> ('s, 'a) op" where
  "fail e = raise (OAuth e)"

definition require :: "bool \<Rightarrow> oauth_error \<Rightarrow> ('s, unit) op" where
  "require b e = guard b (OAuth e)"

definition on_rng :: "(rng, 'a) op \<Rightarrow> (auth_server, 'a) op" where
  "on_rng = zoom as_rng (\<lambda>g s. s\<lparr>as_rng := g\<rparr>)"

definition on_dpop :: "(dpop_verifier, 'a) op \<Rightarrow> (auth_server, 'a) op" where
  "on_dpop = zoom as_dpop (\<lambda>d s. s\<lparr>as_dpop := d\<rparr>)"

definition on_store :: "(store \<Rightarrow> store) \<Rightarrow> (auth_server, unit) op" where
  "on_store f = modify (\<lambda>s. s\<lparr>as_store := f (as_store s)\<rparr>)"

definition counting :: "(store \<Rightarrow> nat \<times> store) \<Rightarrow> (auth_server, nat) op" where
  "counting f s = (case f (as_store s) of (n, st) \<Rightarrow> (Inr n, s\<lparr>as_store := st\<rparr>))"

definition log_event :: "string \<Rightarrow> string \<Rightarrow> (auth_server, unit) op" where
  "log_event kind message = on_store (store_log kind message)"

text \<open>\<open>d.get(k, default)\<close>.\<close>

definition pget_or :: "pydict \<Rightarrow> string \<Rightarrow> pyval \<Rightarrow> pyval" where
  "pget_or d k v = (case dget d k of None \<Rightarrow> v | Some w \<Rightarrow> w)"

text \<open>\<open>a or b\<close> for optional strings.\<close>

definition str_or :: "string option \<Rightarrow> string option \<Rightarrow> string option" where
  "str_or a b = (case a of Some s \<Rightarrow> if s \<noteq> [] then a else b | None \<Rightarrow> b)"

definition truthy_str :: "string option \<Rightarrow> bool" where
  "truthy_str a = (case a of Some s \<Rightarrow> s \<noteq> [] | None \<Rightarrow> False)"

definition opt_str :: "string option \<Rightarrow> pyval" where
  "opt_str a = (case a of Some s \<Rightarrow> PStr s | None \<Rightarrow> PNone)"

section \<open>Registration\<close>

text \<open>The bracketed host in the source's list of loopback hosts never equals a parsed host name.\<close>

definition assert_registrable_redirect_uri :: "string \<Rightarrow> exn + unit" where
  "assert_registrable_redirect_uri uri =
     bind_res (py (urlsplit uri)) (\<lambda>parts.
       if url_fragment parts \<noteq> [] then Inl (OAuth InvalidRequest)
       else if CHR ''*'' \<in> set uri then Inl (OAuth InvalidRequest)
       else if url_scheme parts \<in> {''http'', ''https''} \<and> url_netloc parts = [] then Inl (OAuth InvalidRequest)
       else if url_scheme parts = ''http''
         \<and> url_hostname parts \<notin> {Some ''localhost'', Some ''127.0.0.1'', Some ''[::1]''} then Inl (OAuth InvalidRequest)
       else Inr ())"

definition register_client :: "client \<Rightarrow> (auth_server, client) op" where
  "register_client c =
     bindM (require (\<not> (cl_redirect_uris c = [] \<and> ''authorization_code'' \<in> set (cl_grant_types c))) InvalidRequest) (\<lambda>_.
       bindM (lift (fold_res (\<lambda>uri _. assert_registrable_redirect_uri uri) (cl_redirect_uris c) ())) (\<lambda>_.
         bindM (on_store (\<lambda>st. st\<lparr>st_clients := dset (cl_id c) c (st_clients st)\<rparr>)) (\<lambda>_. ret c)))"

definition register_user :: "user \<Rightarrow> (auth_server, user) op" where
  "register_user u =
     bindM (on_store (\<lambda>st. st\<lparr>st_users := dset (us_subject u) u (st_users st)\<rparr>)) (\<lambda>_. ret u)"

section \<open>The authorization endpoint\<close>

record validated =
  v_client :: client
  v_redirect_uri :: string
  v_scope :: "string list"
  v_state :: pyval
  v_nonce :: pyval
  v_challenge :: pyval
  v_method :: pyval
  v_resource :: "string list"
  v_dpop_jkt :: pyval
  v_details :: "pyval list"

text \<open>The client and its redirect URI: failures here must not redirect.\<close>

definition resolve_redirect :: "auth_server \<Rightarrow> pydict \<Rightarrow> exn + client \<times> string" where
  "resolve_redirect s params =
     (if \<not> truthy (pget params ''client_id'') then Inl (OAuth InvalidRequest)
      else bind_res (py (dict_get_val (st_clients (as_store s)) (pget params ''client_id''))) (\<lambda>found.
        case found of
          None \<Rightarrow> Inl (OAuth InvalidClient)
        | Some c \<Rightarrow>
            bind_res
              (if truthy (pget params ''redirect_uri'') then Inr (pget params ''redirect_uri'')
               else (case cl_redirect_uris c of [uri] \<Rightarrow> Inr (PStr uri) | _ \<Rightarrow> Inl (OAuth InvalidRequest)))
              (\<lambda>uri. if cl_redirect_uris c = [] then Inl (OAuth InvalidRequest)
                 else (case uri of
                     PStr u \<Rightarrow>
                       (if list_ex (constant_time_equals u) (cl_redirect_uris c) then Inr (c, u)
                        else Inl (OAuth InvalidRequest))
                   | _ \<Rightarrow> Inl (Py TypeError)))))"

definition check_request_scope :: "auth_server \<Rightarrow> client \<Rightarrow> pyval \<Rightarrow> exn + string list" where
  "check_request_scope s c v =
     bind_res (py (words_of v)) (\<lambda>scope.
       if \<not> set scope \<subseteq> set (as_supported_scopes s) then Inl (OAuth InvalidScope)
       else if cl_scopes c \<noteq> [] \<and> \<not> set scope \<subseteq> set (cl_scopes c) then Inl (OAuth InvalidScope)
       else Inr scope)"

definition validate_authorization_request :: "auth_server \<Rightarrow> pydict \<Rightarrow> exn + validated" where
  "validate_authorization_request s params =
     bind_res (resolve_redirect s params) (\<lambda>(c, redirect_uri).
       let response_type = pget_or params ''response_type'' (PStr []) in
       if response_type \<notin> set (map PStr (cl_response_types c)) then Inl (OAuth UnsupportedResponseType)
       else if response_type \<noteq> PStr ''code'' then Inl (OAuth UnsupportedResponseType)
       else bind_res (check_request_scope s c (pget params ''scope'')) (\<lambda>scope.
         let challenge = pget params ''code_challenge'';
             meth = pget_or params ''code_challenge_method'' (PStr ''plain'') in
         if (cl_require_pkce c \<or> is_public c) \<and> \<not> truthy challenge then Inl (OAuth InvalidRequest)
         else if (cl_require_pkce c \<or> is_public c) \<and> meth \<noteq> PStr ''S256'' then Inl (OAuth InvalidRequest)
         else if \<not> truthy (pget params ''state'') then Inl (OAuth InvalidRequest)
         else (let resources = (case pget params ''resource'' of PStr r \<Rightarrow> if r \<noteq> [] then [r] else [] | _ \<Rightarrow> []) in
           if \<not> set resources \<subseteq> set (as_known_resources s) then Inl (OAuth InvalidTarget)
           else bind_res
             (if pget params ''authorization_details'' \<noteq> PNone
              then validate_authorization_details (pget params ''authorization_details'') (as_detail_types s)
              else Inr [])
             (\<lambda>details. Inr
               \<lparr>v_client = c, v_redirect_uri = redirect_uri, v_scope = scope, v_state = pget params ''state'',
                v_nonce = pget params ''nonce'', v_challenge = challenge,
                v_method = (if truthy challenge then meth else PStr ''S256''),
                v_resource = resources, v_dpop_jkt = pget params ''dpop_jkt'', v_details = details\<rparr>))))"

text \<open>\<open>amr or ["pwd"]\<close>: no list and an empty list both mean a password.\<close>

definition amr_or :: "string list option \<Rightarrow> string list" where
  "amr_or amr = (case amr of Some a \<Rightarrow> if a \<noteq> [] then a else [''pwd''] | None \<Rightarrow> [''pwd''])"

definition issue_authorization_code ::
  "validated \<Rightarrow> string \<Rightarrow> string list option \<Rightarrow> int option \<Rightarrow> (auth_server, string) op" where
  "issue_authorization_code v subject amr auth_time =
     bindM (gets as_now) (\<lambda>now.
       bindM (on_rng (draw_token 32)) (\<lambda>code.
         bindM (gets as_code_lifetime) (\<lambda>lifetime.
           let entry = \<lparr>ac_code = code, ac_client_id = cl_id (v_client v), ac_subject = subject,
                 ac_redirect_uri = v_redirect_uri v, ac_scope = v_scope v, ac_expires_at = now + lifetime,
                 ac_challenge = v_challenge v, ac_method = v_method v, ac_nonce = v_nonce v, ac_amr = amr_or amr,
                 ac_auth_time = (case auth_time of Some t \<Rightarrow> t | None \<Rightarrow> now), ac_used = False,
                 ac_resource = v_resource v, ac_dpop_jkt = v_dpop_jkt v, ac_details = v_details v\<rparr> in
           bindM (on_store (\<lambda>st. st\<lparr>st_codes := dset code entry (st_codes st)\<rparr>)) (\<lambda>_.
             bindM (log_event ''code_issued'' (''code for '' @ subject @ '' / '' @ cl_id (v_client v))) (\<lambda>_.
               ret code)))))"

definition with_query :: "string \<Rightarrow> (string \<times> pyval) list \<Rightarrow> exn + string" where
  "with_query uri params =
     bind_res (py (urlsplit uri)) (\<lambda>parts.
       Inr (uri @ (if url_query parts \<noteq> [] then ''&'' else ''?'') @ urlencode params))"

definition authorization_redirect :: "validated \<Rightarrow> string \<Rightarrow> exn + string" where
  "authorization_redirect v code = with_query (v_redirect_uri v) [(''code'', PStr code), (''state'', v_state v)]"

definition error_redirect :: "string \<Rightarrow> string option \<Rightarrow> string \<Rightarrow> string \<Rightarrow> exn + string" where
  "error_redirect redirect_uri state error description =
     with_query redirect_uri
       ([(''error'', PStr error), (''error_description'', PStr description)]
        @ (case state of Some s \<Rightarrow> if s \<noteq> [] then [(''state'', PStr s)] else [] | None \<Rightarrow> []))"

section \<open>Client authentication\<close>

text \<open>\<open>except (JOSEError, ValueError, JSONDecodeError, UnicodeDecodeError, TypeError)\<close>.\<close>

definition assertion_error :: "exn \<Rightarrow> bool" where
  "assertion_error e = (case e of Jose _ \<Rightarrow> True | Py x \<Rightarrow> is_value_error x \<or> x = TypeError | OAuth _ \<Rightarrow> False)"

definition read_assertion :: "pydict \<Rightarrow> string \<Rightarrow> exn + pyval" where
  "read_assertion jwks assertion =
     bind_res (py (jwkset_from_json jwks)) (\<lambda>ks.
       bind_res (fst (jws_verify assertion jwks_resolver [''RS256''] False ks)) (\<lambda>parsed.
         py (json_loads_bytes (jws_payload parsed))))"

definition assertion_times_ok :: "int \<Rightarrow> pydict \<Rightarrow> bool" where
  "assertion_times_ok now claims =
     (case (as_int (pget claims ''iat''), as_int (pget claims ''exp'')) of
        (Some iat, Some exp) \<Rightarrow> iat \<le> now + 60 \<and> exp \<ge> now \<and> exp \<ge> iat \<and> exp - iat \<le> 300
      | _ \<Rightarrow> False)"

definition verify_client_assertion :: "client \<Rightarrow> pydict \<Rightarrow> (auth_server, unit) op" where
  "verify_client_assertion c params =
     (case (pget params ''client_assertion'', cl_jwks c) of
        (PStr assertion, Some jwks) \<Rightarrow>
          bindM (require (pget params ''client_assertion_type'' = PStr CLIENT_ASSERTION_TYPE \<and> jwks \<noteq> []) InvalidClient) (\<lambda>_.
            bindM (lift (case read_assertion jwks assertion of
                Inl e \<Rightarrow> Inl (if assertion_error e then OAuth InvalidClient else e)
              | Inr claims \<Rightarrow> Inr claims)) (\<lambda>value.
              (case value of
                 PDict claims \<Rightarrow>
                   bindM (require (pget claims ''iss'' = PStr (cl_id c) \<and> pget claims ''sub'' = PStr (cl_id c)) InvalidClient) (\<lambda>_.
                     bindM (gets as_issuer) (\<lambda>issuer.
                       bindM (require (pget claims ''aud'' = PStr issuer) InvalidClient) (\<lambda>_.
                         bindM (gets as_now) (\<lambda>now.
                           bindM (require (assertion_times_ok now claims) InvalidClient) (\<lambda>_.
                             bindM (gets (\<lambda>s. st_seen_jtis (as_store s))) (\<lambda>seen.
                               (case (pget claims ''jti'', as_int (pget claims ''exp'')) of
                                  (PStr jti, Some exp) \<Rightarrow>
                                    bindM (require (jti \<noteq> [] \<and> dget seen jti = None) InvalidClient) (\<lambda>_.
                                      on_store (\<lambda>st. st\<lparr>st_seen_jtis := dset jti exp (st_seen_jtis st)\<rparr>))
                                | _ \<Rightarrow> fail InvalidClient)))))))
               | _ \<Rightarrow> fail InvalidClient)))
      | _ \<Rightarrow> fail InvalidClient)"

definition check_secret :: "client \<Rightarrow> pyval \<Rightarrow> (auth_server, unit) op" where
  "check_secret c secret =
     (if \<not> truthy_str (cl_secret c) then fail InvalidClient
      else bindM (lift (py (ct_equals_val (if truthy secret then secret else PStr []) (the (cl_secret c))))) (\<lambda>same.
        require same InvalidClient))"

definition authenticate_client ::
  "pydict \<Rightarrow> (string \<times> string) option \<Rightarrow> string option \<Rightarrow> (auth_server, client) op" where
  "authenticate_client params basic_auth tls_thumbprint =
     (let client_id = (case basic_auth of Some (i, _) \<Rightarrow> PStr i | None \<Rightarrow> pget_or params ''client_id'' (PStr []));
          secret = (case basic_auth of Some (_, p) \<Rightarrow> PStr p | None \<Rightarrow> pget_or params ''client_secret'' (PStr [])) in
      bindM (require (truthy client_id) InvalidClient) (\<lambda>_.
        bindM (gets (\<lambda>s. st_clients (as_store s))) (\<lambda>clients.
          bindM (lift (py (dict_get_val clients client_id))) (\<lambda>found.
            case found of
              None \<Rightarrow> fail InvalidClient
            | Some c \<Rightarrow>
                (if cl_auth_method c = ''none'' then bindM (require (\<not> truthy secret) InvalidClient) (\<lambda>_. ret c)
                 else if cl_auth_method c = ''tls_client_auth''
                 then bindM (require (tls_thumbprint \<noteq> None) InvalidClient) (\<lambda>_. ret c)
                 else if cl_auth_method c = ''private_key_jwt''
                 then bindM (verify_client_assertion c params) (\<lambda>_. ret c)
                 else bindM (check_secret c secret) (\<lambda>_. ret c))))))"

section \<open>Minting tokens\<close>

text \<open>The confirmation claim.\<close>

definition cnf_claims :: "string option \<Rightarrow> string option \<Rightarrow> pydict" where
  "cnf_claims jkt_value x5t =
     (if truthy_str jkt_value then [(''jkt'', opt_str jkt_value)] else [])
     @ (if truthy_str x5t then [(''x5t#S256'', opt_str x5t)] else [])"

definition issue_id_token ::
  "client \<Rightarrow> string \<Rightarrow> pyval \<Rightarrow> string list \<Rightarrow> int \<Rightarrow> string option \<Rightarrow> (auth_server, string) op" where
  "issue_id_token c subject nonce amr auth_time access =
     bindM (gets id) (\<lambda>s.
       bindM (lift (py (case access of
           Some t \<Rightarrow> if t \<noteq> [] then map_sum id (\<lambda>raw. [(''at_hash'', PStr (b64u_encode (take 16 (sha256 raw))))]) (ascii_encode t)
                     else Inr []
         | None \<Rightarrow> Inr []))) (\<lambda>at_hash.
         let user_claims = (case dget (st_users (as_store s)) subject of
               None \<Rightarrow> []
             | Some u \<Rightarrow> [(''preferred_username'', PStr (us_username u))]
                 @ (if us_email u \<noteq> [] then [(''email'', PStr (us_email u)), (''email_verified'', PBool (us_email_verified u))] else [])
                 @ (if us_name u \<noteq> [] then [(''name'', PStr (us_name u))] else []));
             claims = [(''auth_time'', PInt (if auth_time \<noteq> 0 then auth_time else as_now s))]
               @ (if truthy nonce then [(''nonce'', nonce)] else [])
               @ (if amr \<noteq> [] then [(''amr'', PList (map PStr amr))] else [])
               @ at_hash @ user_claims in
         on_rng (jwt_issue (as_now s) (as_signing_key s) RS256 (as_issuer s) subject (PStr (cl_id c))
           (as_id_token_lifetime s) None claims (Some (as_signing_kid s)) ''JWT'' None)))"

text \<open>What one call of \<open>_issue_token_set\<close> is given beside the client.\<close>

record grant =
  gr_subject :: "string option"
  gr_scope :: "string list"
  gr_nonce :: pyval
  gr_amr :: "string list"
  gr_auth_time :: int
  gr_audience :: "string list"
  gr_jkt :: "string option"
  gr_x5t :: "string option"
  gr_include_refresh :: bool
  gr_family :: "string option"
  gr_id_token :: bool
  gr_details :: "pyval list"

definition mint_access :: "client \<Rightarrow> grant \<Rightarrow> (auth_server, string) op" where
  "mint_access c gr =
     bindM (gets id) (\<lambda>s.
       let cnf = cnf_claims (gr_jkt gr) (gr_x5t gr);
           extra = [(''scope'', PStr (join '' '' (gr_scope gr))), (''client_id'', PStr (cl_id c))]
             @ (if cnf \<noteq> [] then [(''cnf'', PDict cnf)] else [])
             @ (if gr_details gr \<noteq> [] then [(''authorization_details'', PList (gr_details gr))] else []) in
       bindM (if as_jwt_access_tokens s
           then on_rng (jwt_issue (as_now s) (as_signing_key s) RS256 (as_issuer s)
             (case gr_subject gr of Some sub \<Rightarrow> if sub \<noteq> [] then sub else ''client:'' @ cl_id c | None \<Rightarrow> ''client:'' @ cl_id c)
             (PList (map PStr (if gr_audience gr \<noteq> [] then gr_audience gr else [as_issuer s])))
             (as_access_token_lifetime s) None extra (Some (as_signing_kid s)) ''at+jwt'' None)
           else on_rng (draw_token 32)) (\<lambda>access_value.
         bindM (on_rng (draw_token 16)) (\<lambda>jti.
           let entry = \<lparr>at_token = access_value, at_client_id = cl_id c, at_subject = gr_subject gr, at_scope = gr_scope gr,
                 at_expires_at = as_now s + as_access_token_lifetime s, at_issued_at = as_now s,
                 at_type = (if truthy_str (gr_jkt gr) then ''DPoP'' else ''Bearer''), at_audience = gr_audience gr,
                 at_revoked = False, at_jkt = gr_jkt gr, at_x5t = gr_x5t gr, at_jti = jti, at_details = gr_details gr\<rparr> in
           bindM (on_store (\<lambda>st. st\<lparr>st_access_tokens := dset access_value entry (st_access_tokens st)\<rparr>)) (\<lambda>_.
             ret access_value))))"

definition mint_refresh :: "client \<Rightarrow> grant \<Rightarrow> string \<Rightarrow> (auth_server, string) op" where
  "mint_refresh c gr subject =
     bindM (gets id) (\<lambda>s.
       bindM (on_rng (draw_token 32)) (\<lambda>value.
         bindM (on_rng (token_or (gr_family gr) 16)) (\<lambda>family.
           let entry = \<lparr>rt_token = value, rt_client_id = cl_id c, rt_subject = subject, rt_scope = gr_scope gr,
                 rt_expires_at = as_now s + as_refresh_token_lifetime s, rt_family = family, rt_used = False,
                 rt_revoked = False, rt_rotated_to = None, rt_jkt = gr_jkt gr, rt_x5t = gr_x5t gr, rt_details = gr_details gr\<rparr> in
           bindM (on_store (\<lambda>st. st\<lparr>st_refresh_tokens := dset value entry (st_refresh_tokens st)\<rparr>)) (\<lambda>_. ret value))))"

definition issue_token_set :: "client \<Rightarrow> grant \<Rightarrow> (auth_server, pydict) op" where
  "issue_token_set c gr =
     bindM (mint_access c gr) (\<lambda>access_value.
       bindM (gets as_access_token_lifetime) (\<lambda>lifetime.
         let response = [(''access_token'', PStr access_value),
               (''token_type'', PStr (if truthy_str (gr_jkt gr) then ''DPoP'' else ''Bearer'')),
               (''expires_in'', PInt lifetime), (''scope'', PStr (join '' '' (gr_scope gr)))]
             @ (if gr_details gr \<noteq> [] then [(''authorization_details'', PList (gr_details gr))] else []) in
         bindM (case gr_subject gr of
             Some subject \<Rightarrow>
               if gr_include_refresh gr
               then bindM (mint_refresh c gr subject) (\<lambda>value. ret [(''refresh_token'', PStr value)])
               else ret []
           | None \<Rightarrow> ret []) (\<lambda>refresh.
           bindM (case gr_subject gr of
               Some subject \<Rightarrow>
                 if gr_id_token gr \<and> ''openid'' \<in> set (gr_scope gr)
                 then bindM (issue_id_token c subject (gr_nonce gr) (gr_amr gr) (gr_auth_time gr) (Some access_value))
                        (\<lambda>t. ret [(''id_token'', PStr t)])
                 else ret []
             | None \<Rightarrow> ret []) (\<lambda>id_token.
             ret (response @ refresh @ id_token)))))"

section \<open>The grants\<close>

text \<open>Changing an object of the store in place.\<close>

definition on_code :: "string \<Rightarrow> (auth_code \<Rightarrow> auth_code) \<Rightarrow> (auth_server, unit) op" where
  "on_code k f = on_store (\<lambda>st. st\<lparr>st_codes := dupd k f (st_codes st)\<rparr>)"

definition on_access :: "string \<Rightarrow> (access_token \<Rightarrow> access_token) \<Rightarrow> (auth_server, unit) op" where
  "on_access k f = on_store (\<lambda>st. st\<lparr>st_access_tokens := dupd k f (st_access_tokens st)\<rparr>)"

definition on_refresh :: "string \<Rightarrow> (refresh_token \<Rightarrow> refresh_token) \<Rightarrow> (auth_server, unit) op" where
  "on_refresh k f = on_store (\<lambda>st. st\<lparr>st_refresh_tokens := dupd k f (st_refresh_tokens st)\<rparr>)"

definition on_device :: "string \<Rightarrow> (device_code \<Rightarrow> device_code) \<Rightarrow> (auth_server, unit) op" where
  "on_device k f = on_store (\<lambda>st. st\<lparr>st_device_codes := dupd k f (st_device_codes st)\<rparr>)"

text \<open>A parameter that must be there, looked up in one of the dictionaries of the store.\<close>

definition lookup_param :: "pydict \<Rightarrow> string \<Rightarrow> (store \<Rightarrow> (string, 'v) dict) \<Rightarrow> (auth_server, string \<times> 'v) op" where
  "lookup_param params name table =
     bindM (require (truthy (pget params name)) InvalidRequest) (\<lambda>_.
       bindM (gets (\<lambda>s. table (as_store s))) (\<lambda>d.
         bindM (lift (py (dict_get_val d (pget params name)))) (\<lambda>found.
           case (pget params name, found) of
             (PStr k, Some v) \<Rightarrow> ret (k, v)
           | _ \<Rightarrow> fail InvalidGrant)))"

definition revoke_code_tokens :: "auth_code \<Rightarrow> (auth_server, unit) op" where
  "revoke_code_tokens code =
     bindM (log_event ''code_replay'' (''code replayed for '' @ ac_subject code)) (\<lambda>_.
       bindM (counting (revoke_access_for_family_subject (ac_client_id code) (ac_subject code))) (\<lambda>_.
         on_store (\<lambda>st. st\<lparr>st_refresh_tokens :=
           dmap (\<lambda>t. if rt_client_id t = ac_client_id code \<and> rt_subject t = ac_subject code then t\<lparr>rt_revoked := True\<rparr> else t)
             (st_refresh_tokens st)\<rparr>)))"

definition check_code_redirect :: "auth_code \<Rightarrow> pyval \<Rightarrow> exn + unit" where
  "check_code_redirect code uri =
     (if uri = PNone then Inl (OAuth InvalidGrant)
      else bind_res (py (ct_equals_val uri (ac_redirect_uri code))) (\<lambda>same.
        if same then Inr () else Inl (OAuth InvalidGrant)))"

definition check_code_pkce :: "auth_code \<Rightarrow> client \<Rightarrow> pydict \<Rightarrow> exn + unit" where
  "check_code_pkce code c params =
     (if truthy (ac_challenge code)
      then pkce_verify (pget_or params ''code_verifier'' (PStr [])) (ac_challenge code) (ac_method code) False
      else if is_public c then Inl (OAuth InvalidGrant) else Inr ())"

definition grant_authorization_code ::
  "client \<Rightarrow> pydict \<Rightarrow> string option \<Rightarrow> string option \<Rightarrow> (auth_server, pydict) op" where
  "grant_authorization_code c params cnf_jkt cnf_x5t =
     bindM (lookup_param params ''code'' st_codes) (\<lambda>(key, code).
       if ac_used code then bindM (revoke_code_tokens code) (\<lambda>_. fail InvalidGrant)
       else bindM (require (ac_client_id code = cl_id c) InvalidGrant) (\<lambda>_.
         bindM (gets as_now) (\<lambda>now.
           bindM (require (\<not> now > ac_expires_at code) InvalidGrant) (\<lambda>_.
             bindM (lift (check_code_redirect code (pget params ''redirect_uri''))) (\<lambda>_.
               bindM (lift (check_code_pkce code c params)) (\<lambda>_.
                 bindM (require (\<not> (truthy (ac_dpop_jkt code) \<and> ac_dpop_jkt code \<noteq> opt_str cnf_jkt)) InvalidDPoPProof) (\<lambda>_.
                   bindM (on_code key (\<lambda>c. c\<lparr>ac_used := True\<rparr>)) (\<lambda>_.
                     bindM (log_event ''code_redeemed'' (ac_subject code @ '' / '' @ cl_id c)) (\<lambda>_.
                       bindM (gets as_known_resources) (\<lambda>resources.
                         issue_token_set c
                           \<lparr>gr_subject = Some (ac_subject code), gr_scope = ac_scope code, gr_nonce = ac_nonce code,
                            gr_amr = ac_amr code, gr_auth_time = ac_auth_time code,
                            gr_audience = (if ac_resource code \<noteq> [] then ac_resource code else take 1 resources),
                            gr_jkt = cnf_jkt, gr_x5t = cnf_x5t, gr_include_refresh = True, gr_family = None,
                            gr_id_token = True, gr_details = ac_details code\<rparr>))))))))))"

definition refresh_grant :: "refresh_token \<Rightarrow> string list \<Rightarrow> string option \<Rightarrow> string option \<Rightarrow> string list \<Rightarrow> bool \<Rightarrow> grant" where
  "refresh_grant t scope cnf_jkt cnf_x5t resources rot =
     \<lparr>gr_subject = Some (rt_subject t), gr_scope = scope, gr_nonce = PNone, gr_amr = [], gr_auth_time = 0,
      gr_audience = take 1 resources, gr_jkt = str_or (rt_jkt t) cnf_jkt, gr_x5t = str_or (rt_x5t t) cnf_x5t,
      gr_include_refresh = rot, gr_family = (if rot then Some (rt_family t) else None), gr_id_token = False,
      gr_details = rt_details t\<rparr>"

definition revoke_family_of :: "refresh_token \<Rightarrow> (auth_server, unit) op" where
  "revoke_family_of t =
     bindM (counting (revoke_refresh_family (rt_family t))) (\<lambda>count.
       bindM (counting (revoke_access_for_family_subject (rt_client_id t) (rt_subject t))) (\<lambda>_.
         log_event ''refresh_reuse''
           (''reuse of family '' @ take 8 (rt_family t) @ '': '' @ nat_digits count @ '' token(s) revoked'')))"

text \<open>
  The rotating branch.  Its last step sets \<open>rotated_to\<close> on the object that was presented, which
  is still in the store unless the new value happened to be the old one.
\<close>

definition rotate_refresh :: "client \<Rightarrow> string \<Rightarrow> grant \<Rightarrow> (auth_server, pydict) op" where
  "rotate_refresh c key gr =
     bindM (on_refresh key (\<lambda>t. t\<lparr>rt_used := True\<rparr>)) (\<lambda>_.
       bindM (issue_token_set c gr) (\<lambda>result.
         bindM (lift (py (dict_item result ''refresh_token''))) (\<lambda>fresh.
           bindM (if fresh = PStr key then ret () else on_refresh key (\<lambda>t. t\<lparr>rt_rotated_to := as_str fresh\<rparr>)) (\<lambda>_.
             ret result))))"

definition grant_refresh_token ::
  "client \<Rightarrow> pydict \<Rightarrow> string option \<Rightarrow> string option \<Rightarrow> (auth_server, pydict) op" where
  "grant_refresh_token c params cnf_jkt cnf_x5t =
     bindM (lookup_param params ''refresh_token'' st_refresh_tokens) (\<lambda>(key, t).
       if rt_used t \<or> rt_revoked t then bindM (revoke_family_of t) (\<lambda>_. fail InvalidGrant)
       else bindM (require (rt_client_id t = cl_id c) InvalidGrant) (\<lambda>_.
         bindM (gets as_now) (\<lambda>now.
           bindM (require (\<not> now > rt_expires_at t) InvalidGrant) (\<lambda>_.
             bindM (require (\<not> (truthy_str (rt_jkt t) \<and> rt_jkt t \<noteq> cnf_jkt)) InvalidDPoPProof) (\<lambda>_.
               bindM (require (\<not> (truthy_str (rt_x5t t) \<and> rt_x5t t \<noteq> cnf_x5t)) InvalidGrant) (\<lambda>_.
                 bindM (lift (py (words_of (pget params ''scope'')))) (\<lambda>requested.
                   bindM (require (set requested \<subseteq> set (rt_scope t)) InvalidScope) (\<lambda>_.
                     let scope = (if requested \<noteq> [] then requested else rt_scope t) in
                     bindM (gets as_known_resources) (\<lambda>resources.
                       if \<not> cl_rotate c
                       then issue_token_set c (refresh_grant t scope cnf_jkt cnf_x5t resources False)
                       else rotate_refresh c key (refresh_grant t scope cnf_jkt cnf_x5t resources True))))))))))"

definition grant_client_credentials ::
  "client \<Rightarrow> pydict \<Rightarrow> string option \<Rightarrow> string option \<Rightarrow> (auth_server, pydict) op" where
  "grant_client_credentials c params cnf_jkt cnf_x5t =
     bindM (require (\<not> is_public c) UnauthorizedClient) (\<lambda>_.
       bindM (lift (py (if truthy (pget params ''scope'') then map_sum id split_ws (str_of (pget params ''scope''))
           else Inr (split_ws (join '' '' (cl_scopes c)))))) (\<lambda>scope.
         bindM (require (cl_scopes c = [] \<or> set scope \<subseteq> set (cl_scopes c)) InvalidScope) (\<lambda>_.
           bindM (gets as_known_resources) (\<lambda>resources.
             issue_token_set c
               \<lparr>gr_subject = None, gr_scope = scope, gr_nonce = PNone, gr_amr = [], gr_auth_time = 0,
                gr_audience = take 1 resources, gr_jkt = cnf_jkt, gr_x5t = cnf_x5t, gr_include_refresh = False,
                gr_family = None, gr_id_token = False, gr_details = []\<rparr>))))"

definition grant_device_code ::
  "client \<Rightarrow> pydict \<Rightarrow> string option \<Rightarrow> string option \<Rightarrow> (auth_server, pydict) op" where
  "grant_device_code c params cnf_jkt cnf_x5t =
     bindM (lookup_param params ''device_code'' st_device_codes) (\<lambda>(key, device).
       bindM (require (dc_client_id device = cl_id c) InvalidGrant) (\<lambda>_.
         bindM (gets as_now) (\<lambda>now.
           bindM (require (\<not> now > dc_expires_at device) ExpiredTokenError) (\<lambda>_.
             bindM (require (\<not> dc_denied device) AccessDenied) (\<lambda>_.
               if \<not> dc_approved device then
                 bindM (on_device key (\<lambda>d. d\<lparr>dc_last_polled_at := now\<rparr>)) (\<lambda>_.
                   if dc_last_polled_at device \<noteq> 0 \<and> now - dc_last_polled_at device < dc_interval device
                   then fail SlowDown else fail AuthorizationPending)
               else
                 bindM (on_store (\<lambda>st. st\<lparr>st_device_codes := ddel key (st_device_codes st)\<rparr>)) (\<lambda>_.
                   bindM (gets as_known_resources) (\<lambda>resources.
                     issue_token_set c
                       \<lparr>gr_subject = dc_subject device, gr_scope = dc_scope device, gr_nonce = PNone, gr_amr = dc_amr device,
                        gr_auth_time = now, gr_audience = take 1 resources, gr_jkt = cnf_jkt, gr_x5t = cnf_x5t,
                        gr_include_refresh = True, gr_family = None, gr_id_token = True, gr_details = []\<rparr>)))))))"

section \<open>The token endpoint\<close>

definition token_dpop :: "client \<Rightarrow> string option \<Rightarrow> string option \<Rightarrow> (auth_server, string option) op" where
  "token_dpop c proof_jwt token_endpoint_url =
     (case proof_jwt of
        Some proof \<Rightarrow>
          bindM (gets id) (\<lambda>s.
            bindM (on_dpop (dpop_verify (as_now s) proof ''POST''
                (case token_endpoint_url of Some u \<Rightarrow> if u \<noteq> [] then u else as_issuer s @ ''/token'' | None \<Rightarrow> as_issuer s @ ''/token'')
                None None)) (\<lambda>thumb. ret (Some thumb)))
      | None \<Rightarrow> bindM (require (\<not> cl_require_dpop c) InvalidDPoPProof) (\<lambda>_. ret None))"

definition token_endpoint ::
  "pydict \<Rightarrow> (string \<times> string) option \<Rightarrow> string option \<Rightarrow> string option \<Rightarrow> string option \<Rightarrow> (auth_server, pydict) op" where
  "token_endpoint params basic_auth proof_jwt token_endpoint_url tls_thumbprint =
     (let grant_type = pget params ''grant_type'' in
      bindM (require (truthy grant_type) InvalidRequest) (\<lambda>_.
        bindM (authenticate_client params basic_auth tls_thumbprint) (\<lambda>c.
          bindM (require (grant_type \<in> set (map PStr (cl_grant_types c))) UnauthorizedClient) (\<lambda>_.
            bindM (token_dpop c proof_jwt token_endpoint_url) (\<lambda>cnf_jkt.
              let cnf_x5t = (if cl_tls_bound c then tls_thumbprint else None) in
              if grant_type = PStr ''authorization_code'' then grant_authorization_code c params cnf_jkt cnf_x5t
              else if grant_type = PStr ''refresh_token'' then grant_refresh_token c params cnf_jkt cnf_x5t
              else if grant_type = PStr ''client_credentials'' then grant_client_credentials c params cnf_jkt cnf_x5t
              else if grant_type = PStr DEVICE_GRANT then grant_device_code c params cnf_jkt cnf_x5t
              else fail UnsupportedGrantType)))))"

section \<open>Device authorization\<close>

text \<open>\<open>secrets.choice\<close> draws until the number is below the length.\<close>

definition secrets_choice :: "string \<Rightarrow> (rng, char) op" where
  "secrets_choice alphabet g =
     (case randbelow (length alphabet) g of
        None \<Rightarrow> (Inl (Py Diverges), g)
      | Some (i, g') \<Rightarrow> (Inr (alphabet ! i), g'))"

fun choices :: "nat \<Rightarrow> string \<Rightarrow> (rng, string) op" where
  "choices 0 alphabet = ret []"
| "choices (Suc n) alphabet =
     bindM (secrets_choice alphabet) (\<lambda>c. bindM (choices n alphabet) (\<lambda>cs. ret (c # cs)))"

definition device_authorization :: "pydict \<Rightarrow> (auth_server, pydict) op" where
  "device_authorization params =
     bindM (gets id) (\<lambda>s.
       bindM (lift (py (dict_get_val (st_clients (as_store s))
           (if truthy (pget params ''client_id'') then pget params ''client_id'' else PStr [])))) (\<lambda>found.
         case found of
           None \<Rightarrow> fail InvalidClient
         | Some c \<Rightarrow>
             bindM (lift (py (words_of (pget params ''scope'')))) (\<lambda>scope.
               bindM (on_rng (choices 8 USER_CODE_ALPHABET)) (\<lambda>letters.
                 bindM (on_rng (draw_token 32)) (\<lambda>code.
                   let user_code = take 4 letters @ ''-'' @ drop 4 letters;
                       entry = \<lparr>dc_device_code = code, dc_user_code = user_code, dc_client_id = cl_id c, dc_scope = scope,
                         dc_expires_at = as_now s + as_device_code_lifetime s, dc_interval = 5, dc_approved = False,
                         dc_denied = False, dc_subject = None, dc_last_polled_at = 0, dc_amr = []\<rparr> in
                   bindM (on_store (\<lambda>st. st\<lparr>st_device_codes := dset code entry (st_device_codes st)\<rparr>)) (\<lambda>_.
                     ret [(''device_code'', PStr code), (''user_code'', PStr user_code),
                          (''verification_uri'', PStr (as_issuer s @ ''/device'')),
                          (''verification_uri_complete'', PStr (as_issuer s @ ''/device?user_code='' @ user_code)),
                          (''expires_in'', PInt (as_device_code_lifetime s)), (''interval'', PInt 5)]))))))"

text \<open>The first pending device with the code that the user typed.\<close>

definition find_device :: "string \<Rightarrow> store \<Rightarrow> (string \<times> device_code) option" where
  "find_device user_code st =
     find (\<lambda>(k, d). constant_time_equals (dc_user_code d) (upper (strip user_code))) (st_device_codes st)"

definition approve_device :: "string \<Rightarrow> string \<Rightarrow> string list option \<Rightarrow> (auth_server, bool) op" where
  "approve_device user_code subject amr =
     bindM (gets id) (\<lambda>s.
       case find_device user_code (as_store s) of
         None \<Rightarrow> ret False
       | Some (k, d) \<Rightarrow>
           bindM (require (\<not> as_now s > dc_expires_at d) ExpiredTokenError) (\<lambda>_.
             bindM (on_device k (\<lambda>d. d\<lparr>dc_approved := True, dc_subject := Some subject, dc_amr := amr_or amr\<rparr>)) (\<lambda>_.
               ret True)))"

definition deny_device :: "string \<Rightarrow> (auth_server, bool) op" where
  "deny_device user_code =
     bindM (gets id) (\<lambda>s.
       case find_device user_code (as_store s) of
         None \<Rightarrow> ret False
       | Some (k, d) \<Rightarrow> bindM (on_device k (\<lambda>d. d\<lparr>dc_denied := True\<rparr>)) (\<lambda>_. ret True))"

section \<open>Introspection, revocation, metadata\<close>

definition introspect :: "auth_server \<Rightarrow> string \<Rightarrow> pydict" where
  "introspect s token_value =
     (case dget (st_access_tokens (as_store s)) token_value of
        None \<Rightarrow> [(''active'', PBool False)]
      | Some t \<Rightarrow>
          (if at_revoked t \<or> as_now s > at_expires_at t then [(''active'', PBool False)]
           else [(''active'', PBool True), (''scope'', PStr (join '' '' (at_scope t))), (''client_id'', PStr (at_client_id t)),
                 (''token_type'', PStr (at_type t)), (''exp'', PInt (at_expires_at t)), (''iat'', PInt (at_issued_at t)),
                 (''iss'', PStr (as_issuer s)), (''aud'', PList (map PStr (at_audience t))), (''jti'', PStr (at_jti t))]
             @ (if truthy_str (at_subject t)
                then (''sub'', opt_str (at_subject t)) #
                  (case dget (st_users (as_store s)) (the (at_subject t)) of
                     None \<Rightarrow> [] | Some u \<Rightarrow> [(''username'', PStr (us_username u))])
                else [])
             @ (if at_details t \<noteq> [] then [(''authorization_details'', PList (at_details t))] else [])
             @ (let cnf = cnf_claims (at_jkt t) (at_x5t t) in if cnf \<noteq> [] then [(''cnf'', PDict cnf)] else [])))"

text \<open>The second half of \<open>revoke\<close>: the token is not an access token of this client.\<close>

definition revoke_refresh :: "string \<Rightarrow> client \<Rightarrow> (auth_server, unit) op" where
  "revoke_refresh token_value c =
     bindM (gets as_store) (\<lambda>st.
       case dget (st_refresh_tokens st) token_value of
         Some t \<Rightarrow>
           (if rt_client_id t = cl_id c
            then bindM (counting (revoke_refresh_family (rt_family t))) (\<lambda>count.
              log_event ''revoked'' (''refresh family '' @ take 8 (rt_family t) @ '' ('' @ nat_digits count @ '' tokens)''))
            else ret ())
       | None \<Rightarrow> ret ())"

definition revoke :: "string \<Rightarrow> client \<Rightarrow> (auth_server, unit) op" where
  "revoke token_value c =
     bindM (gets as_store) (\<lambda>st.
       case dget (st_access_tokens st) token_value of
         Some t \<Rightarrow>
           (if at_client_id t = cl_id c
            then bindM (on_access token_value (\<lambda>t. t\<lparr>at_revoked := True\<rparr>)) (\<lambda>_.
              log_event ''revoked'' (''access token for '' @ (case at_subject t of Some sub \<Rightarrow> sub | None \<Rightarrow> ''None'')))
            else revoke_refresh token_value c)
       | None \<Rightarrow> revoke_refresh token_value c)"

definition metadata :: "auth_server \<Rightarrow> pydict" where
  "metadata s =
     (let url = (\<lambda>path. PStr (as_issuer s @ path)); strs = (\<lambda>l. PList (map PStr l)) in
      [(''issuer'', PStr (as_issuer s)), (''authorization_endpoint'', url ''/authorize''), (''token_endpoint'', url ''/token''),
       (''userinfo_endpoint'', url ''/userinfo''), (''jwks_uri'', url ''/.well-known/jwks.json''),
       (''introspection_endpoint'', url ''/introspect''), (''revocation_endpoint'', url ''/revoke''),
       (''device_authorization_endpoint'', url ''/device_authorization''), (''end_session_endpoint'', url ''/logout''),
       (''scopes_supported'', strs (as_supported_scopes s)), (''response_types_supported'', strs [''code'']),
       (''response_modes_supported'', strs [''query'']),
       (''grant_types_supported'', strs [''authorization_code'', ''refresh_token'', ''client_credentials'', DEVICE_GRANT]),
       (''subject_types_supported'', strs [''public'']), (''id_token_signing_alg_values_supported'', strs [''RS256'']),
       (''token_endpoint_auth_methods_supported'',
        strs [''client_secret_basic'', ''client_secret_post'', ''private_key_jwt'', ''none'', ''tls_client_auth'']),
       (''code_challenge_methods_supported'', strs [''S256'']), (''dpop_signing_alg_values_supported'', strs [''ES256'']),
       (''claims_supported'', strs [''sub'', ''iss'', ''aud'', ''exp'', ''iat'', ''auth_time'', ''nonce'', ''amr'',
          ''email'', ''email_verified'', ''name'', ''preferred_username'']),
       (''tls_client_certificate_bound_access_tokens'', PBool True)])"

definition jwks_document :: "auth_server \<Rightarrow> py_error + pydict" where
  "jwks_document s = public_set (as_jwks s)"

end
