(* ===== verification/AuthInv.thy ===== *)
theory AuthInv
  imports AuthServer
begin

text \<open>
  Invariants of the authorization server.  A triple says what an operation makes of a property
  of the store, whether it returns or raises, on a server whose random source never again
  produces one of the values in a set.  \<open>stable_property\<close> states which single updates of the
  store a property has to survive; every operation of the server then preserves it, and so
  does every sequence of operations.
\<close>

named_theorems triples \<open>triples of the basic operations\<close>

section \<open>Triples\<close>

definition never_again :: "string set \<Rightarrow> rng \<Rightarrow> bool" where
  "never_again A g \<longleftrightarrow> (\<forall>i n. drawn g \<le> i \<longrightarrow> b64u_encode (map (tape g i) [0..<n]) \<notin> A)"

definition holds :: "string set \<Rightarrow> (store \<Rightarrow> bool) \<Rightarrow> auth_server \<Rightarrow> bool" where
  "holds A Q s \<longleftrightarrow> never_again A (as_rng s) \<and> Q (as_store s)"

definition triple ::
  "string set \<Rightarrow> (store \<Rightarrow> bool) \<Rightarrow> (auth_server, 'a) op \<Rightarrow> ('a \<Rightarrow> store \<Rightarrow> bool) \<Rightarrow> (store \<Rightarrow> bool) \<Rightarrow> bool" where
  "triple A Q m R E \<longleftrightarrow>
     (\<forall>s. holds A Q s \<longrightarrow> (case m s of (Inr x, s') \<Rightarrow> holds A (R x) s' | (Inl _, s') \<Rightarrow> holds A E s'))"

lemma tripleD:
  "triple A Q m R E \<Longrightarrow> m s = (r, s') \<Longrightarrow> holds A Q s \<Longrightarrow> (case r of Inr x \<Rightarrow> holds A (R x) s' | Inl _ \<Rightarrow> holds A E s')"
  by (force simp: triple_def)

lemma triple_bind:
  "triple A Q m R E \<Longrightarrow> (\<And>x. triple A (R x) (f x) R' E) \<Longrightarrow> triple A Q (bindM m f) R' E"
  by (fastforce simp: triple_def bindM_def split: prod.splits sum.splits)

lemma triple_basic [triples]:
  "(\<And>st. Q st \<Longrightarrow> R x st) \<Longrightarrow> triple A Q (ret x) R E"
  "(\<And>st. Q st \<Longrightarrow> E st) \<Longrightarrow> triple A Q (raise e) R E"
  "(\<And>st. Q st \<Longrightarrow> E st) \<Longrightarrow> triple A Q (fail oe) R E"
  "(\<And>st. Q st \<Longrightarrow> E st) \<Longrightarrow> triple A Q (lift r) (\<lambda>_. Q) E"
  "(\<And>st. Q st \<Longrightarrow> E st) \<Longrightarrow> triple A Q (require b oe) (\<lambda>_ st. Q st \<and> b) E"
  "triple A Q (gets g) (\<lambda>_. Q) E"
  by (auto simp: triple_def holds_def fail_def require_def split: sum.splits)

lemma triple_on_store [triples]:
  "triple A Q (on_store f) (\<lambda>_ st'. \<exists>st. st' = f st \<and> Q st) E"
  by (auto simp: triple_def holds_def on_store_def)

lemma triple_counting [triples]:
  "triple A Q (counting f) (\<lambda>_ st'. \<exists>st. st' = snd (f st) \<and> Q st) E"
  by (force simp: triple_def holds_def counting_def split: prod.splits)

lemma triple_conseq:
  "triple A Q m R E \<Longrightarrow> (\<And>st. Q' st \<Longrightarrow> Q st) \<Longrightarrow> (\<And>x st. R x st \<Longrightarrow> R' x st) \<Longrightarrow> (\<And>st. E st \<Longrightarrow> E' st) \<Longrightarrow>
   triple A Q' m R' E'"
  by (fastforce simp: triple_def holds_def split: prod.splits sum.splits)

lemma triple_pre: "triple A Q m R E \<Longrightarrow> (\<And>st. Q' st \<Longrightarrow> Q st) \<Longrightarrow> triple A Q' m R E"
  by (erule triple_conseq) auto

lemma triple_if:
  "(b \<Longrightarrow> triple A Q m R E) \<Longrightarrow> (\<not> b \<Longrightarrow> triple A Q n R E) \<Longrightarrow> triple A Q (if b then m else n) R E"
  by simp

lemma triple_fact: "(b \<Longrightarrow> triple A Q m R E) \<Longrightarrow> triple A (\<lambda>st. Q st \<and> b) m R E"
  by (auto simp: triple_def holds_def)

text \<open>The state of the other parts.\<close>

definition rng_op :: "(rng, 'a) op \<Rightarrow> bool" where
  "rng_op m \<longleftrightarrow> (\<forall>g r g'. m g = (r, g') \<longrightarrow> tape g' = tape g \<and> drawn g \<le> drawn g')"

lemma rng_op_basic [intro]: "rng_op (ret x)" "rng_op (lift r)" "rng_op (raise e)"
  by (auto simp: rng_op_def)

lemma rng_op_bind [intro]:
  assumes "rng_op m" "\<And>x. rng_op (f x)"
  shows "rng_op (bindM m f)"
  unfolding rng_op_def
proof (intro allI impI)
  fix g r g'
  assume run: "bindM m f g = (r, g')"
  obtain q h where m: "m g = (q, h)" by fastforce
  then have h: "tape h = tape g \<and> drawn g \<le> drawn h" using assms(1) unfolding rng_op_def by blast
  show "tape g' = tape g \<and> drawn g \<le> drawn g'"
  proof (cases q)
    case (Inl e)
    with run m h show ?thesis by (simp add: bindM_def)
  next
    case (Inr x)
    with run m have "f x h = (r, g')" by (simp add: bindM_def)
    with assms(2) [of x] h show ?thesis unfolding rng_op_def by force
  qed
qed

lemma rng_op_draw [intro]: "rng_op (draw_token n)"
  by (auto simp: rng_op_def draw_token_def random_token_def random_bytes_def split: prod.splits)

lemma rng_op_token_or [intro]: "rng_op (token_or v n)"
  by (auto simp: token_or_def split: option.split)

lemma rng_op_jwt_issue [intro]: "rng_op (jwt_issue now key a iss sub aud life nbf extra kid t jti)"
  unfolding jwt_issue_def by auto

lemma randbits_rng: "randbits k g = (r, g') \<Longrightarrow> tape g' = tape g \<and> drawn g \<le> drawn g'"
  by (auto simp: randbits_def random_bytes_def split: prod.splits)

lemma randbelow_rng_aux: "randbelow n g = Some v \<Longrightarrow> tape (snd v) = tape g \<and> drawn g \<le> drawn (snd v) \<and> fst v < n"
proof (induction rule: randbelow.raw_induct [rotated, consumes 1, case_names step])
  case (step loop n g v)
  obtain x h where x: "randbits (bit_length n) g = (x, h)" by fastforce
  note g = randbits_rng [OF x]
  show ?case
  proof (cases "x < n")
    case True
    with step(2) x g show ?thesis by auto
  next
    case False
    with step(2) x have "loop n h = Some v" by simp
    with step(1) g show ?thesis by fastforce
  qed
qed

lemma randbelow_rng: "randbelow n g = Some (r, g') \<Longrightarrow> tape g' = tape g \<and> drawn g \<le> drawn g' \<and> r < n"
  using randbelow_rng_aux [of n g "(r, g')"] by simp

lemma rng_op_choices [intro]: "rng_op (choices n alphabet)"
proof (induction n)
  case (Suc n)
  moreover have "rng_op (secrets_choice alphabet)"
    by (auto simp: rng_op_def secrets_choice_def dest: randbelow_rng split: option.splits prod.splits)
  ultimately show ?case by auto
qed (simp add: rng_op_def)

lemma triple_on_rng:
  assumes "rng_op m" "\<And>st. Q st \<Longrightarrow> E st"
  shows "triple A Q (on_rng m) (\<lambda>_. Q) E"
  unfolding triple_def
proof (intro allI impI)
  fix s
  assume h: "holds A Q s"
  obtain r g where m: "m (as_rng s) = (r, g)" by fastforce
  with assms(1) have "tape g = tape (as_rng s)" "drawn (as_rng s) \<le> drawn g" unfolding rng_op_def by blast+
  with h have "never_again A g" by (auto simp: holds_def never_again_def)
  with h assms(2) m show "case on_rng m s of (Inl _, s') \<Rightarrow> holds A E s' | (Inr x, s') \<Rightarrow> holds A Q s'"
    by (auto simp: on_rng_def zoom_def holds_def split: sum.split)
qed

lemma triple_draw: "triple A Q (on_rng (draw_token n)) (\<lambda>x st. Q st \<and> x \<notin> A) E"
  by (auto simp: triple_def on_rng_def zoom_def draw_token_def random_token_def random_bytes_def holds_def never_again_def)

lemma triple_token_or:
  "triple A Q (on_rng (token_or v n)) (\<lambda>x st. Q st \<and> (x \<notin> A \<or> v = Some x)) E"
proof -
  have ret: "triple A Q (on_rng (ret x)) (\<lambda>y st. Q st \<and> (y \<notin> A \<or> Some x = Some y)) E" for x
    by (auto simp: triple_def on_rng_def zoom_def holds_def)
  have draw: "triple A Q (on_rng (draw_token n)) (\<lambda>x st. Q st \<and> (x \<notin> A \<or> v = Some x)) E"
    by (rule triple_conseq [OF triple_draw [where Q = Q and E = E]]) auto
  show ?thesis
  proof (cases v)
    case None
    with draw show ?thesis by (simp add: token_or_def)
  next
    case (Some x)
    with draw ret [of x] show ?thesis by (cases "x = []") (simp_all add: token_or_def)
  qed
qed

lemma triple_on_dpop [triples]: "(\<And>st. Q st \<Longrightarrow> E st) \<Longrightarrow> triple A Q (on_dpop m) (\<lambda>_. Q) E"
  by (auto simp: triple_def holds_def on_dpop_def zoom_def split: prod.splits sum.splits)

lemma triple_lookup [triples]:
  assumes "\<And>st. Q st \<Longrightarrow> E st"
  shows "triple A Q (lookup_param params name table) (\<lambda>kv st. Q st \<and> dget (table st) (fst kv) = Some (snd kv)) E"
  using assms
  by (auto simp: triple_def lookup_param_def require_def fail_def bindM_def dict_get_val_def holds_def
      split: sum.splits pyval.splits option.splits)

text \<open>A read of the whole server or of its store is the current one.\<close>

lemma triple_read_bind:
  assumes "\<And>x. triple A (\<lambda>st. Q st \<and> g x = st) (f x) R E" "\<And>s. g (h s) = as_store s"
  shows "triple A Q (bindM (gets h) f) R E"
  using assms by (force simp: triple_def holds_def bindM_def split: prod.splits sum.splits)

section \<open>Properties of the store that every operation preserves\<close>

text \<open>A refresh token that is minted, and the token whose family it continues.\<close>

definition fresh_refresh :: "string set \<Rightarrow> store \<Rightarrow> refresh_token \<Rightarrow> bool" where
  "fresh_refresh A st e \<longleftrightarrow>
     rt_token e \<notin> A \<and> \<not> rt_used e \<and> \<not> rt_revoked e
     \<and> (rt_family e \<notin> A \<or> (\<exists>k t. dget (st_refresh_tokens st) k = Some t \<and> rt_family t = rt_family e \<and> \<not> rt_revoked t))"

text \<open>The family of a refresh token to be minted is the one of a token that is not revoked.\<close>

definition parent_alive :: "grant \<Rightarrow> store \<Rightarrow> bool" where
  "parent_alive gr st \<longleftrightarrow>
     (\<forall>f. gr_family gr = Some f \<longrightarrow> (\<exists>k t. dget (st_refresh_tokens st) k = Some t \<and> rt_family t = f \<and> \<not> rt_revoked t))"

text \<open>Everything that can happen to a server: a call of one of its operations, or time passing.\<close>

inductive server_step :: "auth_server \<Rightarrow> auth_server \<Rightarrow> bool" where
  clock: "as_now s \<le> t \<Longrightarrow> server_step s (s\<lparr>as_now := t\<rparr>)"
| add_client: "register_client c s = (r, s') \<Longrightarrow> server_step s s'"
| add_user: "register_user u s = (r', s') \<Longrightarrow> server_step s s'"
| authorize: "validate_authorization_request s params = Inr v \<Longrightarrow>
    issue_authorization_code v subject amr auth_time s = (q, s') \<Longrightarrow> server_step s s'"
| token: "token_endpoint params basic pf url tls s = (d, s') \<Longrightarrow> server_step s s'"
| authenticate: "authenticate_client params basic tls s = (r, s') \<Longrightarrow> server_step s s'"
| device: "device_authorization params s = (d, s') \<Longrightarrow> server_step s s'"
| approve: "approve_device code subject amr s = (b, s') \<Longrightarrow> server_step s s'"
| deny: "deny_device code s = (b, s') \<Longrightarrow> server_step s s'"
| revoke: "revoke token c s = (n, s') \<Longrightarrow> server_step s s'"
| dpop: "server_step s (s\<lparr>as_dpop := d\<rparr>)"

inductive server_run :: "auth_server \<Rightarrow> auth_server \<Rightarrow> bool" where
  refl: "server_run s s"
| step: "server_run s s1 \<Longrightarrow> server_step s1 s2 \<Longrightarrow> server_run s s2"

locale stable_property =
  fixes A :: "string set" and Q :: "store \<Rightarrow> bool"
  assumes events: "Q st \<Longrightarrow> Q (st\<lparr>st_events := es\<rparr>)"
    and clients: "Q st \<Longrightarrow> Q (st\<lparr>st_clients := dset (cl_id c) c (st_clients st)\<rparr>)"
    and users: "Q st \<Longrightarrow> Q (st\<lparr>st_users := dset (us_subject u) u (st_users st)\<rparr>)"
    and seen: "Q st \<Longrightarrow> Q (st\<lparr>st_seen_jtis := j\<rparr>)"
    and new_code: "Q st \<Longrightarrow> ac_code ac \<notin> A \<Longrightarrow> \<not> ac_used ac \<Longrightarrow> Q (st\<lparr>st_codes := dset (ac_code ac) ac (st_codes st)\<rparr>)"
    and use_code: "Q st \<Longrightarrow> Q (st\<lparr>st_codes := dupd k (\<lambda>c. c\<lparr>ac_used := True\<rparr>) (st_codes st)\<rparr>)"
    and new_access: "Q st \<Longrightarrow> \<not> at_revoked a \<Longrightarrow> Q (st\<lparr>st_access_tokens := dset (at_token a) a (st_access_tokens st)\<rparr>)"
    and revoke_access: "Q st \<Longrightarrow> Q (st\<lparr>st_access_tokens := dupd k (\<lambda>a. a\<lparr>at_revoked := True\<rparr>) (st_access_tokens st)\<rparr>)"
    and revoke_all_access: "Q st \<Longrightarrow>
        Q (st\<lparr>st_access_tokens := dmap (\<lambda>a. if P a then a\<lparr>at_revoked := True\<rparr> else a) (st_access_tokens st)\<rparr>)"
    and new_refresh: "Q st \<Longrightarrow> fresh_refresh A st e \<Longrightarrow> Q (st\<lparr>st_refresh_tokens := dset (rt_token e) e (st_refresh_tokens st)\<rparr>)"
    and use_refresh: "Q st \<Longrightarrow> Q (st\<lparr>st_refresh_tokens := dupd k (\<lambda>t. t\<lparr>rt_used := True\<rparr>) (st_refresh_tokens st)\<rparr>)"
    and link_refresh: "Q st \<Longrightarrow> Q (st\<lparr>st_refresh_tokens := dupd k (\<lambda>t. t\<lparr>rt_rotated_to := n\<rparr>) (st_refresh_tokens st)\<rparr>)"
    and revoke_all_refresh: "Q st \<Longrightarrow>
        Q (st\<lparr>st_refresh_tokens := dmap (\<lambda>t. if R t then t\<lparr>rt_revoked := True\<rparr> else t) (st_refresh_tokens st)\<rparr>)"
    and new_device: "Q st \<Longrightarrow> Q (st\<lparr>st_device_codes := dset (dc_device_code d) d (st_device_codes st)\<rparr>)"
    and change_device: "Q st \<Longrightarrow> (\<And>d. dc_device_code (h d) = dc_device_code d) \<Longrightarrow>
        Q (st\<lparr>st_device_codes := dupd k h (st_device_codes st)\<rparr>)"
    and drop_device: "Q st \<Longrightarrow> Q (st\<lparr>st_device_codes := ddel k (st_device_codes st)\<rparr>)"
begin

definition knowing :: "(store \<Rightarrow> bool) \<Rightarrow> (auth_server, 'a) op \<Rightarrow> bool" where
  "knowing F m \<longleftrightarrow> triple A (\<lambda>st. Q st \<and> F st) m (\<lambda>_. Q) Q"

text \<open>The property is preserved; \<open>knowing F\<close> is the same with a fact about the store at the start.\<close>

definition stable :: "(auth_server, 'a) op \<Rightarrow> bool" where
  "stable m \<longleftrightarrow> triple A Q m (\<lambda>_. Q) Q"

lemma stable_bind: "stable m \<Longrightarrow> (\<And>x. stable (f x)) \<Longrightarrow> stable (bindM m f)"
  unfolding stable_def by (rule triple_bind)

lemma stable_basic:
  "stable (ret x)" "stable (raise e)" "stable (fail oe)" "stable (lift r)" "stable (require b oe)" "stable (gets g)"
  unfolding stable_def by (auto simp: triple_def holds_def fail_def require_def split: sum.splits)

lemma stable_if: "(b \<Longrightarrow> stable m) \<Longrightarrow> (\<not> b \<Longrightarrow> stable n) \<Longrightarrow> stable (if b then m else n)"
  by simp

lemma stable_on_store: "(\<And>st. Q st \<Longrightarrow> Q (f st)) \<Longrightarrow> stable (on_store f)"
  unfolding stable_def by (rule triple_conseq [OF triple_on_store [where Q = Q and E = Q]]) auto

lemma stable_counting: "(\<And>st. Q st \<Longrightarrow> Q (snd (f st))) \<Longrightarrow> stable (counting f)"
  unfolding stable_def by (rule triple_conseq [OF triple_counting [where Q = Q and E = Q]]) auto

lemma stable_on_rng: "rng_op m \<Longrightarrow> stable (on_rng m)"
  unfolding stable_def by (rule triple_on_rng)

lemma stable_on_dpop: "stable (on_dpop m)"
  unfolding stable_def by (rule triple_on_dpop)

lemma stable_draw_bind: "(\<And>x. x \<notin> A \<Longrightarrow> stable (f x)) \<Longrightarrow> stable (bindM (on_rng (draw_token n)) f)"
  unfolding stable_def by (rule triple_bind [OF triple_draw]) (rule triple_fact)

lemma stable_token_or_bind:
  "(\<And>x. x \<notin> A \<or> v = Some x \<Longrightarrow> stable (f x)) \<Longrightarrow> stable (bindM (on_rng (token_or v n)) f)"
  unfolding stable_def by (rule triple_bind [OF triple_token_or]) (rule triple_fact)

lemma stable_lookup_bind:
  "(\<And>k v. knowing (\<lambda>st. dget (table st) k = Some v) (f (k, v))) \<Longrightarrow> stable (bindM (lookup_param params name table) f)"
  unfolding stable_def knowing_def
  by (rule triple_bind [OF triple_lookup]) (auto split: prod.split)

lemma knowing_stable: "stable m \<Longrightarrow> knowing F m"
  unfolding stable_def knowing_def by (auto simp: triple_def holds_def)

lemma knowing_bind:
  "(b \<Longrightarrow> knowing F (f ())) \<Longrightarrow> knowing F (bindM (require b oe) f)"
  "(\<And>x. knowing F (f' x)) \<Longrightarrow> knowing F (bindM (lift r) f')"
  "(\<And>x. knowing F (f'' x)) \<Longrightarrow> knowing F (bindM (gets g) f'')"
  unfolding knowing_def
  by (auto simp: triple_def holds_def bindM_def require_def split: sum.splits prod.splits)

lemma knowing_store_bind:
  assumes "\<And>st. Q st \<Longrightarrow> F st \<Longrightarrow> Q (f st) \<and> G (f st)" "knowing G (h ())"
  shows "knowing F (bindM (on_store f) h)"
  using assms unfolding knowing_def
  by (auto simp: triple_def holds_def bindM_def on_store_def split: sum.splits prod.splits)

lemma knowing_draw_bind: "(\<And>x. x \<notin> A \<Longrightarrow> knowing F (f x)) \<Longrightarrow> knowing F (bindM (on_rng (draw_token n)) f)"
  unfolding knowing_def
  by (rule triple_bind, rule triple_draw, rule triple_fact)

lemma knowing_token_or_bind:
  "(\<And>x. x \<notin> A \<or> v = Some x \<Longrightarrow> knowing F (f x)) \<Longrightarrow> knowing F (bindM (on_rng (token_or v n)) f)"
  unfolding knowing_def
  by (rule triple_bind, rule triple_token_or, rule triple_fact)

lemma knowing_rng_bind:
  "rng_op m \<Longrightarrow> (\<And>x. knowing F (f x)) \<Longrightarrow> knowing F (bindM (on_rng m) f)"
  unfolding knowing_def by (rule triple_bind, rule triple_on_rng) simp_all

lemma knowing_then: "knowing F m \<Longrightarrow> (\<And>x. stable (f x)) \<Longrightarrow> knowing F (bindM m f)"
  unfolding knowing_def stable_def by (rule triple_bind)

lemma knowing_bind_if:
  "(b \<Longrightarrow> knowing F (bindM m f)) \<Longrightarrow> (\<not> b \<Longrightarrow> knowing F (bindM n f)) \<Longrightarrow> knowing F (bindM (if b then m else n) f)"
  by simp

lemma knowing_if: "(b \<Longrightarrow> knowing F m) \<Longrightarrow> (\<not> b \<Longrightarrow> knowing F n) \<Longrightarrow> knowing F (if b then m else n)"
  by simp

lemma knowing_change: "(\<And>st. F st \<Longrightarrow> G st) \<Longrightarrow> knowing G m \<Longrightarrow> knowing F m"
  unfolding knowing_def by (erule triple_pre) auto

lemma stable_knowing: "knowing F m \<Longrightarrow> (\<And>st. F st) \<Longrightarrow> stable m"
  unfolding knowing_def stable_def by (simp add: triple_def holds_def)

lemmas stable_intros = stable_basic stable_bind stable_on_dpop stable_if

text \<open>The same updates with the key of an entry written apart.\<close>

lemma new_entries:
  "Q st \<Longrightarrow> ac_code ac = k \<Longrightarrow> k \<notin> A \<Longrightarrow> \<not> ac_used ac \<Longrightarrow> Q (st\<lparr>st_codes := dset k ac (st_codes st)\<rparr>)"
  "Q st \<Longrightarrow> at_token a = k \<Longrightarrow> \<not> at_revoked a \<Longrightarrow> Q (st\<lparr>st_access_tokens := dset k a (st_access_tokens st)\<rparr>)"
  "Q st \<Longrightarrow> dc_device_code d = k \<Longrightarrow> Q (st\<lparr>st_device_codes := dset k d (st_device_codes st)\<rparr>)"
  using new_code new_access new_device by blast+

lemma stable_log: "stable (log_event kind message)"
  unfolding log_event_def store_log_def by (intro stable_on_store events)

lemma stable_register_client: "stable (register_client c)"
  unfolding register_client_def by (intro stable_intros stable_on_store clients)

lemma stable_register_user: "stable (register_user u)"
  unfolding register_user_def by (intro stable_intros stable_on_store users)

lemma stable_issue_code: "stable (issue_authorization_code v subject amr t)"
  unfolding issue_authorization_code_def Let_def
  by (intro stable_draw_bind stable_intros stable_log stable_on_store new_entries(1)) simp_all

lemma stable_client_assertion: "stable (verify_client_assertion c params)"
  unfolding verify_client_assertion_def
  by (auto split: pyval.split option.split intro!: stable_intros stable_on_store seen)

lemma stable_authenticate: "stable (authenticate_client params basic tls)"
  unfolding authenticate_client_def Let_def check_secret_def
  by (auto split: option.split intro!: stable_intros stable_client_assertion)

section \<open>Minting\<close>

lemma stable_id_token: "stable (issue_id_token c subject nonce amr t access)"
  unfolding issue_id_token_def Let_def
  by (intro stable_intros stable_on_rng rng_op_jwt_issue)

lemma mint_access_alive:
  "(\<And>x. knowing (parent_alive gr) (f x)) \<Longrightarrow> knowing (parent_alive gr) (bindM (mint_access c gr) f)"
  unfolding mint_access_def Let_def bindM_assoc
  by (intro knowing_bind(3) knowing_bind_if knowing_rng_bind rng_op_jwt_issue rng_op_draw
      knowing_store_bind [where G = "parent_alive gr"] conjI new_entries(2))
     (simp_all add: parent_alive_def)

lemma mint_refresh_stable: "knowing (parent_alive gr) (mint_refresh c gr subject)"
  unfolding mint_refresh_def Let_def
proof (intro knowing_bind knowing_draw_bind knowing_token_or_bind)
  fix s av fam assume fresh: "av \<notin> A" "fam \<notin> A \<or> gr_family gr = Some fam"
  let ?e = "\<lparr>rt_token = av, rt_client_id = cl_id c, rt_subject = subject, rt_scope = gr_scope gr,
     rt_expires_at = as_now s + as_refresh_token_lifetime s, rt_family = fam, rt_used = False,
     rt_revoked = False, rt_rotated_to = None, rt_jkt = gr_jkt gr, rt_x5t = gr_x5t gr, rt_details = gr_details gr\<rparr>"
  show "knowing (parent_alive gr) (bindM (on_store (\<lambda>st. st\<lparr>st_refresh_tokens := dset av ?e (st_refresh_tokens st)\<rparr>)) (\<lambda>_. ret av))"
  proof (rule knowing_store_bind)
    fix st assume q: "Q st" and alive: "parent_alive gr st"
    have "fresh_refresh A st ?e"
      using fresh alive by (auto simp: fresh_refresh_def parent_alive_def)
    from new_refresh [OF q this] show "Q (st\<lparr>st_refresh_tokens := dset av ?e (st_refresh_tokens st)\<rparr>) \<and> True" by simp
  qed (intro knowing_stable stable_intros)
qed

lemma mint_optional_refresh:
  "knowing (parent_alive gr) (case gr_subject gr of
       Some subject \<Rightarrow>
         if gr_include_refresh gr then bindM (mint_refresh c gr subject) (\<lambda>av. ret [(''refresh_token'', PStr av)]) else ret []
     | None \<Rightarrow> ret [])"
  by (simp add: knowing_then mint_refresh_stable knowing_stable stable_basic split: option.split)

lemma stable_token_set: "knowing (parent_alive gr) (issue_token_set c gr)"
  unfolding issue_token_set_def Let_def
proof (intro mint_access_alive knowing_bind(3) knowing_then mint_optional_refresh stable_intros)
  fix av refresh
  show "stable (case gr_subject gr of
       Some subject \<Rightarrow>
         if gr_id_token gr \<and> ''openid'' \<in> set (gr_scope gr)
         then bindM (issue_id_token c subject (gr_nonce gr) (gr_amr gr) (gr_auth_time gr) (Some av))
                (\<lambda>t. ret [(''id_token'', PStr t)])
         else ret []
     | None \<Rightarrow> ret [])"
    by (auto split: option.split intro!: stable_intros stable_id_token)
qed

lemma stable_token_set_new: "gr_family gr = None \<Longrightarrow> stable (issue_token_set c gr)"
  by (rule stable_knowing [OF stable_token_set]) (simp add: parent_alive_def)

section \<open>The grants and the other endpoints\<close>

lemma stable_revoke_code: "stable (revoke_code_tokens code)"
  unfolding revoke_code_tokens_def
  by (intro stable_intros stable_log stable_counting stable_on_store revoke_all_refresh)
     (simp add: revoke_access_for_family_subject_def revoke_all_access)

lemma stable_grant_code: "stable (grant_authorization_code c params j x)"
  unfolding grant_authorization_code_def on_code_def
  by (intro stable_lookup_bind)
     (auto intro!: knowing_stable stable_intros stable_revoke_code stable_on_store use_code stable_log stable_token_set_new)

lemma stable_revoke_family: "stable (revoke_family_of t)"
  unfolding revoke_family_of_def
  by (intro stable_intros stable_log stable_counting)
     (simp_all add: revoke_access_for_family_subject_def revoke_refresh_family_def revoke_all_access revoke_all_refresh)

lemma knowing_token_set:
  "(\<And>st. F st \<Longrightarrow> parent_alive gr st) \<Longrightarrow> knowing F (issue_token_set c gr)"
  by (rule knowing_change [OF _ stable_token_set])

lemma knowing_rotate:
  assumes "\<not> rt_revoked t" "gr_family gr = Some (rt_family t)"
  shows "knowing (\<lambda>st. dget (st_refresh_tokens st) k = Some t) (rotate_refresh c k gr)"
  unfolding rotate_refresh_def on_refresh_def
  by (rule knowing_store_bind [where G = "\<lambda>st. dget (st_refresh_tokens st) k = Some (t\<lparr>rt_used := True\<rparr>)"],
      simp add: use_refresh, intro knowing_then knowing_token_set stable_intros stable_on_store link_refresh)
     (use assms in \<open>auto simp: parent_alive_def intro!: exI [of _ k] exI [of _ "t\<lparr>rt_used := True\<rparr>"]\<close>)

lemma stable_grant_refresh: "stable (grant_refresh_token c params j x)"
  unfolding grant_refresh_token_def Let_def
  by (rule stable_lookup_bind, unfold prod.case, intro knowing_if knowing_bind knowing_rotate)
     (auto intro!: knowing_stable stable_intros stable_revoke_family stable_token_set_new simp: refresh_grant_def)

lemma stable_grant_client: "stable (grant_client_credentials c params j x)"
  unfolding grant_client_credentials_def by (intro stable_intros stable_token_set_new) simp

lemma stable_grant_device: "stable (grant_device_code c params j x)"
  unfolding grant_device_code_def on_device_def
  by (intro stable_lookup_bind)
     (auto intro!: knowing_stable stable_intros stable_on_store change_device drop_device stable_token_set_new)

lemma stable_token_endpoint: "stable (token_endpoint params basic pf url tls)"
  unfolding token_endpoint_def token_dpop_def Let_def
  by (auto split: option.split intro!: stable_intros stable_authenticate stable_grant_code stable_grant_refresh
      stable_grant_client stable_grant_device)

lemma stable_device_authorization: "stable (device_authorization params)"
  unfolding device_authorization_def Let_def
  by (intro stable_bind stable_basic)
     (auto split: option.split intro!: stable_bind stable_basic stable_on_rng stable_on_store new_entries(3))

lemma stable_approve: "stable (approve_device user_code subject amr)"
  unfolding approve_device_def on_device_def
  by (intro stable_bind stable_basic)
     (auto split: option.split intro!: stable_bind stable_basic stable_on_store change_device)

lemma stable_deny: "stable (deny_device user_code)"
  unfolding deny_device_def on_device_def
  by (intro stable_bind stable_basic)
     (auto split: option.split intro!: stable_bind stable_basic stable_on_store change_device)

lemma stable_revoke: "stable (revoke token c)"
proof -
  have "stable (revoke_refresh token c)"
    unfolding revoke_refresh_def
    by (intro stable_bind stable_basic)
       (auto split: option.split intro!: stable_bind stable_basic stable_log stable_counting
         simp: revoke_refresh_family_def revoke_all_refresh)
  then show ?thesis
    unfolding revoke_def on_access_def
    by (intro stable_bind stable_basic)
       (auto split: option.split intro!: stable_bind stable_basic stable_log stable_on_store revoke_access)
qed

lemma stableD: "stable m \<Longrightarrow> m s = (r, s') \<Longrightarrow> holds A Q s \<Longrightarrow> holds A Q s'"
  unfolding stable_def by (drule (2) tripleD) (simp split: sum.splits)

lemma step_preserves: "server_step s s' \<Longrightarrow> holds A Q s \<Longrightarrow> holds A Q s'"
proof (induction rule: server_step.induct)
  case (clock s t)
  then show ?case by (simp add: holds_def)
next
  case (dpop s d)
  then show ?case by (simp add: holds_def)
qed (erule stableD [rotated]; (assumption | intro stable_register_client stable_register_user stable_issue_code
    stable_token_endpoint stable_authenticate stable_device_authorization stable_approve stable_deny stable_revoke))+

lemma run_preserves: "server_run s s' \<Longrightarrow> holds A Q s \<Longrightarrow> holds A Q s'"
  by (induction rule: server_run.induct) (auto intro: step_preserves)

end

end
