(* ===== verification/AuthProps.thy ===== *)
theory AuthProps
  imports AuthInv
begin

text \<open>
  What the authorization server guarantees: the store stays well formed; an authorization code
  is spent once and a replay revokes what it produced; a refresh token is rotated, never
  reused, and never widened; and what a successful grant must have checked.
\<close>

section \<open>Four stable properties\<close>

definition keyed :: "('v \<Rightarrow> string) \<Rightarrow> (string, 'v) dict \<Rightarrow> bool" where
  "keyed name d \<longleftrightarrow> distinct (dkeys d) \<and> (\<forall>k v. dget d k = Some v \<longrightarrow> name v = k)"

text \<open>Every dictionary of the store is keyed by the identifier of its records.\<close>

definition store_ok :: "store \<Rightarrow> bool" where
  "store_ok st \<longleftrightarrow>
     keyed cl_id (st_clients st) \<and> keyed us_subject (st_users st) \<and> keyed ac_code (st_codes st)
     \<and> keyed at_token (st_access_tokens st) \<and> keyed rt_token (st_refresh_tokens st)
     \<and> keyed dc_device_code (st_device_codes st)"

definition code_spent :: "string \<Rightarrow> store \<Rightarrow> bool" where
  "code_spent k st \<longleftrightarrow> (\<exists>c. dget (st_codes st) k = Some c \<and> ac_used c)"

definition refresh_spent :: "string \<Rightarrow> store \<Rightarrow> bool" where
  "refresh_spent k st \<longleftrightarrow> (\<exists>t. dget (st_refresh_tokens st) k = Some t \<and> (rt_used t \<or> rt_revoked t))"

definition family_dead :: "string \<Rightarrow> store \<Rightarrow> bool" where
  "family_dead f st \<longleftrightarrow> (\<forall>k t. dget (st_refresh_tokens st) k = Some t \<longrightarrow> rt_family t = f \<longrightarrow> rt_revoked t)"

lemma keyed_updates [intro]:
  "keyed name d \<Longrightarrow> name v = k \<Longrightarrow> keyed name (dset k v d)"
  "keyed name d \<Longrightarrow> (\<And>v. name (f v) = name v) \<Longrightarrow> keyed name (dupd k f d)"
  "keyed name d \<Longrightarrow> (\<And>v. name (f v) = name v) \<Longrightarrow> keyed name (dmap f d)"
  "keyed name d \<Longrightarrow> keyed name (ddel k d)"
  unfolding keyed_def by (auto simp: distinct_update simp del: map_of_eq_Some_iff split: if_splits)

interpretation well_formed: stable_property "{}" store_ok
  by unfold_locales (auto simp: store_ok_def)

interpretation spent_code: stable_property "{k}" "code_spent k" for k
  by unfold_locales (auto simp: code_spent_def)

interpretation spent_refresh: stable_property "{k}" "refresh_spent k" for k
proof (unfold_locales, goal_cases)
  case (13 st R)
  then obtain t where t: "dget (st_refresh_tokens st) k = Some t" "rt_used t \<or> rt_revoked t" by (auto simp: refresh_spent_def)
  then show ?case by (cases "R t") (auto simp: refresh_spent_def)
qed (auto simp: refresh_spent_def fresh_refresh_def)

interpretation dead_family: stable_property "{f}" "family_dead f" for f
  by unfold_locales (auto simp: family_dead_def fresh_refresh_def split: if_splits)

text \<open>A value that is not base64url is never drawn.\<close>

lemma never_again_foreign: "\<not> list_all unreserved k \<Longrightarrow> never_again {k} g"
  using b64u_unreserved by (auto simp: never_again_def)

lemma never_again_empty [simp]: "never_again {} g"
  by (simp add: never_again_def)

section \<open>What a grant leaves in the store\<close>

text \<open>The parts of the server that minting does not touch.\<close>

definition same_setup :: "auth_server \<Rightarrow> auth_server \<Rightarrow> bool" where
  "same_setup s s' \<longleftrightarrow>
     as_now s' = as_now s \<and> as_issuer s' = as_issuer s \<and> as_signing_key s' = as_signing_key s
     \<and> as_signing_kid s' = as_signing_kid s \<and> as_jwks s' = as_jwks s \<and> as_known_resources s' = as_known_resources s
     \<and> as_access_token_lifetime s' = as_access_token_lifetime s \<and> as_refresh_token_lifetime s' = as_refresh_token_lifetime s
     \<and> as_id_token_lifetime s' = as_id_token_lifetime s \<and> as_jwt_access_tokens s' = as_jwt_access_tokens s
     \<and> as_dpop s' = as_dpop s \<and> st_clients (as_store s') = st_clients (as_store s)
     \<and> st_users (as_store s') = st_users (as_store s)"

lemma on_rng_same: "on_rng m s = (r, s') \<Longrightarrow> as_store s' = as_store s \<and> same_setup s s'"
  by (cases "m (as_rng s)") (auto simp: on_rng_def zoom_def same_setup_def)

lemma same_setup_trans: "same_setup s s' \<Longrightarrow> same_setup s' s'' \<Longrightarrow> same_setup s s''"
  by (simp add: same_setup_def)

text \<open>The record of an access token made for a grant.\<close>

definition access_for :: "auth_server \<Rightarrow> client \<Rightarrow> grant \<Rightarrow> string \<Rightarrow> access_token \<Rightarrow> bool" where
  "access_for s c gr av a \<longleftrightarrow>
     at_token a = av \<and> at_client_id a = cl_id c \<and> at_subject a = gr_subject gr \<and> at_scope a = gr_scope gr
     \<and> at_expires_at a = as_now s + as_access_token_lifetime s \<and> at_audience a = gr_audience gr
     \<and> \<not> at_revoked a \<and> at_jkt a = gr_jkt gr \<and> at_x5t a = gr_x5t gr \<and> at_details a = gr_details gr"

definition refresh_for :: "auth_server \<Rightarrow> client \<Rightarrow> grant \<Rightarrow> string \<Rightarrow> refresh_token \<Rightarrow> bool" where
  "refresh_for s c gr rv t \<longleftrightarrow>
     rt_token t = rv \<and> rt_client_id t = cl_id c \<and> gr_subject gr = Some (rt_subject t) \<and> rt_scope t = gr_scope gr
     \<and> rt_expires_at t = as_now s + as_refresh_token_lifetime s \<and> \<not> rt_used t \<and> \<not> rt_revoked t
     \<and> rt_jkt t = gr_jkt gr \<and> rt_x5t t = gr_x5t gr \<and> rt_details t = gr_details gr
     \<and> (\<forall>f. gr_family gr = Some f \<longrightarrow> f \<noteq> [] \<longrightarrow> rt_family t = f)"

lemma mint_access_D:
  assumes "mint_access c gr s = (Inr av, s')"
  shows "same_setup s s' \<and> (\<exists>a. access_for s c gr av a
    \<and> as_store s' = as_store s\<lparr>st_access_tokens := dset av a (st_access_tokens (as_store s))\<rparr>)"
proof -
  from assms obtain s1 jti s2 where
    s1: "(if as_jwt_access_tokens s
      then on_rng (jwt_issue (as_now s) (as_signing_key s) RS256 (as_issuer s)
        (case gr_subject gr of Some sub \<Rightarrow> if sub \<noteq> [] then sub else ''client:'' @ cl_id c | None \<Rightarrow> ''client:'' @ cl_id c)
        (PList (map PStr (if gr_audience gr \<noteq> [] then gr_audience gr else [as_issuer s])))
        (as_access_token_lifetime s) None
        ([(''scope'', PStr (join '' '' (gr_scope gr))), (''client_id'', PStr (cl_id c))]
          @ (if cnf_claims (gr_jkt gr) (gr_x5t gr) \<noteq> [] then [(''cnf'', PDict (cnf_claims (gr_jkt gr) (gr_x5t gr)))] else [])
          @ (if gr_details gr \<noteq> [] then [(''authorization_details'', PList (gr_details gr))] else []))
        (Some (as_signing_kid s)) ''at+jwt'' None)
      else on_rng (draw_token 32)) s = (Inr av, s1)"
    and s2: "on_rng (draw_token 16) s1 = (Inr jti, s2)"
    and s': "s' = s2\<lparr>as_store := as_store s2\<lparr>st_access_tokens := dset av
        \<lparr>at_token = av, at_client_id = cl_id c, at_subject = gr_subject gr, at_scope = gr_scope gr,
         at_expires_at = as_now s + as_access_token_lifetime s, at_issued_at = as_now s,
         at_type = (if truthy_str (gr_jkt gr) then ''DPoP'' else ''Bearer''), at_audience = gr_audience gr,
         at_revoked = False, at_jkt = gr_jkt gr, at_x5t = gr_x5t gr, at_jti = jti, at_details = gr_details gr\<rparr>
        (st_access_tokens (as_store s2))\<rparr>\<rparr>"
    unfolding mint_access_def Let_def
    by (auto simp: bindM_Inr_iff on_store_def)
  let ?a = "\<lparr>at_token = av, at_client_id = cl_id c, at_subject = gr_subject gr, at_scope = gr_scope gr,
         at_expires_at = as_now s + as_access_token_lifetime s, at_issued_at = as_now s,
         at_type = (if truthy_str (gr_jkt gr) then ''DPoP'' else ''Bearer''), at_audience = gr_audience gr,
         at_revoked = False, at_jkt = gr_jkt gr, at_x5t = gr_x5t gr, at_jti = jti, at_details = gr_details gr\<rparr>"
  have "as_store s1 = as_store s \<and> same_setup s s1" using s1 by (cases "as_jwt_access_tokens s") (auto dest: on_rng_same)
  with on_rng_same [OF s2] have "as_store s2 = as_store s" "same_setup s s2" by (auto intro: same_setup_trans)
  then have "same_setup s s'" "as_store s' = as_store s\<lparr>st_access_tokens := dset av ?a (st_access_tokens (as_store s))\<rparr>"
    unfolding s' by (simp_all add: same_setup_def)
  moreover have "access_for s c gr av ?a" by (simp add: access_for_def)
  ultimately show ?thesis by blast
qed

lemma token_or_same: "on_rng (token_or v n) s = (Inr x, s') \<Longrightarrow> v = Some f \<Longrightarrow> f \<noteq> [] \<Longrightarrow> x = f"
  by (auto simp: token_or_def on_rng_def zoom_def)

lemma mint_refresh_D:
  assumes "mint_refresh c gr subject s = (Inr rv, s')" "gr_subject gr = Some subject"
  shows "same_setup s s' \<and> (\<exists>t. refresh_for s c gr rv t
    \<and> as_store s' = as_store s\<lparr>st_refresh_tokens := dset rv t (st_refresh_tokens (as_store s))\<rparr>)"
proof -
  from assms(1) obtain s1 fam s2 where s1: "on_rng (draw_token 32) s = (Inr rv, s1)"
    and s2: "on_rng (token_or (gr_family gr) 16) s1 = (Inr fam, s2)"
    and s': "s' = s2\<lparr>as_store := as_store s2\<lparr>st_refresh_tokens := dset rv
        \<lparr>rt_token = rv, rt_client_id = cl_id c, rt_subject = subject, rt_scope = gr_scope gr,
         rt_expires_at = as_now s + as_refresh_token_lifetime s, rt_family = fam, rt_used = False,
         rt_revoked = False, rt_rotated_to = None, rt_jkt = gr_jkt gr, rt_x5t = gr_x5t gr, rt_details = gr_details gr\<rparr>
        (st_refresh_tokens (as_store s2))\<rparr>\<rparr>"
    unfolding mint_refresh_def Let_def by (auto simp: bindM_Inr_iff on_store_def)
  let ?t = "\<lparr>rt_token = rv, rt_client_id = cl_id c, rt_subject = subject, rt_scope = gr_scope gr,
         rt_expires_at = as_now s + as_refresh_token_lifetime s, rt_family = fam, rt_used = False,
         rt_revoked = False, rt_rotated_to = None, rt_jkt = gr_jkt gr, rt_x5t = gr_x5t gr, rt_details = gr_details gr\<rparr>"
  have "as_store s2 = as_store s" "same_setup s s2"
    using on_rng_same [OF s1] on_rng_same [OF s2] by (auto intro: same_setup_trans)
  then have "same_setup s s'" "as_store s' = as_store s\<lparr>st_refresh_tokens := dset rv ?t (st_refresh_tokens (as_store s))\<rparr>"
    unfolding s' by (simp_all add: same_setup_def)
  moreover have "refresh_for s c gr rv ?t"
    using assms(2) token_or_same [OF s2] by (simp add: refresh_for_def)
  ultimately show ?thesis by blast
qed

definition with_access :: "string \<Rightarrow> access_token \<Rightarrow> store \<Rightarrow> store" where
  "with_access av a st = st\<lparr>st_access_tokens := dset av a (st_access_tokens st)\<rparr>"

definition with_refresh :: "string \<Rightarrow> refresh_token \<Rightarrow> store \<Rightarrow> store" where
  "with_refresh rv t st = st\<lparr>st_refresh_tokens := dset rv t (st_refresh_tokens st)\<rparr>"

text \<open>What a token response for a grant means for the store.\<close>

definition minted :: "auth_server \<Rightarrow> client \<Rightarrow> grant \<Rightarrow> pydict \<Rightarrow> store \<Rightarrow> bool" where
  "minted s c gr resp st \<longleftrightarrow>
     (\<exists>av a. pget resp ''access_token'' = PStr av \<and> access_for s c gr av a
        \<and> pget resp ''scope'' = PStr (join '' '' (gr_scope gr))
        \<and> (if gr_include_refresh gr \<and> gr_subject gr \<noteq> None
           then \<exists>rv t. pget resp ''refresh_token'' = PStr rv \<and> refresh_for s c gr rv t
                  \<and> st = with_refresh rv t (with_access av a (as_store s))
           else dget resp ''refresh_token'' = None \<and> st = with_access av a (as_store s)))"

lemma issue_id_token_same: "issue_id_token c subject nonce amr t access s = (Inr x, s') \<Longrightarrow> as_store s' = as_store s \<and> same_setup s s'"
  unfolding issue_id_token_def Let_def by (auto simp: bindM_Inr_iff dest: on_rng_same)

lemma issue_token_set_D:
  assumes "issue_token_set c gr s = (Inr resp, s')"
  shows "same_setup s s' \<and> minted s c gr resp (as_store s')"
proof -
  define base where "base av = [(''access_token'', PStr av),
      (''token_type'', PStr (if truthy_str (gr_jkt gr) then ''DPoP'' else ''Bearer'')),
      (''expires_in'', PInt (as_access_token_lifetime s)), (''scope'', PStr (join '' '' (gr_scope gr)))]
      @ (if gr_details gr \<noteq> [] then [(''authorization_details'', PList (gr_details gr))] else [])" for av
  from assms obtain av s1 refresh s2 idt where
    av: "mint_access c gr s = (Inr av, s1)" and
    refresh: "(case gr_subject gr of
        Some subject \<Rightarrow>
          if gr_include_refresh gr then bindM (mint_refresh c gr subject) (\<lambda>v. ret [(''refresh_token'', PStr v)]) else ret []
      | None \<Rightarrow> ret []) s1 = (Inr refresh, s2)" and
    idt: "(case gr_subject gr of
        Some subject \<Rightarrow>
          if gr_id_token gr \<and> ''openid'' \<in> set (gr_scope gr)
          then bindM (issue_id_token c subject (gr_nonce gr) (gr_amr gr) (gr_auth_time gr) (Some av)) (\<lambda>t. ret [(''id_token'', PStr t)])
          else ret []
      | None \<Rightarrow> ret []) s2 = (Inr idt, s')" and
    resp: "resp = [(''access_token'', PStr av),
      (''token_type'', PStr (if truthy_str (gr_jkt gr) then ''DPoP'' else ''Bearer'')),
      (''expires_in'', PInt (as_access_token_lifetime s1)), (''scope'', PStr (join '' '' (gr_scope gr)))]
      @ (if gr_details gr \<noteq> [] then [(''authorization_details'', PList (gr_details gr))] else []) @ refresh @ idt"
    unfolding issue_token_set_def Let_def by (auto simp: bindM_Inr_iff)
  from mint_access_D [OF av] obtain a where s1: "same_setup s s1" "access_for s c gr av a"
    "as_store s1 = with_access av a (as_store s)" by (auto simp: with_access_def)
  have s': "as_store s' = as_store s2" "same_setup s2 s'" and idt_keys: "idt = [] \<or> (\<exists>t. idt = [(''id_token'', PStr t)])"
    using idt by (auto simp: bindM_Inr_iff same_setup_def split: option.splits if_splits dest: issue_id_token_same)
  show ?thesis
  proof (cases "gr_include_refresh gr \<and> gr_subject gr \<noteq> None")
    case True
    then obtain subject where sub: "gr_subject gr = Some subject" "gr_include_refresh gr" by auto
    with refresh obtain rv where rv: "mint_refresh c gr subject s1 = (Inr rv, s2)" "refresh = [(''refresh_token'', PStr rv)]"
      by (auto simp: bindM_Inr_iff)
    from mint_refresh_D [OF rv(1) sub(1)] obtain t where t: "same_setup s1 s2" "refresh_for s1 c gr rv t"
      "as_store s2 = with_refresh rv t (as_store s1)" by (auto simp: with_refresh_def)
    have "refresh_for s c gr rv t" using t(2) s1(1) by (simp add: refresh_for_def same_setup_def)
    moreover have "pget resp ''access_token'' = PStr av" "pget resp ''refresh_token'' = PStr rv"
      "pget resp ''scope'' = PStr (join '' '' (gr_scope gr))"
      unfolding resp rv(2) by (simp_all add: pget_def)
    ultimately show ?thesis
      using True s1 t s' same_setup_trans unfolding minted_def by (metis (no_types, lifting))
  next
    case False
    with refresh have "refresh = []" "s2 = s1" by (auto split: option.splits if_splits)
    moreover from this have "pget resp ''access_token'' = PStr av" "dget resp ''refresh_token'' = None"
      "pget resp ''scope'' = PStr (join '' '' (gr_scope gr))"
      using idt_keys unfolding resp by (auto simp: pget_def)
    ultimately show ?thesis
      using False s1 s' same_setup_trans unfolding minted_def by (metis (no_types, lifting))
  qed
qed

lemma require_Inr: "require b e s = (Inr u, s') \<longleftrightarrow> b \<and> s' = s"
  by (auto simp: require_def)

lemma fail_Inr: "fail e s = (Inr u, s') \<longleftrightarrow> False"
  by (simp add: fail_def)

lemma lookup_param_D:
  "lookup_param params name table s = (Inr kv, s') \<Longrightarrow>
   s' = s \<and> pget params name = PStr (fst kv) \<and> fst kv \<noteq> [] \<and> dget (table (as_store s)) (fst kv) = Some (snd kv)"
  by (auto simp: lookup_param_def bindM_Inr_iff require_Inr fail_Inr dict_get_val_def split: pyval.splits option.splits)

text \<open>The grant that a code stands for.\<close>

definition code_grant :: "auth_server \<Rightarrow> auth_code \<Rightarrow> string option \<Rightarrow> string option \<Rightarrow> grant" where
  "code_grant s code j x =
     \<lparr>gr_subject = Some (ac_subject code), gr_scope = ac_scope code, gr_nonce = ac_nonce code, gr_amr = ac_amr code,
      gr_auth_time = ac_auth_time code,
      gr_audience = (if ac_resource code \<noteq> [] then ac_resource code else take 1 (as_known_resources s)),
      gr_jkt = j, gr_x5t = x, gr_include_refresh = True, gr_family = None, gr_id_token = True, gr_details = ac_details code\<rparr>"

definition spend_code :: "string \<Rightarrow> client \<Rightarrow> auth_code \<Rightarrow> store \<Rightarrow> store" where
  "spend_code k c code st =
     store_log ''code_redeemed'' (ac_subject code @ '' / '' @ cl_id c)
       (st\<lparr>st_codes := dupd k (\<lambda>c. c\<lparr>ac_used := True\<rparr>) (st_codes st)\<rparr>)"

lemma grant_code_D:
  assumes "grant_authorization_code c params j x s = (Inr resp, s')"
  obtains k code where "pget params ''code'' = PStr k" "k \<noteq> []" "dget (st_codes (as_store s)) k = Some code" "\<not> ac_used code"
    "ac_client_id code = cl_id c" "as_now s \<le> ac_expires_at code"
    "check_code_redirect code (pget params ''redirect_uri'') = Inr ()" "check_code_pkce code c params = Inr ()"
    "truthy (ac_dpop_jkt code) \<Longrightarrow> ac_dpop_jkt code = opt_str j"
    "issue_token_set c (code_grant s code j x) (s\<lparr>as_store := spend_code k c code (as_store s)\<rparr>) = (Inr resp, s')"
proof -
  from assms obtain kv s0 where look: "lookup_param params ''code'' st_codes s = (Inr kv, s0)"
    and rest: "(case kv of (key, code) \<Rightarrow>
       if ac_used code then bindM (revoke_code_tokens code) (\<lambda>_. fail InvalidGrant)
       else bindM (require (ac_client_id code = cl_id c) InvalidGrant) (\<lambda>_.
         bindM (gets as_now) (\<lambda>now.
           bindM (require (\<not> now > ac_expires_at code) InvalidGrant) (\<lambda>_.
             bindM (lift (check_code_redirect code (pget params ''redirect_uri''))) (\<lambda>_.
               bindM (lift (check_code_pkce code c params)) (\<lambda>_.
                 bindM (require (\<not> (truthy (ac_dpop_jkt code) \<and> ac_dpop_jkt code \<noteq> opt_str j)) InvalidDPoPProof) (\<lambda>_.
                   bindM (on_code key (\<lambda>c. c\<lparr>ac_used := True\<rparr>)) (\<lambda>_.
                     bindM (log_event ''code_redeemed'' (ac_subject code @ '' / '' @ cl_id c)) (\<lambda>_.
                       bindM (gets as_known_resources) (\<lambda>resources.
                         issue_token_set c
                           \<lparr>gr_subject = Some (ac_subject code), gr_scope = ac_scope code, gr_nonce = ac_nonce code,
                            gr_amr = ac_amr code, gr_auth_time = ac_auth_time code,
                            gr_audience = (if ac_resource code \<noteq> [] then ac_resource code else take 1 resources),
                            gr_jkt = j, gr_x5t = x, gr_include_refresh = True, gr_family = None,
                            gr_id_token = True, gr_details = ac_details code\<rparr>)))))))))) s0 = (Inr resp, s')"
    unfolding grant_authorization_code_def by (rule bindM_InrE)
  obtain k code where kv: "kv = (k, code)" by fastforce
  from lookup_param_D [OF look] kv have look': "s0 = s" "pget params ''code'' = PStr k" "k \<noteq> []" "dget (st_codes (as_store s)) k = Some code"
    by auto
  note rest = rest [unfolded kv prod.case look'(1)]
  have unused: "\<not> ac_used code" using rest by (auto simp: bindM_Inr_iff fail_Inr)
  with rest have "ac_client_id code = cl_id c" "as_now s \<le> ac_expires_at code"
    "check_code_redirect code (pget params ''redirect_uri'') = Inr ()" "check_code_pkce code c params = Inr ()"
    "truthy (ac_dpop_jkt code) \<longrightarrow> ac_dpop_jkt code = opt_str j"
    "issue_token_set c (code_grant s code j x) (s\<lparr>as_store := spend_code k c code (as_store s)\<rparr>) = (Inr resp, s')"
    by (simp_all add: bindM_Inr_iff require_Inr on_code_def on_store_def log_event_def spend_code_def code_grant_def not_less
        split del: if_split cong: if_cong)
  with unused look' show thesis by (intro that) auto
qed

lemma check_code_redirect_ok: "check_code_redirect code uri = Inr u \<longleftrightarrow> uri = PStr (ac_redirect_uri code)"
  by (auto simp: check_code_redirect_def bind_res_Inr_iff)

text \<open>
  A code is exchanged for tokens only by the client it was issued to, before it expires,
  with the redirect URI of the authorization request, with a verifier that matches its
  challenge (which a public client must have), and with the DPoP key the request named.  The
  tokens are for the subject, the scope and the authorization details of the code, and the
  code is spent.
\<close>

theorem code_exchange_is_checked:
  assumes "grant_authorization_code c params j x s = (Inr resp, s')"
  shows "\<exists>k code. pget params ''code'' = PStr k \<and> dget (st_codes (as_store s)) k = Some code
    \<and> \<not> ac_used code \<and> ac_client_id code = cl_id c \<and> as_now s \<le> ac_expires_at code
    \<and> pget params ''redirect_uri'' = PStr (ac_redirect_uri code)
    \<and> (is_public c \<longrightarrow> truthy (ac_challenge code))
    \<and> (truthy (ac_challenge code) \<longrightarrow>
         pkce_verify (pget_or params ''code_verifier'' (PStr [])) (ac_challenge code) (ac_method code) False = Inr ())
    \<and> (truthy (ac_dpop_jkt code) \<longrightarrow> ac_dpop_jkt code = opt_str j)
    \<and> minted (s\<lparr>as_store := spend_code k c code (as_store s)\<rparr>) c (code_grant s code j x) resp (as_store s')
    \<and> code_spent k (as_store s')"
proof -
  from assms obtain k code where d: "pget params ''code'' = PStr k" "dget (st_codes (as_store s)) k = Some code" "\<not> ac_used code"
    "ac_client_id code = cl_id c" "as_now s \<le> ac_expires_at code"
    "check_code_redirect code (pget params ''redirect_uri'') = Inr ()" "check_code_pkce code c params = Inr ()"
    "truthy (ac_dpop_jkt code) \<longrightarrow> ac_dpop_jkt code = opt_str j"
    "issue_token_set c (code_grant s code j x) (s\<lparr>as_store := spend_code k c code (as_store s)\<rparr>) = (Inr resp, s')"
    by (rule grant_code_D) auto
  note m = issue_token_set_D [OF d(9)]
  then have "code_spent k (as_store s')"
    using d(2) unfolding minted_def
    by (auto simp: code_spent_def spend_code_def store_log_def with_access_def with_refresh_def split: if_splits)
  with d m show ?thesis
    by (auto simp: check_code_redirect_ok check_code_pkce_def split: if_splits)
qed

section \<open>A sample server\<close>

definition sample_client :: client where
  "sample_client =
     \<lparr>cl_id = ''app'', cl_secret = Some ''s3cret'', cl_redirect_uris = [''https://app/cb''],
      cl_grant_types = [''authorization_code'', ''refresh_token''], cl_response_types = [''code''], cl_scopes = [],
      cl_auth_method = ''client_secret_post'', cl_require_pkce = True, cl_name = [], cl_tls_bound = False,
      cl_require_dpop = False, cl_jwks = None, cl_rotate = True, cl_delivery_mode = ''poll'',
      cl_notification_endpoint = None, cl_introspection_audiences = []\<rparr>"

definition sample_code :: auth_code where
  "sample_code =
     \<lparr>ac_code = ''code!'', ac_client_id = ''app'', ac_subject = ''alice'', ac_redirect_uri = ''https://app/cb'',
      ac_scope = [''read'', ''write''], ac_expires_at = 1060, ac_challenge = PNone, ac_method = PStr ''S256'', ac_nonce = PNone,
      ac_amr = [''pwd''], ac_auth_time = 1000, ac_used = False, ac_resource = [], ac_dpop_jkt = PNone, ac_details = []\<rparr>"

definition sample_refresh :: refresh_token where
  "sample_refresh =
     \<lparr>rt_token = ''refresh!'', rt_client_id = ''app'', rt_subject = ''alice'', rt_scope = [''read'', ''write''],
      rt_expires_at = 9000, rt_family = ''family!'', rt_used = False, rt_revoked = False, rt_rotated_to = None,
      rt_jkt = None, rt_x5t = None, rt_details = []\<rparr>"

definition sample_device :: device_code where
  "sample_device =
     \<lparr>dc_device_code = ''device!'', dc_user_code = ''BCDF-GHJK'', dc_client_id = ''app'', dc_scope = [''read''],
      dc_expires_at = 1600, dc_interval = 5, dc_approved = True, dc_denied = False, dc_subject = Some ''alice'',
      dc_last_polled_at = 0, dc_amr = [''pwd'']\<rparr>"

definition sample_server :: auth_server where
  "sample_server =
     \<lparr>as_issuer = ''https://as'',
      as_store = empty_store\<lparr>st_clients := [(''app'', sample_client)], st_codes := [(''code!'', sample_code)],
        st_refresh_tokens := [(''refresh!'', sample_refresh)], st_device_codes := [(''device!'', sample_device)]\<rparr>,
      as_now = 1010, as_rng = \<lparr>tape = \<lambda>i j. of_nat (i + j), drawn = 0\<rparr>,
      as_access_token_lifetime = 300, as_refresh_token_lifetime = 1209600, as_code_lifetime = 60,
      as_device_code_lifetime = 600, as_id_token_lifetime = 300, as_jwt_access_tokens = False,
      as_signing_key = KRsaPriv sample_key, as_signing_kid = ''as-sign-1'', as_jwks = jwkset_of [],
      as_dpop = \<lparr>dv_max_age = 60, dv_require_nonce = False, dv_seen = [], dv_nonce = None\<rparr>,
      as_supported_scopes = [''openid'', ''read'', ''write''], as_known_resources = [''https://api''], as_detail_types = []\<rparr>"

text \<open>Opaque tokens without an ID token are always issued.\<close>

lemma opaque_tokens_issued:
  assumes "\<not> as_jwt_access_tokens s" "\<not> gr_id_token gr \<or> ''openid'' \<notin> set (gr_scope gr) \<or> gr_subject gr = None"
  shows "\<exists>resp s'. issue_token_set c gr s = (Inr resp, s')"
proof -
  have draw: "\<exists>x s'. on_rng (draw_token n) s = (Inr x, s')" for n s
    by (simp add: on_rng_def zoom_def draw_token_def random_token_def random_bytes_def)
  have either: "\<exists>x s'. on_rng (token_or v n) s = (Inr x, s')" for v n s
    using draw [of n s] by (auto simp: token_or_def on_rng_def zoom_def split: option.split)
  from assms(1) draw [of 32 s] obtain av s1 where s1: "on_rng (draw_token 32) s = (Inr av, s1)" by blast
  from draw [of 16 s1] obtain jti s2 where s2: "on_rng (draw_token 16) s1 = (Inr jti, s2)" by blast
  have access: "\<exists>av s'. mint_access c gr s = (Inr av, s')"
    using assms(1) s1 s2 by (simp add: mint_access_def Let_def bindM_def on_store_def)
  have refresh: "\<exists>rv s'. mint_refresh c gr subject s = (Inr rv, s')" for subject s
  proof -
    from draw [of 32 s] obtain rv t1 where t1: "on_rng (draw_token 32) s = (Inr rv, t1)" by blast
    from either [of "gr_family gr" 16 t1] obtain f t2 where "on_rng (token_or (gr_family gr) 16) t1 = (Inr f, t2)" by blast
    with t1 show ?thesis by (simp add: mint_refresh_def Let_def bindM_def on_store_def)
  qed
  from access obtain av t where av: "mint_access c gr s = (Inr av, t)" by blast
  show ?thesis
  proof (cases "gr_subject gr")
    case None
    with av show ?thesis by (simp add: issue_token_set_def Let_def bindM_def)
  next
    case (Some subject)
    from refresh [of subject t] obtain rv u where "mint_refresh c gr subject t = (Inr rv, u)" by blast
    with av Some assms(2) show ?thesis by (auto simp: issue_token_set_def Let_def bindM_def)
  qed
qed

definition sample_code_params :: pydict where
  "sample_code_params = [(''grant_type'', PStr ''authorization_code''), (''client_id'', PStr ''app''), (''client_secret'', PStr ''s3cret''),
     (''code'', PStr ''code!''), (''redirect_uri'', PStr ''https://app/cb'')]"

lemma sample_code_exchange:
  "\<exists>resp s'. grant_authorization_code sample_client sample_code_params None None sample_server = (Inr resp, s')"
proof -
  let ?s = "sample_server\<lparr>as_store := spend_code ''code!'' sample_client sample_code (as_store sample_server)\<rparr>"
  have "grant_authorization_code sample_client sample_code_params None None sample_server
      = issue_token_set sample_client (code_grant sample_server sample_code None None) ?s"
    by (simp add: grant_authorization_code_def lookup_param_def bindM_def require_def dict_get_val_def sample_server_def
        sample_code_params_def sample_code_def sample_client_def check_code_redirect_def check_code_pkce_def ct_equals_val_def
        is_public_def on_code_def on_store_def log_event_def spend_code_def code_grant_def empty_store_def)
  also have "\<exists>resp s'. \<dots> = (Inr resp, s')"
    by (rule opaque_tokens_issued) (simp_all add: sample_server_def code_grant_def sample_code_def)
  finally show ?thesis .
qed

theorem code_exchange_is_checked_witness:
  "\<exists>resp s'. grant_authorization_code sample_client sample_code_params None None sample_server = (Inr resp, s')
     \<and> code_spent ''code!'' (as_store s')"
proof -
  from sample_code_exchange obtain resp s' where
    run: "grant_authorization_code sample_client sample_code_params None None sample_server = (Inr resp, s')" by blast
  from code_exchange_is_checked [OF run] run show ?thesis by (auto simp: sample_code_params_def)
qed

end
