(* ===== verification/AuthSafety.thy ===== *)
theory AuthSafety
  imports AuthProps
begin

text \<open>
  What stays true whatever happens next: the store is well formed, a redeemed code and a rotated
  refresh token are refused for good, and a reused refresh token takes its family with it.
\<close>

section \<open>Operations as runs\<close>

lemma server_run_one: "server_step s s' \<Longrightarrow> server_run s s'"
  by (rule server_run.step [OF server_run.refl])

lemma server_run_trans: "server_run s1 s2 \<Longrightarrow> server_run s s1 \<Longrightarrow> server_run s s2"
  by (induction rule: server_run.induct) (auto intro: server_run.step)

lemma on_dpop_run: "on_dpop m s = (r, s') \<Longrightarrow> \<exists>d. s' = s\<lparr>as_dpop := d\<rparr>"
  by (cases "m (as_dpop s)") (auto simp: on_dpop_def zoom_def)

lemma token_dpop_run: "token_dpop c pf url s = (Inr j, s') \<Longrightarrow> \<exists>d. s' = s\<lparr>as_dpop := d\<rparr>"
  by (cases pf) (auto simp: token_dpop_def bindM_Inr_iff require_Inr dest: on_dpop_run intro: exI [of _ "as_dpop s"])

text \<open>A token request that succeeds is a run up to the grant, and then the grant.\<close>

lemma token_endpoint_D:
  assumes "token_endpoint params basic pf url tls s = (Inr resp, s')"
  obtains c s1 j x where "server_run s s1" "pget params ''grant_type'' \<in> set (map PStr (cl_grant_types c))"
    "(if pget params ''grant_type'' = PStr ''authorization_code'' then grant_authorization_code c params j x
      else if pget params ''grant_type'' = PStr ''refresh_token'' then grant_refresh_token c params j x
      else if pget params ''grant_type'' = PStr ''client_credentials'' then grant_client_credentials c params j x
      else grant_device_code c params j x) s1 = (Inr resp, s')"
proof -
  from assms obtain c t where auth: "authenticate_client params basic tls s = (Inr c, t)"
    and rest: "bindM (require (pget params ''grant_type'' \<in> set (map PStr (cl_grant_types c))) UnauthorizedClient) (\<lambda>_.
      bindM (token_dpop c pf url) (\<lambda>cnf_jkt.
        let cnf_x5t = (if cl_tls_bound c then tls else None) in
        if pget params ''grant_type'' = PStr ''authorization_code'' then grant_authorization_code c params cnf_jkt cnf_x5t
        else if pget params ''grant_type'' = PStr ''refresh_token'' then grant_refresh_token c params cnf_jkt cnf_x5t
        else if pget params ''grant_type'' = PStr ''client_credentials'' then grant_client_credentials c params cnf_jkt cnf_x5t
        else if pget params ''grant_type'' = PStr DEVICE_GRANT then grant_device_code c params cnf_jkt cnf_x5t
        else fail UnsupportedGrantType)) t = (Inr resp, s')"
    unfolding token_endpoint_def Let_def by (auto simp: bindM_Inr_iff require_Inr)
  from rest obtain j u where dpop: "token_dpop c pf url t = (Inr j, u)"
    and allowed: "pget params ''grant_type'' \<in> set (map PStr (cl_grant_types c))"
    and granted: "(if pget params ''grant_type'' = PStr ''authorization_code''
        then grant_authorization_code c params j (if cl_tls_bound c then tls else None)
      else if pget params ''grant_type'' = PStr ''refresh_token''
        then grant_refresh_token c params j (if cl_tls_bound c then tls else None)
      else if pget params ''grant_type'' = PStr ''client_credentials''
        then grant_client_credentials c params j (if cl_tls_bound c then tls else None)
      else if pget params ''grant_type'' = PStr DEVICE_GRANT
        then grant_device_code c params j (if cl_tls_bound c then tls else None)
      else fail UnsupportedGrantType) u = (Inr resp, s')"
    unfolding bindM_Inr_iff require_Inr Let_def by blast
  from auth have "server_run s t" by (intro server_run_one) (rule server_step.authenticate)
  moreover from token_dpop_run [OF dpop] have "server_step t u" using server_step.dpop by auto
  ultimately have "server_run s u" by (rule server_run.step)
  moreover note allowed
  moreover from granted have "(if pget params ''grant_type'' = PStr ''authorization_code''
        then grant_authorization_code c params j (if cl_tls_bound c then tls else None)
      else if pget params ''grant_type'' = PStr ''refresh_token''
        then grant_refresh_token c params j (if cl_tls_bound c then tls else None)
      else if pget params ''grant_type'' = PStr ''client_credentials''
        then grant_client_credentials c params j (if cl_tls_bound c then tls else None)
      else grant_device_code c params j (if cl_tls_bound c then tls else None)) u = (Inr resp, s')"
    by (simp add: fail_Inr split: if_splits)
  ultimately show thesis by (rule that)
qed

section \<open>The store\<close>

text \<open>
  C25: Whatever sequence of calls an authorization server serves (registrations, authorization
  requests, token requests, device approvals, revocations, failed calls included), starting
  from an empty store every dictionary of the store keeps distinct keys and files every client,
  user, code, token and device under its own identifier.
\<close>

theorem store_stays_well_formed:
  assumes "server_run s s'" "as_store s = empty_store"
  shows "store_ok (as_store s')"
proof -
  have "holds {} store_ok s"
    using assms(2) by (simp add: holds_def store_ok_def empty_store_def keyed_def)
  with well_formed.run_preserves [OF assms(1)] show ?thesis by (simp add: holds_def)
qed

theorem store_stays_well_formed_witness:
  "\<exists>s' r. register_client sample_client (sample_server\<lparr>as_store := empty_store\<rparr>) = (Inr r, s') \<and> store_ok (as_store s')
     \<and> dkeys (st_clients (as_store s')) = [''app'']"
proof -
  let ?s = "sample_server\<lparr>as_store := empty_store\<rparr>"
  let ?t = "?s\<lparr>as_store := empty_store\<lparr>st_clients := [(''app'', sample_client)]\<rparr>\<rparr>"
  have "fold_res (\<lambda>uri _. assert_registrable_redirect_uri uri) (cl_redirect_uris sample_client) () = Inr ()"
    by code_simp
  then have run: "register_client sample_client ?s = (Inr sample_client, ?t)"
    by (simp add: register_client_def bindM_def require_def on_store_def sample_client_def empty_store_def)
  then have "server_run ?s ?t" by (intro server_run_one) (rule server_step.add_client)
  from store_stays_well_formed [OF this] run show ?thesis by simp
qed

section \<open>Codes\<close>

interpretation anything: stable_property A "\<lambda>_. True" for A
  by unfold_locales auto

text \<open>A redeemed code, with the client and the subject it was for.\<close>

definition redeemed :: "string \<Rightarrow> auth_code \<Rightarrow> store \<Rightarrow> bool" where
  "redeemed k code st \<longleftrightarrow> (\<exists>e. dget (st_codes st) k = Some e \<and> ac_used e
     \<and> ac_client_id e = ac_client_id code \<and> ac_subject e = ac_subject code)"

interpretation redeemed_code: stable_property "{k}" "redeemed k code" for k code
  by unfold_locales (auto simp: redeemed_def)

definition tokens_revoked :: "string \<Rightarrow> string \<Rightarrow> store \<Rightarrow> bool" where
  "tokens_revoked cid subject st \<longleftrightarrow>
     (\<forall>k a. dget (st_access_tokens st) k = Some a \<longrightarrow> at_client_id a = cid \<longrightarrow> at_subject a = Some subject \<longrightarrow> at_revoked a)
     \<and> (\<forall>k t. dget (st_refresh_tokens st) k = Some t \<longrightarrow> rt_client_id t = cid \<longrightarrow> rt_subject t = subject \<longrightarrow> rt_revoked t)"

lemma already_revoked:
  "a = a\<lparr>at_revoked := True\<rparr> \<longleftrightarrow> at_revoked a" "t = t\<lparr>rt_revoked := True\<rparr> \<longleftrightarrow> rt_revoked t"
  by (cases a, auto) (cases t, auto)

lemma revoke_code_tokens_D:
  "\<exists>s'. revoke_code_tokens code s = (Inr (), s') \<and> tokens_revoked (ac_client_id code) (ac_subject code) (as_store s')"
  by (auto simp: revoke_code_tokens_def bindM_def log_event_def on_store_def counting_def tokens_revoked_def
      revoke_access_for_family_subject_def already_revoked split: if_splits)

lemma replay_is_refused:
  assumes "dget (st_codes (as_store s)) k = Some e" "ac_used e" "pget params ''code'' = PStr k" "k \<noteq> []"
  shows "\<exists>s'. grant_authorization_code c params j x s = (Inl (OAuth InvalidGrant), s')
    \<and> tokens_revoked (ac_client_id e) (ac_subject e) (as_store s')"
  using assms revoke_code_tokens_D [of e s]
  by (auto simp: grant_authorization_code_def lookup_param_def bindM_def require_def dict_get_val_def fail_def)

text \<open>
  C4: A code is good for one exchange.  After it was exchanged, and after any further calls of
  the server (in which the random source does not draw that code again), another exchange of the same code (by any client, with any proof) is refused with
  \<open>invalid_grant\<close>, and revokes every access and refresh token of the client and the subject
  the code was for; a token request for it never succeeds either.
\<close>

theorem code_is_single_use:
  assumes "grant_authorization_code c params j x s = (Inr resp, s1)" "pget params ''code'' = PStr k"
    and "never_again {k} (as_rng s1)" "server_run s1 s2"
    and "pget params' ''code'' = PStr k"
  shows "\<exists>code s3. dget (st_codes (as_store s)) k = Some code
    \<and> grant_authorization_code c' params' j' x' s2 = (Inl (OAuth InvalidGrant), s3)
    \<and> tokens_revoked (ac_client_id code) (ac_subject code) (as_store s3)
    \<and> (pget params' ''grant_type'' = PStr ''authorization_code'' \<longrightarrow>
         fst (token_endpoint params' basic pf url tls s2) \<notin> range Inr)"
proof -
  from assms(1) obtain k' code where d: "pget params ''code'' = PStr k'" "dget (st_codes (as_store s)) k' = Some code"
    "issue_token_set c (code_grant s code j x) (s\<lparr>as_store := spend_code k' c code (as_store s)\<rparr>) = (Inr resp, s1)"
    "k' \<noteq> []"
    by (rule grant_code_D)
  have k: "k' = k" using d(1) assms(2) by simp
  have "redeemed k code (as_store s1)"
    using issue_token_set_D [OF d(3)] d(2) unfolding k minted_def
    by (auto simp: redeemed_def spend_code_def store_log_def with_access_def with_refresh_def split: if_splits)
  with assms(3) have now: "holds {k} (redeemed k code) s1" by (simp add: holds_def)
  have later: "\<exists>e. dget (st_codes (as_store s')) k = Some e \<and> ac_used e \<and> ac_client_id e = ac_client_id code
    \<and> ac_subject e = ac_subject code" if "server_run s1 s'" for s'
    using redeemed_code.run_preserves [OF that now] by (auto simp: holds_def redeemed_def)
  have "k \<noteq> []" using d(4) k by simp
  have refused: "\<exists>s3. grant_authorization_code c' params' j' x' s' = (Inl (OAuth InvalidGrant), s3)
    \<and> tokens_revoked (ac_client_id code) (ac_subject code) (as_store s3)" if "server_run s1 s'" for c' j' x' s'
    using later [OF that] replay_is_refused [OF _ _ assms(5) \<open>k \<noteq> []\<close>] by metis
  have "fst (token_endpoint params' basic pf url tls s2) \<notin> range Inr"
    if gt: "pget params' ''grant_type'' = PStr ''authorization_code''"
  proof
    assume "fst (token_endpoint params' basic pf url tls s2) \<in> range Inr"
    then obtain d s3 where "token_endpoint params' basic pf url tls s2 = (Inr d, s3)" by (metis imageE prod.collapse)
    then obtain c' s' j' x' where "server_run s2 s'" "grant_authorization_code c' params' j' x' s' = (Inr d, s3)"
      by (rule token_endpoint_D) (use gt in auto)
    with refused [OF server_run_trans [OF _ assms(4)], of s' c' j' x'] show False by auto
  qed
  with refused [OF assms(4), of c' j' x'] d(2) k show ?thesis by auto
qed

section \<open>Refresh tokens\<close>

lemma grant_refresh_D:
  assumes "grant_refresh_token c params j x s = (Inr resp, s')"
  obtains k t scope where "pget params ''refresh_token'' = PStr k" "k \<noteq> []" "dget (st_refresh_tokens (as_store s)) k = Some t"
    "\<not> rt_used t" "\<not> rt_revoked t" "rt_client_id t = cl_id c" "as_now s \<le> rt_expires_at t"
    "truthy_str (rt_jkt t) \<longrightarrow> rt_jkt t = j" "truthy_str (rt_x5t t) \<longrightarrow> rt_x5t t = x" "set scope \<subseteq> set (rt_scope t)"
    "(if cl_rotate c then rotate_refresh c k (refresh_grant t scope j x (as_known_resources s) True)
      else issue_token_set c (refresh_grant t scope j x (as_known_resources s) False)) s = (Inr resp, s')"
proof -
  from assms obtain kv s0 where look: "lookup_param params ''refresh_token'' st_refresh_tokens s = (Inr kv, s0)"
    and rest: "(case kv of (key, t) \<Rightarrow>
       if rt_used t \<or> rt_revoked t then bindM (revoke_family_of t) (\<lambda>_. fail InvalidGrant)
       else bindM (require (rt_client_id t = cl_id c) InvalidGrant) (\<lambda>_.
         bindM (gets as_now) (\<lambda>now.
           bindM (require (\<not> now > rt_expires_at t) InvalidGrant) (\<lambda>_.
             bindM (require (\<not> (truthy_str (rt_jkt t) \<and> rt_jkt t \<noteq> j)) InvalidDPoPProof) (\<lambda>_.
               bindM (require (\<not> (truthy_str (rt_x5t t) \<and> rt_x5t t \<noteq> x)) InvalidGrant) (\<lambda>_.
                 bindM (lift (py (words_of (pget params ''scope'')))) (\<lambda>requested.
                   bindM (require (set requested \<subseteq> set (rt_scope t)) InvalidScope) (\<lambda>_.
                     let scope = (if requested \<noteq> [] then requested else rt_scope t) in
                     bindM (gets as_known_resources) (\<lambda>resources.
                       if \<not> cl_rotate c then issue_token_set c (refresh_grant t scope j x resources False)
                       else rotate_refresh c key (refresh_grant t scope j x resources True))))))))))
       s0 = (Inr resp, s')"
    unfolding grant_refresh_token_def by (rule bindM_InrE)
  obtain k t where kv: "kv = (k, t)" by fastforce
  from lookup_param_D [OF look] kv have look': "s0 = s" "pget params ''refresh_token'' = PStr k" "k \<noteq> []"
    "dget (st_refresh_tokens (as_store s)) k = Some t" by auto
  note rest = rest [unfolded kv prod.case look'(1)]
  have unused: "\<not> rt_used t" "\<not> rt_revoked t" using rest by (auto simp: bindM_Inr_iff fail_Inr)
  from rest unused obtain requested where
    checks: "rt_client_id t = cl_id c" "as_now s \<le> rt_expires_at t" "truthy_str (rt_jkt t) \<longrightarrow> rt_jkt t = j"
      "truthy_str (rt_x5t t) \<longrightarrow> rt_x5t t = x" "set requested \<subseteq> set (rt_scope t)"
    and go: "(let scope = (if requested \<noteq> [] then requested else rt_scope t) in
        if \<not> cl_rotate c then issue_token_set c (refresh_grant t scope j x (as_known_resources s) False)
        else rotate_refresh c k (refresh_grant t scope j x (as_known_resources s) True)) s = (Inr resp, s')"
    by (auto simp: bindM_Inr_iff require_Inr Let_def not_less)
  show thesis
    by (rule that [of k t "if requested \<noteq> [] then requested else rt_scope t"])
       (use look' unused checks go in \<open>auto simp: Let_def split: if_splits\<close>)
qed

text \<open>The state in which a rotating request mints its tokens: the old token is marked.\<close>

definition use_refresh_token :: "string \<Rightarrow> auth_server \<Rightarrow> auth_server" where
  "use_refresh_token k s =
     s\<lparr>as_store := as_store s\<lparr>st_refresh_tokens := dupd k (\<lambda>t. t\<lparr>rt_used := True\<rparr>) (st_refresh_tokens (as_store s))\<rparr>\<rparr>"

lemma rotate_D:
  assumes "rotate_refresh c k gr s = (Inr resp, s')"
  obtains s1 fresh where "issue_token_set c gr (use_refresh_token k s) = (Inr resp, s1)" "dget resp ''refresh_token'' = Some fresh"
    "s' = (if fresh = PStr k then s1 else s1\<lparr>as_store := as_store s1\<lparr>st_refresh_tokens :=
       dupd k (\<lambda>t. t\<lparr>rt_rotated_to := as_str fresh\<rparr>) (st_refresh_tokens (as_store s1))\<rparr>\<rparr>)"
proof -
  from assms obtain s1 where s1: "issue_token_set c gr (use_refresh_token k s) = (Inr resp, s1)"
    and rest: "bindM (lift (py (dict_item resp ''refresh_token''))) (\<lambda>fresh.
           bindM (if fresh = PStr k then ret () else on_refresh k (\<lambda>t. t\<lparr>rt_rotated_to := as_str fresh\<rparr>)) (\<lambda>_.
             ret resp)) s1 = (Inr resp, s')"
    unfolding rotate_refresh_def
    by (elim bindM_InrE) (auto simp: bindM_Inr_iff on_refresh_def on_store_def use_refresh_token_def)
  from rest obtain fresh where "dget resp ''refresh_token'' = Some fresh"
    "s' = (if fresh = PStr k then s1 else s1\<lparr>as_store := as_store s1\<lparr>st_refresh_tokens :=
       dupd k (\<lambda>t. t\<lparr>rt_rotated_to := as_str fresh\<rparr>) (st_refresh_tokens (as_store s1))\<rparr>\<rparr>)"
    by (auto simp: bindM_Inr_iff dict_item_def on_refresh_def on_store_def split: option.splits if_splits)
  with s1 show thesis by (rule that)
qed

text \<open>The token that a refresh token was rotated to.\<close>

definition succeeds :: "refresh_token \<Rightarrow> refresh_token \<Rightarrow> bool" where
  "succeeds t t' \<longleftrightarrow>
     rt_client_id t' = rt_client_id t \<and> rt_subject t' = rt_subject t \<and> set (rt_scope t') \<subseteq> set (rt_scope t)
     \<and> rt_details t' = rt_details t \<and> (rt_family t \<noteq> [] \<longrightarrow> rt_family t' = rt_family t)
     \<and> (truthy_str (rt_jkt t) \<longrightarrow> rt_jkt t' = rt_jkt t) \<and> (truthy_str (rt_x5t t) \<longrightarrow> rt_x5t t' = rt_x5t t)
     \<and> \<not> rt_used t' \<and> \<not> rt_revoked t'"

lemma reuse_is_refused:
  assumes "dget (st_refresh_tokens (as_store s)) k = Some t" "rt_used t \<or> rt_revoked t"
    "pget params ''refresh_token'' = PStr k" "k \<noteq> []"
  shows "\<exists>s'. grant_refresh_token c params j x s = (Inl (OAuth InvalidGrant), s') \<and> family_dead (rt_family t) (as_store s')
    \<and> (\<forall>v a. dget (st_access_tokens (as_store s')) v = Some a \<longrightarrow> at_client_id a = rt_client_id t
         \<longrightarrow> at_subject a = Some (rt_subject t) \<longrightarrow> at_revoked a)"
proof -
  obtain s' where run: "revoke_family_of t s = (Inr (), s')"
    and refresh: "st_refresh_tokens (as_store s') = dmap (\<lambda>u. if rt_family u = rt_family t \<and> \<not> rt_revoked u
      then u\<lparr>rt_revoked := True\<rparr> else u) (st_refresh_tokens (as_store s))"
    and access: "st_access_tokens (as_store s') = dmap (\<lambda>a. if at_client_id a = rt_client_id t
      \<and> at_subject a = Some (rt_subject t) \<and> \<not> at_revoked a then a\<lparr>at_revoked := True\<rparr> else a) (st_access_tokens (as_store s))"
    by (simp add: revoke_family_of_def bindM_def counting_def log_event_def on_store_def revoke_refresh_family_def
        revoke_access_for_family_subject_def store_log_def)
  have "family_dead (rt_family t) (as_store s')"
    unfolding family_dead_def refresh by (auto simp: already_revoked split: if_splits)
  moreover have "\<forall>v a. dget (st_access_tokens (as_store s')) v = Some a \<longrightarrow> at_client_id a = rt_client_id t
         \<longrightarrow> at_subject a = Some (rt_subject t) \<longrightarrow> at_revoked a"
    unfolding access by (auto simp: already_revoked split: if_splits)
  moreover have "grant_refresh_token c params j x s = (Inl (OAuth InvalidGrant), s')"
    using assms run by (simp add: grant_refresh_token_def lookup_param_def bindM_def require_def dict_get_val_def fail_def)
  ultimately show ?thesis by blast
qed

text \<open>What a rotation leaves: the fresh token, and the old one spent and pointing to it.\<close>

lemma rotation_D:
  assumes run: "rotate_refresh c k (refresh_grant t scope j x rs True) s = (Inr resp, s1)"
    and t: "dget (st_refresh_tokens (as_store s)) k = Some t" "\<not> rt_revoked t" and "never_again {k} (as_rng s)"
  obtains rv t' where "pget resp ''refresh_token'' = PStr rv" "dget (st_refresh_tokens (as_store s1)) rv = Some t'"
    "refresh_for (use_refresh_token k s) c (refresh_grant t scope j x rs True) rv t'"
    "\<exists>t0. dget (st_refresh_tokens (as_store s1)) k = Some t0 \<and> rt_used t0 \<and> rt_rotated_to t0 = Some rv"
    "holds {k} (refresh_spent k) s1"
proof -
  let ?gr = "refresh_grant t scope j x rs True"
  from run obtain u fresh where
    u: "issue_token_set c ?gr (use_refresh_token k s) = (Inr resp, u)" "dget resp ''refresh_token'' = Some fresh"
    "s1 = (if fresh = PStr k then u else u\<lparr>as_store := as_store u\<lparr>st_refresh_tokens :=
       dupd k (\<lambda>t. t\<lparr>rt_rotated_to := as_str fresh\<rparr>) (st_refresh_tokens (as_store u))\<rparr>\<rparr>)"
    by (auto elim: rotate_D)
  from issue_token_set_D [OF u(1)] obtain av a rv t' where
    rv: "pget resp ''refresh_token'' = PStr rv" "refresh_for (use_refresh_token k s) c ?gr rv t'"
    "as_store u = with_refresh rv t' (with_access av a (as_store (use_refresh_token k s)))"
    by (auto simp: minted_def refresh_grant_def)
  have fresh: "fresh = PStr rv" using rv(1) u(2) by (simp add: pget_def)
  have "parent_alive ?gr (as_store (use_refresh_token k s))"
    using t by (auto simp: parent_alive_def refresh_grant_def use_refresh_token_def intro!: exI [of _ k])
  moreover have "refresh_spent k (as_store (use_refresh_token k s))"
    using t by (simp add: refresh_spent_def use_refresh_token_def)
  ultimately have start: "holds {k} (\<lambda>st. refresh_spent k st \<and> parent_alive ?gr st) (use_refresh_token k s)"
    using assms(4) by (simp add: holds_def use_refresh_token_def)
  from tripleD [OF spent_refresh.stable_token_set [of k ?gr c, unfolded spent_refresh.knowing_def] u(1) start]
  have "holds {k} (refresh_spent k) u" by simp
  moreover from this have other: "rv \<noteq> k"
    using rv(2) unfolding rv(3) holds_def by (auto simp: refresh_spent_def with_refresh_def refresh_for_def)
  ultimately have "holds {k} (refresh_spent k) s1"
    using fresh u(3) by (auto simp: holds_def refresh_spent_def)
  moreover have "dget (st_refresh_tokens (as_store s1)) rv = Some t'"
    using fresh other unfolding u(3) rv(3) by (simp add: with_refresh_def)
  moreover have "\<exists>t0. dget (st_refresh_tokens (as_store s1)) k = Some t0 \<and> rt_used t0 \<and> rt_rotated_to t0 = Some rv"
    using fresh other t unfolding u(3) rv(3) by (simp add: with_refresh_def with_access_def use_refresh_token_def)
  ultimately show thesis using that rv(1,2) by blast
qed

text \<open>
  C24: Rotation.  A refresh request succeeds only for a stored, unspent, unexpired token of the
  client and with the key the token is bound to.  Where the client rotates, the answer carries
  a new token that continues the old one (same family, subject, client, bindings, and at most
  its scope), the old token is linked to it, and it is refused from then on, whatever the
  server does in between (its random source not drawing the old token again).
\<close>

theorem refresh_token_rotates:
  assumes "grant_refresh_token c params j x s = (Inr resp, s1)" "cl_rotate c" "pget params ''refresh_token'' = PStr k"
    and "never_again {k} (as_rng s)" "server_run s1 s2" "pget params' ''refresh_token'' = PStr k"
  shows "\<exists>t fresh t' s3. dget (st_refresh_tokens (as_store s)) k = Some t \<and> \<not> rt_used t \<and> \<not> rt_revoked t
    \<and> rt_client_id t = cl_id c \<and> as_now s \<le> rt_expires_at t \<and> (truthy_str (rt_jkt t) \<longrightarrow> rt_jkt t = j)
    \<and> pget resp ''refresh_token'' = PStr fresh \<and> dget (st_refresh_tokens (as_store s1)) fresh = Some t' \<and> succeeds t t'
    \<and> (\<exists>t0. dget (st_refresh_tokens (as_store s1)) k = Some t0 \<and> rt_used t0 \<and> rt_rotated_to t0 = Some fresh)
    \<and> grant_refresh_token c' params' j' x' s2 = (Inl (OAuth InvalidGrant), s3)"
proof -
  from assms(1) obtain k' t scope where d: "pget params ''refresh_token'' = PStr k'" "k' \<noteq> []"
    "dget (st_refresh_tokens (as_store s)) k' = Some t" "\<not> rt_used t" "\<not> rt_revoked t" "rt_client_id t = cl_id c"
    "as_now s \<le> rt_expires_at t" "truthy_str (rt_jkt t) \<longrightarrow> rt_jkt t = j" "truthy_str (rt_x5t t) \<longrightarrow> rt_x5t t = x"
    "set scope \<subseteq> set (rt_scope t)"
    "(if cl_rotate c then rotate_refresh c k' (refresh_grant t scope j x (as_known_resources s) True)
      else issue_token_set c (refresh_grant t scope j x (as_known_resources s) False)) s = (Inr resp, s1)"
    by (rule grant_refresh_D)
  have k': "k' = k" using d(1) assms(3) by simp
  note d = d [unfolded k']
  from d(11) assms(2) have "rotate_refresh c k (refresh_grant t scope j x (as_known_resources s) True) s = (Inr resp, s1)" by simp
  from rotation_D [OF this d(3,5) assms(4)] obtain rv t' where
    rv: "pget resp ''refresh_token'' = PStr rv" "dget (st_refresh_tokens (as_store s1)) rv = Some t'"
    "refresh_for (use_refresh_token k s) c (refresh_grant t scope j x (as_known_resources s) True) rv t'"
    "\<exists>t0. dget (st_refresh_tokens (as_store s1)) k = Some t0 \<and> rt_used t0 \<and> rt_rotated_to t0 = Some rv"
    and spent: "holds {k} (refresh_spent k) s1" .
  have "succeeds t t'"
    using rv(3) d(5-10) by (auto simp: succeeds_def refresh_for_def refresh_grant_def str_or_def truthy_str_def split: option.splits)
  moreover from spent_refresh.run_preserves [OF assms(5) spent]
  obtain t2 where "dget (st_refresh_tokens (as_store s2)) k = Some t2" "rt_used t2 \<or> rt_revoked t2"
    by (auto simp: holds_def refresh_spent_def)
  from reuse_is_refused [OF this assms(6) d(2), of c' j' x']
  obtain s3 where "grant_refresh_token c' params' j' x' s2 = (Inl (OAuth InvalidGrant), s3)" by blast
  ultimately show ?thesis using d rv(1,2,4) by blast
qed

text \<open>
  C5: Reuse detection.  A refresh token that was used or revoked is refused, whoever presents
  it; the request revokes its whole family and the access tokens of its client and subject, and
  from then on every token of that family is refused, as long as the random source does not draw the
  name of the family again.
\<close>

theorem refresh_reuse_ends_the_family:
  assumes "dget (st_refresh_tokens (as_store s)) k = Some t" "rt_used t \<or> rt_revoked t"
    and "pget params ''refresh_token'' = PStr k" "k \<noteq> []" "never_again {rt_family t} (as_rng s)"
  shows "\<exists>s1. grant_refresh_token c params j x s = (Inl (OAuth InvalidGrant), s1) \<and> family_dead (rt_family t) (as_store s1)
    \<and> (\<forall>v a. dget (st_access_tokens (as_store s1)) v = Some a \<longrightarrow> at_client_id a = rt_client_id t
         \<longrightarrow> at_subject a = Some (rt_subject t) \<longrightarrow> at_revoked a)
    \<and> (\<forall>s2 c' params' j' x' k' t'. server_run s1 s2 \<longrightarrow> pget params' ''refresh_token'' = PStr k' \<longrightarrow> k' \<noteq> [] \<longrightarrow>
         dget (st_refresh_tokens (as_store s2)) k' = Some t' \<longrightarrow> rt_family t' = rt_family t \<longrightarrow>
         (\<exists>s3. grant_refresh_token c' params' j' x' s2 = (Inl (OAuth InvalidGrant), s3)))"
proof -
  from reuse_is_refused [OF assms(1-4), of c j x] obtain s1 where
    s1: "grant_refresh_token c params j x s = (Inl (OAuth InvalidGrant), s1)" "family_dead (rt_family t) (as_store s1)"
    and access: "\<forall>v a. dget (st_access_tokens (as_store s1)) v = Some a \<longrightarrow> at_client_id a = rt_client_id t
         \<longrightarrow> at_subject a = Some (rt_subject t) \<longrightarrow> at_revoked a"
    by blast
  have "holds {rt_family t} (\<lambda>_. True) s" using assms(5) by (simp add: holds_def)
  then have "never_again {rt_family t} (as_rng s1)"
    using anything.stableD [OF anything.stable_grant_refresh s1(1)] by (simp add: holds_def)
  with s1(2) have dead: "holds {rt_family t} (family_dead (rt_family t)) s1" by (simp add: holds_def)
  have "\<exists>s3. grant_refresh_token c' params' j' x' s2 = (Inl (OAuth InvalidGrant), s3)"
    if "server_run s1 s2" "pget params' ''refresh_token'' = PStr k'" "k' \<noteq> []"
      "dget (st_refresh_tokens (as_store s2)) k' = Some t'" "rt_family t' = rt_family t" for s2 c' params' j' x' k' t'
  proof -
    from dead_family.run_preserves [OF that(1) dead] that(4,5) have "rt_revoked t'"
      by (auto simp: holds_def family_dead_def)
    with reuse_is_refused [OF that(4) _ that(2,3), of c' j' x'] show ?thesis by blast
  qed
  with s1 access show ?thesis by blast
qed

section \<open>On the sample server\<close>

theorem code_is_single_use_witness:
  "\<exists>resp s1 s3. grant_authorization_code sample_client sample_code_params None None sample_server = (Inr resp, s1)
     \<and> grant_authorization_code sample_client sample_code_params None None s1 = (Inl (OAuth InvalidGrant), s3)
     \<and> tokens_revoked ''app'' ''alice'' (as_store s3)"
proof -
  from sample_code_exchange obtain resp s1 where
    run: "grant_authorization_code sample_client sample_code_params None None sample_server = (Inr resp, s1)" by blast
  have code: "pget sample_code_params ''code'' = PStr ''code!''" by (simp add: sample_code_params_def)
  have foreign: "never_again {''code!''} (as_rng s1)" by (rule never_again_foreign) code_simp
  have "dget (st_codes (as_store sample_server)) ''code!'' = Some sample_code" by (simp add: sample_server_def)
  with code_is_single_use [OF run code foreign server_run.refl code, of sample_client None None None None None None]
    run show ?thesis
    by (auto simp: sample_code_def)
qed

definition sample_refresh_params :: pydict where
  "sample_refresh_params = [(''grant_type'', PStr ''refresh_token''), (''client_id'', PStr ''app''),
     (''client_secret'', PStr ''s3cret''), (''refresh_token'', PStr ''refresh!''), (''scope'', PStr ''read'')]"

lemma sample_rotation:
  "\<exists>resp s1. grant_refresh_token sample_client sample_refresh_params None None sample_server = (Inr resp, s1)"
proof -
  let ?gr = "refresh_grant sample_refresh [''read''] None None [''https://api''] True"
  have words: "words_of (PStr ''read'') = Inr [''read'']" by code_simp
  have "grant_refresh_token sample_client sample_refresh_params None None sample_server
      = rotate_refresh sample_client ''refresh!'' ?gr sample_server"
    using words
    by (simp add: grant_refresh_token_def lookup_param_def bindM_def require_def dict_get_val_def sample_server_def
        sample_refresh_params_def sample_refresh_def sample_client_def truthy_str_def empty_store_def)
  moreover obtain resp u where u: "issue_token_set sample_client ?gr (use_refresh_token ''refresh!'' sample_server) = (Inr resp, u)"
    using opaque_tokens_issued [of "use_refresh_token ''refresh!'' sample_server" ?gr sample_client]
    by (auto simp: sample_server_def refresh_grant_def use_refresh_token_def)
  moreover from issue_token_set_D [OF u] obtain rv where "dget resp ''refresh_token'' = Some (PStr rv)"
    by (auto simp: minted_def refresh_grant_def pget_def split: option.splits)
  ultimately show ?thesis
    by (auto simp: rotate_refresh_def on_refresh_def on_store_def use_refresh_token_def bindM_def dict_item_def)
qed

theorem refresh_token_rotates_witness:
  "\<exists>resp s1 s3. grant_refresh_token sample_client sample_refresh_params None None sample_server = (Inr resp, s1)
     \<and> grant_refresh_token sample_client sample_refresh_params None None s1 = (Inl (OAuth InvalidGrant), s3)"
proof -
  from sample_rotation obtain resp s1 where
    run: "grant_refresh_token sample_client sample_refresh_params None None sample_server = (Inr resp, s1)" by blast
  have param: "pget sample_refresh_params ''refresh_token'' = PStr ''refresh!''" by (simp add: sample_refresh_params_def)
  have foreign: "never_again {''refresh!''} (as_rng sample_server)" by (rule never_again_foreign) code_simp
  have rot: "cl_rotate sample_client" by (simp add: sample_client_def)
  from refresh_token_rotates [OF run rot param foreign server_run.refl param, of sample_client None None] run
  show ?thesis by blast
qed

definition reused_server :: auth_server where
  "reused_server = sample_server\<lparr>as_store := (as_store sample_server)
     \<lparr>st_refresh_tokens := [(''refresh!'', sample_refresh\<lparr>rt_used := True\<rparr>)]\<rparr>\<rparr>"

theorem refresh_reuse_ends_the_family_witness:
  "\<exists>s1. grant_refresh_token sample_client sample_refresh_params None None reused_server = (Inl (OAuth InvalidGrant), s1)
     \<and> family_dead ''family!'' (as_store s1)"
proof -
  let ?t = "sample_refresh\<lparr>rt_used := True\<rparr>"
  have stored: "dget (st_refresh_tokens (as_store reused_server)) ''refresh!'' = Some ?t"
    by (simp add: reused_server_def)
  have used: "rt_used ?t \<or> rt_revoked ?t" by simp
  have param: "pget sample_refresh_params ''refresh_token'' = PStr ''refresh!''" by (simp add: sample_refresh_params_def)
  have foreign: "never_again {rt_family ?t} (as_rng reused_server)" by (rule never_again_foreign) code_simp
  from refresh_reuse_ends_the_family [OF stored used param _ foreign, of sample_client None None]
  show ?thesis by (auto simp: sample_refresh_def)
qed

end
