(* ===== verification/AuthFlow.thy ===== *)
theory AuthFlow
  imports AuthSafety
begin

text \<open>
  The endpoints of the authorization server: what an accepted authorization request and an
  authenticated client have been checked for, the code flow from the request to an active
  token, the device flow, and what introspection and revocation tell about a token.
\<close>

section \<open>The authorization request\<close>

lemma resolve_redirect_D:
  assumes "resolve_redirect s params = Inr (c, u)"
  shows "\<exists>cid. pget params ''client_id'' = PStr cid \<and> cid \<noteq> [] \<and> dget (st_clients (as_store s)) cid = Some c
    \<and> u \<in> set (cl_redirect_uris c) \<and> (truthy (pget params ''redirect_uri'') \<longrightarrow> pget params ''redirect_uri'' = PStr u)"
proof -
  have t: "truthy (pget params ''client_id'')" using assms by (auto simp: resolve_redirect_def split: if_splits)
  with assms obtain found where f: "dict_get_val (st_clients (as_store s)) (pget params ''client_id'') = Inr found"
    and go: "(case found of
          None \<Rightarrow> Inl (OAuth InvalidClient)
        | Some c \<Rightarrow>
            bind_res
              (if truthy (pget params ''redirect_uri'') then Inr (pget params ''redirect_uri'')
               else (case cl_redirect_uris c of [uri] \<Rightarrow> Inr (PStr uri) | _ \<Rightarrow> Inl (OAuth InvalidRequest)))
              (\<lambda>uri. if cl_redirect_uris c = [] then Inl (OAuth InvalidRequest)
                 else (case uri of
                     PStr u \<Rightarrow>
                       (if list_ex (constant_time_equals u) (cl_redirect_uris c) then Inr (c, u)
                        else Inl (OAuth InvalidRequest))
                   | _ \<Rightarrow> Inl (Py TypeError)))) = Inr (c, u)"
    unfolding resolve_redirect_def by (auto elim!: bind_res_InrE)
  from go obtain d where "found = Some d" by (cases found) auto
  note d = f [unfolded this]
  from go \<open>found = Some d\<close> obtain uri where uri: "(if truthy (pget params ''redirect_uri'') then Inr (pget params ''redirect_uri'')
               else (case cl_redirect_uris d of [uri] \<Rightarrow> Inr (PStr uri) | _ \<Rightarrow> Inl (OAuth InvalidRequest))) = Inr uri"
    and rest: "(if cl_redirect_uris d = [] then Inl (OAuth InvalidRequest)
                 else (case uri of
                     PStr u \<Rightarrow>
                       (if list_ex (constant_time_equals u) (cl_redirect_uris d) then Inr (d, u)
                        else Inl (OAuth InvalidRequest))
                   | _ \<Rightarrow> Inl (Py TypeError))) = Inr (c, u)"
    by (auto elim!: bind_res_InrE)
  from rest have "uri = PStr u" "d = c" "u \<in> set (cl_redirect_uris c)"
    by (auto simp: list_ex_iff split: if_splits pyval.splits)
  with d t uri show ?thesis by (auto simp: dict_get_val_def split: pyval.splits if_splits)
qed

lemma validated_request_D:
  assumes "validate_authorization_request s params = Inr v"
  shows "(\<exists>cid. pget params ''client_id'' = PStr cid \<and> dget (st_clients (as_store s)) cid = Some (v_client v))
    \<and> v_redirect_uri v \<in> set (cl_redirect_uris (v_client v))
    \<and> (truthy (pget params ''redirect_uri'') \<longrightarrow> pget params ''redirect_uri'' = PStr (v_redirect_uri v))
    \<and> pget params ''response_type'' = PStr ''code'' \<and> ''code'' \<in> set (cl_response_types (v_client v))
    \<and> words_of (pget params ''scope'') = Inr (v_scope v) \<and> set (v_scope v) \<subseteq> set (as_supported_scopes s)
    \<and> (cl_scopes (v_client v) \<noteq> [] \<longrightarrow> set (v_scope v) \<subseteq> set (cl_scopes (v_client v)))
    \<and> (cl_require_pkce (v_client v) \<or> is_public (v_client v) \<longrightarrow> truthy (v_challenge v) \<and> v_method v = PStr ''S256'')
    \<and> v_challenge v = pget params ''code_challenge'' \<and> v_state v = pget params ''state'' \<and> truthy (v_state v)
    \<and> v_method v = (if truthy (pget params ''code_challenge'')
          then pget_or params ''code_challenge_method'' (PStr ''plain'') else PStr ''S256'')
    \<and> v_nonce v = pget params ''nonce'' \<and> set (v_resource v) \<subseteq> set (as_known_resources s)
    \<and> v_dpop_jkt v = pget params ''dpop_jkt''"
proof -
  from assms obtain c u where r: "resolve_redirect s params = Inr (c, u)"
    unfolding validate_authorization_request_def bind_res_Inr_iff by auto
  note rest = assms [unfolded validate_authorization_request_def r bind_res_simps prod.case Let_def]
  have rt: "pget_or params ''response_type'' (PStr []) = PStr ''code''" "''code'' \<in> set (cl_response_types c)"
    using rest by (auto split: if_splits)
  then have rt': "pget params ''response_type'' = PStr ''code''" by (auto simp: pget_or_def pget_def split: option.splits)
  note rest = rest [unfolded rt(1)]
  from rest rt(2) obtain scope where sc: "check_request_scope s c (pget params ''scope'') = Inr scope"
    by (auto simp: bind_res_Inr_iff split: if_splits)
  then have sc': "words_of (pget params ''scope'') = Inr scope" "set scope \<subseteq> set (as_supported_scopes s)"
    "cl_scopes c \<noteq> [] \<longrightarrow> set scope \<subseteq> set (cl_scopes c)"
    by (auto simp: check_request_scope_def bind_res_Inr_iff split: if_splits)
  from rest rt(2) sc have v: "v_client v = c" "v_redirect_uri v = u" "v_scope v = scope"
    "cl_require_pkce c \<or> is_public c \<longrightarrow> truthy (pget params ''code_challenge'')"
    "cl_require_pkce c \<or> is_public c \<longrightarrow> pget_or params ''code_challenge_method'' (PStr ''plain'') = PStr ''S256''"
    "truthy (pget params ''state'')" "v_state v = pget params ''state''" "v_nonce v = pget params ''nonce''"
    "v_challenge v = pget params ''code_challenge''" "set (v_resource v) \<subseteq> set (as_known_resources s)"
    "v_method v = (if truthy (pget params ''code_challenge'')
       then pget_or params ''code_challenge_method'' (PStr ''plain'') else PStr ''S256'')"
    "v_dpop_jkt v = pget params ''dpop_jkt''"
    by (auto simp: bind_res_Inr_iff split: if_splits)
  with resolve_redirect_D [OF r] rt' rt(2) sc' show ?thesis by auto
qed

text \<open>
  An authorization request is accepted only for a registered client and one of its own
  redirect URIs, character for character; for the code response type, scopes the server supports
  and the client may ask for, a state, and known resources; and a public client, or one that
  must use PKCE, has to send an S256 challenge.  What the request says is what is recorded.
\<close>

theorem authorization_request_is_checked:
  assumes "validate_authorization_request s params = Inr v"
  shows "(\<exists>cid. pget params ''client_id'' = PStr cid \<and> dget (st_clients (as_store s)) cid = Some (v_client v))
    \<and> v_redirect_uri v \<in> set (cl_redirect_uris (v_client v))
    \<and> (truthy (pget params ''redirect_uri'') \<longrightarrow> pget params ''redirect_uri'' = PStr (v_redirect_uri v))
    \<and> pget params ''response_type'' = PStr ''code'' \<and> ''code'' \<in> set (cl_response_types (v_client v))
    \<and> words_of (pget params ''scope'') = Inr (v_scope v) \<and> set (v_scope v) \<subseteq> set (as_supported_scopes s)
    \<and> (cl_scopes (v_client v) \<noteq> [] \<longrightarrow> set (v_scope v) \<subseteq> set (cl_scopes (v_client v)))
    \<and> (cl_require_pkce (v_client v) \<or> is_public (v_client v) \<longrightarrow> truthy (v_challenge v) \<and> v_method v = PStr ''S256'')
    \<and> v_challenge v = pget params ''code_challenge'' \<and> v_state v = pget params ''state'' \<and> truthy (v_state v)
    \<and> v_nonce v = pget params ''nonce'' \<and> set (v_resource v) \<subseteq> set (as_known_resources s)"
  using validated_request_D [OF assms] by blast

definition sample_auth_params :: pydict where
  "sample_auth_params = [(''client_id'', PStr ''app''), (''redirect_uri'', PStr ''https://app/cb''), (''response_type'', PStr ''code''),
     (''scope'', PStr ''read write''), (''state'', PStr ''st''), (''code_challenge'', PStr ''chal''),
     (''code_challenge_method'', PStr ''S256'')]"

definition sample_validated :: validated where
  "sample_validated =
     \<lparr>v_client = sample_client, v_redirect_uri = ''https://app/cb'', v_scope = [''read'', ''write''], v_state = PStr ''st'',
      v_nonce = PNone, v_challenge = PStr ''chal'', v_method = PStr ''S256'', v_resource = [], v_dpop_jkt = PNone,
      v_details = []\<rparr>"

lemma sample_request_validates: "validate_authorization_request sample_server sample_auth_params = Inr sample_validated"
proof -
  have words: "words_of (PStr ''read write'') = Inr [''read'', ''write'']" by code_simp
  show ?thesis
    using words
    by (simp add: validate_authorization_request_def resolve_redirect_def check_request_scope_def sample_auth_params_def
        sample_server_def sample_client_def sample_validated_def dict_get_val_def empty_store_def is_public_def pget_or_def)
qed

theorem authorization_request_is_checked_witness:
  "validate_authorization_request sample_server sample_auth_params = Inr sample_validated
   \<and> v_redirect_uri sample_validated \<in> set (cl_redirect_uris sample_client)"
proof -
  note run = sample_request_validates
  from authorization_request_is_checked [OF run] run show ?thesis by (simp add: sample_validated_def)
qed

section \<open>Client authentication\<close>

text \<open>What the authentication method of a client asks for.\<close>

definition assertion_accepted :: "auth_server \<Rightarrow> client \<Rightarrow> pydict \<Rightarrow> auth_server \<Rightarrow> bool" where
  "assertion_accepted s c params s' \<longleftrightarrow>
     (\<exists>a jwks parsed ks claims jti exp. pget params ''client_assertion'' = PStr a
        \<and> pget params ''client_assertion_type'' = PStr CLIENT_ASSERTION_TYPE
        \<and> cl_jwks c = Some jwks \<and> jwkset_from_json jwks = Inr ks
        \<and> fst (jws_verify a jwks_resolver [''RS256''] False ks) = Inr parsed
        \<and> json_loads_bytes (jws_payload parsed) = Inr (PDict claims)
        \<and> pget claims ''iss'' = PStr (cl_id c) \<and> pget claims ''sub'' = PStr (cl_id c)
        \<and> pget claims ''aud'' = PStr (as_issuer s) \<and> assertion_times_ok (as_now s) claims
        \<and> pget claims ''jti'' = PStr jti \<and> dget (st_seen_jtis (as_store s)) jti = None
        \<and> s' = s\<lparr>as_store := as_store s\<lparr>st_seen_jtis := dset jti exp (st_seen_jtis (as_store s))\<rparr>\<rparr>)"

lemma verify_client_assertion_D:
  assumes "verify_client_assertion c params s = (Inr u, s')"
  shows "assertion_accepted s c params s'"
proof -
  from assms obtain a jwks where a: "pget params ''client_assertion'' = PStr a" "cl_jwks c = Some jwks"
    by (auto simp: verify_client_assertion_def fail_Inr split: pyval.splits option.splits)
  note rest = assms [unfolded verify_client_assertion_def a prod.case pyval.case option.case]
  from rest obtain cv where r: "read_assertion jwks a = Inr cv"
    and ty: "pget params ''client_assertion_type'' = PStr CLIENT_ASSERTION_TYPE"
    by (auto simp: bindM_Inr_iff require_Inr split: sum.splits)
  from rest r obtain claims jti exp where c: "cv = PDict claims" "pget claims ''iss'' = PStr (cl_id c)"
    "pget claims ''sub'' = PStr (cl_id c)" "pget claims ''aud'' = PStr (as_issuer s)" "assertion_times_ok (as_now s) claims"
    "pget claims ''jti'' = PStr jti" "dget (st_seen_jtis (as_store s)) jti = None"
    "s' = s\<lparr>as_store := as_store s\<lparr>st_seen_jtis := dset jti exp (st_seen_jtis (as_store s))\<rparr>\<rparr>"
    by (auto simp: bindM_Inr_iff require_Inr fail_Inr on_store_def split: pyval.splits option.splits)
  from r c(1) obtain ks parsed where "jwkset_from_json jwks = Inr ks"
    "fst (jws_verify a jwks_resolver [''RS256''] False ks) = Inr parsed"
    "json_loads_bytes (jws_payload parsed) = Inr (PDict claims)"
    by (auto simp: read_assertion_def bind_res_Inr_iff)
  with a ty c show ?thesis unfolding assertion_accepted_def by blast
qed

text \<open>
  A client is authenticated only if it is registered under the identifier that was sent,
  and has shown what its method asks for: nothing but its identifier for a public client (which
  must not send a secret), a certificate, a signed assertion for this server that names the
  client, is in time and was not seen before (and is remembered), or its secret.
\<close>

theorem authenticated_client_is_checked:
  assumes "authenticate_client params basic tls s = (Inr c, s')"
  shows "\<exists>cid. (case basic of Some (i, _) \<Rightarrow> i = cid | None \<Rightarrow> pget params ''client_id'' = PStr cid) \<and> cid \<noteq> []
    \<and> dget (st_clients (as_store s)) cid = Some c
    \<and> (let secret = (case basic of Some (_, p) \<Rightarrow> PStr p | None \<Rightarrow> pget_or params ''client_secret'' (PStr [])) in
       if cl_auth_method c = ''none'' then \<not> truthy secret \<and> s' = s
       else if cl_auth_method c = ''tls_client_auth'' then tls \<noteq> None \<and> s' = s
       else if cl_auth_method c = ''private_key_jwt'' then assertion_accepted s c params s'
       else (\<exists>p. cl_secret c = Some p \<and> p \<noteq> [] \<and> secret = PStr p \<and> s' = s))"
proof -
  define cid where "cid = (case basic of Some (i, _) \<Rightarrow> PStr i | None \<Rightarrow> pget_or params ''client_id'' (PStr []))"
  define secret where "secret = (case basic of Some (_, p) \<Rightarrow> PStr p | None \<Rightarrow> pget_or params ''client_secret'' (PStr []))"
  note run = assms [unfolded authenticate_client_def Let_def, folded cid_def secret_def]
  from run obtain found where t: "truthy cid" and found: "dict_get_val (st_clients (as_store s)) cid = Inr found"
    and rest: "(case found of None \<Rightarrow> fail InvalidClient
      | Some c \<Rightarrow>
          (if cl_auth_method c = ''none'' then bindM (require (\<not> truthy secret) InvalidClient) (\<lambda>_. ret c)
           else if cl_auth_method c = ''tls_client_auth'' then bindM (require (tls \<noteq> None) InvalidClient) (\<lambda>_. ret c)
           else if cl_auth_method c = ''private_key_jwt'' then bindM (verify_client_assertion c params) (\<lambda>_. ret c)
           else bindM (check_secret c secret) (\<lambda>_. ret c))) s = (Inr c, s')"
    by (auto simp: bindM_Inr_iff require_Inr)
  from rest obtain d where d: "found = Some d" by (cases found) (auto simp: fail_Inr)
  from rest d have c: "d = c" by (auto simp: bindM_Inr_iff split: if_splits)
  from found d c t obtain i where i: "cid = PStr i" "i \<noteq> []" "dget (st_clients (as_store s)) i = Some c"
    by (auto simp: dict_get_val_def split: pyval.splits if_splits)
  have shown: "if cl_auth_method c = ''none'' then \<not> truthy secret \<and> s' = s
       else if cl_auth_method c = ''tls_client_auth'' then tls \<noteq> None \<and> s' = s
       else if cl_auth_method c = ''private_key_jwt'' then assertion_accepted s c params s'
       else (\<exists>p. cl_secret c = Some p \<and> p \<noteq> [] \<and> secret = PStr p \<and> s' = s)"
    using rest d c
    by (auto simp: bindM_Inr_iff require_Inr check_secret_def fail_Inr truthy_str_def ct_equals_val_def
        dest: verify_client_assertion_D split: if_splits option.splits pyval.splits)
  have "(case basic of Some (i', _) \<Rightarrow> i' = i | None \<Rightarrow> pget params ''client_id'' = PStr i)"
    using i(1,2) by (auto simp: cid_def pget_or_def pget_def split: option.splits)
  with i shown show ?thesis unfolding secret_def Let_def by blast
qed

theorem authenticated_client_is_checked_witness:
  "authenticate_client sample_code_params None None sample_server = (Inr sample_client, sample_server)
   \<and> cl_secret sample_client = Some ''s3cret''"
proof -
  have run: "authenticate_client sample_code_params None None sample_server = (Inr sample_client, sample_server)"
    by (simp add: authenticate_client_def sample_code_params_def sample_server_def sample_client_def bindM_def require_def
        dict_get_val_def check_secret_def ct_equals_val_def truthy_str_def empty_store_def pget_or_def Let_def)
  from authenticated_client_is_checked [OF run] run show ?thesis
    by (auto simp: sample_client_def)
qed

section \<open>Introspection and revocation\<close>

lemma introspect_live:
  assumes "dget (st_access_tokens (as_store s)) v = Some a" "\<not> at_revoked a" "as_now s \<le> at_expires_at a"
  shows "pget (introspect s v) ''active'' = PBool True" "pget (introspect s v) ''client_id'' = PStr (at_client_id a)"
    "pget (introspect s v) ''scope'' = PStr (join '' '' (at_scope a))"
    "at_subject a = Some sub \<Longrightarrow> sub \<noteq> [] \<Longrightarrow> pget (introspect s v) ''sub'' = PStr sub"
  using assms by (simp_all add: introspect_def pget_def truthy_str_def opt_str_def)

lemma introspect_dead:
  "\<nexists>a. dget (st_access_tokens (as_store s)) v = Some a \<and> \<not> at_revoked a \<and> as_now s \<le> at_expires_at a \<Longrightarrow>
   introspect s v = [(''active'', PBool False)]"
  by (cases "dget (st_access_tokens (as_store s)) v") (simp_all add: introspect_def not_le)

text \<open>
  A token is reported active exactly when it is stored, not revoked and not past its
  expiry; an inactive answer says nothing else.  After its client revoked it, it is inactive; a
  revocation by any other client leaves every access token as it was.
\<close>

theorem introspection_and_revocation:
  "(pget (introspect s v) ''active'' = PBool True \<longleftrightarrow>
      (\<exists>a. dget (st_access_tokens (as_store s)) v = Some a \<and> \<not> at_revoked a \<and> as_now s \<le> at_expires_at a))
   \<and> (pget (introspect s v) ''active'' \<noteq> PBool True \<longrightarrow> introspect s v = [(''active'', PBool False)])
   \<and> (\<exists>s'. revoke v c s = (Inr (), s')
        \<and> ((\<exists>a. dget (st_access_tokens (as_store s)) v = Some a \<and> at_client_id a = cl_id c) \<longrightarrow>
             introspect s' v = [(''active'', PBool False)])
        \<and> ((\<forall>a. dget (st_access_tokens (as_store s)) v = Some a \<longrightarrow> at_client_id a \<noteq> cl_id c) \<longrightarrow>
             st_access_tokens (as_store s') = st_access_tokens (as_store s)))"
proof -
  have active: "pget (introspect s v) ''active'' = PBool True \<longleftrightarrow>
      (\<exists>a. dget (st_access_tokens (as_store s)) v = Some a \<and> \<not> at_revoked a \<and> as_now s \<le> at_expires_at a)"
    and inactive: "pget (introspect s v) ''active'' \<noteq> PBool True \<Longrightarrow> introspect s v = [(''active'', PBool False)]"
    using introspect_live(1) introspect_dead by (force simp: pget_def)+
  have refresh: "\<exists>s'. revoke_refresh v c s = (Inr (), s') \<and> st_access_tokens (as_store s') = st_access_tokens (as_store s)"
    by (auto simp: revoke_refresh_def bindM_def counting_def revoke_refresh_family_def log_event_def on_store_def store_log_def
        split: option.split)
  have "\<exists>s'. revoke v c s = (Inr (), s')
        \<and> ((\<exists>a. dget (st_access_tokens (as_store s)) v = Some a \<and> at_client_id a = cl_id c) \<longrightarrow>
             introspect s' v = [(''active'', PBool False)])
        \<and> ((\<forall>a. dget (st_access_tokens (as_store s)) v = Some a \<longrightarrow> at_client_id a \<noteq> cl_id c) \<longrightarrow>
             st_access_tokens (as_store s') = st_access_tokens (as_store s))"
  proof (cases "\<exists>a. dget (st_access_tokens (as_store s)) v = Some a \<and> at_client_id a = cl_id c")
    case True
    then show ?thesis
      by (auto simp: revoke_def bindM_def on_access_def on_store_def log_event_def store_log_def introspect_def)
  next
    case False
    then have "revoke v c s = revoke_refresh v c s" by (auto simp: revoke_def bindM_def split: option.split)
    with False refresh show ?thesis by auto
  qed
  with active inactive show ?thesis by blast
qed

definition sample_access :: access_token where
  "sample_access =
     \<lparr>at_token = ''access!'', at_client_id = ''app'', at_subject = Some ''alice'', at_scope = [''read''],
      at_expires_at = 1300, at_issued_at = 1000, at_type = ''Bearer'', at_audience = [''https://api''], at_revoked = False,
      at_jkt = None, at_x5t = None, at_jti = ''j1'', at_details = []\<rparr>"

definition issued_server :: auth_server where
  "issued_server = sample_server\<lparr>as_store := (as_store sample_server)\<lparr>st_access_tokens := [(''access!'', sample_access)]\<rparr>\<rparr>"

theorem introspection_and_revocation_witness:
  "pget (introspect issued_server ''access!'') ''active'' = PBool True
   \<and> (\<exists>s'. revoke ''access!'' sample_client issued_server = (Inr (), s')
        \<and> introspect s' ''access!'' = [(''active'', PBool False)])"
proof -
  have stored: "dget (st_access_tokens (as_store issued_server)) ''access!'' = Some sample_access"
    by (simp add: issued_server_def)
  have live: "\<not> at_revoked sample_access" "as_now issued_server \<le> at_expires_at sample_access"
    "at_client_id sample_access = cl_id sample_client"
    by (simp_all add: sample_access_def issued_server_def sample_server_def sample_client_def)
  from introspection_and_revocation [of issued_server "''access!''" sample_client] stored live show ?thesis by auto
qed

section \<open>The code flow from end to end\<close>

lemma minted_access:
  "minted s c gr resp st \<Longrightarrow> \<exists>av a. pget resp ''access_token'' = PStr av \<and> access_for s c gr av a
     \<and> dget (st_access_tokens st) av = Some a \<and> st_device_codes st = st_device_codes (as_store s)"
  by (cases "gr_include_refresh gr \<and> gr_subject gr \<noteq> None")
     (auto simp: minted_def with_access_def with_refresh_def)

lemma draw_token_not_Nil: "draw_token n g = (Inr t, g') \<Longrightarrow> 0 < n \<Longrightarrow> t \<noteq> []"
  using length_b64u by (fastforce simp: draw_token_def random_token_def random_bytes_def split: prod.splits)

text \<open>The entry of a code, as it was issued.\<close>

definition code_entry :: "auth_server \<Rightarrow> validated \<Rightarrow> string \<Rightarrow> string list option \<Rightarrow> int option \<Rightarrow> string \<Rightarrow> auth_code" where
  "code_entry s v subject amr auth_time code =
     \<lparr>ac_code = code, ac_client_id = cl_id (v_client v), ac_subject = subject, ac_redirect_uri = v_redirect_uri v,
      ac_scope = v_scope v, ac_expires_at = as_now s + as_code_lifetime s, ac_challenge = v_challenge v, ac_method = v_method v,
      ac_nonce = v_nonce v, ac_amr = amr_or amr, ac_auth_time = (case auth_time of Some t \<Rightarrow> t | None \<Rightarrow> as_now s),
      ac_used = False, ac_resource = v_resource v, ac_dpop_jkt = v_dpop_jkt v, ac_details = v_details v\<rparr>"

lemma issued_code_D:
  assumes "issue_authorization_code v subject amr auth_time s = (Inr code, s1)"
  shows "code \<noteq> [] \<and> dget (st_codes (as_store s1)) code = Some (code_entry s v subject amr auth_time code)
    \<and> same_setup s s1"
proof -
  from assms obtain s0 where s0: "on_rng (draw_token 32) s = (Inr code, s0)"
    and entry: "dget (st_codes (as_store s1)) code = Some ((code_entry s v subject amr auth_time code)\<lparr>ac_expires_at := as_now s + as_code_lifetime s0\<rparr>)"
    and conf: "same_setup s0 s1"
    by (auto simp: issue_authorization_code_def Let_def bindM_Inr_iff on_store_def log_event_def store_log_def same_setup_def code_entry_def)
  from s0 have "code \<noteq> []" "as_code_lifetime s0 = as_code_lifetime s" "same_setup s s0"
    by (auto simp: on_rng_def zoom_def same_setup_def split: prod.splits dest: draw_token_not_Nil)
  with entry conf show ?thesis by (auto simp: code_entry_def intro: same_setup_trans)
qed

text \<open>With the redirect URI and the verifier the exchange comes down to issuing the tokens of the code.\<close>

lemma code_exchange_runs:
  assumes "dget (st_codes (as_store s)) code = Some entry" "code \<noteq> []" "\<not> ac_used entry"
    and "ac_client_id entry = cl_id c" "as_now s \<le> ac_expires_at entry" "\<not> truthy (ac_dpop_jkt entry)"
    and "verifier_shape verifier" "ac_challenge entry = PStr (b64u_encode (sha256 (map of_char verifier)))"
      "ac_method entry = PStr ''S256''"
    and "pget req ''code'' = PStr code" "pget req ''redirect_uri'' = PStr (ac_redirect_uri entry)"
      "pget req ''code_verifier'' = PStr verifier"
  shows "grant_authorization_code c req j x s
    = issue_token_set c (code_grant s entry j x) (s\<lparr>as_store := spend_code code c entry (as_store s)\<rparr>)"
proof -
  have challenge: "sha256 (map of_char verifier) \<noteq> []"
    using length_sha256 [of "map of_char verifier"] by (metis list.size(3) zero_neq_numeral)
  have "check_code_pkce entry c req = Inr ()"
    using assms(7-9,12) by (simp add: check_code_pkce_def pkce_verify_iff verifier_pattern_def challenge pget_or_def pget_def split: option.splits)
  moreover have "check_code_redirect entry (pget req ''redirect_uri'') = Inr ()"
    using assms(11) by (simp add: check_code_redirect_def ct_equals_val_def)
  ultimately show ?thesis
    using assms(1-6,10)
    by (simp add: grant_authorization_code_def lookup_param_def bindM_def require_def dict_get_val_def
        on_code_def on_store_def log_event_def spend_code_def code_grant_def split del: if_split cong: if_cong)
qed

text \<open>
  The honest code flow succeeds.  Once a request was accepted and a code issued for it, the
  client that comes back before the code expires, with the redirect URI of the request and the
  verifier of its challenge, gets an access token; introspection then reports the token as
  active, for the user who logged in, the client, and the scope of the request.
\<close>

theorem code_flow_completes:
  assumes "validate_authorization_request s params = Inr v" "issue_authorization_code v subject amr auth_time s = (Inr code, s1)"
    and "as_now s \<le> t" "t \<le> as_now s + as_code_lifetime s" "0 \<le> as_access_token_lifetime s"
    and "verifier_shape verifier" "v_challenge v = PStr (b64u_encode (sha256 (map of_char verifier)))" "v_method v = PStr ''S256''"
    and "\<not> truthy (v_dpop_jkt v)" "\<not> as_jwt_access_tokens s" "''openid'' \<notin> set (v_scope v)" "subject \<noteq> []"
    and "pget req ''code'' = PStr code" "pget req ''redirect_uri'' = PStr (v_redirect_uri v)" "pget req ''code_verifier'' = PStr verifier"
    and "code \<noteq> []"
  shows "\<exists>resp s2 av. grant_authorization_code (v_client v) req j x (s1\<lparr>as_now := t\<rparr>) = (Inr resp, s2)
    \<and> pget resp ''access_token'' = PStr av \<and> pget (introspect s2 av) ''active'' = PBool True
    \<and> pget (introspect s2 av) ''sub'' = PStr subject \<and> pget (introspect s2 av) ''client_id'' = PStr (cl_id (v_client v))
    \<and> pget (introspect s2 av) ''scope'' = PStr (join '' '' (v_scope v))"
proof -
  note issued = issued_code_D [OF assms(2)]
  let ?entry = "code_entry s v subject amr auth_time code"
  let ?s = "s1\<lparr>as_now := t\<rparr>"
  let ?u = "?s\<lparr>as_store := spend_code code (v_client v) ?entry (as_store ?s)\<rparr>"
  have "grant_authorization_code (v_client v) req j x ?s = issue_token_set (v_client v) (code_grant ?s ?entry j x) ?u"
    by (rule code_exchange_runs [OF _ _ _ _ _ _ assms(6)]) (use issued assms in \<open>simp_all add: code_entry_def\<close>)
  moreover obtain resp s2 where run: "issue_token_set (v_client v) (code_grant ?s ?entry j x) ?u = (Inr resp, s2)"
    using opaque_tokens_issued [of ?u "code_grant ?s ?entry j x" "v_client v"] assms(10,11) issued
    by (auto simp: code_grant_def code_entry_def same_setup_def)
  moreover note made = issue_token_set_D [OF run]
  moreover from minted_access [OF conjunct2 [OF made]] obtain av a where av: "pget resp ''access_token'' = PStr av"
    "access_for ?u (v_client v) (code_grant ?s ?entry j x) av a" "dget (st_access_tokens (as_store s2)) av = Some a"
    by blast
  moreover have "as_now s2 = t" using made by (simp add: same_setup_def)
  moreover have "\<not> at_revoked a" "at_expires_at a = t + as_access_token_lifetime s" "at_subject a = Some subject"
    "at_client_id a = cl_id (v_client v)" "at_scope a = v_scope v"
    using av(2) issued by (simp_all add: access_for_def code_grant_def code_entry_def same_setup_def)
  ultimately show ?thesis
    using assms(5,12) introspect_live [OF av(3)]
    by (intro exI [of _ resp] exI [of _ s2] exI [of _ av]) simp
qed

definition sample_verifier :: string where
  "sample_verifier = replicate 43 CHR ''v''"

definition sample_flow_params :: pydict where
  "sample_flow_params = [(''client_id'', PStr ''app''), (''redirect_uri'', PStr ''https://app/cb''), (''response_type'', PStr ''code''),
     (''scope'', PStr ''read''), (''state'', PStr ''st''),
     (''code_challenge'', PStr (b64u_encode (sha256 (map of_char sample_verifier)))), (''code_challenge_method'', PStr ''S256'')]"

definition sample_flow :: validated where
  "sample_flow =
     \<lparr>v_client = sample_client, v_redirect_uri = ''https://app/cb'', v_scope = [''read''], v_state = PStr ''st'', v_nonce = PNone,
      v_challenge = PStr (b64u_encode (sha256 (map of_char sample_verifier))), v_method = PStr ''S256'', v_resource = [],
      v_dpop_jkt = PNone, v_details = []\<rparr>"

theorem code_flow_completes_witness:
  "\<exists>code s1 resp s2. validate_authorization_request sample_server sample_flow_params = Inr sample_flow
     \<and> issue_authorization_code sample_flow ''alice'' None None sample_server = (Inr code, s1)
     \<and> grant_authorization_code sample_client
         [(''code'', PStr code), (''redirect_uri'', PStr ''https://app/cb''), (''code_verifier'', PStr sample_verifier)]
         None None (s1\<lparr>as_now := 1050\<rparr>) = (Inr resp, s2)"
proof -
  have words: "words_of (PStr ''read'') = Inr [''read'']" by code_simp
  have some: "sha256 (map of_char sample_verifier) \<noteq> []"
    using length_sha256 [of "map of_char sample_verifier"] by (metis list.size(3) zero_neq_numeral)
  have valid: "validate_authorization_request sample_server sample_flow_params = Inr sample_flow"
    using words some
    by (simp add: validate_authorization_request_def resolve_redirect_def check_request_scope_def sample_flow_params_def
        sample_server_def sample_client_def sample_flow_def dict_get_val_def empty_store_def is_public_def pget_or_def)
  let ?code = "b64u_encode (map (tape (as_rng sample_server) 0) [0..<32])"
  have code: "?code \<noteq> []" using length_b64u [of "map (tape (as_rng sample_server) 0) [0..<32]"] by auto
  obtain s1 where issue: "issue_authorization_code sample_flow ''alice'' None None sample_server = (Inr ?code, s1)"
    by (simp add: issue_authorization_code_def bindM_def on_rng_def zoom_def draw_token_def random_token_def random_bytes_def
        on_store_def log_event_def sample_server_def Let_def)
  have shape: "verifier_shape sample_verifier"
    by code_simp
  have "\<exists>resp s2 av. grant_authorization_code (v_client sample_flow)
         [(''code'', PStr ?code), (''redirect_uri'', PStr ''https://app/cb''), (''code_verifier'', PStr sample_verifier)]
         None None (s1\<lparr>as_now := 1050\<rparr>) = (Inr resp, s2)
    \<and> pget resp ''access_token'' = PStr av \<and> pget (introspect s2 av) ''active'' = PBool True
    \<and> pget (introspect s2 av) ''sub'' = PStr ''alice''
    \<and> pget (introspect s2 av) ''client_id'' = PStr (cl_id (v_client sample_flow))
    \<and> pget (introspect s2 av) ''scope'' = PStr (join '' '' (v_scope sample_flow))"
    by (rule code_flow_completes [OF valid issue _ _ _ shape])
       (use code in \<open>simp_all add: sample_server_def sample_flow_def\<close>)
  moreover have "v_client sample_flow = sample_client" by (simp add: sample_flow_def)
  ultimately show ?thesis using valid issue by auto
qed

section \<open>The device flow\<close>

lemma grant_device_D:
  assumes "grant_device_code c params j x s = (Inr resp, s')"
  obtains k d where "pget params ''device_code'' = PStr k" "dget (st_device_codes (as_store s)) k = Some d"
    "dc_client_id d = cl_id c" "as_now s \<le> dc_expires_at d" "\<not> dc_denied d" "dc_approved d"
    "issue_token_set c \<lparr>gr_subject = dc_subject d, gr_scope = dc_scope d, gr_nonce = PNone, gr_amr = dc_amr d,
        gr_auth_time = as_now s, gr_audience = take 1 (as_known_resources s), gr_jkt = j, gr_x5t = x,
        gr_include_refresh = True, gr_family = None, gr_id_token = True, gr_details = []\<rparr>
      (s\<lparr>as_store := as_store s\<lparr>st_device_codes := ddel k (st_device_codes (as_store s))\<rparr>\<rparr>) = (Inr resp, s')"
proof -
  from assms obtain kv s0 where look: "lookup_param params ''device_code'' st_device_codes s = (Inr kv, s0)"
    and rest: "(case kv of (key, device) \<Rightarrow>
       bindM (require (dc_client_id device = cl_id c) InvalidGrant) (\<lambda>_.
         bindM (gets as_now) (\<lambda>now.
           bindM (require (\<not> now > dc_expires_at device) ExpiredTokenError) (\<lambda>_.
             bindM (require (\<not> dc_denied device) AccessDenied) (\<lambda>_.
               if \<not> dc_approved device then
                 bindM (on_device key (\<lambda>d. d\<lparr>dc_last_polled_at := now\<rparr>)) (\<lambda>_.
                   if dc_last_polled_at device \<noteq> 0 \<and> now - dc_last_polled_at device < dc_interval device
                   then fail SlowDown else fail AuthorizationPending)
               else
                 bindM (on_store (\<lambda>st. st\<lparr>st_device_codes := ddel key (st_device_codes st)\<rparr>)) (\<lambda>_.
                   bindM (gets as_known_resources) (\<lambda>resources.
                     issue_token_set c
                       \<lparr>gr_subject = dc_subject device, gr_scope = dc_scope device, gr_nonce = PNone, gr_amr = dc_amr device,
                        gr_auth_time = now, gr_audience = take 1 resources, gr_jkt = j, gr_x5t = x,
                        gr_include_refresh = True, gr_family = None, gr_id_token = True, gr_details = []\<rparr>))))))) s0
       = (Inr resp, s')"
    unfolding grant_device_code_def by (rule bindM_InrE)
  obtain k d where kv: "kv = (k, d)" by fastforce
  from lookup_param_D [OF look] kv have look': "s0 = s" "pget params ''device_code'' = PStr k"
    "dget (st_device_codes (as_store s)) k = Some d" by auto
  note rest = rest [unfolded kv prod.case look'(1)]
  have approved: "dc_approved d" using rest by (auto simp: bindM_Inr_iff fail_Inr split: if_splits)
  show thesis
    by (rule that [OF look'(2,3) _ _ _ approved])
       (use rest approved in \<open>simp_all add: bindM_Inr_iff require_Inr on_store_def not_less\<close>)
qed

text \<open>
  A device gets tokens only when a user approved it and nobody denied it, before its code
  expires, and for the client that asked; the tokens are for the user who approved, with the
  scope that was shown, and the device code is gone.
\<close>

theorem device_grant_is_checked:
  assumes "grant_device_code c params j x s = (Inr resp, s')"
  shows "\<exists>k d av a. pget params ''device_code'' = PStr k \<and> dget (st_device_codes (as_store s)) k = Some d
    \<and> dc_client_id d = cl_id c \<and> as_now s \<le> dc_expires_at d \<and> dc_approved d \<and> \<not> dc_denied d
    \<and> dget (st_device_codes (as_store s')) k = None
    \<and> pget resp ''access_token'' = PStr av \<and> dget (st_access_tokens (as_store s')) av = Some a
    \<and> at_client_id a = cl_id c \<and> at_subject a = dc_subject d \<and> at_scope a = dc_scope d \<and> at_jkt a = j"
proof -
  from assms obtain k d where d: "pget params ''device_code'' = PStr k" "dget (st_device_codes (as_store s)) k = Some d"
    "dc_client_id d = cl_id c" "as_now s \<le> dc_expires_at d" "\<not> dc_denied d" "dc_approved d"
    "issue_token_set c \<lparr>gr_subject = dc_subject d, gr_scope = dc_scope d, gr_nonce = PNone, gr_amr = dc_amr d,
        gr_auth_time = as_now s, gr_audience = take 1 (as_known_resources s), gr_jkt = j, gr_x5t = x,
        gr_include_refresh = True, gr_family = None, gr_id_token = True, gr_details = []\<rparr>
      (s\<lparr>as_store := as_store s\<lparr>st_device_codes := ddel k (st_device_codes (as_store s))\<rparr>\<rparr>) = (Inr resp, s')"
    by (rule grant_device_D)
  from minted_access [OF conjunct2 [OF issue_token_set_D [OF d(7)]]] obtain av a where
    av: "pget resp ''access_token'' = PStr av" "dget (st_access_tokens (as_store s')) av = Some a"
    and made: "access_for (s\<lparr>as_store := as_store s\<lparr>st_device_codes := ddel k (st_device_codes (as_store s))\<rparr>\<rparr>) c
      \<lparr>gr_subject = dc_subject d, gr_scope = dc_scope d, gr_nonce = PNone, gr_amr = dc_amr d,
        gr_auth_time = as_now s, gr_audience = take 1 (as_known_resources s), gr_jkt = j, gr_x5t = x,
        gr_include_refresh = True, gr_family = None, gr_id_token = True, gr_details = []\<rparr> av a"
    and gone: "st_device_codes (as_store s') = ddel k (st_device_codes (as_store s))"
    by auto
  from made have "at_client_id a = cl_id c" "at_subject a = dc_subject d" "at_scope a = dc_scope d" "at_jkt a = j"
    by (simp_all add: access_for_def)
  with d av gone show ?thesis by (intro exI [of _ k] exI [of _ d] exI [of _ av] exI [of _ a]) simp
qed

definition sample_device_params :: pydict where
  "sample_device_params = [(''client_id'', PStr ''app''), (''device_code'', PStr ''device!'')]"

theorem device_grant_is_checked_witness:
  "\<exists>resp s'. grant_device_code sample_client sample_device_params None None sample_server = (Inr resp, s')
     \<and> dget (st_device_codes (as_store s')) ''device!'' = None"
proof -
  let ?gr = "\<lparr>gr_subject = Some ''alice'', gr_scope = [''read''], gr_nonce = PNone, gr_amr = [''pwd''],
        gr_auth_time = 1010, gr_audience = [''https://api''], gr_jkt = None, gr_x5t = None,
        gr_include_refresh = True, gr_family = None, gr_id_token = True, gr_details = []\<rparr>"
  let ?s = "sample_server\<lparr>as_store := as_store sample_server\<lparr>st_device_codes := []\<rparr>\<rparr>"
  have "grant_device_code sample_client sample_device_params None None sample_server = issue_token_set sample_client ?gr ?s"
    by (simp add: grant_device_code_def lookup_param_def bindM_def require_def dict_get_val_def sample_server_def
        sample_device_params_def sample_device_def sample_client_def on_store_def empty_store_def)
  moreover have "\<exists>resp s'. issue_token_set sample_client ?gr ?s = (Inr resp, s')"
    by (rule opaque_tokens_issued) (simp_all add: sample_server_def)
  ultimately obtain resp s' where
    run: "grant_device_code sample_client sample_device_params None None sample_server = (Inr resp, s')" by auto
  from device_grant_is_checked [OF run] run show ?thesis by (auto simp: sample_device_params_def)
qed

end
