(* ===== verification/Signed.thy ===== *)
theory Signed
  imports AuthFlow
begin

text \<open>
  What the signed messages of \<open>authlab/oauth\<close> share (request objects, authorization responses,
  introspection responses): a JWS under RS256 and a key set of the sender, its payload as JSON,
  and the checks of audience and time that the modules repeat.
\<close>

text \<open>\<open>JWS.verify(token, keys.resolver(), [RS256])\<close> and \<open>json.loads(parsed.payload)\<close>.\<close>

definition verify_signed :: "string \<Rightarrow> (jwkset, parsed_jws \<times> pyval) op" where
  "verify_signed token =
     bindM (jws_verify token jwks_resolver [''RS256''] False) (\<lambda>parsed.
       bindM (lift (py (json_loads_bytes (jws_payload parsed)))) (\<lambda>claims. ret (parsed, claims)))"

text \<open>\<open>except (JOSEError, ValueError, JSONDecodeError, UnicodeDecodeError, TypeError)\<close> around it.\<close>

definition signed_error :: "oauth_error \<Rightarrow> exn + 'a \<Rightarrow> exn + 'a" where
  "signed_error e r = (case r of Inl x \<Rightarrow> Inl (if assertion_error x then OAuth e else x) | Inr v \<Rightarrow> Inr v)"

definition or_else :: "oauth_error \<Rightarrow> ('s, 'a) op \<Rightarrow> ('s, 'a) op" where
  "or_else e m s = (case m s of (r, s') \<Rightarrow> (signed_error e r, s'))"

definition aud_includes :: "pyval \<Rightarrow> string \<Rightarrow> bool" where
  "aud_includes audience name =
     (case audience of PStr a \<Rightarrow> a = name | PList vs \<Rightarrow> PStr name \<in> set vs | _ \<Rightarrow> False)"

lemma signed_error_Inr [simp]: "signed_error e r = Inr v \<longleftrightarrow> r = Inr v" "signed_error e (Inr w) = Inr w"
  by (auto simp: signed_error_def split: sum.splits)

lemma or_else_Inr [simp]: "or_else e m s = (Inr v, s') \<longleftrightarrow> m s = (Inr v, s')"
  by (auto simp: or_else_def split: prod.splits sum.splits)

lemma verify_signed_D:
  "verify_signed token ks = (Inr (p, v), ks') \<Longrightarrow>
   jws_verify token jwks_resolver [''RS256''] False ks = (Inr p, ks') \<and> json_loads_bytes (jws_payload p) = Inr v"
  by (auto simp: verify_signed_def bindM_Inr_iff)

text \<open>A message signed by a key of the set is read back.\<close>

definition printable :: "char \<Rightarrow> bool" where
  "printable c \<longleftrightarrow> 32 \<le> (of_char c :: nat) \<and> (of_char c :: nat) \<le> 126"

lemma printable_simps:
  "printable CHR 0x22" "printable CHR 0x5C" "printable CHR '':''" "printable CHR '',''" "printable CHR ''[''" "printable CHR '']''"
  "printable CHR ''{''" "printable CHR ''}''" "printable CHR ''-''"
  by (simp_all add: printable_def)

lemma printable_join: "printable (hd sep) \<Longrightarrow> length sep = 1 \<Longrightarrow> list_all (list_all printable) xs \<Longrightarrow> list_all printable (join sep xs)"
  by (cases xs; cases sep) (auto simp: join_def list_all_iff)

lemma printable_digit: "is_digit c \<Longrightarrow> printable c"
  by (auto simp: is_digit_def printable_def Let_def)

lemma printable_hex: "n < 16 \<Longrightarrow> printable (hex_digit n)"
  by (auto simp: printable_def hex_digit_def of_char_of)

lemma printable_escape: "list_all printable (json_escape c)"
proof -
  have b: "(of_char c :: nat) < 256" by (rule of_char_lt_256)
  then have h: "printable (hex_digit (of_char c div 16))" "printable (hex_digit (of_char c mod 16))"
    by (auto intro!: printable_hex simp: less_mult_imp_div_less)
  then show ?thesis
    by (auto simp: json_escape_def Let_def printable_simps) (auto simp: printable_def)
qed

lemma printable_json_str: "list_all printable (json_str s)"
  using printable_escape by (auto simp: json_str_def printable_simps list_all_iff)

lemma printable_dumps: "list_all printable (json_dumps v)"
proof (induction v rule: json_dumps.induct)
  case (3 i)
  then show ?case using nat_digits_all printable_digit by (auto simp: int_str_def printable_simps list_all_iff)
next
  case (5 vs)
  then have "list_all printable (join '','' (map json_dumps vs))"
    by (intro printable_join) (auto simp: printable_simps list_all_iff)
  then show ?case by (simp add: printable_simps)
next
  case (6 kvs)
  have "list_all printable (join '','' (map (\<lambda>(k, v). json_str k @ '':'' @ json_dumps v) kvs))"
    using 6 printable_json_str by (intro printable_join) (auto simp: printable_simps list_all_iff)
  then show ?case by (simp add: printable_simps)
next
  case (4 s)
  then show ?case using printable_json_str by simp
qed (simp_all add: printable_def)

lemma json_loads_bytes_compact: "json_clean v \<Longrightarrow> json_loads_bytes (json_compact v) = Inr v"
proof -
  have bytes: "b \<noteq> 0 \<and> b \<noteq> 0xFE \<and> b \<noteq> 0xFF" if "b \<in> set (json_compact v)" for b :: byte
  proof -
    have "is_ascii (json_dumps v)" using printable_dumps [of v] by (fastforce simp: is_ascii_def printable_def list_all_iff)
    with that obtain c where "c \<in> set (json_dumps v)" "b = of_char c"
      by (auto simp: json_compact_def utf8_encode_ascii)
    with printable_dumps [of v] have c: "32 \<le> (of_char c :: nat)" "(of_char c :: nat) \<le> 126"
      by (auto simp: list_all_iff printable_def)
    have "b = of_nat (of_char c)" using \<open>b = of_char c\<close> by (simp add: of_nat_of_char)
    with c have "unat b = of_char c" by (metis of_char_lt_256 unat_of_nat_byte)
    with c show ?thesis by auto
  qed
  assume "json_clean v"
  moreover have "\<not> ((length (json_compact v) = 2 \<or> length (json_compact v) \<ge> 4) \<and> (json_compact v ! 0 = 0 \<or> json_compact v ! 1 = 0)
      \<or> length (json_compact v) \<ge> 2 \<and> json_compact v ! 0 \<in> {0xFE, 0xFF})"
    using bytes [OF nth_mem [of 0]] bytes [OF nth_mem [of 1]] by (cases "json_compact v = []") auto
  ultimately show ?thesis
    unfolding json_loads_bytes_def by (simp add: json_compact_def json_loads_dumps)
qed

lemma signed_claims_verify:
  assumes "rsa_key_ok k" "em_fits (key_size_bytes (rsk_n k)) ''sha256''" "ty \<noteq> []"
    and "jwks_resolver (issue_header RS256 kid ty) ks = (Inr (Some (KRsaPub (rsa_public_of k))), ks)"
    and "json_clean (PDict claims)"
  shows "\<exists>token p. jws_sign (Inr claims) (KRsaPriv k) RS256 [] kid (Some ty) = Inr token
    \<and> jws_parse token = Inr p \<and> jws_payload p = json_compact (PDict claims)
    \<and> verify_signed token ks = (Inr (p, PDict claims), ks) \<and> pget (jws_header p) ''typ'' = PStr ty"
proof -
  have pair: "rsa_pair RS256 (KRsaPriv k) (KRsaPub (rsa_public_of k))"
    using assms(1,2) by (simp add: rsa_pair_def algorithm_defs)
  have names: "alg_name RS256 \<in> set [''RS256'']" "''none'' \<notin> set (map lower [''RS256''])"
    by (simp_all add: algorithm_defs lower_def lower_char_def)
  from rs256.signed_token_verifies [OF pair build_issue_header issue_header_ok(1,2,3) _ names, of "Inr claims" kid ty]
  obtain token p where t: "jws_sign (Inr claims) (KRsaPriv k) RS256 [] kid (Some ty) = Inr token"
    "jws_parse token = Inr p" "jws_header p = issue_header RS256 kid ty" "jws_payload p = json_compact (PDict claims)"
    and v: "\<And>key (s :: jwkset) s'. key (issue_header RS256 kid ty) s = (Inr (Some (KRsaPub (rsa_public_of k))), s') \<Longrightarrow>
      jws_verify token key [''RS256''] False s = (Inr p, s')"
    unfolding payload_bytes_def by auto
  have "verify_signed token ks = (Inr (p, PDict claims), ks)"
    using v [of jwks_resolver ks ks, OF assms(4)] json_loads_bytes_compact [OF assms(5)] t(4) by (simp add: verify_signed_def bindM_run(1))
  with t issue_header_ok(4) [OF assms(3), of RS256 kid] show ?thesis by auto
qed

end
