(* ===== verification/Jar.thy ===== *)
theory Jar
  imports Signed
begin

text \<open>
  \<open>authlab/oauth/jar.py\<close>: request objects signed by a registered client.  The key sets are
  those that \<open>register_client_key\<close> fills; they have no refresh callback.
\<close>

definition REQUEST_OBJECT_TYP :: string where
  "REQUEST_OBJECT_TYP = ''oauth-authz-req+jwt''"

definition REGISTERED_CLAIMS :: "string list" where
  "REGISTERED_CLAIMS = [''iss'', ''aud'', ''iat'', ''nbf'', ''exp'', ''jti'']"

record jar =
  jr_issuer :: string
  jr_maximum_lifetime :: int
  jr_client_keys :: "(string, jwkset) dict"
  jr_seen :: "(string, int) dict"

definition register_client_key :: "string \<Rightarrow> pydict \<Rightarrow> jar \<Rightarrow> jar" where
  "register_client_key cid key j =
     (let ks = (case dget (jr_client_keys j) cid of None \<Rightarrow> jwkset_of [] | Some ks \<Rightarrow> ks)
      in j\<lparr>jr_client_keys := dset cid (jwkset_add (PDict (jwk_public key)) ks) (jr_client_keys j)\<rparr>)"

definition jar_issue :: "jar \<Rightarrow> int \<Rightarrow> pydict \<Rightarrow> jose_key \<Rightarrow> string \<Rightarrow> int \<Rightarrow> int option \<Rightarrow> (rng, string) op" where
  "jar_issue j now params private_key kid lifetime not_before =
     (case pget params ''client_id'' of
        PStr cid \<Rightarrow>
          bindM (require (cid \<noteq> []) InvalidRequestObject) (\<lambda>_.
            bindM (require (dget params ''request'' = None \<and> dget params ''request_uri'' = None) InvalidRequestObject) (\<lambda>_.
              bindM (require (\<not> (lifetime \<le> 0 \<or> lifetime > jr_maximum_lifetime j)) InvalidRequestObject) (\<lambda>_.
                bindM (draw_token 16) (\<lambda>jti.
                  let claims = dmerge params
                        [(''iss'', PStr cid), (''aud'', PStr (jr_issuer j)), (''iat'', PInt now),
                         (''nbf'', PInt (case not_before of None \<Rightarrow> now | Some n \<Rightarrow> n)), (''exp'', PInt (now + lifetime)),
                         (''jti'', PStr jti)]
                  in lift (jws_sign (Inr claims) private_key RS256 [] (Some kid) (Some REQUEST_OBJECT_TYP))))))
      | _ \<Rightarrow> fail InvalidRequestObject)"

section \<open>Validation\<close>

text \<open>The first block: the issuer is read without verification and picks the key set.\<close>

definition jar_by_issuer :: "jar \<Rightarrow> string \<Rightarrow> pyval \<Rightarrow> exn + string \<times> parsed_jws \<times> pyval" where
  "jar_by_issuer j token issuer =
     (case issuer of
        PStr cid \<Rightarrow>
          (case dget (jr_client_keys j) cid of
             None \<Rightarrow> Inl (OAuth InvalidRequestObject)
           | Some ks \<Rightarrow> map_sum id (\<lambda>(parsed, claims). (cid, parsed, claims)) (fst (verify_signed token ks)))
      | _ \<Rightarrow> Inl (OAuth InvalidRequestObject))"

definition jar_read :: "jar \<Rightarrow> string \<Rightarrow> exn + string \<times> parsed_jws \<times> pyval" where
  "jar_read j token =
     signed_error InvalidRequestObject
       (bind_res (jwt_peek token) (\<lambda>raw.
          bind_res (py (as_dict raw)) (\<lambda>untrusted. jar_by_issuer j token (pget untrusted ''iss''))))"

text \<open>\<open>iat\<close>, \<open>nbf\<close> and \<open>exp\<close>, in the order of the checks.\<close>

definition jar_times :: "jar \<Rightarrow> int \<Rightarrow> pydict \<Rightarrow> bool" where
  "jar_times j now claims =
     (case (as_int (pget claims ''iat''), as_int (pget claims ''nbf''), as_int (pget claims ''exp'')) of
        (Some iat, Some nbf, Some exp) \<Rightarrow>
          \<not> iat > now + 60 \<and> \<not> nbf > now + 60 \<and> \<not> exp < now
          \<and> \<not> (exp < nbf \<or> exp < iat \<or> exp - nbf > jr_maximum_lifetime j)
      | _ \<Rightarrow> False)"

definition jar_checked :: "jar \<Rightarrow> int \<Rightarrow> string \<Rightarrow> string option \<Rightarrow> parsed_jws \<Rightarrow> pyval \<Rightarrow> exn + pydict" where
  "jar_checked j now cid outer parsed value =
     (if pget (jws_header parsed) ''typ'' \<noteq> PStr REQUEST_OBJECT_TYP then Inl (OAuth InvalidRequestObject)
      else (case value of
          PDict claims \<Rightarrow>
            (if pget claims ''iss'' \<noteq> PStr cid \<or> pget claims ''client_id'' \<noteq> PStr cid then Inl (OAuth InvalidRequestObject)
             else if outer \<noteq> None \<and> outer \<noteq> Some cid then Inl (OAuth InvalidRequestObject)
             else if \<not> aud_includes (pget claims ''aud'') (jr_issuer j) then Inl (OAuth InvalidRequestObject)
             else if \<not> jar_times j now claims then Inl (OAuth InvalidRequestObject)
             else Inr claims)
        | _ \<Rightarrow> Inl (OAuth InvalidRequestObject)))"

text \<open>The last block: replay, then the recursive members, then the registered claims are dropped.\<close>

definition jar_admit :: "pydict \<Rightarrow> (jar, pydict) op" where
  "jar_admit claims =
     (case (pget claims ''jti'', as_int (pget claims ''exp'')) of
        (PStr jti, Some exp) \<Rightarrow>
          bindM (gets jr_seen) (\<lambda>seen.
            bindM (require (jti \<noteq> [] \<and> dget seen jti = None) InvalidRequestObject) (\<lambda>_.
              bindM (modify (\<lambda>j. j\<lparr>jr_seen := dset jti exp (jr_seen j)\<rparr>)) (\<lambda>_.
                bindM (require (dget claims ''request'' = None \<and> dget claims ''request_uri'' = None) InvalidRequestObject) (\<lambda>_.
                  ret (filter (\<lambda>(name, _). name \<notin> set REGISTERED_CLAIMS) claims)))))
      | _ \<Rightarrow> fail InvalidRequestObject)"

definition jar_validate :: "int \<Rightarrow> string \<Rightarrow> string option \<Rightarrow> (jar, pydict) op" where
  "jar_validate now token outer =
     bindM (gets id) (\<lambda>j.
       bindM (lift (jar_read j token)) (\<lambda>(cid, parsed, value).
         bindM (lift (jar_checked j now cid outer parsed value)) jar_admit))"

section \<open>Request objects are authentic and single use\<close>

lemma jar_by_issuer_D:
  assumes "jar_by_issuer j token issuer = Inr (cid, parsed, v)"
  shows "\<exists>ks ks'. issuer = PStr cid \<and> dget (jr_client_keys j) cid = Some ks
    \<and> jws_verify token jwks_resolver [''RS256''] False ks = (Inr parsed, ks') \<and> json_loads_bytes (jws_payload parsed) = Inr v"
proof -
  from assms obtain ks where ks: "issuer = PStr cid" "dget (jr_client_keys j) cid = Some ks"
    and "fst (verify_signed token ks) = Inr (parsed, v)"
    by (auto simp: jar_by_issuer_def map_sum_Inr_iff split: pyval.splits option.splits)
  then obtain ks' where "verify_signed token ks = (Inr (parsed, v), ks')" by (metis prod.collapse)
  with verify_signed_D ks show ?thesis by blast
qed

lemma jar_read_D:
  assumes "jar_read j token = Inr (cid, parsed, v)"
  shows "\<exists>ks ks'. dget (jr_client_keys j) cid = Some ks
    \<and> jws_verify token jwks_resolver [''RS256''] False ks = (Inr parsed, ks') \<and> json_loads_bytes (jws_payload parsed) = Inr v"
  using assms jar_by_issuer_D unfolding jar_read_def signed_error_Inr by (blast elim!: bind_res_InrE)

lemma jar_checked_D:
  "jar_checked j now cid outer parsed value = Inr claims \<longleftrightarrow>
   pget (jws_header parsed) ''typ'' = PStr REQUEST_OBJECT_TYP \<and> value = PDict claims
   \<and> pget claims ''iss'' = PStr cid \<and> pget claims ''client_id'' = PStr cid \<and> (outer = None \<or> outer = Some cid)
   \<and> aud_includes (pget claims ''aud'') (jr_issuer j) \<and> jar_times j now claims"
  by (auto simp: jar_checked_def split: pyval.splits if_splits)

lemma jar_admit_D:
  assumes "jar_admit claims j = (Inr params, j')"
  shows "\<exists>jti exp. pget claims ''jti'' = PStr jti \<and> jti \<noteq> [] \<and> dget (jr_seen j) jti = None
    \<and> dget claims ''request'' = None \<and> dget claims ''request_uri'' = None
    \<and> params = filter (\<lambda>(name, _). name \<notin> set REGISTERED_CLAIMS) claims \<and> j' = j\<lparr>jr_seen := dset jti exp (jr_seen j)\<rparr>"
proof -
  from assms obtain jti exp where "pget claims ''jti'' = PStr jti" "as_int (pget claims ''exp'') = Some exp"
    by (auto simp: jar_admit_def fail_Inr split: pyval.splits option.splits)
  with assms show ?thesis by (auto simp: jar_admit_def bindM_Inr_iff require_Inr)
qed

lemma jar_validate_D:
  assumes "jar_validate now token outer j = (Inr params, j')"
  obtains cid parsed claims where "jar_read j token = Inr (cid, parsed, PDict claims)"
    "jar_checked j now cid outer parsed (PDict claims) = Inr claims" "jar_admit claims j = (Inr params, j')"
proof -
  from assms obtain r where r: "jar_read j token = Inr r"
    and rest: "(case r of (cid, parsed, v) \<Rightarrow> bindM (lift (jar_checked j now cid outer parsed v)) jar_admit) j = (Inr params, j')"
    unfolding jar_validate_def by (auto simp: bindM_Inr_iff)
  obtain cid parsed v where rr: "r = (cid, parsed, v)" by (cases r)
  from rest [unfolded rr prod.case bindM_Inr_iff] obtain claims where
    c: "jar_checked j now cid outer parsed v = Inr claims" "jar_admit claims j = (Inr params, j')"
    by auto
  from c(1) have "v = PDict claims" by (simp add: jar_checked_D)
  with r rr c show thesis by (intro that) auto
qed

text \<open>Everything that happens to a validator: keys are registered, request objects arrive.\<close>

inductive jar_run :: "jar \<Rightarrow> jar \<Rightarrow> bool" where
  refl: "jar_run j j"
| register: "jar_run j j1 \<Longrightarrow> jar_run j (register_client_key cid key j1)"
| request: "jar_run j j1 \<Longrightarrow> jar_validate now token outer j1 = (r, j2) \<Longrightarrow> jar_run j j2"

lemma jar_validate_seen: "jar_validate now token outer j = (r, j') \<Longrightarrow> dget (jr_seen j) jti \<noteq> None \<Longrightarrow> dget (jr_seen j') jti \<noteq> None"
proof -
  have admit: "dget (jr_seen j') jti \<noteq> None" if "jar_admit claims j = (r, j')" "dget (jr_seen j) jti \<noteq> None" for claims r j'
    using that by (auto simp: jar_admit_def bindM_def require_def fail_def split: pyval.splits option.splits if_splits)
  assume "jar_validate now token outer j = (r, j')" "dget (jr_seen j) jti \<noteq> None"
  then show ?thesis using admit
    by (cases "jar_read j token") (auto simp: jar_validate_def bindM_def split: prod.splits sum.splits)
qed

lemma jar_run_seen: "jar_run j j' \<Longrightarrow> dget (jr_seen j) jti \<noteq> None \<Longrightarrow> dget (jr_seen j') jti \<noteq> None"
  by (induction rule: jar_run.induct) (auto simp: register_client_key_def Let_def dest: jar_validate_seen)

text \<open>
  C38: A request object is accepted only if it was signed under RS256 with a key registered for
  the client it names as issuer and client, is typed as a request object for this server, is in
  time, and its identifier is new; the parameters are the claims without the registered ones,
  and never name a further request object.  Whatever happens afterwards, the same request
  object is not accepted again.
\<close>

theorem request_object_accepted_once:
  assumes "jar_validate now token outer j = (Inr params, j')" "jar_run j' j2"
  shows "\<exists>cid ks ks' parsed claims. dget (jr_client_keys j) cid = Some ks
    \<and> jws_verify token jwks_resolver [''RS256''] False ks = (Inr parsed, ks')
    \<and> json_loads_bytes (jws_payload parsed) = Inr (PDict claims)
    \<and> pget (jws_header parsed) ''typ'' = PStr REQUEST_OBJECT_TYP
    \<and> pget claims ''iss'' = PStr cid \<and> pget claims ''client_id'' = PStr cid \<and> (outer = None \<or> outer = Some cid)
    \<and> aud_includes (pget claims ''aud'') (jr_issuer j) \<and> jar_times j now claims
    \<and> dget claims ''request'' = None \<and> dget claims ''request_uri'' = None
    \<and> params = filter (\<lambda>(name, _). name \<notin> set REGISTERED_CLAIMS) claims
    \<and> fst (jar_validate now' token outer' j2) \<notin> range Inr"
proof -
  from assms(1) obtain cid parsed claims where r: "jar_read j token = Inr (cid, parsed, PDict claims)"
    "jar_checked j now cid outer parsed (PDict claims) = Inr claims" "jar_admit claims j = (Inr params, j')"
    by (rule jar_validate_D)
  from jar_read_D [OF r(1)] obtain ks ks' where ks: "dget (jr_client_keys j) cid = Some ks"
    "jws_verify token jwks_resolver [''RS256''] False ks = (Inr parsed, ks')" "json_loads_bytes (jws_payload parsed) = Inr (PDict claims)"
    by blast
  from jar_admit_D [OF r(3)] obtain jti exp where jti: "pget claims ''jti'' = PStr jti" "dget claims ''request'' = None"
    "dget claims ''request_uri'' = None" "params = filter (\<lambda>(name, _). name \<notin> set REGISTERED_CLAIMS) claims"
    "j' = j\<lparr>jr_seen := dset jti exp (jr_seen j)\<rparr>" by blast
  have "dget (jr_seen j2) jti \<noteq> None" using jar_run_seen [OF assms(2), of jti] jti(5) by simp
  have "fst (jar_validate now' token outer' j2) \<notin> range Inr"
  proof
    assume "fst (jar_validate now' token outer' j2) \<in> range Inr"
    then obtain params2 j3 where "jar_validate now' token outer' j2 = (Inr params2, j3)" by (metis imageE prod.collapse)
    then obtain cid2 parsed2 claims2 where s: "jar_read j2 token = Inr (cid2, parsed2, PDict claims2)" "jar_admit claims2 j2 = (Inr params2, j3)"
      by (rule jar_validate_D)
    from jar_read_D [OF s(1)] obtain ks2 ks2' where "jws_verify token jwks_resolver [''RS256''] False ks2 = (Inr parsed2, ks2')"
      and c2: "json_loads_bytes (jws_payload parsed2) = Inr (PDict claims2)" by blast
    then have "parsed2 = parsed" using ks(2) by (elim jws_verify_D) simp
    with c2 ks(3) have "claims2 = claims" by simp
    with jar_admit_D [OF s(2)] jti(1) \<open>dget (jr_seen j2) jti \<noteq> None\<close> show False by auto
  qed
  with ks r(2) jti show ?thesis
    unfolding jar_checked_D
    by (intro exI [of _ cid] exI [of _ ks] exI [of _ ks'] exI [of _ parsed] exI [of _ claims]) simp
qed

section \<open>A request object that a client signs is read back\<close>

lemma filter_dset: "k \<in> set ks \<Longrightarrow> filter (\<lambda>(name, _). name \<notin> set ks) (dset k v d) = filter (\<lambda>(name, _). name \<notin> set ks) d"
  by (induction d) auto

lemma filter_dmerge:
  "set (dkeys e) \<subseteq> set ks \<Longrightarrow> filter (\<lambda>(name, _). name \<notin> set ks) (dmerge d e) = filter (\<lambda>(name, _). name \<notin> set ks) d"
  unfolding dmerge_def by (induction e arbitrary: d) (auto simp: filter_dset)

lemma jwt_peek_signed:
  "jws_parse token = Inr p \<Longrightarrow> jws_payload p = json_compact v \<Longrightarrow> json_clean v \<Longrightarrow> jwt_peek token = Inr v"
  by (simp add: jwt_peek_def json_bytes_back)

lemma signed_request_validates:
  assumes "rsa_key_ok k" "em_fits (key_size_bytes (rsk_n k)) ''sha256''"
    and "dget (jr_client_keys j) cid = Some ks" "cid \<noteq> []"
    and "jwks_resolver (issue_header RS256 (Some kid) REQUEST_OBJECT_TYP) ks = (Inr (Some (KRsaPub (rsa_public_of k))), ks)"
    and "json_clean (PDict params)" "pget params ''client_id'' = PStr cid"
    and "dget params ''request'' = None" "dget params ''request_uri'' = None"
    and "0 < lifetime" "lifetime \<le> jr_maximum_lifetime j" "now \<le> now'" "now' \<le> now + lifetime"
    and "outer = None \<or> outer = Some cid" "jr_seen j = []"
  shows "\<exists>token g' jti. jar_issue j now params (KRsaPriv k) kid lifetime None g = (Inr token, g')
    \<and> jar_validate now' token outer j
      = (Inr (filter (\<lambda>(name, _). name \<notin> set REGISTERED_CLAIMS) params), j\<lparr>jr_seen := [(jti, now + lifetime)]\<rparr>)"
proof -
  obtain jti g' where draw: "draw_token 16 g = (Inr jti, g')" "jti \<noteq> []"
    by (simp add: draw_token_def random_token_def random_bytes_def)
  define reg where "reg = [(''iss'', PStr cid), (''aud'', PStr (jr_issuer j)), (''iat'', PInt now), (''nbf'', PInt now),
    (''exp'', PInt (now + lifetime)), (''jti'', PStr jti)]"
  let ?claims = "dmerge params reg"
  have clean: "json_clean (PDict ?claims)" using assms(6) by (intro json_clean_dmerge) (simp_all add: reg_def)
  have dg: "dget ?claims n = (case dget reg n of None \<Rightarrow> dget params n | Some v \<Rightarrow> Some v)" for n
    by (rule dget_dmerge) (simp add: reg_def)
  have members: "pget ?claims ''iss'' = PStr cid" "pget ?claims ''aud'' = PStr (jr_issuer j)" "pget ?claims ''client_id'' = PStr cid"
    "pget ?claims ''iat'' = PInt now" "pget ?claims ''nbf'' = PInt now" "pget ?claims ''exp'' = PInt (now + lifetime)"
    "pget ?claims ''jti'' = PStr jti" "dget ?claims ''request'' = None" "dget ?claims ''request_uri'' = None"
    using assms(7-9) by (simp_all add: pget_def dg) (simp_all add: reg_def)
  have "REQUEST_OBJECT_TYP \<noteq> []" by (simp add: REQUEST_OBJECT_TYP_def)
  from signed_claims_verify [OF assms(1,2) this assms(5) clean] obtain token p where
    t: "jws_sign (Inr ?claims) (KRsaPriv k) RS256 [] (Some kid) (Some REQUEST_OBJECT_TYP) = Inr token"
    "jws_parse token = Inr p" "jws_payload p = json_compact (PDict ?claims)" "verify_signed token ks = (Inr (p, PDict ?claims), ks)"
    "pget (jws_header p) ''typ'' = PStr REQUEST_OBJECT_TYP" by blast
  have issue: "jar_issue j now params (KRsaPriv k) kid lifetime None g = (Inr token, g')"
    using assms(4,7-11) draw t(1) by (simp add: jar_issue_def require_def bindM_def reg_def)
  have "jar_read j token = Inr (cid, p, PDict ?claims)"
    using jwt_peek_signed [OF t(2,3) clean] t(4) assms(3) members(1)
    by (simp add: jar_read_def as_dict_def jar_by_issuer_def)
  moreover have "jar_times j now' ?claims" using assms(10-13) members by (simp add: jar_times_def)
  then have "jar_checked j now' cid outer p (PDict ?claims) = Inr ?claims"
    unfolding jar_checked_D using t(5) members assms(14) by (simp add: aud_includes_def)
  moreover have "filter (\<lambda>(name, _). name \<notin> set REGISTERED_CLAIMS) ?claims = filter (\<lambda>(name, _). name \<notin> set REGISTERED_CLAIMS) params"
    by (rule filter_dmerge) (simp add: reg_def REGISTERED_CLAIMS_def)
  ultimately have "jar_validate now' token outer j
      = (Inr (filter (\<lambda>(name, _). name \<notin> set REGISTERED_CLAIMS) params), j\<lparr>jr_seen := [(jti, now + lifetime)]\<rparr>)"
    using members draw(2) assms(15) by (simp add: jar_validate_def jar_admit_def bindM_def require_def)
  with issue show ?thesis by blast
qed

text \<open>
  C1: What a registered client signs as a request object is what the server reads: validating
  the object within its lifetime returns the parameters that were signed, without any
  registered claims among them, whoever carried it.
\<close>

theorem request_object_roundtrip:
  assumes "rsa_key_ok k" "em_fits (key_size_bytes (rsk_n k)) ''sha256''"
    and "dget (jr_client_keys j) cid = Some ks" "cid \<noteq> []"
    and "jwks_resolver (issue_header RS256 (Some kid) REQUEST_OBJECT_TYP) ks = (Inr (Some (KRsaPub (rsa_public_of k))), ks)"
    and "json_clean (PDict params)" "pget params ''client_id'' = PStr cid"
    and "dget params ''request'' = None" "dget params ''request_uri'' = None"
    and "0 < lifetime" "lifetime \<le> jr_maximum_lifetime j" "now \<le> now'" "now' \<le> now + lifetime"
    and "outer = None \<or> outer = Some cid" "jr_seen j = []"
  shows "\<exists>token g' jti. jar_issue j now params (KRsaPriv k) kid lifetime None g = (Inr token, g')
    \<and> jar_validate now' token outer j
      = (Inr (filter (\<lambda>(name, _). name \<notin> set REGISTERED_CLAIMS) params), j\<lparr>jr_seen := [(jti, now + lifetime)]\<rparr>)"
  using assms by (rule signed_request_validates)

section \<open>On sample keys\<close>

definition sample_request :: pydict where
  "sample_request = [(''client_id'', PStr ''app''), (''scope'', PStr ''read''), (''state'', PStr ''st'')]"

definition sample_jar :: "jwkset \<Rightarrow> jar" where
  "sample_jar ks = \<lparr>jr_issuer = ''https://as'', jr_maximum_lifetime = 300, jr_client_keys = [(''app'', ks)], jr_seen = []\<rparr>"

lemma sample_jar_keys:
  obtains ks where "jwks_resolver (issue_header RS256 (Some ''k1'') REQUEST_OBJECT_TYP) ks
      = (Inr (Some (KRsaPub (rsa_public_of sample_key))), ks)"
proof -
  from sample_public_jwk obtain doc where
    "from_rsa_public (rsa_public_of sample_key) (Some ''k1'') ''RS256'' ''sig'' = Inr doc" by blast
  from rsa_jwk_resolves [OF this _ issue_header_kid] show thesis by (rule that) simp_all
qed

lemma sample_request_simps:
  "json_clean (PDict sample_request)" "pget sample_request ''client_id'' = PStr ''app''"
  "dget sample_request ''request'' = None" "dget sample_request ''request_uri'' = None"
  "filter (\<lambda>(name, _). name \<notin> set REGISTERED_CLAIMS) sample_request = sample_request"
  by (simp_all add: sample_request_def REGISTERED_CLAIMS_def)

lemma sample_jar_simps:
  "dget (jr_client_keys (sample_jar ks)) ''app'' = Some ks" "jr_maximum_lifetime (sample_jar ks) = 300" "jr_seen (sample_jar ks) = []"
  by (simp_all add: sample_jar_def)

theorem request_object_roundtrip_witness:
  "\<exists>ks token g' j'. jar_issue (sample_jar ks) 1000 sample_request (KRsaPriv sample_key) ''k1'' 60 None
      \<lparr>tape = \<lambda>i j. 7, drawn = 0\<rparr> = (Inr token, g')
    \<and> jar_validate 1030 token (Some ''app'') (sample_jar ks) = (Inr sample_request, j')"
proof -
  obtain ks where ks: "jwks_resolver (issue_header RS256 (Some ''k1'') REQUEST_OBJECT_TYP) ks
      = (Inr (Some (KRsaPub (rsa_public_of sample_key))), ks)" by (rule sample_jar_keys)
  from request_object_roundtrip [OF sample_key_ok sample_fits sample_jar_simps(1) _ ks sample_request_simps(1-4),
      of 60 1000 1030 "Some ''app''"]
  show ?thesis using sample_jar_simps sample_request_simps by fastforce
qed

theorem request_object_accepted_once_witness:
  "\<exists>j token params j'. jar_validate 1030 token (Some ''app'') j = (Inr params, j')
    \<and> fst (jar_validate 1040 token (Some ''app'') j') \<notin> range Inr"
proof -
  obtain ks where ks: "jwks_resolver (issue_header RS256 (Some ''k1'') REQUEST_OBJECT_TYP) ks
      = (Inr (Some (KRsaPub (rsa_public_of sample_key))), ks)" by (rule sample_jar_keys)
  from signed_request_validates [OF sample_key_ok sample_fits sample_jar_simps(1) _ ks sample_request_simps(1-4),
      of 60 1000 1030 "Some ''app''"] sample_jar_simps
  obtain token params j' where run: "jar_validate 1030 token (Some ''app'') (sample_jar ks) = (Inr params, j')"
    by fastforce
  from request_object_accepted_once [OF run jar_run.refl, of 1040 "Some ''app''"] run show ?thesis by blast
qed

end
