(* ===== verification/Jarm.thy ===== *)
theory Jarm
  imports Signed
begin

text \<open>
  \<open>authlab/oauth/jarm.py\<close>: the authorization response as a JWT that the server signs.  The key
  set that the client looks the key up in is part of the state, since a lookup may refresh it.
\<close>

definition JARM_TYP :: string where
  "JARM_TYP = ''oauth-authz-resp+jwt''"

record jarm =
  jm_issuer :: string
  jm_signing_key :: jose_key
  jm_signing_kid :: string
  jm_lifetime :: int
  jm_seen :: "string list"

text \<open>Exactly one of \<open>code\<close> and \<open>error\<close>.\<close>

definition code_or_error :: "pydict \<Rightarrow> bool" where
  "code_or_error d \<longleftrightarrow> (dget d ''code'' \<noteq> None) \<noteq> (dget d ''error'' \<noteq> None)"

definition jarm_claims :: "jarm \<Rightarrow> int \<Rightarrow> string \<Rightarrow> string \<Rightarrow> pydict \<Rightarrow> pydict" where
  "jarm_claims m now client_id jti response =
     dmerge [(''iss'', PStr (jm_issuer m)), (''aud'', PStr client_id), (''iat'', PInt now), (''exp'', PInt (now + jm_lifetime m)),
             (''jti'', PStr jti)] response"

definition jarm_issue :: "jarm \<Rightarrow> int \<Rightarrow> string \<Rightarrow> pydict \<Rightarrow> (rng, string) op" where
  "jarm_issue m now client_id response =
     bindM (require (code_or_error response) InvalidAuthorizationResponse) (\<lambda>_.
       bindM (draw_token 16) (\<lambda>jti.
         lift (jws_sign (Inr (jarm_claims m now client_id jti response)) (jm_signing_key m) RS256 [] (Some (jm_signing_kid m))
           (Some JARM_TYP))))"

definition jarm_redirect :: "string \<Rightarrow> string \<Rightarrow> exn + string" where
  "jarm_redirect redirect_uri response_jwt = with_query redirect_uri [(''response'', PStr response_jwt)]"

definition jarm_times :: "int \<Rightarrow> pydict \<Rightarrow> bool" where
  "jarm_times now claims =
     (case (as_int (pget claims ''iat''), as_int (pget claims ''exp'')) of
        (Some iat, Some exp) \<Rightarrow> \<not> iat > now + 60 \<and> \<not> exp < iat \<and> \<not> exp - iat > 600 \<and> \<not> now > exp
      | _ \<Rightarrow> False)"

text \<open>All checks up to the one for a replay, and the identifier.\<close>

definition jarm_checked :: "jarm \<Rightarrow> int \<Rightarrow> string \<Rightarrow> string option \<Rightarrow> parsed_jws \<Rightarrow> pyval \<Rightarrow> exn + string \<times> pydict" where
  "jarm_checked m now client_id expected_state parsed v =
     (if pget (jws_header parsed) ''typ'' \<noteq> PStr JARM_TYP then Inl (OAuth InvalidAuthorizationResponse)
      else (case v of
          PDict claims \<Rightarrow>
            (if pget claims ''iss'' \<noteq> PStr (jm_issuer m) then Inl (OAuth InvalidAuthorizationResponse)
             else if \<not> aud_includes (pget claims ''aud'') client_id then Inl (OAuth InvalidAuthorizationResponse)
             else if \<not> jarm_times now claims then Inl (OAuth InvalidAuthorizationResponse)
             else if \<not> code_or_error claims then Inl (OAuth InvalidAuthorizationResponse)
             else (case pget claims ''jti'' of
                 PStr jti \<Rightarrow>
                   (if jti \<in> set (jm_seen m) then Inl (OAuth InvalidAuthorizationResponse)
                    else if expected_state \<noteq> None \<and> pget claims ''state'' \<noteq> PStr (the expected_state)
                    then Inl (OAuth InvalidAuthorizationResponse)
                    else Inr (jti, claims))
               | _ \<Rightarrow> Inl (OAuth InvalidAuthorizationResponse)))
        | _ \<Rightarrow> Inl (OAuth InvalidAuthorizationResponse)))"

definition jarm_validate :: "int \<Rightarrow> string \<Rightarrow> string \<Rightarrow> string option \<Rightarrow> (jarm \<times> jwkset, pydict) op" where
  "jarm_validate now response_jwt client_id expected_state =
     bindM (zoom snd (\<lambda>ks s. (fst s, ks)) (or_else InvalidAuthorizationResponse (verify_signed response_jwt))) (\<lambda>(parsed, v).
       bindM (gets fst) (\<lambda>m.
         bindM (lift (jarm_checked m now client_id expected_state parsed v)) (\<lambda>(jti, claims).
           bindM (modify (\<lambda>s. ((fst s)\<lparr>jm_seen := jti # jm_seen (fst s)\<rparr>, snd s))) (\<lambda>_.
             ret claims))))"

section \<open>A response reaches the client it was made for, once\<close>

lemma jarm_checked_iff:
  "jarm_checked m now client_id expected_state parsed (PDict claims) = Inr (jti, c) \<longleftrightarrow>
   c = claims \<and> pget (jws_header parsed) ''typ'' = PStr JARM_TYP \<and> pget claims ''iss'' = PStr (jm_issuer m)
   \<and> aud_includes (pget claims ''aud'') client_id \<and> jarm_times now claims \<and> code_or_error claims
   \<and> pget claims ''jti'' = PStr jti \<and> jti \<notin> set (jm_seen m)
   \<and> (expected_state = None \<or> pget claims ''state'' = PStr (the expected_state))"
  by (auto simp: jarm_checked_def split: pyval.splits if_splits)

lemma jarm_validate_signed:
  assumes "verify_signed token ks = (Inr (p, PDict claims), ks)"
  shows "jarm_validate now token client_id expected_state (m, ks) =
    (case jarm_checked m now client_id expected_state p (PDict claims) of
       Inl e \<Rightarrow> (Inl e, (m, ks))
     | Inr (jti, c) \<Rightarrow> (Inr c, (m\<lparr>jm_seen := jti # jm_seen m\<rparr>, ks)))"
  using assms by (auto simp: jarm_validate_def zoom_def or_else_def bindM_def split: sum.splits)

lemma jarm_claims_parts:
  assumes "json_clean (PDict response)" "code_or_error response" "set (dkeys response) \<inter> {''iss'', ''aud'', ''iat'', ''exp'', ''jti''} = {}"
  shows "json_clean (PDict (jarm_claims m now client_id jti response))"
    "pget (jarm_claims m now client_id jti response) ''iss'' = PStr (jm_issuer m)"
    "pget (jarm_claims m now client_id jti response) ''aud'' = PStr client_id"
    "pget (jarm_claims m now client_id jti response) ''iat'' = PInt now"
    "pget (jarm_claims m now client_id jti response) ''exp'' = PInt (now + jm_lifetime m)"
    "pget (jarm_claims m now client_id jti response) ''jti'' = PStr jti"
    "\<And>n. n \<notin> {''iss'', ''aud'', ''iat'', ''exp'', ''jti''} \<Longrightarrow>
       dget (jarm_claims m now client_id jti response) n = dget response n"
proof -
  have d: "distinct (dkeys response)" using assms(1) by simp
  note dg = dget_dmerge [OF d]
  have n: "dget response k = None" if "k \<in> {''iss'', ''aud'', ''iat'', ''exp'', ''jti''}" for k
    using that assms(3) by (metis dget_None_iff disjoint_iff)
  show "json_clean (PDict (jarm_claims m now client_id jti response))"
    unfolding jarm_claims_def using assms(1) by (intro json_clean_dmerge) simp_all
  show "pget (jarm_claims m now client_id jti response) ''iss'' = PStr (jm_issuer m)"
    "pget (jarm_claims m now client_id jti response) ''aud'' = PStr client_id"
    "pget (jarm_claims m now client_id jti response) ''iat'' = PInt now"
    "pget (jarm_claims m now client_id jti response) ''exp'' = PInt (now + jm_lifetime m)"
    "pget (jarm_claims m now client_id jti response) ''jti'' = PStr jti"
    by (simp_all add: jarm_claims_def pget_def dg n)
  show "dget (jarm_claims m now client_id jti response) k = dget response k" if "k \<notin> {''iss'', ''aud'', ''iat'', ''exp'', ''jti''}" for k
    using that by (auto simp: jarm_claims_def dg split: option.split)
qed

text \<open>
  The response that the server signs for a client is read back by that client, with the
  code (or error) and state that went into it, while it lasts.  It is read once: the same
  response is refused afterwards; and it is refused for any other client, and for a session that
  expects another state.
\<close>

theorem response_reaches_its_client:
  assumes "rsa_key_ok k" "em_fits (key_size_bytes (rsk_n k)) ''sha256''" "jm_signing_key m = KRsaPriv k" "jm_seen m = []"
    and "jwks_resolver (issue_header RS256 (Some (jm_signing_kid m)) JARM_TYP) ks = (Inr (Some (KRsaPub (rsa_public_of k))), ks)"
    and "json_clean (PDict response)" "code_or_error response" "set (dkeys response) \<inter> {''iss'', ''aud'', ''iat'', ''exp'', ''jti''} = {}"
    and "now \<le> now'" "now' \<le> now + jm_lifetime m" "jm_lifetime m \<le> 600" "pget response ''state'' = PStr state"
  shows "\<exists>token g' claims m'. jarm_issue m now client_id response g = (Inr token, g')
    \<and> jarm_validate now' token client_id (Some state) (m, ks) = (Inr claims, (m', ks))
    \<and> (\<forall>n. n \<notin> {''iss'', ''aud'', ''iat'', ''exp'', ''jti''} \<longrightarrow> pget claims n = pget response n)
    \<and> fst (jarm_validate now' token client_id (Some state) (m', ks)) = Inl (OAuth InvalidAuthorizationResponse)
    \<and> (\<forall>other. other \<noteq> client_id \<longrightarrow>
         fst (jarm_validate now' token other (Some state) (m, ks)) = Inl (OAuth InvalidAuthorizationResponse))
    \<and> (\<forall>other. other \<noteq> state \<longrightarrow>
         fst (jarm_validate now' token client_id (Some other) (m, ks)) = Inl (OAuth InvalidAuthorizationResponse))"
proof -
  obtain jti g' where draw: "draw_token 16 g = (Inr jti, g')"
    by (simp add: draw_token_def random_token_def random_bytes_def)
  let ?claims = "jarm_claims m now client_id jti response"
  note c = jarm_claims_parts [OF assms(6-8), where m = m and now = now and client_id = client_id and jti = jti]
  have c7: "pget ?claims n = pget response n" if "n \<notin> {''iss'', ''aud'', ''iat'', ''exp'', ''jti''}" for n
    using c(7) [OF that] by (simp add: pget_def)
  have "JARM_TYP \<noteq> []" by (simp add: JARM_TYP_def)
  from signed_claims_verify [OF assms(1,2) this assms(5) c(1)] obtain token p where
    t: "jws_sign (Inr ?claims) (KRsaPriv k) RS256 [] (Some (jm_signing_kid m)) (Some JARM_TYP) = Inr token"
    "verify_signed token ks = (Inr (p, PDict ?claims), ks)" "pget (jws_header p) ''typ'' = PStr JARM_TYP" by blast
  have "jarm_issue m now client_id response g = (Inr token, g')"
    using assms(3,7) draw t(1) by (simp add: jarm_issue_def require_def bindM_def)
  moreover have "code_or_error ?claims" using assms(7) c(7) by (simp add: code_or_error_def)
  moreover have "jarm_times now' ?claims" using assms(9-11) c by (simp add: jarm_times_def)
  ultimately show ?thesis
    using c c7 t(2,3) assms(4,12)
    by (intro exI [of _ token] exI [of _ g'] exI [of _ ?claims] exI [of _ "m\<lparr>jm_seen := [jti]\<rparr>"])
       (auto simp: jarm_validate_signed jarm_checked_def aud_includes_def)
qed

definition sample_jarm :: jarm where
  "sample_jarm = \<lparr>jm_issuer = ''https://as'', jm_signing_key = KRsaPriv sample_key, jm_signing_kid = ''k1'', jm_lifetime = 60,
     jm_seen = []\<rparr>"

theorem response_reaches_its_client_witness:
  "\<exists>ks token g' claims s'. jarm_issue sample_jarm 1000 ''app'' [(''code'', PStr ''c1''), (''state'', PStr ''st'')]
      \<lparr>tape = \<lambda>i j. 7, drawn = 0\<rparr> = (Inr token, g')
    \<and> jarm_validate 1030 token ''app'' (Some ''st'') (sample_jarm, ks) = (Inr claims, s') \<and> pget claims ''code'' = PStr ''c1''"
proof -
  from sample_public_jwk obtain doc where
    "from_rsa_public (rsa_public_of sample_key) (Some ''k1'') ''RS256'' ''sig'' = Inr doc" by blast
  from rsa_jwk_resolves [OF this _ issue_header_kid [of "''k1''" RS256 JARM_TYP]] obtain ks where
    ks: "jwks_resolver (issue_header RS256 (Some (jm_signing_kid sample_jarm)) JARM_TYP) ks
      = (Inr (Some (KRsaPub (rsa_public_of sample_key))), ks)"
    by (auto simp: sample_jarm_def)
  let ?r = "[(''code'', PStr ''c1''), (''state'', PStr ''st'')]"
  have "json_clean (PDict ?r)" "code_or_error ?r" "set (dkeys ?r) \<inter> {''iss'', ''aud'', ''iat'', ''exp'', ''jti''} = {}"
    by (simp_all add: code_or_error_def)
  from response_reaches_its_client [OF sample_key_ok sample_fits _ _ ks this, of 1000 1030 "''st''" "''app''"
      "\<lparr>tape = \<lambda>i j. 7, drawn = 0\<rparr>"]
  obtain token g' claims m' where
    "jarm_issue sample_jarm 1000 ''app'' ?r \<lparr>tape = \<lambda>i j. 7, drawn = 0\<rparr> = (Inr token, g')"
    "jarm_validate 1030 token ''app'' (Some ''st'') (sample_jarm, ks) = (Inr claims, (m', ks))"
    "\<forall>n. n \<notin> {''iss'', ''aud'', ''iat'', ''exp'', ''jti''} \<longrightarrow> pget claims n = pget ?r n"
    by (auto simp: sample_jarm_def)
  then show ?thesis by (intro exI [of _ ks] exI [of _ token] exI [of _ g'] exI [of _ claims] exI [of _ "(m', ks)"]) simp
qed

end
