(* ===== verification/Par.thy ===== *)
theory Par
  imports Jar
begin

text \<open>
  \<open>authlab/oauth/par.py\<close>: pushed authorization requests.  The service holds the authorization
  server, and optionally the validator of signed request objects; its clock is the server's.
\<close>

definition PAR_URN_PREFIX :: string where
  "PAR_URN_PREFIX = ''urn:ietf:params:oauth:request_uri:''"

definition CLIENT_AUTH_FIELDS :: "string list" where
  "CLIENT_AUTH_FIELDS = [''client_secret'', ''client_assertion'', ''client_assertion_type'']"

record pushed =
  pr_request_uri :: string
  pr_client_id :: string
  pr_params :: pydict
  pr_expires_at :: int
  pr_used :: bool

record par =
  ps_server :: auth_server
  ps_jar :: "jar option"
  ps_lifetime :: int
  ps_requests :: "(string, pushed) dict"

definition par_post_init :: "par \<Rightarrow> py_error + par" where
  "par_post_init p = (if 0 < ps_lifetime p \<and> ps_lifetime p < 600 then Inr p else Inl ValueError)"

definition on_server :: "(auth_server, 'a) op \<Rightarrow> (par, 'a) op" where
  "on_server = zoom ps_server (\<lambda>s p. p\<lparr>ps_server := s\<rparr>)"

text \<open>The parameters that count: the claims of the request object, or those sent, without credentials.\<close>

definition effective_request :: "pydict \<Rightarrow> client \<Rightarrow> bool \<Rightarrow> (par, pydict) op" where
  "effective_request params c require_signed =
     (if dget params ''request'' \<noteq> None
      then bindM (gets id) (\<lambda>p.
        case ps_jar p of
          None \<Rightarrow> fail InvalidRequest
        | Some j \<Rightarrow>
            zoom (\<lambda>_. j) (\<lambda>j p. p\<lparr>ps_jar := Some j\<rparr>)
              (jar_validate (as_now (ps_server p)) (py_str (pget params ''request'')) (Some (cl_id c))))
      else bindM (require (\<not> require_signed) InvalidRequest) (\<lambda>_.
        ret (filter (\<lambda>(name, _). name \<notin> set CLIENT_AUTH_FIELDS) params)))"

text \<open>The reference, the stored request, and the answer.\<close>

definition par_store :: "client \<Rightarrow> pydict \<Rightarrow> (par, pydict) op" where
  "par_store c effective =
     bindM (on_server (on_rng (draw_token 24))) (\<lambda>t.
       bindM (modify (\<lambda>p. p\<lparr>ps_requests := dset (PAR_URN_PREFIX @ t)
           \<lparr>pr_request_uri = PAR_URN_PREFIX @ t, pr_client_id = cl_id c, pr_params = effective,
            pr_expires_at = as_now (ps_server p) + ps_lifetime p, pr_used = False\<rparr> (ps_requests p)\<rparr>)) (\<lambda>_.
         bindM (on_server (log_event ''par_pushed'' (''request for '' @ cl_id c))) (\<lambda>_.
           bindM (gets ps_lifetime) (\<lambda>lifetime.
             ret [(''request_uri'', PStr (PAR_URN_PREFIX @ t)), (''expires_in'', PInt lifetime)]))))"

definition par_push ::
  "pydict \<Rightarrow> (string \<times> string) option \<Rightarrow> string option \<Rightarrow> bool \<Rightarrow> (par, pydict) op" where
  "par_push params basic_auth tls require_signed =
     bindM (require (dget params ''request_uri'' = None) InvalidRequest) (\<lambda>_.
       bindM (on_server (authenticate_client params basic_auth tls)) (\<lambda>c.
         bindM (effective_request params c require_signed) (\<lambda>eff.
           let effective = dset ''client_id'' (PStr (cl_id c)) eff in
           bindM (gets ps_server) (\<lambda>s.
             bindM (lift (validate_authorization_request s effective)) (\<lambda>_. par_store c effective)))))"

definition par_authorize :: "pydict \<Rightarrow> (par, validated) op" where
  "par_authorize params =
     bindM (require (set (dkeys params) \<subseteq> {''client_id'', ''request_uri''}) InvalidRequestURI) (\<lambda>_.
       bindM (gets id) (\<lambda>p.
         case pget params ''request_uri'' of
           PStr uri \<Rightarrow>
             (case dget (ps_requests p) uri of
                None \<Rightarrow> fail InvalidRequestURI
              | Some entry \<Rightarrow>
                  bindM (require (\<not> pr_used entry) InvalidRequestURI) (\<lambda>_.
                    bindM (require (\<not> as_now (ps_server p) > pr_expires_at entry) InvalidRequestURI) (\<lambda>_.
                      bindM (require (pget params ''client_id'' = PStr (pr_client_id entry)) InvalidRequestURI) (\<lambda>_.
                        bindM (modify (\<lambda>p. p\<lparr>ps_requests := dupd uri (\<lambda>r. r\<lparr>pr_used := True\<rparr>) (ps_requests p)\<rparr>)) (\<lambda>_.
                          lift (validate_authorization_request (ps_server p) (pr_params entry)))))))
         | _ \<Rightarrow> fail InvalidRequestURI))"

section \<open>One-time tickets\<close>

text \<open>
  What the service promises: a store of tickets, each good for one use by its client before it
  expires.
\<close>

record ticket =
  tk_client :: string
  tk_params :: pydict
  tk_expires :: int

type_synonym tickets = "string \<Rightarrow> ticket option"

definition issue_ticket :: "string \<Rightarrow> ticket \<Rightarrow> tickets \<Rightarrow> tickets" where
  "issue_ticket uri t T = T(uri \<mapsto> t)"

definition spend_ticket :: "int \<Rightarrow> string \<Rightarrow> string \<Rightarrow> tickets \<Rightarrow> pydict option \<times> tickets" where
  "spend_ticket now cid uri T =
     (case T uri of
        Some t \<Rightarrow> if now \<le> tk_expires t \<and> tk_client t = cid then (Some (tk_params t), T(uri := None)) else (None, T)
      | None \<Rightarrow> (None, T))"

text \<open>The tickets that a service holds: its unused requests.\<close>

definition outstanding :: "par \<Rightarrow> tickets" where
  "outstanding p uri =
     (case dget (ps_requests p) uri of
        Some r \<Rightarrow> if pr_used r then None
                  else Some \<lparr>tk_client = pr_client_id r, tk_params = pr_params r, tk_expires = pr_expires_at r\<rparr>
      | None \<Rightarrow> None)"

lemma outstanding_used:
  "outstanding (p\<lparr>ps_requests := dupd uri (\<lambda>r. r\<lparr>pr_used := True\<rparr>) (ps_requests p)\<rparr>) = (outstanding p)(uri := None)"
  by (rule ext) (simp add: outstanding_def split: option.split)

lemma outstanding_issue:
  "outstanding (p\<lparr>ps_requests := dset uri r (ps_requests p)\<rparr>) =
   (if pr_used r then (outstanding p)(uri := None)
    else issue_ticket uri \<lparr>tk_client = pr_client_id r, tk_params = pr_params r, tk_expires = pr_expires_at r\<rparr> (outstanding p))"
  by (rule ext) (simp add: outstanding_def issue_ticket_def)

lemma outstanding_server [simp]:
  "outstanding (p\<lparr>ps_server := s\<rparr>) = outstanding p" "outstanding (p\<lparr>ps_jar := j\<rparr>) = outstanding p"
  by (rule ext, simp add: outstanding_def)+

lemma par_authorize_run:
  "dget (ps_requests p) uri = Some r \<Longrightarrow>
   par_authorize [(''client_id'', PStr cid), (''request_uri'', PStr uri)] p =
     (if pr_used r \<or> as_now (ps_server p) > pr_expires_at r \<or> cid \<noteq> pr_client_id r then (Inl (OAuth InvalidRequestURI), p)
      else (validate_authorization_request (ps_server p) (pr_params r),
            p\<lparr>ps_requests := dupd uri (\<lambda>r. r\<lparr>pr_used := True\<rparr>) (ps_requests p)\<rparr>))"
  by (simp add: par_authorize_def bindM_def require_def fail_def)

lemma par_authorize_unknown:
  "dget (ps_requests p) uri = None \<Longrightarrow>
   par_authorize [(''client_id'', PStr cid), (''request_uri'', PStr uri)] p = (Inl (OAuth InvalidRequestURI), p)"
  by (simp add: par_authorize_def bindM_def require_def fail_def)

lemma par_store_full:
  "\<exists>t p'. par_store c eff p = (Inr [(''request_uri'', PStr (PAR_URN_PREFIX @ t)), (''expires_in'', PInt (ps_lifetime p))], p')
     \<and> outstanding p' = issue_ticket (PAR_URN_PREFIX @ t)
         \<lparr>tk_client = cl_id c, tk_params = eff, tk_expires = as_now (ps_server p) + ps_lifetime p\<rparr> (outstanding p)
     \<and> (\<exists>g. ps_server p' = (ps_server p)\<lparr>as_rng := g,
            as_store := store_log ''par_pushed'' (''request for '' @ cl_id c) (as_store (ps_server p))\<rparr>)"
proof -
  obtain t g where rng: "draw_token 24 (as_rng (ps_server p)) = (Inr t, g)"
    by (simp add: draw_token_def random_token_def random_bytes_def)
  define s where "s = (ps_server p)\<lparr>as_rng := g\<rparr>"
  with rng have draw: "on_rng (draw_token 24) (ps_server p) = (Inr t, s)" by (simp add: on_rng_def zoom_def)
  from on_rng_same [OF draw] have now: "as_now s = as_now (ps_server p)" by (simp add: same_setup_def)
  let ?r = "\<lparr>pr_request_uri = PAR_URN_PREFIX @ t, pr_client_id = cl_id c, pr_params = eff,
    pr_expires_at = as_now (ps_server p) + ps_lifetime p, pr_used = False\<rparr>"
  let ?p = "p\<lparr>ps_server := s\<rparr>"
  let ?s = "s\<lparr>as_store := store_log ''par_pushed'' (''request for '' @ cl_id c) (as_store s)\<rparr>"
  have "par_store c eff p = (Inr [(''request_uri'', PStr (PAR_URN_PREFIX @ t)), (''expires_in'', PInt (ps_lifetime p))],
      ?p\<lparr>ps_requests := dset (PAR_URN_PREFIX @ t) ?r (ps_requests ?p), ps_server := ?s\<rparr>)"
    using draw now
    by (simp add: par_store_def on_server_def zoom_def bindM_def log_event_def on_store_def)
  moreover have "outstanding (?p\<lparr>ps_requests := dset (PAR_URN_PREFIX @ t) ?r (ps_requests ?p), ps_server := s'\<rparr>)
      = issue_ticket (PAR_URN_PREFIX @ t)
         \<lparr>tk_client = cl_id c, tk_params = eff, tk_expires = as_now (ps_server p) + ps_lifetime p\<rparr> (outstanding p)" for s'
    using outstanding_issue [where p = p and uri = "PAR_URN_PREFIX @ t" and r = ?r] by simp
  moreover have "?s = (ps_server p)\<lparr>as_rng := g,
      as_store := store_log ''par_pushed'' (''request for '' @ cl_id c) (as_store (ps_server p))\<rparr>"
    by (simp add: s_def)
  ultimately show ?thesis
    by (intro exI [of _ t] exI [of _ "?p\<lparr>ps_requests := dset (PAR_URN_PREFIX @ t) ?r (ps_requests ?p), ps_server := ?s\<rparr>"])
       (auto intro: exI [of _ g])
qed

lemma par_store_run:
  "\<exists>t p'. par_store c eff p = (Inr [(''request_uri'', PStr (PAR_URN_PREFIX @ t)), (''expires_in'', PInt (ps_lifetime p))], p')
     \<and> outstanding p' = issue_ticket (PAR_URN_PREFIX @ t)
         \<lparr>tk_client = cl_id c, tk_params = eff, tk_expires = as_now (ps_server p) + ps_lifetime p\<rparr> (outstanding p)"
  using par_store_full [of c eff p] by blast

text \<open>
  C6: The service implements a store of one-time tickets.  Authorizing with a reference and a
  client spends the ticket of the abstract store: the request goes on, with exactly the
  parameters that were pushed, if and only if the ticket is there, for that client, and in
  time, and then the ticket is gone; otherwise the reference is refused and nothing changes.
  Storing a pushed request adds the ticket of its client, for the configured lifetime.
\<close>

theorem par_implements_tickets:
  "(case spend_ticket (as_now (ps_server p)) cid uri (outstanding p) of
      (Some ps, T) \<Rightarrow> fst (par_authorize [(''client_id'', PStr cid), (''request_uri'', PStr uri)] p)
                        = validate_authorization_request (ps_server p) ps
    | (None, T) \<Rightarrow> fst (par_authorize [(''client_id'', PStr cid), (''request_uri'', PStr uri)] p) = Inl (OAuth InvalidRequestURI))
   \<and> outstanding (snd (par_authorize [(''client_id'', PStr cid), (''request_uri'', PStr uri)] p))
       = snd (spend_ticket (as_now (ps_server p)) cid uri (outstanding p))
   \<and> (\<exists>t p'. par_store c eff p = (Inr [(''request_uri'', PStr (PAR_URN_PREFIX @ t)), (''expires_in'', PInt (ps_lifetime p))], p')
        \<and> outstanding p' = issue_ticket (PAR_URN_PREFIX @ t)
            \<lparr>tk_client = cl_id c, tk_params = eff, tk_expires = as_now (ps_server p) + ps_lifetime p\<rparr> (outstanding p))"
proof (cases "dget (ps_requests p) uri")
  case None
  then have "outstanding p uri = None" by (simp add: outstanding_def)
  then show ?thesis using par_authorize_unknown [OF None] par_store_run by (simp add: spend_ticket_def)
next
  case (Some r)
  have out: "outstanding p uri = (if pr_used r then None
      else Some \<lparr>tk_client = pr_client_id r, tk_params = pr_params r, tk_expires = pr_expires_at r\<rparr>)"
    using Some by (simp add: outstanding_def)
  show ?thesis
    using par_authorize_run [OF Some] par_store_run [of c eff p] outstanding_used [where p = p and uri = uri]
    by (auto simp: spend_ticket_def out)
qed

section \<open>A reference is used once\<close>

text \<open>Everything that happens to the service and its server.\<close>

inductive par_run :: "par \<Rightarrow> par \<Rightarrow> bool" where
  refl: "par_run p p"
| server: "par_run p p1 \<Longrightarrow> server_step (ps_server p1) s \<Longrightarrow> par_run p (p1\<lparr>ps_server := s\<rparr>)"
| push: "par_run p p1 \<Longrightarrow> par_push params basic tls require_signed p1 = (r, p2) \<Longrightarrow> par_run p p2"
| authorize: "par_run p p1 \<Longrightarrow> par_authorize params p1 = (v, p2) \<Longrightarrow> par_run p p2"

text \<open>The reference was used, and its random part is never drawn again.\<close>

definition reference_spent :: "string \<Rightarrow> par \<Rightarrow> bool" where
  "reference_spent t p \<longleftrightarrow> never_again {t} (as_rng (ps_server p))
     \<and> (\<exists>r. dget (ps_requests p) (PAR_URN_PREFIX @ t) = Some r \<and> pr_used r)"

lemma reference_spent_server:
  "reference_spent t p \<Longrightarrow> never_again {t} (as_rng s) \<Longrightarrow> reference_spent t (p\<lparr>ps_server := s\<rparr>)"
  by (simp add: reference_spent_def)

lemma on_server_spent: "anything.stable {t} m \<Longrightarrow> preserves (reference_spent t) (on_server m)"
proof (rule preservesI)
  fix p assume m: "anything.stable {t} m" and p: "reference_spent t p"
  obtain r s where run: "m (ps_server p) = (r, s)" by fastforce
  from p have "holds {t} (\<lambda>_. True) (ps_server p)" by (simp add: holds_def reference_spent_def)
  from anything.stableD [OF m run this] have "never_again {t} (as_rng s)" by (simp add: holds_def)
  with p run show "reference_spent t (snd (on_server m p))"
    by (simp add: on_server_def zoom_def reference_spent_server)
qed

lemma par_store_spent: "preserves (reference_spent t) (par_store c eff)"
proof (rule preservesI)
  fix p assume p: "reference_spent t p"
  obtain x s where draw: "on_rng (draw_token 24) (ps_server p) = (Inr x, s)"
    by (simp add: on_rng_def zoom_def draw_token_def random_token_def random_bytes_def)
  from p have "holds {t} (\<lambda>_. True) (ps_server p)" by (simp add: holds_def reference_spent_def)
  with tripleD [OF triple_draw [where A = "{t}" and Q = "\<lambda>_. True" and E = "\<lambda>_. True"] draw]
  have x: "x \<noteq> t" "never_again {t} (as_rng s)" by (auto simp: holds_def)
  with p draw show "reference_spent t (snd (par_store c eff p))"
    by (auto simp: par_store_def on_server_def zoom_def bindM_def log_event_def on_store_def reference_spent_def)
qed

lemma effective_request_spent: "preserves (reference_spent t) (effective_request params c require_signed)"
proof -
  have jar: "preserves (reference_spent t) (zoom (\<lambda>_. j) (\<lambda>j p. p\<lparr>ps_jar := Some j\<rparr>) m)" for j and m :: "(jar, 'a) op"
    by (rule preservesI) (auto simp: zoom_def reference_spent_def split: prod.split)
  show ?thesis
    unfolding effective_request_def require_def fail_def
    by (intro preserves_intros jar)
qed

lemma par_push_spent: "preserves (reference_spent t) (par_push params basic tls require_signed)"
  unfolding par_push_def require_def Let_def
  by (intro preserves_intros effective_request_spent par_store_spent on_server_spent anything.stable_authenticate)

lemma par_authorize_spent: "preserves (reference_spent t) (par_authorize params)"
proof -
  have use: "preserves (reference_spent t) (modify (\<lambda>p. p\<lparr>ps_requests := dupd uri (\<lambda>r. r\<lparr>pr_used := True\<rparr>) (ps_requests p)\<rparr>))" for uri
    by (rule preserves_modify) (auto simp: reference_spent_def)
  show ?thesis
    unfolding par_authorize_def require_def fail_def
    by (intro preserves_intros) (auto split: pyval.split option.split intro!: preserves_intros use)
qed

lemma par_run_spent: "par_run p p' \<Longrightarrow> reference_spent t p \<Longrightarrow> reference_spent t p'"
proof (induction rule: par_run.induct)
  case (server p p1 s)
  then have "holds {t} (\<lambda>_. True) (ps_server p1)" by (simp add: holds_def reference_spent_def)
  with anything.step_preserves [OF server.hyps(2)] server show ?case
    by (auto simp: holds_def intro: reference_spent_server)
next
  case (push p p1 params basic tls sign r p2)
  then show ?case using preservesD [OF par_push_spent] by blast
next
  case (authorize p p1 params v p2)
  then show ?case using preservesD [OF par_authorize_spent] by blast
qed

lemma par_authorize_D:
  assumes "par_authorize params p = (Inr v, p')"
  shows "\<exists>uri r. pget params ''request_uri'' = PStr uri \<and> dget (ps_requests p) uri = Some r \<and> \<not> pr_used r
    \<and> as_now (ps_server p) \<le> pr_expires_at r \<and> pget params ''client_id'' = PStr (pr_client_id r)
    \<and> set (dkeys params) \<subseteq> {''client_id'', ''request_uri''}
    \<and> validate_authorization_request (ps_server p) (pr_params r) = Inr v
    \<and> p' = p\<lparr>ps_requests := dupd uri (\<lambda>r. r\<lparr>pr_used := True\<rparr>) (ps_requests p)\<rparr>"
proof -
  from assms obtain uri r where u: "pget params ''request_uri'' = PStr uri" "dget (ps_requests p) uri = Some r"
    by (auto simp: par_authorize_def bindM_Inr_iff require_Inr fail_Inr split: pyval.splits option.splits)
  with assms show ?thesis
    by (auto simp: par_authorize_def bindM_Inr_iff require_Inr)
qed

text \<open>
  A reference gets a client to the login page only if it was pushed, for that client, less
  than its lifetime ago, with nothing else in the front channel, and then with the parameters
  that were pushed and not others.  It does so once: whatever is pushed, authorized, or done at
  the server afterwards, the reference is refused.
\<close>

theorem par_reference_is_single_use:
  assumes "par_authorize params p = (Inr v, p1)" "pget params ''request_uri'' = PStr (PAR_URN_PREFIX @ t)"
    and "never_again {t} (as_rng (ps_server p))" "par_run p1 p2"
    and "pget params' ''request_uri'' = PStr (PAR_URN_PREFIX @ t)"
  shows "(\<exists>r. dget (ps_requests p) (PAR_URN_PREFIX @ t) = Some r \<and> \<not> pr_used r
      \<and> as_now (ps_server p) \<le> pr_expires_at r \<and> pget params ''client_id'' = PStr (pr_client_id r)
      \<and> set (dkeys params) \<subseteq> {''client_id'', ''request_uri''}
      \<and> validate_authorization_request (ps_server p) (pr_params r) = Inr v)
    \<and> par_authorize params' p2 = (Inl (OAuth InvalidRequestURI), p2)"
proof -
  from par_authorize_D [OF assms(1)] assms(2) obtain r where
    r: "dget (ps_requests p) (PAR_URN_PREFIX @ t) = Some r" "\<not> pr_used r" "as_now (ps_server p) \<le> pr_expires_at r"
      "pget params ''client_id'' = PStr (pr_client_id r)" "set (dkeys params) \<subseteq> {''client_id'', ''request_uri''}"
      "validate_authorization_request (ps_server p) (pr_params r) = Inr v"
    and p1: "p1 = p\<lparr>ps_requests := dupd (PAR_URN_PREFIX @ t) (\<lambda>r. r\<lparr>pr_used := True\<rparr>) (ps_requests p)\<rparr>"
    by auto
  have "reference_spent t p1" using r(1) assms(3) by (simp add: p1 reference_spent_def)
  with par_run_spent [OF assms(4)] obtain r2 where "dget (ps_requests p2) (PAR_URN_PREFIX @ t) = Some r2" "pr_used r2"
    by (auto simp: reference_spent_def)
  with assms(5) have "par_authorize params' p2 = (Inl (OAuth InvalidRequestURI), p2)"
    by (simp add: par_authorize_def bindM_def require_def)
  with r show ?thesis by blast
qed

section \<open>On the sample server\<close>

definition sample_par :: par where
  "sample_par = \<lparr>ps_server = sample_server, ps_jar = None, ps_lifetime = 90,
     ps_requests = [(PAR_URN_PREFIX @ ''par!'',
       \<lparr>pr_request_uri = PAR_URN_PREFIX @ ''par!'', pr_client_id = ''app'', pr_params = sample_auth_params,
        pr_expires_at = 1090, pr_used = False\<rparr>)]\<rparr>"

theorem par_reference_is_single_use_witness:
  "\<exists>p1. par_authorize [(''client_id'', PStr ''app''), (''request_uri'', PStr (PAR_URN_PREFIX @ ''par!''))] sample_par
      = (Inr sample_validated, p1)
    \<and> par_authorize [(''client_id'', PStr ''app''), (''request_uri'', PStr (PAR_URN_PREFIX @ ''par!''))] p1
      = (Inl (OAuth InvalidRequestURI), p1)"
proof -
  let ?params = "[(''client_id'', PStr ''app''), (''request_uri'', PStr (PAR_URN_PREFIX @ ''par!''))]"
  let ?p1 = "sample_par\<lparr>ps_requests := dupd (PAR_URN_PREFIX @ ''par!'') (\<lambda>r. r\<lparr>pr_used := True\<rparr>) (ps_requests sample_par)\<rparr>"
  have run: "par_authorize ?params sample_par = (Inr sample_validated, ?p1)"
    using sample_request_validates
    by (simp add: par_authorize_run [where cid = "''app''"] sample_par_def) (simp add: sample_server_def)
  have foreign: "never_again {''par!''} (as_rng (ps_server sample_par))" by (rule never_again_foreign) code_simp
  from par_reference_is_single_use [OF run _ foreign par_run.refl, of ?params] run show ?thesis by simp
qed

end
