(* ===== verification/Ciba.thy ===== *)
theory Ciba
  imports AuthFlow
begin

text \<open>
  \<open>authlab/oauth/ciba.py\<close>: authentication that the client starts and the user approves on
  another device.  The service holds the authorization server.  Its own clock is modelled as that of the server:
  \<open>__post_init__\<close> takes the server's clock unless the caller passes another one, a case left out here.
\<close>

definition CIBA_GRANT_TYPE :: string where
  "CIBA_GRANT_TYPE = ''urn:openid:params:grant-type:ciba''"

record backchannel =
  bc_auth_req_id :: string
  bc_client_id :: string
  bc_scope :: "string list"
  bc_login_hint :: string
  bc_binding_message :: pyval
  bc_expires_at :: int
  bc_interval :: int
  bc_mode :: string
  bc_endpoint :: "string option"
  bc_token :: "string option"
  bc_thumbprint :: "string option"
  bc_subject :: "string option"
  bc_amr :: "string list"
  bc_denied :: bool
  bc_used :: bool
  bc_last_polled_at :: "int option"

record ciba =
  cb_server :: auth_server
  cb_lifetime :: int
  cb_interval :: int
  cb_requests :: "(string, backchannel) dict"

definition on_auth :: "(auth_server, 'a) op \<Rightarrow> (ciba, 'a) op" where
  "on_auth = zoom cb_server (\<lambda>s c. c\<lparr>cb_server := s\<rparr>)"

definition on_request :: "string \<Rightarrow> (backchannel \<Rightarrow> backchannel) \<Rightarrow> (ciba, unit) op" where
  "on_request k f = modify (\<lambda>c. c\<lparr>cb_requests := dupd k f (cb_requests c)\<rparr>)"

text \<open>\<open>str.isprintable\<close> on the characters of the model.\<close>

definition is_printable :: "char \<Rightarrow> bool" where
  "is_printable c = (let n = of_char c :: nat in (32 \<le> n \<and> n \<le> 126) \<or> (161 \<le> n \<and> n \<noteq> 173))"

definition user_hint :: "pydict \<Rightarrow> string option" where
  "user_hint params =
     (case filter truthy (map (pget params) [''login_hint'', ''login_hint_token'', ''id_token_hint'']) of
        [PStr h] \<Rightarrow> Some h
      | _ \<Rightarrow> None)"

definition binding_message_ok :: "pyval \<Rightarrow> bool" where
  "binding_message_ok m =
     (case m of
        PNone \<Rightarrow> True
      | PStr s \<Rightarrow> 0 < length s \<and> length s \<le> 20 \<and> list_all is_printable s
      | _ \<Rightarrow> False)"

definition notification_ok :: "client \<Rightarrow> pyval \<Rightarrow> bool" where
  "notification_ok c token =
     (truthy_str (cl_notification_endpoint c) \<and> (case token of PStr s \<Rightarrow> \<not> length s < 16 | _ \<Rightarrow> False))"

definition ciba_start ::
  "pydict \<Rightarrow> (string \<times> string) option \<Rightarrow> string option \<Rightarrow> (ciba, pydict) op" where
  "ciba_start params basic_auth tls =
     bindM (on_auth (authenticate_client params basic_auth tls)) (\<lambda>c.
       bindM (require (CIBA_GRANT_TYPE \<in> set (cl_grant_types c)) UnauthorizedClient) (\<lambda>_.
         let scope = (if truthy (pget params ''scope'') then split_ws (py_str (pget params ''scope'')) else []);
             message = pget params ''binding_message''; mode = cl_delivery_mode c;
             token = pget params ''client_notification_token'' in
         bindM (require (''openid'' \<in> set scope) InvalidRequest) (\<lambda>_.
           case user_hint params of
             None \<Rightarrow> fail InvalidRequest
           | Some hint \<Rightarrow>
               bindM (require (binding_message_ok message) InvalidRequest) (\<lambda>_.
                 bindM (require (mode \<in> {''poll'', ''ping'', ''push''}) InvalidRequest) (\<lambda>_.
                   bindM (require (mode \<in> {''ping'', ''push''} \<longrightarrow> notification_ok c token) InvalidRequest) (\<lambda>_.
                     bindM (gets id) (\<lambda>b.
                       let expiry = pget_or params ''requested_expiry'' (PInt (cb_lifetime b)) in
                       case as_int expiry of
                         None \<Rightarrow> fail InvalidRequest
                       | Some seconds \<Rightarrow>
                           bindM (require (1 \<le> seconds \<and> seconds \<le> cb_lifetime b) InvalidRequest) (\<lambda>_.
                             bindM (on_auth (on_rng (draw_token 32))) (\<lambda>rid.
                               let entry = \<lparr>bc_auth_req_id = rid, bc_client_id = cl_id c, bc_scope = scope, bc_login_hint = hint,
                                     bc_binding_message = message, bc_expires_at = as_now (cb_server b) + seconds,
                                     bc_interval = cb_interval b, bc_mode = mode, bc_endpoint = cl_notification_endpoint c,
                                     bc_token = as_str token, bc_thumbprint = tls, bc_subject = None, bc_amr = [],
                                     bc_denied = False, bc_used = False, bc_last_polled_at = None\<rparr> in
                               bindM (modify (\<lambda>b. b\<lparr>cb_requests := dset rid entry (cb_requests b)\<rparr>)) (\<lambda>_.
                                 ret [(''auth_req_id'', PStr rid), (''expires_in'', expiry),
                                      (''interval'', PInt (cb_interval b))]))))))))))"

definition ciba_record :: "string \<Rightarrow> (ciba, backchannel) op" where
  "ciba_record rid =
     bindM (gets id) (\<lambda>b.
       case dget (cb_requests b) rid of
         None \<Rightarrow> fail InvalidGrant
       | Some r \<Rightarrow>
           bindM (require (\<not> bc_used r) InvalidGrant) (\<lambda>_.
             bindM (require (\<not> as_now (cb_server b) > bc_expires_at r) ExpiredTokenError) (\<lambda>_. ret r)))"

text \<open>The grant that an approved request stands for.\<close>

definition ciba_grant :: "auth_server \<Rightarrow> client \<Rightarrow> backchannel \<Rightarrow> grant" where
  "ciba_grant s c r =
     \<lparr>gr_subject = bc_subject r, gr_scope = bc_scope r, gr_nonce = PNone, gr_amr = bc_amr r, gr_auth_time = as_now s,
      gr_audience = take 1 (as_known_resources s), gr_jkt = None,
      gr_x5t = (if cl_tls_bound c then bc_thumbprint r else None), gr_include_refresh = True, gr_family = None,
      gr_id_token = True, gr_details = []\<rparr>"

definition ciba_tokens :: "string \<Rightarrow> backchannel \<Rightarrow> string option \<Rightarrow> (ciba, pydict) op" where
  "ciba_tokens rid r tls =
     bindM (gets cb_server) (\<lambda>s.
       case dget (st_clients (as_store s)) (bc_client_id r) of
         None \<Rightarrow> raise (Py KeyError)
       | Some c \<Rightarrow>
           bindM (require (\<not> (cl_tls_bound c \<and> tls \<noteq> bc_thumbprint r)) InvalidGrant) (\<lambda>_.
             bindM (on_request rid (\<lambda>r. r\<lparr>bc_used := True\<rparr>)) (\<lambda>_.
               on_auth (issue_token_set c (ciba_grant s c r)))))"

definition bearer :: "string option \<Rightarrow> string" where
  "bearer token = ''Bearer '' @ (case token of None \<Rightarrow> ''None'' | Some t \<Rightarrow> t)"

definition envelope :: "string \<Rightarrow> backchannel \<Rightarrow> pydict \<Rightarrow> pydict" where
  "envelope mode r body =
     [(''mode'', PStr mode), (''endpoint'', opt_str (bc_endpoint r)), (''authorization'', PStr (bearer (bc_token r))),
      (''body'', PDict body)]"

definition ciba_approve :: "string \<Rightarrow> string \<Rightarrow> string list option \<Rightarrow> (ciba, pydict option) op" where
  "ciba_approve rid subject amr =
     bindM (ciba_record rid) (\<lambda>r.
       bindM (gets (\<lambda>b. st_users (as_store (cb_server b)))) (\<lambda>users.
         bindM (require (dget users subject \<noteq> None) InvalidRequest) (\<lambda>_.
           bindM (on_request rid (\<lambda>r. r\<lparr>bc_subject := Some subject, bc_amr := amr_or amr\<rparr>)) (\<lambda>_.
             let r1 = r\<lparr>bc_subject := Some subject, bc_amr := amr_or amr\<rparr> in
             if bc_mode r = ''poll'' then ret None
             else if bc_mode r = ''ping'' then ret (Some (envelope ''ping'' r1 [(''auth_req_id'', PStr rid)]))
             else bindM (ciba_tokens rid r1 (bc_thumbprint r)) (\<lambda>tokens. ret (Some (envelope ''push'' r1 tokens)))))))"

definition ciba_deny :: "string \<Rightarrow> (ciba, unit) op" where
  "ciba_deny rid = bindM (ciba_record rid) (\<lambda>_. on_request rid (\<lambda>r. r\<lparr>bc_denied := True\<rparr>))"

text \<open>Polling before the user has answered; polling too fast slows the client down.\<close>

definition ciba_pending :: "string \<Rightarrow> backchannel \<Rightarrow> (ciba, pydict) op" where
  "ciba_pending rid r =
     bindM (gets (\<lambda>b. as_now (cb_server b))) (\<lambda>now.
       if (case bc_last_polled_at r of Some t \<Rightarrow> now - t < bc_interval r | None \<Rightarrow> False)
       then bindM (on_request rid (\<lambda>r. r\<lparr>bc_interval := bc_interval r + 5, bc_last_polled_at := Some now\<rparr>)) (\<lambda>_. fail SlowDown)
       else bindM (on_request rid (\<lambda>r. r\<lparr>bc_last_polled_at := Some now\<rparr>)) (\<lambda>_. fail AuthorizationPending))"

definition requested_id :: "pydict \<Rightarrow> string" where
  "requested_id params = (if truthy (pget params ''auth_req_id'') then py_str (pget params ''auth_req_id'') else [])"

definition ciba_token ::
  "pydict \<Rightarrow> (string \<times> string) option \<Rightarrow> string option \<Rightarrow> (ciba, pydict) op" where
  "ciba_token params basic_auth tls =
     bindM (require (pget params ''grant_type'' = PStr CIBA_GRANT_TYPE) InvalidGrant) (\<lambda>_.
       bindM (on_auth (authenticate_client params basic_auth tls)) (\<lambda>c.
         let rid = requested_id params in
         bindM (ciba_record rid) (\<lambda>r.
           bindM (require (bc_client_id r = cl_id c) InvalidGrant) (\<lambda>_.
             bindM (require (bc_mode r \<noteq> ''push'') InvalidGrant) (\<lambda>_.
               bindM (require (\<not> bc_denied r) AccessDenied) (\<lambda>_.
                 if bc_subject r = None then ciba_pending rid r else ciba_tokens rid r tls))))))"

section \<open>Tokens are given out once, after an approval\<close>

text \<open>Everything that happens to the service and its server.\<close>

inductive ciba_run :: "ciba \<Rightarrow> ciba \<Rightarrow> bool" where
  refl: "ciba_run b b"
| server: "ciba_run b b1 \<Longrightarrow> server_step (cb_server b1) s \<Longrightarrow> ciba_run b (b1\<lparr>cb_server := s\<rparr>)"
| start: "ciba_run b b1 \<Longrightarrow> ciba_start params basic tls b1 = (r, b2) \<Longrightarrow> ciba_run b b2"
| approve: "ciba_run b b1 \<Longrightarrow> ciba_approve rid subject amr b1 = (v, b2) \<Longrightarrow> ciba_run b b2"
| deny: "ciba_run b b1 \<Longrightarrow> ciba_deny rid b1 = (d, b2) \<Longrightarrow> ciba_run b b2"
| token: "ciba_run b b1 \<Longrightarrow> ciba_token params basic tls b1 = (r, b2) \<Longrightarrow> ciba_run b b2"

text \<open>
  A property of one request that survives updates of requests and the drawing of other
  identifiers survives every operation.
\<close>

locale request_property =
  fixes rid :: string and S :: "backchannel \<Rightarrow> bool"
  assumes keep_used: "S r \<Longrightarrow> S (r\<lparr>bc_used := True\<rparr>)"
    and keep_denied: "S r \<Longrightarrow> S (r\<lparr>bc_denied := True\<rparr>)"
    and keep_subject: "S r \<Longrightarrow> S (r\<lparr>bc_subject := s, bc_amr := a\<rparr>)"
    and keep_poll: "S r \<Longrightarrow> S (r\<lparr>bc_last_polled_at := t\<rparr>)" "S r \<Longrightarrow> S (r\<lparr>bc_interval := i, bc_last_polled_at := t\<rparr>)"
begin

definition kept :: "ciba \<Rightarrow> bool" where
  "kept b \<longleftrightarrow> never_again {rid} (as_rng (cb_server b)) \<and> (\<exists>r. dget (cb_requests b) rid = Some r \<and> S r)"

lemma kept_on_auth: "anything.stable {rid} m \<Longrightarrow> preserves kept (on_auth m)"
proof (rule preservesI)
  fix b assume m: "anything.stable {rid} m" and b: "kept b"
  obtain r s where run: "m (cb_server b) = (r, s)" by fastforce
  from b have "holds {rid} (\<lambda>_. True) (cb_server b)" by (simp add: holds_def kept_def)
  from anything.stableD [OF m run this] have "never_again {rid} (as_rng s)" by (simp add: holds_def)
  with b run show "kept (snd (on_auth m b))" by (simp add: on_auth_def zoom_def kept_def)
qed

lemma kept_on_request: "(\<And>r. S r \<Longrightarrow> S (f r)) \<Longrightarrow> preserves kept (on_request k f)"
  unfolding on_request_def by (rule preserves_modify) (auto simp: kept_def)

lemma kept_record: "preserves kept (ciba_record k)"
  unfolding ciba_record_def fail_def require_def by (intro preserves_intros)

lemma stable_issue: "anything.stable A (issue_token_set c (ciba_grant s c' r))"
  by (rule anything.stable_token_set_new) (simp add: ciba_grant_def)

lemma kept_tokens: "preserves kept (ciba_tokens k r tls)"
  unfolding ciba_tokens_def require_def
  by (intro preserves_intros kept_on_request kept_on_auth stable_issue keep_used)

lemma kept_approve: "preserves kept (ciba_approve k subject amr)"
  unfolding ciba_approve_def require_def Let_def
  by (intro preserves_intros kept_record kept_on_request kept_tokens keep_subject)

lemma kept_deny: "preserves kept (ciba_deny k)"
  unfolding ciba_deny_def by (intro preserves_intros kept_record kept_on_request keep_denied)

lemma kept_pending: "preserves kept (ciba_pending k r)"
  unfolding ciba_pending_def fail_def by (intro preserves_intros kept_on_request keep_poll)

lemma kept_token: "preserves kept (ciba_token params basic tls)"
  unfolding ciba_token_def require_def Let_def
  by (intro preserves_intros kept_on_auth anything.stable_authenticate kept_record kept_pending kept_tokens)

lemma kept_store: "preserves kept (bindM (on_auth (on_rng (draw_token 32))) (\<lambda>x.
    bindM (modify (\<lambda>b. b\<lparr>cb_requests := dset x (entry x) (cb_requests b)\<rparr>)) (\<lambda>_. ret (answer x))))"
proof (rule preservesI)
  fix b assume b: "kept b"
  obtain x s where draw: "on_rng (draw_token 32) (cb_server b) = (Inr x, s)"
    by (simp add: on_rng_def zoom_def draw_token_def random_token_def random_bytes_def)
  from b have "holds {rid} (\<lambda>_. True) (cb_server b)" by (simp add: holds_def kept_def)
  with tripleD [OF triple_draw [where A = "{rid}" and Q = "\<lambda>_. True" and E = "\<lambda>_. True"] draw]
  have "x \<noteq> rid" "never_again {rid} (as_rng s)" by (auto simp: holds_def)
  with b draw show "kept (snd (bindM (on_auth (on_rng (draw_token 32))) (\<lambda>x.
    bindM (modify (\<lambda>b. b\<lparr>cb_requests := dset x (entry x) (cb_requests b)\<rparr>)) (\<lambda>_. ret (answer x))) b))"
    by (auto simp: on_auth_def zoom_def bindM_def kept_def)
qed

lemma kept_start: "preserves kept (ciba_start params basic tls)"
  unfolding ciba_start_def require_def fail_def Let_def
  by (intro preserves_intros kept_on_auth anything.stable_authenticate kept_store)

lemma kept_run: "ciba_run b b' \<Longrightarrow> kept b \<Longrightarrow> kept b'"
proof (induction rule: ciba_run.induct)
  case (server b b1 s)
  then have "holds {rid} (\<lambda>_. True) (cb_server b1)" by (simp add: holds_def kept_def)
  with anything.step_preserves [OF server.hyps(2)] server show ?case by (simp add: holds_def kept_def)
qed (blast dest: preservesD [OF kept_start] preservesD [OF kept_approve] preservesD [OF kept_deny] preservesD [OF kept_token])+

end

interpretation used_request: request_property rid bc_used for rid
  by unfold_locales auto

interpretation denied_request: request_property rid bc_denied for rid
  by unfold_locales auto

lemma ciba_record_D: "ciba_record rid b = (Inr r, b') \<Longrightarrow>
  b' = b \<and> dget (cb_requests b) rid = Some r \<and> \<not> bc_used r \<and> as_now (cb_server b) \<le> bc_expires_at r"
  by (auto simp: ciba_record_def bindM_Inr_iff require_Inr fail_Inr split: option.splits)

lemma ciba_record_used: "dget (cb_requests b) rid = Some r \<Longrightarrow> bc_used r \<Longrightarrow> ciba_record rid b = (Inl (OAuth InvalidGrant), b)"
  by (simp add: ciba_record_def bindM_def require_def)

lemma ciba_token_D:
  assumes "ciba_token params basic tls b = (Inr resp, b')"
  obtains c s r where "authenticate_client params basic tls (cb_server b) = (Inr c, s)"
    "dget (cb_requests b) (requested_id params) = Some r" "\<not> bc_used r" "as_now s \<le> bc_expires_at r"
    "bc_client_id r = cl_id c" "bc_mode r \<noteq> ''push''" "\<not> bc_denied r" "bc_subject r \<noteq> None"
    "ciba_tokens (requested_id params) r tls (b\<lparr>cb_server := s\<rparr>) = (Inr resp, b')"
proof -
  from assms obtain c b1 r b2 where auth: "on_auth (authenticate_client params basic tls) b = (Inr c, b1)"
    and r: "ciba_record (requested_id params) b1 = (Inr r, b2)"
    and rest: "bc_client_id r = cl_id c" "bc_mode r \<noteq> ''push''" "\<not> bc_denied r"
      "(if bc_subject r = None then ciba_pending (requested_id params) r else ciba_tokens (requested_id params) r tls) b2
        = (Inr resp, b')"
    unfolding ciba_token_def Let_def by (auto simp: bindM_Inr_iff require_Inr)
  obtain s where s: "authenticate_client params basic tls (cb_server b) = (Inr c, s)" "b1 = b\<lparr>cb_server := s\<rparr>"
    using auth by (auto simp: on_auth_def zoom_def split: prod.splits)
  note r = ciba_record_D [OF r]
  have pending: "ciba_pending rid r b \<noteq> (Inr resp, b')" for rid b
    by (auto simp: ciba_pending_def bindM_Inr_iff fail_Inr split: if_splits)
  show thesis
    using that [OF s(1), of r] r s(2) rest pending by (auto split: if_splits)
qed

lemma ciba_tokens_D:
  assumes "ciba_tokens rid r tls b = (Inr resp, b')" "dget (cb_requests b) rid = Some r0"
  shows "\<exists>c av a. dget (st_clients (as_store (cb_server b))) (bc_client_id r) = Some c
    \<and> (cl_tls_bound c \<longrightarrow> tls = bc_thumbprint r)
    \<and> pget resp ''access_token'' = PStr av \<and> dget (st_access_tokens (as_store (cb_server b'))) av = Some a
    \<and> at_subject a = bc_subject r \<and> at_scope a = bc_scope r \<and> at_client_id a = cl_id c
    \<and> at_x5t a = (if cl_tls_bound c then bc_thumbprint r else None)
    \<and> dget (cb_requests b') rid = Some (r0\<lparr>bc_used := True\<rparr>)"
proof -
  from assms(1) obtain c where c: "dget (st_clients (as_store (cb_server b))) (bc_client_id r) = Some c"
    "cl_tls_bound c \<longrightarrow> tls = bc_thumbprint r"
    and go: "on_auth (issue_token_set c (ciba_grant (cb_server b) c r))
      (b\<lparr>cb_requests := dupd rid (\<lambda>r. r\<lparr>bc_used := True\<rparr>) (cb_requests b)\<rparr>) = (Inr resp, b')"
    by (auto simp: ciba_tokens_def bindM_Inr_iff require_Inr on_request_def split: option.splits)
  from go obtain s where s: "issue_token_set c (ciba_grant (cb_server b) c r) (cb_server b) = (Inr resp, s)"
    "b' = b\<lparr>cb_requests := dupd rid (\<lambda>r. r\<lparr>bc_used := True\<rparr>) (cb_requests b), cb_server := s\<rparr>"
    by (auto simp: on_auth_def zoom_def split: prod.splits)
  from minted_access [OF conjunct2 [OF issue_token_set_D [OF s(1)]]] obtain av a where
    a: "pget resp ''access_token'' = PStr av" "access_for (cb_server b) c (ciba_grant (cb_server b) c r) av a"
      "dget (st_access_tokens (as_store s)) av = Some a" by blast
  from a(2) have "at_subject a = bc_subject r" "at_scope a = bc_scope r" "at_client_id a = cl_id c"
    "at_x5t a = (if cl_tls_bound c then bc_thumbprint r else None)"
    by (simp_all add: access_for_def ciba_grant_def)
  with a c s(2) assms(2) show ?thesis by (intro exI [of _ c] exI [of _ av] exI [of _ a]) simp
qed

text \<open>
  C31: A backchannel request yields tokens at the token endpoint only for the authenticated
  client that started it, in time, after a user approved it and while nobody has denied it; the
  tokens are for that user and the scope of the request, bound to the certificate the request
  came with.  It does so once: afterwards, over any further run in which the random source does not
  draw its identifier again, neither a token request nor an approval of it succeeds.
\<close>

theorem ciba_request_yields_tokens_once:
  assumes "ciba_token params basic tls b = (Inr resp, b1)" "requested_id params = rid"
    and "never_again {rid} (as_rng (cb_server b1))" "ciba_run b1 b2" "requested_id params' = rid"
  shows "\<exists>c s r av a. authenticate_client params basic tls (cb_server b) = (Inr c, s)
    \<and> dget (cb_requests b) rid = Some r \<and> bc_client_id r = cl_id c \<and> as_now s \<le> bc_expires_at r
    \<and> bc_mode r \<noteq> ''push'' \<and> \<not> bc_denied r \<and> bc_subject r \<noteq> None
    \<and> pget resp ''access_token'' = PStr av \<and> dget (st_access_tokens (as_store (cb_server b1))) av = Some a
    \<and> at_subject a = bc_subject r \<and> at_scope a = bc_scope r
    \<and> fst (ciba_token params' basic' tls' b2) \<notin> range Inr
    \<and> ciba_approve rid subject amr b2 = (Inl (OAuth InvalidGrant), b2)"
proof -
  from assms(1) obtain c s r where t: "authenticate_client params basic tls (cb_server b) = (Inr c, s)"
    "dget (cb_requests b) (requested_id params) = Some r" "\<not> bc_used r" "as_now s \<le> bc_expires_at r"
    "bc_client_id r = cl_id c" "bc_mode r \<noteq> ''push''" "\<not> bc_denied r" "bc_subject r \<noteq> None"
    "ciba_tokens (requested_id params) r tls (b\<lparr>cb_server := s\<rparr>) = (Inr resp, b1)"
    by (rule ciba_token_D)
  from ciba_tokens_D [OF t(9), of r] t(2) obtain av a where
    a: "pget resp ''access_token'' = PStr av" "dget (st_access_tokens (as_store (cb_server b1))) av = Some a"
      "at_subject a = bc_subject r" "at_scope a = bc_scope r" "dget (cb_requests b1) rid = Some (r\<lparr>bc_used := True\<rparr>)"
    using assms(2) by auto
  have "used_request.kept rid b1" using a(5) assms(3) by (simp add: used_request.kept_def)
  from used_request.kept_run [OF assms(4) this] obtain r2 where r2: "dget (cb_requests b2) rid = Some r2" "bc_used r2"
    by (auto simp: used_request.kept_def)
  have "fst (ciba_token params' basic' tls' b2) \<notin> range Inr"
  proof
    assume "fst (ciba_token params' basic' tls' b2) \<in> range Inr"
    then obtain d b3 where "ciba_token params' basic' tls' b2 = (Inr d, b3)" by (metis imageE prod.collapse)
    then show False by (rule ciba_token_D) (use r2 assms(5) in simp)
  qed
  moreover have "ciba_approve rid subject amr b2 = (Inl (OAuth InvalidGrant), b2)"
    using ciba_record_used [OF r2] by (simp add: ciba_approve_def bindM_def)
  ultimately show ?thesis using t a assms(2) by blast
qed

text \<open>
  A denial is final at the token endpoint: once the user has denied a request, no token
  request for it succeeds, whatever happens in between, an approval included.
\<close>

theorem ciba_denial_is_final:
  assumes "ciba_deny rid b = (Inr (), b1)" "never_again {rid} (as_rng (cb_server b))" "ciba_run b1 b2" "requested_id params = rid"
  shows "fst (ciba_token params basic tls b2) \<notin> range Inr"
proof
  assume "fst (ciba_token params basic tls b2) \<in> range Inr"
  then obtain d b3 where run: "ciba_token params basic tls b2 = (Inr d, b3)" by (metis imageE prod.collapse)
  from assms(1,2) have "denied_request.kept rid b1"
    by (auto simp: ciba_deny_def bindM_Inr_iff on_request_def denied_request.kept_def dest: ciba_record_D)
  from denied_request.kept_run [OF assms(3) this] obtain r where "dget (cb_requests b2) rid = Some r" "bc_denied r"
    by (auto simp: denied_request.kept_def)
  with run assms(4) show False by (auto elim!: ciba_token_D)
qed

section \<open>On the sample server\<close>

definition ciba_client :: client where
  "ciba_client = sample_client\<lparr>cl_grant_types := [CIBA_GRANT_TYPE]\<rparr>"

definition sample_backchannel :: backchannel where
  "sample_backchannel =
     \<lparr>bc_auth_req_id = ''ciba!'', bc_client_id = ''app'', bc_scope = [''read''], bc_login_hint = ''alice'',
      bc_binding_message = PNone, bc_expires_at = 1300, bc_interval = 5, bc_mode = ''poll'', bc_endpoint = None, bc_token = None,
      bc_thumbprint = None, bc_subject = Some ''alice'', bc_amr = [''pwd''], bc_denied = False, bc_used = False,
      bc_last_polled_at = None\<rparr>"

definition sample_user :: user where
  "sample_user = \<lparr>us_subject = ''alice'', us_username = ''alice'', us_password_hash = [], us_email = [], us_name = [],
     us_email_verified = False, us_totp_secret = None, us_groups = [], us_roles = []\<rparr>"

definition sample_ciba :: "backchannel \<Rightarrow> ciba" where
  "sample_ciba r = \<lparr>cb_server = sample_server\<lparr>as_store := (as_store sample_server)\<lparr>st_clients := [(''app'', ciba_client)],
       st_users := [(''alice'', sample_user)]\<rparr>\<rparr>, cb_lifetime = 300, cb_interval = 5, cb_requests = [(''ciba!'', r)]\<rparr>"

definition sample_ciba_params :: pydict where
  "sample_ciba_params = [(''grant_type'', PStr CIBA_GRANT_TYPE), (''client_id'', PStr ''app''), (''client_secret'', PStr ''s3cret''),
     (''auth_req_id'', PStr ''ciba!'')]"

lemma sample_ciba_auth:
  "authenticate_client sample_ciba_params None None (cb_server (sample_ciba r)) = (Inr ciba_client, cb_server (sample_ciba r))"
  by (simp add: authenticate_client_def sample_ciba_params_def sample_ciba_def sample_server_def ciba_client_def sample_client_def
      bindM_def require_def dict_get_val_def check_secret_def ct_equals_val_def truthy_str_def empty_store_def pget_or_def Let_def)

lemma sample_requested: "requested_id sample_ciba_params = ''ciba!''"
  by (simp add: requested_id_def sample_ciba_params_def py_str_def)

lemma sample_ciba_tokens:
  assumes "dget (cb_requests b) ''ciba!'' = Some r" "cb_server b = cb_server (sample_ciba r)" "bc_scope r' = [''read'']" "bc_client_id r' = ''app''"
  shows "\<exists>resp b'. ciba_tokens ''ciba!'' r' None b = (Inr resp, b')"
proof -
  have s: "cb_server b = cb_server (sample_ciba r)" by (rule assms(2))
  obtain resp s' where "issue_token_set ciba_client (ciba_grant (cb_server b) ciba_client r') (cb_server b) = (Inr resp, s')"
    using opaque_tokens_issued [of "cb_server b" "ciba_grant (cb_server b) ciba_client r'" ciba_client] assms(3)
    by (auto simp: s sample_ciba_def sample_server_def ciba_grant_def)
  moreover have "dget (st_clients (as_store (cb_server b))) (bc_client_id r') = Some ciba_client" "\<not> cl_tls_bound ciba_client"
    using assms(4) by (simp_all add: s sample_ciba_def ciba_client_def sample_client_def)
  ultimately show ?thesis
    by (auto simp: ciba_tokens_def bindM_def require_def on_request_def on_auth_def zoom_def)
qed

theorem ciba_request_yields_tokens_once_witness:
  "\<exists>resp b1. ciba_token sample_ciba_params None None (sample_ciba sample_backchannel) = (Inr resp, b1)
    \<and> fst (ciba_token sample_ciba_params None None b1) \<notin> range Inr"
proof -
  let ?b = "sample_ciba sample_backchannel"
  obtain resp b1 where "ciba_tokens ''ciba!'' sample_backchannel None ?b = (Inr resp, b1)"
    using sample_ciba_tokens [of ?b sample_backchannel sample_backchannel] by (auto simp: sample_ciba_def sample_backchannel_def)
  moreover have "ciba_record ''ciba!'' ?b = (Inr sample_backchannel, ?b)"
    by (simp add: ciba_record_def bindM_def require_def sample_ciba_def sample_backchannel_def sample_server_def)
  moreover have "pget sample_ciba_params ''grant_type'' = PStr CIBA_GRANT_TYPE" by (simp add: sample_ciba_params_def)
  moreover have "bc_client_id sample_backchannel = cl_id ciba_client" "bc_mode sample_backchannel \<noteq> ''push''"
    "\<not> bc_denied sample_backchannel" "bc_subject sample_backchannel = Some ''alice''"
    by (simp_all add: sample_backchannel_def ciba_client_def sample_client_def)
  ultimately have run: "ciba_token sample_ciba_params None None ?b = (Inr resp, b1)"
    using sample_ciba_auth [of sample_backchannel]
    by (simp add: ciba_token_def sample_requested bindM_def require_def on_auth_def zoom_def Let_def)
  have "never_again {''ciba!''} (as_rng (cb_server b1))" by (rule never_again_foreign) code_simp
  from ciba_request_yields_tokens_once [OF run sample_requested this ciba_run.refl sample_requested, of None None]
    run show ?thesis by blast
qed

theorem ciba_denial_is_final_witness:
  "\<exists>b1. ciba_deny ''ciba!'' (sample_ciba sample_backchannel) = (Inr (), b1)
    \<and> fst (ciba_token sample_ciba_params None None b1) \<notin> range Inr"
proof -
  let ?b = "sample_ciba sample_backchannel"
  obtain b1 where run: "ciba_deny ''ciba!'' ?b = (Inr (), b1)"
    by (simp add: ciba_deny_def ciba_record_def bindM_def require_def on_request_def sample_ciba_def sample_backchannel_def sample_server_def)
  have "never_again {''ciba!''} (as_rng (cb_server ?b))" by (rule never_again_foreign) code_simp
  from ciba_denial_is_final [OF run this ciba_run.refl sample_requested] run show ?thesis by blast
qed

text \<open>
  In push mode the denial is not looked at: a request that the user denied still delivers
  tokens when it is approved.
\<close>

lemma denied_push_request_delivers_tokens:
  "\<exists>tokens b1. ciba_approve ''ciba!'' ''alice'' None
      (sample_ciba (sample_backchannel\<lparr>bc_mode := ''push'', bc_denied := True\<rparr>)) = (Inr (Some tokens), b1)"
proof -
  let ?r = "sample_backchannel\<lparr>bc_mode := ''push'', bc_denied := True\<rparr>"
  let ?r1 = "?r\<lparr>bc_subject := Some ''alice'', bc_amr := [''pwd'']\<rparr>"
  let ?b1 = "(sample_ciba ?r)\<lparr>cb_requests := [(''ciba!'', ?r1)]\<rparr>"
  obtain resp b2 where t: "ciba_tokens ''ciba!'' ?r1 None ?b1 = (Inr resp, b2)"
    using sample_ciba_tokens [of ?b1 ?r1 ?r1] by (auto simp: sample_ciba_def sample_backchannel_def)
  have r: "ciba_record ''ciba!'' (sample_ciba ?r) = (Inr ?r, sample_ciba ?r)"
    by (simp add: ciba_record_def bindM_def require_def sample_ciba_def sample_backchannel_def sample_server_def)
  have u: "dget (st_users (as_store (cb_server (sample_ciba ?r)))) ''alice'' = Some sample_user"
    "on_request ''ciba!'' (\<lambda>r. r\<lparr>bc_subject := Some ''alice'', bc_amr := [''pwd'']\<rparr>) (sample_ciba ?r) = (Inr (), ?b1)"
    "bc_mode ?r = ''push''" "bc_thumbprint ?r = None"
    by (simp_all add: sample_ciba_def on_request_def sample_backchannel_def dupd_def)
  show ?thesis
    using r u t by (simp add: ciba_approve_def bindM_def require_def amr_or_def Let_def)
qed

end
