(* ===== verification/Fapi.thy ===== *)
theory Fapi
  imports Par Jarm
begin

text \<open>
  \<open>authlab/oauth/fapi2_security.py\<close> and \<open>authlab/oauth/fapi2_message_signing.py\<close>: the profile
  over pushed requests and the token endpoint, and the signed messages on top of it.  The
  profile's server is the one the pushed requests are for.
\<close>

section \<open>The security profile\<close>

definition FAPI_CLIENT_AUTH_METHODS :: "string list" where
  "FAPI_CLIENT_AUTH_METHODS = [''private_key_jwt'', ''tls_client_auth'']"

definition fapi_validate_client :: "auth_server \<Rightarrow> client \<Rightarrow> exn + unit" where
  "fapi_validate_client s c =
     (if is_public c \<or> cl_auth_method c \<notin> set FAPI_CLIENT_AUTH_METHODS then Inl (OAuth UnauthorizedClient)
      else if \<not> (cl_require_dpop c \<or> cl_tls_bound c) then Inl (OAuth UnauthorizedClient)
      else if ''refresh_token'' \<in> set (cl_grant_types c) \<and> cl_rotate c then Inl (OAuth UnauthorizedClient)
      else if as_code_lifetime s > 60 then Inl (OAuth InvalidRequest)
      else Inr ())"

definition fapi_client :: "auth_server \<Rightarrow> pydict \<Rightarrow> (string \<times> string) option \<Rightarrow> client option" where
  "fapi_client s params basic_auth =
     (let client_id = (case basic_auth of Some (i, _) \<Rightarrow> PStr i | None \<Rightarrow> pget params ''client_id'')
      in dget (st_clients (as_store s)) (if truthy client_id then py_str client_id else []))"

definition fapi_shape :: "pydict \<Rightarrow> client \<Rightarrow> bool" where
  "fapi_shape params c \<longleftrightarrow>
     pget params ''response_type'' = PStr ''code'' \<and> truthy (pget params ''redirect_uri'')
     \<and> truthy (pget params ''code_challenge'') \<and> pget params ''code_challenge_method'' = PStr ''S256''
     \<and> (cl_require_dpop c \<longrightarrow> truthy (pget params ''dpop_jkt''))"

text \<open>The stored request is checked as well; one that fails is deleted.\<close>

definition fapi_recheck :: "pydict \<Rightarrow> client \<Rightarrow> (par, pydict) op" where
  "fapi_recheck result c =
     bindM (gets ps_requests) (\<lambda>requests.
       case pget result ''request_uri'' of
         PStr uri \<Rightarrow>
           (case dget requests uri of
              None \<Rightarrow> raise (Py KeyError)
            | Some r \<Rightarrow>
                if fapi_shape (pr_params r) c then ret result
                else bindM (modify (\<lambda>p. p\<lparr>ps_requests := ddel uri (ps_requests p)\<rparr>)) (\<lambda>_. fail InvalidRequest))
       | _ \<Rightarrow> raise (Py KeyError))"

definition fapi_push ::
  "pydict \<Rightarrow> (string \<times> string) option \<Rightarrow> string option \<Rightarrow> bool \<Rightarrow> (par, pydict) op" where
  "fapi_push params basic_auth tls require_signed =
     bindM (gets ps_server) (\<lambda>s.
       case fapi_client s params basic_auth of
         None \<Rightarrow> fail UnauthorizedClient
       | Some c \<Rightarrow>
           bindM (lift (fapi_validate_client s c)) (\<lambda>_.
             bindM (require (dget params ''request'' = None \<longrightarrow> fapi_shape params c) InvalidRequest) (\<lambda>_.
               bindM (par_push params basic_auth tls require_signed) (\<lambda>result. fapi_recheck result c))))"

definition fapi_authorize :: "pydict \<Rightarrow> (par, validated) op" where
  "fapi_authorize params = par_authorize params"

definition fapi_redirect :: "auth_server \<Rightarrow> validated \<Rightarrow> string \<Rightarrow> exn + string" where
  "fapi_redirect s v code =
     with_query (v_redirect_uri v) [(''code'', PStr code), (''state'', v_state v), (''iss'', PStr (as_issuer s))]"

text \<open>The check of the issued token: a token that is bound to nothing is not handed out.\<close>

definition fapi_bound :: "pydict \<Rightarrow> (par, pydict) op" where
  "fapi_bound result =
     bindM (gets (\<lambda>p. st_access_tokens (as_store (ps_server p)))) (\<lambda>tokens.
       case pget result ''access_token'' of
         PStr v \<Rightarrow>
           (case dget tokens v of
              None \<Rightarrow> raise (Py KeyError)
            | Some a \<Rightarrow> bindM (require (truthy_str (at_jkt a) \<or> truthy_str (at_x5t a)) InvalidRequest) (\<lambda>_. ret result))
       | _ \<Rightarrow> raise (Py KeyError))"

definition fapi_token ::
  "pydict \<Rightarrow> (string \<times> string) option \<Rightarrow> string option \<Rightarrow> string option \<Rightarrow> string option \<Rightarrow> (par, pydict) op" where
  "fapi_token params basic_auth proof_jwt url tls =
     bindM (gets ps_server) (\<lambda>s.
       case fapi_client s params basic_auth of
         None \<Rightarrow> fail UnauthorizedClient
       | Some c \<Rightarrow>
           bindM (lift (fapi_validate_client s c)) (\<lambda>_.
             bindM (on_server (token_endpoint params basic_auth proof_jwt url tls)) fapi_bound))"

definition fapi_metadata :: "auth_server \<Rightarrow> pydict" where
  "fapi_metadata s =
     dmerge (metadata s)
       [(''pushed_authorization_request_endpoint'', PStr (as_issuer s @ ''/par'')),
        (''require_pushed_authorization_requests'', PBool True),
        (''authorization_response_iss_parameter_supported'', PBool True),
        (''require_signed_request_object'', PBool False)]"

section \<open>Message signing\<close>

definition INTROSPECTION_TYP :: string where
  "INTROSPECTION_TYP = ''token-introspection+jwt''"

definition INTROSPECTION_MEDIA_TYPE :: string where
  "INTROSPECTION_MEDIA_TYPE = ''application/token-introspection+jwt''"

definition signed_push :: "pydict \<Rightarrow> (string \<times> string) option \<Rightarrow> string option \<Rightarrow> (par, pydict) op" where
  "signed_push params basic_auth tls = fapi_push params basic_auth tls True"

definition authorization_response :: "jarm \<Rightarrow> int \<Rightarrow> validated \<Rightarrow> string \<Rightarrow> (rng, string) op" where
  "authorization_response m now v code = jarm_issue m now (cl_id (v_client v)) [(''code'', PStr code), (''state'', v_state v)]"

definition introspection_claims :: "auth_server \<Rightarrow> string \<Rightarrow> string \<Rightarrow> pydict" where
  "introspection_claims s token_value audience =
     (let body = (case dget (st_access_tokens (as_store s)) token_value of
          Some a \<Rightarrow> if audience \<in> set (at_audience a) then introspect s token_value else [(''active'', PBool False)]
        | None \<Rightarrow> [(''active'', PBool False)])
      in [(''iss'', PStr (as_issuer s)), (''aud'', PStr audience), (''iat'', PInt (as_now s)), (''token_introspection'', PDict body)])"

definition signed_introspection ::
  "string \<Rightarrow> client \<Rightarrow> string \<Rightarrow> (string \<times> string) option \<Rightarrow> string option \<Rightarrow> (auth_server, string \<times> string) op" where
  "signed_introspection token_value rs audience basic_auth tls =
     bindM (authenticate_client [(''client_id'', PStr (cl_id rs))] basic_auth tls) (\<lambda>authenticated.
       bindM (require (cl_id authenticated = cl_id rs) InvalidClient) (\<lambda>_.
         bindM (require (audience \<in> set (cl_introspection_audiences rs)) InvalidClient) (\<lambda>_.
           bindM (gets id) (\<lambda>s.
             bindM (lift (jws_sign (Inr (introspection_claims s token_value audience)) (as_signing_key s) RS256 []
                 (Some (as_signing_kid s)) (Some INTROSPECTION_TYP))) (\<lambda>body.
               ret (INTROSPECTION_MEDIA_TYPE, body))))))"

definition introspection_checked :: "string \<Rightarrow> int \<Rightarrow> string \<Rightarrow> parsed_jws \<Rightarrow> pyval \<Rightarrow> exn + pydict" where
  "introspection_checked issuer now audience parsed v =
     (if pget (jws_header parsed) ''typ'' \<noteq> PStr INTROSPECTION_TYP then Inl (OAuth InvalidAuthorizationResponse)
      else (case v of
          PDict claims \<Rightarrow>
            (if pget claims ''iss'' \<noteq> PStr issuer then Inl (OAuth InvalidAuthorizationResponse)
             else if \<not> aud_includes (pget claims ''aud'') audience then Inl (OAuth InvalidAuthorizationResponse)
             else (case as_int (pget claims ''iat'') of
                 None \<Rightarrow> Inl (OAuth InvalidAuthorizationResponse)
               | Some iat \<Rightarrow>
                   (if iat > now + 60 \<or> now - iat > 300 then Inl (OAuth InvalidAuthorizationResponse)
                    else (case pget claims ''token_introspection'' of
                        PDict body \<Rightarrow>
                          (case pget body ''active'' of PBool _ \<Rightarrow> Inr body | _ \<Rightarrow> Inl (OAuth InvalidAuthorizationResponse))
                      | _ \<Rightarrow> Inl (OAuth InvalidAuthorizationResponse)))))
        | _ \<Rightarrow> Inl (OAuth InvalidAuthorizationResponse)))"

definition validate_introspection :: "string \<Rightarrow> int \<Rightarrow> string \<Rightarrow> string \<Rightarrow> (jwkset, pydict) op" where
  "validate_introspection issuer now response_jwt audience =
     bindM (or_else InvalidAuthorizationResponse (verify_signed response_jwt)) (\<lambda>(parsed, v).
       lift (introspection_checked issuer now audience parsed v))"

definition signing_metadata :: "auth_server \<Rightarrow> pydict" where
  "signing_metadata s =
     dmerge (fapi_metadata s)
       [(''require_signed_request_object'', PBool True),
        (''request_object_signing_alg_values_supported'', PList [PStr ''RS256'']),
        (''authorization_signing_alg_values_supported'', PList [PStr ''RS256'']),
        (''introspection_signing_alg_values_supported'', PList [PStr ''RS256'']),
        (''introspection_response_content_type'', PStr INTROSPECTION_MEDIA_TYPE)]"

section \<open>What the profile adds\<close>

lemma fapi_bound_D:
  assumes "fapi_bound result p = (Inr r, p')"
  shows "r = result \<and> p' = p \<and> (\<exists>v a. pget result ''access_token'' = PStr v
    \<and> dget (st_access_tokens (as_store (ps_server p))) v = Some a \<and> (truthy_str (at_jkt a) \<or> truthy_str (at_x5t a)))"
proof -
  from assms obtain v a where "pget result ''access_token'' = PStr v" "dget (st_access_tokens (as_store (ps_server p))) v = Some a"
    by (auto simp: fapi_bound_def bindM_Inr_iff split: pyval.splits option.splits)
  with assms show ?thesis by (auto simp: fapi_bound_def bindM_Inr_iff require_Inr)
qed

text \<open>
  C32: Every access token the profile hands out is bound to a key of its client: the request came from
  a registered client that authenticates with a key or a certificate and has to constrain its
  tokens, and the stored access token carries a key thumbprint or a certificate thumbprint.
\<close>

theorem fapi_tokens_are_sender_constrained:
  assumes "fapi_token params basic pf url tls p = (Inr resp, p')"
  shows "\<exists>c v a. fapi_client (ps_server p) params basic = Some c
    \<and> cl_auth_method c \<in> {''private_key_jwt'', ''tls_client_auth''} \<and> \<not> is_public c \<and> (cl_require_dpop c \<or> cl_tls_bound c)
    \<and> token_endpoint params basic pf url tls (ps_server p) = (Inr resp, ps_server p')
    \<and> pget resp ''access_token'' = PStr v \<and> dget (st_access_tokens (as_store (ps_server p'))) v = Some a
    \<and> (truthy_str (at_jkt a) \<or> truthy_str (at_x5t a))"
proof -
  from assms obtain c where c: "fapi_client (ps_server p) params basic = Some c"
    by (auto simp: fapi_token_def bindM_Inr_iff fail_Inr split: option.splits)
  with assms obtain u result p1 where ok: "fapi_validate_client (ps_server p) c = Inr u"
    and run: "on_server (token_endpoint params basic pf url tls) p = (Inr result, p1)" and bound: "fapi_bound result p1 = (Inr resp, p')"
    by (auto simp: fapi_token_def bindM_Inr_iff)
  from run have "token_endpoint params basic pf url tls (ps_server p) = (Inr result, ps_server p1)"
    by (auto simp: on_server_def zoom_def split: prod.splits)
  with fapi_bound_D [OF bound] c ok show ?thesis
    by (auto simp: fapi_validate_client_def FAPI_CLIENT_AUTH_METHODS_def split: if_splits)
qed

text \<open>All requests that wait were checked for the shape the profile asks for.\<close>

definition shaped :: "pydict \<Rightarrow> bool" where
  "shaped params \<longleftrightarrow> pget params ''response_type'' = PStr ''code'' \<and> truthy (pget params ''redirect_uri'')
     \<and> truthy (pget params ''code_challenge'') \<and> pget params ''code_challenge_method'' = PStr ''S256''"

definition all_shaped :: "par \<Rightarrow> bool" where
  "all_shaped p \<longleftrightarrow> (\<forall>uri r. dget (ps_requests p) uri = Some r \<longrightarrow> shaped (pr_params r))"

inductive fapi_run :: "par \<Rightarrow> par \<Rightarrow> bool" where
  refl: "fapi_run p p"
| server: "fapi_run p p1 \<Longrightarrow> server_step (ps_server p1) s \<Longrightarrow> fapi_run p (p1\<lparr>ps_server := s\<rparr>)"
| push: "fapi_run p p1 \<Longrightarrow> fapi_push params basic tls require_signed p1 = (r, p2) \<Longrightarrow> fapi_run p p2"
| authorize: "fapi_run p p1 \<Longrightarrow> fapi_authorize params p1 = (v, p2) \<Longrightarrow> fapi_run p p2"
| token: "fapi_run p p1 \<Longrightarrow> fapi_token params basic pf url tls p1 = (r, p2) \<Longrightarrow> fapi_run p p2"

text \<open>Operations that leave the requests alone, and those that add one when they return.\<close>

definition framing :: "(par, 'a) op \<Rightarrow> bool" where
  "framing m \<longleftrightarrow> (\<forall>p. ps_requests (snd (m p)) = ps_requests p)"

definition adding :: "(par, pydict) op \<Rightarrow> bool" where
  "adding m \<longleftrightarrow> (\<forall>p. case m p of
     (Inl _, p2) \<Rightarrow> ps_requests p2 = ps_requests p
   | (Inr result, p2) \<Rightarrow> \<exists>uri e. pget result ''request_uri'' = PStr uri \<and> ps_requests p2 = dset uri e (ps_requests p))"

lemma framing_basic:
  "framing (lift r)" "framing (require b oe)" "framing (gets g)" "framing (ret x)" "framing (fail oe)" "framing (on_server m)"
  by (auto simp: framing_def require_def fail_def on_server_def zoom_def split: prod.split)

lemma framing_bind:
  assumes "framing m" "\<And>x. framing (f x)"
  shows "framing (bindM m f)"
  unfolding framing_def
proof
  fix p
  obtain r p1 where run: "m p = (r, p1)" by fastforce
  with assms(1) have "ps_requests p1 = ps_requests p" by (auto simp: framing_def dest: spec [of _ p])
  with run assms(2) show "ps_requests (snd (bindM m f p)) = ps_requests p"
    by (cases r) (auto simp: bindM_def framing_def)
qed

lemma adding_bind:
  assumes "framing m" "\<And>x. adding (f x)"
  shows "adding (bindM m f)"
  unfolding adding_def
proof
  fix p
  obtain r p1 where run: "m p = (r, p1)" by fastforce
  with assms(1) have keep: "ps_requests p1 = ps_requests p" by (auto simp: framing_def dest: spec [of _ p])
  show "case bindM m f p of (Inl _, p2) \<Rightarrow> ps_requests p2 = ps_requests p
   | (Inr result, p2) \<Rightarrow> \<exists>uri e. pget result ''request_uri'' = PStr uri \<and> ps_requests p2 = dset uri e (ps_requests p)"
  proof (cases r)
    case (Inl e)
    with run keep show ?thesis by (simp add: bindM_def)
  next
    case (Inr x)
    with assms(2) [of x, unfolded adding_def, THEN spec, of p1] run keep show ?thesis
      by (simp add: bindM_def split: prod.splits sum.splits)
  qed
qed

lemma framing_effective: "framing (effective_request params c require_signed)"
proof -
  have "framing (zoom (\<lambda>_. j) (\<lambda>j p. p\<lparr>ps_jar := Some j\<rparr>) m)" for j and m :: "(jar, 'a) op"
    by (auto simp: framing_def zoom_def split: prod.split)
  then show ?thesis
    unfolding effective_request_def
    by (auto intro!: framing_bind framing_basic split: option.split)
qed

lemma adding_store: "adding (par_store c eff)"
proof -
  have "\<exists>t s. on_rng (draw_token 24) (ps_server p) = (Inr t, s)" for p
    by (simp add: on_rng_def zoom_def draw_token_def random_token_def random_bytes_def)
  then show ?thesis
    unfolding adding_def
    by (auto simp: par_store_def on_server_def zoom_def bindM_def log_event_def on_store_def split: prod.splits sum.splits)
qed

lemma adding_push: "adding (par_push params basic tls require_signed)"
  unfolding par_push_def Let_def
  by (intro adding_bind framing_basic framing_effective adding_store)

lemma shaped_recheck:
  assumes "ps_requests p = dset uri e R" "\<forall>k r. dget R k = Some r \<longrightarrow> shaped (pr_params r)" "pget result ''request_uri'' = PStr uri"
  shows "all_shaped (snd (fapi_recheck result c p))"
  using assms by (auto simp: fapi_recheck_def bindM_def fail_def all_shaped_def fapi_shape_def shaped_def)

lemma shaped_push_recheck: "preserves all_shaped (bindM (par_push params basic tls require_signed) (\<lambda>result. fapi_recheck result c))"
proof (rule preservesI)
  fix p assume p: "all_shaped p"
  obtain r p2 where run: "par_push params basic tls require_signed p = (r, p2)" by fastforce
  have a: "case par_push params basic tls require_signed p of
     (Inl _, p2) \<Rightarrow> ps_requests p2 = ps_requests p
   | (Inr result, p2) \<Rightarrow> \<exists>uri e. pget result ''request_uri'' = PStr uri \<and> ps_requests p2 = dset uri e (ps_requests p)"
    using adding_push [of params basic tls require_signed] unfolding adding_def by (rule spec)
  show "all_shaped (snd (bindM (par_push params basic tls require_signed) (\<lambda>result. fapi_recheck result c) p))"
  proof (cases r)
    case (Inl e)
    with a run p show ?thesis by (simp add: bindM_def all_shaped_def)
  next
    case (Inr result)
    with a run obtain uri e where "pget result ''request_uri'' = PStr uri" "ps_requests p2 = dset uri e (ps_requests p)" by auto
    with shaped_recheck [of p2 uri e "ps_requests p" result c] p run Inr show ?thesis by (simp add: bindM_def all_shaped_def)
  qed
qed

lemma shaped_push: "preserves all_shaped (fapi_push params basic tls require_signed)"
  unfolding fapi_push_def require_def fail_def by (intro preserves_intros shaped_push_recheck)

lemma shaped_server: "preserves all_shaped (on_server m)"
  by (rule preservesI) (auto simp: on_server_def zoom_def all_shaped_def split: prod.split)

lemma shaped_authorize: "preserves all_shaped (fapi_authorize params)"
proof -
  have use: "preserves all_shaped (modify (\<lambda>p. p\<lparr>ps_requests := dupd uri (\<lambda>r. r\<lparr>pr_used := True\<rparr>) (ps_requests p)\<rparr>))" for uri
    by (rule preserves_modify) (auto simp: all_shaped_def split: if_splits)
  show ?thesis
    unfolding fapi_authorize_def par_authorize_def require_def fail_def
    by (intro preserves_intros) (auto split: pyval.split option.split intro!: preserves_intros use)
qed

lemma shaped_token: "preserves all_shaped (fapi_token params basic pf url tls)"
proof -
  have "preserves all_shaped (fapi_bound result)" for result
    unfolding fapi_bound_def require_def
    by (intro preserves_intros) (auto split: pyval.split option.split intro!: preserves_intros)
  then show ?thesis unfolding fapi_token_def fail_def by (intro preserves_intros shaped_server)
qed

lemma shaped_run: "fapi_run p p' \<Longrightarrow> all_shaped p \<Longrightarrow> all_shaped p'"
proof (induction rule: fapi_run.induct)
  case (server p p1 s)
  then show ?case by (simp add: all_shaped_def)
qed (blast dest: preservesD [OF shaped_push] preservesD [OF shaped_authorize] preservesD [OF shaped_token])+

text \<open>
  Under the profile only pushed requests reach consent, and all of them use PKCE with S256:
  starting without requests, whatever is pushed (as parameters or as a signed request object),
  an authorization succeeds only for a stored request of the calling client that asks for a code
  and names its redirect URI, and the validated request carries an S256 challenge.
\<close>

theorem fapi_authorization_uses_pkce:
  assumes "fapi_run p0 p" "ps_requests p0 = []" "fapi_authorize params p = (Inr v, p')"
  shows "\<exists>uri r. pget params ''request_uri'' = PStr uri \<and> dget (ps_requests p) uri = Some r
    \<and> pget params ''client_id'' = PStr (pr_client_id r) \<and> shaped (pr_params r)
    \<and> v_challenge v = pget (pr_params r) ''code_challenge'' \<and> truthy (v_challenge v) \<and> v_method v = PStr ''S256''
    \<and> pget (pr_params r) ''redirect_uri'' = PStr (v_redirect_uri v)"
proof -
  have "all_shaped p0" using assms(2) by (simp add: all_shaped_def)
  with shaped_run [OF assms(1)] have shape: "all_shaped p" by blast
  from par_authorize_D [OF assms(3) [unfolded fapi_authorize_def]] obtain uri r where
    r: "pget params ''request_uri'' = PStr uri" "dget (ps_requests p) uri = Some r" "pget params ''client_id'' = PStr (pr_client_id r)"
      "validate_authorization_request (ps_server p) (pr_params r) = Inr v" by blast
  from shape r(2) have s: "shaped (pr_params r)" by (auto simp: all_shaped_def)
  with validated_request_D [OF r(4)] r show ?thesis
    by (intro exI [of _ uri] exI [of _ r]) (auto simp: shaped_def pget_or_def pget_def split: option.splits)
qed

section \<open>Signed introspection\<close>

lemma introspect_clean:
  assumes "\<And>a. dget (st_access_tokens (as_store s)) v = Some a \<Longrightarrow> list_all json_clean (at_details a)"
  shows "json_clean (PDict (introspect s v))"
proof (cases "dget (st_access_tokens (as_store s)) v")
  case None
  then show ?thesis by (simp add: introspect_def)
next
  case (Some a)
  have "json_clean (opt_str x)" for x by (simp add: opt_str_def split: option.split)
  moreover have "list_all json_clean (map PStr xs)" for xs by (simp add: list_all_iff)
  ultimately show ?thesis
    using assms [OF Some] Some by (auto simp: introspect_def cnf_claims_def Let_def split: option.splits)
qed

lemma introspect_active: "\<exists>b. pget (introspect s v) ''active'' = PBool b"
  by (auto simp: introspect_def pget_def split: option.split)

definition audience_body :: "auth_server \<Rightarrow> string \<Rightarrow> string \<Rightarrow> pydict" where
  "audience_body s v audience =
     (if \<exists>a. dget (st_access_tokens (as_store s)) v = Some a \<and> audience \<in> set (at_audience a)
      then introspect s v else [(''active'', PBool False)])"

lemma introspection_claims_body:
  "introspection_claims s v audience =
     [(''iss'', PStr (as_issuer s)), (''aud'', PStr audience), (''iat'', PInt (as_now s)),
      (''token_introspection'', PDict (audience_body s v audience))]"
  by (auto simp: introspection_claims_def audience_body_def Let_def split: option.split)

text \<open>
  A resource server that asks about a token for an audience it is registered for reads back
  the report of the authorization server if the token is for that audience, and otherwise only
  that the token is inactive.  A party that asks for another audience, or that trusts another
  issuer, refuses the signed answer, and so does everyone once it is more than five minutes old.
\<close>

theorem signed_introspection_is_read_back:
  assumes "rsa_key_ok k" "em_fits (key_size_bytes (rsk_n k)) ''sha256''" "as_signing_key s1 = KRsaPriv k"
    and "jwks_resolver (issue_header RS256 (Some (as_signing_kid s1)) INTROSPECTION_TYP) ks = (Inr (Some (KRsaPub (rsa_public_of k))), ks)"
    and "authenticate_client [(''client_id'', PStr (cl_id rs))] basic tls s = (Inr rs, s1)"
    and "audience \<in> set (cl_introspection_audiences rs)"
    and "\<And>a. dget (st_access_tokens (as_store s1)) v = Some a \<Longrightarrow> list_all json_clean (at_details a)"
    and "as_now s1 \<le> now" "now \<le> as_now s1 + 300"
  shows "\<exists>token. signed_introspection v rs audience basic tls s = (Inr (INTROSPECTION_MEDIA_TYPE, token), s1)
    \<and> validate_introspection (as_issuer s1) now token audience ks = (Inr (audience_body s1 v audience), ks)
    \<and> (\<forall>other. other \<noteq> audience \<longrightarrow>
         validate_introspection (as_issuer s1) now token other ks = (Inl (OAuth InvalidAuthorizationResponse), ks))
    \<and> (\<forall>issuer. issuer \<noteq> as_issuer s1 \<longrightarrow>
         validate_introspection issuer now token audience ks = (Inl (OAuth InvalidAuthorizationResponse), ks))
    \<and> (\<forall>late. as_now s1 + 300 < late \<longrightarrow>
         validate_introspection (as_issuer s1) late token audience ks = (Inl (OAuth InvalidAuthorizationResponse), ks))"
proof -
  let ?claims = "introspection_claims s1 v audience"
  have body: "json_clean (PDict (audience_body s1 v audience))"
    using introspect_clean [of s1 v] assms(7) by (simp add: audience_body_def)
  have clean: "json_clean (PDict ?claims)" unfolding introspection_claims_body using body by simp
  obtain b where active: "pget (audience_body s1 v audience) ''active'' = PBool b"
    using introspect_active [of s1 v]
    by (cases "\<exists>a. dget (st_access_tokens (as_store s1)) v = Some a \<and> audience \<in> set (at_audience a)")
       (auto simp: audience_body_def pget_def)
  have "INTROSPECTION_TYP \<noteq> []" by (simp add: INTROSPECTION_TYP_def)
  from signed_claims_verify [OF assms(1,2) this assms(4) clean] obtain token p where
    t: "jws_sign (Inr ?claims) (KRsaPriv k) RS256 [] (Some (as_signing_kid s1)) (Some INTROSPECTION_TYP) = Inr token"
    "verify_signed token ks = (Inr (p, PDict ?claims), ks)" "pget (jws_header p) ''typ'' = PStr INTROSPECTION_TYP" by blast
  have "signed_introspection v rs audience basic tls s = (Inr (INTROSPECTION_MEDIA_TYPE, token), s1)"
    using assms(3,5,6) t(1) by (simp add: signed_introspection_def require_def bindM_def)
  moreover have "validate_introspection issuer late token other ks =
      (introspection_checked issuer late other p (PDict ?claims), ks)" for issuer late other
    using t(2) by (simp add: validate_introspection_def or_else_def bindM_def)
  ultimately show ?thesis
    using t(3) active assms(8,9)
    by (intro exI [of _ token]) (auto simp: introspection_checked_def introspection_claims_body aud_includes_def pget_def)
qed

section \<open>On a sample server\<close>

definition bank_client :: client where
  "bank_client = sample_client\<lparr>cl_id := ''bank'', cl_grant_types := [''authorization_code'', ''client_credentials''],
     cl_auth_method := ''tls_client_auth'', cl_tls_bound := True, cl_rotate := False,
     cl_introspection_audiences := [''https://api'']\<rparr>"

definition bank_par :: par where
  "bank_par = sample_par\<lparr>ps_requests := [], ps_server := issued_server\<lparr>as_signing_kid := ''k1'',
     as_store := (as_store issued_server)\<lparr>st_clients := [(''bank'', bank_client)]\<rparr>\<rparr>\<rparr>"

lemma bank_client_registered: "dget (st_clients (as_store (ps_server bank_par))) ''bank'' = Some bank_client"
  by (simp add: bank_par_def)

lemma bank_client_simps [simp]:
  "cl_id bank_client = ''bank''" "cl_auth_method bank_client = ''tls_client_auth''" "cl_tls_bound bank_client"
  "cl_require_dpop bank_client = False" "cl_grant_types bank_client = [''authorization_code'', ''client_credentials'']"
  "cl_scopes bank_client = []" "cl_rotate bank_client = False" "cl_redirect_uris bank_client = [''https://app/cb'']"
  "cl_response_types bank_client = [''code'']" "cl_require_pkce bank_client"
  "cl_introspection_audiences bank_client = [''https://api'']"
  by (simp_all add: bank_client_def sample_client_def)

lemma bank_authenticates:
  "pget_or params ''client_id'' (PStr []) = PStr ''bank'' \<Longrightarrow>
   authenticate_client params None (Some x) (ps_server bank_par) = (Inr bank_client, ps_server bank_par)"
  using bank_client_registered bank_client_simps
  by (simp add: authenticate_client_def bindM_def require_def dict_get_val_def Let_def)

definition bank_token_params :: pydict where
  "bank_token_params = [(''grant_type'', PStr ''client_credentials''), (''client_id'', PStr ''bank'')]"

lemma bank_grant_type: "pget bank_token_params ''grant_type'' = PStr ''client_credentials''"
  by (simp add: bank_token_params_def pget_def)

lemma bank_client_id: "pget bank_token_params ''client_id'' = PStr ''bank''"
  by (simp add: bank_token_params_def pget_def)

lemma bank_fapi:
  "fapi_client (ps_server bank_par) params None = Some bank_client" if "pget params ''client_id'' = PStr ''bank''"
  using that bank_client_registered by (simp add: fapi_client_def py_str_def)

lemma bank_valid: "fapi_validate_client (ps_server bank_par) bank_client = Inr ()"
  by (simp add: fapi_validate_client_def bank_client_def sample_client_def is_public_def FAPI_CLIENT_AUTH_METHODS_def
      bank_par_def issued_server_def sample_server_def)

theorem fapi_tokens_are_sender_constrained_witness:
  "\<exists>resp p'. fapi_token bank_token_params None None None (Some ''thumb'') bank_par = (Inr resp, p')
     \<and> (\<exists>v a. pget resp ''access_token'' = PStr v \<and> dget (st_access_tokens (as_store (ps_server p'))) v = Some a
          \<and> (truthy_str (at_jkt a) \<or> truthy_str (at_x5t a)))"
proof -
  let ?s = "ps_server bank_par"
  let ?gr = "\<lparr>gr_subject = None, gr_scope = [], gr_nonce = PNone, gr_amr = [], gr_auth_time = 0,
      gr_audience = [''https://api''], gr_jkt = None, gr_x5t = Some ''thumb'', gr_include_refresh = False,
      gr_family = None, gr_id_token = False, gr_details = []\<rparr>"
  obtain resp s' where issue: "issue_token_set bank_client ?gr ?s = (Inr resp, s')"
    using opaque_tokens_issued [of ?s ?gr bank_client] by (auto simp: bank_par_def issued_server_def sample_server_def)
  from issue_token_set_D [OF issue] obtain av a where
    m: "pget resp ''access_token'' = PStr av" "access_for ?s bank_client ?gr av a" "as_store s' = with_access av a (as_store ?s)"
    by (auto simp: minted_def)
  from m(2) have bound: "at_x5t a = Some ''thumb''" by (simp add: access_for_def)
  have "grant_client_credentials bank_client bank_token_params None (Some ''thumb'') ?s = (Inr resp, s')"
    using issue
    by (simp add: grant_client_credentials_def bank_token_params_def bank_client_def sample_client_def is_public_def
        bindM_def require_def bank_par_def issued_server_def sample_server_def split_ws_def join_def)
  moreover have "authenticate_client bank_token_params None (Some ''thumb'') ?s = (Inr bank_client, ?s)"
    by (rule bank_authenticates) (simp add: bank_token_params_def pget_or_def)
  ultimately have token: "token_endpoint bank_token_params None None None (Some ''thumb'') ?s = (Inr resp, s')"
    by (simp add: token_endpoint_def bindM_def require_def Let_def token_dpop_def bank_grant_type)
  have run: "fapi_token bank_token_params None None None (Some ''thumb'') bank_par = (Inr resp, bank_par\<lparr>ps_server := s'\<rparr>)"
    using bank_fapi [OF bank_client_id] bank_valid token m(1,3) bound
    by (simp add: fapi_token_def bindM_def on_server_def zoom_def fapi_bound_def with_access_def require_def truthy_str_def)
  from fapi_tokens_are_sender_constrained [OF run] run show ?thesis
    by (intro exI [of _ resp] exI [of _ "bank_par\<lparr>ps_server := s'\<rparr>"] conjI) auto
qed

definition bank_request :: pydict where
  "bank_request = [(''client_id'', PStr ''bank''), (''redirect_uri'', PStr ''https://app/cb''), (''response_type'', PStr ''code''),
     (''scope'', PStr ''read''), (''state'', PStr ''st''), (''code_challenge'', PStr ''xyz''), (''code_challenge_method'', PStr ''S256'')]"

lemma validate_cong:
  assumes "st_clients (as_store s') = st_clients (as_store s)" "as_supported_scopes s' = as_supported_scopes s"
    "as_known_resources s' = as_known_resources s" "as_detail_types s' = as_detail_types s"
  shows "validate_authorization_request s' params = validate_authorization_request s params"
proof -
  have "resolve_redirect s' params = resolve_redirect s params" "check_request_scope s' c v = check_request_scope s c v" for c v
    using assms(1,2) by (simp_all add: resolve_redirect_def check_request_scope_def)
  then show ?thesis using assms(3,4) by (simp only: validate_authorization_request_def)
qed

lemma validate_same:
  "validate_authorization_request (s\<lparr>as_rng := g, as_store := store_log kind message (as_store s)\<rparr>) params
   = validate_authorization_request s params"
  by (rule validate_cong) (simp_all add: store_log_def)

lemma bank_request_validates: "\<exists>v. validate_authorization_request (ps_server bank_par) bank_request = Inr v"
proof -
  have "split_ws ''read'' = [''read'']" by code_simp
  then show ?thesis
    using bank_client_registered bank_client_simps
    by (simp add: validate_authorization_request_def resolve_redirect_def check_request_scope_def bank_request_def
        dict_get_val_def is_public_def pget_or_def pget_def)
       (simp add: bank_par_def issued_server_def sample_server_def)
qed

theorem fapi_authorization_uses_pkce_witness:
  "\<exists>t p p' v. fapi_push bank_request None (Some ''thumb'') False bank_par
      = (Inr [(''request_uri'', PStr (PAR_URN_PREFIX @ t)), (''expires_in'', PInt 90)], p)
    \<and> fapi_authorize [(''client_id'', PStr ''bank''), (''request_uri'', PStr (PAR_URN_PREFIX @ t))] p = (Inr v, p')
    \<and> v_method v = PStr ''S256''"
proof -
  let ?s = "ps_server bank_par"
  from bank_request_validates obtain v where v: "validate_authorization_request ?s bank_request = Inr v" by blast
  from par_store_full [of bank_client bank_request bank_par] obtain t p g where
    store: "par_store bank_client bank_request bank_par = (Inr [(''request_uri'', PStr (PAR_URN_PREFIX @ t)), (''expires_in'', PInt 90)], p)"
    and out: "outstanding p = issue_ticket (PAR_URN_PREFIX @ t) \<lparr>tk_client = ''bank'', tk_params = bank_request,
        tk_expires = as_now ?s + 90\<rparr> (outstanding bank_par)"
    and s: "ps_server p = ?s\<lparr>as_rng := g, as_store := store_log ''par_pushed'' (''request for '' @ ''bank'') (as_store ?s)\<rparr>"
    by (auto simp: bank_par_def sample_par_def)
  from out obtain r where r: "dget (ps_requests p) (PAR_URN_PREFIX @ t) = Some r" "\<not> pr_used r" "pr_client_id r = ''bank''"
    "pr_params r = bank_request" "pr_expires_at r = as_now ?s + 90"
    by (auto simp: outstanding_def issue_ticket_def dest!: fun_cong [where x = "PAR_URN_PREFIX @ t"] split: option.splits if_splits)
  have auth: "authenticate_client bank_request None (Some ''thumb'') ?s = (Inr bank_client, ?s)"
    by (rule bank_authenticates) (simp add: bank_request_def pget_or_def)
  have plain: "filter (\<lambda>(name, _). name \<notin> set CLIENT_AUTH_FIELDS) bank_request = bank_request"
    "dset ''client_id'' (PStr ''bank'') bank_request = bank_request" "dget bank_request ''request'' = None"
    "dget bank_request ''request_uri'' = None" "pget bank_request ''client_id'' = PStr ''bank''"
    by (simp_all add: bank_request_def CLIENT_AUTH_FIELDS_def pget_def)
  have shape: "fapi_shape bank_request bank_client" by (simp add: fapi_shape_def bank_request_def pget_def)
  have push: "par_push bank_request None (Some ''thumb'') False bank_par
      = (Inr [(''request_uri'', PStr (PAR_URN_PREFIX @ t)), (''expires_in'', PInt 90)], p)"
    using auth plain v store
    by (simp add: par_push_def require_def bindM_def on_server_def zoom_def effective_request_def)
  then have run: "fapi_push bank_request None (Some ''thumb'') False bank_par
      = (Inr [(''request_uri'', PStr (PAR_URN_PREFIX @ t)), (''expires_in'', PInt 90)], p)"
    using bank_fapi [OF plain(5)] bank_valid plain shape r
    by (simp add: fapi_push_def bindM_def require_def fapi_recheck_def pget_def)
  let ?params = "[(''client_id'', PStr ''bank''), (''request_uri'', PStr (PAR_URN_PREFIX @ t))]"
  have "fapi_authorize ?params p = (validate_authorization_request (ps_server p) bank_request,
      p\<lparr>ps_requests := dupd (PAR_URN_PREFIX @ t) (\<lambda>r. r\<lparr>pr_used := True\<rparr>) (ps_requests p)\<rparr>)"
    using par_authorize_run [OF r(1), of "''bank''"] r by (simp add: fapi_authorize_def s)
  moreover have "validate_authorization_request (ps_server p) bank_request = Inr v" using v by (simp only: s validate_same)
  ultimately obtain p' where auth: "fapi_authorize ?params p = (Inr v, p')" by simp
  have "fapi_run bank_par p" by (rule fapi_run.push [OF fapi_run.refl run])
  moreover have "ps_requests bank_par = []" by (simp add: bank_par_def)
  ultimately have "v_method v = PStr ''S256''" using fapi_authorization_uses_pkce [OF _ _ auth] by blast
  with run auth show ?thesis by blast
qed

theorem signed_introspection_is_read_back_witness:
  "\<exists>ks token. signed_introspection ''access!'' bank_client ''https://api'' None (Some ''thumb'') (ps_server bank_par)
      = (Inr (INTROSPECTION_MEDIA_TYPE, token), ps_server bank_par)
    \<and> validate_introspection ''https://as'' 1100 token ''https://api'' ks
        = (Inr (introspect (ps_server bank_par) ''access!''), ks)"
proof -
  let ?s = "ps_server bank_par"
  from sample_public_jwk obtain doc where
    "from_rsa_public (rsa_public_of sample_key) (Some ''k1'') ''RS256'' ''sig'' = Inr doc" by blast
  from rsa_jwk_resolves [OF this _ issue_header_kid [of "''k1''" RS256 INTROSPECTION_TYP]] obtain ks where
    ks: "jwks_resolver (issue_header RS256 (Some (as_signing_kid ?s)) INTROSPECTION_TYP) ks
      = (Inr (Some (KRsaPub (rsa_public_of sample_key))), ks)"
    by (auto simp: bank_par_def)
  have s: "as_signing_key ?s = KRsaPriv sample_key" "as_now ?s = 1010" "as_issuer ?s = ''https://as''"
    "dget (st_access_tokens (as_store ?s)) ''access!'' = Some sample_access"
    by (simp_all add: bank_par_def issued_server_def sample_server_def)
  have auth: "authenticate_client [(''client_id'', PStr (cl_id bank_client))] None (Some ''thumb'') ?s = (Inr bank_client, ?s)"
    by (rule bank_authenticates) (simp add: pget_or_def)
  have body: "audience_body ?s ''access!'' ''https://api'' = introspect ?s ''access!''"
    using s(4) by (simp add: audience_body_def) (simp add: sample_access_def)
  have clean: "list_all json_clean (at_details a)" if "dget (st_access_tokens (as_store ?s)) ''access!'' = Some a" for a
    using that s(4) by (auto simp: sample_access_def)
  from signed_introspection_is_read_back [where now = 1100 and v = "''access!''" and audience = "''https://api''",
      OF sample_key_ok sample_fits s(1) ks auth _ clean] s(2,3)
  obtain token where "signed_introspection ''access!'' bank_client ''https://api'' None (Some ''thumb'') ?s
      = (Inr (INTROSPECTION_MEDIA_TYPE, token), ?s)"
    "validate_introspection (as_issuer ?s) 1100 token ''https://api'' ks = (Inr (audience_body ?s ''access!'' ''https://api''), ks)"
    by auto
  with body s(3) show ?thesis by auto
qed

end
