(* ===== verification/Resource.thy ===== *)
theory Resource
  imports Fapi
begin

text \<open>
  \<open>authlab/oauth/resource_server.py\<close>: the API that consumes access tokens, as signed tokens that
  it checks itself and as opaque tokens that it asks the authorization server about.
\<close>

section \<open>Outcomes\<close>

text \<open>The two exceptions of the module with their error codes, and what escapes from below it.\<close>

datatype http_error = Unauthorized string | Forbidden string | Escaped exn

definition http_status :: "http_error \<Rightarrow> nat option" where
  "http_status e = (case e of Unauthorized _ \<Rightarrow> Some 401 | Forbidden _ \<Rightarrow> Some 403 | Escaped _ \<Rightarrow> None)"

definition www_authenticate :: "string \<Rightarrow> string \<Rightarrow> string \<Rightarrow> string \<Rightarrow> string" where
  "www_authenticate error message scheme realm =
     scheme @ '' realm='' @ [CHR 0x22] @ realm @ [CHR 0x22] @ '', error='' @ [CHR 0x22] @ error @ [CHR 0x22]
       @ '', error_description='' @ [CHR 0x22] @ message @ [CHR 0x22]"

section \<open>The server that checks signed tokens\<close>

record resource_server =
  rs_audience :: string
  rs_issuer :: string
  rs_jwks :: jwkset
  rs_allowed :: "string list"
  rs_leeway :: int
  rs_require_typ :: "string option"
  rs_dpop :: dpop_verifier

definition rs_validator :: "resource_server \<Rightarrow> jwt_validator" where
  "rs_validator rs =
     \<lparr>v_issuer = rs_issuer rs, v_audience = rs_audience rs, v_allowed = rs_allowed rs, v_leeway = rs_leeway rs,
      v_require = [''iss'', ''sub'', ''aud'', ''exp'', ''iat''], v_max_age = None, v_expected_typ = rs_require_typ rs\<rparr>"

text \<open>\<open>header.split(None, 1)\<close> and the scheme.\<close>

definition parse_authorization_header :: "string option \<Rightarrow> http_error + string \<times> string" where
  "parse_authorization_header header =
     (case header of
        None \<Rightarrow> Inl (Unauthorized ''invalid_request'')
      | Some h \<Rightarrow>
          (let text = dropWhile is_space h;
               scheme = takeWhile (\<lambda>c. \<not> is_space c) text;
               rest = dropWhile is_space (dropWhile (\<lambda>c. \<not> is_space c) text)
           in if h = [] \<or> scheme = [] \<or> rest = [] then Inl (Unauthorized ''invalid_request'')
              else if lower scheme \<notin> {''bearer'', ''dpop''} then Inl (Unauthorized ''invalid_request'')
              else Inr (scheme, strip rest)))"

text \<open>Every \<open>JOSEError\<close> is a 401.\<close>

definition rs_error :: "exn \<Rightarrow> http_error" where
  "rs_error e = (case e of Jose _ \<Rightarrow> Unauthorized ''invalid_token'' | _ \<Rightarrow> Escaped e)"

text \<open>
  The \<open>jkt\<close> member may be any JSON value.  The verifier skips the comparison for \<open>null\<close>, and
  \<open>constant_time_equals\<close> raises for what is not a string, at the point where a string that is no
  thumbprint is refused; here the error is the same for both.
\<close>

definition expected_jkt :: "pyval \<Rightarrow> string option" where
  "expected_jkt v = (case v of PNone \<Rightarrow> None | PStr s \<Rightarrow> Some s | _ \<Rightarrow> Some [])"

text \<open>The request around the token.\<close>

record api_request =
  rq_header :: "string option"
  rq_method :: string
  rq_url :: "string option"
  rq_proof :: "string option"
  rq_tls :: "string option"

definition check_jkt ::
  "int \<Rightarrow> string \<Rightarrow> string \<Rightarrow> api_request \<Rightarrow> pydict \<Rightarrow> resource_server \<Rightarrow> (http_error + unit) \<times> resource_server" where
  "check_jkt now scheme token rq cnf rs =
     (case dget cnf ''jkt'' of
        None \<Rightarrow> (Inr (), rs)
      | Some thumb \<Rightarrow>
          if lower scheme \<noteq> ''dpop'' then (Inl (Unauthorized ''invalid_token''), rs)
          else if \<not> truthy_str (rq_proof rq) then (Inl (Unauthorized ''invalid_dpop_proof''), rs)
          else (case rq_url rq of
              None \<Rightarrow> (Inl (Unauthorized ''invalid_token''), rs)
            | Some url \<Rightarrow>
                (case dpop_verify now (the (rq_proof rq)) (rq_method rq) url (Some token) (expected_jkt thumb) (rs_dpop rs) of
                   (Inl e, d) \<Rightarrow>
                     (Inl (if is_outcome e then Escaped e else Unauthorized ''invalid_dpop_proof''), rs\<lparr>rs_dpop := d\<rparr>)
                 | (Inr _, d) \<Rightarrow> (Inr (), rs\<lparr>rs_dpop := d\<rparr>))))"

definition check_x5t :: "api_request \<Rightarrow> pydict \<Rightarrow> http_error + unit" where
  "check_x5t rq cnf =
     (case dget cnf ''x5t#S256'' of
        None \<Rightarrow> Inr ()
      | Some x \<Rightarrow>
          (case rq_tls rq of
             None \<Rightarrow> Inl (Unauthorized ''invalid_token'')
           | Some t \<Rightarrow>
               (case ct_equals_val x t of
                  Inl e \<Rightarrow> Inl (Escaped (Py e))
                | Inr same \<Rightarrow> if same then Inr () else Inl (Unauthorized ''invalid_token''))))"

definition rs_authenticate ::
  "int \<Rightarrow> api_request \<Rightarrow> resource_server \<Rightarrow> (http_error + pydict) \<times> resource_server" where
  "rs_authenticate now rq rs =
     (case parse_authorization_header (rq_header rq) of
        Inl e \<Rightarrow> (Inl e, rs)
      | Inr (scheme, token) \<Rightarrow>
          (case jwt_validate (rs_validator rs) jwks_resolver now token None (rs_jwks rs) of
             (Inl e, ks) \<Rightarrow> (Inl (rs_error e), rs\<lparr>rs_jwks := ks\<rparr>)
           | (Inr claims, ks) \<Rightarrow>
               (let rs1 = rs\<lparr>rs_jwks := ks\<rparr>; cnf = pget claims ''cnf'' in
                if \<not> truthy cnf then (Inr claims, rs1)
                else (case cnf of
                    PDict d \<Rightarrow>
                      (case check_jkt now scheme token rq d rs1 of
                         (Inl e, rs2) \<Rightarrow> (Inl e, rs2)
                       | (Inr _, rs2) \<Rightarrow>
                           (case check_x5t rq d of Inl e \<Rightarrow> (Inl e, rs2) | Inr _ \<Rightarrow> (Inr claims, rs2)))
                  | _ \<Rightarrow> (Inl (Unauthorized ''invalid_token''), rs1)))))"

definition require_scope :: "pydict \<Rightarrow> string list \<Rightarrow> string \<Rightarrow> http_error + unit" where
  "require_scope claims required mode =
     (let held = set (claims_scopes claims); needed = set required;
          satisfied = (if mode = ''all'' then needed \<subseteq> held else needed \<inter> held \<noteq> {})
      in if satisfied then Inr () else Inl (Forbidden ''insufficient_scope''))"

definition require_ownership :: "pydict \<Rightarrow> string \<Rightarrow> http_error + unit" where
  "require_ownership claims owner =
     (case ct_equals_val (if truthy (pget claims ''sub'') then pget claims ''sub'' else PStr []) owner of
        Inl e \<Rightarrow> Inl (Escaped (Py e))
      | Inr same \<Rightarrow> if same then Inr () else Inl (Forbidden ''access_denied''))"

section \<open>The server that asks\<close>

record introspecting_server =
  is_audience :: string
  is_cache_ttl :: int
  is_cache :: "(string, int \<times> pydict) dict"

text \<open>\<open>introspect\<close> is whatever the server was given: here an operation on some state.\<close>

definition is_lookup ::
  "int \<Rightarrow> (string \<Rightarrow> ('s, pydict) op) \<Rightarrow> string \<Rightarrow> introspecting_server \<times> 's
   \<Rightarrow> (exn + pydict) \<times> introspecting_server \<times> 's" where
  "is_lookup now ask token st =
     (case st of (srv, s) \<Rightarrow>
       if is_cache_ttl srv \<noteq> 0 then
         (case dget (is_cache srv) token of
            Some (until, result) \<Rightarrow>
              if until > now then (Inr result, st)
              else (case ask token s of
                  (Inl e, s') \<Rightarrow> (Inl e, srv, s')
                | (Inr result, s') \<Rightarrow>
                    (Inr result, srv\<lparr>is_cache := dset token (now + is_cache_ttl srv, result) (is_cache srv)\<rparr>, s'))
          | None \<Rightarrow>
              (case ask token s of
                 (Inl e, s') \<Rightarrow> (Inl e, srv, s')
               | (Inr result, s') \<Rightarrow>
                   (Inr result, srv\<lparr>is_cache := dset token (now + is_cache_ttl srv, result) (is_cache srv)\<rparr>, s')))
       else (case ask token s of (r, s') \<Rightarrow> (r, srv, s')))"

definition audience_allows :: "string \<Rightarrow> pydict \<Rightarrow> http_error + unit" where
  "audience_allows audience result =
     (let aud = pget result ''aud'' in
      if \<not> truthy aud then Inr ()
      else (case aud of
          PStr a \<Rightarrow> if a = audience then Inr () else Inl (Unauthorized ''invalid_token'')
        | PList vs \<Rightarrow> if PStr audience \<in> set vs then Inr () else Inl (Unauthorized ''invalid_token'')
        | PDict d \<Rightarrow> if dget d audience \<noteq> None then Inr () else Inl (Unauthorized ''invalid_token'')
        | _ \<Rightarrow> Inl (Escaped (Py TypeError))))"

definition is_authenticate ::
  "int \<Rightarrow> (string \<Rightarrow> ('s, pydict) op) \<Rightarrow> string option \<Rightarrow> introspecting_server \<times> 's
   \<Rightarrow> (http_error + pydict) \<times> introspecting_server \<times> 's" where
  "is_authenticate now ask header st =
     (case parse_authorization_header header of
        Inl e \<Rightarrow> (Inl e, st)
      | Inr (_, token) \<Rightarrow>
          (case is_lookup now ask token st of
             (Inl e, st') \<Rightarrow> (Inl (Escaped e), st')
           | (Inr result, st') \<Rightarrow>
               (if \<not> truthy (pget result ''active'') then (Inl (Unauthorized ''invalid_token''), st')
                else (case audience_allows (is_audience (fst st')) result of
                    Inl e \<Rightarrow> (Inl e, st')
                  | Inr _ \<Rightarrow> (Inr result, st')))))"

section \<open>No downgrade\<close>

lemma check_x5t_ok:
  "check_x5t rq cnf = Inr u \<longleftrightarrow> (\<forall>x. dget cnf ''x5t#S256'' = Some x \<longrightarrow> (\<exists>t. rq_tls rq = Some t \<and> x = PStr t))"
  by (auto simp: check_x5t_def ct_equals_val_def split: option.splits pyval.splits)

lemma check_jkt_D:
  assumes "check_jkt now scheme token rq cnf rs = (Inr u, rs')" "dget cnf ''jkt'' = Some thumb"
  shows "lower scheme = ''dpop'' \<and> (\<exists>pf url key d. rq_proof rq = Some pf \<and> rq_url rq = Some url
    \<and> dpop_verify now pf (rq_method rq) url (Some token) (expected_jkt thumb) (rs_dpop rs) = (Inr key, d)
    \<and> rs' = rs\<lparr>rs_dpop := d\<rparr>)"
  using assms
  by (auto simp: check_jkt_def truthy_str_def split: option.splits if_splits prod.splits sum.splits)

lemma rs_authenticate_D:
  assumes "rs_authenticate now rq rs = (Inr claims, rs')"
  obtains scheme token ks where "parse_authorization_header (rq_header rq) = Inr (scheme, token)"
    "jwt_validate (rs_validator rs) jwks_resolver now token None (rs_jwks rs) = (Inr claims, ks)"
    "\<not> truthy (pget claims ''cnf'') \<and> rs' = rs\<lparr>rs_jwks := ks\<rparr>
     \<or> (\<exists>d. pget claims ''cnf'' = PDict d \<and> check_jkt now scheme token rq d (rs\<lparr>rs_jwks := ks\<rparr>) = (Inr (), rs') \<and> check_x5t rq d = Inr ())"
  using assms that
  by (auto simp: rs_authenticate_def Let_def split: sum.splits prod.splits if_splits pyval.splits)

text \<open>
  C10: A token that is bound to a key or a certificate is worth nothing without it.  Whatever
  \<open>authenticate\<close> accepts is the payload of a token that verified under the server's keys and
  algorithms, from its issuer and for its audience, in time.  If the token names a key, it came
  under the DPoP scheme with a proof by that key for this method, URL and token; if it names a
  certificate, that certificate was presented.
\<close>

theorem bound_token_is_not_downgraded:
  assumes "rs_authenticate now rq rs = (Inr claims, rs')"
  shows "\<exists>scheme token parsed ks. parse_authorization_header (rq_header rq) = Inr (scheme, token)
    \<and> jws_verify token jwks_resolver (rs_allowed rs) False (rs_jwks rs) = (Inr parsed, ks)
    \<and> bind_res (utf8_decode (jws_payload parsed)) json_loads = Inr (PDict claims)
    \<and> pget claims ''iss'' = PStr (rs_issuer rs) \<and> (\<exists>aud. claims_aud claims = Inr aud \<and> rs_audience rs \<in> set aud)
    \<and> (\<forall>t. as_int (pget claims ''exp'') = Some t \<longrightarrow> now \<le> t + rs_leeway rs)
    \<and> (truthy (pget claims ''cnf'') \<longrightarrow> (\<exists>cnf. pget claims ''cnf'' = PDict cnf
        \<and> (\<forall>x. dget cnf ''x5t#S256'' = Some x \<longrightarrow> (\<exists>t. rq_tls rq = Some t \<and> x = PStr t))
        \<and> (\<forall>j. dget cnf ''jkt'' = Some (PStr j) \<longrightarrow> lower scheme = ''dpop''
            \<and> (\<exists>pf url. rq_proof rq = Some pf \<and> rq_url rq = Some url
                \<and> dpop_verify now pf (rq_method rq) url (Some token) (Some j) (rs_dpop rs) = (Inr j, rs_dpop rs')))))"
proof -
  from assms obtain scheme token ks where
    h: "parse_authorization_header (rq_header rq) = Inr (scheme, token)" and
    v: "jwt_validate (rs_validator rs) jwks_resolver now token None (rs_jwks rs) = (Inr claims, ks)" and
    c: "\<not> truthy (pget claims ''cnf'') \<and> rs' = rs\<lparr>rs_jwks := ks\<rparr>
     \<or> (\<exists>d. pget claims ''cnf'' = PDict d \<and> check_jkt now scheme token rq d (rs\<lparr>rs_jwks := ks\<rparr>) = (Inr (), rs') \<and> check_x5t rq d = Inr ())"
    by (rule rs_authenticate_D)
  from v obtain parsed where p: "jws_verify token jwks_resolver (rs_allowed rs) False (rs_jwks rs) = (Inr parsed, ks)"
    "validate_claims (rs_validator rs) now None parsed = Inr claims"
    by (auto simp: jwt_validate_def bindM_Inr_iff rs_validator_def)
  note q = validate_claims_D [OF p(2)]
  have jkt: "lower scheme = ''dpop'' \<and> (\<exists>pf url. rq_proof rq = Some pf \<and> rq_url rq = Some url
      \<and> dpop_verify now pf (rq_method rq) url (Some token) (Some j) (rs_dpop rs) = (Inr j, rs_dpop rs'))"
    if "check_jkt now scheme token rq d (rs\<lparr>rs_jwks := ks\<rparr>) = (Inr (), rs')" "dget d ''jkt'' = Some (PStr j)" for d j
  proof -
    from check_jkt_D [OF that] obtain pf url key dv where k: "lower scheme = ''dpop''" "rq_proof rq = Some pf" "rq_url rq = Some url"
      "dpop_verify now pf (rq_method rq) url (Some token) (Some j) (rs_dpop rs) = (Inr key, dv)" "rs_dpop rs' = dv"
      by (auto simp: expected_jkt_def)
    from k(4) obtain jwk where "dpop_check_key (Some j) jwk = Inr key" by (auto elim: dpop_verify_D)
    then have "key = j" by (auto simp: dpop_check_key_def elim!: bind_res_InrE split: if_splits)
    with k show ?thesis by auto
  qed
  have time: "\<forall>t. as_int (pget claims ''exp'') = Some t \<longrightarrow> now \<le> t + rs_leeway rs"
    using q check_times_ok [of "rs_validator rs" now claims] by (simp add: rs_validator_def)
  show ?thesis
    using h p(1) q c jkt time by (auto simp: rs_validator_def check_x5t_ok)
qed

section \<open>Tokens of the authorization server at the API\<close>

text \<open>A signed token has no white space, so that it survives the header.\<close>

lemma unreserved_no_space: "unreserved c \<Longrightarrow> \<not> is_space c"
  by (auto simp: unreserved_def is_alpha_def is_digit_def is_space_def Let_def)

lemma no_space_b64u: "list_all (\<lambda>c. \<not> is_space c) (b64u_encode bs)"
  using b64u_unreserved [of bs] by (auto simp: list_all_iff unreserved_no_space)

lemma no_space_signed:
  assumes "jws_sign (Inr claims) key a hs kid typ = Inr token"
  shows "list_all (\<lambda>c. \<not> is_space c) token \<and> token \<noteq> []"
proof -
  from assms obtain header sig where "token = (json_b64u (PDict header) @ ''.'' @ json_b64u (PDict claims)) @ ''.'' @ b64u_encode sig"
    by (auto simp: jws_sign_def Let_def payload_segment_def elim!: bind_res_InrE)
  then show ?thesis using no_space_b64u by (simp add: json_b64u_def is_space_def)
qed

lemma strip_no_space: "list_all (\<lambda>c. \<not> is_space c) s \<Longrightarrow> dropWhile is_space s = s \<and> strip s = s"
proof -
  assume s: "list_all (\<lambda>c. \<not> is_space c) s"
  then have "dropWhile is_space t = t" if "set t = set s" for t
    using that by (cases t) (auto simp: list_all_iff)
  from this [of s] this [of "rev s"] show ?thesis by (simp add: strip_def)
qed

lemma bearer_header:
  assumes "list_all (\<lambda>c. \<not> is_space c) token" "token \<noteq> []"
  shows "parse_authorization_header (Some (''Bearer '' @ token)) = Inr (''Bearer'', token)"
proof -
  have chars: "\<not> is_space CHR ''B''" "\<not> is_space CHR ''e''" "\<not> is_space CHR ''a''" "\<not> is_space CHR ''r''" "is_space CHR '' ''"
    by (simp_all add: is_space_def)
  have "lower ''Bearer'' = ''bearer''" by code_simp
  moreover have "\<exists>x \<in> set token. \<not> is_space x" using assms by (cases token) auto
  ultimately show ?thesis
    using strip_no_space [OF assms(1)] assms(2) by (simp add: parse_authorization_header_def chars Let_def)
qed

text \<open>What is known of a token that \<open>JWT.issue\<close> made under RS256, whoever validates it.\<close>

lemma issued_token_read:
  assumes "rsa_pair RS256 sk vk" "plain_extra extra" "json_clean audience"
    and "jwt_issue now sk RS256 issuer subject audience lifetime nbf extra kid ty jti0 g = (Inr token, g')"
  shows "list_all (\<lambda>c. \<not> is_space c) token \<and> token \<noteq> [] \<and> (\<exists>jti p. jws_parse token = Inr p \<and> jws_header p = issue_header RS256 kid ty
    \<and> jws_payload p = json_compact (PDict (issue_claims issuer subject audience now lifetime jti nbf extra))
    \<and> (\<forall>v key (st :: 's) st' now' nonce. alg_name RS256 \<in> set (v_allowed v) \<longrightarrow> ''none'' \<notin> set (map lower (v_allowed v)) \<longrightarrow>
         key (issue_header RS256 kid ty) st = (Inr (Some vk), st') \<longrightarrow>
         jwt_validate v key now' token nonce st = (validate_claims v now' nonce p, st')))"
proof -
  from assms(4) obtain jti where sign:
    "jws_sign (Inr (issue_claims issuer subject audience now lifetime jti nbf extra)) sk RS256 [] kid (Some ty) = Inr token"
    by (auto simp: jwt_issue_def bindM_Inr_iff)
  let ?claims = "issue_claims issuer subject audience now lifetime jti nbf extra"
  have run: "\<exists>p. jws_parse token = Inr p \<and> jws_header p = issue_header RS256 kid ty \<and> jws_payload p = json_compact (PDict ?claims)
      \<and> (\<forall>key (st :: 's) st'. key (issue_header RS256 kid ty) st = (Inr (Some vk), st') \<longrightarrow> jws_verify token key allowed False st = (Inr p, st'))"
    if "alg_name RS256 \<in> set allowed" "''none'' \<notin> set (map lower allowed)" for allowed
    using rs256.signed_token_verifies [OF assms(1) build_issue_header issue_header_ok(1,2,3) _ that, of "Inr ?claims" kid ty] sign
    by (fastforce simp: payload_bytes_def)
  have "alg_name RS256 \<in> set [''RS256'']" "''none'' \<notin> set (map lower [''RS256''])"
    by (simp_all add: algorithm_defs lower_def lower_char_def)
  from run [OF this] obtain p where p: "jws_parse token = Inr p" "jws_header p = issue_header RS256 kid ty"
    "jws_payload p = json_compact (PDict ?claims)" by blast
  have "jwt_validate v key now' token nonce st = (validate_claims v now' nonce p, st')"
    if "alg_name RS256 \<in> set (v_allowed v)" "''none'' \<notin> set (map lower (v_allowed v))"
      "key (issue_header RS256 kid ty) st = (Inr (Some vk), st')" for v key and st :: 's and st' now' nonce
    using run [OF that(1,2)] that(3) p(1) by (auto simp: jwt_validate_def bindM_def)
  with no_space_signed [OF sign] p show ?thesis by blast
qed

lemma validated_claims_of_issued:
  assumes "plain_extra extra" "json_clean audience"
    and "jws_parse token = Inr p" "jws_header p = issue_header RS256 kid ty" "ty \<noteq> []"
    and "jws_payload p = json_compact (PDict (issue_claims issuer subject audience now lifetime jti None extra))"
    and "jwt_validate v key now' token nonce st = (Inr claims, st')"
  shows "claims = issue_claims issuer subject audience now lifetime jti None extra
    \<and> (\<forall>want. v_expected_typ v = Some want \<longrightarrow> lower ty = lower want) \<and> issuer = v_issuer v
    \<and> (\<exists>aud. claims_aud claims = Inr aud \<and> v_audience v \<in> set aud) \<and> now' \<le> now + lifetime + v_leeway v"
proof -
  from assms(7) obtain p' where ver: "jws_verify token key (v_allowed v) False st = (Inr p', st')"
    "validate_claims v now' nonce p' = Inr claims"
    by (auto simp: jwt_validate_def bindM_Inr_iff)
  from ver(1) assms(3) have "p' = p" by (auto elim: jws_verify_D)
  note q = validate_claims_D [OF ver(2), unfolded this]
  have claims: "claims = issue_claims issuer subject audience now lifetime jti None extra"
    using q json_bytes_back [OF issue_claims_clean [OF assms(1,2)]] assms(6) by simp
  note c = issue_claims_parts [OF assms(1), where issuer = issuer and subject = subject and audience = audience and now = now
      and lifetime = lifetime and jti = jti and nbf = None]
  have "lower ty = lower want" if "v_expected_typ v = Some want" for want
    using q that issue_header_ok(4) [OF assms(5), of RS256 kid] assms(4)
    by (auto simp: check_typ_def py_str_def Let_def split: if_splits)
  moreover have "now' \<le> now + lifetime + v_leeway v"
    using q check_times_ok [of v now' claims] c(5) by (simp add: claims)
  ultimately show ?thesis using q c(1) claims by auto
qed


text \<open>The access token that a grant is answered with.\<close>

definition access_extra :: "client \<Rightarrow> grant \<Rightarrow> pydict" where
  "access_extra c gr =
     [(''scope'', PStr (join '' '' (gr_scope gr))), (''client_id'', PStr (cl_id c))]
       @ (if cnf_claims (gr_jkt gr) (gr_x5t gr) \<noteq> [] then [(''cnf'', PDict (cnf_claims (gr_jkt gr) (gr_x5t gr)))] else [])
       @ (if gr_details gr \<noteq> [] then [(''authorization_details'', PList (gr_details gr))] else [])"

definition access_subject :: "client \<Rightarrow> grant \<Rightarrow> string" where
  "access_subject c gr =
     (case gr_subject gr of Some sub \<Rightarrow> if sub \<noteq> [] then sub else ''client:'' @ cl_id c | None \<Rightarrow> ''client:'' @ cl_id c)"

lemma access_extra_plain: "list_all json_clean (gr_details gr) \<Longrightarrow> plain_extra (access_extra c gr)"
  by (auto simp: plain_extra_def access_extra_def cnf_claims_def opt_str_def truthy_str_def split: option.splits)

lemma access_extra_parts:
  "pget (access_extra c gr) ''scope'' = PStr (join '' '' (gr_scope gr))" "pget (access_extra c gr) ''client_id'' = PStr (cl_id c)"
  "pget (access_extra c gr) ''cnf'' =
     (if cnf_claims (gr_jkt gr) (gr_x5t gr) \<noteq> [] then PDict (cnf_claims (gr_jkt gr) (gr_x5t gr)) else PNone)"
  by (simp_all add: access_extra_def pget_def)

lemma issued_jwt_access:
  assumes "issue_token_set c gr s = (Inr resp, s')" "as_jwt_access_tokens s" "pget resp ''access_token'' = PStr token"
  shows "\<exists>g'. jwt_issue (as_now s) (as_signing_key s) RS256 (as_issuer s) (access_subject c gr)
    (PList (map PStr (if gr_audience gr \<noteq> [] then gr_audience gr else [as_issuer s])))
    (as_access_token_lifetime s) None (access_extra c gr) (Some (as_signing_kid s)) ''at+jwt'' None (as_rng s) = (Inr token, g')"
proof -
  from assms(1) obtain av s1 where av: "mint_access c gr s = (Inr av, s1)" and "pget resp ''access_token'' = PStr av"
    by (auto simp: issue_token_set_def Let_def bindM_Inr_iff pget_def)
  with assms(3) have "av = token" by simp
  with av assms(2) show ?thesis
    by (auto simp: mint_access_def Let_def bindM_Inr_iff on_rng_def zoom_def access_extra_def access_subject_def split: prod.splits)
qed

text \<open>A resource server that trusts the authorization server: its issuer, its published key, its tokens.\<close>

definition trusts :: "resource_server \<Rightarrow> auth_server \<Rightarrow> rsa_private \<Rightarrow> bool" where
  "trusts rs s k \<longleftrightarrow>
     as_signing_key s = KRsaPriv k \<and> rsa_key_ok k \<and> em_fits (key_size_bytes (rsk_n k)) ''sha256''
     \<and> rs_issuer rs = as_issuer s \<and> rs_require_typ rs = Some ''at+jwt'' \<and> 0 \<le> rs_leeway rs
     \<and> ''RS256'' \<in> set (rs_allowed rs) \<and> ''none'' \<notin> set (map lower (rs_allowed rs))
     \<and> jwks_resolver (issue_header RS256 (Some (as_signing_kid s)) ''at+jwt'') (rs_jwks rs)
         = (Inr (Some (KRsaPub (rsa_public_of k))), rs_jwks rs)"

lemma RS256_name [simp]: "alg_name RS256 = ''RS256''"
  by (simp add: algorithm_defs)

lemma issued_access_token_validates:
  assumes "trusts rs s k" "as_jwt_access_tokens s" "issue_token_set c gr s = (Inr resp, s')"
    and "pget resp ''access_token'' = PStr token" "list_all json_clean (gr_details gr)" "rs_audience rs \<in> set (gr_audience gr)"
    and "as_now s \<le> now" "now \<le> as_now s + as_access_token_lifetime s + rs_leeway rs"
  shows "\<exists>claims. jwt_validate (rs_validator rs) jwks_resolver now token None (rs_jwks rs) = (Inr claims, rs_jwks rs)
    \<and> pget claims ''sub'' = PStr (access_subject c gr) \<and> pget claims ''client_id'' = PStr (cl_id c)
    \<and> claims_scopes claims = split_ws (join '' '' (gr_scope gr))
    \<and> pget claims ''cnf'' = pget (access_extra c gr) ''cnf''"
proof -
  note t = assms(1) [unfolded trusts_def]
  let ?auds = "if gr_audience gr \<noteq> [] then gr_audience gr else [as_issuer s]"
  let ?aud = "PList (map PStr ?auds)"
  note extra = access_extra_plain [OF assms(5), of c]
  from issued_jwt_access [OF assms(3,2,4)] t obtain g' where issue: "jwt_issue (as_now s) (KRsaPriv k) RS256 (as_issuer s) (access_subject c gr)
    ?aud (as_access_token_lifetime s) None (access_extra c gr) (Some (as_signing_kid s)) ''at+jwt'' None (as_rng s) = (Inr token, g')"
    by auto
  have clean: "json_clean ?aud" by (simp add: list_all_iff)
  have pair: "rsa_pair RS256 (KRsaPriv k) (KRsaPub (rsa_public_of k))" using t by (simp add: rsa_pair_def algorithm_defs)
  from issued_token_read [OF pair extra clean issue, where 's = jwkset] obtain jti p where
    p: "jws_header p = issue_header RS256 (Some (as_signing_kid s)) ''at+jwt''" "jws_payload p = json_compact (PDict
      (issue_claims (as_issuer s) (access_subject c gr) ?aud (as_now s) (as_access_token_lifetime s) jti None (access_extra c gr)))"
    and read: "\<And>v key (st :: jwkset) st' now' nonce. alg_name RS256 \<in> set (v_allowed v) \<Longrightarrow> ''none'' \<notin> set (map lower (v_allowed v)) \<Longrightarrow>
         key (issue_header RS256 (Some (as_signing_kid s)) ''at+jwt'') st = (Inr (Some (KRsaPub (rsa_public_of k))), st') \<Longrightarrow>
         jwt_validate v key now' token nonce st = (validate_claims v now' nonce p, st')" by blast
  let ?claims = "issue_claims (as_issuer s) (access_subject c gr) ?aud (as_now s) (as_access_token_lifetime s) jti None (access_extra c gr)"
  have "accepts_issued (rs_validator rs) now None ?claims ''at+jwt''"
    using accepts_issued_claims [OF extra, where v = "rs_validator rs" and auds = ?auds and now = "as_now s" and now' = now
        and lifetime = "as_access_token_lifetime s" and ty = "''at+jwt''" and nonce = None and subject = "access_subject c gr" and jti = jti]
      t assms(6-8) by (auto simp: rs_validator_def split: if_splits)
  from validate_claims_accepts [OF this issue_claims_clean [OF extra clean] p(2,1)] read [of "rs_validator rs" jwks_resolver "rs_jwks rs"] t
  have "jwt_validate (rs_validator rs) jwks_resolver now token None (rs_jwks rs) = (Inr ?claims, rs_jwks rs)"
    by (simp add: rs_validator_def)
  then show ?thesis
    using issue_claims_parts(2,8) [OF extra, where issuer = "as_issuer s" and subject = "access_subject c gr" and audience = ?aud
        and now = "as_now s" and lifetime = "as_access_token_lifetime s" and jti = jti and nbf = None]
    by (intro exI [of _ ?claims]) (simp add: access_extra_parts claims_scopes_def)
qed


lemma rs_authenticate_bearer:
  assumes "parse_authorization_header (rq_header rq) = Inr (''Bearer'', token)"
    and "jwt_validate (rs_validator rs) jwks_resolver now token None (rs_jwks rs) = (Inr claims, rs_jwks rs)"
    and "pget claims ''cnf'' = pget (access_extra c gr) ''cnf''"
  shows "rs_authenticate now rq rs =
    (if truthy_str (gr_jkt gr) \<or> truthy_str (gr_x5t gr) \<and> rq_tls rq \<noteq> gr_x5t gr then Inl (Unauthorized ''invalid_token'')
     else Inr claims, rs)"
proof -
  have "lower ''Bearer'' \<noteq> ''dpop''" by code_simp
  with assms show ?thesis
    by (auto simp: rs_authenticate_def access_extra_parts cnf_claims_def check_jkt_def check_x5t_def opt_str_def truthy_str_def
        Let_def ct_equals_val_def split: option.splits)
qed

text \<open>
  C29: A signed access token works where it should.  Sent as a bearer token to a resource server
  that trusts the authorization server and is one of the token's audiences, until it expires, it
  is accepted with the subject, client and scopes of its grant; a token bound to a certificate
  needs that certificate, and a token bound to a key is refused as a bearer token.  It passes
  exactly the scope checks its scopes cover and the ownership check of its own subject.
\<close>

theorem issued_access_token_opens_the_api:
  assumes "trusts rs s k" "as_jwt_access_tokens s" "issue_token_set c gr s = (Inr resp, s')"
    and "pget resp ''access_token'' = PStr token" "list_all json_clean (gr_details gr)" "rs_audience rs \<in> set (gr_audience gr)"
    and "as_now s \<le> now" "now \<le> as_now s + as_access_token_lifetime s + rs_leeway rs"
    and "rq_header rq = Some (''Bearer '' @ token)"
  shows "\<exists>claims. rs_authenticate now rq rs =
      (if truthy_str (gr_jkt gr) \<or> truthy_str (gr_x5t gr) \<and> rq_tls rq \<noteq> gr_x5t gr then Inl (Unauthorized ''invalid_token'')
       else Inr claims, rs)
    \<and> pget claims ''sub'' = PStr (access_subject c gr) \<and> pget claims ''client_id'' = PStr (cl_id c)
    \<and> claims_scopes claims = split_ws (join '' '' (gr_scope gr))
    \<and> (\<forall>needed. require_scope claims needed ''all'' = Inr () \<longleftrightarrow> set needed \<subseteq> set (split_ws (join '' '' (gr_scope gr))))
    \<and> (\<forall>owner. require_ownership claims owner = Inr () \<longleftrightarrow> owner = access_subject c gr)"
proof -
  from issued_access_token_validates [OF assms(1-8)] obtain claims where
    v: "jwt_validate (rs_validator rs) jwks_resolver now token None (rs_jwks rs) = (Inr claims, rs_jwks rs)"
    and c: "pget claims ''sub'' = PStr (access_subject c gr)" "pget claims ''client_id'' = PStr (cl_id c)"
      "claims_scopes claims = split_ws (join '' '' (gr_scope gr))" "pget claims ''cnf'' = pget (access_extra c gr) ''cnf''"
    by blast
  from issued_jwt_access [OF assms(3,2,4)] have "list_all (\<lambda>c. \<not> is_space c) token \<and> token \<noteq> []"
    by (auto simp: jwt_issue_def bindM_Inr_iff dest: no_space_signed)
  with assms(9) bearer_header [of token] have "parse_authorization_header (rq_header rq) = Inr (''Bearer'', token)" by simp
  from rs_authenticate_bearer [OF this v c(4)] c show ?thesis
    by (intro exI [of _ claims]) (auto simp: require_scope_def require_ownership_def ct_equals_val_def Let_def)
qed

text \<open>The claims of an ID token.\<close>

definition id_token_extra :: "auth_server \<Rightarrow> string \<Rightarrow> pyval \<Rightarrow> string list \<Rightarrow> int \<Rightarrow> pydict \<Rightarrow> pydict" where
  "id_token_extra s subject nonce amr t at_hash =
     [(''auth_time'', PInt (if t \<noteq> 0 then t else as_now s))] @ (if truthy nonce then [(''nonce'', nonce)] else [])
     @ (if amr \<noteq> [] then [(''amr'', PList (map PStr amr))] else []) @ at_hash
     @ (case dget (st_users (as_store s)) subject of None \<Rightarrow> []
        | Some u \<Rightarrow> [(''preferred_username'', PStr (us_username u))]
            @ (if us_email u \<noteq> [] then [(''email'', PStr (us_email u)), (''email_verified'', PBool (us_email_verified u))] else [])
            @ (if us_name u \<noteq> [] then [(''name'', PStr (us_name u))] else []))"

lemma id_token_extra_plain:
  assumes "json_clean nonce" "at_hash = [] \<or> (\<exists>x. at_hash = [(''at_hash'', PStr x)])"
  shows "plain_extra (id_token_extra s subject nonce amr t at_hash)
    \<and> (truthy nonce \<longrightarrow> pget (id_token_extra s subject nonce amr t at_hash) ''nonce'' = nonce)"
proof -
  define N where "N = (if truthy nonce then [(''nonce'', nonce)] else [])"
  define A where "A = (if amr \<noteq> [] then [(''amr'', PList (map PStr amr))] else [])"
  have amr: "json_clean (PList (map PStr amr))" by (simp add: list_all_iff)
  define U where "U = (case dget (st_users (as_store s)) subject of None \<Rightarrow> []
        | Some u \<Rightarrow> [(''preferred_username'', PStr (us_username u))]
            @ (if us_email u \<noteq> [] then [(''email'', PStr (us_email u)), (''email_verified'', PBool (us_email_verified u))] else [])
            @ (if us_name u \<noteq> [] then [(''name'', PStr (us_name u))] else []))"
  have extra: "id_token_extra s subject nonce amr t at_hash = (''auth_time'', PInt (if t \<noteq> 0 then t else as_now s)) # N @ A @ at_hash @ U"
    by (simp add: id_token_extra_def N_def A_def U_def)
  have U: "U = [] \<or> (\<exists>u E M. U = (''preferred_username'', PStr u) # E @ M
      \<and> (E = [] \<or> (\<exists>e b. E = [(''email'', PStr e), (''email_verified'', PBool b)])) \<and> (M = [] \<or> (\<exists>n. M = [(''name'', PStr n)])))"
  proof (cases "dget (st_users (as_store s)) subject")
    case (Some u)
    then show ?thesis
      by (intro disjI2 exI [of _ "us_username u"]
          exI [of _ "if us_email u \<noteq> [] then [(''email'', PStr (us_email u)), (''email_verified'', PBool (us_email_verified u))] else []"]
          exI [of _ "if us_name u \<noteq> [] then [(''name'', PStr (us_name u))] else []"]) (auto simp: U_def)
  qed (simp add: U_def)
  have "N = [] \<or> N = [(''nonce'', nonce)]" "A = [] \<or> A = [(''amr'', PList (map PStr amr))]"
    by (simp_all add: N_def A_def)
  then have "plain_extra (id_token_extra s subject nonce amr t at_hash)"
    unfolding extra using U assms amr
    by (elim disjE exE conjE; simp add: plain_extra_def)
  moreover have "truthy nonce \<longrightarrow> pget (id_token_extra s subject nonce amr t at_hash) ''nonce'' = nonce"
    by (simp add: id_token_extra_def pget_def)
  ultimately show ?thesis by blast
qed

lemma issued_id_token:
  assumes "issue_id_token c subject nonce amr t access s = (Inr idt, s')" "json_clean nonce"
  shows "\<exists>extra g'. plain_extra extra \<and> jwt_issue (as_now s) (as_signing_key s) RS256 (as_issuer s) subject (PStr (cl_id c))
    (as_id_token_lifetime s) None extra (Some (as_signing_kid s)) ''JWT'' None (as_rng s) = (Inr idt, g')
    \<and> (truthy nonce \<longrightarrow> pget extra ''nonce'' = nonce)"
proof -
  from assms(1) obtain at_hash where
    h: "(case access of Some t \<Rightarrow> if t \<noteq> [] then map_sum id (\<lambda>raw. [(''at_hash'', PStr (b64u_encode (take 16 (sha256 raw))))]) (ascii_encode t)
                     else Inr [] | None \<Rightarrow> Inr []) = Inr at_hash"
    and run: "on_rng (jwt_issue (as_now s) (as_signing_key s) RS256 (as_issuer s) subject (PStr (cl_id c)) (as_id_token_lifetime s) None
      (id_token_extra s subject nonce amr t at_hash) (Some (as_signing_kid s)) ''JWT'' None) s = (Inr idt, s')"
    unfolding issue_id_token_def Let_def id_token_extra_def [symmetric] by (auto simp: bindM_Inr_iff)
  from h have "at_hash = [] \<or> (\<exists>x. at_hash = [(''at_hash'', PStr x)])"
    by (auto simp: map_sum_Inr_iff split: option.splits if_splits)
  with id_token_extra_plain [OF assms(2)] run show ?thesis
    by (auto simp: on_rng_def zoom_def split: prod.splits intro!: exI [of _ "id_token_extra s subject nonce amr t at_hash"])
qed

lemma claims_aud_simps:
  "pget c ''aud'' = PList (map PStr auds) \<Longrightarrow> claims_aud c = Inr auds"
  "pget c ''aud'' = PStr a \<Longrightarrow> claims_aud c = Inr [a]"
  by (simp_all add: claims_aud_def py_iter_def py_str_def comp_def)

lemma issued_token_accepted_D:
  assumes "trusts rs s k" "plain_extra extra" "json_clean audience" "ty \<noteq> []"
    and "jwt_issue (as_now s) (KRsaPriv k) RS256 (as_issuer s) subject audience lifetime None extra kid ty jti g = (Inr token, g')"
    and "parse_authorization_header (rq_header rq) = Inr (scheme, token)" "rs_authenticate now rq rs = (Inr claims, rs')"
  shows "lower ty = lower ''at+jwt'' \<and> (\<exists>aud. claims_aud [(''aud'', audience)] = Inr aud \<and> rs_audience rs \<in> set aud)
    \<and> now \<le> as_now s + lifetime + rs_leeway rs"
proof -
  have pair: "rsa_pair RS256 (KRsaPriv k) (KRsaPub (rsa_public_of k))"
    using assms(1) by (simp add: trusts_def rsa_pair_def algorithm_defs)
  from issued_token_read [OF pair assms(2,3,5), where 's = jwkset] obtain jti' p where
    p: "jws_parse token = Inr p" "jws_header p = issue_header RS256 kid ty"
      "jws_payload p = json_compact (PDict (issue_claims (as_issuer s) subject audience (as_now s) lifetime jti' None extra))"
    by blast
  from assms(7) obtain scheme' token' ks where v: "parse_authorization_header (rq_header rq) = Inr (scheme', token')"
    "jwt_validate (rs_validator rs) jwks_resolver now token' None (rs_jwks rs) = (Inr claims, ks)"
    by (rule rs_authenticate_D)
  with assms(6) have val: "jwt_validate (rs_validator rs) jwks_resolver now token None (rs_jwks rs) = (Inr claims, ks)" by simp
  note q = validated_claims_of_issued [OF assms(2,3) p(1,2) assms(4) p(3) val]
  have "pget claims ''aud'' = audience"
    using q issue_claims_parts(3) [OF assms(2)] by auto
  then have "claims_aud claims = claims_aud [(''aud'', audience)]" by (simp add: claims_aud_def pget_def)
  with q assms(1) show ?thesis by (auto simp: rs_validator_def trusts_def)
qed

text \<open>
  C30: No other token of the same authorization server works there: not an ID token, although
  it is signed with the same key, not an access token for other audiences, and not one that is
  past its expiry by more than the leeway, whatever else comes with the request.
\<close>

theorem api_refuses_other_tokens:
  assumes "trusts rs s k" "parse_authorization_header (rq_header rq) = Inr (scheme, token)"
    and "(\<exists>c subject nonce amr t access s'. issue_id_token c subject nonce amr t access s = (Inr token, s') \<and> json_clean nonce)
      \<or> (\<exists>c gr resp s'. as_jwt_access_tokens s \<and> issue_token_set c gr s = (Inr resp, s') \<and> pget resp ''access_token'' = PStr token
           \<and> list_all json_clean (gr_details gr) \<and> gr_audience gr \<noteq> []
           \<and> (rs_audience rs \<notin> set (gr_audience gr) \<or> as_now s + as_access_token_lifetime s + rs_leeway rs < now))"
  shows "\<exists>e rs'. rs_authenticate now rq rs = (Inl e, rs')"
proof -
  have key: "as_signing_key s = KRsaPriv k" using assms(1) by (simp add: trusts_def)
  have "rs_authenticate now rq rs \<noteq> (Inr claims, rs')" for claims rs'
  proof
    assume ok: "rs_authenticate now rq rs = (Inr claims, rs')"
    note D = issued_token_accepted_D [OF assms(1) _ _ _ _ assms(2) ok]
    from assms(3) show False
    proof
      assume "\<exists>c subject nonce amr t access s'. issue_id_token c subject nonce amr t access s = (Inr token, s') \<and> json_clean nonce"
      then obtain c subject nonce amr t access s' where
        "issue_id_token c subject nonce amr t access s = (Inr token, s')" "json_clean nonce" by blast
      from issued_id_token [OF this] key obtain extra g' where "plain_extra extra"
        "jwt_issue (as_now s) (KRsaPriv k) RS256 (as_issuer s) subject (PStr (cl_id c))
          (as_id_token_lifetime s) None extra (Some (as_signing_kid s)) ''JWT'' None (as_rng s) = (Inr token, g')" by auto
      from D [OF this(1) _ _ this(2)] have "lower ''JWT'' = lower ''at+jwt''" by simp
      moreover have "lower ''JWT'' \<noteq> lower ''at+jwt''" by code_simp
      ultimately show False by blast
    next
      assume "\<exists>c gr resp s'. as_jwt_access_tokens s \<and> issue_token_set c gr s = (Inr resp, s') \<and> pget resp ''access_token'' = PStr token
           \<and> list_all json_clean (gr_details gr) \<and> gr_audience gr \<noteq> []
           \<and> (rs_audience rs \<notin> set (gr_audience gr) \<or> as_now s + as_access_token_lifetime s + rs_leeway rs < now)"
      then obtain c gr resp s' where gr: "as_jwt_access_tokens s" "issue_token_set c gr s = (Inr resp, s')" "pget resp ''access_token'' = PStr token"
        "list_all json_clean (gr_details gr)" "gr_audience gr \<noteq> []"
        "rs_audience rs \<notin> set (gr_audience gr) \<or> as_now s + as_access_token_lifetime s + rs_leeway rs < now" by blast
      from issued_jwt_access [OF gr(2,1,3)] key gr(5) obtain g' where
        issue: "jwt_issue (as_now s) (KRsaPriv k) RS256 (as_issuer s) (access_subject c gr) (PList (map PStr (gr_audience gr)))
          (as_access_token_lifetime s) None (access_extra c gr) (Some (as_signing_kid s)) ''at+jwt'' None (as_rng s) = (Inr token, g')"
        by auto
      have "json_clean (PList (map PStr (gr_audience gr)))" by (simp add: list_all_iff)
      from D [OF access_extra_plain [OF gr(4)] this _ issue] gr(6) claims_aud_simps(1) [of "[(''aud'', PList (map PStr (gr_audience gr)))]" "gr_audience gr"]
      show False by (auto simp: pget_def)
    qed
  qed
  then show ?thesis by (metis surj_pair sumE)
qed

section \<open>A proof opens the API once\<close>

inductive rs_runs :: "int \<Rightarrow> resource_server \<Rightarrow> int \<Rightarrow> resource_server \<Rightarrow> bool" where
  stay: "rs_runs t rs t rs"
| call: "rs_runs t rs u rs1 \<Longrightarrow> u \<le> now \<Longrightarrow> rs_authenticate now rq rs1 = (r, rs2) \<Longrightarrow> rs_runs t rs now rs2"

lemma rs_authenticate_dpop:
  assumes "rs_authenticate now rq rs = (r, rs')"
  shows "rs_dpop rs' = rs_dpop rs \<or> (\<exists>pf url token expected q.
    dpop_verify now pf (rq_method rq) url (Some token) expected (rs_dpop rs) = (q, rs_dpop rs'))"
proof -
  have jkt: "rs_dpop rs2 = rs_dpop rs1 \<or> (\<exists>pf url expected q.
      dpop_verify now pf (rq_method rq) url (Some token) expected (rs_dpop rs1) = (q, rs_dpop rs2))"
    if "check_jkt now scheme token rq d rs1 = (x, rs2)" for scheme token d rs1 x rs2
    using that by (auto simp: check_jkt_def split: option.splits if_splits prod.splits sum.splits)
  from assms show ?thesis
    by (auto simp: rs_authenticate_def Let_def split: sum.splits prod.splits if_splits pyval.splits dest!: jkt)
qed

lemma rs_runs_dpop: "rs_runs t rs u rs' \<Longrightarrow> \<exists>v. v \<le> u \<and> dpop_runs t (rs_dpop rs) v (rs_dpop rs')"
proof (induction rule: rs_runs.induct)
  case (stay t rs)
  then show ?case using dpop_runs.stay by blast
next
  case (call t rs u rs1 now rq r rs2)
  then obtain v where v: "v \<le> u" "dpop_runs t (rs_dpop rs) v (rs_dpop rs1)" by blast
  from rs_authenticate_dpop [OF call.hyps(3)] show ?case
  proof (elim disjE exE)
    assume "rs_dpop rs2 = rs_dpop rs1"
    with v call.hyps(2) show ?thesis by (intro exI [of _ v]) auto
  next
    fix pf url token expected q
    assume "dpop_verify now pf (rq_method rq) url (Some token) expected (rs_dpop rs1) = (q, rs_dpop rs2)"
    from dpop_runs.call [OF v(2) _ this] v(1) call.hyps(2) show ?thesis by auto
  qed
qed

text \<open>The token of an accepted request is bound to a key.\<close>

definition key_bound :: "pydict \<Rightarrow> bool" where
  "key_bound claims = (case pget claims ''cnf'' of PDict cnf \<Rightarrow> dget cnf ''jkt'' \<noteq> None | _ \<Rightarrow> False)"

lemma key_bound_D:
  assumes "rs_authenticate now rq rs = (Inr claims, rs')" "key_bound claims"
  shows "\<exists>pf url token expected key. rq_proof rq = Some pf
    \<and> dpop_verify now pf (rq_method rq) url (Some token) expected (rs_dpop rs) = (Inr key, rs_dpop rs')"
proof -
  from assms(2) obtain cnf j where cnf: "pget claims ''cnf'' = PDict cnf" "dget cnf ''jkt'' = Some j"
    by (auto simp: key_bound_def split: pyval.splits)
  then have "truthy (pget claims ''cnf'')" by (cases cnf) auto
  with assms(1) cnf(1) obtain scheme token ks where
    "check_jkt now scheme token rq cnf (rs\<lparr>rs_jwks := ks\<rparr>) = (Inr (), rs')" by (auto elim!: rs_authenticate_D)
  from check_jkt_D [OF this cnf(2)] show ?thesis by fastforce
qed

lemma api_replay_refused:
  assumes "rs_authenticate now rq rs = (Inr claims, rs1)" "key_bound claims" "distinct (dkeys (dv_seen (rs_dpop rs)))"
    and "rs_runs now rs1 u rs2" "u \<le> later" "rs_authenticate later rq' rs2 = (Inr claims', rs3)" "key_bound claims'"
  shows "rq_proof rq' \<noteq> rq_proof rq"
proof
  assume same: "rq_proof rq' = rq_proof rq"
  from key_bound_D [OF assms(1,2)] obtain pf url token expected key where pf: "rq_proof rq = Some pf"
    "dpop_verify now pf (rq_method rq) url (Some token) expected (rs_dpop rs) = (Inr key, rs_dpop rs1)" by blast
  from key_bound_D [OF assms(6,7)] same pf(1) obtain url' token' expected' key' where
    again: "dpop_verify later pf (rq_method rq') url' (Some token') expected' (rs_dpop rs2) = (Inr key', rs_dpop rs3)" by auto
  from rs_runs_dpop [OF assms(4)] obtain v where "v \<le> u" "dpop_runs now (rs_dpop rs1) v (rs_dpop rs2)" by blast
  with dpop_replay_rejected [OF pf(2) assms(3), of v "rs_dpop rs2" later "rq_method rq'" url' "Some token'" expected']
    assms(5) again show False by simp
qed

lemma rs_authenticate_distinct:
  assumes "rs_authenticate now rq rs = (r, rs')" "distinct (dkeys (dv_seen (rs_dpop rs)))"
  shows "distinct (dkeys (dv_seen (rs_dpop rs')))"
  using rs_authenticate_dpop [OF assms(1)] assms(2) dpop_verify_distinct by metis

text \<open>A server that answers requests: the proofs of those it accepted with a token bound to a key.\<close>

fun rs_serve :: "int \<Rightarrow> resource_server \<Rightarrow> (nat \<times> api_request) list \<Rightarrow> string option list" where
  "rs_serve now rs [] = []"
| "rs_serve now rs ((delay, rq) # calls) =
     (case rs_authenticate (now + int delay) rq rs of
        (Inl _, rs') \<Rightarrow> rs_serve (now + int delay) rs' calls
      | (Inr claims, rs') \<Rightarrow>
          (if key_bound claims then [rq_proof rq] else []) @ rs_serve (now + int delay) rs' calls)"

lemma rs_serve_replay:
  assumes "rs_authenticate now rq rs = (Inr claims, rs1)" "key_bound claims" "distinct (dkeys (dv_seen (rs_dpop rs)))"
  shows "rs_runs now rs1 u rs2 \<Longrightarrow> rq_proof rq \<notin> set (rs_serve u rs2 calls)"
proof (induction u rs2 calls rule: rs_serve.induct)
  case (2 u rs2 delay rq' calls)
  let ?t = "u + int delay"
  obtain r rs3 where v: "rs_authenticate ?t rq' rs2 = (r, rs3)" by fastforce
  have run: "rs_runs now rs1 ?t rs3" by (rule rs_runs.call [OF 2(3) _ v]) simp
  show ?case
  proof (cases r)
    case (Inl e)
    with 2(1) [OF v [symmetric] Inl run] v show ?thesis by simp
  next
    case (Inr x)
    have "key_bound x \<Longrightarrow> rq_proof rq' \<noteq> rq_proof rq"
      using api_replay_refused [OF assms 2(3), of ?t rq'] v Inr by auto
    with 2(2) [OF v [symmetric] Inr run] v Inr show ?thesis by auto
  qed
qed simp

lemma rs_serve_distinct: "distinct (dkeys (dv_seen (rs_dpop rs))) \<Longrightarrow> distinct (rs_serve now rs calls)"
proof (induction now rs calls rule: rs_serve.induct)
  case (2 now rs delay rq calls)
  obtain r rs' where v: "rs_authenticate (now + int delay) rq rs = (r, rs')" by fastforce
  note d' = rs_authenticate_distinct [OF v 2(3)]
  show ?case
  proof (cases r)
    case (Inl e)
    with 2(1) [OF v [symmetric] Inl d'] v show ?thesis by simp
  next
    case (Inr claims)
    have "rq_proof rq \<notin> set (rs_serve (now + int delay) rs' calls)" if "key_bound claims"
      by (rule rs_serve_replay [OF v [unfolded Inr] that 2(3) rs_runs.stay])
    with 2(2) [OF v [symmetric] Inr d'] v Inr show ?thesis by simp
  qed
qed simp

text \<open>
  A stolen request cannot be replayed: over everything a resource server with an empty
  replay cache answers, however the time passes, no two accepted requests with tokens bound to
  keys carry the same proof, whatever their tokens, methods and URLs are.
\<close>

theorem api_proof_is_single_use:
  "distinct (rs_serve now
     (rs\<lparr>rs_dpop := \<lparr>dv_max_age = max_age, dv_require_nonce = need_nonce, dv_seen = [], dv_nonce = n\<rparr>\<rparr>) calls)"
  by (rule rs_serve_distinct) simp

section \<open>Asking the authorization server, with a cache\<close>

text \<open>
  The authorization server as it is at each moment, and a server that asks it: its calls come in
  the order of time, and it starts with an empty cache.
\<close>

definition ask_at :: "(int \<Rightarrow> auth_server) \<Rightarrow> int \<Rightarrow> string \<Rightarrow> (unit, pydict) op" where
  "ask_at world now token = ret (introspect (world now) token)"

inductive is_reachable :: "(int \<Rightarrow> auth_server) \<Rightarrow> int \<Rightarrow> introspecting_server \<Rightarrow> bool" for world where
  start: "is_cache srv = [] \<Longrightarrow> is_reachable world t srv"
| call: "is_reachable world t srv \<Longrightarrow> t \<le> now \<Longrightarrow> is_authenticate now (ask_at world now) header (srv, ()) = (r, srv', u)
    \<Longrightarrow> is_reachable world now srv'"

definition cache_sound :: "(int \<Rightarrow> auth_server) \<Rightarrow> int \<Rightarrow> introspecting_server \<Rightarrow> bool" where
  "cache_sound world t srv \<longleftrightarrow> (\<forall>token until result. dget (is_cache srv) token = Some (until, result) \<longrightarrow>
     (\<exists>t0. t0 \<le> t \<and> until = t0 + is_cache_ttl srv \<and> result = introspect (world t0) token))"

lemma is_lookup_D:
  assumes "is_lookup now (ask_at world now) token (srv, ()) = (r, srv', u)"
  shows "(srv' = srv \<or> srv' = srv\<lparr>is_cache := dset token (now + is_cache_ttl srv, introspect (world now) token) (is_cache srv)\<rparr>)
    \<and> (r = Inr (introspect (world now) token)
       \<or> (\<exists>until result. dget (is_cache srv) token = Some (until, result) \<and> now < until \<and> r = Inr result))"
  using assms by (auto simp: is_lookup_def ask_at_def split: option.splits if_splits prod.splits)

lemma is_authenticate_D:
  assumes "is_authenticate now (ask_at world now) header (srv, ()) = (r, srv', u)"
  shows "srv' = srv \<or> (\<exists>token. srv' = srv\<lparr>is_cache := dset token (now + is_cache_ttl srv, introspect (world now) token) (is_cache srv)\<rparr>)"
  using assms by (auto simp: is_authenticate_def split: sum.splits prod.splits if_splits dest!: is_lookup_D)

lemma cache_sound_later: "cache_sound world t srv \<Longrightarrow> t \<le> now \<Longrightarrow> cache_sound world now srv"
  unfolding cache_sound_def by (meson order_trans)

lemma reachable_cache_sound: "is_reachable world t srv \<Longrightarrow> cache_sound world t srv"
proof (induction rule: is_reachable.induct)
  case (call t srv now header r srv' u)
  from cache_sound_later [OF call.IH call.hyps(2)] is_authenticate_D [OF call.hyps(3)] show ?case
    by (auto simp: cache_sound_def split: if_splits)
qed (simp add: cache_sound_def)

text \<open>
  A resource server that asks about opaque tokens, and remembers the answers for a while,
  accepts only tokens that were live at the authorization server less than that while ago (now,
  without a cache): stored, not revoked, not expired, and for this audience or for none in
  particular.  So a revocation takes effect everywhere once the cache time has passed.
\<close>

theorem introspected_token_was_live:
  assumes "is_reachable world t srv" "t \<le> now" "is_authenticate now (ask_at world now) header (srv, ()) = (Inr result, srv', u)"
  shows "\<exists>scheme token t0 a. parse_authorization_header header = Inr (scheme, token)
    \<and> t0 \<le> now \<and> (t0 = now \<or> now < t0 + is_cache_ttl srv) \<and> result = introspect (world t0) token
    \<and> dget (st_access_tokens (as_store (world t0))) token = Some a \<and> \<not> at_revoked a \<and> as_now (world t0) \<le> at_expires_at a
    \<and> (at_audience a = [] \<or> is_audience srv \<in> set (at_audience a))"
proof -
  from assms(3) obtain scheme token srv1 where header: "parse_authorization_header header = Inr (scheme, token)"
    and look: "is_lookup now (ask_at world now) token (srv, ()) = (Inr result, srv1, u)"
    and active: "truthy (pget result ''active'')" and aud: "audience_allows (is_audience srv1) result = Inr ()"
    by (auto simp: is_authenticate_def split: sum.splits prod.splits if_splits)
  from cache_sound_later [OF reachable_cache_sound [OF assms(1)] assms(2)] is_lookup_D [OF look]
  obtain t0 where t0: "t0 \<le> now" "t0 = now \<or> now < t0 + is_cache_ttl srv" "result = introspect (world t0) token"
    unfolding cache_sound_def by blast
  have "\<exists>a. dget (st_access_tokens (as_store (world t0))) token = Some a \<and> \<not> at_revoked a \<and> as_now (world t0) \<le> at_expires_at a"
  proof (rule ccontr)
    assume "\<not> ?thesis"
    then have "result = [(''active'', PBool False)]" using introspect_dead [of "world t0" token] t0(3) by blast
    with active show False by (simp add: pget_def)
  qed
  then obtain a where a: "dget (st_access_tokens (as_store (world t0))) token = Some a" "\<not> at_revoked a"
    "as_now (world t0) \<le> at_expires_at a" by blast
  have "is_audience srv1 = is_audience srv" using is_lookup_D [OF look] by auto
  moreover have "pget result ''aud'' = PList (map PStr (at_audience a))"
    using a by (simp add: t0(3) introspect_def pget_def)
  ultimately have "at_audience a = [] \<or> is_audience srv \<in> set (at_audience a)"
    using aud by (auto simp: audience_allows_def Let_def split: if_splits)
  with header t0 a show ?thesis by blast
qed


section \<open>On a sample API\<close>

definition jwt_server :: auth_server where
  "jwt_server = issued_server\<lparr>as_jwt_access_tokens := True, as_signing_kid := ''k1''\<rparr>"

definition api_of :: "jwkset \<Rightarrow> resource_server" where
  "api_of ks = \<lparr>rs_audience = ''https://api'', rs_issuer = ''https://as'', rs_jwks = ks, rs_allowed = [''RS256''], rs_leeway = 30,
     rs_require_typ = Some ''at+jwt'', rs_dpop = \<lparr>dv_max_age = 60, dv_require_nonce = False, dv_seen = [], dv_nonce = None\<rparr>\<rparr>"

definition api_grant :: "string list \<Rightarrow> grant" where
  "api_grant audience = \<lparr>gr_subject = None, gr_scope = [''read''], gr_nonce = PNone, gr_amr = [], gr_auth_time = 0,
     gr_audience = audience, gr_jkt = None, gr_x5t = Some ''thumb'', gr_include_refresh = False, gr_family = None,
     gr_id_token = False, gr_details = []\<rparr>"

definition api_call :: "string \<Rightarrow> api_request" where
  "api_call token = \<lparr>rq_header = Some (''Bearer '' @ token), rq_method = ''GET'', rq_url = None, rq_proof = None,
     rq_tls = Some ''thumb''\<rparr>"

lemma sample_api_trusts: "\<exists>ks. trusts (api_of ks) jwt_server sample_key"
proof -
  from sample_public_jwk obtain doc where
    "from_rsa_public (rsa_public_of sample_key) (Some ''k1'') ''RS256'' ''sig'' = Inr doc" by blast
  from rsa_jwk_resolves [OF this _ issue_header_kid [of "''k1''" RS256 "''at+jwt''"]] obtain ks where
    "jwks_resolver (issue_header RS256 (Some ''k1'') ''at+jwt'') ks = (Inr (Some (KRsaPub (rsa_public_of sample_key))), ks)"
    by auto
  then have "trusts (api_of ks) jwt_server sample_key"
    using sample_key_ok sample_fits
    by (simp add: trusts_def api_of_def jwt_server_def issued_server_def sample_server_def lower_def lower_char_def)
  then show ?thesis ..
qed

lemma issue_total:
  assumes "rsa_pair RS256 sk vk"
  shows "\<exists>token g'. jwt_issue now sk RS256 issuer subject audience lifetime nbf extra kid ty jti0 g = (Inr token, g')"
proof -
  obtain jti g' where jti: "token_or jti0 16 g = (Inr jti, g')" using token_or_total by blast
  let ?claims = "issue_claims issuer subject audience now lifetime jti nbf extra"
  have "alg_name RS256 \<in> set [''RS256'']" "''none'' \<notin> set (map lower [''RS256''])"
    by (simp_all add: lower_def lower_char_def)
  from rs256.signed_token_verifies [OF assms build_issue_header issue_header_ok(1,2,3) _ this, of "Inr ?claims" kid ty]
  obtain token where "jws_sign (Inr ?claims) sk RS256 [] kid (Some ty) = Inr token" by auto
  then have "jwt_issue now sk RS256 issuer subject audience lifetime nbf extra kid ty jti0 g = (Inr token, g')"
    by (simp add: jwt_issue_def bindM_run(1) [where m = "token_or jti0 16" and s = g, OF jti])
  then show ?thesis by blast
qed

lemma jwt_access_issued:
  assumes "rsa_pair RS256 (as_signing_key s) vk" "as_jwt_access_tokens s" "gr_subject gr = None"
  shows "\<exists>resp s' token. issue_token_set c gr s = (Inr resp, s') \<and> pget resp ''access_token'' = PStr token"
proof -
  from issue_total [OF assms(1)] obtain token g' where "jwt_issue (as_now s) (as_signing_key s) RS256 (as_issuer s)
      (access_subject c gr) (PList (map PStr (if gr_audience gr \<noteq> [] then gr_audience gr else [as_issuer s])))
      (as_access_token_lifetime s) None (access_extra c gr) (Some (as_signing_kid s)) ''at+jwt'' None (as_rng s) = (Inr token, g')"
    by blast
  then have token: "on_rng (jwt_issue (as_now s) (as_signing_key s) RS256 (as_issuer s)
      (access_subject c gr) (PList (map PStr (if gr_audience gr \<noteq> [] then gr_audience gr else [as_issuer s])))
      (as_access_token_lifetime s) None (access_extra c gr) (Some (as_signing_kid s)) ''at+jwt'' None) s = (Inr token, s\<lparr>as_rng := g'\<rparr>)"
    by (simp add: on_rng_def zoom_def)
  obtain jti s2 where "on_rng (draw_token 16) (s\<lparr>as_rng := g'\<rparr>) = (Inr jti, s2)"
    by (simp add: on_rng_def zoom_def draw_token_def random_token_def random_bytes_def)
  with token assms(2) have "\<exists>s'. mint_access c gr s = (Inr token, s')"
    unfolding mint_access_def access_extra_def [symmetric] access_subject_def [symmetric] Let_def
    by (simp add: bindM_def on_store_def)
  with assms(3) show ?thesis by (auto simp: issue_token_set_def bindM_def Let_def pget_def)
qed

lemma sample_api_token:
  "\<exists>resp s' token. issue_token_set bank_client (api_grant audience) jwt_server = (Inr resp, s') \<and> pget resp ''access_token'' = PStr token"
  by (rule jwt_access_issued [where vk = "KRsaPub (rsa_public_of sample_key)"])
     (use sample_pair in \<open>simp_all add: jwt_server_def issued_server_def sample_server_def api_grant_def\<close>)

lemma api_grant_simps [simp]:
  "gr_jkt (api_grant audience) = None" "gr_x5t (api_grant audience) = Some ''thumb''" "gr_details (api_grant audience) = []"
  "gr_audience (api_grant audience) = audience" "gr_scope (api_grant audience) = [''read'']"
  by (simp_all add: api_grant_def)

lemma jwt_server_simps [simp]:
  "as_now jwt_server = 1010" "as_access_token_lifetime jwt_server = 300" "as_jwt_access_tokens jwt_server"
  by (simp_all add: jwt_server_def issued_server_def sample_server_def)

lemma api_simps [simp]:
  "rs_audience (api_of ks) = ''https://api''" "rs_leeway (api_of ks) = 30"
  "rq_header (api_call token) = Some (''Bearer '' @ token)" "rq_tls (api_call token) = Some ''thumb''"
  by (simp_all add: api_of_def api_call_def)

theorem issued_access_token_opens_the_api_witness:
  "\<exists>ks resp s' token claims. issue_token_set bank_client (api_grant [''https://api'']) jwt_server = (Inr resp, s')
    \<and> pget resp ''access_token'' = PStr token \<and> rs_authenticate 1300 (api_call token) (api_of ks) = (Inr claims, api_of ks)
    \<and> pget claims ''client_id'' = PStr ''bank''"
proof -
  obtain ks where ks: "trusts (api_of ks) jwt_server sample_key" using sample_api_trusts by blast
  obtain resp s' token where t: "issue_token_set bank_client (api_grant [''https://api'']) jwt_server = (Inr resp, s')"
    "pget resp ''access_token'' = PStr token" using sample_api_token by blast
  from issued_access_token_opens_the_api [OF ks _ t, where now = 1300 and rq = "api_call token"] t
  obtain claims where "rs_authenticate 1300 (api_call token) (api_of ks) = (Inr claims, api_of ks)"
    "pget claims ''client_id'' = PStr ''bank''" by (auto simp: truthy_str_def)
  with t show ?thesis by blast
qed

theorem bound_token_is_not_downgraded_witness:
  "\<exists>ks token claims. rs_authenticate 1300 (api_call token) (api_of ks) = (Inr claims, api_of ks)
    \<and> pget claims ''iss'' = PStr ''https://as''"
proof -
  obtain ks where ks: "trusts (api_of ks) jwt_server sample_key" using sample_api_trusts by blast
  obtain resp s' token where t: "issue_token_set bank_client (api_grant [''https://api'']) jwt_server = (Inr resp, s')"
    "pget resp ''access_token'' = PStr token" using sample_api_token by blast
  from issued_access_token_validates [OF ks _ t, where now = 1300] obtain claims where
    v: "jwt_validate (rs_validator (api_of ks)) jwks_resolver 1300 token None (rs_jwks (api_of ks)) = (Inr claims, rs_jwks (api_of ks))"
      "pget claims ''cnf'' = pget (access_extra bank_client (api_grant [''https://api''])) ''cnf''" by auto
  from issued_jwt_access [OF t(1) _ t(2)] have "list_all (\<lambda>c. \<not> is_space c) token \<and> token \<noteq> []"
    by (auto simp: jwt_issue_def bindM_Inr_iff dest: no_space_signed)
  then have "parse_authorization_header (rq_header (api_call token)) = Inr (''Bearer'', token)" using bearer_header [of token] by simp
  from rs_authenticate_bearer [OF this v] have run: "rs_authenticate 1300 (api_call token) (api_of ks) = (Inr claims, api_of ks)"
    by (simp add: truthy_str_def)
  from bound_token_is_not_downgraded [OF run] run show ?thesis by (auto simp: api_of_def)
qed

theorem api_refuses_other_tokens_witness:
  "\<exists>ks resp s' token e rs. issue_token_set bank_client (api_grant [''https://other'']) jwt_server = (Inr resp, s')
    \<and> pget resp ''access_token'' = PStr token \<and> rs_authenticate 1011 (api_call token) (api_of ks) = (Inl e, rs)"
proof -
  obtain ks where ks: "trusts (api_of ks) jwt_server sample_key" using sample_api_trusts by blast
  obtain resp s' token where t: "issue_token_set bank_client (api_grant [''https://other'']) jwt_server = (Inr resp, s')"
    "pget resp ''access_token'' = PStr token" using sample_api_token by blast
  from issued_jwt_access [OF t(1) _ t(2)] have "list_all (\<lambda>c. \<not> is_space c) token \<and> token \<noteq> []"
    by (auto simp: jwt_issue_def bindM_Inr_iff dest: no_space_signed)
  then have h: "parse_authorization_header (rq_header (api_call token)) = Inr (''Bearer'', token)" using bearer_header [of token] by simp
  have "\<exists>c gr resp s'. as_jwt_access_tokens jwt_server \<and> issue_token_set c gr jwt_server = (Inr resp, s')
      \<and> pget resp ''access_token'' = PStr token \<and> list_all json_clean (gr_details gr) \<and> gr_audience gr \<noteq> []
      \<and> (rs_audience (api_of ks) \<notin> set (gr_audience gr)
         \<or> as_now jwt_server + as_access_token_lifetime jwt_server + rs_leeway (api_of ks) < 1011)"
    using t by (intro exI [of _ bank_client] exI [of _ "api_grant [''https://other'']"] exI [of _ resp] exI [of _ s']) simp
  then obtain e rs where "rs_authenticate 1011 (api_call token) (api_of ks) = (Inl e, rs)"
    using api_refuses_other_tokens [OF ks h, of 1011] by blast
  with t show ?thesis by blast
qed

theorem introspected_token_was_live_witness:
  "\<exists>result srv. is_authenticate 1050 (ask_at (\<lambda>_. issued_server) 1050) (Some ''Bearer access!'')
      (\<lparr>is_audience = ''https://api'', is_cache_ttl = 5, is_cache = []\<rparr>, ()) = (Inr result, srv, ())
    \<and> at_client_id sample_access = ''app''
    \<and> dget (st_access_tokens (as_store issued_server)) ''access!'' = Some sample_access"
proof -
  let ?srv = "\<lparr>is_audience = ''https://api'', is_cache_ttl = 5, is_cache = []\<rparr>"
  have stored: "dget (st_access_tokens (as_store issued_server)) ''access!'' = Some sample_access"
    by (simp add: issued_server_def)
  have h: "parse_authorization_header (Some ''Bearer access!'') = Inr (''Bearer'', ''access!'')" by code_simp
  have "\<not> at_revoked sample_access" "as_now issued_server \<le> at_expires_at sample_access"
    by (simp_all add: sample_access_def issued_server_def sample_server_def)
  with stored have body: "pget (introspect issued_server ''access!'') ''active'' = PBool True"
    "pget (introspect issued_server ''access!'') ''aud'' = PList [PStr ''https://api'']"
    by (simp_all add: introspect_def pget_def) (simp add: sample_access_def)
  then obtain result srv where run: "is_authenticate 1050 (ask_at (\<lambda>_. issued_server) 1050) (Some ''Bearer access!'') (?srv, ())
      = (Inr result, srv, ())"
    by (simp add: is_authenticate_def h is_lookup_def ask_at_def audience_allows_def)
  have "is_reachable (\<lambda>_. issued_server) 1000 ?srv" by (rule is_reachable.start) simp
  from introspected_token_was_live [OF this _ run] have "\<exists>a. dget (st_access_tokens (as_store issued_server)) ''access!'' = Some a" 
    by (auto simp: h)
  with run stored show ?thesis by (auto simp: sample_access_def)
qed

end
