(* ===== verification/Relying.thy ===== *)
theory Relying
  imports Resource
begin

text \<open>
  \<open>authlab/oauth/client.py\<close>: the relying party, its pending authorizations, the request it
  builds, the callback it checks, and the ID tokens it validates.  The random source is part of
  the state of an operation; the time is an argument.
\<close>

section \<open>The client\<close>

record pending_authorization =
  pd_state :: string
  pd_nonce :: string
  pd_verifier :: string
  pd_redirect_uri :: string
  pd_scope :: "string list"
  pd_created_at :: int

record oauth_client =
  oc_client_id :: string
  oc_redirect_uri :: string
  oc_authorization_endpoint :: string
  oc_token_endpoint :: string
  oc_issuer :: string
  oc_secret :: "string option"
  oc_scope :: "string list"
  oc_jwks :: "jwkset option"
  oc_pending :: "(string, pending_authorization) dict"
  oc_state_ttl :: int
  oc_last_nonce :: "string option"

definition begin_params :: "oauth_client \<Rightarrow> string \<Rightarrow> string \<Rightarrow> string \<Rightarrow> (string \<times> pyval) list" where
  "begin_params c state nonce challenge =
     [(''response_type'', PStr ''code''), (''client_id'', PStr (oc_client_id c)), (''redirect_uri'', PStr (oc_redirect_uri c)),
      (''scope'', PStr (join '' '' (oc_scope c))), (''state'', PStr state), (''nonce'', PStr nonce),
      (''code_challenge'', PStr challenge), (''code_challenge_method'', PStr ''S256'')]"

definition begin_authorization ::
  "int \<Rightarrow> string \<Rightarrow> (string \<times> string) list option \<Rightarrow> (oauth_client \<times> rng, string) op" where
  "begin_authorization now session extra =
     bindM (zoom snd (\<lambda>g st. (fst st, g)) (generate_pair (PStr ''S256''))) (\<lambda>(verifier, challenge).
       bindM (zoom snd (\<lambda>g st. (fst st, g)) (draw_token 16)) (\<lambda>state.
         bindM (zoom snd (\<lambda>g st. (fst st, g)) (draw_token 16)) (\<lambda>nonce.
           bindM (gets fst) (\<lambda>c.
             let p = \<lparr>pd_state = state, pd_nonce = nonce, pd_verifier = verifier, pd_redirect_uri = oc_redirect_uri c,
                   pd_scope = oc_scope c, pd_created_at = now\<rparr>;
                 params = begin_params c state nonce challenge;
                 params = (case extra of Some e \<Rightarrow> dmerge params (map (\<lambda>(k, v). (k, PStr v)) e) | None \<Rightarrow> params) in
             bindM (modify (\<lambda>st. ((fst st)\<lparr>oc_pending := dset session p (oc_pending (fst st))\<rparr>, snd st))) (\<lambda>_.
               ret (oc_authorization_endpoint c @ ''?'' @ urlencode params))))))"

text \<open>\<open>dict(parse_qsl(urlsplit(url).query))\<close>.\<close>

definition query_dict :: "string \<Rightarrow> py_error + (string, string) dict" where
  "query_dict url =
     bind_res (urlsplit url) (\<lambda>parts. bind_res (parse_qsl (url_query parts)) (\<lambda>kvs.
       Inr (fold (\<lambda>(k, v) d. dset k v d) kvs [])))"

definition forget :: "string \<Rightarrow> (oauth_client, unit) op" where
  "forget session = modify (\<lambda>c. c\<lparr>oc_pending := ddel session (oc_pending c)\<rparr>)"

definition handle_callback :: "int \<Rightarrow> string \<Rightarrow> string \<Rightarrow> (oauth_client, (string, string) dict) op" where
  "handle_callback now session callback_url =
     bindM (gets id) (\<lambda>c.
       case dget (oc_pending c) session of
         None \<Rightarrow> fail InvalidRequest
       | Some p \<Rightarrow>
           if now - pd_created_at p > oc_state_ttl c then bindM (forget session) (\<lambda>_. fail InvalidRequest)
           else bindM (lift (py (query_dict callback_url))) (\<lambda>query.
             if dget query ''error'' \<noteq> None then bindM (forget session) (\<lambda>_. fail InvalidRequest)
             else bindM (require (case dget query ''state'' of
                 Some state \<Rightarrow> state \<noteq> [] \<and> constant_time_equals state (pd_state p) | None \<Rightarrow> False) InvalidRequest) (\<lambda>_.
               bindM (require (truthy_str (dget query ''code'')) InvalidRequest) (\<lambda>_.
                 bindM (forget session) (\<lambda>_.
                   bindM (modify (\<lambda>c. c\<lparr>oc_last_nonce := Some (pd_nonce p)\<rparr>)) (\<lambda>_.
                     ret ([(''grant_type'', ''authorization_code''), (''code'', the (dget query ''code'')),
                           (''redirect_uri'', pd_redirect_uri p), (''client_id'', oc_client_id c),
                           (''code_verifier'', pd_verifier p)]
                          @ (if truthy_str (oc_secret c) then [(''client_secret'', the (oc_secret c))] else []))))))))"

definition id_token_validator :: "oauth_client \<Rightarrow> jwt_validator" where
  "id_token_validator c =
     \<lparr>v_issuer = oc_issuer c, v_audience = oc_client_id c, v_allowed = [''RS256''], v_leeway = 60,
      v_require = [''iss'', ''sub'', ''aud'', ''exp'', ''iat''], v_max_age = None, v_expected_typ = Some ''JWT''\<rparr>"

text \<open>The key set may be refreshed by the lookup.\<close>

definition validate_id_token :: "int \<Rightarrow> string \<Rightarrow> string option \<Rightarrow> (oauth_client, pydict) op" where
  "validate_id_token now id_token nonce c =
     (case oc_jwks c of
        None \<Rightarrow> (Inl (OAuth InvalidRequest), c)
      | Some ks \<Rightarrow>
          (case jwt_validate (id_token_validator c) jwks_resolver now id_token (str_or nonce (oc_last_nonce c)) ks of
             (r, ks') \<Rightarrow> (r, c\<lparr>oc_jwks := Some ks'\<rparr>)))"

text \<open>\<open>base64.b64encode\<close>: the other alphabet, and padding.\<close>

definition b64_encode :: "byte list \<Rightarrow> string" where
  "b64_encode bs =
     map (\<lambda>c. if c = CHR ''-'' then CHR ''+'' else if c = CHR ''_'' then CHR ''/'' else c) (b64u_encode bs)
       @ replicate ((3 - length bs mod 3) mod 3) CHR ''=''"

definition authorization_header :: "oauth_client \<Rightarrow> (string, string) dict" where
  "authorization_header c =
     (if \<not> truthy_str (oc_secret c) then []
      else [(''Authorization'', ''Basic '' @ b64_encode (utf8_encode (oc_client_id c @ '':'' @ the (oc_secret c))))])"

section \<open>The callback is tied to the session\<close>

lemma handle_callback_D:
  assumes "handle_callback now session url c = (Inr params, c')"
  shows "\<exists>p query code. dget (oc_pending c) session = Some p \<and> now \<le> pd_created_at p + oc_state_ttl c
    \<and> query_dict url = Inr query \<and> dget query ''error'' = None \<and> dget query ''state'' = Some (pd_state p) \<and> pd_state p \<noteq> []
    \<and> dget query ''code'' = Some code \<and> code \<noteq> []
    \<and> params = [(''grant_type'', ''authorization_code''), (''code'', code), (''redirect_uri'', pd_redirect_uri p),
         (''client_id'', oc_client_id c), (''code_verifier'', pd_verifier p)]
       @ (if truthy_str (oc_secret c) then [(''client_secret'', the (oc_secret c))] else [])
    \<and> c' = c\<lparr>oc_pending := ddel session (oc_pending c), oc_last_nonce := Some (pd_nonce p)\<rparr>"
proof -
  from assms obtain p where p: "dget (oc_pending c) session = Some p" "\<not> now - pd_created_at p > oc_state_ttl c"
    by (auto simp: handle_callback_def bindM_Inr_iff fail_Inr split: option.splits if_splits)
  with assms obtain query where q: "query_dict url = Inr query" "dget query ''error'' = None"
    by (auto simp: handle_callback_def bindM_Inr_iff fail_Inr split: if_splits)
  from assms p q obtain state where s: "dget query ''state'' = Some state" "state \<noteq> []" "state = pd_state p"
    by (auto simp: handle_callback_def bindM_Inr_iff require_Inr split: option.splits)
  from assms p q s obtain code where "dget query ''code'' = Some code" "code \<noteq> []"
    by (auto simp: handle_callback_def bindM_Inr_iff require_Inr truthy_str_def split: option.splits)
  with assms p q s show ?thesis
    by (auto simp: handle_callback_def bindM_Inr_iff require_Inr forget_def)
qed

text \<open>
  C23: The callback is tied to the browser session that started the flow.  It is accepted only
  while that session's attempt is pending and in time, without an error, and with exactly the
  state that was drawn for it; the token request then carries the code that came back with the
  redirect URI and the verifier of that attempt.  The attempt is used up by it, and a callback with
  any other state is refused and leaves everything as it was.
\<close>

theorem callback_is_tied_to_the_session:
  assumes "handle_callback now session url c = (Inr params, c')"
  shows "\<exists>p query. dget (oc_pending c) session = Some p \<and> now \<le> pd_created_at p + oc_state_ttl c
    \<and> query_dict url = Inr query \<and> dget query ''error'' = None \<and> dget query ''state'' = Some (pd_state p)
    \<and> dget params ''code'' = dget query ''code'' \<and> dget params ''redirect_uri'' = Some (pd_redirect_uri p)
    \<and> dget params ''code_verifier'' = Some (pd_verifier p) \<and> oc_last_nonce c' = Some (pd_nonce p)
    \<and> (\<forall>t u. handle_callback t session u c' = (Inl (OAuth InvalidRequest), c'))
    \<and> (\<forall>other. other \<noteq> session \<longrightarrow> dget (oc_pending c') other = dget (oc_pending c) other)
    \<and> (\<forall>u q. query_dict u = Inr q \<longrightarrow> dget q ''error'' = None \<longrightarrow> dget q ''state'' \<noteq> Some (pd_state p) \<longrightarrow>
         handle_callback now session u c = (Inl (OAuth InvalidRequest), c))"
proof -
  from handle_callback_D [OF assms] obtain p query code where
    p: "dget (oc_pending c) session = Some p" "now \<le> pd_created_at p + oc_state_ttl c"
    and q: "query_dict url = Inr query" "dget query ''error'' = None" "dget query ''state'' = Some (pd_state p)" "pd_state p \<noteq> []"
      "dget query ''code'' = Some code"
    and params: "params = [(''grant_type'', ''authorization_code''), (''code'', code), (''redirect_uri'', pd_redirect_uri p),
         (''client_id'', oc_client_id c), (''code_verifier'', pd_verifier p)]
       @ (if truthy_str (oc_secret c) then [(''client_secret'', the (oc_secret c))] else [])"
    and c': "c' = c\<lparr>oc_pending := ddel session (oc_pending c), oc_last_nonce := Some (pd_nonce p)\<rparr>"
    by blast
  have "handle_callback t session u c' = (Inl (OAuth InvalidRequest), c')" for t u
    by (simp add: handle_callback_def bindM_def c' fail_def)
  moreover have "handle_callback now session u c = (Inl (OAuth InvalidRequest), c)"
    if "query_dict u = Inr q" "dget q ''error'' = None" "dget q ''state'' \<noteq> Some (pd_state p)" for u q
    using that p by (auto simp: handle_callback_def bindM_def require_def split: option.splits)
  moreover have "dget params ''code'' = Some code" "dget params ''redirect_uri'' = Some (pd_redirect_uri p)"
    "dget params ''code_verifier'' = Some (pd_verifier p)"
    by (simp_all add: params)
  ultimately show ?thesis using p q by (intro exI [of _ p] exI [of _ query]) (simp add: c')
qed

section \<open>Addresses with a query\<close>

text \<open>An address that may be extended by a query: no query or fragment of its own, nothing to strip.\<close>

definition plain_url :: "string \<Rightarrow> bool" where
  "plain_url u \<longleftrightarrow> u \<noteq> [] \<and> list_all (\<lambda>c. (of_char c :: nat) > 32 \<and> c \<noteq> CHR ''?'' \<and> c \<noteq> CHR ''#'') u
     \<and> (\<exists>parts. urlsplit u = Inr parts)"

lemma split_once_None: "split_once c s = None \<longleftrightarrow> c \<notin> set s"
  by (induction s) (auto split: option.splits)

lemma split_once_append_left: "split_once c s = Some (a, b) \<Longrightarrow> split_once c (s @ t) = Some (a, b @ t)"
  by (induction s arbitrary: a b) (auto split: option.splits if_splits)

lemma split_once_Some: "split_once c s = Some (a, b) \<Longrightarrow> s = a @ c # b \<and> c \<notin> set a"
  by (induction s arbitrary: a b) (auto split: option.splits if_splits)

lemma split_once_at: "c \<notin> set s \<Longrightarrow> split_once c (s @ c # t) = Some (s, t)"
  by (induction s) auto

lemma not_scheme_char: "\<not> scheme_char CHR ''?''"
  by (simp add: scheme_char_def is_alpha_def is_digit_def)

lemma split_scheme_query:
  assumes "split_scheme u = (scheme, rest)" "CHR ''?'' \<notin> set u"
  shows "split_scheme (u @ CHR ''?'' # q) = (scheme, rest @ CHR ''?'' # q) \<and> set rest \<subseteq> set u"
proof (cases "split_once CHR '':'' u")
  case (Some ab)
  obtain a b where ab: "ab = (a, b)" by fastforce
  note s = Some [unfolded ab]
  have b: "set b \<subseteq> set u" using split_once_Some [OF s] by auto
  have more: "split_once CHR '':'' (u @ CHR ''?'' # q) = Some (a, b @ CHR ''?'' # q)" by (rule split_once_append_left [OF s])
  show ?thesis
    using assms(1) b by (simp add: split_scheme_def s more split: if_splits) auto
next
  case None
  then have n: "CHR '':'' \<notin> set u" by (simp add: split_once_None)
  have "\<not> list_all scheme_char (fst ab)" if "split_once CHR '':'' (u @ CHR ''?'' # q) = Some ab" for ab
  proof -
    obtain a b where "ab = (a, b)" by fastforce
    with split_once_Some [of "CHR '':''" "u @ CHR ''?'' # q" a b] that n
    have "u @ CHR ''?'' # q = a @ CHR '':'' # b" by simp
    with n have "CHR ''?'' \<in> set a"
      by (induction u arbitrary: a) (auto simp: Cons_eq_append_conv)
    with \<open>ab = (a, b)\<close> not_scheme_char show ?thesis by (auto simp: list_all_iff)
  qed
  with assms(1) None show ?thesis by (auto simp: split_scheme_def split: option.splits)
qed

lemma split_netloc_query:
  assumes "split_netloc u = (netloc, rest)"
  shows "split_netloc (u @ CHR ''?'' # q) = (netloc, rest @ CHR ''?'' # q) \<and> set rest \<subseteq> set u"
proof (cases "prefix ''//'' u")
  case True
  then obtain v where v: "u = ''//'' @ v" by (auto elim: prefixE)
  have stop: "takeWhile P (v @ CHR ''?'' # q) = takeWhile P v" "dropWhile P (v @ CHR ''?'' # q) = dropWhile P v @ CHR ''?'' # q"
    if "\<not> P CHR ''?''" for P
    using that by (induction v) auto
  have "set (dropWhile P v) \<subseteq> set v" for P :: "char \<Rightarrow> bool" using set_dropWhileD by fastforce
  with assms stop [of "\<lambda>c. c \<notin> set ''/?#''"] v show ?thesis by (auto simp: split_netloc_def)
next
  case False
  have "\<not> prefix ''//'' (u @ CHR ''?'' # q)"
  proof
    assume "prefix ''//'' (u @ CHR ''?'' # q)"
    with False show False by (cases u; cases "tl u") (auto simp: prefix_def)
  qed
  with False assms show ?thesis by (auto simp: split_netloc_def)
qed

lemma urlsplit_query:
  assumes "plain_url u" "list_all (\<lambda>c. (of_char c :: nat) > 32 \<and> c \<noteq> CHR ''#'') q"
  shows "\<exists>parts. urlsplit (u @ ''?'' @ q) = Inr parts \<and> url_query parts = q"
    and "\<exists>parts. urlsplit u = Inr parts \<and> url_query parts = []"
proof -
  have keep: "dropWhile (\<lambda>c. (of_char c :: nat) \<le> 32) t = t" "filter (\<lambda>c. c \<notin> set [CHR 0x09, CHR 0x0a, CHR 0x0d]) t = t"
    if "list_all (\<lambda>c. (of_char c :: nat) > 32) t" for t
  proof -
    show "dropWhile (\<lambda>c. (of_char c :: nat) \<le> 32) t = t" using that by (cases t) auto
    have "c \<notin> set [CHR 0x09, CHR 0x0a, CHR 0x0d]" if "c \<in> set t" for c
      using that \<open>list_all _ t\<close> by (auto simp: list_all_iff)
    then show "filter (\<lambda>c. c \<notin> set [CHR 0x09, CHR 0x0a, CHR 0x0d]) t = t" by (simp add: filter_id_conv)
  qed
  have u: "list_all (\<lambda>c. (of_char c :: nat) > 32) u" "CHR ''?'' \<notin> set u" "CHR ''#'' \<notin> set u"
    using assms(1) by (auto simp: plain_url_def list_all_iff)
  have uq: "list_all (\<lambda>c. (of_char c :: nat) > 32) (u @ ''?'' @ q)" "CHR ''#'' \<notin> set q"
    using u(1) assms(2) by (auto simp: list_all_iff)
  obtain scheme rest1 where s: "split_scheme u = (scheme, rest1)" by fastforce
  obtain netloc rest2 where n: "split_netloc rest1 = (netloc, rest2)" by fastforce
  note sq = split_scheme_query [OF s u(2), of q]
  note nq = split_netloc_query [OF n, of q]
  have r2: "CHR ''?'' \<notin> set rest2" "CHR ''#'' \<notin> set rest2" using sq nq u by auto
  then have none: "split_once CHR ''?'' rest2 = None" "split_once CHR ''#'' rest2 = None" by (simp_all add: split_once_None)
  have net: "(CHR ''['' \<in> set netloc) = (CHR '']'' \<in> set netloc)" "CHR ''['' \<notin> set netloc" "is_ascii netloc"
    and plain: "\<exists>parts. urlsplit u = Inr parts \<and> url_query parts = []"
    using assms(1) keep [OF u(1)] s n none
    by (auto simp: plain_url_def urlsplit_def split_at_def split: if_splits)
  show "\<exists>parts. urlsplit u = Inr parts \<and> url_query parts = []" by (rule plain)
  have "split_once CHR ''#'' (rest2 @ CHR ''?'' # q) = None" using r2 uq(2) by (simp add: split_once_None)
  then have "split_at CHR ''#'' (rest2 @ CHR ''?'' # q) = (rest2 @ CHR ''?'' # q, [])" "split_at CHR ''?'' (rest2 @ CHR ''?'' # q) = (rest2, q)"
    using split_once_at [OF r2(1), of q] by (simp_all add: split_at_def)
  then show "\<exists>parts. urlsplit (u @ ''?'' @ q) = Inr parts \<and> url_query parts = q"
    using keep [OF uq(1)] sq nq net by (simp add: urlsplit_def)
qed


lemma quote_plus_char: "c \<in> set (quote_plus s) \<Longrightarrow> unreserved c \<or> c = CHR ''%'' \<or> c = CHR ''+''"
  using query_char_quote by (fastforce simp: quote_plus_def query_char_def split: if_splits)

lemma unreserved_visible: "unreserved c \<Longrightarrow> 32 < (of_char c :: nat) \<and> c \<noteq> CHR ''#''"
  by (auto simp: unreserved_def is_alpha_def is_digit_def Let_def)

lemma urlencode_visible: "list_all (\<lambda>c. (of_char c :: nat) > 32 \<and> c \<noteq> CHR ''#'') (urlencode kvs)"
proof -
  have q: "(of_char c :: nat) > 32 \<and> c \<noteq> CHR ''#''" if "c \<in> set (quote_plus s)" for c s
    using quote_plus_char [OF that] unreserved_visible by auto
  have j: "list_all P (join ''&'' xs)" if "P CHR ''&''" "\<forall>x \<in> set xs. list_all P x" for P :: "char \<Rightarrow> bool" and xs
    using that by (cases xs) (auto simp: join_def list_all_iff)
  show ?thesis unfolding urlencode_def by (rule j) (auto simp: list_all_iff dest: q)
qed

lemma fold_dset_distinct:
  "distinct (map fst (d @ kvs)) \<Longrightarrow> fold (\<lambda>(k, v) d. dset k v d) kvs d = d @ kvs"
proof (induction kvs arbitrary: d)
  case (Cons kv kvs)
  obtain k v where kv: "kv = (k, v)" by fastforce
  have "dset k v d = d @ [(k, v)]" if "k \<notin> set (map fst d)" for d
    using that by (induction d) auto
  with Cons kv show ?case by auto
qed simp

lemma query_dict_urlencode:
  assumes "plain_url u" "\<forall>kv \<in> set kvs. py_str (snd kv) \<noteq> []" "distinct (map fst kvs)"
  shows "query_dict (u @ ''?'' @ urlencode kvs) = Inr (map (\<lambda>(k, v). (k, py_str v)) kvs)"
proof -
  have "map fst (map (\<lambda>(k, v). (k, py_str v)) kvs) = map fst kvs" by auto
  then have "distinct (map fst ([] @ map (\<lambda>(k, v). (k, py_str v)) kvs))" using assms(3) by (simp only: append_Nil)
  from fold_dset_distinct [OF this]
  have "fold (\<lambda>(k, v) d. dset k v d) (map (\<lambda>(k, v). (k, py_str v)) kvs) [] = map (\<lambda>(k, v). (k, py_str v)) kvs" by simp
  with urlsplit_query(1) [OF assms(1) urlencode_visible, of kvs] parse_qsl_urlencode [OF assms(2)] show ?thesis
    by (auto simp: query_dict_def)
qed

lemma redirect_plain:
  assumes "plain_url (v_redirect_uri v)"
  shows "authorization_redirect v code = Inr (v_redirect_uri v @ ''?'' @ urlencode [(''code'', PStr code), (''state'', v_state v)])"
  using urlsplit_query(2) [OF assms, of "[]"] by (auto simp: authorization_redirect_def with_query_def)

section \<open>The request and the callback\<close>

text \<open>The request as the authorization endpoint reads it from the URL.\<close>

definition request_params :: "string \<Rightarrow> pydict" where
  "request_params url = (case query_dict url of Inr q \<Rightarrow> map (\<lambda>(k, v). (k, PStr v)) q | Inl _ \<Rightarrow> [])"

lemma generate_pair_D:
  assumes "generate_pair (PStr ''S256'') g = (Inr (v, c), g')"
  shows "verifier_shape v \<and> c = b64u_encode (sha256 (map of_char v)) \<and> c \<noteq> []"
proof -
  from assms obtain g1 where v: "create_verifier 32 g = (Inr v, g1)" and c: "create_challenge v (PStr ''S256'') = Inr c"
    by (auto simp: generate_pair_def bindM_Inr_iff)
  from generated_verifier_shape [OF v] have shape: "verifier_shape v" .
  then have "is_ascii v" by (auto simp: verifier_shape_def unreserved_ascii)
  with c have "c = b64u_encode (sha256 (map of_char v))" by (simp add: create_challenge_def ascii_encode_def)
  with shape length_b64u [of "sha256 (map of_char v)"] length_sha256 [of "map of_char v"] show ?thesis by auto
qed

lemma begin_authorization_D:
  assumes "begin_authorization now session None (c, g) = (Inr url, (c1, g1))"
  shows "\<exists>state nonce verifier. verifier_shape verifier \<and> state \<noteq> [] \<and> nonce \<noteq> []
    \<and> url = oc_authorization_endpoint c @ ''?'' @ urlencode (begin_params c state nonce (b64u_encode (sha256 (map of_char verifier))))
    \<and> c1 = c\<lparr>oc_pending := dset session \<lparr>pd_state = state, pd_nonce = nonce, pd_verifier = verifier,
        pd_redirect_uri = oc_redirect_uri c, pd_scope = oc_scope c, pd_created_at = now\<rparr> (oc_pending c)\<rparr>"
proof -
  from assms obtain verifier challenge ga state gb nonce where
    p: "generate_pair (PStr ''S256'') g = (Inr (verifier, challenge), ga)" "draw_token 16 ga = (Inr state, gb)"
      "draw_token 16 gb = (Inr nonce, g1)"
    and rest: "url = oc_authorization_endpoint c @ ''?'' @ urlencode (begin_params c state nonce challenge)"
      "c1 = c\<lparr>oc_pending := dset session \<lparr>pd_state = state, pd_nonce = nonce, pd_verifier = verifier,
        pd_redirect_uri = oc_redirect_uri c, pd_scope = oc_scope c, pd_created_at = now\<rparr> (oc_pending c)\<rparr>"
    by (auto simp: begin_authorization_def bindM_Inr_iff zoom_def Let_def split: prod.splits)
  from generate_pair_D [OF p(1)] draw_token_not_Nil [OF p(2)] draw_token_not_Nil [OF p(3)] rest show ?thesis by auto
qed

lemma pget_map_PStr: "pget (map (\<lambda>(k, v). (k, PStr v)) d) n = (case dget d n of Some v \<Rightarrow> PStr v | None \<Rightarrow> PNone)"
  by (induction d) (auto simp: pget_def)

lemma handle_callback_ok:
  assumes "dget (oc_pending c) session = Some p" "now \<le> pd_created_at p + oc_state_ttl c" "query_dict url = Inr query"
    "dget query ''error'' = None" "dget query ''state'' = Some (pd_state p)" "pd_state p \<noteq> []" "dget query ''code'' = Some code" "code \<noteq> []"
  shows "\<exists>params c'. handle_callback now session url c = (Inr params, c') \<and> dget params ''code'' = Some code
    \<and> dget params ''redirect_uri'' = Some (pd_redirect_uri p) \<and> dget params ''code_verifier'' = Some (pd_verifier p)
    \<and> dget params ''grant_type'' = Some ''authorization_code''"
  using assms by (simp add: handle_callback_def bindM_def require_def truthy_str_def forget_def)

lemma begin_authorization_read:
  assumes "begin_authorization now session None (c, g) = (Inr url, (c1, g1))"
    and "plain_url (oc_authorization_endpoint c)" "plain_url (oc_redirect_uri c)" "oc_client_id c \<noteq> []" "join '' '' (oc_scope c) \<noteq> []"
  shows "\<exists>state nonce verifier. verifier_shape verifier \<and> state \<noteq> [] \<and> nonce \<noteq> []
    \<and> request_params url = begin_params c state nonce (b64u_encode (sha256 (map of_char verifier)))
    \<and> b64u_encode (sha256 (map of_char verifier)) \<noteq> []
    \<and> c1 = c\<lparr>oc_pending := dset session \<lparr>pd_state = state, pd_nonce = nonce, pd_verifier = verifier,
        pd_redirect_uri = oc_redirect_uri c, pd_scope = oc_scope c, pd_created_at = now\<rparr> (oc_pending c)\<rparr>"
proof -
  from begin_authorization_D [OF assms(1)] obtain state nonce verifier where
    b: "verifier_shape verifier" "state \<noteq> []" "nonce \<noteq> []"
      "url = oc_authorization_endpoint c @ ''?'' @ urlencode (begin_params c state nonce (b64u_encode (sha256 (map of_char verifier))))"
    and c1: "c1 = c\<lparr>oc_pending := dset session \<lparr>pd_state = state, pd_nonce = nonce, pd_verifier = verifier,
        pd_redirect_uri = oc_redirect_uri c, pd_scope = oc_scope c, pd_created_at = now\<rparr> (oc_pending c)\<rparr>" by blast
  let ?ps = "begin_params c state nonce (b64u_encode (sha256 (map of_char verifier)))"
  have challenge: "b64u_encode (sha256 (map of_char verifier)) \<noteq> []"
    using length_b64u [of "sha256 (map of_char verifier)"] length_sha256 [of "map of_char verifier"] by auto
  have redirect: "oc_redirect_uri c \<noteq> []" using assms(3) by (simp add: plain_url_def)
  have "query_dict url = Inr (map (\<lambda>(k, v). (k, py_str v)) ?ps)"
    unfolding b(4) using assms(2,4,5) b(2,3) challenge redirect
    by (intro query_dict_urlencode) (auto simp: begin_params_def py_str_def)
  then have "request_params url = ?ps" by (simp add: request_params_def begin_params_def py_str_def)
  with b challenge c1 show ?thesis by blast
qed

section \<open>A sample client\<close>

definition sample_rp :: oauth_client where
  "sample_rp = \<lparr>oc_client_id = ''app'', oc_redirect_uri = ''https://app/cb'', oc_authorization_endpoint = ''https://as/authorize'',
     oc_token_endpoint = ''https://as/token'', oc_issuer = ''https://as'', oc_secret = None, oc_scope = [''read''], oc_jwks = None,
     oc_pending = [], oc_state_ttl = 600, oc_last_nonce = None\<rparr>"

lemma sample_rp_plain: "plain_url (oc_authorization_endpoint sample_rp)" "plain_url (oc_redirect_uri sample_rp)"
proof -
  have "urlsplit ''https://as/authorize''
      = Inr \<lparr>url_scheme = ''https'', url_netloc = ''as'', url_path = ''/authorize'', url_query = [], url_fragment = []\<rparr>"
    "urlsplit ''https://app/cb''
      = Inr \<lparr>url_scheme = ''https'', url_netloc = ''app'', url_path = ''/cb'', url_query = [], url_fragment = []\<rparr>"
    by code_simp+
  then show "plain_url (oc_authorization_endpoint sample_rp)" "plain_url (oc_redirect_uri sample_rp)"
    by (simp_all add: plain_url_def sample_rp_def)
qed

lemma sample_begin: "\<exists>url st. begin_authorization now session None (c, g) = (Inr url, st)"
proof -
  obtain v ch g1 where "generate_pair (PStr ''S256'') g = (Inr (v, ch), g1)"
  proof -
    obtain v g1 where v: "create_verifier 32 g = (Inr v, g1)" by (cases "random_bytes 32 g") (simp add: create_verifier_def)
    from generated_verifier_shape [OF v] have "is_ascii v" by (auto simp: verifier_shape_def unreserved_ascii)
    with v that show thesis by (simp add: generate_pair_def bindM_def create_challenge_def ascii_encode_def)
  qed
  moreover have "\<exists>t g2. draw_token 16 g = (Inr t, g2)" for g by (simp add: draw_token_def random_token_def random_bytes_def)
  then obtain t g2 t' g3 where "draw_token 16 g1 = (Inr t, g2)" "draw_token 16 g2 = (Inr t', g3)" by metis
  ultimately show ?thesis by (simp add: begin_authorization_def bindM_def zoom_def Let_def)
qed

theorem callback_is_tied_to_the_session_witness:
  "\<exists>params c'. handle_callback 1010 ''s'' ''https://app/cb?code=abc&state=xyz''
      (sample_rp\<lparr>oc_pending := [(''s'', \<lparr>pd_state = ''xyz'', pd_nonce = ''n'', pd_verifier = sample_verifier,
         pd_redirect_uri = ''https://app/cb'', pd_scope = [''read''], pd_created_at = 1000\<rparr>)]\<rparr>) = (Inr params, c')
    \<and> handle_callback 1011 ''s'' ''https://app/cb?code=abc&state=xyz'' c' = (Inl (OAuth InvalidRequest), c')"
proof -
  let ?c = "sample_rp\<lparr>oc_pending := [(''s'', \<lparr>pd_state = ''xyz'', pd_nonce = ''n'', pd_verifier = sample_verifier,
         pd_redirect_uri = ''https://app/cb'', pd_scope = [''read''], pd_created_at = 1000\<rparr>)]\<rparr>"
  have "query_dict ''https://app/cb?code=abc&state=xyz'' = Inr [(''code'', ''abc''), (''state'', ''xyz'')]" by code_simp
  moreover have "oc_state_ttl sample_rp = 600" by (simp add: sample_rp_def)
  ultimately have "\<exists>params c'. handle_callback 1010 ''s'' ''https://app/cb?code=abc&state=xyz'' ?c = (Inr params, c')"
    by (simp add: handle_callback_def bindM_def require_def truthy_str_def forget_def)
  then obtain params c' where run: "handle_callback 1010 ''s'' ''https://app/cb?code=abc&state=xyz'' ?c = (Inr params, c')" by blast
  have "\<forall>t u. handle_callback t ''s'' u c' = (Inl (OAuth InvalidRequest), c')"
    using callback_is_tied_to_the_session [OF run] by (elim exE conjE) assumption
  then have "handle_callback 1011 ''s'' ''https://app/cb?code=abc&state=xyz'' c' = (Inl (OAuth InvalidRequest), c')"
    by (elim allE)
  with run show ?thesis by (intro exI conjI)
qed

end
