(* ===== verification/Login.thy ===== *)
theory Login
  imports Relying
begin

text \<open>
  The login from end to end: the relying party of \<open>Relying\<close>, the authorization server of
  \<open>AuthServer\<close> through its token endpoint with the authentication of the client, the access token at
  introspection and at a resource server, and the ID token back at the relying party.
\<close>

section \<open>Tokens are issued\<close>

text \<open>With a well-formed signing key no step of issuing a token set fails.\<close>

lemma is_ascii_signed:
  assumes "jws_sign (Inr claims) key a hs kid typ = Inr token"
  shows "is_ascii token"
proof -
  from assms obtain header sig where "token = (json_b64u (PDict header) @ ''.'' @ json_b64u (PDict claims)) @ ''.'' @ b64u_encode sig"
    by (auto simp: jws_sign_def Let_def payload_segment_def elim!: bind_res_InrE)
  then show ?thesis by simp
qed

lemma on_rng_token: "\<exists>x g. on_rng (draw_token n) s = (Inr x, s\<lparr>as_rng := g\<rparr>) \<and> is_ascii x"
  by (simp add: on_rng_def zoom_def draw_token_def random_token_def random_bytes_def) blast

lemma on_rng_issue:
  assumes "rsa_pair RS256 sk vk"
  shows "\<exists>token g. on_rng (jwt_issue now sk RS256 issuer subject audience lifetime nbf extra kid ty jti0) s
    = (Inr token, s\<lparr>as_rng := g\<rparr>) \<and> is_ascii token"
proof -
  from issue_total [OF assms] obtain token g where
    run: "jwt_issue now sk RS256 issuer subject audience lifetime nbf extra kid ty jti0 (as_rng s) = (Inr token, g)" by blast
  then have "is_ascii token" by (auto simp: jwt_issue_def bindM_Inr_iff dest: is_ascii_signed)
  with run show ?thesis by (simp add: on_rng_def zoom_def) blast
qed

lemma mint_access_total:
  assumes "rsa_pair RS256 (as_signing_key s) vk"
  shows "\<exists>av s'. mint_access c gr s = (Inr av, s') \<and> is_ascii av"
proof -
  obtain av g where av: "(if as_jwt_access_tokens s then on_rng (jwt_issue (as_now s) (as_signing_key s) RS256 (as_issuer s)
        (access_subject c gr) (PList (map PStr (if gr_audience gr \<noteq> [] then gr_audience gr else [as_issuer s])))
        (as_access_token_lifetime s) None (access_extra c gr) (Some (as_signing_kid s)) ''at+jwt'' None)
      else on_rng (draw_token 32)) s = (Inr av, s\<lparr>as_rng := g\<rparr>)" "is_ascii av"
    using on_rng_issue [OF assms] on_rng_token [of 32 s] by (cases "as_jwt_access_tokens s") (simp_all, blast+)
  obtain jti g' where "on_rng (draw_token 16) (s\<lparr>as_rng := g\<rparr>) = (Inr jti, s\<lparr>as_rng := g\<rparr>\<lparr>as_rng := g'\<rparr>)"
    using on_rng_token by blast
  with av show ?thesis
    unfolding mint_access_def access_extra_def [symmetric] access_subject_def [symmetric] Let_def
    by (simp add: bindM_def on_store_def)
qed

lemma mint_refresh_total: "\<exists>rv s'. mint_refresh c gr subject s = (Inr rv, s')"
proof -
  obtain rv g where rv: "on_rng (draw_token 32) s = (Inr rv, s\<lparr>as_rng := g\<rparr>)" using on_rng_token by blast
  obtain f g' where "on_rng (token_or (gr_family gr) 16) (s\<lparr>as_rng := g\<rparr>) = (Inr f, s\<lparr>as_rng := g'\<rparr>)"
    using token_or_total [of "gr_family gr" 16 g] by (auto simp: on_rng_def zoom_def)
  with rv show ?thesis by (simp add: mint_refresh_def Let_def bindM_def on_store_def)
qed

lemma issue_id_token_total:
  assumes "rsa_pair RS256 (as_signing_key s) vk" "is_ascii av"
  shows "\<exists>t s'. issue_id_token c subject nonce amr auth_time (Some av) s = (Inr t, s')"
proof -
  have "\<exists>t s'. on_rng (jwt_issue (as_now s) (as_signing_key s) RS256 (as_issuer s) subject (PStr (cl_id c)) (as_id_token_lifetime s) None
      extra (Some (as_signing_kid s)) ''JWT'' None) s = (Inr t, s')" for extra
    using on_rng_issue [OF assms(1)] by blast
  then show ?thesis
    using assms(2) unfolding issue_id_token_def Let_def id_token_extra_def [symmetric]
    by (cases "av = []") (simp_all add: bindM_def ascii_encode_def)
qed

text \<open>What the response holds.\<close>

lemma token_set_issued:
  assumes "rsa_pair RS256 (as_signing_key s) vk"
  shows "\<exists>resp s'. issue_token_set c gr s = (Inr resp, s')"
proof -
  obtain av s1 where av: "mint_access c gr s = (Inr av, s1)" "is_ascii av" using mint_access_total [OF assms] by blast
  have key: "as_signing_key s1 = as_signing_key s" using mint_access_D [OF av(1)] by (simp add: same_setup_def)
  show ?thesis
  proof (cases "gr_subject gr")
    case None
    with av show ?thesis by (simp add: issue_token_set_def Let_def bindM_def)
  next
    case (Some subject)
    obtain rv s2 where rv: "mint_refresh c gr subject s1 = (Inr rv, s2)" using mint_refresh_total by blast
    have key2: "as_signing_key s2 = as_signing_key s1" using mint_refresh_D [OF rv Some] by (simp add: same_setup_def)
    have idt: "\<exists>t s'. issue_id_token c subject (gr_nonce gr) (gr_amr gr) (gr_auth_time gr) (Some av) sx = (Inr t, s')"
      if "as_signing_key sx = as_signing_key s" for sx
      using issue_id_token_total [of sx vk av] assms av(2) that by simp
    from idt [OF key] idt [of s2] key key2 obtain t t' r r' where
      "issue_id_token c subject (gr_nonce gr) (gr_amr gr) (gr_auth_time gr) (Some av) s1 = (Inr t, r)"
      "issue_id_token c subject (gr_nonce gr) (gr_amr gr) (gr_auth_time gr) (Some av) s2 = (Inr t', r')" by auto
    with av rv Some show ?thesis by (auto simp: issue_token_set_def Let_def bindM_def)
  qed
qed

lemma token_set_id_token:
  assumes "issue_token_set c gr s = (Inr resp, s')" "gr_subject gr = Some subject" "gr_id_token gr"
  shows "if ''openid'' \<in> set (gr_scope gr)
    then \<exists>t access s2. pget resp ''id_token'' = PStr t \<and> same_setup s s2
      \<and> issue_id_token c subject (gr_nonce gr) (gr_amr gr) (gr_auth_time gr) access s2 = (Inr t, s')
    else dget resp ''id_token'' = None"
proof -
  from assms(1,2) obtain av s1 refresh s2 idt where
    av: "mint_access c gr s = (Inr av, s1)" and
    refresh: "(if gr_include_refresh gr then bindM (mint_refresh c gr subject) (\<lambda>v. ret [(''refresh_token'', PStr v)]) else ret []) s1
      = (Inr refresh, s2)" and
    idt: "(if gr_id_token gr \<and> ''openid'' \<in> set (gr_scope gr)
          then bindM (issue_id_token c subject (gr_nonce gr) (gr_amr gr) (gr_auth_time gr) (Some av)) (\<lambda>t. ret [(''id_token'', PStr t)])
          else ret []) s2 = (Inr idt, s')" and
    resp: "resp = [(''access_token'', PStr av),
      (''token_type'', PStr (if truthy_str (gr_jkt gr) then ''DPoP'' else ''Bearer'')),
      (''expires_in'', PInt (as_access_token_lifetime s1)), (''scope'', PStr (join '' '' (gr_scope gr)))]
      @ (if gr_details gr \<noteq> [] then [(''authorization_details'', PList (gr_details gr))] else []) @ refresh @ idt"
    unfolding issue_token_set_def Let_def by (auto simp: bindM_Inr_iff)
  have none: "dget refresh ''id_token'' = None" and same: "same_setup s s2"
    using refresh mint_refresh_D [OF _ assms(2)] mint_access_D [OF av]
    by (auto simp: bindM_Inr_iff same_setup_def split: if_splits)
  have "dget resp ''id_token'' = dget idt ''id_token''"
    using none by (simp add: resp map_add_def split: option.split)
  with idt assms(3) same show ?thesis
    by (cases "''openid'' \<in> set (gr_scope gr)") (auto simp: bindM_Inr_iff pget_def, blast)
qed

section \<open>The client authenticates\<close>

text \<open>
  The credentials that the relying party is configured with are those of its registration.  It sends a
  secret or none; an assertion (\<open>private_key_jwt\<close>) is not among what it can send.
\<close>

definition credentials_match :: "oauth_client \<Rightarrow> client \<Rightarrow> string option \<Rightarrow> bool" where
  "credentials_match rp c tls \<longleftrightarrow>
     cl_id c = oc_client_id rp \<and>
     (if cl_auth_method c = ''none'' then \<not> truthy_str (oc_secret rp)
      else if cl_auth_method c = ''tls_client_auth'' then tls \<noteq> None
      else cl_auth_method c \<noteq> ''private_key_jwt'' \<and> truthy_str (oc_secret rp) \<and> cl_secret c = oc_secret rp)"

lemma authenticate_client_ok:
  assumes "credentials_match rp c tls" "dget (st_clients (as_store s)) (oc_client_id rp) = Some c" "oc_client_id rp \<noteq> []"
    and "dget params ''client_id'' = Some (PStr (oc_client_id rp))"
    and "dget params ''client_secret'' = (if truthy_str (oc_secret rp) then Some (PStr (the (oc_secret rp))) else None)"
  shows "authenticate_client params None tls s = (Inr c, s)"
  using assms
  by (auto simp: credentials_match_def authenticate_client_def Let_def pget_or_def bindM_def require_def dict_get_val_def
      check_secret_def truthy_str_def ct_equals_val_def split: if_splits option.splits)

lemma token_dpop_same: "token_dpop c pf u s = (Inr j, s') \<Longrightarrow> s' = s\<lparr>as_dpop := as_dpop s'\<rparr>"
  by (auto simp: token_dpop_def bindM_Inr_iff require_Inr on_dpop_def zoom_def split: option.splits prod.splits)

lemma token_endpoint_code:
  assumes "credentials_match rp c tls" "dget (st_clients (as_store s)) (oc_client_id rp) = Some c" "oc_client_id rp \<noteq> []"
    and "dget params ''client_id'' = Some (PStr (oc_client_id rp))"
    and "dget params ''client_secret'' = (if truthy_str (oc_secret rp) then Some (PStr (the (oc_secret rp))) else None)"
    and "dget params ''grant_type'' = Some (PStr ''authorization_code'')" "''authorization_code'' \<in> set (cl_grant_types c)"
    and "token_dpop c pf u s = (Inr j, s')"
  shows "token_endpoint params None pf u tls s
    = grant_authorization_code c params j (if cl_tls_bound c then tls else None) s'"
proof -
  note a = authenticate_client_ok [OF assms(1-5)]
  show ?thesis
    using assms(6-8) by (simp add: token_endpoint_def Let_def bindM_def a require_def pget_def)
qed

section \<open>The request of the client\<close>

text \<open>The request of the relying party as the server records it: no resource, no details, no key.\<close>

lemma begin_request_recorded:
  assumes "validate_authorization_request s (begin_params rp state nonce challenge) = Inr v"
    and "oc_redirect_uri rp \<noteq> []" "challenge \<noteq> []"
  shows "v_redirect_uri v = oc_redirect_uri rp \<and> v_challenge v = PStr challenge \<and> v_method v = PStr ''S256'' \<and> v_state v = PStr state
    \<and> v_dpop_jkt v = PNone \<and> v_nonce v = PStr nonce \<and> v_resource v = [] \<and> v_details v = []
    \<and> dget (st_clients (as_store s)) (oc_client_id rp) = Some (v_client v) \<and> v_scope v = split_ws (join '' '' (oc_scope rp))"
proof -
  have "v_resource v = [] \<and> v_details v = []"
    using assms(1) by (auto simp: validate_authorization_request_def bind_res_Inr_iff Let_def begin_params_def pget_def split: if_splits)
  moreover note d = validated_request_D [OF assms(1)]
  ultimately show ?thesis using assms(2,3) by (auto simp: begin_params_def pget_def pget_or_def)
qed

section \<open>What the tokens are good for\<close>

definition signs_with :: "auth_server \<Rightarrow> rsa_private \<Rightarrow> bool" where
  "signs_with s k \<longleftrightarrow> as_signing_key s = KRsaPriv k \<and> rsa_key_ok k \<and> em_fits (key_size_bytes (rsk_n k)) ''sha256''"

text \<open>The relying party knows the issuer and has the key set with its signing key.\<close>

definition relies_on :: "oauth_client \<Rightarrow> auth_server \<Rightarrow> rsa_private \<Rightarrow> bool" where
  "relies_on rp s k \<longleftrightarrow> oc_issuer rp = as_issuer s \<and>
     (\<exists>ks. oc_jwks rp = Some ks \<and>
        jwks_resolver (issue_header RS256 (Some (as_signing_kid s)) ''JWT'') ks = (Inr (Some (KRsaPub (rsa_public_of k))), ks))"

lemma signs_pair: "signs_with s k \<Longrightarrow> rsa_pair RS256 (as_signing_key s) (KRsaPub (rsa_public_of k))"
  by (simp add: signs_with_def rsa_pair_def algorithm_defs)

lemma id_token_validates:
  assumes "issue_id_token c subject (PStr nonce) amr auth_time access s = (Inr idt, s')" "nonce \<noteq> []" "signs_with s k"
    and "relies_on rp s k" "cl_id c = oc_client_id rp" "oc_last_nonce rp = Some nonce"
    and "as_now s \<le> now" "now \<le> as_now s + as_id_token_lifetime s + 60"
  shows "\<exists>claims. validate_id_token now idt None rp = (Inr claims, rp) \<and> pget claims ''sub'' = PStr subject
    \<and> pget claims ''nonce'' = PStr nonce"
proof -
  from assms(4) obtain ks where rp: "oc_issuer rp = as_issuer s" "oc_jwks rp = Some ks"
    and ks: "jwks_resolver (issue_header RS256 (Some (as_signing_kid s)) ''JWT'') ks = (Inr (Some (KRsaPub (rsa_public_of k))), ks)"
    by (auto simp: relies_on_def)
  from issued_id_token [OF assms(1)] assms(2) obtain extra g' where extra: "plain_extra extra" "pget extra ''nonce'' = PStr nonce"
    and run: "jwt_issue (as_now s) (as_signing_key s) RS256 (as_issuer s) subject (PStr (cl_id c))
      (as_id_token_lifetime s) None extra (Some (as_signing_kid s)) ''JWT'' None (as_rng s) = (Inr idt, g')" by auto
  have clean: "json_clean (PStr (cl_id c))" by simp
  from issued_token_read [OF signs_pair [OF assms(3)] extra(1) clean run, where 's = jwkset] obtain jti p where
    p: "jws_header p = issue_header RS256 (Some (as_signing_kid s)) ''JWT''"
      "jws_payload p = json_compact (PDict (issue_claims (as_issuer s) subject (PStr (cl_id c)) (as_now s) (as_id_token_lifetime s) jti None extra))"
    and read: "\<And>v now' nonce. alg_name RS256 \<in> set (v_allowed v) \<Longrightarrow> ''none'' \<notin> set (map lower (v_allowed v)) \<Longrightarrow>
      jwt_validate v jwks_resolver now' idt nonce ks = (validate_claims v now' nonce p, ks)"
    using ks by blast
  let ?claims = "issue_claims (as_issuer s) subject (PStr (cl_id c)) (as_now s) (as_id_token_lifetime s) jti None extra"
  note c = issue_claims_parts [OF extra(1), where issuer = "as_issuer s" and subject = subject and audience = "PStr (cl_id c)"
      and now = "as_now s" and lifetime = "as_id_token_lifetime s" and jti = jti and nbf = None]
  have "dget ?claims name \<noteq> None" if "name \<in> {''iss'', ''sub'', ''aud'', ''exp'', ''iat''}" for name
    using that c(1-5) by (auto simp: pget_def split: option.splits)
  moreover have "check_times (id_token_validator rp) now ?claims = Inr ()"
    using assms(7,8) by (simp add: check_times_def check_time_def c id_token_validator_def)
  moreover have "check_nonce (Some nonce) ?claims = Inr ()"
    using extra(2) c(8) [of "''nonce''"] by (auto simp: check_nonce_ok py_str_def)
  ultimately have "accepts_issued (id_token_validator rp) now (Some nonce) ?claims ''JWT''"
    using claims_aud_simps(2) [OF c(3)] assms(5) rp(1) c(1) by (auto simp: accepts_issued_def id_token_validator_def)
  from validate_claims_accepts [OF this issue_claims_clean [OF extra(1) clean] p(2,1)] read [of "id_token_validator rp" now "Some nonce"]
  have "jwt_validate (id_token_validator rp) jwks_resolver now idt (Some nonce) ks = (Inr ?claims, ks)"
    by (simp add: id_token_validator_def lower_def lower_char_def)
  then have "validate_id_token now idt None rp = (Inr ?claims, rp)"
    using rp(2) assms(6) by (simp add: validate_id_token_def str_or_def)
  with c(2) c(8) [of "''nonce''"] extra(2) show ?thesis by (intro exI [of _ ?claims]) simp
qed

text \<open>A signed access token as a bearer token at an API that trusts the server.\<close>

lemma access_token_opens_api:
  assumes "trusts rs s k" "as_jwt_access_tokens s" "issue_token_set c gr s = (Inr resp, s')"
    and "pget resp ''access_token'' = PStr av" "gr_details gr = []" "rs_audience rs \<in> set (gr_audience gr)"
    and "as_now s \<le> now" "now \<le> as_now s + as_access_token_lifetime s + rs_leeway rs"
    and "rq_header rq = Some (''Bearer '' @ av)" "\<not> truthy_str (gr_jkt gr)" "truthy_str (gr_x5t gr) \<longrightarrow> rq_tls rq = gr_x5t gr"
    and "gr_subject gr = Some subject" "subject \<noteq> []"
  shows "\<exists>claims. rs_authenticate now rq rs = (Inr claims, rs) \<and> pget claims ''sub'' = PStr subject
    \<and> pget claims ''client_id'' = PStr (cl_id c) \<and> claims_scopes claims = split_ws (join '' '' (gr_scope gr))"
proof -
  have "list_all json_clean (gr_details gr)" using assms(5) by simp
  from issued_access_token_validates [OF assms(1-4) this assms(6-8)] obtain claims where
    v: "jwt_validate (rs_validator rs) jwks_resolver now av None (rs_jwks rs) = (Inr claims, rs_jwks rs)"
    and c: "pget claims ''sub'' = PStr (access_subject c gr)" "pget claims ''client_id'' = PStr (cl_id c)"
      "claims_scopes claims = split_ws (join '' '' (gr_scope gr))" "pget claims ''cnf'' = pget (access_extra c gr) ''cnf''" by blast
  from issued_jwt_access [OF assms(3,2,4)] have "list_all (\<lambda>c. \<not> is_space c) av \<and> av \<noteq> []"
    by (auto simp: jwt_issue_def bindM_Inr_iff dest: no_space_signed)
  with assms(9) bearer_header [of av] have "parse_authorization_header (rq_header rq) = Inr (''Bearer'', av)" by simp
  from rs_authenticate_bearer [OF this v c(4)] c assms(10-13) show ?thesis
    by (intro exI [of _ claims]) (auto simp: access_subject_def)
qed

lemma response_id_token:
  assumes "issue_token_set cl gr s = (Inr resp, s')" "gr_subject gr = Some subject" "gr_id_token gr"
    and "gr_nonce gr = PStr nonce" "nonce \<noteq> []" "signs_with s k" "cl_id cl = oc_client_id rp" "oc_last_nonce rp = Some nonce"
  shows "if ''openid'' \<in> set (gr_scope gr)
    then \<exists>idt. pget resp ''id_token'' = PStr idt
      \<and> (\<forall>later. relies_on rp s k \<and> as_now s \<le> later \<and> later \<le> as_now s + as_id_token_lifetime s + 60 \<longrightarrow>
           (\<exists>claims. validate_id_token later idt None rp = (Inr claims, rp) \<and> pget claims ''sub'' = PStr subject))
    else dget resp ''id_token'' = None"
proof (cases "''openid'' \<in> set (gr_scope gr)")
  case True
  with token_set_id_token [OF assms(1-3)] obtain idt access s2 where idt: "pget resp ''id_token'' = PStr idt" "same_setup s s2"
    "issue_id_token cl subject (PStr nonce) (gr_amr gr) (gr_auth_time gr) access s2 = (Inr idt, s')" using assms(4) by auto
  have "signs_with s2 k" "relies_on rp s2 k = relies_on rp s k" "as_now s2 = as_now s" "as_id_token_lifetime s2 = as_id_token_lifetime s"
    using idt(2) assms(6) by (simp_all add: same_setup_def signs_with_def relies_on_def)
  with id_token_validates [OF idt(3) assms(5) _ _ assms(7,8)] idt(1) True show ?thesis by fastforce
next
  case False
  with token_set_id_token [OF assms(1-3)] show ?thesis by simp
qed

section \<open>The whole login\<close>

text \<open>The browser comes back, and the client makes its token request.\<close>

lemma login_callback:
  assumes "begin_authorization now session None (c, g) = (Inr url, (c1, g1))"
    and "plain_url (oc_authorization_endpoint c)" "plain_url (oc_redirect_uri c)" "oc_client_id c \<noteq> []" "join '' '' (oc_scope c) \<noteq> []"
    and "validate_authorization_request s (request_params url) = Inr v" "code \<noteq> []" "back_at \<le> now + oc_state_ttl c"
  obtains verifier nonce ret_url params c2 where
    "verifier_shape verifier" "nonce \<noteq> []" "v_challenge v = PStr (b64u_encode (sha256 (map of_char verifier)))"
    "v_redirect_uri v = oc_redirect_uri c" "v_method v = PStr ''S256''" "v_dpop_jkt v = PNone" "v_nonce v = PStr nonce"
    "v_resource v = []" "v_details v = []" "v_scope v = split_ws (join '' '' (oc_scope c))"
    "dget (st_clients (as_store s)) (oc_client_id c) = Some (v_client v)"
    "authorization_redirect v code = Inr ret_url" "handle_callback back_at session ret_url c1 = (Inr params, c2)"
    "params = [(''grant_type'', ''authorization_code''), (''code'', code), (''redirect_uri'', oc_redirect_uri c),
         (''client_id'', oc_client_id c), (''code_verifier'', verifier)]
       @ (if truthy_str (oc_secret c) then [(''client_secret'', the (oc_secret c))] else [])"
    "oc_last_nonce c2 = Some nonce" "oc_issuer c2 = oc_issuer c" "oc_jwks c2 = oc_jwks c" "oc_client_id c2 = oc_client_id c"
proof -
  from begin_authorization_read [OF assms(1-5)] obtain state nonce verifier where
    b: "verifier_shape verifier" "state \<noteq> []" "nonce \<noteq> []"
    and params: "request_params url = begin_params c state nonce (b64u_encode (sha256 (map of_char verifier)))"
    and challenge: "b64u_encode (sha256 (map of_char verifier)) \<noteq> []"
    and c1: "c1 = c\<lparr>oc_pending := dset session \<lparr>pd_state = state, pd_nonce = nonce, pd_verifier = verifier,
        pd_redirect_uri = oc_redirect_uri c, pd_scope = oc_scope c, pd_created_at = now\<rparr> (oc_pending c)\<rparr>" by blast
  have "oc_redirect_uri c \<noteq> []" using assms(3) by (simp add: plain_url_def)
  note v = begin_request_recorded [OF assms(6) [unfolded params] this challenge]
  let ?url = "oc_redirect_uri c @ ''?'' @ urlencode [(''code'', PStr code), (''state'', PStr state)]"
  have redir: "authorization_redirect v code = Inr ?url" using redirect_plain [of v code] assms(3) v by simp
  have query: "query_dict ?url = Inr [(''code'', code), (''state'', state)]"
    using query_dict_urlencode [OF assms(3), of "[(''code'', PStr code), (''state'', PStr state)]"] assms(7) b(2) by (simp add: py_str_def)
  have pending: "dget (oc_pending c1) session = Some \<lparr>pd_state = state, pd_nonce = nonce, pd_verifier = verifier,
        pd_redirect_uri = oc_redirect_uri c, pd_scope = oc_scope c, pd_created_at = now\<rparr>"
    by (simp add: c1)
  from handle_callback_ok [OF pending _ query, where now = back_at and code = code] assms(7,8) b(2)
  obtain req c2 where req: "handle_callback back_at session ?url c1 = (Inr req, c2)" by (auto simp: c1)
  from handle_callback_D [OF req] pending query have
    "req = [(''grant_type'', ''authorization_code''), (''code'', code), (''redirect_uri'', oc_redirect_uri c),
         (''client_id'', oc_client_id c), (''code_verifier'', verifier)]
       @ (if truthy_str (oc_secret c) then [(''client_secret'', the (oc_secret c))] else [])"
    "c2 = c1\<lparr>oc_pending := ddel session (oc_pending c1), oc_last_nonce := Some nonce\<rparr>"
    by (auto simp: c1)
  with b v redir req show thesis by (intro that [of verifier nonce ?url req c2]) (simp_all add: c1)
qed

text \<open>The token endpoint authenticates the client and issues the tokens that the code stands for.\<close>

lemma login_exchange:
  assumes "issue_authorization_code v subject amr auth_time s = (Inr code, s1)" "signs_with s k"
    and "as_now s \<le> t" "t \<le> as_now s + as_code_lifetime s"
    and "credentials_match c (v_client v) tls" "''authorization_code'' \<in> set (cl_grant_types (v_client v))" "oc_client_id c \<noteq> []"
    and "token_dpop (v_client v) pf u (s1\<lparr>as_now := t\<rparr>) = (Inr bound, sd)"
    and "dget (st_clients (as_store s)) (oc_client_id c) = Some (v_client v)" "verifier_shape verifier"
      "v_challenge v = PStr (b64u_encode (sha256 (map of_char verifier)))" "v_redirect_uri v = oc_redirect_uri c"
      "v_method v = PStr ''S256''" "v_dpop_jkt v = PNone" "v_resource v = []" "v_details v = []"
    and "params = [(''grant_type'', ''authorization_code''), (''code'', code), (''redirect_uri'', oc_redirect_uri c),
         (''client_id'', oc_client_id c), (''code_verifier'', verifier)]
       @ (if truthy_str (oc_secret c) then [(''client_secret'', the (oc_secret c))] else [])"
  obtains gr w resp s2 where
    "token_endpoint (map (\<lambda>(k, v). (k, PStr v)) params) None pf u tls (s1\<lparr>as_now := t\<rparr>) = (Inr resp, s2)"
    "issue_token_set (v_client v) gr w = (Inr resp, s2)" "signs_with w k" "as_now w = t" "as_issuer w = as_issuer s"
    "as_signing_key w = as_signing_key s" "as_signing_kid w = as_signing_kid s" "as_jwt_access_tokens w = as_jwt_access_tokens s"
    "as_access_token_lifetime w = as_access_token_lifetime s" "as_id_token_lifetime w = as_id_token_lifetime s"
    "gr_subject gr = Some subject" "gr_id_token gr" "gr_scope gr = v_scope v" "gr_details gr = []" "gr_jkt gr = bound"
    "gr_x5t gr = (if cl_tls_bound (v_client v) then tls else None)" "gr_audience gr = take 1 (as_known_resources s)"
    "gr_nonce gr = v_nonce v"
proof -
  note code = issued_code_D [OF assms(1)]
  let ?cl = "v_client v" and ?ps = "map (\<lambda>(k, v). (k, PStr v)) params" and ?x = "if cl_tls_bound (v_client v) then tls else None"
  let ?entry = "code_entry s v subject amr auth_time code"
  let ?gr = "code_grant sd ?entry bound ?x" and ?w = "sd\<lparr>as_store := spend_code code ?cl ?entry (as_store sd)\<rparr>"
  note sd = token_dpop_same [OF assms(8)]
  have now: "as_now sd = t" "as_store sd = as_store s1" by (subst sd, simp)+
  have conf: "as_issuer sd = as_issuer s" "as_signing_key sd = as_signing_key s" "as_signing_kid sd = as_signing_kid s"
      "as_jwt_access_tokens sd = as_jwt_access_tokens s" "as_known_resources sd = as_known_resources s"
      "as_access_token_lifetime sd = as_access_token_lifetime s" "as_id_token_lifetime sd = as_id_token_lifetime s"
    using code by (subst sd, simp add: same_setup_def)+
  have clients: "st_clients (as_store s1) = st_clients (as_store s)" using code by (simp add: same_setup_def)
  have req: "dget ?ps ''client_id'' = Some (PStr (oc_client_id c))" "dget ?ps ''grant_type'' = Some (PStr ''authorization_code'')"
      "dget ?ps ''client_secret'' = (if truthy_str (oc_secret c) then Some (PStr (the (oc_secret c))) else None)"
      "pget ?ps ''code'' = PStr code" "pget ?ps ''redirect_uri'' = PStr (oc_redirect_uri c)" "pget ?ps ''code_verifier'' = PStr verifier"
    by (simp_all add: assms(17) pget_def)
  have "token_endpoint ?ps None pf u tls (s1\<lparr>as_now := t\<rparr>) = grant_authorization_code ?cl ?ps bound ?x sd"
    by (rule token_endpoint_code [OF assms(5) _ assms(7) req(1,3,2) assms(6,8)]) (use assms(9) clients in simp)
  also have "\<dots> = issue_token_set ?cl ?gr ?w"
    by (rule code_exchange_runs [OF _ _ _ _ _ _ assms(10)]) (use code now req assms(3,4,11-14) in \<open>simp_all add: code_entry_def\<close>)
  finally have run: "token_endpoint ?ps None pf u tls (s1\<lparr>as_now := t\<rparr>) = issue_token_set ?cl ?gr ?w" .
  have signs: "signs_with ?w k" using assms(2) conf by (simp add: signs_with_def)
  from token_set_issued [OF signs_pair [OF signs]] obtain resp s2 where "issue_token_set ?cl ?gr ?w = (Inr resp, s2)" by blast
  from that [OF trans [OF run this] this signs] now conf assms(15,16) show thesis
    by (simp add: code_grant_def code_entry_def)
qed

text \<open>
  C1: A login works from end to end, with the tokens of the default configuration.  The client builds its
  request URL; if the authorization server accepts what it reads from it and issues a code for a user, the
  redirect leads back to a callback that the client accepts in the same session.  The token request it
  makes from it, with the credentials it is registered with (no secret, its secret, or a TLS certificate)
  and with a proof that the DPoP verifier accepts or, where the client needs none, without, gets tokens
  from the token endpoint.  The access token is live, for the user who logged in, that client and the scopes of
  the request; if the server signs access tokens, an API that trusts it accepts the token with these
  claims until it expires, as a bearer token if it is not bound to a key, over the same TLS certificate if
  it is bound to one.  If \<open>openid\<close> was asked for there is an ID token, and a client that relies on the
  server validates it with the nonce of its request and reads the user from it; otherwise there is none.
\<close>

theorem login_completes:
  assumes "begin_authorization now session None (c, g) = (Inr url, (c1, g1))"
    and "plain_url (oc_authorization_endpoint c)" "plain_url (oc_redirect_uri c)" "oc_client_id c \<noteq> []" "join '' '' (oc_scope c) \<noteq> []"
    and "validate_authorization_request s (request_params url) = Inr v"
    and "issue_authorization_code v subject amr auth_time s = (Inr code, s1)" "subject \<noteq> []" "signs_with s k"
    and "back_at \<le> now + oc_state_ttl c" "as_now s \<le> t" "t \<le> as_now s + as_code_lifetime s" "0 \<le> as_access_token_lifetime s"
    and "credentials_match c (v_client v) tls" "''authorization_code'' \<in> set (cl_grant_types (v_client v))"
    and "token_dpop (v_client v) pf u (s1\<lparr>as_now := t\<rparr>) = (Inr bound, sd)"
  shows "\<exists>ret_url params c2 resp s2 av. authorization_redirect v code = Inr ret_url
    \<and> handle_callback back_at session ret_url c1 = (Inr params, c2)
    \<and> token_endpoint (map (\<lambda>(k, v). (k, PStr v)) params) None pf u tls (s1\<lparr>as_now := t\<rparr>) = (Inr resp, s2)
    \<and> dget (st_clients (as_store s)) (oc_client_id c) = Some (v_client v) \<and> v_scope v = split_ws (join '' '' (oc_scope c))
    \<and> pget resp ''access_token'' = PStr av \<and> pget (introspect s2 av) ''active'' = PBool True
    \<and> pget (introspect s2 av) ''sub'' = PStr subject \<and> pget (introspect s2 av) ''client_id'' = PStr (oc_client_id c)
    \<and> pget (introspect s2 av) ''scope'' = PStr (join '' '' (v_scope v))
    \<and> (\<forall>rs rq later. as_jwt_access_tokens s \<and> trusts rs s k \<and> rs_audience rs \<in> set (take 1 (as_known_resources s))
         \<and> rq_header rq = Some (''Bearer '' @ av) \<and> \<not> truthy_str bound \<and> (cl_tls_bound (v_client v) \<longrightarrow> rq_tls rq = tls)
         \<and> t \<le> later \<and> later \<le> t + as_access_token_lifetime s + rs_leeway rs \<longrightarrow>
         (\<exists>claims. rs_authenticate later rq rs = (Inr claims, rs) \<and> pget claims ''sub'' = PStr subject
            \<and> pget claims ''client_id'' = PStr (oc_client_id c) \<and> claims_scopes claims = split_ws (join '' '' (v_scope v))))
    \<and> (if ''openid'' \<in> set (v_scope v)
       then \<exists>idt. pget resp ''id_token'' = PStr idt
         \<and> (\<forall>later. relies_on c s k \<and> t \<le> later \<and> later \<le> t + as_id_token_lifetime s + 60 \<longrightarrow>
              (\<exists>claims. validate_id_token later idt None c2 = (Inr claims, c2) \<and> pget claims ''sub'' = PStr subject))
       else dget resp ''id_token'' = None)"
proof -
  note code = issued_code_D [OF assms(7)]
  obtain verifier nonce ret_url params c2 where
    v: "verifier_shape verifier" "nonce \<noteq> []" "v_challenge v = PStr (b64u_encode (sha256 (map of_char verifier)))"
      "v_redirect_uri v = oc_redirect_uri c" "v_method v = PStr ''S256''" "v_dpop_jkt v = PNone" "v_nonce v = PStr nonce"
      "v_resource v = []" "v_details v = []" "v_scope v = split_ws (join '' '' (oc_scope c))"
      "dget (st_clients (as_store s)) (oc_client_id c) = Some (v_client v)"
    and cb: "authorization_redirect v code = Inr ret_url" "handle_callback back_at session ret_url c1 = (Inr params, c2)"
    and params: "params = [(''grant_type'', ''authorization_code''), (''code'', code), (''redirect_uri'', oc_redirect_uri c),
         (''client_id'', oc_client_id c), (''code_verifier'', verifier)]
       @ (if truthy_str (oc_secret c) then [(''client_secret'', the (oc_secret c))] else [])"
    and c2: "oc_last_nonce c2 = Some nonce" "oc_issuer c2 = oc_issuer c" "oc_jwks c2 = oc_jwks c" "oc_client_id c2 = oc_client_id c"
    using login_callback [OF assms(1-6) _ assms(10)] code by blast
  from login_exchange [OF assms(7,9,11,12,14,15,4,16) v(11,1,3-6,8,9) params] obtain gr w resp s2 where
    run: "token_endpoint (map (\<lambda>(k, v). (k, PStr v)) params) None pf u tls (s1\<lparr>as_now := t\<rparr>) = (Inr resp, s2)"
    and tokens: "issue_token_set (v_client v) gr w = (Inr resp, s2)" and signs: "signs_with w k"
    and w: "as_now w = t" "as_issuer w = as_issuer s" "as_signing_key w = as_signing_key s" "as_signing_kid w = as_signing_kid s"
      "as_jwt_access_tokens w = as_jwt_access_tokens s" "as_access_token_lifetime w = as_access_token_lifetime s"
      "as_id_token_lifetime w = as_id_token_lifetime s"
    and gr: "gr_subject gr = Some subject" "gr_id_token gr" "gr_scope gr = v_scope v" "gr_details gr = []" "gr_jkt gr = bound"
      "gr_x5t gr = (if cl_tls_bound (v_client v) then tls else None)" "gr_audience gr = take 1 (as_known_resources s)"
      "gr_nonce gr = PStr nonce" unfolding v(7) .
  have id: "cl_id (v_client v) = oc_client_id c" using assms(14) by (simp add: credentials_match_def)
  from minted_access issue_token_set_D [OF tokens] obtain av a where av: "pget resp ''access_token'' = PStr av"
    "access_for w (v_client v) gr av a" "dget (st_access_tokens (as_store s2)) av = Some a" "same_setup w s2" by blast
  have live: "\<not> at_revoked a" "as_now s2 \<le> at_expires_at a" "at_subject a = Some subject" "at_client_id a = oc_client_id c" "at_scope a = v_scope v"
    using av(2,4) w gr(1,3) id assms(13) by (auto simp: access_for_def same_setup_def)
  have "\<exists>claims. rs_authenticate later rq rs = (Inr claims, rs) \<and> pget claims ''sub'' = PStr subject
      \<and> pget claims ''client_id'' = PStr (oc_client_id c) \<and> claims_scopes claims = split_ws (join '' '' (v_scope v))"
    if "as_jwt_access_tokens s" "trusts rs s k" "rs_audience rs \<in> set (take 1 (as_known_resources s))" "rq_header rq = Some (''Bearer '' @ av)"
      "\<not> truthy_str bound" "cl_tls_bound (v_client v) \<longrightarrow> rq_tls rq = tls" "t \<le> later" "later \<le> t + as_access_token_lifetime s + rs_leeway rs" for rs rq later
    using access_token_opens_api [OF _ _ tokens av(1) gr(4), of rs k later rq subject] that gr assms(8) w id
    by (auto simp: trusts_def truthy_str_def)
  with cb run v(10,11) av(1) introspect_live [OF av(3) live(1,2)] live(3-5) assms(8)
    response_id_token [OF tokens gr(1,2,8) v(2) signs, of c2] id c2 gr(3) w
  show ?thesis
    by (intro exI [of _ ret_url] exI [of _ params] exI [of _ c2] exI [of _ resp] exI [of _ s2] exI [of _ av]) (auto simp: relies_on_def)
qed

section \<open>A sample login\<close>

text \<open>A confidential client that asks for \<open>openid\<close>, at the server of \<open>Resource\<close> that signs its access tokens.\<close>

definition login_rp :: "jwkset \<Rightarrow> oauth_client" where
  "login_rp ks = sample_rp\<lparr>oc_secret := Some ''s3cret'', oc_scope := [''openid'', ''read''], oc_jwks := Some ks\<rparr>"

lemma login_rp_simps [simp]:
  "oc_client_id (login_rp ks) = ''app''" "oc_secret (login_rp ks) = Some ''s3cret''" "oc_scope (login_rp ks) = [''openid'', ''read'']"
  "oc_issuer (login_rp ks) = ''https://as''" "oc_jwks (login_rp ks) = Some ks" "oc_state_ttl (login_rp ks) = 600"
  "oc_redirect_uri (login_rp ks) = ''https://app/cb''" "oc_authorization_endpoint (login_rp ks) = oc_authorization_endpoint sample_rp"
  by (simp_all add: login_rp_def sample_rp_def)

lemma login_rp_plain: "plain_url (oc_authorization_endpoint (login_rp ks))" "plain_url (oc_redirect_uri (login_rp ks))"
  using sample_rp_plain by (simp_all add: sample_rp_def)

lemma login_keys: "\<exists>ks. relies_on (login_rp ks) jwt_server sample_key" "signs_with jwt_server sample_key"
proof -
  from sample_public_jwk obtain doc where
    "from_rsa_public (rsa_public_of sample_key) (Some ''k1'') ''RS256'' ''sig'' = Inr doc" by blast
  from rsa_jwk_resolves [OF this _ issue_header_kid [of "''k1''" RS256 "''JWT''"]] obtain ks where
    "jwks_resolver (issue_header RS256 (Some ''k1'') ''JWT'') ks = (Inr (Some (KRsaPub (rsa_public_of sample_key))), ks)" by auto
  then have "relies_on (login_rp ks) jwt_server sample_key"
    by (simp add: relies_on_def jwt_server_def issued_server_def sample_server_def)
  then show "\<exists>ks. relies_on (login_rp ks) jwt_server sample_key" ..
  show "signs_with jwt_server sample_key"
    using sample_key_ok sample_fits by (simp add: signs_with_def jwt_server_def issued_server_def sample_server_def)
qed

lemma sample_login:
  "\<exists>url c1 g1 v. begin_authorization 1000 ''s'' None (login_rp ks, g) = (Inr url, (c1, g1))
    \<and> validate_authorization_request jwt_server (request_params url) = Inr v \<and> v_scope v = [''openid'', ''read''] \<and> v_client v = sample_client"
proof -
  obtain url c1 g1 where run: "begin_authorization 1000 ''s'' None (login_rp ks, g) = (Inr url, (c1, g1))"
    using sample_begin [of 1000 "''s''" "login_rp ks" g] by auto
  have "oc_client_id (login_rp ks) \<noteq> []" "join '' '' (oc_scope (login_rp ks)) \<noteq> []" by (simp_all add: join_def)
  from begin_authorization_read [OF run login_rp_plain this] obtain state nonce challenge where
    p: "request_params url = begin_params (login_rp ks) state nonce challenge" "state \<noteq> []" "challenge \<noteq> []" by blast
  have "split_ws ''openid read'' = [''openid'', ''read'']" by code_simp
  with p have "\<exists>v. validate_authorization_request jwt_server (request_params url) = Inr v \<and> v_scope v = [''openid'', ''read'']
      \<and> v_client v = sample_client"
    by (simp add: validate_authorization_request_def resolve_redirect_def check_request_scope_def begin_params_def
        jwt_server_def issued_server_def sample_server_def sample_client_def dict_get_val_def empty_store_def is_public_def
        pget_or_def pget_def join_def)
  with run show ?thesis by blast
qed

theorem login_completes_witness:
  "\<exists>ks api url c1 g1 v code s1 ret_url params c2 resp s2 av idt claims claims'.
     begin_authorization 1000 ''s'' None (login_rp ks, \<lparr>tape = \<lambda>i j. 7, drawn = 0\<rparr>) = (Inr url, (c1, g1))
     \<and> validate_authorization_request jwt_server (request_params url) = Inr v
     \<and> issue_authorization_code v ''alice'' None None jwt_server = (Inr code, s1)
     \<and> authorization_redirect v code = Inr ret_url
     \<and> handle_callback 1010 ''s'' ret_url c1 = (Inr params, c2)
     \<and> token_endpoint (map (\<lambda>(k, v). (k, PStr v)) params) None None None None (s1\<lparr>as_now := 1020\<rparr>) = (Inr resp, s2)
     \<and> pget resp ''access_token'' = PStr av \<and> pget (introspect s2 av) ''sub'' = PStr ''alice''
     \<and> rs_authenticate 1100 (api_call av) (api_of api) = (Inr claims, api_of api) \<and> pget claims ''sub'' = PStr ''alice''
     \<and> pget resp ''id_token'' = PStr idt
     \<and> validate_id_token 1100 idt None c2 = (Inr claims', c2) \<and> pget claims' ''sub'' = PStr ''alice''"
proof -
  obtain ks where ks: "relies_on (login_rp ks) jwt_server sample_key" using login_keys(1) by blast
  obtain api where api: "trusts (api_of api) jwt_server sample_key" using sample_api_trusts by blast
  obtain url c1 g1 v where run: "begin_authorization 1000 ''s'' None (login_rp ks, \<lparr>tape = \<lambda>i j. 7, drawn = 0\<rparr>) = (Inr url, (c1, g1))"
    and v: "validate_authorization_request jwt_server (request_params url) = Inr v" "v_scope v = [''openid'', ''read'']" "v_client v = sample_client"
    using sample_login by blast
  obtain code s1 where code: "issue_authorization_code v ''alice'' None None jwt_server = (Inr code, s1)"
    by (simp add: issue_authorization_code_def Let_def bindM_def on_rng_def zoom_def draw_token_def random_token_def
        random_bytes_def on_store_def log_event_def)
  have c: "oc_client_id (login_rp ks) \<noteq> []" "join '' '' (oc_scope (login_rp ks)) \<noteq> []" "1010 \<le> 1000 + oc_state_ttl (login_rp ks)"
      "credentials_match (login_rp ks) (v_client v) None" "''authorization_code'' \<in> set (cl_grant_types (v_client v))"
      "token_dpop (v_client v) None None (s1\<lparr>as_now := 1020\<rparr>) = (Inr None, s1\<lparr>as_now := 1020\<rparr>)" "\<not> cl_tls_bound (v_client v)"
    by (simp_all add: join_def credentials_match_def v(3) sample_client_def truthy_str_def token_dpop_def bindM_def require_def)
  have s: "as_now jwt_server \<le> 1020" "1020 \<le> as_now jwt_server + as_code_lifetime jwt_server"
    "0 \<le> as_access_token_lifetime jwt_server" "''alice'' \<noteq> []" "as_known_resources jwt_server = [''https://api'']"
    "as_id_token_lifetime jwt_server = 300"
    by (simp_all add: jwt_server_def issued_server_def sample_server_def)
  from login_completes [OF run login_rp_plain c(1,2) v(1) code s(4) login_keys(2) c(3) s(1-3) c(4-6)] obtain ret_url params c2 resp s2 av where
    l: "authorization_redirect v code = Inr ret_url" "handle_callback 1010 ''s'' ret_url c1 = (Inr params, c2)"
      "token_endpoint (map (\<lambda>(k, v). (k, PStr v)) params) None None None None (s1\<lparr>as_now := 1020\<rparr>) = (Inr resp, s2)"
      "pget resp ''access_token'' = PStr av" "pget (introspect s2 av) ''sub'' = PStr ''alice''"
    and a: "\<forall>rs rq later. as_jwt_access_tokens jwt_server \<and> trusts rs jwt_server sample_key \<and> rs_audience rs \<in> set (take 1 (as_known_resources jwt_server))
         \<and> rq_header rq = Some (''Bearer '' @ av) \<and> \<not> truthy_str None \<and> (cl_tls_bound (v_client v) \<longrightarrow> rq_tls rq = None)
         \<and> 1020 \<le> later \<and> later \<le> 1020 + as_access_token_lifetime jwt_server + rs_leeway rs \<longrightarrow>
         (\<exists>claims. rs_authenticate later rq rs = (Inr claims, rs) \<and> pget claims ''sub'' = PStr ''alice''
            \<and> pget claims ''client_id'' = PStr (oc_client_id (login_rp ks)) \<and> claims_scopes claims = split_ws (join '' '' (v_scope v)))"
    and i: "if ''openid'' \<in> set (v_scope v)
       then \<exists>idt. pget resp ''id_token'' = PStr idt
         \<and> (\<forall>later. relies_on (login_rp ks) jwt_server sample_key \<and> 1020 \<le> later \<and> later \<le> 1020 + as_id_token_lifetime jwt_server + 60 \<longrightarrow>
              (\<exists>claims. validate_id_token later idt None c2 = (Inr claims, c2) \<and> pget claims ''sub'' = PStr ''alice''))
       else dget resp ''id_token'' = None"
    by (elim exE conjE) blast
  have "\<exists>claims. rs_authenticate 1100 (api_call av) (api_of api) = (Inr claims, api_of api) \<and> pget claims ''sub'' = PStr ''alice''"
    using a [THEN spec, of "api_of api", THEN spec, of "api_call av", THEN spec, of 1100] api c(7) s(5) by (auto simp: truthy_str_def)
  then obtain claims where "rs_authenticate 1100 (api_call av) (api_of api) = (Inr claims, api_of api)" "pget claims ''sub'' = PStr ''alice''"
    by blast
  moreover obtain idt where idt: "pget resp ''id_token'' = PStr idt"
    "\<forall>later. relies_on (login_rp ks) jwt_server sample_key \<and> 1020 \<le> later \<and> later \<le> 1020 + as_id_token_lifetime jwt_server + 60 \<longrightarrow>
      (\<exists>claims. validate_id_token later idt None c2 = (Inr claims, c2) \<and> pget claims ''sub'' = PStr ''alice'')"
    using i v(2) by (simp only: list.set insert_iff simp_thms if_True) blast
  have "\<exists>claims'. validate_id_token 1100 idt None c2 = (Inr claims', c2) \<and> pget claims' ''sub'' = PStr ''alice''"
    using idt(2) [THEN spec, of 1100] ks s(6) by simp
  then obtain claims' where "validate_id_token 1100 idt None c2 = (Inr claims', c2)" "pget claims' ''sub'' = PStr ''alice''" by blast
  ultimately show ?thesis using run v(1) code l idt(1) by blast
qed

end
