(* ===== verification/Device.thy ===== *)
theory Device
  imports AuthFlow
begin

text \<open>
  The device grant of \<open>authlab/oauth/authorization_server.py\<close>, continued: \<open>secrets.choice\<close>
  draws until a number fits, so starting a device authorization ends only if the random source
  comes up with one.
\<close>

text \<open>A source that keeps coming up with numbers below \<open>n\<close>.\<close>

definition keeps_below :: "nat \<Rightarrow> rng \<Rightarrow> bool" where
  "keeps_below n g \<longleftrightarrow> (\<forall>d \<ge> drawn g. \<exists>j \<ge> d. fst (randbits (bit_length n) \<lparr>tape = tape g, drawn = j\<rparr>) < n)"

lemma randbits_drawn: "randbits k g = (fst (randbits k g), g\<lparr>drawn := drawn g + 1\<rparr>)"
  by (simp add: randbits_def random_bytes_def)

lemma randbelow_finds:
  "drawn g \<le> j \<Longrightarrow> fst (randbits (bit_length n) \<lparr>tape = tape g, drawn = j\<rparr>) < n \<Longrightarrow> \<exists>r g'. randbelow n g = Some (r, g')"
proof (induction "j - drawn g" arbitrary: g rule: less_induct)
  case less
  obtain r where r: "randbits (bit_length n) g = (r, g\<lparr>drawn := drawn g + 1\<rparr>)" using randbits_drawn by blast
  show ?case
  proof (cases "r < n")
    case True
    with r show ?thesis by (subst randbelow.simps) simp
  next
    case False
    have "drawn g \<noteq> j"
    proof
      assume "drawn g = j"
      then have "g = \<lparr>tape = tape g, drawn = j\<rparr>" by simp
      with less.prems(2) r False show False by simp
    qed
    with less.prems have "drawn (g\<lparr>drawn := drawn g + 1\<rparr>) \<le> j" "j - drawn (g\<lparr>drawn := drawn g + 1\<rparr>) < j - drawn g" by auto
    from less.hyps [OF this(2) this(1)] less.prems(2) r False show ?thesis by (subst randbelow.simps) simp
  qed
qed

lemma keeps_below_randbelow:
  assumes "keeps_below n g"
  shows "\<exists>r g'. randbelow n g = Some (r, g') \<and> r < n \<and> keeps_below n g'"
proof -
  from assms obtain j where "drawn g \<le> j" "fst (randbits (bit_length n) \<lparr>tape = tape g, drawn = j\<rparr>) < n"
    unfolding keeps_below_def by blast
  from randbelow_finds [OF this] obtain r g' where r: "randbelow n g = Some (r, g')" by blast
  from randbelow_rng [OF r] assms have "r < n" "keeps_below n g'" by (auto simp: keeps_below_def)
  with r show ?thesis by blast
qed

lemma choices_end:
  "keeps_below (length alphabet) g \<Longrightarrow>
   \<exists>cs g'. choices k alphabet g = (Inr cs, g') \<and> length cs = k \<and> set cs \<subseteq> set alphabet"
proof (induction k arbitrary: g)
  case (Suc k)
  from keeps_below_randbelow [OF Suc.prems] obtain r g' where
    r: "randbelow (length alphabet) g = Some (r, g')" "r < length alphabet" "keeps_below (length alphabet) g'" by blast
  from Suc.IH [OF r(3)] obtain cs g2 where "choices k alphabet g' = (Inr cs, g2)" "length cs = k" "set cs \<subseteq> set alphabet" by blast
  with r show ?case by (simp add: bindM_def secrets_choice_def)
qed simp

text \<open>
  C39: Starting a device authorization ends, for a registered client, as long as the random source
  keeps coming up with numbers below the size of the alphabet; the loop in \<open>secrets.choice\<close> is
  the only one.  The user code then has eight letters of the alphabet, and what is stored under
  the device code is a pending request of that client that no one has approved or denied.
\<close>

theorem device_authorization_returns:
  assumes "keeps_below 20 (as_rng s)" "pget params ''client_id'' = PStr cid" "cid \<noteq> []"
    and "dget (st_clients (as_store s)) cid = Some c" "words_of (pget params ''scope'') = Inr scope"
  shows "\<exists>resp s' letters code d. device_authorization params s = (Inr resp, s')
    \<and> pget resp ''user_code'' = PStr (take 4 letters @ ''-'' @ drop 4 letters) \<and> length letters = 8
    \<and> set letters \<subseteq> set USER_CODE_ALPHABET \<and> pget resp ''device_code'' = PStr code
    \<and> dget (st_device_codes (as_store s')) code = Some d \<and> dc_client_id d = cl_id c \<and> dc_scope d = scope
    \<and> \<not> dc_approved d \<and> \<not> dc_denied d \<and> dc_expires_at d = as_now s + as_device_code_lifetime s"
proof -
  have "length USER_CODE_ALPHABET = 20" by (simp add: USER_CODE_ALPHABET_def)
  with choices_end [of USER_CODE_ALPHABET "as_rng s" 8] assms(1) obtain letters g where
    l: "choices 8 USER_CODE_ALPHABET (as_rng s) = (Inr letters, g)" "length letters = 8" "set letters \<subseteq> set USER_CODE_ALPHABET"
    by auto
  obtain code g' where code: "draw_token 32 g = (Inr code, g')"
    by (simp add: draw_token_def random_token_def random_bytes_def)
  have "on_rng (choices 8 USER_CODE_ALPHABET) s = (Inr letters, s\<lparr>as_rng := g\<rparr>)"
    "on_rng (draw_token 32) (s\<lparr>as_rng := g\<rparr>) = (Inr code, s\<lparr>as_rng := g'\<rparr>)"
    using l(1) code by (simp_all add: on_rng_def zoom_def)
  with assms l(2,3) show ?thesis
    by (simp add: device_authorization_def bindM_def dict_get_val_def on_store_def Let_def pget_def del: choices.simps)
       (rule exI [of _ letters], simp)
qed

theorem device_authorization_returns_witness:
  "\<exists>resp s'. device_authorization [(''client_id'', PStr ''app''), (''scope'', PStr ''read'')]
     (sample_server\<lparr>as_rng := \<lparr>tape = \<lambda>i j. 7, drawn = 0\<rparr>\<rparr>) = (Inr resp, s')"
proof -
  let ?s = "sample_server\<lparr>as_rng := \<lparr>tape = \<lambda>i j. 7, drawn = 0\<rparr>\<rparr>"
  have "fst (randbits (bit_length 20) \<lparr>tape = \<lambda>i j. 7, drawn = d\<rparr>) < 20" for d
  proof -
    have "bit_length 20 = 5" by code_simp
    then show ?thesis by (simp add: randbits_def random_bytes_def be_nat_def)
  qed
  then have "keeps_below 20 (as_rng ?s)" by (auto simp: keeps_below_def)
  from device_authorization_returns [OF this, of "[(''client_id'', PStr ''app''), (''scope'', PStr ''read'')]" "''app''" sample_client]
  show ?thesis by (auto simp: sample_server_def pget_def)
qed

end
