(* ===== verification/Aes.thy ===== *)
theory Aes
  imports Hashing
begin

text \<open>
  \<open>crypto/aes.py\<close>: AES with its key schedule, PKCS#7 padding, CBC mode, and encryption followed by
  an HMAC.  A byte of the cipher state is an \<open>8 word\<close>; the state is the list of its 16 bytes, column
  by column, as in the code.  What is proved: decryption of a block undoes encryption under every key,
  and so do the layers above; data is decrypted only when its tag is right.
\<close>

unbundle bit_operations_syntax

section \<open>Tables and field arithmetic\<close>

definition SBOX :: "byte list" where
  "SBOX =
    [0x63, 0x7c, 0x77, 0x7b, 0xf2, 0x6b, 0x6f, 0xc5, 0x30, 0x01, 0x67, 0x2b, 0xfe, 0xd7, 0xab, 0x76,
     0xca, 0x82, 0xc9, 0x7d, 0xfa, 0x59, 0x47, 0xf0, 0xad, 0xd4, 0xa2, 0xaf, 0x9c, 0xa4, 0x72, 0xc0,
     0xb7, 0xfd, 0x93, 0x26, 0x36, 0x3f, 0xf7, 0xcc, 0x34, 0xa5, 0xe5, 0xf1, 0x71, 0xd8, 0x31, 0x15,
     0x04, 0xc7, 0x23, 0xc3, 0x18, 0x96, 0x05, 0x9a, 0x07, 0x12, 0x80, 0xe2, 0xeb, 0x27, 0xb2, 0x75,
     0x09, 0x83, 0x2c, 0x1a, 0x1b, 0x6e, 0x5a, 0xa0, 0x52, 0x3b, 0xd6, 0xb3, 0x29, 0xe3, 0x2f, 0x84,
     0x53, 0xd1, 0x00, 0xed, 0x20, 0xfc, 0xb1, 0x5b, 0x6a, 0xcb, 0xbe, 0x39, 0x4a, 0x4c, 0x58, 0xcf,
     0xd0, 0xef, 0xaa, 0xfb, 0x43, 0x4d, 0x33, 0x85, 0x45, 0xf9, 0x02, 0x7f, 0x50, 0x3c, 0x9f, 0xa8,
     0x51, 0xa3, 0x40, 0x8f, 0x92, 0x9d, 0x38, 0xf5, 0xbc, 0xb6, 0xda, 0x21, 0x10, 0xff, 0xf3, 0xd2,
     0xcd, 0x0c, 0x13, 0xec, 0x5f, 0x97, 0x44, 0x17, 0xc4, 0xa7, 0x7e, 0x3d, 0x64, 0x5d, 0x19, 0x73,
     0x60, 0x81, 0x4f, 0xdc, 0x22, 0x2a, 0x90, 0x88, 0x46, 0xee, 0xb8, 0x14, 0xde, 0x5e, 0x0b, 0xdb,
     0xe0, 0x32, 0x3a, 0x0a, 0x49, 0x06, 0x24, 0x5c, 0xc2, 0xd3, 0xac, 0x62, 0x91, 0x95, 0xe4, 0x79,
     0xe7, 0xc8, 0x37, 0x6d, 0x8d, 0xd5, 0x4e, 0xa9, 0x6c, 0x56, 0xf4, 0xea, 0x65, 0x7a, 0xae, 0x08,
     0xba, 0x78, 0x25, 0x2e, 0x1c, 0xa6, 0xb4, 0xc6, 0xe8, 0xdd, 0x74, 0x1f, 0x4b, 0xbd, 0x8b, 0x8a,
     0x70, 0x3e, 0xb5, 0x66, 0x48, 0x03, 0xf6, 0x0e, 0x61, 0x35, 0x57, 0xb9, 0x86, 0xc1, 0x1d, 0x9e,
     0xe1, 0xf8, 0x98, 0x11, 0x69, 0xd9, 0x8e, 0x94, 0x9b, 0x1e, 0x87, 0xe9, 0xce, 0x55, 0x28, 0xdf,
     0x8c, 0xa1, 0x89, 0x0d, 0xbf, 0xe6, 0x42, 0x68, 0x41, 0x99, 0x2d, 0x0f, 0xb0, 0x54, 0xbb, 0x16]"

text \<open>The inverse table is filled by a loop over the table.\<close>

definition INV_SBOX :: "byte list" where
  "INV_SBOX = fold (\<lambda>(i, v) tbl. tbl[unat v := of_nat i]) (zip [0..<256] SBOX) (replicate 256 0)"

definition RCON :: "byte list" where
  "RCON = [0x01, 0x02, 0x04, 0x08, 0x10, 0x20, 0x40, 0x80, 0x1B, 0x36, 0x6C, 0xD8, 0xAB, 0x4D]"

definition sbox :: "byte \<Rightarrow> byte" where
  "sbox b = SBOX ! unat b"

definition inv_sbox :: "byte \<Rightarrow> byte" where
  "inv_sbox b = INV_SBOX ! unat b"

definition xtime :: "byte \<Rightarrow> byte" where
  "xtime a = (if bit a 7 then push_bit 1 a XOR 0x1B else push_bit 1 a)"

fun gmul_loop :: "nat \<Rightarrow> byte \<Rightarrow> byte \<Rightarrow> byte" where
  "gmul_loop b a result =
     (if b = 0 then result else gmul_loop (b div 2) (xtime a) (if odd b then result XOR a else result))"

declare gmul_loop.simps [simp del]

definition gmul :: "byte \<Rightarrow> nat \<Rightarrow> byte" where
  "gmul a b = gmul_loop b a 0"

section \<open>The cipher\<close>

record aes =
  aes_nk :: nat
  aes_rounds :: nat
  aes_round_keys :: "byte list list"

text \<open>One step of the key schedule appends a word of four bytes.\<close>

definition expand_step :: "nat \<Rightarrow> nat \<Rightarrow> byte list list \<Rightarrow> byte list list" where
  "expand_step nk i words =
     (let temp = words ! (i - 1);
          temp' = (if i mod nk = 0
                   then (let t = map sbox (drop 1 temp @ take 1 temp) in (t ! 0 XOR RCON ! (i div nk - 1)) # drop 1 t)
                   else if nk > 6 \<and> i mod nk = 4 then map sbox temp
                   else temp)
      in words @ [map2 (XOR) (words ! (i - nk)) temp'])"

definition expand_key :: "byte list \<Rightarrow> nat \<Rightarrow> nat \<Rightarrow> byte list list" where
  "expand_key key nk rounds =
     fold (expand_step nk) [nk..<4 * (rounds + 1)] (map (\<lambda>i. take 4 (drop (4 * i) key)) [0..<nk])"

definition new_aes :: "byte list \<Rightarrow> py_error + aes" where
  "new_aes key =
     (if length key \<notin> {16, 24, 32} then Inl ValueError
      else (let nk = length key div 4; rounds = nk + 6
            in Inr \<lparr>aes_nk = nk, aes_rounds = rounds, aes_round_keys = expand_key key nk rounds\<rparr>))"

definition add_round_key :: "byte list \<Rightarrow> byte list list \<Rightarrow> byte list" where
  "add_round_key state words = map2 (XOR) state (concat words)"

definition round_words :: "aes \<Rightarrow> nat \<Rightarrow> byte list list" where
  "round_words k rnd = take 4 (drop (rnd * 4) (aes_round_keys k))"

text \<open>The assignments of the nested loops, row by row.\<close>

definition cells :: "(nat \<times> nat) list" where
  "cells = List.product [1, 2, 3] [0, 1, 2, 3]"

definition shift_rows :: "byte list \<Rightarrow> byte list" where
  "shift_rows s = fold (\<lambda>(row, col) out. out[col * 4 + row := s ! (((col + row) mod 4) * 4 + row)]) cells s"

definition inv_shift_rows :: "byte list \<Rightarrow> byte list" where
  "inv_shift_rows s = fold (\<lambda>(row, col) out. out[((col + row) mod 4) * 4 + row := s ! (col * 4 + row)]) cells s"

definition mix_column :: "byte list \<Rightarrow> byte list" where
  "mix_column a =
     [gmul (a ! 0) 2 XOR gmul (a ! 1) 3 XOR a ! 2 XOR a ! 3,
      a ! 0 XOR gmul (a ! 1) 2 XOR gmul (a ! 2) 3 XOR a ! 3,
      a ! 0 XOR a ! 1 XOR gmul (a ! 2) 2 XOR gmul (a ! 3) 3,
      gmul (a ! 0) 3 XOR a ! 1 XOR a ! 2 XOR gmul (a ! 3) 2]"

definition inv_mix_column :: "byte list \<Rightarrow> byte list" where
  "inv_mix_column a =
     [gmul (a ! 0) 14 XOR gmul (a ! 1) 11 XOR gmul (a ! 2) 13 XOR gmul (a ! 3) 9,
      gmul (a ! 0) 9 XOR gmul (a ! 1) 14 XOR gmul (a ! 2) 11 XOR gmul (a ! 3) 13,
      gmul (a ! 0) 13 XOR gmul (a ! 1) 9 XOR gmul (a ! 2) 14 XOR gmul (a ! 3) 11,
      gmul (a ! 0) 11 XOR gmul (a ! 1) 13 XOR gmul (a ! 2) 9 XOR gmul (a ! 3) 14]"

definition columns :: "byte list \<Rightarrow> byte list list" where
  "columns s = map (\<lambda>col. take 4 (drop (col * 4) s)) [0, 1, 2, 3]"

definition mix_columns :: "byte list \<Rightarrow> byte list" where
  "mix_columns s = concat (map mix_column (columns s))"

definition inv_mix_columns :: "byte list \<Rightarrow> byte list" where
  "inv_mix_columns s = concat (map inv_mix_column (columns s))"

definition encrypt_round :: "aes \<Rightarrow> nat \<Rightarrow> byte list \<Rightarrow> byte list" where
  "encrypt_round k rnd state =
     (let s = shift_rows (map sbox state)
      in add_round_key (if rnd \<noteq> aes_rounds k then mix_columns s else s) (round_words k rnd))"

definition encrypt_block :: "aes \<Rightarrow> byte list \<Rightarrow> py_error + byte list" where
  "encrypt_block k block =
     (if length block \<noteq> 16 then Inl ValueError
      else Inr (fold (encrypt_round k) [1..<aes_rounds k + 1] (add_round_key block (round_words k 0))))"

definition decrypt_round :: "aes \<Rightarrow> nat \<Rightarrow> byte list \<Rightarrow> byte list" where
  "decrypt_round k rnd state =
     (let s = add_round_key (map inv_sbox (inv_shift_rows state)) (round_words k rnd)
      in if rnd \<noteq> 0 then inv_mix_columns s else s)"

definition decrypt_block :: "aes \<Rightarrow> byte list \<Rightarrow> py_error + byte list" where
  "decrypt_block k block =
     (if length block \<noteq> 16 then Inl ValueError
      else Inr (fold (decrypt_round k) (rev [0..<aes_rounds k]) (add_round_key block (round_words k (aes_rounds k)))))"

section \<open>Padding and modes\<close>

definition pkcs7_pad :: "byte list \<Rightarrow> byte list" where
  "pkcs7_pad data = (let pad = 16 - length data mod 16 in data @ replicate pad (of_nat pad))"

definition pkcs7_unpad :: "byte list \<Rightarrow> py_error + byte list" where
  "pkcs7_unpad data =
     (if data = [] \<or> length data mod 16 \<noteq> 0 then Inl ValueError
      else (let pad = unat (last data) in
        if pad = 0 \<or> pad > 16 \<or> drop (length data - pad) data \<noteq> replicate pad (of_nat pad) then Inl ValueError
        else Inr (take (length data - pad) data)))"

fun cbc_encrypt_loop :: "aes \<Rightarrow> byte list \<Rightarrow> byte list list \<Rightarrow> py_error + byte list" where
  "cbc_encrypt_loop k previous [] = Inr []"
| "cbc_encrypt_loop k previous (b # bs) =
     bind_res (encrypt_block k (map2 (XOR) b previous)) (\<lambda>c.
       bind_res (cbc_encrypt_loop k c bs) (\<lambda>out. Inr (c @ out)))"

definition cbc_encrypt :: "byte list \<Rightarrow> byte list \<Rightarrow> byte list option \<Rightarrow> rng \<Rightarrow> (py_error + byte list) \<times> rng" where
  "cbc_encrypt key plaintext iv g =
     (case (case iv of None \<Rightarrow> random_bytes 16 g | Some v \<Rightarrow> (v, g)) of (iv', g') \<Rightarrow>
        (if length iv' \<noteq> 16 then Inl ValueError
         else bind_res (new_aes key) (\<lambda>k.
           bind_res (cbc_encrypt_loop k iv' (chunks 16 (pkcs7_pad plaintext))) (\<lambda>out. Inr (iv' @ out))), g'))"

fun cbc_decrypt_loop :: "aes \<Rightarrow> byte list \<Rightarrow> byte list list \<Rightarrow> py_error + byte list" where
  "cbc_decrypt_loop k previous [] = Inr []"
| "cbc_decrypt_loop k previous (b # bs) =
     bind_res (decrypt_block k b) (\<lambda>d.
       bind_res (cbc_decrypt_loop k b bs) (\<lambda>out. Inr (map2 (XOR) d previous @ out)))"

definition cbc_decrypt :: "byte list \<Rightarrow> byte list \<Rightarrow> py_error + byte list" where
  "cbc_decrypt key data =
     (if length data < 32 \<or> (length data - 16) mod 16 \<noteq> 0 then Inl ValueError
      else bind_res (new_aes key) (\<lambda>k.
        bind_res (cbc_decrypt_loop k (take 16 data) (chunks 16 (drop 16 data))) pkcs7_unpad))"

definition hmac_sha256 :: "byte list \<Rightarrow> byte list \<Rightarrow> byte list" where
  "hmac_sha256 key msg = hmac_alg \<lparr>digest = sha256, digest_size = 32, block_size = 64\<rparr> key msg"

definition encrypt_then_mac :: "byte list \<Rightarrow> byte list \<Rightarrow> byte list \<Rightarrow> rng \<Rightarrow> (py_error + byte list) \<times> rng" where
  "encrypt_then_mac enc_key mac_key plaintext g =
     (case cbc_encrypt enc_key plaintext None g of (r, g') \<Rightarrow>
        (bind_res r (\<lambda>ciphertext. Inr (ciphertext @ hmac_sha256 mac_key ciphertext)), g'))"

definition verify_then_decrypt :: "byte list \<Rightarrow> byte list \<Rightarrow> byte list \<Rightarrow> py_error + byte list" where
  "verify_then_decrypt enc_key mac_key data =
     (if length data < 32 + 16 + 16 then Inl ValueError
      else (let ciphertext = take (length data - 32) data; tag = drop (length data - 32) data in
        if hmac_sha256 mac_key ciphertext \<noteq> tag then Inl ValueError
        else cbc_decrypt enc_key ciphertext))"


section \<open>A block comes back\<close>

lemma distinct_table: "distinct (map unat SBOX)" "length SBOX = 256"
  by (simp_all add: SBOX_def)

lemma fold_table:
  assumes "distinct (map unat xs)" "length xs + n \<le> 256" "length tbl = 256" "i < length xs"
  shows "fold (\<lambda>(i, v) tbl. tbl[unat (v :: byte) := of_nat i]) (zip [n..<n + length xs] xs) tbl ! unat (xs ! i) = (of_nat (n + i) :: byte)"
  using assms
proof (induction xs arbitrary: n tbl i)
  case (Cons x xs)
  have keep: "fold (\<lambda>(i, v) tbl. tbl[unat (v :: byte) := of_nat i]) (zip ks ys) tbl ! j = (tbl ! j :: byte)"
    if "j \<notin> set (map unat ys)" for ks :: "nat list" and ys tbl j
    using that by (induction ks ys arbitrary: tbl rule: list_induct2') auto
  have z: "[n..<Suc (n + length xs)] = n # [Suc n..<Suc (n + length xs)]" by (simp add: upt_conv_Cons del: upt_Suc)
  show ?case
  proof (cases i)
    case 0
    have "unat x < 256" by simp
    moreover have "unat x \<notin> set (map unat xs)" using Cons.prems(1) by simp
    ultimately show ?thesis using Cons.prems(3) keep [of "unat x" xs "[Suc n..<Suc (n + length xs)]"] by (simp add: 0 z del: upt_Suc)
  next
    case (Suc j)
    with Cons.IH [of "Suc n" "tbl[unat x := of_nat n]" j] Cons.prems show ?thesis by (simp add: z del: upt_Suc)
  qed
qed simp

lemma inv_sbox_sbox [simp]: "inv_sbox (sbox b) = b"
proof -
  have "unat b < 256" by simp
  with fold_table [OF distinct_table(1), of 0 "replicate 256 0" "unat b"] distinct_table(2)
  show ?thesis by (simp add: inv_sbox_def sbox_def INV_SBOX_def)
qed

lemma length_add_round_key: "length (add_round_key s w) = min (length s) (length (concat w))"
  by (simp add: add_round_key_def)

lemma map2_xor_twice: "length xs \<le> length ys \<Longrightarrow> map2 (XOR) (map2 (XOR) xs ys) ys = (xs :: byte list)"
  by (induction xs ys rule: list_induct2') (auto simp: xor.assoc)

lemma add_round_key_twice: "length s \<le> length (concat w) \<Longrightarrow> add_round_key (add_round_key s w) w = s"
  unfolding add_round_key_def by (rule map2_xor_twice)

lemma sixteen:
  assumes "length s = 16"
  obtains a0 a1 a2 a3 a4 a5 a6 a7 a8 a9 aa ab ac ad ae af where
    "s = [a0, a1, a2, a3, a4, a5, a6, a7, a8, a9, aa, ab, ac, ad, ae, af]"
proof -
  have "s = map ((!) s) [0..<16]" using map_nth [of s] assms by simp
  also have "[0..<16] = [0, 1, 2, 3, 4, 5, 6, 7, 8, 9, 10, 11, 12, 13, 14, 15]" by (simp add: upt_rec)
  finally show thesis by (simp add: that)
qed

lemma length_shift_rows [simp]: "length (shift_rows s) = length s"
  by (simp add: shift_rows_def cells_def)

lemma inv_shift_rows_shift_rows: "length s = 16 \<Longrightarrow> inv_shift_rows (shift_rows s) = s"
  by (erule sixteen) (simp add: shift_rows_def inv_shift_rows_def cells_def)

text \<open>Doubling is additive; multiplication by a constant is a sum of repeated doublings.\<close>

lemma xtime_xor: "xtime (a XOR b) = xtime a XOR xtime b"
  by (simp add: xtime_def bit_xor_iff push_bit_xor ac_simps)

lemma gmul_consts:
  "gmul a 2 = xtime a"
  "gmul a 3 = a XOR xtime a"
  "gmul a 9 = a XOR xtime (xtime (xtime a))"
  "gmul a 11 = a XOR xtime a XOR xtime (xtime (xtime a))"
  "gmul a 13 = a XOR xtime (xtime a) XOR xtime (xtime (xtime a))"
  "gmul a 14 = xtime a XOR xtime (xtime a) XOR xtime (xtime (xtime a))"
  by (simp_all add: gmul_def gmul_loop.simps xor.assoc)

lemma xor_cancel: "a XOR (a XOR b) = (b :: byte)"
  by (simp flip: xor.assoc)

lemma inv_mix_column_mix_column: "inv_mix_column (mix_column [a, b, c, d]) = [a, b, c, d]"
  by (simp add: inv_mix_column_def mix_column_def gmul_consts xtime_xor xor_cancel ac_simps)

lemma length_mix_columns [simp]: "length (mix_columns s) = 16"
  by (simp add: mix_columns_def columns_def mix_column_def)

lemma length_mix_column [simp]: "length (mix_column a) = 4"
  by (simp add: mix_column_def)

lemma inv_mix_columns_mix_columns:
  assumes "length s = 16"
  shows "inv_mix_columns (mix_columns s) = s"
proof -
  have "columns (concat [a, b, c, d]) = [a, b, c, d]" if "length a = 4" "length b = 4" "length c = 4" "length d = 4" for a b c d
    using that by (simp add: columns_def)
  from this [of "mix_column _" "mix_column _" "mix_column _" "mix_column _"]
  have *: "columns (mix_column a @ mix_column b @ mix_column c @ mix_column d) = map mix_column [a, b, c, d]" for a b c d
    by simp
  have cs: "columns [a0, a1, a2, a3, a4, a5, a6, a7, a8, a9, aa, ab, ac, ad, ae, af] =
      [[a0, a1, a2, a3], [a4, a5, a6, a7], [a8, a9, aa, ab], [ac, ad, ae, af]]" for a0 a1 a2 a3 a4 a5 a6 a7 a8 a9 aa ab ac ad ae af :: byte
    by (simp add: columns_def)
  from assms show ?thesis
    by (elim sixteen) (simp add: inv_mix_columns_def mix_columns_def cs * inv_mix_column_mix_column)
qed

subsection \<open>Round keys\<close>

text \<open>A key is expanded into four words of four bytes for each round and one more.\<close>

definition aes_ok :: "aes \<Rightarrow> bool" where
  "aes_ok k \<longleftrightarrow> aes_rounds k > 0 \<and> length (aes_round_keys k) = 4 * (aes_rounds k + 1)
     \<and> (\<forall>w \<in> set (aes_round_keys k). length w = 4)"

lemma expand_step_word:
  assumes "length (ws ! (i - 1)) = 4" "length (ws ! (i - nk)) = 4"
  obtains w where "expand_step nk i ws = ws @ [w]" "length w = 4"
  using assms by (simp add: expand_step_def Let_def split: if_splits)

lemma expand_words:
  assumes "0 < nk" "length ws = n" "nk \<le> n" "\<forall>w \<in> set ws. length w = 4"
  shows "length (fold (expand_step nk) [n..<n + m] ws) = n + m \<and> (\<forall>w \<in> set (fold (expand_step nk) [n..<n + m] ws). length w = 4)"
proof (induction m)
  case (Suc m)
  define us where "us = fold (expand_step nk) [n..<n + m] ws"
  have us: "length us = n + m" "\<forall>w \<in> set us. length w = 4" using Suc.IH by (simp_all add: us_def)
  have "us ! (n + m - 1) \<in> set us" "us ! (n + m - nk) \<in> set us"
    using us(1) assms(1,3) by (intro nth_mem; simp)+
  with us(2) have "length (us ! (n + m - 1)) = 4" "length (us ! (n + m - nk)) = 4" by blast+
  then obtain w where "expand_step nk (n + m) us = us @ [w]" "length w = 4" by (rule expand_step_word)
  moreover have "fold (expand_step nk) [n..<n + Suc m] ws = expand_step nk (n + m) us" by (simp add: us_def)
  ultimately show ?case using us by simp
qed (use assms in simp)

lemma new_aes_ok: "new_aes key = Inr k \<Longrightarrow> aes_ok k"
proof -
  assume k: "new_aes key = Inr k"
  then obtain nk where nk: "length key = 4 * nk" "nk \<in> {4, 6, 8}"
    "k = \<lparr>aes_nk = nk, aes_rounds = nk + 6, aes_round_keys = expand_key key nk (nk + 6)\<rparr>"
    by (auto simp: new_aes_def Let_def split: if_splits)
  let ?ws = "map (\<lambda>i. take 4 (drop (4 * i) key)) [0..<nk]"
  have ws: "0 < nk" "length ?ws = nk" "nk \<le> nk" "\<forall>w \<in> set ?ws. length w = 4" using nk(1,2) by auto
  have n: "nk + (3 * nk + 28) = 4 * (nk + 6 + 1)" by simp
  from expand_words [OF ws, of "3 * nk + 28", unfolded n]
  have "length (expand_key key nk (nk + 6)) = 4 * (nk + 6 + 1) \<and> (\<forall>w \<in> set (expand_key key nk (nk + 6)). length w = 4)"
    unfolding expand_key_def .
  then show ?thesis by (simp only: aes_ok_def nk(3) aes.simps)  simp
qed

lemma length_round_words: "aes_ok k \<Longrightarrow> rnd \<le> aes_rounds k \<Longrightarrow> length (concat (round_words k rnd)) = 16"
proof -
  assume k: "aes_ok k" and r: "rnd \<le> aes_rounds k"
  have "\<forall>w \<in> set (round_words k rnd). length w = 4"
    using k by (auto simp: aes_ok_def round_words_def dest!: in_set_takeD in_set_dropD)
  then have "sum_list (map length (round_words k rnd)) = sum_list (map (\<lambda>_. 4) (round_words k rnd))"
    by (intro arg_cong [where f = sum_list] map_cong) auto
  moreover have "length (round_words k rnd) = 4" using k r by (simp add: aes_ok_def round_words_def)
  ultimately show ?thesis by (simp add: length_concat sum_list_triv)
qed

subsection \<open>Decryption undoes encryption\<close>

definition enc_rounds :: "aes \<Rightarrow> nat \<Rightarrow> byte list \<Rightarrow> byte list" where
  "enc_rounds k r b = fold (encrypt_round k) [1..<r + 1] (add_round_key b (round_words k 0))"

lemma enc_rounds_0: "enc_rounds k 0 b = add_round_key b (round_words k 0)"
  by (simp add: enc_rounds_def)

lemma enc_rounds_Suc: "enc_rounds k (Suc r) b = encrypt_round k (Suc r) (enc_rounds k r b)"
  by (simp add: enc_rounds_def)

lemma length_enc_rounds: "aes_ok k \<Longrightarrow> length b = 16 \<Longrightarrow> r \<le> aes_rounds k \<Longrightarrow> length (enc_rounds k r b) = 16"
  by (induction r) (simp_all add: enc_rounds_0 enc_rounds_Suc encrypt_round_def length_add_round_key length_round_words Let_def)

lemma peel: "length b = 16 \<Longrightarrow> map inv_sbox (inv_shift_rows (shift_rows (map sbox b))) = b"
  by (simp add: inv_shift_rows_shift_rows comp_def)

lemma dec_rounds:
  assumes "aes_ok k" "length b = 16" "r < aes_rounds k"
  shows "fold (decrypt_round k) (rev [0..<Suc r]) (shift_rows (map sbox (enc_rounds k r b))) = b"
  using assms(3)
proof (induction r)
  case 0
  then show ?case using assms
    by (simp add: decrypt_round_def peel enc_rounds_0 length_add_round_key length_round_words add_round_key_twice Let_def)
next
  case (Suc r)
  have len: "length (enc_rounds k r b) = 16" "length (enc_rounds k (Suc r) b) = 16"
    using Suc.prems assms by (simp_all add: length_enc_rounds)
  have "decrypt_round k (Suc r) (shift_rows (map sbox (enc_rounds k (Suc r) b))) = shift_rows (map sbox (enc_rounds k r b))"
    using Suc.prems assms(1) len
    by (simp add: decrypt_round_def peel Let_def)
      (simp add: enc_rounds_Suc encrypt_round_def Let_def add_round_key_twice length_round_words inv_mix_columns_mix_columns)
  with Suc show ?case by simp
qed

lemma decrypt_encrypt_block:
  assumes "aes_ok k" "encrypt_block k b = Inr c"
  shows "decrypt_block k c = Inr b \<and> length c = 16 \<and> length b = 16"
proof -
  let ?R = "aes_rounds k"
  have b: "length b = 16" and c: "c = enc_rounds k ?R b"
    using assms by (auto simp: encrypt_block_def enc_rounds_def split: if_splits)
  obtain r where r: "?R = Suc r" using assms(1) by (cases ?R) (auto simp: aes_ok_def)
  have "add_round_key c (round_words k ?R) = shift_rows (map sbox (enc_rounds k r b))"
    using assms(1) b length_enc_rounds [of k b r] r
    by (simp add: c enc_rounds_Suc encrypt_round_def add_round_key_twice length_round_words Let_def)
  with dec_rounds [OF assms(1) b, of r] r b c length_enc_rounds [OF assms(1) b, of ?R]
  show ?thesis by (simp add: decrypt_block_def)
qed

subsection \<open>Padding\<close>

lemma pkcs7_unpad_pad: "pkcs7_unpad (pkcs7_pad data) = Inr data"
proof -
  define p where "p = 16 - length data mod 16"
  have "length data mod 16 < 16" by simp
  then have p: "0 < p" "p \<le> 16" by (auto simp: p_def)
  have "(length data + p) mod 16 = 0"
    unfolding p_def by presburger
  with p show ?thesis by (simp add: pkcs7_pad_def pkcs7_unpad_def p_def [symmetric] unat_of_nat_byte Let_def)
qed

lemma length_pkcs7_pad: "length (pkcs7_pad data) mod 16 = 0" "length (pkcs7_pad data) \<ge> 16"
proof -
  obtain x where "pkcs7_unpad (pkcs7_pad data) = Inr x" by (simp add: pkcs7_unpad_pad)
  then show m: "length (pkcs7_pad data) mod 16 = 0" by (auto simp: pkcs7_unpad_def split: if_splits)
  have "length (pkcs7_pad data) > 0" by (simp add: pkcs7_pad_def Let_def)
  with m show "length (pkcs7_pad data) \<ge> 16" by (metis mod_less not_less less_numeral_extra(3))
qed

subsection \<open>Cipher block chaining\<close>

lemma encrypt_block_total:
  assumes "aes_ok k" "length b = 16"
  obtains c where "encrypt_block k b = Inr c" "length c = 16" "decrypt_block k c = Inr b"
proof -
  have c: "encrypt_block k b = Inr (enc_rounds k (aes_rounds k) b)"
    using assms(2) by (simp only: encrypt_block_def enc_rounds_def not_True_eq_False if_False refl)
  with decrypt_encrypt_block [OF assms(1) c] show thesis by (blast intro: that)
qed

lemma cbc_loop:
  assumes "aes_ok k" "\<forall>b \<in> set bs. length b = 16" "length prev = 16"
  shows "\<exists>out. cbc_encrypt_loop k prev bs = Inr out \<and> length out = 16 * length bs
    \<and> cbc_decrypt_loop k prev (chunks 16 out) = Inr (concat bs)"
  using assms(2,3)
proof (induction bs arbitrary: prev)
  case (Cons b bs)
  obtain c where c: "encrypt_block k (map2 (XOR) b prev) = Inr c" "length c = 16" "decrypt_block k c = Inr (map2 (XOR) b prev)"
    by (rule encrypt_block_total [OF assms(1), of "map2 (XOR) b prev"]) (use Cons.prems in auto)
  obtain out where out: "cbc_encrypt_loop k c bs = Inr out" "length out = 16 * length bs"
      "cbc_decrypt_loop k c (chunks 16 out) = Inr (concat bs)"
    using Cons.IH [of c] Cons.prems c(2) by auto
  have "chunks 16 (c @ out) = c # chunks 16 out" using c(2) by (subst chunks.simps) auto
  with c out Cons.prems show ?case by (simp add: map2_xor_twice)
qed (simp add: chunks.simps)

lemma chunks_16:
  assumes "length xs = 16 * n"
  shows "concat (chunks 16 xs) = xs \<and> length (chunks 16 xs) = n \<and> (\<forall>b \<in> set (chunks 16 xs). length b = 16)"
  using assms
proof (induction n arbitrary: xs)
  case (Suc n)
  then have "chunks 16 xs = take 16 xs # chunks 16 (drop 16 xs)" by (subst chunks.simps) auto
  with Suc.IH [of "drop 16 xs"] Suc.prems show ?case by simp
qed (simp add: chunks.simps)

theorem cbc_decrypt_encrypt:
  assumes "new_aes key = Inr k" "length iv = 16"
  obtains data where "cbc_encrypt key pt (Some iv) g = (Inr data, g)" "length data \<ge> 32" "length data mod 16 = 0"
    "take 16 data = iv" "cbc_decrypt key data = Inr pt"
proof -
  obtain n where n: "length (pkcs7_pad pt) = 16 * n" "n \<ge> 1"
    using length_pkcs7_pad [of pt] by (auto simp: mod_eq_0_iff_dvd dvd_def)
  obtain out where out: "cbc_encrypt_loop k iv (chunks 16 (pkcs7_pad pt)) = Inr out" "length out = 16 * n"
      "cbc_decrypt_loop k iv (chunks 16 out) = Inr (pkcs7_pad pt)"
    using cbc_loop [OF new_aes_ok [OF assms(1)], of "chunks 16 (pkcs7_pad pt)" iv] chunks_16 [OF n(1)] assms(2) by auto
  show thesis
    by (rule that [of "iv @ out"]) (use assms out n in \<open>simp_all add: cbc_encrypt_def cbc_decrypt_def pkcs7_unpad_pad\<close>)
qed

lemma cbc_encrypt_draws: "cbc_encrypt key pt None g = (case random_bytes 16 g of (iv, g') \<Rightarrow> cbc_encrypt key pt (Some iv) g')"
  by (simp add: cbc_encrypt_def split_beta)

lemma encrypt_then_mac_opens:
  assumes "length enc_key \<in> {16, 24, 32}"
  obtains data g' where "encrypt_then_mac enc_key mac_key plaintext g = (Inr data, g')"
    "verify_then_decrypt enc_key mac_key data = Inr plaintext"
proof -
  obtain k where k: "new_aes enc_key = Inr k" using assms by (simp add: new_aes_def Let_def)
  obtain iv g' where g: "random_bytes 16 g = (iv, g')" "length iv = 16" by (simp add: random_bytes_def)
  obtain data where d: "cbc_encrypt enc_key plaintext (Some iv) g' = (Inr data, g')" "length data \<ge> 32" "cbc_decrypt enc_key data = Inr plaintext"
    by (rule cbc_decrypt_encrypt [OF k g(2)])
  have "length (hmac_sha256 mac_key data) = 32" by (simp add: hmac_sha256_def hmac_alg_def Let_def)
  then show thesis
    by (intro that [of "data @ hmac_sha256 mac_key data" g'])
      (use g d in \<open>simp_all add: encrypt_then_mac_def cbc_encrypt_draws verify_then_decrypt_def\<close>)
qed

text \<open>
  C28: Authenticated encryption comes back: for an encryption key of 16, 24 or 32 bytes,
  \<open>encrypt_then_mac\<close> succeeds whatever the MAC key, the plaintext and the random bytes drawn are, and
  \<open>verify_then_decrypt\<close> with the same two keys returns the plaintext; with an encryption key of another
  length it raises \<open>ValueError\<close>.
\<close>

theorem authenticated_encryption_roundtrip:
  "case encrypt_then_mac enc_key mac_key plaintext g of
     (Inr data, _) \<Rightarrow> length enc_key \<in> {16, 24, 32} \<and> verify_then_decrypt enc_key mac_key data = Inr plaintext
   | (Inl e, _) \<Rightarrow> length enc_key \<notin> {16, 24, 32} \<and> e = ValueError"
proof (cases "length enc_key \<in> {16, 24, 32}")
  case True
  then show ?thesis by (rule encrypt_then_mac_opens [of _ mac_key plaintext g]) (use True in simp)
qed (simp add: encrypt_then_mac_def cbc_encrypt_def random_bytes_def new_aes_def)

text \<open>
  Nothing is decrypted before its tag is checked: whatever \<open>verify_then_decrypt\<close> returns is what
  CBC decryption makes of a prefix of the data whose HMAC is the remaining 32 bytes.
\<close>

lemma decrypted_data_has_its_tag:
  "verify_then_decrypt enc_key mac_key data = Inr pt \<Longrightarrow>
     \<exists>ct. data = ct @ hmac_sha256 mac_key ct \<and> length ct \<ge> 32 \<and> cbc_decrypt enc_key ct = Inr pt"
  by (rule exI [of _ "take (length data - 32) data"]) (auto simp: verify_then_decrypt_def Let_def split: if_splits)

end
