(* ===== verification/Cbor.thy ===== *)
theory Cbor
  imports Encoding "HOL-Library.Product_Lexorder" "HOL-Library.Multiset"
begin

text \<open>
  \<open>crypto/cbor.py\<close>: the subset of CBOR that WebAuthn needs.  A value of the module is a \<open>cbor\<close>; a
  dictionary is its list of entries in insertion order.  The reader works on the rest of the
  input where the code keeps an offset, and carries fuel: twice the length of the input and one
  more is enough (\<open>decode_at_ends\<close>).  Python's limit on the depth of recursion is not modelled: on arrays or maps
  nested near a thousand deep \<open>_decode_at\<close> and \<open>encode\<close> raise \<open>RecursionError\<close>, here they go on.

  What is proved: what \<open>encode\<close> writes is read back as the same value with its maps in canonical
  order, whatever follows it; so two values with the same encoding are the same up to the order
  of map entries.  The other direction fails: the reader accepts heads that are not the shortest.
\<close>

unbundle bit_operations_syntax

section \<open>Values\<close>

datatype cbor =
    CInt int | CBool bool | CNull
  | CBytes "byte list" | CText string
  | CList "cbor list" | CMap "(cbor \<times> cbor) list"

text \<open>Dictionary keys: lists and dictionaries are not hashable, and \<open>True == 1\<close>.\<close>

fun hashable :: "cbor \<Rightarrow> bool" where
  "hashable (CList _) = False"
| "hashable (CMap _) = False"
| "hashable _ = True"

fun key_norm :: "cbor \<Rightarrow> cbor" where
  "key_norm (CBool b) = CInt (if b then 1 else 0)"
| "key_norm v = v"

definition cbor_has_key :: "(cbor \<times> cbor) list \<Rightarrow> cbor \<Rightarrow> bool" where
  "cbor_has_key d k = (\<exists>j \<in> set (dkeys d). key_norm j = key_norm k)"

text \<open>\<open>d.get(k)\<close>.\<close>

definition cbor_get :: "(cbor \<times> cbor) list \<Rightarrow> cbor \<Rightarrow> cbor" where
  "cbor_get d k = (case find (\<lambda>(j, _). key_norm j = key_norm k) d of None \<Rightarrow> CNull | Some (_, v) \<Rightarrow> v)"

section \<open>Encoding\<close>

definition encode_head :: "nat \<Rightarrow> nat \<Rightarrow> py_error + byte list" where
  "encode_head major v =
     (if v < 24 then Inr [of_nat (push_bit 5 major OR v)]
      else if v < 0x100 then Inr (of_nat (push_bit 5 major OR 24) # nat_be 1 v)
      else if v < 0x10000 then Inr (of_nat (push_bit 5 major OR 25) # nat_be 2 v)
      else if v < 0x100000000 then Inr (of_nat (push_bit 5 major OR 26) # nat_be 4 v)
      else if v < 0x10000000000000000 then Inr (of_nat (push_bit 5 major OR 27) # nat_be 8 v)
      else Inl ValueError)"

text \<open>The order of map entries: shorter keys first, then bytewise.  The sort is stable.\<close>

definition canonical_key :: "byte list \<Rightarrow> nat \<times> byte list" where
  "canonical_key encoded = (length encoded, encoded)"

lemma size_entry: "size_prod size size = (\<lambda>p. Suc (size (fst p) + size (snd p)))"
  by (auto simp: fun_eq_iff)

function (sequential) cbor_encode :: "cbor \<Rightarrow> py_error + byte list"
  and encode_items :: "cbor list \<Rightarrow> py_error + byte list"
  and encode_entries :: "(cbor \<times> cbor) list \<Rightarrow> py_error + (byte list \<times> byte list) list" where
  "cbor_encode (CBool b) = Inr [if b then 0xf5 else 0xf4]"
| "cbor_encode CNull = Inr [0xf6]"
| "cbor_encode (CInt i) = (if i \<ge> 0 then encode_head 0 (nat i) else encode_head 1 (nat (- i - 1)))"
| "cbor_encode (CBytes b) = bind_res (encode_head 2 (length b)) (\<lambda>h. Inr (h @ b))"
| "cbor_encode (CText s) =
     (let raw = utf8_encode s in bind_res (encode_head 3 (length raw)) (\<lambda>h. Inr (h @ raw)))"
| "cbor_encode (CList xs) =
     bind_res (encode_head 4 (length xs)) (\<lambda>h. bind_res (encode_items xs) (\<lambda>body. Inr (h @ body)))"
| "cbor_encode (CMap d) =
     bind_res (encode_entries d) (\<lambda>es.
       bind_res (encode_head 5 (length d)) (\<lambda>h.
         Inr (h @ concat (map (\<lambda>(k, v). k @ v) (sort_key (\<lambda>(k, _). canonical_key k) es)))))"
| "encode_items [] = Inr []"
| "encode_items (x # xs) =
     bind_res (cbor_encode x) (\<lambda>a. bind_res (encode_items xs) (\<lambda>b. Inr (a @ b)))"
| "encode_entries [] = Inr []"
| "encode_entries ((k, v) # d) =
     bind_res (cbor_encode k) (\<lambda>a.
       bind_res (cbor_encode v) (\<lambda>b.
         bind_res (encode_entries d) (\<lambda>es. Inr ((a, b) # es))))"
  by pat_completeness auto

termination
  by (relation "measure (case_sum size (case_sum (size_list size) (size_list (\<lambda>p. Suc (size (fst p) + size (snd p))))))")
    (auto simp: size_entry)

section \<open>Decoding\<close>

definition head_size :: "nat \<Rightarrow> nat option" where
  "head_size info = dget [(24, 1), (25, 2), (26, 4), (27, 8)] info"

definition decode_head :: "byte list \<Rightarrow> py_error + nat \<times> nat \<times> byte list" where
  "decode_head bs =
     (case bs of
        [] \<Rightarrow> Inl ValueError
      | initial # rest \<Rightarrow>
          (let major = drop_bit 5 (unat initial); info = unat initial AND 0x1F in
           if info < 24 then Inr (major, info, rest)
           else case head_size info of
                  None \<Rightarrow> Inl ValueError
                | Some k \<Rightarrow>
                    if k > length rest then Inl ValueError
                    else Inr (major, be_nat (take k rest), drop k rest)))"

fun decode_at :: "nat \<Rightarrow> byte list \<Rightarrow> py_error + cbor \<times> byte list"
  and decode_items :: "nat \<Rightarrow> nat \<Rightarrow> byte list \<Rightarrow> py_error + cbor list \<times> byte list"
  and decode_entries :: "nat \<Rightarrow> nat \<Rightarrow> byte list option \<Rightarrow> (cbor \<times> cbor) list \<Rightarrow> byte list
        \<Rightarrow> py_error + (cbor \<times> cbor) list \<times> byte list" where
  "decode_at 0 bs = Inl Diverges"
| "decode_at (Suc f) bs =
     bind_res (decode_head bs) (\<lambda>(major, v, rest).
       if major = 0 then Inr (CInt (int v), rest)
       else if major = 1 then Inr (CInt (- int v - 1), rest)
       else if major = 2 then
         (if v > length rest then Inl ValueError else Inr (CBytes (take v rest), drop v rest))
       else if major = 3 then
         (if v > length rest then Inl ValueError
          else bind_res (utf8_decode (take v rest)) (\<lambda>s. Inr (CText s, drop v rest)))
       else if major = 4 then
         bind_res (decode_items f v rest) (\<lambda>(xs, rest'). Inr (CList xs, rest'))
       else if major = 5 then
         bind_res (decode_entries f v None [] rest) (\<lambda>(d, rest'). Inr (CMap d, rest'))
       else if major = 7 then
         (if v = 20 then Inr (CBool False, rest)
          else if v = 21 then Inr (CBool True, rest)
          else if v = 22 then Inr (CNull, rest)
          else Inl ValueError)
       else Inl ValueError)"
| "decode_items 0 n bs = Inl Diverges"
| "decode_items (Suc f) n bs =
     (if n = 0 then Inr ([], bs)
      else bind_res (decode_at f bs) (\<lambda>(x, rest).
             bind_res (decode_items f (n - 1) rest) (\<lambda>(xs, rest'). Inr (x # xs, rest'))))"
| "decode_entries 0 n previous result bs = Inl Diverges"
| "decode_entries (Suc f) n previous result bs =
     (if n = 0 then Inr (result, bs)
      else bind_res (decode_at f bs) (\<lambda>(key, rest).
             bind_res (cbor_encode key) (\<lambda>encoded.
               if (case previous of None \<Rightarrow> False | Some p \<Rightarrow> canonical_key encoded \<le> canonical_key p)
               then Inl ValueError
               else bind_res (decode_at f rest) (\<lambda>(item, rest').
                 if \<not> hashable key then Inl TypeError
                 else if cbor_has_key result key then Inl ValueError
                 else decode_entries f (n - 1) (Some encoded) (result @ [(key, item)]) rest'))))"

definition decode_fuel :: "byte list \<Rightarrow> nat" where
  "decode_fuel bs = 2 * length bs + 1"

definition cbor_decode :: "byte list \<Rightarrow> py_error + cbor" where
  "cbor_decode bs =
     bind_res (decode_at (decode_fuel bs) bs) (\<lambda>(v, rest).
       if rest \<noteq> [] then Inl ValueError else Inr v)"

definition decode_prefix :: "byte list \<Rightarrow> py_error + cbor \<times> byte list" where
  "decode_prefix bs = decode_at (decode_fuel bs) bs"

section \<open>The reader ends\<close>

lemma bind_res_Inl_iff:
  "bind_res m f = Inl e \<longleftrightarrow> m = Inl e \<or> (\<exists>x. m = Inr x \<and> f x = Inl e)"
  by (cases m) auto

lemma decode_head_shorter: "decode_head bs = Inr (m, v, rest) \<Longrightarrow> length rest < length bs"
  by (auto simp: decode_head_def Let_def split: list.splits if_splits option.splits)

lemma decode_head_ends: "decode_head bs \<noteq> Inl Diverges"
  by (auto simp: decode_head_def Let_def split: list.splits option.splits)

lemma utf8_decode_ends: "utf8_decode bs \<noteq> Inl Diverges"
proof (induction bs rule: utf8_decode.induct)
  case (2 b bs)
  then show ?case
    unfolding utf8_decode.simps
    by (cases "utf8_decode bs"; cases bs) (auto split: sum.split simp del: utf8_decode.simps)
qed simp

lemma decode_shorter_all:
  "(\<forall>bs v rest. decode_at f bs = Inr (v, rest) \<longrightarrow> length rest < length bs) \<and>
   (\<forall>n bs xs rest. decode_items f n bs = Inr (xs, rest) \<longrightarrow> length rest \<le> length bs) \<and>
   (\<forall>n p d bs d' rest. decode_entries f n p d bs = Inr (d', rest) \<longrightarrow> length rest \<le> length bs)"
proof (induction f)
  case (Suc f)
  have at: "length rest < length bs" if "decode_at f bs = Inr (v, rest)" for bs v rest
    using Suc.IH that by blast
  have it: "length rest \<le> length bs" if "decode_items f n bs = Inr (xs, rest)" for n bs xs rest
    using Suc.IH that by blast
  have en: "length rest \<le> length bs" if "decode_entries f n p d bs = Inr (d', rest)" for n p d bs d' rest
    using Suc.IH that by blast
  have "length rest < length bs" if d: "decode_at (Suc f) bs = Inr (v, rest)" for bs v rest
  proof -
    from d obtain m v' r where h: "decode_head bs = Inr (m, v', r)" by (auto elim!: bind_res_InrE)
    have "length rest \<le> length r"
      using d by (auto simp: h split: if_splits elim!: bind_res_InrE dest: it en)
    with decode_head_shorter [OF h] show ?thesis by simp
  qed
  moreover have "length rest \<le> length bs" if d: "decode_items (Suc f) n bs = Inr (xs, rest)" for n bs xs rest
  proof (cases "n = 0")
    case False
    with d obtain x r ys where "decode_at f bs = Inr (x, r)" "decode_items f (n - 1) r = Inr (ys, rest)"
      by (auto elim!: bind_res_InrE)
    from at [OF this(1)] it [OF this(2)] show ?thesis by simp
  qed (use d in simp)
  moreover have "length rest \<le> length bs" if d: "decode_entries (Suc f) n p e bs = Inr (d', rest)" for n p e bs d' rest
  proof (cases "n = 0")
    case False
    with d obtain k r x r2 q e2 where "decode_at f bs = Inr (k, r)" "decode_at f r = Inr (x, r2)"
      "decode_entries f (n - 1) q e2 r2 = Inr (d', rest)"
      by (auto elim!: bind_res_InrE split: if_splits)
    from at [OF this(1)] at [OF this(2)] en [OF this(3)] show ?thesis by simp
  qed (use d in simp)
  ultimately show ?case by blast
qed simp

lemma decode_at_shorter: "decode_at f bs = Inr (v, rest) \<Longrightarrow> length rest < length bs"
  using decode_shorter_all by blast

lemma encode_head_ends: "encode_head m v \<noteq> Inl Diverges"
  by (simp add: encode_head_def)

lemma encode_fails:
  "cbor_encode v = Inl e \<Longrightarrow> e = ValueError"
  "encode_items xs = Inl e \<Longrightarrow> e = ValueError"
  "encode_entries d = Inl e \<Longrightarrow> e = ValueError"
  by (induction v and xs and d arbitrary: e and e and e rule: cbor_encode_encode_items_encode_entries.induct)
    (auto simp: bind_res_def encode_head_def Let_def split: sum.splits if_splits)

lemma decode_ends_all:
  "(\<forall>bs. 2 * length bs < f \<longrightarrow> decode_at f bs \<noteq> Inl Diverges) \<and>
   (\<forall>n bs. 2 * length bs + 1 < f \<longrightarrow> decode_items f n bs \<noteq> Inl Diverges) \<and>
   (\<forall>n p d bs. 2 * length bs + 1 < f \<longrightarrow> decode_entries f n p d bs \<noteq> Inl Diverges)"
proof (induction f)
  case (Suc f)
  have at: "decode_at f bs \<noteq> Inl Diverges" if "2 * length bs < f" for bs using Suc.IH that by blast
  have it: "decode_items f n bs \<noteq> Inl Diverges" if "2 * length bs + 1 < f" for n bs using Suc.IH that by blast
  have en: "decode_entries f n p d bs \<noteq> Inl Diverges" if "2 * length bs + 1 < f" for n p d bs
    using Suc.IH that by blast
  have "decode_at (Suc f) bs \<noteq> Inl Diverges" if l: "2 * length bs < Suc f" for bs
  proof (cases "decode_head bs")
    case (Inl e)
    then show ?thesis using decode_head_ends [of bs] by auto
  next
    case (Inr x)
    obtain m v r where h: "decode_head bs = Inr (m, v, r)" using Inr by (cases x) auto
    from decode_head_shorter [OF h] l have "2 * length r + 1 < f" by simp
    from it [OF this] en [OF this] show ?thesis
      by (simp add: h bind_res_Inl_iff utf8_decode_ends split: prod.split)
  qed
  moreover have "decode_items (Suc f) n bs \<noteq> Inl Diverges" if l: "2 * length bs + 1 < Suc f" for n bs
  proof (cases "decode_at f bs")
    case (Inl e)
    then show ?thesis using at [of bs] l by auto
  next
    case (Inr x)
    obtain v r where d: "decode_at f bs = Inr (v, r)" using Inr by (cases x) auto
    from decode_at_shorter [OF d] l have "2 * length r + 1 < f" by simp
    from it [OF this] show ?thesis by (simp add: d bind_res_Inl_iff split: prod.split)
  qed
  moreover have "decode_entries (Suc f) n p e bs \<noteq> Inl Diverges" if l: "2 * length bs + 1 < Suc f" for n p e bs
  proof (cases "decode_at f bs")
    case (Inl e)
    then show ?thesis using at [of bs] l by auto
  next
    case (Inr x)
    obtain k r where d: "decode_at f bs = Inr (k, r)" using Inr by (cases x) auto
    from decode_at_shorter [OF d] l have lr: "2 * length r + 1 < f" by simp
    show ?thesis
    proof (cases "decode_at f r")
      case (Inl e)
      then show ?thesis using at [of r] lr encode_fails(1) [of k Diverges] by (auto simp: d bind_res_Inl_iff split: prod.split)
    next
      case (Inr x)
      obtain v r2 where d2: "decode_at f r = Inr (v, r2)" using Inr by (cases x) auto
      from decode_at_shorter [OF d2] lr have "2 * length r2 + 1 < f" by simp
      from en [OF this] show ?thesis using encode_fails(1) [of k Diverges] by (auto simp: d d2 bind_res_Inl_iff split: prod.split)
    qed
  qed
  ultimately show ?case by blast
qed simp

lemma decode_ends: "cbor_decode bs \<noteq> Inl Diverges" "decode_prefix bs \<noteq> Inl Diverges"
proof -
  have *: "decode_at (decode_fuel bs) bs \<noteq> Inl Diverges"
    using decode_ends_all [of "decode_fuel bs"] by (simp add: decode_fuel_def)
  then show "decode_prefix bs \<noteq> Inl Diverges" by (simp add: decode_prefix_def)
  from * show "cbor_decode bs \<noteq> Inl Diverges"
    by (auto simp: cbor_decode_def bind_res_def split: sum.split)
qed

section \<open>What is written is read back\<close>

definition encoded :: "cbor \<Rightarrow> byte list" where
  "encoded v = (case cbor_encode v of Inl _ \<Rightarrow> [] | Inr b \<Rightarrow> b)"

text \<open>Values in the range of the format; the keys of a dictionary are distinct as Python keys.\<close>

fun valid_cbor :: "cbor \<Rightarrow> bool" where
  "valid_cbor (CInt i) = (- (2 ^ 64) \<le> i \<and> i < 2 ^ 64)"
| "valid_cbor (CBytes b) = (length b < 2 ^ 64)"
| "valid_cbor (CText s) = (length (utf8_encode s) < 2 ^ 64)"
| "valid_cbor (CList xs) = (length xs < 2 ^ 64 \<and> list_all valid_cbor xs)"
| "valid_cbor (CMap d) =
     (length d < 2 ^ 64 \<and> distinct (map (\<lambda>e. key_norm (fst e)) d) \<and>
      list_all (\<lambda>(k, v). hashable k \<and> valid_cbor k \<and> valid_cbor v) d)"
| "valid_cbor _ = True"

text \<open>The same value with the entries of its maps in canonical order.\<close>

fun canonical :: "cbor \<Rightarrow> cbor" where
  "canonical (CList xs) = CList (map canonical xs)"
| "canonical (CMap d) =
     CMap (sort_key (\<lambda>(k, _). canonical_key (encoded k)) (map (\<lambda>(k, v). (k, canonical v)) d))"
| "canonical v = v"

lemma canonical_hashable [simp]: "hashable k \<Longrightarrow> canonical k = k"
  by (cases k) auto

lemma initial_byte:
  assumes "m < 8" "k < 32"
  shows "drop_bit 5 (unat (of_nat (push_bit 5 m OR k) :: byte)) = m"
    "unat (of_nat (push_bit 5 m OR k) :: byte) AND 31 = k"
proof -
  define x where "x = (push_bit 5 m OR k)"
  have k: "\<not> bit k (5 + n)" for n
  proof -
    have "k < 2 ^ (5 + n)" using assms(2) less_le_trans [of k 32 "2 ^ (5 + n)"] by (simp add: power_add)
    then show ?thesis by (simp add: bit_iff_odd)
  qed
  have d: "drop_bit 5 x = m"
    by (rule bit_eqI) (simp add: x_def bit_drop_bit_eq bit_or_iff bit_push_bit_iff k)
  have t: "take_bit 5 x = k"
  proof (rule bit_eqI)
    fix n show "bit (take_bit 5 x) n \<longleftrightarrow> bit k n"
      using k [of "n - 5"] by (auto simp: x_def bit_take_bit_iff bit_or_iff bit_push_bit_iff)
  qed
  have "x = 32 * m + k"
    using bits_ident [of 5 x] by (simp add: d t push_bit_eq_mult mult.commute)
  with assms have x: "unat (of_nat x :: byte) = x" by (intro unat_of_nat_byte) simp
  have "mask 5 = (31 :: nat)" by (simp add: mask_eq_exp_minus_1)
  with d t x show "drop_bit 5 (unat (of_nat (push_bit 5 m OR k) :: byte)) = m"
    "unat (of_nat (push_bit 5 m OR k) :: byte) AND 31 = k"
    by (simp_all add: x_def [symmetric] take_bit_eq_mask)
qed

lemma head_read:
  assumes "m < 8" "v < 2 ^ 64"
  shows "\<exists>h. encode_head m v = Inr h \<and> h \<noteq> [] \<and> (\<forall>rest. decode_head (h @ rest) = Inr (m, v, rest))"
proof (cases "v < 24")
  case True
  with initial_byte [OF assms(1), of v] show ?thesis by (simp add: encode_head_def decode_head_def)
next
  case False
  obtain k size where k: "encode_head m v = Inr (of_nat (push_bit 5 m OR k) # nat_be size v)" "24 \<le> k" "k < 32"
    "head_size k = Some size" "v < 256 ^ size"
  proof -
    consider "v < 0x100" | "0x100 \<le> v" "v < 0x10000" | "0x10000 \<le> v" "v < 0x100000000" | "0x100000000 \<le> v"
      by linarith
    then show thesis
    proof cases
      case 1 with False that [of 24 1] show ?thesis by (simp add: encode_head_def head_size_def)
    next
      case 2 with False that [of 25 2] show ?thesis by (simp add: encode_head_def head_size_def)
    next
      case 3 with False that [of 26 4] show ?thesis by (simp add: encode_head_def head_size_def)
    next
      case 4 with False assms that [of 27 8] show ?thesis by (simp add: encode_head_def head_size_def)
    qed
  qed
  with initial_byte [OF assms(1), of k] show ?thesis
    by (simp add: decode_head_def be_nat_be)
qed

text \<open>The whole statement for one value: it is written, and read back whatever follows.\<close>

definition comes_back :: "cbor \<Rightarrow> bool" where
  "comes_back v \<longleftrightarrow> cbor_encode v = Inr (encoded v) \<and> encoded v \<noteq> [] \<and>
     (\<forall>f rest. 2 * length (encoded v) \<le> f \<longrightarrow> decode_at f (encoded v @ rest) = Inr (canonical v, rest))"

lemma comes_backI:
  assumes "cbor_encode v = Inr bs" "bs \<noteq> []"
    "\<And>f rest. 2 * length bs \<le> Suc f \<Longrightarrow> decode_at (Suc f) (bs @ rest) = Inr (canonical v, rest)"
  shows "comes_back v"
proof -
  have "encoded v = bs" using assms(1) by (simp add: encoded_def)
  moreover have "decode_at f (bs @ rest) = Inr (canonical v, rest)" if "2 * length bs \<le> f" for f rest
    using that assms(2,3) by (cases f) auto
  ultimately show ?thesis using assms(1,2) by (simp add: comes_back_def)
qed

lemma comes_backD:
  assumes "comes_back v"
  shows "cbor_encode v = Inr (encoded v)" "encoded v \<noteq> []"
    "2 * length (encoded v) \<le> f \<Longrightarrow> decode_at f (encoded v @ rest) = Inr (canonical v, rest)"
  using assms by (simp_all add: comes_back_def)

lemma items_come_back:
  assumes "\<forall>x \<in> set xs. comes_back x"
  shows "encode_items xs = Inr (concat (map encoded xs))"
    "2 * length (concat (map encoded xs)) < f \<Longrightarrow>
       decode_items f (length xs) (concat (map encoded xs) @ rest) = Inr (map canonical xs, rest)"
  using assms
proof (induction xs arbitrary: f)
  case Nil
  { case 1 show ?case by simp }
  { case 2 then show ?case by (cases f) auto }
next
  case (Cons x xs)
  { case 1
    then have "comes_back x" "\<forall>y \<in> set xs. comes_back y" by auto
    with comes_backD(1) [of x] Cons.IH(1) show ?case by simp }
  { case 2
    then have x: "comes_back x" and xs: "\<forall>y \<in> set xs. comes_back y" by auto
    from 2 obtain f' where f: "f = Suc f'" by (cases f) auto
    have "2 * length (encoded x) \<le> f'" "2 * length (concat (map encoded xs)) < f'"
      using 2(1) comes_backD(2) [OF x] by (auto simp: f) (cases "encoded x"; simp)
    with comes_backD(3) [OF x, of f'] Cons.IH(2) [OF this(2) xs] show ?case by (simp add: f)
  }
qed

abbreviation entry_bytes :: "cbor \<times> cbor \<Rightarrow> byte list" where
  "entry_bytes e \<equiv> encoded (fst e) @ encoded (snd e)"

abbreviation entry_key :: "cbor \<times> cbor \<Rightarrow> nat \<times> byte list" where
  "entry_key e \<equiv> canonical_key (encoded (fst e))"

definition entry_ok :: "cbor \<times> cbor \<Rightarrow> bool" where
  "entry_ok e \<longleftrightarrow> hashable (fst e) \<and> comes_back (fst e) \<and> comes_back (snd e)"

lemma entries_written:
  "\<forall>e \<in> set d. entry_ok e \<Longrightarrow> encode_entries d = Inr (map (\<lambda>e. (encoded (fst e), encoded (snd e))) d)"
  by (induction d) (auto simp: entry_ok_def comes_backD(1))

lemma entries_come_back:
  assumes "\<forall>e \<in> set d. entry_ok e" "sorted_wrt (\<lambda>a b. entry_key a < entry_key b) d"
    "distinct (map (\<lambda>e. key_norm (fst e)) (acc @ d))"
    "case previous of None \<Rightarrow> True | Some p \<Rightarrow> \<forall>e \<in> set d. canonical_key p < entry_key e"
    "2 * length (concat (map entry_bytes d)) < f"
  shows "decode_entries f (length d) previous acc (concat (map entry_bytes d) @ rest) =
     Inr (acc @ map (\<lambda>(k, v). (k, canonical v)) d, rest)"
  using assms
proof (induction d arbitrary: f previous acc)
  case Nil
  then show ?case by (cases f) auto
next
  case (Cons e d)
  obtain k v where e: "e = (k, v)" by (cases e)
  have ok: "hashable k" "comes_back k" "comes_back v" using Cons.prems(1) by (simp_all add: e entry_ok_def)
  obtain f' where f: "f = Suc f'" using Cons.prems(5) by (cases f) auto
  define body where "body = concat (map entry_bytes d)"
  have len: "2 * length (encoded k) \<le> f'" "2 * length (encoded v) \<le> f'" "2 * length body < f'"
    using Cons.prems(5) comes_backD(2) [OF ok(2)] comes_backD(2) [OF ok(3)]
    by (auto simp: f e body_def) (cases "encoded k"; simp)
  have order: "\<not> (case previous of None \<Rightarrow> False | Some p \<Rightarrow> canonical_key (encoded k) \<le> canonical_key p)"
    using Cons.prems(4) by (auto simp: e not_le split: option.splits)
  have fresh: "\<not> cbor_has_key acc k"
    using Cons.prems(3) by (auto simp: e cbor_has_key_def image_iff)
  have "decode_entries f' (length d) (Some (encoded k)) (acc @ [(k, canonical v)]) (body @ rest) =
      Inr ((acc @ [(k, canonical v)]) @ map (\<lambda>(k, v). (k, canonical v)) d, rest)"
    unfolding body_def
  proof (rule Cons.IH)
    show "distinct (map (\<lambda>e. key_norm (fst e)) ((acc @ [(k, canonical v)]) @ d))" using Cons.prems(3) by (auto simp: e)
    show "case Some (encoded k) of None \<Rightarrow> True | Some p \<Rightarrow> \<forall>e \<in> set d. canonical_key p < entry_key e"
      using Cons.prems(2) by (auto simp: e)
  qed (use Cons.prems(1,2) len(3) in \<open>simp_all add: body_def\<close>)
  then show ?case
    using comes_backD(3) [OF ok(2) len(1), of "encoded v @ body @ rest"]
      comes_backD(3) [OF ok(3) len(2), of "body @ rest"] order fresh ok(1) comes_backD(1) [OF ok(2)]
    by (simp add: f e body_def [symmetric])
qed

lemma insort_key_map: "insort_key g (h x) (map h xs) = map h (insort_key (\<lambda>x. g (h x)) x xs)"
  by (induction xs) auto

lemma sort_key_map: "sort_key g (map h xs) = map h (sort_key (\<lambda>x. g (h x)) xs)"
  by (induction xs) (simp_all add: insort_key_map)

lemma entry_keys_differ:
  assumes "entry_ok a" "entry_ok b" "entry_key a = entry_key b"
  shows "fst a = fst b"
proof -
  let ?f = "2 * length (encoded (fst a))"
  have "encoded (fst a) = encoded (fst b)" using assms(3) by (simp add: canonical_key_def)
  moreover have "decode_at ?f (encoded (fst a) @ []) = Inr (canonical (fst a), [])"
    by (rule comes_backD(3)) (use assms(1) in \<open>simp_all add: entry_ok_def\<close>)
  moreover have "decode_at ?f (encoded (fst b) @ []) = Inr (canonical (fst b), [])"
    by (rule comes_backD(3)) (use assms(2) calculation(1) in \<open>simp_all add: entry_ok_def\<close>)
  ultimately have "canonical (fst a) = canonical (fst b)" by (simp only: sum.inject prod.inject)
  with assms(1,2) show ?thesis by (simp add: entry_ok_def)
qed

lemma sorted_entries:
  assumes "\<forall>e \<in> set d. entry_ok e" "distinct (map (\<lambda>e. key_norm (fst e)) d)"
  shows "sorted_wrt (\<lambda>a b. entry_key a < entry_key b) (sort_key entry_key d)"
proof -
  let ?s = "sort_key entry_key d"
  have d: "distinct (map entry_key d)"
    using assms
  proof (induction d)
    case (Cons e d)
    have "entry_key e \<noteq> entry_key b" if b: "b \<in> set d" for b
    proof
      assume "entry_key e = entry_key b"
      from entry_keys_differ [OF _ _ this] Cons.prems b have "fst e = fst b" by simp
      with Cons.prems(2) b show False by force
    qed
    with Cons show ?case by force
  qed simp
  moreover have "mset (map entry_key ?s) = mset (map entry_key d)" by simp
  ultimately have "distinct (map entry_key ?s)" by (metis mset_eq_imp_distinct_iff)
  moreover have "sorted (map entry_key ?s)" by simp
  ultimately have "sorted_wrt (<) (map entry_key ?s)" by (simp add: strict_sorted_iff)
  then show ?thesis by (simp add: sorted_wrt_map)
qed


lemma scalar_comes_back:
  assumes "hashable v" "valid_cbor v"
  shows "comes_back v"
proof (cases v)
  case (CInt i)
  show ?thesis
  proof (cases "i \<ge> 0")
    case True
    with assms CInt have "nat i < 2 ^ 64" by (simp add: nat_less_iff)
    with head_read [of 0 "nat i"] obtain h where "encode_head 0 (nat i) = Inr h" "h \<noteq> []"
      "\<And>rest. decode_head (h @ rest) = Inr (0, nat i, rest)" by auto
    with True show ?thesis by (intro comes_backI [of v h]) (simp_all add: CInt)
  next
    case False
    with assms CInt have "nat (- i - 1) < 2 ^ 64" by (simp add: nat_less_iff)
    with head_read [of 1 "nat (- i - 1)"] obtain h where "encode_head 1 (nat (- i - 1)) = Inr h" "h \<noteq> []"
      "\<And>rest. decode_head (h @ rest) = Inr (1, nat (- i - 1), rest)" by auto
    with False show ?thesis by (intro comes_backI [of v h]) (simp_all add: CInt)
  qed
next
  case (CBytes b)
  with assms head_read [of 2 "length b"] obtain h where "encode_head 2 (length b) = Inr h" "h \<noteq> []"
    "\<And>rest. decode_head (h @ rest) = Inr (2, length b, rest)" by auto
  then show ?thesis by (intro comes_backI [of v "h @ b"]) (simp_all add: CBytes)
next
  case (CText s)
  define raw where "raw = utf8_encode s"
  from assms CText have "length raw < 2 ^ 64" by (simp add: raw_def)
  with head_read [of 3 "length raw"] obtain h where "encode_head 3 (length raw) = Inr h" "h \<noteq> []"
    "\<And>rest. decode_head (h @ rest) = Inr (3, length raw, rest)" by auto
  moreover have "utf8_decode raw = Inr s" by (simp add: raw_def)
  ultimately show ?thesis by (intro comes_backI [of v "h @ raw"]) (simp_all add: CText Let_def raw_def [symmetric])
next
  case (CBool b)
  have "decode_head (0xf5 # rest) = Inr (7, 21, rest)" "decode_head (0xf4 # rest) = Inr (7, 20, rest)" for rest
    by (simp_all add: decode_head_def Let_def drop_bit_eq_div)
  then show ?thesis by (intro comes_backI [of v "[if b then 0xf5 else 0xf4]"]) (simp_all add: CBool)
next
  case CNull
  have "decode_head (0xf6 # rest) = Inr (7, 22, rest)" for rest
    by (simp add: decode_head_def Let_def drop_bit_eq_div)
  then show ?thesis by (intro comes_backI [of v "[0xf6]"]) (simp_all add: CNull)
qed (use assms in simp_all)

lemma valid_comes_back: "valid_cbor v \<Longrightarrow> comes_back v"
proof (induction v)
  case (CList xs)
  have xs: "\<forall>x \<in> set xs. comes_back x" using CList by (auto simp: list_all_iff)
  from CList.prems head_read [of 4 "length xs"] obtain h where h: "encode_head 4 (length xs) = Inr h" "h \<noteq> []"
    "\<And>rest. decode_head (h @ rest) = Inr (4, length xs, rest)" by auto
  define body where "body = concat (map encoded xs)"
  show ?case
  proof (rule comes_backI)
    show "cbor_encode (CList xs) = Inr (h @ body)"
      using items_come_back(1) [OF xs] by (simp add: h body_def)
    show "decode_at (Suc f) ((h @ body) @ rest) = Inr (canonical (CList xs), rest)"
      if "2 * length (h @ body) \<le> Suc f" for f rest
    proof -
      have "2 * length body < f" using that h(2) by (cases h) auto
      with items_come_back(2) [OF xs, of f rest] show ?thesis by (simp add: h body_def)
    qed
  qed (use h(2) in simp)
next
  case (CMap d)
  have ok: "\<forall>e \<in> set d. entry_ok e"
  proof
    fix e assume e: "e \<in> set d"
    obtain k v where kv: "e = (k, v)" by (cases e)
    have "hashable k" "valid_cbor k" "valid_cbor v" using CMap.prems e by (auto simp: list_all_iff kv)
    moreover have "comes_back v" using CMap.IH [OF e, of v] \<open>valid_cbor v\<close> by (simp add: kv)
    ultimately show "entry_ok e" using scalar_comes_back by (simp add: entry_ok_def kv)
  qed
  have dist: "distinct (map (\<lambda>e. key_norm (fst e)) d)" and len: "length d < 2 ^ 64" using CMap.prems by simp_all
  define s where "s = sort_key entry_key d"
  have s: "\<forall>e \<in> set s. entry_ok e" "length s = length d" using ok by (simp_all add: s_def)
  have "mset (map (\<lambda>e. key_norm (fst e)) s) = mset (map (\<lambda>e. key_norm (fst e)) d)" by (simp add: s_def)
  with dist have ds: "distinct (map (\<lambda>e. key_norm (fst e)) s)" by (metis mset_eq_imp_distinct_iff)
  from head_read [of 5 "length d"] len obtain h where h: "encode_head 5 (length d) = Inr h" "h \<noteq> []"
    "\<And>rest. decode_head (h @ rest) = Inr (5, length d, rest)" by auto
  define body where "body = concat (map entry_bytes s)"
  have canon: "canonical (CMap d) = CMap (map (\<lambda>(k, v). (k, canonical v)) s)"
    by (simp add: sort_key_map s_def case_prod_unfold)
  show ?case
  proof (rule comes_backI)
    show "cbor_encode (CMap d) = Inr (h @ body)"
      by (simp add: entries_written [OF ok] h body_def s_def sort_key_map case_prod_unfold o_def)
    show "decode_at (Suc f) ((h @ body) @ rest) = Inr (canonical (CMap d), rest)"
      if "2 * length (h @ body) \<le> Suc f" for f rest
    proof -
      have "2 * length body < f" using that h(2) by (cases h) auto
      with entries_come_back [OF s(1), of "[]" None f rest] sorted_entries [OF ok dist] ds
      have "decode_entries f (length d) None [] (body @ rest) = Inr (map (\<lambda>(k, v). (k, canonical v)) s, rest)"
        by (simp add: s_def [symmetric] s(2) body_def)
      then show ?thesis by (simp add: h canon del: canonical.simps)
    qed
  qed (use h(2) in simp)
qed (auto intro: scalar_comes_back)

lemma cbor_prefix_roundtrip:
  assumes "valid_cbor v"
  shows "cbor_encode v = Inr (encoded v)" "decode_prefix (encoded v @ rest) = Inr (canonical v, rest)"
    "cbor_decode (encoded v) = Inr (canonical v)"
proof -
  note c = comes_backD [OF valid_comes_back [OF assms]]
  show "cbor_encode v = Inr (encoded v)" by (rule c(1))
  show "decode_prefix (encoded v @ rest) = Inr (canonical v, rest)"
    unfolding decode_prefix_def by (rule c(3)) (simp add: decode_fuel_def)
  show "cbor_decode (encoded v) = Inr (canonical v)"
    using c(3) [of "decode_fuel (encoded v)" "[]"] by (simp add: cbor_decode_def decode_fuel_def)
qed

lemma encode_items_cong:
  "(\<And>x. x \<in> set xs \<Longrightarrow> cbor_encode (f x) = cbor_encode x) \<Longrightarrow> encode_items (map f xs) = encode_items xs"
  by (induction xs) auto

lemma encode_canonical: "valid_cbor v \<Longrightarrow> cbor_encode (canonical v) = cbor_encode v"
proof (induction v)
  case (CList xs)
  then have "encode_items (map canonical xs) = encode_items xs"
    by (intro encode_items_cong) (auto simp: list_all_iff)
  then show ?case by simp
next
  case (CMap d)
  have ok: "\<forall>e \<in> set d. entry_ok e"
    using CMap.prems scalar_comes_back valid_comes_back by (auto simp: list_all_iff entry_ok_def)
  define s where "s = sort_key entry_key d"
  define t where "t = map (\<lambda>e. (fst e, canonical (snd e))) s"
  have canon: "canonical (CMap d) = CMap t"
    by (simp add: sort_key_map s_def t_def case_prod_unfold)
  have "encode_entries t = Inr (map (\<lambda>e. (encoded (fst e), encoded (snd e))) s)"
  proof -
    have "\<forall>e \<in> set s. entry_ok e \<and> cbor_encode (canonical (snd e)) = cbor_encode (snd e)"
      using ok CMap.IH CMap.prems by (fastforce simp: s_def list_all_iff)
    then show ?thesis
      unfolding t_def by (induction s) (auto simp: entry_ok_def comes_backD(1))
  qed
  moreover have "sort_key (\<lambda>(k, _). canonical_key k) (map (\<lambda>e. (encoded (fst e), encoded (snd e))) s) =
      map (\<lambda>e. (encoded (fst e), encoded (snd e))) s"
    by (rule sort_key_id_if_sorted) (simp add: s_def case_prod_unfold o_def)
  moreover have "length t = length d" by (simp add: t_def s_def)
  ultimately show ?case
    using entries_written [OF ok]
    by (simp add: canon sort_key_map case_prod_unfold s_def del: canonical.simps)
qed auto

text \<open>
  C27: CBOR values come back.  A value in the range of the format whose maps have distinct scalar keys is
  encoded; decoding the encoding gives the value with its maps in canonical order, also in front of
  other data; two such values have the same encoding exactly when they are the same up to the order of
  map entries; and on every input whatsoever the fuel of the reader is enough.
\<close>

theorem cbor_roundtrip:
  assumes "valid_cbor v" "valid_cbor w"
  shows "(\<exists>bs. cbor_encode v = Inr bs \<and> cbor_decode bs = Inr (canonical v) \<and>
      (\<forall>rest. decode_prefix (bs @ rest) = Inr (canonical v, rest))) \<and>
    (cbor_encode v = cbor_encode w \<longleftrightarrow> canonical v = canonical w) \<and>
    (\<forall>data. cbor_decode data \<noteq> Inl Diverges \<and> decode_prefix data \<noteq> Inl Diverges)"
proof -
  note v = cbor_prefix_roundtrip [OF assms(1)] and w = cbor_prefix_roundtrip [OF assms(2)]
  have "canonical v = canonical w" if "cbor_encode v = cbor_encode w"
  proof -
    from that have "encoded v = encoded w" by (simp add: encoded_def)
    with v(3) w(3) show ?thesis by simp
  qed
  moreover have "cbor_encode v = cbor_encode w" if "canonical v = canonical w"
    using encode_canonical [OF assms(1)] encode_canonical [OF assms(2)] that by simp
  ultimately show ?thesis using v decode_ends by blast
qed

theorem cbor_roundtrip_witness:
  "cbor_decode (encoded (CMap [(CText ''fmt'', CText ''none''), (CInt (- 1), CList [CBool True])])) =
     Inr (CMap [(CInt (- 1), CList [CBool True]), (CText ''fmt'', CText ''none'')])"
proof -
  let ?v = "CMap [(CText ''fmt'', CText ''none''), (CInt (- 1), CList [CBool True])]"
  have "valid_cbor ?v" by (simp add: utf8_encode_def utf8_char_def)
  then obtain bs where "cbor_encode ?v = Inr bs" "cbor_decode bs = Inr (canonical ?v)"
    using cbor_roundtrip [of ?v ?v] by blast
  moreover have "canonical ?v = CMap [(CInt (- 1), CList [CBool True]), (CText ''fmt'', CText ''none'')]" by code_simp
  ultimately show ?thesis by (simp add: encoded_def)
qed

text \<open>
  The documentation of the module says that a head that is not in its shortest form is rejected on
  decoding.  It is accepted, so the encoding of a decoded value can differ from what was read.
\<close>

lemma longer_head_is_accepted:
  "cbor_decode [0x18, 0x00] = Inr (CInt 0)" "cbor_encode (CInt 0) = Inr [0x00]"
  by code_simp+

text \<open>A list as a map key is not rejected as a value error: it cannot be hashed.\<close>

lemma list_key_raises: "cbor_decode [0xa1, 0x80, 0x00] = Inl TypeError"
  by code_simp

end
