(* ===== verification/Cose.thy ===== *)
theory Cose
  imports Cbor Ec Ed25519
begin

text \<open>
  \<open>webauthn/cose.py\<close>: public keys as CBOR maps with integer labels, for P-256 and Ed25519.  A key
  that the RP stores is a \<open>cose_key\<close>.  The readers take the value that Python passes them: bytes
  (\<open>CBytes\<close>) are decoded first, a dictionary (\<open>CMap\<close>) is taken as it is.
\<close>

section \<open>Labels\<close>

definition COSE_KTY :: int where "COSE_KTY = 1"
definition COSE_ALG :: int where "COSE_ALG = 3"
definition COSE_CRV :: int where "COSE_CRV = - 1"
definition COSE_X :: int where "COSE_X = - 2"
definition COSE_Y :: int where "COSE_Y = - 3"

definition KTY_OKP :: int where "KTY_OKP = 1"
definition KTY_EC2 :: int where "KTY_EC2 = 2"

definition COSE_ES256 :: int where "COSE_ES256 = - 7"
definition COSE_EDDSA :: int where "COSE_EDDSA = - 8"

definition CRV_P256 :: int where "CRV_P256 = 1"
definition CRV_ED25519 :: int where "CRV_ED25519 = 6"

definition SUPPORTED_ALGORITHMS :: "int list" where
  "SUPPORTED_ALGORITHMS = [COSE_ES256, COSE_EDDSA]"

lemmas cose_labels =
  COSE_KTY_def COSE_ALG_def COSE_CRV_def COSE_X_def COSE_Y_def KTY_OKP_def KTY_EC2_def
  COSE_ES256_def COSE_EDDSA_def CRV_P256_def CRV_ED25519_def SUPPORTED_ALGORITHMS_def

datatype cose_key = EcKey ec_point | EdKey "byte list"

section \<open>Writing\<close>

definition cose_encode_ec2 :: "ec_point \<Rightarrow> int \<Rightarrow> py_error + byte list" where
  "cose_encode_ec2 key alg =
     (if c_jose_crv (pt_curve key) \<noteq> ''P-256'' then Inl ValueError
      else case pt_xy key of
        None \<Rightarrow> Inl TypeError
      | Some (x, y) \<Rightarrow>
          bind_res (int_to_bytes x (Some 32)) (\<lambda>bx.
            bind_res (int_to_bytes y (Some 32)) (\<lambda>by'.
              cbor_encode (CMap
                [(CInt COSE_KTY, CInt KTY_EC2), (CInt COSE_ALG, CInt alg), (CInt COSE_CRV, CInt CRV_P256),
                 (CInt COSE_X, CBytes bx), (CInt COSE_Y, CBytes by')]))))"

definition cose_encode_okp :: "byte list \<Rightarrow> int \<Rightarrow> py_error + byte list" where
  "cose_encode_okp key alg =
     cbor_encode (CMap
       [(CInt COSE_KTY, CInt KTY_OKP), (CInt COSE_ALG, CInt alg), (CInt COSE_CRV, CInt CRV_ED25519),
        (CInt COSE_X, CBytes key)])"

section \<open>Reading\<close>

definition cose_as_map :: "cbor \<Rightarrow> py_error + (cbor \<times> cbor) list" where
  "cose_as_map data =
     bind_res (case data of CBytes b \<Rightarrow> cbor_decode b | _ \<Rightarrow> Inr data) (\<lambda>key.
       case key of CMap d \<Rightarrow> Inr d | _ \<Rightarrow> Inl ValueError)"

text \<open>Comparison with an integer label: \<open>True\<close> is 1 and \<open>False\<close> is 0.\<close>

definition cbor_is :: "cbor \<Rightarrow> int \<Rightarrow> bool" where
  "cbor_is v i \<longleftrightarrow> key_norm v = CInt i"

definition cose_decode_ec2 :: "cbor \<Rightarrow> py_error + ec_point" where
  "cose_decode_ec2 data =
     bind_res (cose_as_map data) (\<lambda>key.
       if \<not> cbor_is (cbor_get key (CInt COSE_KTY)) KTY_EC2 then Inl ValueError
       else if \<not> cbor_is (cbor_get key (CInt COSE_ALG)) COSE_ES256 then Inl ValueError
       else if \<not> cbor_is (cbor_get key (CInt COSE_CRV)) CRV_P256 then Inl ValueError
       else case cbor_get key (CInt COSE_X) of
         CBytes x \<Rightarrow>
           (if length x \<noteq> 32 then Inl ValueError
            else case cbor_get key (CInt COSE_Y) of
              CBytes y \<Rightarrow>
                (if length y \<noteq> 32 then Inl ValueError
                 else (let point = \<lparr>pt_xy = Some (bytes_to_int x, bytes_to_int y), pt_curve = SECP256R1\<rparr>
                       in if is_on_curve point then Inr point else Inl ValueError))
            | _ \<Rightarrow> Inl ValueError)
       | _ \<Rightarrow> Inl ValueError)"

definition cose_decode_okp :: "cbor \<Rightarrow> py_error + byte list" where
  "cose_decode_okp data =
     bind_res (cose_as_map data) (\<lambda>key.
       if \<not> cbor_is (cbor_get key (CInt COSE_KTY)) KTY_OKP then Inl ValueError
       else if \<not> cbor_is (cbor_get key (CInt COSE_ALG)) COSE_EDDSA then Inl ValueError
       else if \<not> cbor_is (cbor_get key (CInt COSE_CRV)) CRV_ED25519 then Inl ValueError
       else case cbor_get key (CInt COSE_X) of
         CBytes x \<Rightarrow> if length x \<noteq> 32 then Inl ValueError else ed_public_key x
       | _ \<Rightarrow> Inl ValueError)"

definition cose_decode_public_key :: "cbor \<Rightarrow> py_error + cose_key" where
  "cose_decode_public_key data =
     bind_res (cose_as_map data) (\<lambda>key.
       let kty = cbor_get key (CInt COSE_KTY) in
       if cbor_is kty KTY_EC2 then map_sum id EcKey (cose_decode_ec2 (CMap key))
       else if cbor_is kty KTY_OKP then map_sum id EdKey (cose_decode_okp (CMap key))
       else Inl ValueError)"

definition cose_algorithm_of :: "cbor \<Rightarrow> py_error + int" where
  "cose_algorithm_of data =
     bind_res (cose_as_map data) (\<lambda>key.
       case key_norm (cbor_get key (CInt COSE_ALG)) of
         CInt alg \<Rightarrow> if alg \<in> set SUPPORTED_ALGORITHMS then Inr alg else Inl ValueError
       | _ \<Rightarrow> Inl ValueError)"

section \<open>Keys come back\<close>

text \<open>A key that can be stored: a finite point of P-256, or the bytes of a valid Ed25519 key.\<close>

definition storable :: "cose_key \<Rightarrow> bool" where
  "storable k \<longleftrightarrow>
     (case k of EcKey pt \<Rightarrow> pt_curve pt = SECP256R1 \<and> pt_xy pt \<noteq> None \<and> is_on_curve pt
      | EdKey raw \<Rightarrow> ed_public_key raw = Inr raw)"

definition cose_encode :: "cose_key \<Rightarrow> py_error + byte list" where
  "cose_encode k =
     (case k of EcKey pt \<Rightarrow> cose_encode_ec2 pt COSE_ES256 | EdKey raw \<Rightarrow> cose_encode_okp raw COSE_EDDSA)"

text \<open>The entries of a key in the order of their encodings.\<close>

fun cose_map :: "cose_key \<Rightarrow> (cbor \<times> cbor) list" where
  "cose_map (EcKey pt) =
     (case pt_xy pt of
        None \<Rightarrow> []
      | Some (x, y) \<Rightarrow>
          [(CInt COSE_KTY, CInt KTY_EC2), (CInt COSE_ALG, CInt COSE_ES256), (CInt COSE_CRV, CInt CRV_P256),
           (CInt COSE_X, CBytes (nat_be 32 (nat x))), (CInt COSE_Y, CBytes (nat_be 32 (nat y)))])"
| "cose_map (EdKey raw) =
     [(CInt COSE_KTY, CInt KTY_OKP), (CInt COSE_ALG, CInt COSE_EDDSA), (CInt COSE_CRV, CInt CRV_ED25519),
      (CInt COSE_X, CBytes raw)]"

lemma storable_point:
  assumes "storable (EcKey pt)"
  obtains x y where "pt = \<lparr>pt_xy = Some (x, y), pt_curve = SECP256R1\<rparr>" "0 \<le> x" "x < 256 ^ 32" "0 \<le> y" "y < 256 ^ 32"
proof -
  from assms obtain x y where xy: "pt_xy pt = Some (x, y)" "pt_curve pt = SECP256R1" "is_on_curve pt"
    by (auto simp: storable_def)
  have "c_p SECP256R1 < 256 ^ 32" by (simp add: SECP256R1_def)
  with xy have "0 \<le> x" "x < 256 ^ 32" "0 \<le> y" "y < 256 ^ 32"
    by (auto simp: is_on_curve_def Let_def split: if_splits)
  with xy(1,2) that show thesis by (cases pt) auto
qed

lemma storable_ed_length: "storable (EdKey raw) \<Longrightarrow> length raw = 32"
  by (auto simp: storable_def ed_public_key_def split: if_splits)

lemma small_encodings:
  "encoded (CInt 1) = [0x01]" "encoded (CInt 3) = [0x03]"
  "encoded (CInt (- 1)) = [0x20]" "encoded (CInt (- 2)) = [0x21]" "encoded (CInt (- 3)) = [0x22]"
  by (simp_all add: encoded_def encode_head_def Bit_Operations.push_bit_eq_mult)

lemma cose_map_canonical: "canonical (CMap (cose_map k)) = CMap (cose_map k)"
  by (cases k) (auto simp: cose_labels small_encodings canonical_key_def split: option.split)

lemma cose_encode_map:
  assumes "storable k"
  shows "cose_encode k = cbor_encode (CMap (cose_map k))" "valid_cbor (CMap (cose_map k))"
proof -
  show "cose_encode k = cbor_encode (CMap (cose_map k))"
  proof (cases k)
    case (EcKey pt)
    with assms obtain x y where "pt = \<lparr>pt_xy = Some (x, y), pt_curve = SECP256R1\<rparr>" "0 \<le> x" "x < 256 ^ 32"
      "0 \<le> y" "y < 256 ^ 32" by (auto elim: storable_point)
    then show ?thesis
      by (simp add: cose_encode_def EcKey cose_encode_ec2_def int_to_bytes_fixed SECP256R1_def
          del: cbor_encode.simps)
  qed (simp add: cose_encode_def cose_encode_okp_def)
  show "valid_cbor (CMap (cose_map k))"
    using storable_ed_length assms by (cases k) (auto simp: cose_labels split: option.split)
qed

lemma cose_map_decodes:
  assumes "storable k"
  shows "cose_decode_public_key (CMap (cose_map k)) = Inr k"
proof (cases k)
  case (EcKey pt)
  with assms obtain x y where pt: "pt = \<lparr>pt_xy = Some (x, y), pt_curve = SECP256R1\<rparr>" "0 \<le> x" "x < 256 ^ 32"
    "0 \<le> y" "y < 256 ^ 32" by (auto elim: storable_point)
  moreover have "is_on_curve pt" using assms by (simp add: EcKey storable_def)
  ultimately show ?thesis
    by (simp add: EcKey cose_decode_public_key_def cose_as_map_def cbor_get_def cbor_is_def
        cose_decode_ec2_def cose_labels bytes_to_int_nat_be)
next
  case (EdKey raw)
  then show ?thesis using assms storable_ed_length [of raw]
    by (simp add: cose_decode_public_key_def cose_as_map_def cbor_get_def cbor_is_def
        cose_decode_okp_def cose_labels storable_def)
qed

text \<open>Reading is the same on the bytes of a key and on its map.\<close>

lemma cose_decode_bytes:
  assumes "valid_cbor (CMap d)" "canonical (CMap d) = CMap d"
  shows "cose_decode_public_key (CBytes (encoded (CMap d))) = cose_decode_public_key (CMap d)"
  using cbor_prefix_roundtrip(3) [OF assms(1)] assms(2)
  by (simp add: cose_decode_public_key_def cose_as_map_def)

lemma cose_key_read:
  assumes "storable k"
  shows "\<exists>bs. cose_encode k = Inr bs \<and> cose_decode_public_key (CBytes bs) = Inr k"
  using cose_encode_map [OF assms] cbor_prefix_roundtrip(1) [OF cose_encode_map(2) [OF assms]]
    cose_decode_bytes [OF cose_encode_map(2) [OF assms] cose_map_canonical] cose_map_decodes [OF assms]
  by simp

interpretation cose_keys: codec "\<lambda>k. encoded (CMap (cose_map k))" "\<lambda>bs. cose_decode_public_key (CBytes bs)" storable
  by unfold_locales (simp add: cose_decode_bytes [OF cose_encode_map(2) cose_map_canonical] cose_map_decodes)

text \<open>A decoded key can be stored, and its type is the one its \<open>kty\<close> names.\<close>

lemma ec2_storable: "cose_decode_ec2 data = Inr pt \<Longrightarrow> storable (EcKey pt)"
  by (auto simp: cose_decode_ec2_def Let_def storable_def split: if_splits cbor.splits elim!: bind_res_InrE)

lemma okp_storable: "cose_decode_okp data = Inr raw \<Longrightarrow> storable (EdKey raw)"
  by (auto simp: cose_decode_okp_def storable_def ed_public_key_def
      split: if_splits cbor.splits option.splits elim!: bind_res_InrE)

lemma cose_decode_storable: "cose_decode_public_key data = Inr k \<Longrightarrow> storable k"
  by (auto simp: cose_decode_public_key_def Let_def map_sum_Inr_iff ec2_storable okp_storable
      split: if_splits elim!: bind_res_InrE)

end
