(* ===== verification/WebAuthn.thy ===== *)
theory WebAuthn
  imports Cose Json Exn Rsa
begin

text \<open>
  \<open>webauthn/relying_party.py\<close> and \<open>webauthn/authenticator.py\<close>.  The relying party is the record
  \<open>relying_party\<close>: its clock and random source are fields, and its dictionaries are association
  lists.  A stored credential is found and updated in place, as the code mutates the object it has
  found.  The response of a browser is a dictionary of byte strings.
\<close>

unbundle bit_operations_syntax

section \<open>Authenticator data\<close>

definition FLAG_UP :: byte where "FLAG_UP = 0x01"
definition FLAG_UV :: byte where "FLAG_UV = 0x04"
definition FLAG_BE :: byte where "FLAG_BE = 0x08"
definition FLAG_BS :: byte where "FLAG_BS = 0x10"
definition FLAG_AT :: byte where "FLAG_AT = 0x40"

lemmas flag_defs = FLAG_UP_def FLAG_UV_def FLAG_BE_def FLAG_BS_def FLAG_AT_def

record auth_data =
  ad_rp_id_hash :: "byte list"
  ad_flags :: byte
  ad_sign_count :: nat
  ad_aaguid :: "byte list"
  ad_credential_id :: "byte list"
  ad_cose_key :: "byte list"

definition user_present :: "auth_data \<Rightarrow> bool" where
  "user_present p \<longleftrightarrow> ad_flags p AND FLAG_UP \<noteq> 0"

definition user_verified :: "auth_data \<Rightarrow> bool" where
  "user_verified p \<longleftrightarrow> ad_flags p AND FLAG_UV \<noteq> 0"

definition has_attested_credential :: "auth_data \<Rightarrow> bool" where
  "has_attested_credential p \<longleftrightarrow> ad_flags p AND FLAG_AT \<noteq> 0"

definition backup_eligible :: "auth_data \<Rightarrow> bool" where
  "backup_eligible p \<longleftrightarrow> ad_flags p AND FLAG_BE \<noteq> 0"

definition backup_state :: "auth_data \<Rightarrow> bool" where
  "backup_state p \<longleftrightarrow> ad_flags p AND FLAG_BS \<noteq> 0"

definition parse_authenticator_data :: "byte list \<Rightarrow> exn + auth_data" where
  "parse_authenticator_data data =
     (if length data < 37 then Inl WebAuthnError
      else (let parsed = \<lparr>ad_rp_id_hash = take 32 data, ad_flags = data ! 32,
                ad_sign_count = be_nat (take 4 (drop 33 data)),
                ad_aaguid = [], ad_credential_id = [], ad_cose_key = []\<rparr> in
        if \<not> has_attested_credential parsed then Inr parsed
        else if length data < 55 then Inl WebAuthnError
        else (let n = be_nat (take 2 (drop 53 data)) in
          if length data < 55 + n then Inl WebAuthnError
          else Inr (parsed\<lparr>ad_aaguid := take 16 (drop 37 data),
                 ad_credential_id := take n (drop 55 data), ad_cose_key := drop (55 + n) data\<rparr>))))"

text \<open>
  The \<open>authData\<close> of an attestation object can be any CBOR value; only bytes get past the first two
  steps.  Slicing a dictionary raises an exception that depends on the version of Python.
\<close>

definition parse_attested :: "cbor \<Rightarrow> exn + auth_data" where
  "parse_attested v =
     (case v of
        CBytes data \<Rightarrow> parse_authenticator_data data
      | CText s \<Rightarrow> if length s < 37 then Inl WebAuthnError else Inl (Py TypeError)
      | CList xs \<Rightarrow> if length xs < 37 then Inl WebAuthnError else Inl (Py TypeError)
      | CMap d \<Rightarrow> if length d < 37 then Inl WebAuthnError else Inl (Py Unmodelled)
      | _ \<Rightarrow> Inl (Py TypeError))"

section \<open>The relying party\<close>

record registered_credential =
  rg_credential_id :: "byte list"
  rg_public_key :: cose_key
  rg_user_handle :: "byte list"
  rg_sign_count :: nat
  rg_aaguid :: "byte list"
  rg_backup_eligible :: bool
  rg_backup_state :: bool
  rg_transports :: "string list"

definition rg_algorithm :: "registered_credential \<Rightarrow> int" where
  "rg_algorithm r = (case rg_public_key r of EdKey _ \<Rightarrow> COSE_EDDSA | EcKey _ \<Rightarrow> COSE_ES256)"

record relying_party =
  wp_rp_id :: string
  wp_origins :: "string list"
  wp_rp_name :: string
  wp_now :: int
  wp_require_uv :: bool
  wp_challenge_ttl :: int
  wp_credentials :: "(byte list, registered_credential list) dict"
  wp_pending :: "(string, byte list \<times> int \<times> string) dict"
  wp_rng :: rng

type_synonym 'a wp_op = "(relying_party, 'a) op"

definition wp_records :: "relying_party \<Rightarrow> registered_credential list" where
  "wp_records rp = concat (dvalues (wp_credentials rp))"

text \<open>A response of the browser; \<open>response[\<dots>]\<close> raises a \<open>KeyError\<close> when the member is missing.\<close>

record webauthn_credential =
  wc_raw_id :: "byte list option"
  wc_response :: "(string, byte list) dict option"

definition wc_dict :: "webauthn_credential \<Rightarrow> exn + (string, byte list) dict" where
  "wc_dict c = (case wc_response c of None \<Rightarrow> Inl (Py KeyError) | Some d \<Rightarrow> Inr d)"

definition wc_item :: "(string, byte list) dict \<Rightarrow> string \<Rightarrow> exn + byte list" where
  "wc_item d k = (case dget d k of None \<Rightarrow> Inl (Py KeyError) | Some b \<Rightarrow> Inr b)"

definition verify_credential_signature :: "cose_key \<Rightarrow> byte list \<Rightarrow> byte list \<Rightarrow> exn + bool" where
  "verify_credential_signature key message signature =
     (case key of
        EdKey raw \<Rightarrow> py (ed25519_verify raw message signature)
      | EcKey pt \<Rightarrow>
          bind_res (catch_all WebAuthnError (py (signature_from_der signature))) (\<lambda>parsed.
            py (ecdsa_verify pt message parsed (c_hash_name (pt_curve pt)))))"

subsection \<open>Challenges and options\<close>

definition wp_create_challenge :: "string \<Rightarrow> string \<Rightarrow> byte list wp_op" where
  "wp_create_challenge session_id ceremony rp =
     (case random_bytes 32 (wp_rng rp) of (challenge, g) \<Rightarrow>
        (Inr challenge,
         rp\<lparr>wp_rng := g, wp_pending := dset session_id (challenge, wp_now rp, ceremony) (wp_pending rp)\<rparr>))"

definition take_challenge :: "string \<Rightarrow> string \<Rightarrow> byte list wp_op" where
  "take_challenge session_id ceremony rp =
     (case dget (wp_pending rp) session_id of
        None \<Rightarrow> (Inl WebAuthnError, rp)
      | Some (challenge, issued_at, expected) \<Rightarrow>
          (if expected \<noteq> ceremony then Inl WebAuthnError
           else if wp_now rp - issued_at > wp_challenge_ttl rp then Inl WebAuthnError
           else Inr challenge,
           rp\<lparr>wp_pending := ddel session_id (wp_pending rp)\<rparr>))"

definition credential_descriptors :: "registered_credential list \<Rightarrow> pyval" where
  "credential_descriptors rs =
     PList (map (\<lambda>c. PDict [(''type'', PStr ''public-key''), (''id'', PStr (b64u_encode (rg_credential_id c)))]) rs)"

definition user_credentials :: "byte list \<Rightarrow> relying_party \<Rightarrow> registered_credential list" where
  "user_credentials user rp = (case dget (wp_credentials rp) user of None \<Rightarrow> [] | Some rs \<Rightarrow> rs)"

definition uv_option :: "relying_party \<Rightarrow> pyval" where
  "uv_option rp = PStr (if wp_require_uv rp then ''required'' else ''preferred'')"

definition registration_options :: "string \<Rightarrow> byte list \<Rightarrow> string \<Rightarrow> pydict wp_op" where
  "registration_options session_id user username =
     bindM (wp_create_challenge session_id ''webauthn.create'') (\<lambda>challenge.
       gets (\<lambda>rp.
         [(''rp'', PDict [(''id'', PStr (wp_rp_id rp)), (''name'', PStr (wp_rp_name rp))]),
          (''user'', PDict [(''id'', PStr (b64u_encode user)), (''name'', PStr username), (''displayName'', PStr username)]),
          (''challenge'', PStr (b64u_encode challenge)),
          (''pubKeyCredParams'',
            PList (map (\<lambda>alg. PDict [(''type'', PStr ''public-key''), (''alg'', PInt alg)]) SUPPORTED_ALGORITHMS)),
          (''timeout'', PInt (wp_challenge_ttl rp * 1000)),
          (''attestation'', PStr ''none''),
          (''authenticatorSelection'',
            PDict [(''userVerification'', uv_option rp), (''residentKey'', PStr ''preferred'')]),
          (''excludeCredentials'', credential_descriptors (user_credentials user rp))]))"

definition authentication_options :: "string \<Rightarrow> byte list option \<Rightarrow> pydict wp_op" where
  "authentication_options session_id user =
     bindM (wp_create_challenge session_id ''webauthn.get'') (\<lambda>challenge.
       gets (\<lambda>rp.
         [(''challenge'', PStr (b64u_encode challenge)), (''rpId'', PStr (wp_rp_id rp)),
          (''timeout'', PInt (wp_challenge_ttl rp * 1000)), (''userVerification'', uv_option rp)] @
         (case user of
            None \<Rightarrow> []
          | Some u \<Rightarrow> [(''allowCredentials'', credential_descriptors (user_credentials u rp))])))"

subsection \<open>Checks of both ceremonies\<close>

definition challenge_bytes :: "pyval \<Rightarrow> py_error + byte list" where
  "challenge_bytes v = (case v of PStr s \<Rightarrow> b64u_decode s | _ \<Rightarrow> Inl TypeError)"

definition verify_client_data :: "relying_party \<Rightarrow> byte list \<Rightarrow> string \<Rightarrow> byte list \<Rightarrow> exn + pydict" where
  "verify_client_data rp client_data_json expected_type expected_challenge =
     bind_res (catch_all WebAuthnError (py (bind_res (utf8_decode client_data_json) json_loads))) (\<lambda>loaded.
     bind_res (py (as_dict loaded)) (\<lambda>client_data.
       if pget client_data ''type'' \<noteq> PStr expected_type then Inl WebAuthnError
       else bind_res (catch_all WebAuthnError (py (challenge_bytes
              (case dget client_data ''challenge'' of None \<Rightarrow> PStr [] | Some v \<Rightarrow> v)))) (\<lambda>received.
         if received \<noteq> expected_challenge then Inl WebAuthnError
         else if \<not> (case dget client_data ''origin'' of
                      None \<Rightarrow> [] \<in> set (wp_origins rp)
                    | Some (PStr origin) \<Rightarrow> origin \<in> set (wp_origins rp)
                    | Some _ \<Rightarrow> False) then Inl WebAuthnError
         else if truthy (pget client_data ''crossOrigin'') then Inl WebAuthnError
         else Inr client_data)))"

definition verify_rp_id_hash :: "relying_party \<Rightarrow> auth_data \<Rightarrow> exn + unit" where
  "verify_rp_id_hash rp parsed =
     (if ad_rp_id_hash parsed = sha256 (utf8_encode (wp_rp_id rp)) then Inr () else Inl WebAuthnError)"

definition verify_flags :: "relying_party \<Rightarrow> auth_data \<Rightarrow> exn + unit" where
  "verify_flags rp parsed =
     (if \<not> user_present parsed then Inl WebAuthnError
      else if wp_require_uv rp \<and> \<not> user_verified parsed then Inl WebAuthnError
      else Inr ())"

subsection \<open>Registration\<close>

text \<open>\<open>name in attestation\<close> and \<open>attestation[name]\<close> on a decoded value that may not be a dictionary.\<close>

definition cbor_member :: "cbor \<Rightarrow> string \<Rightarrow> py_error + bool" where
  "cbor_member v name =
     (case v of
        CMap d \<Rightarrow> Inr (cbor_has_key d (CText name))
      | CText t \<Rightarrow> Inr (sublist name t)
      | CList xs \<Rightarrow> Inr (CText name \<in> set xs)
      | _ \<Rightarrow> Inl TypeError)"

definition cbor_item :: "cbor \<Rightarrow> string \<Rightarrow> py_error + cbor" where
  "cbor_item v name =
     (case v of
        CMap d \<Rightarrow> if cbor_has_key d (CText name) then Inr (cbor_get d (CText name)) else Inl KeyError
      | _ \<Rightarrow> Inl TypeError)"

definition require_members :: "cbor \<Rightarrow> exn + unit" where
  "require_members attestation =
     fold_res (\<lambda>name _. bind_res (py (cbor_member attestation name)) (\<lambda>b. if b then Inr () else Inl WebAuthnError))
       [''fmt'', ''attStmt'', ''authData''] ()"

definition verify_packed_attestation :: "cbor \<Rightarrow> byte list \<Rightarrow> byte list \<Rightarrow> cose_key \<Rightarrow> exn + unit" where
  "verify_packed_attestation statement auth_bytes client_data_json key =
     bind_res (py (cbor_member statement ''x5c'')) (\<lambda>x5c.
       if x5c then Inl WebAuthnError
       else case statement of
         CMap d \<Rightarrow>
           (if \<not> cbor_is (cbor_get d (CText ''alg''))
                 (case key of EdKey _ \<Rightarrow> COSE_EDDSA | EcKey _ \<Rightarrow> COSE_ES256) then Inl WebAuthnError
            else bind_res (py (cbor_item statement ''sig'')) (\<lambda>sg.
              case sg of
                CBytes signature \<Rightarrow>
                  bind_res (verify_credential_signature key (auth_bytes @ sha256 client_data_json) signature)
                    (\<lambda>ok. if ok then Inr () else Inl WebAuthnError)
              | _ \<Rightarrow> Inl (Py Unmodelled)))
       | _ \<Rightarrow> Inl (Py AttributeError))"

text \<open>The identifier is registered already, to this user or to another one.\<close>

definition claimed :: "byte list \<Rightarrow> byte list \<Rightarrow> relying_party \<Rightarrow> bool" where
  "claimed user i rp \<longleftrightarrow>
     (\<exists>r \<in> set (user_credentials user rp). rg_credential_id r = i) \<or>
     (\<exists>(handle, rs) \<in> set (wp_credentials rp). \<exists>r \<in> set rs. rg_credential_id r = i \<and> handle \<noteq> user)"

text \<open>What follows the challenge does not change the state until the record is stored.\<close>

definition check_registration ::
  "relying_party \<Rightarrow> webauthn_credential \<Rightarrow> byte list \<Rightarrow> byte list \<Rightarrow> exn + registered_credential" where
  "check_registration rp credential user challenge =
     bind_res (wc_dict credential) (\<lambda>response.
     bind_res (wc_item response ''clientDataJSON'') (\<lambda>client_data_json.
     bind_res (verify_client_data rp client_data_json ''webauthn.create'' challenge) (\<lambda>_.
     bind_res (catch_all WebAuthnError
       (bind_res (wc_item response ''attestationObject'') (\<lambda>b. py (cbor_decode b)))) (\<lambda>attestation.
     bind_res (require_members attestation) (\<lambda>_.
     bind_res (py (cbor_item attestation ''authData'')) (\<lambda>auth_value.
     bind_res (parse_attested auth_value) (\<lambda>parsed.
     bind_res (verify_rp_id_hash rp parsed) (\<lambda>_.
     bind_res (verify_flags rp parsed) (\<lambda>_.
       if \<not> has_attested_credential parsed then Inl WebAuthnError
       else bind_res (case cose_decode_public_key (CBytes (ad_cose_key parsed)) of
              Inl e \<Rightarrow> Inl (if is_value_error e then WebAuthnError else Py e) | Inr k \<Rightarrow> Inr k) (\<lambda>key.
       if wc_raw_id credential \<noteq> Some (ad_credential_id parsed) then Inl WebAuthnError
       else if claimed user (ad_credential_id parsed) rp then Inl WebAuthnError
       else bind_res (py (cbor_item attestation ''fmt'')) (\<lambda>fmt.
         bind_res
           (if fmt = CText ''packed'' then
              bind_res (py (cbor_item attestation ''attStmt'')) (\<lambda>statement.
                case auth_value of
                  CBytes auth_bytes \<Rightarrow> verify_packed_attestation statement auth_bytes client_data_json key
                | _ \<Rightarrow> Inl (Py TypeError))
            else if fmt \<noteq> CText ''none'' then Inl WebAuthnError else Inr ()) (\<lambda>_.
         Inr \<lparr>rg_credential_id = ad_credential_id parsed, rg_public_key = key, rg_user_handle = user,
              rg_sign_count = ad_sign_count parsed, rg_aaguid = ad_aaguid parsed,
              rg_backup_eligible = backup_eligible parsed, rg_backup_state = backup_state parsed,
              rg_transports = []\<rparr>))))))))))))"

definition store_credential :: "registered_credential \<Rightarrow> relying_party \<Rightarrow> relying_party" where
  "store_credential r rp =
     rp\<lparr>wp_credentials := dset (rg_user_handle r) (user_credentials (rg_user_handle r) rp @ [r]) (wp_credentials rp)\<rparr>"

definition verify_registration ::
  "string \<Rightarrow> webauthn_credential \<Rightarrow> byte list \<Rightarrow> registered_credential wp_op" where
  "verify_registration session_id credential user =
     bindM (take_challenge session_id ''webauthn.create'') (\<lambda>challenge.
     bindM (gets (\<lambda>rp. check_registration rp credential user challenge)) (\<lambda>checked.
     bindM (lift checked) (\<lambda>record.
     bindM (modify (store_credential record)) (\<lambda>_. ret record))))"

subsection \<open>Authentication\<close>

definition find_credential :: "byte list option \<Rightarrow> relying_party \<Rightarrow> registered_credential option" where
  "find_credential credential_id rp =
     (case credential_id of
        None \<Rightarrow> None
      | Some [] \<Rightarrow> None
      | Some i \<Rightarrow> find (\<lambda>r. rg_credential_id r = i) (wp_records rp))"

definition check_sign_count :: "registered_credential \<Rightarrow> auth_data \<Rightarrow> exn + nat" where
  "check_sign_count record parsed =
     (if rg_sign_count record = 0 \<and> ad_sign_count parsed = 0 then Inr 0
      else if ad_sign_count parsed \<le> rg_sign_count record then Inl WebAuthnError
      else Inr (ad_sign_count parsed))"

definition advance_credential :: "registered_credential \<Rightarrow> auth_data \<Rightarrow> exn + registered_credential" where
  "advance_credential record parsed =
     bind_res (check_sign_count record parsed) (\<lambda>count.
       Inr (record\<lparr>rg_sign_count := count, rg_backup_state := backup_state parsed\<rparr>))"

text \<open>Changing the first record with an identifier, the object that was found.\<close>

fun update_first :: "('a \<Rightarrow> bool) \<Rightarrow> ('a \<Rightarrow> 'a) \<Rightarrow> 'a list \<Rightarrow> 'a list" where
  "update_first p f [] = []"
| "update_first p f (x # xs) = (if p x then f x # xs else x # update_first p f xs)"

fun update_found :: "('a \<Rightarrow> bool) \<Rightarrow> ('a \<Rightarrow> 'a) \<Rightarrow> ('k, 'a list) dict \<Rightarrow> ('k, 'a list) dict" where
  "update_found p f [] = []"
| "update_found p f ((k, xs) # d) =
     (if list_ex p xs then (k, update_first p f xs) # d else (k, xs) # update_found p f d)"

definition check_assertion ::
  "relying_party \<Rightarrow> webauthn_credential \<Rightarrow> byte list \<Rightarrow> exn + registered_credential" where
  "check_assertion rp assertion challenge =
     bind_res (wc_dict assertion) (\<lambda>response.
     bind_res (wc_item response ''clientDataJSON'') (\<lambda>client_data_json.
     bind_res (verify_client_data rp client_data_json ''webauthn.get'' challenge) (\<lambda>_.
       case find_credential (wc_raw_id assertion) rp of
         None \<Rightarrow> Inl WebAuthnError
       | Some record \<Rightarrow>
           if (case dget response ''userHandle'' of None \<Rightarrow> False
               | Some h \<Rightarrow> h \<noteq> [] \<and> h \<noteq> rg_user_handle record) then Inl WebAuthnError
           else bind_res (wc_item response ''authenticatorData'') (\<lambda>auth_bytes.
             bind_res (parse_authenticator_data auth_bytes) (\<lambda>parsed.
             bind_res (verify_rp_id_hash rp parsed) (\<lambda>_.
             bind_res (verify_flags rp parsed) (\<lambda>_.
             bind_res (wc_item response ''signature'') (\<lambda>signature.
             bind_res (verify_credential_signature (rg_public_key record)
                 (auth_bytes @ sha256 client_data_json) signature) (\<lambda>ok.
               if \<not> ok then Inl WebAuthnError
               else advance_credential record parsed))))))))) "

definition update_credential :: "registered_credential \<Rightarrow> relying_party \<Rightarrow> relying_party" where
  "update_credential r rp =
     rp\<lparr>wp_credentials := update_found (\<lambda>x. rg_credential_id x = rg_credential_id r) (\<lambda>_. r) (wp_credentials rp)\<rparr>"

definition verify_authentication :: "string \<Rightarrow> webauthn_credential \<Rightarrow> registered_credential wp_op" where
  "verify_authentication session_id assertion =
     bindM (take_challenge session_id ''webauthn.get'') (\<lambda>challenge.
     bindM (gets (\<lambda>rp. check_assertion rp assertion challenge)) (\<lambda>checked.
     bindM (lift checked) (\<lambda>record.
     bindM (modify (update_credential record)) (\<lambda>_. ret record))))"

end
