(* ===== verification/Authenticator.thy ===== *)
theory Authenticator
  imports WebAuthn
begin

text \<open>
  \<open>webauthn/authenticator.py\<close>: the virtual authenticator as a record with its own random source.
  \<open>make_credential\<close> and \<open>get_assertion\<close> are the two ceremonies (of their result, the members \<open>id\<close>
  and \<open>type\<close>, which the relying party does not read, are left out); the key pair generators of \<open>ec.py\<close>
  and \<open>ed25519.py\<close> that they call are here too.
\<close>

unbundle bit_operations_syntax

section \<open>Keys\<close>

datatype credential_key = EcPriv ec_private | EdPriv "byte list"

definition generate_ec_keypair :: "curve \<Rightarrow> rng \<Rightarrow> (py_error + ec_private) \<times> rng" where
  "generate_ec_keypair c g =
     (case randbelow (nat (c_n c - 1)) g of
        None \<Rightarrow> (Inl Diverges, g)
      | Some (r, g') \<Rightarrow> (Inr \<lparr>ec_d = int r + 1, ec_curve = c\<rparr>, g'))"

definition generate_ed25519_keypair :: "rng \<Rightarrow> (py_error + byte list) \<times> rng" where
  "generate_ed25519_keypair g = (case random_bytes 32 g of (seed, g') \<Rightarrow> (ed_private_key seed, g'))"

definition credential_public :: "credential_key \<Rightarrow> py_error + cose_key" where
  "credential_public k =
     (case k of EdPriv seed \<Rightarrow> map_sum id EdKey (ed_public_of seed)
      | EcPriv key \<Rightarrow> map_sum id EcKey (ec_public_of key))"

definition credential_signature :: "credential_key \<Rightarrow> byte list \<Rightarrow> py_error + byte list" where
  "credential_signature k message =
     (case k of
        EdPriv seed \<Rightarrow> ed25519_sign seed message
      | EcPriv key \<Rightarrow> bind_res (ecdsa_sign key message (c_hash_name (ec_curve key))) signature_to_der)"

section \<open>The authenticator\<close>

definition LAB_AAGUID :: "byte list" where
  "LAB_AAGUID = take 16 (map of_char ''lab-authenticator'')"

record stored_credential =
  sc_credential_id :: "byte list"
  sc_private_key :: credential_key
  sc_rp_id :: string
  sc_user_handle :: "byte list"
  sc_sign_count :: nat
  sc_algorithm :: int

record authenticator =
  va_credentials :: "(byte list, stored_credential) dict"
  va_supports_uv :: bool
  va_is_platform_passkey :: bool
  va_algorithm :: int
  va_rng :: rng

type_synonym 'a va_op = "(authenticator, 'a) op"

text \<open>\<open>struct.pack(">I", n)\<close>.\<close>

definition pack_u32 :: "int \<Rightarrow> py_error + byte list" where
  "pack_u32 n = (if 0 \<le> n \<and> n < 2 ^ 32 then Inr (nat_be 4 (nat n)) else Inl StructError)"

definition authenticator_data :: "string \<Rightarrow> byte \<Rightarrow> int \<Rightarrow> byte list \<Rightarrow> py_error + byte list" where
  "authenticator_data rp_id flags sign_count attested =
     bind_res (pack_u32 sign_count) (\<lambda>count.
       Inr (sha256 (utf8_encode rp_id) @ [flags] @ count @ attested))"

definition client_data :: "string \<Rightarrow> byte list \<Rightarrow> string \<Rightarrow> pyval" where
  "client_data typ_name challenge origin =
     PDict [(''type'', PStr typ_name), (''challenge'', PStr (b64u_encode challenge)),
            (''origin'', PStr origin), (''crossOrigin'', PBool False)]"

definition ceremony_flags :: "authenticator \<Rightarrow> byte \<Rightarrow> bool \<Rightarrow> byte" where
  "ceremony_flags va base uv =
     base OR (if uv \<and> va_supports_uv va then FLAG_UV else 0)
          OR (if va_is_platform_passkey va then FLAG_BE OR FLAG_BS else 0)"

definition draw_key :: "credential_key va_op" where
  "draw_key va =
     (if va_algorithm va = COSE_EDDSA
      then (case generate_ed25519_keypair (va_rng va) of (r, g) \<Rightarrow> (py (map_sum id EdPriv r), va\<lparr>va_rng := g\<rparr>))
      else if va_algorithm va = COSE_ES256
      then (case generate_ec_keypair SECP256R1 (va_rng va) of (r, g) \<Rightarrow> (py (map_sum id EcPriv r), va\<lparr>va_rng := g\<rparr>))
      else (Inl (Py ValueError), va))"

definition draw_credential_id :: "byte list va_op" where
  "draw_credential_id va = (case random_bytes 32 (va_rng va) of (i, g) \<Rightarrow> (Inr i, va\<lparr>va_rng := g\<rparr>))"

text \<open>\<open>cose_encode_okp\<close> or \<open>cose_encode_ec2\<close> of the public key, with their default algorithms.\<close>

definition encode_public :: "credential_key \<Rightarrow> py_error + byte list" where
  "encode_public k = bind_res (credential_public k) cose_encode"

definition attested_data :: "byte list \<Rightarrow> byte list \<Rightarrow> byte list" where
  "attested_data credential_id cose = LAB_AAGUID @ nat_be 2 (length credential_id) @ credential_id @ cose"

definition attestation_statement ::
  "string \<Rightarrow> int \<Rightarrow> credential_key \<Rightarrow> byte list \<Rightarrow> py_error + string \<times> cbor" where
  "attestation_statement attestation alg k message =
     (if attestation = ''packed''
      then bind_res (credential_signature k message) (\<lambda>sg.
             Inr (''packed'', CMap [(CText ''alg'', CInt alg), (CText ''sig'', CBytes sg)]))
      else Inr (''none'', CMap []))"

definition make_credential ::
  "string \<Rightarrow> string \<Rightarrow> byte list \<Rightarrow> byte list \<Rightarrow> bool \<Rightarrow> string \<Rightarrow> webauthn_credential va_op" where
  "make_credential rp_id origin challenge user uv attestation =
     bindM draw_key (\<lambda>key.
     bindM draw_credential_id (\<lambda>credential_id.
     bindM (gets id) (\<lambda>va.
     let client_data_json = json_compact (client_data ''webauthn.create'' challenge origin);
         flags = ceremony_flags va (FLAG_UP OR FLAG_AT) uv in
     bindM (lift (py (encode_public key))) (\<lambda>cose.
     bindM (lift (py (authenticator_data rp_id flags 0 (attested_data credential_id cose)))) (\<lambda>auth.
     bindM (lift (py (attestation_statement attestation (va_algorithm va) key (auth @ sha256 client_data_json)))) (\<lambda>(fmt, stmt).
     bindM (lift (py (cbor_encode (CMap [(CText ''fmt'', CText fmt), (CText ''attStmt'', stmt), (CText ''authData'', CBytes auth)])))) (\<lambda>obj.
     bindM (modify (\<lambda>va. va\<lparr>va_credentials := dset credential_id
         \<lparr>sc_credential_id = credential_id, sc_private_key = key, sc_rp_id = rp_id, sc_user_handle = user,
          sc_sign_count = 0, sc_algorithm = va_algorithm va\<rparr> (va_credentials va)\<rparr>)) (\<lambda>_.
     ret \<lparr>wc_raw_id = Some credential_id,
          wc_response = Some [(''clientDataJSON'', client_data_json), (''attestationObject'', obj)]\<rparr>))))))))"

definition assertion_candidates :: "string \<Rightarrow> byte list option \<Rightarrow> authenticator \<Rightarrow> stored_credential list" where
  "assertion_candidates rp_id credential_id va =
     filter (\<lambda>c. sc_rp_id c = rp_id \<and> (credential_id = None \<or> credential_id = Some (sc_credential_id c)))
       (dvalues (va_credentials va))"

text \<open>
  The counter of the credential is advanced before the data is packed and signed, so it stays
  advanced when that fails.  The dictionary is keyed by the identifier of its credentials.
\<close>

definition next_count :: "stored_credential \<Rightarrow> int option \<Rightarrow> int va_op" where
  "next_count c override va =
     (let va' = (if va_is_platform_passkey va then va
                 else va\<lparr>va_credentials := dupd (sc_credential_id c) (\<lambda>x. x\<lparr>sc_sign_count := Suc (sc_sign_count x)\<rparr>)
                        (va_credentials va)\<rparr>);
          count = (if va_is_platform_passkey va then 0 else int (sc_sign_count c) + 1)
      in (Inr (case override of Some n \<Rightarrow> n | None \<Rightarrow> count), va'))"

definition get_assertion ::
  "string \<Rightarrow> string \<Rightarrow> byte list \<Rightarrow> byte list option \<Rightarrow> bool \<Rightarrow> int option \<Rightarrow> webauthn_credential va_op" where
  "get_assertion rp_id origin challenge credential_id uv override =
     bindM (gets (assertion_candidates rp_id credential_id)) (\<lambda>candidates.
       case candidates of
         [] \<Rightarrow> raise (Py ValueError)
       | credential # _ \<Rightarrow>
           bindM (gets (\<lambda>va. ceremony_flags va FLAG_UP uv)) (\<lambda>flags.
           bindM (next_count credential override) (\<lambda>count.
           bindM (lift (py (authenticator_data rp_id flags count []))) (\<lambda>auth.
           let client_data_json = json_compact (client_data ''webauthn.get'' challenge origin) in
           bindM (lift (py (credential_signature (sc_private_key credential) (auth @ sha256 client_data_json)))) (\<lambda>sg.
           ret \<lparr>wc_raw_id = Some (sc_credential_id credential),
                wc_response = Some [(''clientDataJSON'', client_data_json), (''authenticatorData'', auth),
                  (''signature'', sg), (''userHandle'', sc_user_handle credential)]\<rparr>)))))"

end
