(* ===== verification/Passkeys.thy ===== *)
theory Passkeys
  imports Authenticator
begin

text \<open>
  Properties of the passkey ceremonies of \<open>WebAuthn\<close> and \<open>Authenticator\<close>: over every sequence of
  operations of a relying party a challenge is spent by the first attempt to use it, the counters of
  a credential advance, and a credential belongs to one user; and what the authenticator produces is
  accepted exactly where it was made for.
\<close>

section \<open>Runs of a relying party\<close>

datatype wp_step =
    CreateChallenge string string
  | RegistrationOptions string "byte list" string
  | AuthenticationOptions string "byte list option"
  | Register string webauthn_credential "byte list"
  | Authenticate string webauthn_credential
  | ClockMoves int

definition wp_exec :: "wp_step \<Rightarrow> relying_party \<Rightarrow> relying_party" where
  "wp_exec st rp =
     (case st of
        CreateChallenge sid c \<Rightarrow> snd (wp_create_challenge sid c rp)
      | RegistrationOptions sid u n \<Rightarrow> snd (registration_options sid u n rp)
      | AuthenticationOptions sid u \<Rightarrow> snd (authentication_options sid u rp)
      | Register sid c u \<Rightarrow> snd (verify_registration sid c u rp)
      | Authenticate sid a \<Rightarrow> snd (verify_authentication sid a rp)
      | ClockMoves t \<Rightarrow> rp\<lparr>wp_now := t\<rparr>)"

definition wp_run :: "wp_step list \<Rightarrow> relying_party \<Rightarrow> relying_party" where
  "wp_run steps rp = fold wp_exec steps rp"

text \<open>The challenge a step hands out, and the challenge a successful ceremony answers.\<close>

definition issued :: "wp_step \<Rightarrow> relying_party \<Rightarrow> byte list list" where
  "issued st rp =
     (case st of
        CreateChallenge _ _ \<Rightarrow> [fst (random_bytes 32 (wp_rng rp))]
      | RegistrationOptions _ _ _ \<Rightarrow> [fst (random_bytes 32 (wp_rng rp))]
      | AuthenticationOptions _ _ \<Rightarrow> [fst (random_bytes 32 (wp_rng rp))]
      | _ \<Rightarrow> [])"

definition pending_challenge :: "string \<Rightarrow> relying_party \<Rightarrow> byte list list" where
  "pending_challenge sid rp = (case dget (wp_pending rp) sid of None \<Rightarrow> [] | Some (c, _, _) \<Rightarrow> [c])"

definition answered :: "wp_step \<Rightarrow> relying_party \<Rightarrow> byte list list" where
  "answered st rp =
     (case st of
        Register sid c u \<Rightarrow> if isOk (fst (verify_registration sid c u rp)) then pending_challenge sid rp else []
      | Authenticate sid a \<Rightarrow> if isOk (fst (verify_authentication sid a rp)) then pending_challenge sid rp else []
      | _ \<Rightarrow> [])"

text \<open>
  The response a step presents, when it is accepted, and the challenge a response says it answers: the one
  in its client data, which the signature covers.
\<close>

definition accepted_in :: "wp_step \<Rightarrow> relying_party \<Rightarrow> webauthn_credential list" where
  "accepted_in st rp =
     (case st of
        Register sid c u \<Rightarrow> if isOk (fst (verify_registration sid c u rp)) then [c] else []
      | Authenticate sid a \<Rightarrow> if isOk (fst (verify_authentication sid a rp)) then [a] else []
      | _ \<Rightarrow> [])"

definition told_challenge :: "webauthn_credential \<Rightarrow> byte list" where
  "told_challenge c =
     (case bind_res (wc_dict c) (\<lambda>d. wc_item d ''clientDataJSON'') of
        Inr b \<Rightarrow>
          (case bind_res (bind_res (bind_res (utf8_decode b) json_loads) as_dict) (\<lambda>cd.
                  challenge_bytes (case dget cd ''challenge'' of None \<Rightarrow> PStr [] | Some v \<Rightarrow> v)) of
             Inr ch \<Rightarrow> ch
           | Inl _ \<Rightarrow> [])
      | Inl _ \<Rightarrow> [])"

fun run_accepted :: "wp_step list \<Rightarrow> relying_party \<Rightarrow> webauthn_credential list" where
  "run_accepted [] rp = []"
| "run_accepted (st # sts) rp = accepted_in st rp @ run_accepted sts (wp_exec st rp)"

fun run_issued :: "wp_step list \<Rightarrow> relying_party \<Rightarrow> byte list list" where
  "run_issued [] rp = []"
| "run_issued (st # sts) rp = issued st rp @ run_issued sts (wp_exec st rp)"

definition outstanding :: "relying_party \<Rightarrow> byte list list" where
  "outstanding rp = map (\<lambda>e. fst (snd e)) (wp_pending rp)"

section \<open>Challenges\<close>

lemma take_challenge_cases:
  obtains (missing) "dget (wp_pending rp) sid = None" "take_challenge sid c rp = (Inl WebAuthnError, rp)"
  | (refused) ch t e where "dget (wp_pending rp) sid = Some (ch, t, e)"
      "take_challenge sid c rp = (Inl WebAuthnError, rp\<lparr>wp_pending := ddel sid (wp_pending rp)\<rparr>)"
  | (taken) ch t where "dget (wp_pending rp) sid = Some (ch, t, c)" "wp_now rp - t \<le> wp_challenge_ttl rp"
      "take_challenge sid c rp = (Inr ch, rp\<lparr>wp_pending := ddel sid (wp_pending rp)\<rparr>)"
proof (cases "dget (wp_pending rp) sid")
  case None
  then show thesis using missing by (simp add: take_challenge_def)
next
  case (Some x)
  obtain ch t e where x: "x = (ch, t, e)" by (cases x)
  show thesis
  proof (cases "e = c \<and> wp_now rp - t \<le> wp_challenge_ttl rp")
    case True
    then show thesis using taken [of ch t] by (simp add: take_challenge_def Some x)
  next
    case False
    then show thesis using refused [of ch t e] by (auto simp: take_challenge_def Some x)
  qed
qed

lemma verify_registration_run:
  "verify_registration sid c u rp =
     (case take_challenge sid ''webauthn.create'' rp of
        (Inl e, rp') \<Rightarrow> (Inl e, rp')
      | (Inr ch, rp') \<Rightarrow>
          (case check_registration rp' c u ch of Inl e \<Rightarrow> (Inl e, rp') | Inr r \<Rightarrow> (Inr r, store_credential r rp')))"
  by (auto simp: verify_registration_def bindM_def split: prod.splits sum.splits)

lemma verify_authentication_run:
  "verify_authentication sid a rp =
     (case take_challenge sid ''webauthn.get'' rp of
        (Inl e, rp') \<Rightarrow> (Inl e, rp')
      | (Inr ch, rp') \<Rightarrow>
          (case check_assertion rp' a ch of Inl e \<Rightarrow> (Inl e, rp') | Inr r \<Rightarrow> (Inr r, update_credential r rp')))"
  by (auto simp: verify_authentication_def bindM_def split: prod.splits sum.splits)

lemma store_update_pending [simp]:
  "wp_pending (store_credential r rp) = wp_pending rp" "wp_pending (update_credential r rp) = wp_pending rp"
  by (simp_all add: store_credential_def update_credential_def)

text \<open>Whatever comes of a ceremony, its challenge is gone, and only a pending one can succeed.\<close>

lemma ceremony_spends_challenge:
  shows "wp_pending (snd (verify_registration sid c u rp)) = ddel sid (wp_pending rp)"
    "wp_pending (snd (verify_authentication sid a rp)) = ddel sid (wp_pending rp)"
    "isOk (fst (verify_registration sid c u rp)) \<Longrightarrow> dget (wp_pending rp) sid \<noteq> None"
    "isOk (fst (verify_authentication sid a rp)) \<Longrightarrow> dget (wp_pending rp) sid \<noteq> None"
proof -
  have *: "wp_pending (snd (take_challenge sid k rp)) = ddel sid (wp_pending rp)" for k
    by (cases rule: take_challenge_cases [of rp sid k])
      (simp_all add: map_of_eq_None_iff delete_id)
  show "wp_pending (snd (verify_registration sid c u rp)) = ddel sid (wp_pending rp)"
    using * [of "''webauthn.create''"] by (auto simp: verify_registration_run split: prod.splits sum.splits)
  show "wp_pending (snd (verify_authentication sid a rp)) = ddel sid (wp_pending rp)"
    using * [of "''webauthn.get''"] by (auto simp: verify_authentication_run split: prod.splits sum.splits)
  show "isOk (fst (verify_registration sid c u rp)) \<Longrightarrow> dget (wp_pending rp) sid \<noteq> None"
    by (cases rule: take_challenge_cases [of rp sid "''webauthn.create''"]) (simp_all add: verify_registration_run)
  show "isOk (fst (verify_authentication sid a rp)) \<Longrightarrow> dget (wp_pending rp) sid \<noteq> None"
    by (cases rule: take_challenge_cases [of rp sid "''webauthn.get''"]) (simp_all add: verify_authentication_run)
qed

lemma wp_create_challenge_pending:
  "wp_pending (snd (wp_create_challenge sid c rp)) = dset sid (fst (random_bytes 32 (wp_rng rp)), wp_now rp, c) (wp_pending rp)"
  by (simp add: wp_create_challenge_def split: prod.split)

lemma wp_create_challenge_ok: "\<exists>ch. wp_create_challenge sid c rp = (Inr ch, snd (wp_create_challenge sid c rp))"
  by (simp add: wp_create_challenge_def split: prod.split)

lemma options_state [simp]:
  "snd (registration_options sid u n rp) = snd (wp_create_challenge sid ''webauthn.create'' rp)"
  "snd (authentication_options sid v rp) = snd (wp_create_challenge sid ''webauthn.get'' rp)"
  by (auto simp: registration_options_def authentication_options_def bindM_def wp_create_challenge_def
      split: prod.split)

lemma count_dset:
  "count_list (map (\<lambda>e. fst (snd e)) (dset k (ch, t, e) d)) x \<le>
     count_list (map (\<lambda>e. fst (snd e)) d) x + count_list [ch] x"
  by (induction d) auto

lemma count_ddel_le: "count_list (map f (ddel k d)) x \<le> count_list (map f d) x"
  by (induction d) auto

lemma count_ddel:
  "dget d k = Some (ch, t, e) \<Longrightarrow>
   count_list (map (\<lambda>e. fst (snd e)) (ddel k d)) x + count_list [ch] x \<le> count_list (map (\<lambda>e. fst (snd e)) d) x"
proof (induction d)
  case (Cons y d)
  obtain j c t' e' where y: "y = (j, c, t', e')" by (cases y) auto
  show ?case
  proof (cases "j = k")
    case True
    with Cons.prems count_ddel_le [of "\<lambda>e. fst (snd e)" k d x] show ?thesis by (simp add: y)
  next
    case False
    with Cons show ?thesis by (simp add: y)
  qed
qed simp

lemma create_balance:
  "count_list (outstanding (snd (wp_create_challenge sid c rp))) x \<le>
     count_list (outstanding rp) x + count_list [fst (random_bytes 32 (wp_rng rp))] x"
  unfolding outstanding_def wp_create_challenge_pending by (rule count_dset)

lemma step_balance:
  "count_list (answered st rp) x + count_list (outstanding (wp_exec st rp)) x \<le>
     count_list (outstanding rp) x + count_list (issued st rp) x"
proof -
  have answer: "count_list (if b then pending_challenge sid rp else []) x + count_list (map (\<lambda>e. fst (snd e)) (ddel sid (wp_pending rp))) x
      \<le> count_list (outstanding rp) x" for b sid
  proof (cases "dget (wp_pending rp) sid")
    case None
    then show ?thesis using count_ddel_le [of "\<lambda>e. fst (snd e)" sid "wp_pending rp" x]
      by (simp add: pending_challenge_def outstanding_def)
  next
    case (Some y)
    then obtain c t e where "dget (wp_pending rp) sid = Some (c, t, e)" by (cases y) auto
    with count_ddel [OF this, of x] show ?thesis by (simp add: pending_challenge_def outstanding_def)
  qed
  show ?thesis
  proof (cases st)
    case (Register sid c u)
    with answer [of "isOk (fst (verify_registration sid c u rp))" sid] show ?thesis
      by (simp add: answered_def wp_exec_def issued_def outstanding_def [of "snd _"] ceremony_spends_challenge(1))
  next
    case (Authenticate sid a)
    with answer [of "isOk (fst (verify_authentication sid a rp))" sid] show ?thesis
      by (simp add: answered_def wp_exec_def issued_def outstanding_def [of "snd _"] ceremony_spends_challenge(2))
  next
    case (CreateChallenge sid c)
    with create_balance [of sid c rp x] show ?thesis by (simp add: answered_def wp_exec_def issued_def)
  next
    case (RegistrationOptions sid u n)
    with create_balance [of sid "''webauthn.create''" rp x] show ?thesis by (simp add: answered_def wp_exec_def issued_def)
  next
    case (AuthenticationOptions sid u)
    with create_balance [of sid "''webauthn.get''" rp x] show ?thesis by (simp add: answered_def wp_exec_def issued_def)
  qed (simp add: answered_def wp_exec_def issued_def outstanding_def)
qed

text \<open>An accepted response says the challenge that was pending: the client data is compared with it.\<close>

lemma verify_client_data_challenge:
  assumes "verify_client_data rp b ty ch = Inr cd" "bind_res (wc_dict c) (\<lambda>d. wc_item d ''clientDataJSON'') = Inr b"
  shows "told_challenge c = ch"
proof -
  from assms show ?thesis
    by (auto simp: verify_client_data_def told_challenge_def bind_res_Inr_iff split: if_splits)
qed

lemma check_registration_challenge: "check_registration rp c u ch = Inr r \<Longrightarrow> told_challenge c = ch"
  by (auto simp: check_registration_def bind_res_Inr_iff intro!: verify_client_data_challenge)

lemma check_assertion_challenge: "check_assertion rp a ch = Inr r \<Longrightarrow> told_challenge a = ch"
  by (auto simp: check_assertion_def bind_res_Inr_iff intro!: verify_client_data_challenge)

lemma accepted_answers: "map told_challenge (accepted_in st rp) = answered st rp"
proof (cases st)
  case (Register sid c u)
  show ?thesis
    by (cases rule: take_challenge_cases [of rp sid "''webauthn.create''"])
      (auto simp: Register accepted_in_def answered_def pending_challenge_def verify_registration_run isOk_iff
         check_registration_challenge split: sum.splits)
next
  case (Authenticate sid a)
  show ?thesis
    by (cases rule: take_challenge_cases [of rp sid "''webauthn.get''"])
      (auto simp: Authenticate accepted_in_def answered_def pending_challenge_def verify_authentication_run isOk_iff
         check_assertion_challenge split: sum.splits)
qed (simp_all add: accepted_in_def answered_def)

lemma run_balance:
  "count_list (map told_challenge (run_accepted steps rp)) ch + count_list (outstanding (wp_run steps rp)) ch \<le>
     count_list (outstanding rp @ run_issued steps rp) ch"
proof (induction steps arbitrary: rp)
  case (Cons st steps)
  from Cons.IH [of "wp_exec st rp"] step_balance [of st rp ch] show ?case
    by (simp add: wp_run_def accepted_answers)
qed (simp add: wp_run_def)

lemma distinct_iff_count: "distinct xs \<longleftrightarrow> (\<forall>x. count_list xs x \<le> 1)"
proof (induction xs)
  case (Cons y xs)
  have "(\<forall>x. count_list (y # xs) x \<le> 1) \<longleftrightarrow> count_list xs y = 0 \<and> (\<forall>x. count_list xs x \<le> 1)"
    by (auto simp: le_Suc_eq)
  with Cons show ?case by (simp add: count_list_0_iff)
qed simp

text \<open>
  C2: Challenges are single use and no response is accepted twice.  Over any sequence of operations of a
  relying party, with registrations and authentications of any sessions interleaved, responses of any
  shape and the clock moving at will: the accepted responses whose client data carry a challenge are
  at most as many as the times that challenge was pending at the start or handed out since, less the
  times it is still pending.  So when the challenges that were pending and that are handed out are pairwise
  different, the accepted responses carry pairwise different challenges -- no response is accepted a second
  time, in any session or ceremony, and none with the client data of another.  Whatever comes of a
  ceremony, the challenge of its session is gone.
\<close>

theorem challenges_are_single_use:
  "count_list (map told_challenge (run_accepted steps rp)) ch + count_list (outstanding (wp_run steps rp)) ch \<le>
     count_list (outstanding rp @ run_issued steps rp) ch \<and>
   (distinct (outstanding rp @ run_issued steps rp) \<longrightarrow>
     distinct (map told_challenge (run_accepted steps rp)) \<and> distinct (run_accepted steps rp)) \<and>
   dget (wp_pending (snd (verify_registration sid c u rp))) sid = None \<and>
   dget (wp_pending (snd (verify_authentication sid a rp))) sid = None"
proof -
  have "distinct (map told_challenge (run_accepted steps rp))" if "distinct (outstanding rp @ run_issued steps rp)"
    using that run_balance [of steps rp] by (auto simp: distinct_iff_count simp del: count_list_append) (meson add_leD1 le_trans)
  then show ?thesis using run_balance by (auto simp: ceremony_spends_challenge distinct_map)
qed

section \<open>Stored credentials\<close>

definition wp_wf :: "relying_party \<Rightarrow> bool" where
  "wp_wf rp \<longleftrightarrow> distinct (dkeys (wp_credentials rp)) \<and> distinct (map rg_credential_id (wp_records rp)) \<and>
     (\<forall>(u, rs) \<in> set (wp_credentials rp). \<forall>r \<in> set rs. rg_user_handle r = u \<and> storable (rg_public_key r))"

lemma mset_concat_dset:
  "mset (concat (dvalues (dset u ((case dget d u of None \<Rightarrow> [] | Some xs \<Rightarrow> xs) @ [r]) d))) =
     mset (concat (dvalues d)) + {#r#}"
  by (induction d) auto

lemma records_store:
  "mset (wp_records (store_credential r rp)) = mset (wp_records rp) + {#r#}"
  using mset_concat_dset [of "rg_user_handle r" "wp_credentials rp" r]
  by (simp add: wp_records_def store_credential_def user_credentials_def)

lemma entries_dset:
  assumes "(u, xs) \<in> set (dset k ys d)"
  shows "(u, xs) \<in> set d \<or> u = k \<and> xs = ys"
  using assms by (induction d) (auto split: if_splits)

text \<open>What a successful check has established about the new record.\<close>

lemma unclaimed:
  assumes "\<not> claimed u i rp" "distinct (dkeys (wp_credentials rp))" "x \<in> set (wp_records rp)"
  shows "rg_credential_id x \<noteq> i"
proof -
  from assms(3) obtain h rs where e: "(h, rs) \<in> set (wp_credentials rp)" "x \<in> set rs" by (auto simp: wp_records_def)
  show ?thesis
  proof (cases "h = u")
    case True
    with e(1) assms(2) have "user_credentials u rp = rs" by (simp add: user_credentials_def map_of_is_SomeI)
    with e(2) assms(1) show ?thesis by (auto simp: claimed_def)
  next
    case False
    with e assms(1) show ?thesis by (fastforce simp: claimed_def)
  qed
qed

lemma check_registration_record:
  assumes "check_registration rp c u ch = Inr r" "distinct (dkeys (wp_credentials rp))"
  shows "rg_user_handle r = u" "storable (rg_public_key r)"
    "\<And>x. x \<in> set (wp_records rp) \<Longrightarrow> rg_credential_id x \<noteq> rg_credential_id r"
proof -
  have r: "rg_user_handle r = u \<and> storable (rg_public_key r) \<and> \<not> claimed u (rg_credential_id r) rp"
    using assms(1) unfolding check_registration_def
    by (elim bind_res_InrE) (auto split: if_splits sum.splits elim!: bind_res_InrE dest: cose_decode_storable)
  then show "rg_user_handle r = u" "storable (rg_public_key r)" by simp_all
  show "\<And>x. x \<in> set (wp_records rp) \<Longrightarrow> rg_credential_id x \<noteq> rg_credential_id r"
    using unclaimed [OF _ assms(2)] r by blast
qed

lemma check_assertion_record:
  assumes "check_assertion rp a ch = Inr r"
  obtains old p where "find_credential (wc_raw_id a) rp = Some old"
    "r = old\<lparr>rg_sign_count := ad_sign_count p, rg_backup_state := backup_state p\<rparr>"
    "rg_sign_count old < ad_sign_count p \<or> rg_sign_count old = 0 \<and> ad_sign_count p = 0"
proof -
  have "\<exists>old p. find_credential (wc_raw_id a) rp = Some old \<and> advance_credential old p = Inr r"
    using assms unfolding check_assertion_def
    by (elim bind_res_InrE) (auto split: if_splits option.splits elim!: bind_res_InrE)
  then obtain old p where "find_credential (wc_raw_id a) rp = Some old" "advance_credential old p = Inr r" by blast
  with that [of old p] show thesis
    by (auto simp: advance_credential_def check_sign_count_def split: if_splits)
qed

lemma find_credential_find:
  "find_credential i rp = Some r \<Longrightarrow> \<exists>j. i = Some j \<and> find (\<lambda>x. rg_credential_id x = j) (wp_records rp) = Some r"
  by (auto simp: find_credential_def split: option.splits list.splits)

lemma update_first_map:
  "find p xs = Some x \<Longrightarrow> g (f x) = g x \<Longrightarrow> map g (update_first p f xs) = map g xs"
  by (induction xs) auto

lemma find_append: "find p (xs @ ys) = (case find p xs of None \<Rightarrow> find p ys | Some x \<Rightarrow> Some x)"
  by (induction xs) auto

lemma find_update_first:
  "find p xs = Some x \<Longrightarrow> p (f x) \<Longrightarrow> find p (update_first p f xs) = Some (f x)"
  "(\<And>x. p x \<Longrightarrow> \<not> q x \<and> \<not> q (f x)) \<Longrightarrow> find q (update_first p f xs) = find q xs"
  by (induction xs) auto

lemma list_ex_find: "list_ex p xs \<longleftrightarrow> find p xs \<noteq> None"
  by (induction xs) auto

lemma find_update_found:
  "find p (concat (dvalues d)) = Some x \<Longrightarrow> p (f x) \<Longrightarrow> find p (concat (dvalues (update_found p f d))) = Some (f x)"
  "(\<And>x. p x \<Longrightarrow> \<not> q x \<and> \<not> q (f x)) \<Longrightarrow>
     find q (concat (dvalues (update_found p f d))) = find q (concat (dvalues d))"
  by (induction p f d rule: update_found.induct)
    (auto simp: find_append list_ex_find find_update_first split: option.splits)

lemma update_found_map:
  "find p (concat (dvalues d)) = Some x \<Longrightarrow> g (f x) = g x \<Longrightarrow>
   map (\<lambda>(k, xs). (k, map g xs)) (update_found p f d) = map (\<lambda>(k, xs). (k, map g xs)) d"
  by (induction p f d rule: update_found.induct)
    (auto simp: find_append list_ex_find update_first_map split: option.splits)

definition stored_count :: "byte list \<Rightarrow> relying_party \<Rightarrow> nat option" where
  "stored_count i rp = map_option rg_sign_count (find (\<lambda>x. rg_credential_id x = i) (wp_records rp))"

lemma wp_records_fields [simp]:
  "wp_records (rp\<lparr>wp_pending := p\<rparr>) = wp_records rp" "wp_records (rp\<lparr>wp_now := t\<rparr>) = wp_records rp"
  "wp_records (rp\<lparr>wp_rng := g\<rparr>) = wp_records rp"
  by (simp_all add: wp_records_def)

text \<open>The fields of a record that never change.\<close>

definition identity :: "registered_credential \<Rightarrow> byte list \<times> byte list \<times> cose_key" where
  "identity r = (rg_credential_id r, rg_user_handle r, rg_public_key r)"

definition identities :: "relying_party \<Rightarrow> (byte list \<times> (byte list \<times> byte list \<times> cose_key) list) list" where
  "identities rp = map (\<lambda>(u, rs). (u, map identity rs)) (wp_credentials rp)"

lemma wp_wf_identities:
  "wp_wf rp \<longleftrightarrow> distinct (map fst (identities rp)) \<and> distinct (map fst (concat (map snd (identities rp)))) \<and>
     (\<forall>(u, is) \<in> set (identities rp). \<forall>(_, h, k) \<in> set is. h = u \<and> storable k)"
proof -
  have "map fst (identities rp) = dkeys (wp_credentials rp)"
    by (simp add: identities_def case_prod_unfold o_def)
  moreover have "map fst (concat (map snd (identities rp))) = map rg_credential_id (wp_records rp)"
    by (simp add: identities_def wp_records_def identity_def map_concat case_prod_unfold o_def)
  moreover have "(\<forall>(u, is) \<in> set (identities rp). \<forall>(_, h, k) \<in> set is. h = u \<and> storable k) \<longleftrightarrow>
      (\<forall>(u, rs) \<in> set (wp_credentials rp). \<forall>r \<in> set rs. rg_user_handle r = u \<and> storable (rg_public_key r))"
    by (simp add: identities_def identity_def case_prod_unfold)
  ultimately show ?thesis by (simp only: wp_wf_def)
qed

lemma update_identities:
  assumes "find (\<lambda>x. rg_credential_id x = rg_credential_id r) (wp_records rp) = Some old" "identity r = identity old"
  shows "identities (update_credential r rp) = identities rp"
  using update_found_map [of _ "wp_credentials rp" old identity "\<lambda>_. r"] assms
  by (simp add: identities_def update_credential_def wp_records_def)

lemma wp_wf_cong: "identities rp = identities rp' \<Longrightarrow> wp_wf rp = wp_wf rp'"
  by (simp add: wp_wf_identities)

lemma wp_wf_store:
  assumes "wp_wf rp" "storable (rg_public_key r)" "\<And>x. x \<in> set (wp_records rp) \<Longrightarrow> rg_credential_id x \<noteq> rg_credential_id r"
  shows "wp_wf (store_credential r rp)"
proof -
  have "mset (map rg_credential_id (wp_records (store_credential r rp))) = mset (map rg_credential_id (r # wp_records rp))"
    using records_store [of r rp] by simp
  moreover have "distinct (map rg_credential_id (r # wp_records rp))" proof -
    have "rg_credential_id r \<notin> rg_credential_id ` set (wp_records rp)" using assms(3) by (metis imageE)
    with assms(1) show ?thesis by (simp add: wp_wf_def)
  qed
  ultimately have "distinct (map rg_credential_id (wp_records (store_credential r rp)))"
    by (metis mset_eq_imp_distinct_iff)
  moreover have "rg_user_handle x = u \<and> storable (rg_public_key x)"
    if e: "(u, xs) \<in> set (wp_credentials (store_credential r rp))" "x \<in> set xs" for u xs x
  proof -
    have old: "rg_user_handle y = v \<and> storable (rg_public_key y)" if "(v, ys) \<in> set (wp_credentials rp)" "y \<in> set ys" for v ys y
      using assms(1) that by (fastforce simp: wp_wf_def)
    from entries_dset [OF e(1) [unfolded store_credential_def, simplified]]
    consider "(u, xs) \<in> set (wp_credentials rp)"
      | "u = rg_user_handle r" "xs = user_credentials (rg_user_handle r) rp @ [r]" by blast
    then show ?thesis
    proof cases
      case 1
      with old e(2) show ?thesis by blast
    next
      case 2
      show ?thesis
      proof (cases "x = r")
        case False
        with e(2) 2 have "x \<in> set (user_credentials u rp)" by simp
        then obtain ys where "dget (wp_credentials rp) u = Some ys" "x \<in> set ys"
          by (cases "dget (wp_credentials rp) u") (auto simp: user_credentials_def)
        with old [OF map_of_SomeD] show ?thesis by blast
      qed (use 2 assms(2) in simp)
    qed
  qed
  moreover have "distinct (dkeys (wp_credentials (store_credential r rp)))"
    using assms(1) by (simp add: wp_wf_def store_credential_def)
  ultimately show ?thesis unfolding wp_wf_def by blast
qed

text \<open>What an operation can do to the stored credentials.\<close>

lemma step_records:
  assumes "wp_wf rp"
  obtains (same) "identities (wp_exec st rp) = identities rp" "wp_records (wp_exec st rp) = wp_records rp"
      "\<nexists>sid a r. st = Authenticate sid a \<and> fst (verify_authentication sid a rp) = Inr r"
  | (stored) r rp' where "wp_exec st rp = store_credential r rp'" "wp_credentials rp' = wp_credentials rp"
      "storable (rg_public_key r)" "\<And>x. x \<in> set (wp_records rp) \<Longrightarrow> rg_credential_id x \<noteq> rg_credential_id r"
      "\<nexists>sid a r. st = Authenticate sid a \<and> fst (verify_authentication sid a rp) = Inr r"
  | (updated) sid a old r p rp' where "st = Authenticate sid a" "fst (verify_authentication sid a rp) = Inr r"
      "wp_exec st rp = update_credential r rp'" "wp_credentials rp' = wp_credentials rp"
      "find (\<lambda>x. rg_credential_id x = rg_credential_id r) (wp_records rp) = Some old"
      "r = old\<lparr>rg_sign_count := ad_sign_count p, rg_backup_state := backup_state p\<rparr>"
      "rg_sign_count old < ad_sign_count p \<or> rg_sign_count old = 0 \<and> ad_sign_count p = 0"
proof (cases st)
  case (Register sid c u)
  show thesis
  proof (cases rule: take_challenge_cases [of rp sid "''webauthn.create''"])
    case (taken ch t)
    let ?rp = "rp\<lparr>wp_pending := ddel sid (wp_pending rp)\<rparr>"
    show thesis
    proof (cases "check_registration ?rp c u ch")
      case (Inl e)
      with taken(3) Register show thesis
        by (intro same) (simp_all add: wp_exec_def verify_registration_run identities_def)
    next
      case (Inr r)
      have "distinct (dkeys (wp_credentials ?rp))" using assms by (simp add: wp_wf_def)
      note r = check_registration_record [OF Inr this]
      show thesis
      proof (rule stored [of r ?rp])
        show "wp_exec st rp = store_credential r ?rp"
          using taken(3) Inr by (simp add: Register wp_exec_def verify_registration_run)
      qed (use r Register in auto)
    qed
  qed (use Register in \<open>intro same; simp add: wp_exec_def verify_registration_run identities_def\<close>)+
next
  case (Authenticate sid a)
  show thesis
  proof (cases rule: take_challenge_cases [of rp sid "''webauthn.get''"])
    case (taken ch t)
    let ?rp = "rp\<lparr>wp_pending := ddel sid (wp_pending rp)\<rparr>"
    show thesis
    proof (cases "check_assertion ?rp a ch")
      case (Inl e)
      with taken(3) Authenticate show thesis
        by (intro same) (simp_all add: wp_exec_def verify_authentication_run identities_def)
    next
      case (Inr r)
      from check_assertion_record [OF Inr] obtain old p where r: "find_credential (wc_raw_id a) ?rp = Some old"
        "r = old\<lparr>rg_sign_count := ad_sign_count p, rg_backup_state := backup_state p\<rparr>"
        "rg_sign_count old < ad_sign_count p \<or> rg_sign_count old = 0 \<and> ad_sign_count p = 0" .
      from find_credential_find [OF r(1)] obtain j where
        j: "find (\<lambda>x. rg_credential_id x = j) (wp_records rp) = Some old" by auto
      then have "rg_credential_id old = j" by (auto simp: find_Some_iff)
      with j r(2) have f: "find (\<lambda>x. rg_credential_id x = rg_credential_id r) (wp_records rp) = Some old" by simp
      show thesis
        by (rule updated [of sid a r ?rp old p])
          (use taken(3) Inr r(2,3) f Authenticate in \<open>simp_all add: wp_exec_def verify_authentication_run\<close>)
    qed
  qed (use Authenticate in \<open>intro same; simp add: wp_exec_def verify_authentication_run identities_def\<close>)+
qed (intro same; simp add: wp_exec_def wp_create_challenge_def identities_def split: prod.split)+

lemma wp_wf_step:
  assumes w: "wp_wf rp"
  shows "wp_wf (wp_exec st rp)"
  using w
proof (cases rule: step_records [of rp st])
  case same
  with w wp_wf_cong show ?thesis by blast
next
  case (stored r rp')
  have "wp_wf rp'" using w stored(2) wp_wf_cong [of rp' rp] by (simp add: identities_def)
  from wp_wf_store [OF this stored(3)] stored(1,2,4) show ?thesis by (simp add: wp_records_def)
next
  case (updated sid a old r p rp')
  have "identities (update_credential r rp') = identities rp'"
    by (rule update_identities [of r rp' old]) (use updated(4,5,6) in \<open>simp_all add: wp_records_def identity_def\<close>)
  then have "identities (wp_exec st rp) = identities rp" using updated(3,4) by (simp add: identities_def)
  with w wp_wf_cong show ?thesis by blast
qed


lemma wp_wf_run: "wp_wf rp \<Longrightarrow> wp_wf (wp_run steps rp)"
  by (induction steps arbitrary: rp) (simp_all add: wp_run_def wp_wf_step)

text \<open>The counters with which a credential was accepted over a run.\<close>

definition accepted_count :: "byte list \<Rightarrow> wp_step \<Rightarrow> relying_party \<Rightarrow> nat list" where
  "accepted_count i st rp =
     (case st of
        Authenticate sid a \<Rightarrow>
          (case fst (verify_authentication sid a rp) of
             Inl _ \<Rightarrow> []
           | Inr r \<Rightarrow> if rg_credential_id r = i then [rg_sign_count r] else [])
      | _ \<Rightarrow> [])"

fun accepted_counts :: "byte list \<Rightarrow> wp_step list \<Rightarrow> relying_party \<Rightarrow> nat list" where
  "accepted_counts i [] rp = []"
| "accepted_counts i (st # sts) rp = accepted_count i st rp @ accepted_counts i sts (wp_exec st rp)"

definition advances :: "nat \<Rightarrow> nat \<Rightarrow> bool" where
  "advances m n \<longleftrightarrow> m < n \<or> m = 0 \<and> n = 0"

lemma advances_trans: "advances k m \<Longrightarrow> advances m n \<Longrightarrow> advances k n"
  by (auto simp: advances_def)

lemma stored_count_store:
  assumes "stored_count i rp = Some n" "\<And>x. x \<in> set (wp_records rp) \<Longrightarrow> rg_credential_id x \<noteq> rg_credential_id r"
  shows "stored_count i (store_credential r rp) = Some n"
proof -
  let ?p = "\<lambda>x. rg_credential_id x = i"
  from assms(1) obtain x where x: "find ?p (wp_records rp) = Some x" "rg_sign_count x = n"
    by (auto simp: stored_count_def)
  then have "x \<in> set (wp_records rp)" "rg_credential_id x = i" by (auto simp: find_Some_iff)
  with assms(2) have i: "rg_credential_id r \<noteq> i" by metis
  have "find ?p (concat (dvalues (dset u ((case dget d u of None \<Rightarrow> [] | Some xs \<Rightarrow> xs) @ [r]) d))) =
      find ?p (concat (dvalues d))" for u d
    by (induction d) (auto simp: find_append i split: option.splits)
  from this [of "rg_user_handle r" "wp_credentials rp"] x show ?thesis
    by (simp add: stored_count_def wp_records_def store_credential_def user_credentials_def)
qed

text \<open>A step accepts at most one counter for a credential; it advances the stored one and is stored.\<close>

lemma step_counts:
  assumes "wp_wf rp"
  shows "\<lbrakk>accepted_count i st rp = []; stored_count i rp = Some n\<rbrakk> \<Longrightarrow> stored_count i (wp_exec st rp) = Some n"
    "accepted_count i st rp = c # cs \<Longrightarrow>
       cs = [] \<and> (\<exists>n. stored_count i rp = Some n \<and> advances n c) \<and> stored_count i (wp_exec st rp) = Some c"
proof -
  have "(accepted_count i st rp = [] \<longrightarrow> stored_count i rp = Some n \<longrightarrow> stored_count i (wp_exec st rp) = Some n) \<and>
     (accepted_count i st rp = c # cs \<longrightarrow>
       cs = [] \<and> (\<exists>n. stored_count i rp = Some n \<and> advances n c) \<and> stored_count i (wp_exec st rp) = Some c)"
    using assms
  proof (cases rule: step_records [of rp st])
    case same
    then have "accepted_count i st rp = []"
      by (auto simp: accepted_count_def split: wp_step.splits sum.splits)
    with same(2) show ?thesis by (simp add: stored_count_def)
  next
    case (stored r rp')
    then have "accepted_count i st rp = []"
      by (auto simp: accepted_count_def split: wp_step.splits sum.splits)
    moreover have "stored_count i rp' = stored_count i rp" using stored(2) by (simp add: stored_count_def wp_records_def)
    ultimately show ?thesis using stored_count_store [of i rp' n r] stored(1,2,4) by (simp add: wp_records_def)
  next
    case (updated sid a old r p rp')
    let ?q = "\<lambda>x. rg_credential_id x = rg_credential_id r"
    have rec: "wp_records rp' = wp_records rp" using updated(4) by (simp add: wp_records_def)
    show ?thesis
    proof (cases "rg_credential_id r = i")
      case True
      have "accepted_count i st rp = [rg_sign_count r]" using updated(1,2) True by (simp add: accepted_count_def)
      moreover have "stored_count i rp = Some (rg_sign_count old)" using updated(5) True by (simp add: stored_count_def)
      moreover have "stored_count i (wp_exec st rp) = Some (rg_sign_count r)"
        using find_update_found(1) [of ?q "wp_credentials rp'" old "\<lambda>_. r"] updated(3,5) rec True
        by (simp add: stored_count_def update_credential_def wp_records_def)
      ultimately show ?thesis using updated(6,7) by (auto simp: advances_def)
    next
      case False
      have "accepted_count i st rp = []" using updated(1,2) False by (simp add: accepted_count_def)
      moreover have "stored_count i (wp_exec st rp) = stored_count i rp"
        using find_update_found(2) [of ?q "\<lambda>x. rg_credential_id x = i" "\<lambda>_. r" "wp_credentials rp'"] updated(3) rec False
        by (simp add: stored_count_def update_credential_def wp_records_def)
      ultimately show ?thesis by simp
    qed
  qed
  then show "\<lbrakk>accepted_count i st rp = []; stored_count i rp = Some n\<rbrakk> \<Longrightarrow> stored_count i (wp_exec st rp) = Some n"
    "accepted_count i st rp = c # cs \<Longrightarrow>
       cs = [] \<and> (\<exists>n. stored_count i rp = Some n \<and> advances n c) \<and> stored_count i (wp_exec st rp) = Some c"
    by blast+
qed

lemma counts_advance:
  "wp_wf rp \<Longrightarrow> sorted_wrt advances (accepted_counts i steps rp) \<and>
     (\<forall>n. stored_count i rp = Some n \<longrightarrow> (\<forall>c \<in> set (accepted_counts i steps rp). advances n c))"
proof (induction steps arbitrary: rp)
  case (Cons st steps)
  note IH = Cons.IH [OF wp_wf_step [OF Cons.prems]]
  show ?case
  proof (cases "accepted_count i st rp")
    case Nil
    with IH [of st] step_counts(1) [OF Cons.prems Nil] show ?thesis by auto
  next
    case (Cons c cs)
    from step_counts(2) [OF Cons.prems Cons] obtain n where c: "cs = []" "stored_count i rp = Some n" "advances n c"
      "stored_count i (wp_exec st rp) = Some c" by blast
    with IH [of st] have "\<forall>d \<in> set (accepted_counts i steps (wp_exec st rp)). advances c d" by blast
    with c IH [of st] Cons advances_trans [OF c(3)] show ?thesis by auto
  qed
qed simp

text \<open>
  C12: The stored credentials stay well formed.  Over any sequence of operations, with responses of any
  shape, every stored credential is filed under its own user, a credential identifier is stored
  once, for one user, and every stored public key is a finite point of P-256 on the curve or a valid
  Ed25519 key, the algorithm of the record being that of its key.  Moreover the counters with which a
  credential is accepted only advance: a counter that does not exceed the last one is refused, unless
  both are zero.
\<close>

theorem credentials_stay_well_formed:
  assumes "wp_wf rp"
  shows "wp_wf (wp_run steps rp) \<and> sorted_wrt advances (accepted_counts i steps rp)"
  using wp_wf_run [OF assms] counts_advance [OF assms] by blast

definition sample_rp :: relying_party where
  "sample_rp = \<lparr>wp_rp_id = ''auth-lab.local'', wp_origins = [''https://auth-lab.local''], wp_rp_name = ''auth-lab'',
     wp_now = 1000, wp_require_uv = True, wp_challenge_ttl = 300, wp_credentials = [], wp_pending = [],
     wp_rng = \<lparr>tape = (\<lambda>i _. of_nat i), drawn = 0\<rparr>\<rparr>"

theorem credentials_stay_well_formed_witness:
  "wp_wf (wp_run [RegistrationOptions ''s'' [1] ''alice'', Authenticate ''s'' \<lparr>wc_raw_id = None, wc_response = None\<rparr>] sample_rp)"
proof -
  have "wp_wf sample_rp" by (simp add: wp_wf_def wp_records_def sample_rp_def)
  from credentials_stay_well_formed [OF this] show ?thesis by blast
qed

section \<open>What the authenticator makes is accepted where it belongs\<close>

lemma verify_client_data_made:
  "verify_client_data rp (json_compact (client_data t ch origin)) t' ch' =
     (if t = t' \<and> ch = ch' \<and> origin \<in> set (wp_origins rp)
      then Inr [(''type'', PStr t), (''challenge'', PStr (b64u_encode ch)), (''origin'', PStr origin), (''crossOrigin'', PBool False)]
      else Inl WebAuthnError)"
proof -
  have "json_clean (client_data t ch origin)" by (simp add: client_data_def)
  then have "bind_res (utf8_decode (json_compact (client_data t ch origin))) json_loads = Inr (client_data t ch origin)"
    by (simp add: json_compact_def json_loads_dumps)
  then show ?thesis
    by (auto simp: verify_client_data_def client_data_def as_dict_def challenge_bytes_def)
qed

lemma authenticator_data_bytes:
  "authenticator_data rp_id flags n att = Inr data \<longleftrightarrow>
     0 \<le> n \<and> n < 2 ^ 32 \<and> data = sha256 (utf8_encode rp_id) @ [flags] @ nat_be 4 (nat n) @ att"
  by (auto simp: authenticator_data_def pack_u32_def bind_res_Inr_iff)

lemma parse_made:
  fixes rp_id flags
  assumes "n < 2 ^ 32"
  defines "p \<equiv> \<lparr>ad_rp_id_hash = sha256 (utf8_encode rp_id), ad_flags = flags, ad_sign_count = n,
      ad_aaguid = [], ad_credential_id = [], ad_cose_key = []\<rparr>"
  shows "\<not> has_attested_credential p \<Longrightarrow>
      parse_authenticator_data (sha256 (utf8_encode rp_id) @ [flags] @ nat_be 4 n @ att) = Inr p"
    "has_attested_credential p \<Longrightarrow> length i < 2 ^ 16 \<Longrightarrow>
      parse_authenticator_data (sha256 (utf8_encode rp_id) @ [flags] @ nat_be 4 n @ attested_data i cose) =
        Inr (p\<lparr>ad_aaguid := LAB_AAGUID, ad_credential_id := i, ad_cose_key := cose\<rparr>)"
proof -
  have n: "be_nat (nat_be 4 n) = n" using assms(1) by (simp add: be_nat_be)
  show "\<not> has_attested_credential p \<Longrightarrow>
      parse_authenticator_data (sha256 (utf8_encode rp_id) @ [flags] @ nat_be 4 n @ att) = Inr p"
    by (simp add: parse_authenticator_data_def p_def Let_def n nth_append)
  assume a: "has_attested_credential p" and i: "length i < 2 ^ 16"
  have l: "be_nat (nat_be 2 (length i)) = length i" using i by (simp add: be_nat_be)
  have g: "length LAB_AAGUID = 16" by (simp add: LAB_AAGUID_def)
  have d: "drop (23 + length i) (flags # nat_be 4 n @ LAB_AAGUID @ nat_be 2 (length i) @ i @ cose) = cose"
  proof -
    have "23 + length i = Suc (length (nat_be 4 n @ LAB_AAGUID @ nat_be 2 (length i) @ i))" by (simp add: g)
    then show ?thesis by (simp only: drop_Suc_Cons) simp
  qed
  from a show "parse_authenticator_data (sha256 (utf8_encode rp_id) @ [flags] @ nat_be 4 n @ attested_data i cose) =
        Inr (p\<lparr>ad_aaguid := LAB_AAGUID, ad_credential_id := i, ad_cose_key := cose\<rparr>)"
    by (simp add: parse_authenticator_data_def p_def Let_def n l g d nth_append attested_data_def)
qed

lemma ceremony_flag_bits:
  fixes va uv
  defines "f \<equiv> ceremony_flags va FLAG_UP uv" and "g \<equiv> ceremony_flags va (FLAG_UP OR FLAG_AT) uv"
  shows "f AND FLAG_UP \<noteq> 0" "f AND FLAG_AT = 0" "f AND FLAG_UV \<noteq> 0 \<longleftrightarrow> uv \<and> va_supports_uv va"
    "f AND FLAG_BS \<noteq> 0 \<longleftrightarrow> va_is_platform_passkey va"
    "g AND FLAG_UP \<noteq> 0" "g AND FLAG_AT \<noteq> 0" "g AND FLAG_UV \<noteq> 0 \<longleftrightarrow> uv \<and> va_supports_uv va"
    "g AND FLAG_BS \<noteq> 0 \<longleftrightarrow> va_is_platform_passkey va" "g AND FLAG_BE \<noteq> 0 \<longleftrightarrow> va_is_platform_passkey va"
  by (auto simp: f_def g_def ceremony_flags_def flag_defs)


definition assertion_count :: "stored_credential \<Rightarrow> int option \<Rightarrow> authenticator \<Rightarrow> int" where
  "assertion_count c override va =
     (case override of Some n \<Rightarrow> n | None \<Rightarrow> if va_is_platform_passkey va then 0 else int (sc_sign_count c) + 1)"

definition assertion_bytes :: "string \<Rightarrow> bool \<Rightarrow> int \<Rightarrow> authenticator \<Rightarrow> byte list" where
  "assertion_bytes rp_id uv n va =
     sha256 (utf8_encode rp_id) @ [ceremony_flags va FLAG_UP uv] @ nat_be 4 (nat n)"

definition made_assertion :: "stored_credential \<Rightarrow> byte list \<Rightarrow> byte list \<Rightarrow> byte list \<Rightarrow> webauthn_credential" where
  "made_assertion c client_data_json auth sg =
     \<lparr>wc_raw_id = Some (sc_credential_id c),
      wc_response = Some [(''clientDataJSON'', client_data_json), (''authenticatorData'', auth),
        (''signature'', sg), (''userHandle'', sc_user_handle c)]\<rparr>"

lemma get_assertion_run:
  fixes ov challenge origin
  assumes "assertion_candidates rp_id cid va = c # cs"
  defines "n \<equiv> assertion_count c ov va" and "cdj \<equiv> json_compact (client_data ''webauthn.get'' challenge origin)"
  shows "fst (get_assertion rp_id origin challenge cid uv ov va) =
     (if \<not> (0 \<le> n \<and> n < 2 ^ 32) then Inl (Py StructError)
      else case credential_signature (sc_private_key c) (assertion_bytes rp_id uv n va @ sha256 cdj) of
             Inl e \<Rightarrow> Inl (Py e)
           | Inr sg \<Rightarrow> Inr (made_assertion c cdj (assertion_bytes rp_id uv n va) sg))"
proof -
  obtain va' where nc: "next_count c ov va = (Inr n, va')"
    by (auto simp: next_count_def n_def assertion_count_def Let_def split: option.splits)
  show ?thesis
    using assms(1)
    by (auto simp: get_assertion_def bindM_def nc authenticator_data_def pack_u32_def Let_def cdj_def [symmetric]
        assertion_bytes_def made_assertion_def split: sum.splits)
qed

lemma check_assertion_made:
  assumes "0 \<le> n" "n < 2 ^ 32"
  shows "isOk (check_assertion rp (made_assertion c (json_compact (client_data ''webauthn.get'' challenge origin))
       (assertion_bytes rp_id uv n va) sg) ch) \<longleftrightarrow>
     challenge = ch \<and> origin \<in> set (wp_origins rp) \<and>
     (\<exists>r. find_credential (Some (sc_credential_id c)) rp = Some r \<and>
        (sc_user_handle c = [] \<or> sc_user_handle c = rg_user_handle r) \<and>
        sha256 (utf8_encode rp_id) = sha256 (utf8_encode (wp_rp_id rp)) \<and>
        (if wp_require_uv rp then uv \<and> va_supports_uv va else True) \<and>
        verify_credential_signature (rg_public_key r)
          (assertion_bytes rp_id uv n va @ sha256 (json_compact (client_data ''webauthn.get'' challenge origin))) sg = Inr True \<and>
        advances (rg_sign_count r) (nat n))"
proof -
  define p where "p = \<lparr>ad_rp_id_hash = sha256 (utf8_encode rp_id), ad_flags = ceremony_flags va FLAG_UP uv,
      ad_sign_count = nat n, ad_aaguid = [], ad_credential_id = [], ad_cose_key = []\<rparr>"
  have "nat n < 2 ^ 32" using assms by (simp add: nat_less_iff)
  from parse_made(1) [OF this, of rp_id "ceremony_flags va FLAG_UP uv" "[]"] ceremony_flag_bits(2) [of va uv]
  have parse: "parse_authenticator_data (assertion_bytes rp_id uv n va) = Inr p"
    by (simp add: p_def assertion_bytes_def has_attested_credential_def)
  have flags: "verify_flags rp p = (if wp_require_uv rp \<longrightarrow> uv \<and> va_supports_uv va then Inr () else Inl WebAuthnError)"
    using ceremony_flag_bits(1,3) [of va uv]
    by (simp add: verify_flags_def user_present_def user_verified_def p_def)
  have adv: "isOk (advance_credential r p) \<longleftrightarrow> advances (rg_sign_count r) (nat n)" for r
    by (auto simp: advance_credential_def check_sign_count_def advances_def p_def)
  have sig: "isOk (bind_res m (\<lambda>ok. if \<not> ok then Inl WebAuthnError else advance_credential r p)) \<longleftrightarrow>
      m = Inr True \<and> advances (rg_sign_count r) (nat n)" for m :: "exn + bool" and r
    using adv [of r] by (cases m) auto
  have ph: "ad_rp_id_hash p = sha256 (utf8_encode rp_id)" by (simp add: p_def)
  show ?thesis
    by (auto simp: check_assertion_def made_assertion_def wc_dict_def wc_item_def verify_client_data_made parse
        verify_rp_id_hash_def ph flags sig split: option.split)
qed

text \<open>When the party accepts the assertion that a credential makes.\<close>

lemma made_assertion_accepted:
  assumes n: "0 \<le> n" "n < 2 ^ 32"
    and cdj_def: "cdj = json_compact (client_data ''webauthn.get'' challenge origin)"
    and a_def: "a = made_assertion c cdj (assertion_bytes rp_id uv n va) sg"
  shows "isOk (fst (verify_authentication sid a rp)) \<longleftrightarrow>
    (\<exists>t r. dget (wp_pending rp) sid = Some (challenge, t, ''webauthn.get'') \<and>
       wp_now rp - t \<le> wp_challenge_ttl rp \<and> origin \<in> set (wp_origins rp) \<and>
       sha256 (utf8_encode rp_id) = sha256 (utf8_encode (wp_rp_id rp)) \<and>
       find_credential (Some (sc_credential_id c)) rp = Some r \<and>
       (sc_user_handle c = [] \<or> sc_user_handle c = rg_user_handle r) \<and>
       (if wp_require_uv rp then uv \<and> va_supports_uv va else True) \<and>
       verify_credential_signature (rg_public_key r) (assertion_bytes rp_id uv n va @ sha256 cdj) sg = Inr True \<and>
       advances (rg_sign_count r) (nat n))"
proof (cases rule: take_challenge_cases [of rp sid "''webauthn.get''"])
  case (taken ch t)
  let ?rp = "rp\<lparr>wp_pending := ddel sid (wp_pending rp)\<rparr>"
  have "find_credential i ?rp = find_credential i rp" for i
    by (simp add: find_credential_def split: option.split list.split)
  with check_assertion_made [of n ?rp c challenge origin rp_id uv va sg ch] n
  have "isOk (check_assertion ?rp a ch) \<longleftrightarrow> challenge = ch \<and> origin \<in> set (wp_origins rp) \<and>
     (\<exists>r. find_credential (Some (sc_credential_id c)) rp = Some r \<and>
        (sc_user_handle c = [] \<or> sc_user_handle c = rg_user_handle r) \<and>
        sha256 (utf8_encode rp_id) = sha256 (utf8_encode (wp_rp_id rp)) \<and>
        (if wp_require_uv rp then uv \<and> va_supports_uv va else True) \<and>
        verify_credential_signature (rg_public_key r) (assertion_bytes rp_id uv n va @ sha256 cdj) sg = Inr True \<and>
        advances (rg_sign_count r) (nat n))"
    by (simp add: a_def cdj_def)
  moreover have "isOk (fst (verify_authentication sid a rp)) = isOk (check_assertion ?rp a ch)"
    using taken(3) by (simp add: verify_authentication_run isOk_def split: sum.split)
  ultimately show ?thesis using taken(1,2) by auto
qed (auto simp: verify_authentication_run take_challenge_def split: if_splits)

text \<open>
  C8: An assertion is accepted exactly where it was made for.  The authenticator makes no assertion for an RP
  identifier it holds no credential of.  The one it makes for its first matching credential is accepted
  by a relying party, in a session, exactly when the challenge it was given is the one pending for
  authentication in that session and not expired, the origin it was given is one of the party's, the RP
  identifiers have the same hash, the party has stored a credential with that identifier for that
  user, the user was verified where that is required, the signature the authenticator has made
  verifies under the stored key over the authenticator data and the hash of the client data, and
  the counter advances.
\<close>

theorem assertion_accepted_exactly:
  "case assertion_candidates rp_id cid va of
     [] \<Rightarrow> get_assertion rp_id origin challenge cid uv ov va = (Inl (Py ValueError), va)
   | c # _ \<Rightarrow>
       (let n = assertion_count c ov va; cdj = json_compact (client_data ''webauthn.get'' challenge origin);
            message = assertion_bytes rp_id uv n va @ sha256 cdj in
        case fst (get_assertion rp_id origin challenge cid uv ov va) of
          Inl e \<Rightarrow> e = Py StructError \<or> credential_signature (sc_private_key c) message \<in> range Inl
        | Inr a \<Rightarrow>
            isOk (fst (verify_authentication sid a rp)) \<longleftrightarrow>
              (\<exists>t r sg. dget (wp_pending rp) sid = Some (challenge, t, ''webauthn.get'') \<and>
                 wp_now rp - t \<le> wp_challenge_ttl rp \<and> origin \<in> set (wp_origins rp) \<and>
                 sha256 (utf8_encode rp_id) = sha256 (utf8_encode (wp_rp_id rp)) \<and>
                 find_credential (Some (sc_credential_id c)) rp = Some r \<and>
                 (sc_user_handle c = [] \<or> sc_user_handle c = rg_user_handle r) \<and>
                 (if wp_require_uv rp then uv \<and> va_supports_uv va else True) \<and>
                 credential_signature (sc_private_key c) message = Inr sg \<and>
                 verify_credential_signature (rg_public_key r) message sg = Inr True \<and>
                 advances (rg_sign_count r) (nat n)))"
proof (cases "assertion_candidates rp_id cid va")
  case Nil
  then show ?thesis by (simp add: get_assertion_def bindM_step)
next
  case (Cons c cs)
  define n cdj where "n = assertion_count c ov va" and "cdj = json_compact (client_data ''webauthn.get'' challenge origin)"
  define message where "message = assertion_bytes rp_id uv n va @ sha256 cdj"
  note run = get_assertion_run [OF Cons, of origin challenge uv ov, folded n_def cdj_def, folded message_def]
  show ?thesis
  proof (cases "0 \<le> n \<and> n < 2 ^ 32")
    case False
    with run show ?thesis by (simp add: Cons Let_def)
  next
    case True
    show ?thesis
    proof (cases "credential_signature (sc_private_key c) message")
      case (Inl e)
      with run True show ?thesis by (simp add: Cons Let_def n_def [symmetric] cdj_def [symmetric] message_def [symmetric])
    next
      case (Inr sg)
      define a where "a = made_assertion c cdj (assertion_bytes rp_id uv n va) sg"
      have "fst (get_assertion rp_id origin challenge cid uv ov va) = Inr a" using run True Inr by (simp add: a_def)
      moreover note made_assertion_accepted [OF _ _ cdj_def a_def, of sid rp, folded message_def]
      ultimately show ?thesis
        using Inr True by (simp add: Cons Let_def n_def [symmetric] cdj_def [symmetric] message_def [symmetric])
    qed
  qed
qed


lemma cose_encoded_short: "storable k \<Longrightarrow> length (encoded (CMap (cose_map k))) < 100"
proof (cases k)
  case (EcKey pt)
  then show ?thesis
    by (auto simp: encoded_def encode_head_def cose_labels canonical_key_def push_bit_eq_mult split: option.split)
next
  case (EdKey raw)
  moreover assume "storable k"
  ultimately show ?thesis using storable_ed_length [of raw]
    by (auto simp: encoded_def encode_head_def cose_labels canonical_key_def push_bit_eq_mult)
qed

definition attestation_object :: "string \<Rightarrow> cbor \<Rightarrow> byte list \<Rightarrow> cbor" where
  "attestation_object fmt stmt auth =
     CMap [(CText ''fmt'', CText fmt), (CText ''attStmt'', stmt), (CText ''authData'', CBytes auth)]"

lemma attestation_object_canonical:
  "canonical (attestation_object ''none'' (CMap []) auth) = attestation_object ''none'' (CMap []) auth"
  "length auth < 2 ^ 64 \<Longrightarrow> valid_cbor (attestation_object ''none'' (CMap []) auth)"
  by (simp_all add: attestation_object_def encoded_def encode_head_def utf8_encode_def utf8_char_def canonical_key_def
      push_bit_eq_mult Let_def)

lemma attestation_object_read:
  "require_members (attestation_object fmt stmt auth) = Inr ()"
  "cbor_item (attestation_object fmt stmt auth) ''authData'' = Inr (CBytes auth)"
  "cbor_item (attestation_object fmt stmt auth) ''fmt'' = Inr (CText fmt)"
  by (simp_all add: attestation_object_def require_members_def cbor_member_def cbor_item_def cbor_has_key_def cbor_get_def)

lemma find_stored:
  assumes "wp_wf rp" "\<not> claimed (rg_user_handle r) (rg_credential_id r) rp" "rg_credential_id r \<noteq> []"
  shows "find_credential (Some (rg_credential_id r)) (store_credential r rp) = Some r"
proof -
  let ?p = "\<lambda>x. rg_credential_id x = rg_credential_id r"
  have "set (wp_records (store_credential r rp)) = insert r (set (wp_records rp))"
    using records_store [of r rp] by (metis set_mset_add_mset_insert set_mset_mset union_mset_add_mset_right add.right_neutral)
  moreover have "\<not> ?p x" if "x \<in> set (wp_records rp)" for x
    using unclaimed [OF assms(2) _ that] assms(1) by (simp add: wp_wf_def)
  ultimately have "find ?p (wp_records (store_credential r rp)) = Some r"
    by (cases "find ?p (wp_records (store_credential r rp))")
      (auto simp: find_None_iff, auto simp: find_Some_iff dest: nth_mem)
  with assms(3) show ?thesis by (cases "rg_credential_id r") (simp_all add: find_credential_def)
qed

text \<open>What the authenticator returns for a registration, and how the party reads it.\<close>

lemma credential_made:
  assumes "draw_key va = (Inr key, va1)" "credential_public key = Inr pk" "storable pk" "attestation \<noteq> ''packed''"
  obtains i va2 cose obj auth where "i = fst (random_bytes 32 (va_rng va1))" "i \<noteq> []" "va_supports_uv va2 = va_supports_uv va1"
    "cose_decode_public_key (CBytes cose) = Inr pk" "cbor_decode obj = Inr (attestation_object ''none'' (CMap []) auth)"
    "parse_authenticator_data auth = Inr \<lparr>ad_rp_id_hash = sha256 (utf8_encode rp_id), ad_flags = ceremony_flags va2 (FLAG_UP OR FLAG_AT) uv,
       ad_sign_count = 0, ad_aaguid = LAB_AAGUID, ad_credential_id = i, ad_cose_key = cose\<rparr>"
    "make_credential rp_id origin challenge user uv attestation va =
       (Inr \<lparr>wc_raw_id = Some i, wc_response = Some [(''clientDataJSON'', json_compact (client_data ''webauthn.create'' challenge origin)),
                                                   (''attestationObject'', obj)]\<rparr>,
        va2\<lparr>va_credentials := dset i \<lparr>sc_credential_id = i, sc_private_key = key, sc_rp_id = rp_id, sc_user_handle = user,
          sc_sign_count = 0, sc_algorithm = va_algorithm va2\<rparr> (va_credentials va2)\<rparr>)"
proof -
  define i va2 where "i = fst (random_bytes 32 (va_rng va1))" and "va2 = snd (draw_credential_id va1)"
  have id: "draw_credential_id va1 = (Inr i, va2)" "length i = 32"
    by (auto simp: i_def va2_def draw_credential_id_def random_bytes_def split: prod.split)
  have same: "va_supports_uv va2 = va_supports_uv va1"
    by (simp add: va2_def draw_credential_id_def split: prod.split)
  define cose flags cdj where "cose = encoded (CMap (cose_map pk))"
    and "flags = ceremony_flags va2 (FLAG_UP OR FLAG_AT) uv"
    and "cdj = json_compact (client_data ''webauthn.create'' challenge origin)"
  have cose: "encode_public key = Inr cose" "cose_decode_public_key (CBytes cose) = Inr pk"
    using cose_key_read [OF assms(3)] cose_encode_map [OF assms(3)] cbor_prefix_roundtrip(1) [OF cose_encode_map(2) [OF assms(3)]]
    by (simp_all add: encode_public_def assms(2) cose_def)
  define auth where "auth = sha256 (utf8_encode (rp_id)) @ [flags] @ nat_be 4 0 @ attested_data i cose"
  have auth: "authenticator_data (rp_id) flags 0 (attested_data i cose) = Inr auth"
    by (simp add: authenticator_data_bytes auth_def)
  have "length auth < 2 ^ 64"
    using cose_encoded_short [OF assms(3)] id(2) by (simp add: auth_def attested_data_def LAB_AAGUID_def cose_def)
  note valid = attestation_object_canonical(2) [OF this]
  define obj where "obj = encoded (attestation_object ''none'' (CMap []) auth)"
  have obj: "cbor_encode (attestation_object ''none'' (CMap []) auth) = Inr obj"
    "cbor_decode obj = Inr (attestation_object ''none'' (CMap []) auth)"
    using cbor_prefix_roundtrip [OF valid] by (simp_all add: obj_def attestation_object_canonical(1))
  define p where "p = \<lparr>ad_rp_id_hash = sha256 (utf8_encode (rp_id)), ad_flags = flags, ad_sign_count = 0,
      ad_aaguid = LAB_AAGUID, ad_credential_id = i, ad_cose_key = cose\<rparr>"
  note bits = ceremony_flag_bits(5-7) [of va2 uv, folded flags_def]
  have parse: "parse_authenticator_data auth = Inr p"
    using parse_made(2) [of 0 "rp_id" flags i cose] bits(2) id(2)
    by (simp add: p_def auth_def has_attested_credential_def)
  define cred where "cred = \<lparr>wc_raw_id = Some i, wc_response = Some [(''clientDataJSON'', cdj), (''attestationObject'', obj)]\<rparr>"
  define c where "c = \<lparr>sc_credential_id = i, sc_private_key = key, sc_rp_id = rp_id, sc_user_handle = user,
          sc_sign_count = 0, sc_algorithm = va_algorithm va2\<rparr>"
  have made: "make_credential (rp_id) origin challenge user uv attestation va =
      (Inr cred, va2\<lparr>va_credentials := dset i c (va_credentials va2)\<rparr>)"
    using obj(1) assms(4)
    by (simp add: make_credential_def bindM_def assms(1) id(1) Let_def flags_def [symmetric] cose(1) auth
        attestation_statement_def attestation_object_def [symmetric] cdj_def [symmetric] cred_def c_def)
  have "i \<noteq> []" using id(2) by auto
  from that [OF i_def this same cose(2) obj(2) parse [unfolded p_def flags_def] made [unfolded cred_def c_def cdj_def]]
  show thesis .
qed

text \<open>The two sides composed, with attestation \<open>none\<close>.\<close>

lemma registration_succeeds:
  assumes "draw_key va = (Inr key, va1)" "credential_public key = Inr pk" "storable pk"
    and "dget (wp_pending rp) sid = Some (challenge, t, ''webauthn.create'')" "wp_now rp - t \<le> wp_challenge_ttl rp"
    and "origin \<in> set (wp_origins rp)" "if wp_require_uv rp then uv \<and> va_supports_uv va1 else True"
    and "wp_wf rp" "\<not> claimed user (fst (random_bytes 32 (va_rng va1))) rp" "attestation \<noteq> ''packed''"
  shows "\<exists>credential va' r rp'. make_credential (wp_rp_id rp) origin challenge user uv attestation va = (Inr credential, va') \<and>
     verify_registration sid credential user rp = (Inr r, rp') \<and>
     rg_public_key r = pk \<and> rg_user_handle r = user \<and> rg_sign_count r = 0 \<and>
     find_credential (wc_raw_id credential) rp' = Some r \<and> wp_wf rp' \<and>
     map_option (\<lambda>c. (sc_private_key c, sc_rp_id c, sc_user_handle c))
       (dget (va_credentials va') (rg_credential_id r)) = Some (key, wp_rp_id rp, user)"
proof -
  obtain i va2 cose obj auth where i_def: "i = fst (random_bytes 32 (va_rng va1))" and "i \<noteq> []"
    and same: "va_supports_uv va2 = va_supports_uv va1" and cose: "cose_decode_public_key (CBytes cose) = Inr pk"
    and obj: "cbor_decode obj = Inr (attestation_object ''none'' (CMap []) auth)"
    and parse: "parse_authenticator_data auth = Inr \<lparr>ad_rp_id_hash = sha256 (utf8_encode (wp_rp_id rp)),
       ad_flags = ceremony_flags va2 (FLAG_UP OR FLAG_AT) uv, ad_sign_count = 0, ad_aaguid = LAB_AAGUID, ad_credential_id = i, ad_cose_key = cose\<rparr>"
      (is "_ = Inr ?p")
    and made: "make_credential (wp_rp_id rp) origin challenge user uv attestation va =
       (Inr \<lparr>wc_raw_id = Some i, wc_response = Some [(''clientDataJSON'', json_compact (client_data ''webauthn.create'' challenge origin)),
                                                   (''attestationObject'', obj)]\<rparr>,
        va2\<lparr>va_credentials := dset i \<lparr>sc_credential_id = i, sc_private_key = key, sc_rp_id = wp_rp_id rp, sc_user_handle = user,
          sc_sign_count = 0, sc_algorithm = va_algorithm va2\<rparr> (va_credentials va2)\<rparr>)"
      (is "_ = (Inr ?cred, ?va)")
    using credential_made [OF assms(1-3,10)] .
  define p where "p = ?p"
  let ?rp = "rp\<lparr>wp_pending := ddel sid (wp_pending rp)\<rparr>"
  define r where "r = \<lparr>rg_credential_id = i, rg_public_key = pk, rg_user_handle = user, rg_sign_count = 0,
      rg_aaguid = LAB_AAGUID, rg_backup_eligible = backup_eligible p, rg_backup_state = backup_state p, rg_transports = []\<rparr>"
  have free: "\<not> claimed user i ?rp" using assms(9) by (simp add: claimed_def user_credentials_def i_def)
  have flags_ok: "verify_flags ?rp p = Inr ()" "has_attested_credential p" "verify_rp_id_hash ?rp p = Inr ()"
    using ceremony_flag_bits(5-7) [of va2 uv] assms(7) same
    by (auto simp: verify_flags_def user_present_def user_verified_def has_attested_credential_def verify_rp_id_hash_def p_def split: if_splits)
  have fields: "ad_cose_key p = cose" "ad_credential_id p = i" "ad_sign_count p = 0" "ad_aaguid p = LAB_AAGUID"
    by (simp_all add: p_def)
  have checked: "check_registration ?rp ?cred user challenge = Inr r"
    using assms(6) by (simp add: check_registration_def wc_dict_def wc_item_def verify_client_data_made obj attestation_object_read
        parse_attested_def parse [folded p_def] flags_ok fields cose free r_def)
  have taken: "take_challenge sid ''webauthn.create'' rp = (Inr challenge, ?rp)"
    using assms(4,5) by (simp add: take_challenge_def)
  have reg: "verify_registration sid ?cred user rp = (Inr r, store_credential r ?rp)"
    by (simp add: verify_registration_run taken checked)
  have wf: "wp_wf ?rp" using assms(8) wp_wf_cong [of ?rp rp] by (simp add: identities_def)
  with find_stored [OF wf, of r] free \<open>i \<noteq> []\<close> have found: "find_credential (Some i) (store_credential r ?rp) = Some r"
    by (simp add: r_def)
  have "wp_wf (store_credential r ?rp)"
    by (rule wp_wf_store [OF wf]) (use assms(3) unclaimed [OF free] wf in \<open>auto simp: r_def wp_wf_def\<close>)
  with made reg found show ?thesis
    by (intro exI [of _ ?cred] exI [of _ ?va] exI [of _ r] exI [of _ "store_credential r ?rp"]) (simp add: r_def)
qed

text \<open>
  C22: Registration completes.  When the authenticator draws a key whose public part is a valid key, and makes
  a credential without attestation for the RP identifier of the party, one of its origins and the
  challenge pending in the session, with the user verified where that is required and an identifier
  that is not yet registered, then the party accepts the response: it stores that public key for the
  user under that identifier with counter zero, and finds it again; the authenticator holds the private
  key for that party and user.
\<close>

theorem registration_completes:
  assumes "draw_key va = (Inr key, va1)" "credential_public key = Inr pk" "storable pk"
    and "dget (wp_pending rp) sid = Some (challenge, t, ''webauthn.create'')" "wp_now rp - t \<le> wp_challenge_ttl rp"
    and "origin \<in> set (wp_origins rp)" "if wp_require_uv rp then uv \<and> va_supports_uv va1 else True"
    and "wp_wf rp" "\<not> claimed user (fst (random_bytes 32 (va_rng va1))) rp" "attestation \<noteq> ''packed''"
  shows "\<exists>credential va' r rp'. make_credential (wp_rp_id rp) origin challenge user uv attestation va = (Inr credential, va') \<and>
     verify_registration sid credential user rp = (Inr r, rp') \<and>
     rg_public_key r = pk \<and> rg_user_handle r = user \<and> rg_sign_count r = 0 \<and>
     find_credential (wc_raw_id credential) rp' = Some r \<and> wp_wf rp' \<and>
     map_option (\<lambda>c. (sc_private_key c, sc_rp_id c, sc_user_handle c))
       (dget (va_credentials va') (rg_credential_id r)) = Some (key, wp_rp_id rp, user)"
  using registration_succeeds [OF assms] .

definition sample_authenticator :: authenticator where
  "sample_authenticator = \<lparr>va_credentials = [], va_supports_uv = True, va_is_platform_passkey = False,
     va_algorithm = COSE_ES256, va_rng = \<lparr>tape = (\<lambda>i j. 0), drawn = 0\<rparr>\<rparr>"

lemma sample_key:
  "draw_key sample_authenticator = (Inr (EcPriv \<lparr>ec_d = 1, ec_curve = SECP256R1\<rparr>),
     sample_authenticator\<lparr>va_rng := \<lparr>tape = (\<lambda>i j. 0), drawn = 1\<rparr>\<rparr>)"
proof -
  have z: "be_nat (map (\<lambda>j. 0) [0..<k]) = 0" for k by (induction k) simp_all
  have "randbelow (nat (c_n SECP256R1 - 1)) \<lparr>tape = (\<lambda>i j. 0), drawn = 0\<rparr> = Some (0, \<lparr>tape = (\<lambda>i j. 0), drawn = 1\<rparr>)"
    by (subst randbelow.simps) (simp add: randbits_def random_bytes_def z SECP256R1_def)
  then show ?thesis
    by (simp add: draw_key_def sample_authenticator_def COSE_ES256_def COSE_EDDSA_def generate_ec_keypair_def)
qed

lemma coprime_from_bezout: "a * i - m * k = 1 \<Longrightarrow> coprime a m" for a m :: int
  by (rule coprimeI) (metis dvd_diff dvd_mult2)

lemma double_generator: "\<exists>pt. point_double (generator SECP256R1) = Inr pt"
proof -
  have "coprime (2 * c_gy SECP256R1) (c_p SECP256R1)"
    by (rule coprime_from_bezout [where i = 56574125023949875979384902335110527424677819735484098786822054576870411640858 and k = 35309210589683494302392137345040548434310816535587002872989385831070665349693]) (simp add: SECP256R1_def)
  then obtain i where "inv_mod (2 * c_gy SECP256R1) (c_p SECP256R1) = Inr i"
    using inv_mod_defined [of "c_p SECP256R1" "2 * c_gy SECP256R1"] by (auto simp: SECP256R1_def)
  then show ?thesis by (simp add: point_double_def generator_def Let_def)
qed

lemma sample_public: "credential_public (EcPriv \<lparr>ec_d = 1, ec_curve = SECP256R1\<rparr>) = Inr (EcKey (generator SECP256R1))"
proof -
  obtain d where d: "point_double (generator SECP256R1) = Inr d" using double_generator by blast
  have "c_n SECP256R1 > 1" by (simp add: SECP256R1_def)
  moreover have "bit_length (Suc 0) = 1" by code_simp
  moreover have "point_add (infinity SECP256R1) (generator SECP256R1) = Inr (generator SECP256R1)"
    by (simp add: point_add_def infinity_def)
  ultimately have "scalar_mult 1 (generator SECP256R1) = Inr (generator SECP256R1)"
    by (simp add: scalar_mult_def ladder_step_def d generator_def Let_def d [unfolded generator_def] bit_0)
  then show ?thesis by (simp add: credential_public_def ec_public_of_def)
qed

lemma sample_storable: "storable (EcKey (generator SECP256R1))"
proof -
  let ?c = SECP256R1
  have "c_gy ?c * c_gy ?c - (c_gx ?c * c_gx ?c * c_gx ?c + curve_a ?c * c_gx ?c + c_b ?c) = c_p ?c * (-981570988164258562257936101525215858910690391106138407341175333813841188485250211304702756335769806812218430760112952189411297841053183197247161910150894)"
    by (simp add: SECP256R1_def curve_a_def)
  then have "(c_gy ?c * c_gy ?c - (c_gx ?c * c_gx ?c * c_gx ?c + curve_a ?c * c_gx ?c + c_b ?c)) mod c_p ?c = 0"
    by (simp only: mod_mult_self1_is_0)
  moreover have "0 \<le> c_gx ?c \<and> c_gx ?c < c_p ?c \<and> 0 \<le> c_gy ?c \<and> c_gy ?c < c_p ?c" by (simp add: SECP256R1_def)
  ultimately show ?thesis by (simp add: storable_def generator_def is_on_curve_def Let_def)
qed

theorem registration_completes_witness:
  "\<exists>credential va' r rp'. make_credential ''auth-lab.local'' ''https://auth-lab.local'' [1, 2, 3] [7] True ''none'' sample_authenticator = (Inr credential, va') \<and>
     verify_registration ''s'' credential [7] (sample_rp\<lparr>wp_pending := [(''s'', [1, 2, 3], 900, ''webauthn.create'')]\<rparr>) = (Inr r, rp') \<and>
     rg_public_key r = EcKey (generator SECP256R1)"
proof -
  let ?rp = "sample_rp\<lparr>wp_pending := [(''s'', [1, 2, 3], 900, ''webauthn.create'')]\<rparr>"
  have "wp_wf ?rp" "\<not> claimed [7] i ?rp" for i
    by (simp_all add: wp_wf_def wp_records_def sample_rp_def claimed_def user_credentials_def)
  with registration_completes [OF sample_key sample_public sample_storable, of ?rp "''s''" "[1, 2, 3]" 900
      "''https://auth-lab.local''" True "[7]" "''none''"]
  show ?thesis by (auto simp: sample_rp_def sample_authenticator_def)
qed

text \<open>A party, a user who registers, and another session in which the recorded response is sent again.\<close>

lemma ceremony_rng [simp]: "wp_rng (snd (verify_registration sid c u rp)) = wp_rng rp"
  by (cases rule: take_challenge_cases [of rp sid "''webauthn.create''"])
    (auto simp: verify_registration_run store_credential_def split: sum.splits)

theorem challenges_are_single_use_witness:
  "\<exists>c. run_accepted [RegistrationOptions ''s'' [7] ''alice'', Register ''s'' c [7],
       RegistrationOptions ''t'' [8] ''mallory'', Register ''t'' c [8]] sample_rp = [c]"
proof -
  let ?rp = "wp_exec (RegistrationOptions ''s'' [7] ''alice'') sample_rp"
  have rp: "wp_pending ?rp = [(''s'', replicate 32 0, 1000, ''webauthn.create'')]" "wp_now ?rp = 1000"
      "wp_challenge_ttl ?rp = 300" "wp_origins ?rp = [''https://auth-lab.local'']" "wp_require_uv ?rp" "wp_credentials ?rp = []"
      "wp_rng ?rp = \<lparr>tape = (\<lambda>i _. of_nat i), drawn = 1\<rparr>"
    by (simp_all add: wp_exec_def wp_create_challenge_def random_bytes_def sample_rp_def map_replicate_const)
  have "wp_wf ?rp" "\<not> claimed [7] i ?rp" for i
    using rp by (simp_all add: wp_wf_def wp_records_def claimed_def user_credentials_def)
  with registration_succeeds [OF sample_key sample_public sample_storable, of ?rp "''s''" "replicate 32 0" 1000
      "''https://auth-lab.local''" True "[7]" "''none''"]
  obtain c r rp' where "verify_registration ''s'' c [7] ?rp = (Inr r, rp')"
    by (simp add: rp sample_authenticator_def) blast
  then have c: "isOk (fst (verify_registration ''s'' c [7] ?rp))" by simp
  let ?steps = "[RegistrationOptions ''s'' [7] ''alice'', Register ''s'' c [7], RegistrationOptions ''t'' [8] ''mallory'', Register ''t'' c [8]]"
  have "(0 :: byte) \<noteq> 1" by simp
  then have "distinct (outstanding sample_rp @ run_issued ?steps sample_rp)"
    by (simp add: issued_def rp wp_exec_def [of "Register _ _ _"])
      (simp add: random_bytes_def sample_rp_def outstanding_def map_replicate_const)
  with challenges_are_single_use [of ?steps sample_rp "[]" "''s''" c "[7]" c]
  have dist: "distinct (run_accepted ?steps sample_rp)" by (simp only:)
  have "run_accepted ?steps sample_rp \<in> {[c], [c, c]}"
    using c by (simp add: accepted_in_def)
  moreover have "xs = [c]" if "distinct xs" "xs \<in> {[c], [c, c]}" for xs using that by auto
  ultimately have "run_accepted ?steps sample_rp = [c]" using dist by blast
  then show ?thesis by blast
qed

end
