(* ===== verification/Stdlib.thy ===== *)
theory Stdlib
  imports Json Hashing
begin

text \<open>
  What Kerberos, the password hashes and the directory use of Python's standard library beyond
  \<open>Json\<close>, \<open>Urls\<close> and \<open>Hashing\<close>: \<open>int(text)\<close> and \<open>hashlib.pbkdf2_hmac\<close>.  The limit of 4300 digits
  on \<open>int\<close> is not modelled.
\<close>

unbundle bit_operations_syntax

section \<open>Integers from text\<close>

text \<open>
  White space around the number, a sign, and single underscores between digits are allowed.  Only
  the ASCII digits are decimal among the characters of the model.
\<close>

definition int_digits :: "string \<Rightarrow> py_error + int" where
  "int_digits s =
     (if \<forall>g \<in> set (split_on (CHR ''_'') s). g \<noteq> [] \<and> (\<forall>c \<in> set g. is_digit c)
      then Inr (int (digits_value 0 (remove_char (CHR ''_'') s))) else Inl ValueError)"

definition py_int :: "string \<Rightarrow> py_error + int" where
  "py_int s =
     (case strip s of
        [] \<Rightarrow> Inl ValueError
      | c # r \<Rightarrow>
          (if c = CHR ''-'' then map_sum id uminus (int_digits r)
           else if c = CHR ''+'' then int_digits r
           else int_digits (c # r)))"

lemma int_digits_nat_digits: "int_digits (nat_digits n) = Inr (int n)"
proof -
  have d: "\<forall>c \<in> set (nat_digits n). is_digit c" using nat_digits_all by blast
  then have u: "CHR ''_'' \<notin> set (nat_digits n)" by (auto simp: is_digit_def)
  then have "filter (\<lambda>x. x \<noteq> CHR ''_'') (nat_digits n) = nat_digits n" by (auto intro: filter_True)
  with d u nat_digits_head [of n] show ?thesis
    by (auto simp: int_digits_def split_on_absent remove_char_def digits_value_nat_digits)
qed

lemma is_digit_ascii: "is_digit c \<Longrightarrow> \<not> is_space c \<and> (of_char c :: nat) < 128"
  by (auto simp: is_digit_def is_space_def Let_def)

lemma int_str_chars: "c \<in> set (int_str i) \<Longrightarrow> is_digit c \<or> c = CHR ''-''"
  by (auto simp: int_str_def dest: nat_digits_all split: if_splits)

lemma int_str_plain: "c \<in> set (int_str i) \<Longrightarrow> \<not> is_space c \<and> (of_char c :: nat) < 128"
proof -
  have "\<not> is_space (CHR ''-'')" "(of_char (CHR ''-'') :: nat) < 128" by (simp_all add: is_space_def)
  then show "c \<in> set (int_str i) \<Longrightarrow> \<not> is_space c \<and> (of_char c :: nat) < 128"
    using int_str_chars [of c i] is_digit_ascii [of c] by blast
qed

lemma strip_plain: "\<forall>c \<in> set s. \<not> is_space c \<Longrightarrow> strip s = s"
proof -
  have id: "dropWhile is_space t = t" if "\<forall>c \<in> set t. \<not> is_space c" for t
    using that by (cases t) auto
  assume "\<forall>c \<in> set s. \<not> is_space c"
  then show ?thesis by (simp add: strip_def id)
qed

lemma py_int_int_str [simp]: "py_int (int_str i) = Inr i"
proof -
  have "\<forall>c \<in> set (int_str i). \<not> is_space c" using int_str_plain by blast
  then have s: "strip (int_str i) = int_str i" by (rule strip_plain)
  obtain c r where d: "nat_digits (nat \<bar>i\<bar>) = c # r" "is_digit c" using nat_digits_head by blast
  then have "c \<noteq> CHR ''-''" "c \<noteq> CHR ''+''" by (auto simp: is_digit_def)
  with s d int_digits_nat_digits [of "nat \<bar>i\<bar>"] show ?thesis
    by (cases "i < 0") (simp_all add: py_int_def int_str_def)
qed

lemma is_ascii_int_str: "is_ascii (int_str i)"
  using int_str_plain by (auto simp: is_ascii_def)

lemma ascii_decode_encode: "ascii_encode s = Inr b \<Longrightarrow> ascii_decode b = Inr s"
proof -
  assume "ascii_encode s = Inr b"
  then have b: "b = map of_char s" "\<forall>c \<in> set s. (of_char c :: nat) < 128"
    by (auto simp: ascii_encode_def is_ascii_def split: if_splits)
  have u: "unat (of_char c :: byte) = (of_char c :: nat)" for c
    using unat_of_nat_byte [of "of_char c"] by (simp add: of_nat_of_char)
  show ?thesis using b(2) by (simp add: b(1) ascii_decode_def u comp_def)
qed

section \<open>PBKDF2\<close>

text \<open>The block of index \<open>i\<close>: the first value of the chain and the XOR of all of them.\<close>

definition pbkdf2_block :: "hash_alg \<Rightarrow> byte list \<Rightarrow> byte list \<Rightarrow> nat \<Rightarrow> nat \<Rightarrow> byte list" where
  "pbkdf2_block h password salt iterations i =
     (let u1 = hmac_alg h password (salt @ nat_be 4 i)
      in snd (((\<lambda>(u, t). let u' = hmac_alg h password u in (u', map2 (XOR) t u')) ^^ (iterations - 1)) (u1, u1)))"

definition pbkdf2_hmac :: "string \<Rightarrow> byte list \<Rightarrow> byte list \<Rightarrow> int \<Rightarrow> nat \<Rightarrow> py_error + byte list" where
  "pbkdf2_hmac name password salt iterations dklen =
     (case hash_named name of
        None \<Rightarrow> Inl Unmodelled
      | Some h \<Rightarrow>
          (if iterations < - (2 ^ 63) \<or> iterations \<ge> 2 ^ 63 then Inl OverflowError
           else if iterations < 1 \<or> dklen = 0 then Inl ValueError
           else Inr (take dklen (concat (map (\<lambda>i. pbkdf2_block h password salt (nat iterations) (i + 1))
                  [0..<(dklen + digest_size h - 1) div digest_size h])))))"

end
