(* ===== verification/Kdf.thy ===== *)
theory Kdf
  imports Stdlib
begin

text \<open>
  The hash functions of \<open>hashlib\<close> that the password hashes use: BLAKE2b (RFC 7693) without a key, and
  scrypt (RFC 7914) with the checks that \<open>hashlib.scrypt\<close> and OpenSSL make on its parameters.
\<close>

unbundle bit_operations_syntax

section \<open>Little-endian words\<close>

definition le_word :: "byte list \<Rightarrow> 'w::len word" where
  "le_word bs = of_nat (le_nat bs)"

definition word_le :: "'w::len word \<Rightarrow> byte list" where
  "word_le w = nat_le (LENGTH('w) div 8) (unat w)"

section \<open>BLAKE2b\<close>

definition B2_IV :: "64 word list" where
  "B2_IV = [0x6a09e667f3bcc908, 0xbb67ae8584caa73b, 0x3c6ef372fe94f82b, 0xa54ff53a5f1d36f1,
            0x510e527fade682d1, 0x9b05688c2b3e6c1f, 0x1f83d9abfb41bd6b, 0x5be0cd19137e2179]"

definition B2_SIGMA :: "nat list list" where
  "B2_SIGMA =
    [[0, 1, 2, 3, 4, 5, 6, 7, 8, 9, 10, 11, 12, 13, 14, 15],
     [14, 10, 4, 8, 9, 15, 13, 6, 1, 12, 0, 2, 11, 7, 5, 3],
     [11, 8, 12, 0, 5, 2, 15, 13, 10, 14, 3, 6, 7, 1, 9, 4],
     [7, 9, 3, 1, 13, 12, 11, 14, 2, 6, 5, 10, 4, 0, 15, 8],
     [9, 0, 5, 7, 2, 4, 10, 15, 14, 1, 11, 12, 6, 8, 3, 13],
     [2, 12, 6, 10, 0, 11, 8, 3, 4, 13, 7, 5, 15, 14, 1, 9],
     [12, 5, 1, 15, 14, 13, 4, 10, 0, 7, 6, 3, 9, 2, 8, 11],
     [13, 11, 7, 14, 12, 1, 3, 9, 5, 0, 15, 4, 8, 6, 2, 10],
     [6, 15, 14, 9, 11, 3, 0, 8, 12, 2, 13, 7, 1, 4, 10, 5],
     [10, 2, 8, 4, 7, 6, 1, 5, 15, 11, 9, 14, 3, 12, 13, 0]]"

text \<open>The four words that a mixing step works on: columns, then diagonals.\<close>

definition B2_MIXES :: "(nat \<times> nat \<times> nat \<times> nat) list" where
  "B2_MIXES = [(0, 4, 8, 12), (1, 5, 9, 13), (2, 6, 10, 14), (3, 7, 11, 15),
               (0, 5, 10, 15), (1, 6, 11, 12), (2, 7, 8, 13), (3, 4, 9, 14)]"

definition b2_mix :: "nat \<times> nat \<times> nat \<times> nat \<Rightarrow> 64 word \<Rightarrow> 64 word \<Rightarrow> 64 word list \<Rightarrow> 64 word list" where
  "b2_mix q x y v =
     (case q of (a, b, c, d) \<Rightarrow>
        let va = v ! a + v ! b + x; vd = word_rotr 32 (v ! d XOR va); vc = v ! c + vd; vb = word_rotr 24 (v ! b XOR vc);
            va = va + vb + y; vd = word_rotr 16 (vd XOR va); vc = vc + vd; vb = word_rotr 63 (vb XOR vc)
        in v[a := va, b := vb, c := vc, d := vd])"

definition b2_round :: "64 word list \<Rightarrow> nat \<Rightarrow> 64 word list \<Rightarrow> 64 word list" where
  "b2_round m r v =
     (let s = B2_SIGMA ! (r mod 10)
      in fold (\<lambda>(i, q). b2_mix q (m ! (s ! (2 * i))) (m ! (s ! (2 * i + 1)))) (zip [0..<8] B2_MIXES) v)"

definition b2_compress :: "nat \<Rightarrow> bool \<Rightarrow> byte list \<Rightarrow> 64 word list \<Rightarrow> 64 word list" where
  "b2_compress t final block h =
     (let m = map le_word (chunks 8 block);
          v = h @ B2_IV;
          v = v[12 := v ! 12 XOR of_nat t, 13 := v ! 13 XOR of_nat (t div 2 ^ 64)];
          v = (if final then v[14 := NOT (v ! 14)] else v);
          v = fold (b2_round m) [0..<12] v
      in map2 (XOR) h (map2 (XOR) (take 8 v) (drop 8 v)))"

text \<open>All blocks but the last are full; the counter is the number of bytes read so far.\<close>

fun b2_blocks :: "nat \<Rightarrow> byte list list \<Rightarrow> 64 word list \<Rightarrow> 64 word list" where
  "b2_blocks t [] h = b2_compress 0 True (replicate 128 0) h"
| "b2_blocks t [b] h = b2_compress (t + length b) True (b @ replicate (128 - length b) 0) h"
| "b2_blocks t (b # bs) h = b2_blocks (t + 128) bs (b2_compress (t + 128) False b h)"

definition blake2b :: "nat \<Rightarrow> byte list \<Rightarrow> byte list" where
  "blake2b n data =
     take n (concat (map word_le (b2_blocks 0 (chunks 128 data) (B2_IV[0 := B2_IV ! 0 XOR 0x01010000 XOR of_nat n]))))"

section \<open>scrypt\<close>

definition salsa_quarter :: "nat \<times> nat \<times> nat \<times> nat \<Rightarrow> 32 word list \<Rightarrow> 32 word list" where
  "salsa_quarter q x =
     (case q of (a, b, c, d) \<Rightarrow>
        let xb = x ! b XOR word_rotl 7 (x ! a + x ! d); xc = x ! c XOR word_rotl 9 (xb + x ! a);
            xd = x ! d XOR word_rotl 13 (xc + xb); xa = x ! a XOR word_rotl 18 (xd + xc)
        in x[a := xa, b := xb, c := xc, d := xd])"

definition SALSA_QUARTERS :: "(nat \<times> nat \<times> nat \<times> nat) list" where
  "SALSA_QUARTERS = [(0, 4, 8, 12), (5, 9, 13, 1), (10, 14, 2, 6), (15, 3, 7, 11),
                     (0, 1, 2, 3), (5, 6, 7, 4), (10, 11, 8, 9), (15, 12, 13, 14)]"

definition salsa20_8 :: "32 word list \<Rightarrow> 32 word list" where
  "salsa20_8 b = map2 (+) b (((\<lambda>x. fold salsa_quarter SALSA_QUARTERS x) ^^ 4) b)"

text \<open>Even blocks first, then the odd ones.\<close>

fun block_mix_loop :: "32 word list \<Rightarrow> 32 word list list \<Rightarrow> 32 word list list" where
  "block_mix_loop x [] = []"
| "block_mix_loop x (b # bs) = (let y = salsa20_8 (map2 (XOR) x b) in y # block_mix_loop y bs)"

definition block_mix :: "32 word list list \<Rightarrow> 32 word list list" where
  "block_mix bs =
     (let ys = block_mix_loop (last bs) bs; evens = filter even [0..<length ys]; odds = filter odd [0..<length ys]
      in map ((!) ys) evens @ map ((!) ys) odds)"

fun ro_fill :: "nat \<Rightarrow> 32 word list list \<Rightarrow> 32 word list list list \<Rightarrow> 32 word list list list \<times> 32 word list list" where
  "ro_fill 0 x vs = (rev vs, x)"
| "ro_fill (Suc k) x vs = ro_fill k (block_mix x) (x # vs)"

definition integerify :: "nat \<Rightarrow> 32 word list list \<Rightarrow> nat" where
  "integerify n x = (unat (last x ! 0) + 2 ^ 32 * unat (last x ! 1)) mod n"

definition ro_mix :: "nat \<Rightarrow> 32 word list list \<Rightarrow> 32 word list list" where
  "ro_mix n b =
     (case ro_fill n b [] of (vs, x) \<Rightarrow>
        ((\<lambda>x. block_mix (map2 (map2 (XOR)) x (vs ! integerify n x))) ^^ n) x)"

definition scrypt_lane :: "nat \<Rightarrow> byte list \<Rightarrow> byte list" where
  "scrypt_lane n lane =
     concat (map (\<lambda>b. concat (map word_le b)) (ro_mix n (map (\<lambda>b. map le_word (chunks 4 b)) (chunks 64 lane))))"

text \<open>
  The parameters that \<open>hashlib.scrypt\<close> refuses with \<open>ValueError\<close>.  What it does with integers that are
  negative or too large for its arguments depends on the version of Python.
\<close>

definition scrypt_limit :: nat where "scrypt_limit = 2 ^ 31 - 1"

definition power_of_two :: "nat \<Rightarrow> bool" where
  "power_of_two n \<longleftrightarrow> n = 2 ^ (bit_length n - 1)"

definition scrypt_refuses :: "nat \<Rightarrow> nat \<Rightarrow> nat \<Rightarrow> nat \<Rightarrow> nat \<Rightarrow> bool" where
  "scrypt_refuses n r p maxmem dklen \<longleftrightarrow>
     n < 2 \<or> \<not> power_of_two n \<or> maxmem > scrypt_limit \<or> dklen < 1 \<or> dklen > scrypt_limit
     \<or> r = 0 \<or> p = 0 \<or> p > (2 ^ 30 - 1) div r \<or> (16 * r \<le> 63 \<and> n \<ge> 2 ^ (16 * r))
     \<or> p * 128 * r > scrypt_limit \<or> p * 128 * r + 32 * r * (n + 2) * 4 > maxmem"

definition hashlib_scrypt :: "byte list \<Rightarrow> byte list \<Rightarrow> int \<Rightarrow> int \<Rightarrow> int \<Rightarrow> nat \<Rightarrow> int \<Rightarrow> py_error + byte list" where
  "hashlib_scrypt password salt n r p dklen maxmem =
     (if n < 0 \<or> r < 0 \<or> p < 0 \<or> maxmem < 0 \<or> n \<ge> 2 ^ 63 \<or> r \<ge> 2 ^ 63 \<or> p \<ge> 2 ^ 63 \<or> maxmem \<ge> 2 ^ 63 then Inl Unmodelled
      else if scrypt_refuses (nat n) (nat r) (nat p) (nat maxmem) dklen then Inl ValueError
      else bind_res (pbkdf2_hmac ''sha256'' password salt 1 (nat p * 128 * nat r)) (\<lambda>b.
        pbkdf2_hmac ''sha256'' password (concat (map (scrypt_lane (nat n)) (chunks (128 * nat r) b))) 1 dklen))"

section \<open>Lengths\<close>

lemma length_word_le [simp]: "length (word_le (w :: 'w::len word)) = LENGTH('w) div 8"
  by (simp add: word_le_def nat_le_def)

lemma length_b2_compress [simp]: "length h = 8 \<Longrightarrow> length (b2_compress t f b h) = 8"
proof -
  assume h: "length h = 8"
  have mix: "length (b2_mix q x y v) = length v" for q x y v
    by (cases q) (simp add: b2_mix_def Let_def)
  have fold: "length (fold (\<lambda>(i, q). b2_mix q (x i) (y i)) qs v) = length v" for qs and x y :: "nat \<Rightarrow> 64 word" and v
    by (induction qs arbitrary: v) (auto simp: mix split: prod.split)
  have "length (b2_round m r v) = length v" for m r v by (simp add: b2_round_def Let_def fold)
  then have "length (fold (b2_round m) rs v) = length v" for m rs v by (induction rs arbitrary: v) simp_all
  then show ?thesis using h by (simp add: b2_compress_def Let_def B2_IV_def)
qed

lemma length_b2_blocks: "length h = 8 \<Longrightarrow> length (b2_blocks t bs h) = 8"
  by (induction t bs h rule: b2_blocks.induct) simp_all

lemma length_blake2b: "n \<le> 64 \<Longrightarrow> length (blake2b n data) = n"
proof -
  have "length (b2_blocks 0 bs (B2_IV[0 := x])) = 8" for bs x by (rule length_b2_blocks) (simp add: B2_IV_def)
  then show "n \<le> 64 \<Longrightarrow> ?thesis" by (simp add: blake2b_def length_concat comp_def sum_list_triv)
qed

lemma length_hmac_alg: "hash_named name = Some h \<Longrightarrow> length (hmac_alg h k m) = digest_size h"
  by (simp add: hmac_alg_def Let_def hash_named_length)

lemma length_pbkdf2_block:
  assumes "hash_named name = Some h"
  shows "length (pbkdf2_block h pw salt c i) = digest_size h"
proof -
  have "\<exists>u t. ((\<lambda>(u, t). let u' = hmac_alg h pw u in (u', map2 (XOR) t u')) ^^ k) (u0, t0) = (u, t) \<and> length t = digest_size h"
    if "length t0 = digest_size h" for k u0 t0
    by (induction k) (use that in \<open>auto simp: Let_def length_hmac_alg [OF assms]\<close>)
  from this [of "hmac_alg h pw (salt @ nat_be 4 i)" "c - 1" "hmac_alg h pw (salt @ nat_be 4 i)"] show ?thesis
    by (auto simp: pbkdf2_block_def Let_def length_hmac_alg [OF assms])
qed

lemma pbkdf2_hmac_length: "pbkdf2_hmac name pw salt c n = Inr k \<Longrightarrow> length k = n"
proof -
  assume k: "pbkdf2_hmac name pw salt c n = Inr k"
  then obtain h where h: "hash_named name = Some h" by (auto simp: pbkdf2_hmac_def split: option.splits)
  define d where "d = digest_size h"
  have d: "d \<ge> 20" using hash_named_digest_size [OF h] by (simp add: d_def)
  have "(n + d - 1) div d * d \<ge> n"
    using d div_mult_mod_eq [of "n + d - 1" d] mod_less_divisor [of d "n + d - 1"] by linarith
  then show ?thesis
    using k by (auto simp: pbkdf2_hmac_def h length_concat comp_def length_pbkdf2_block [OF h] sum_list_triv d_def [symmetric] split: if_splits)
qed

lemma hashlib_scrypt_length: "hashlib_scrypt pw salt n r p dklen m = Inr k \<Longrightarrow> length k = dklen"
  by (auto simp: hashlib_scrypt_def bind_res_def pbkdf2_hmac_length split: if_splits sum.splits)

end
