(* ===== verification/Kerberos.thy ===== *)
theory Kerberos
  imports Exn Stdlib Aes
begin

text \<open>
  \<open>kerberos\<close>: the messages, the key distribution center (\<open>kdc.py\<close>), the client (\<open>client.py\<close>) and the
  service (\<open>service.py\<close>).  Each object is a record; its clock and the source of the random bytes it
  draws are fields, so the clocks of the parties are independent.

  The bytes that \<open>pickle\<close> makes of an object depend on the identity of the objects in it, so pickle is
  a parameter: a pair of functions, of which only \<open>loads (dumps x) = x\<close> is used (\<open>pickle_ok\<close>), for
  the objects that the code pickles (\<open>payload\<close>).  Anything else that \<open>loads\<close> may give is the
  exception \<open>Unmodelled\<close>.
\<close>

section \<open>Messages\<close>

definition TGT_SERVICE :: string where "TGT_SERVICE = ''krbtgt''"

record encrypted_data =
  ed_etype :: string
  ed_kvno :: nat
  ed_cipher :: "byte list"

record krb_ticket =
  tk_realm :: string
  tk_service :: string
  tk_enc_part :: encrypted_data

record enc_ticket_part =
  et_client :: string
  et_realm :: string
  et_session_key :: "byte list"
  et_auth_time :: int
  et_start_time :: int
  et_end_time :: int
  et_renew_till :: int
  et_flags :: "string list"
  et_authorization_data :: "(string, string list) dict"

record krb_authenticator =
  au_client :: string
  au_realm :: string
  au_timestamp :: int
  au_microseconds :: int
  au_checksum :: "byte list"
  au_subkey :: "byte list option"
  au_sequence_number :: int

record krb_rep =
  rep_client :: string
  rep_ticket :: krb_ticket
  rep_enc_part :: encrypted_data

text \<open>\<open>APRep\<close> has the encrypted part only.  The values of the dictionaries that are sent:\<close>

datatype item = IBytes "byte list" | IInt int

datatype payload = PTicket enc_ticket_part | PAuth krb_authenticator | PItems "(string, item) dict"

record pickling =
  pk_dumps :: "payload \<Rightarrow> byte list"
  pk_loads :: "byte list \<Rightarrow> exn + payload"

definition pickle_ok :: "pickling \<Rightarrow> bool" where
  "pickle_ok pk \<longleftrightarrow> (\<forall>x. pk_loads pk (pk_dumps pk x) = Inr x)"

lemma pickle_okD [dest, simp]: "pickle_ok pk \<Longrightarrow> pk_loads pk (pk_dumps pk x) = Inr x"
  by (simp add: pickle_ok_def)

text \<open>Attributes of an object that may be of another class.  The first attribute that is read of a
  ticket part is one that the other classes do not have; an authenticator shares \<open>client\<close> with it.\<close>

definition as_ticket_part :: "payload \<Rightarrow> exn + enc_ticket_part" where
  "as_ticket_part p = (case p of PTicket t \<Rightarrow> Inr t | _ \<Rightarrow> Inl (Py AttributeError))"

definition attr_client :: "payload \<Rightarrow> exn + string" where
  "attr_client p = (case p of PTicket t \<Rightarrow> Inr (et_client t) | PAuth a \<Rightarrow> Inr (au_client a) | PItems _ \<Rightarrow> Inl (Py AttributeError))"

definition as_authenticator :: "payload \<Rightarrow> exn + krb_authenticator" where
  "as_authenticator p = (case p of PAuth a \<Rightarrow> Inr a | _ \<Rightarrow> Inl (Py AttributeError))"

text \<open>\<open>payload["..."]\<close>; a value of the other type would be kept until it is used.\<close>

definition payload_item :: "payload \<Rightarrow> string \<Rightarrow> exn + item" where
  "payload_item p k =
     (case p of
        PItems d \<Rightarrow> (case dget d k of None \<Rightarrow> Inl (Py KeyError) | Some i \<Rightarrow> Inr i)
      | _ \<Rightarrow> Inl (Py TypeError))"

definition item_bytes :: "item \<Rightarrow> exn + byte list" where
  "item_bytes i = (case i of IBytes b \<Rightarrow> Inr b | IInt _ \<Rightarrow> Inl (Py Unmodelled))"

definition item_int :: "item \<Rightarrow> exn + int" where
  "item_int i = (case i of IInt n \<Rightarrow> Inr n | IBytes _ \<Rightarrow> Inl (Py Unmodelled))"

section \<open>Keys and encryption\<close>

definition ETYPE :: string where "ETYPE = ''aes256-lab''"

definition STRING_TO_KEY_ITERATIONS :: int where "STRING_TO_KEY_ITERATIONS = 4096"

definition string_to_key :: "string \<Rightarrow> string \<Rightarrow> int \<Rightarrow> py_error + byte list" where
  "string_to_key password salt iterations =
     pbkdf2_hmac ''sha1'' (utf8_encode password) (utf8_encode salt) iterations 32"

definition split_key :: "byte list \<Rightarrow> byte list \<times> byte list" where
  "split_key key =
     (hmac_sha256 key (utf8_encode ''lab-kerberos-enc''), hmac_sha256 key (utf8_encode ''lab-kerberos-mac''))"

definition krb_encrypt :: "byte list \<Rightarrow> byte list \<Rightarrow> nat \<Rightarrow> (rng, encrypted_data) op" where
  "krb_encrypt key plaintext kvno g =
     (case split_key key of (enc_key, mac_key) \<Rightarrow>
        (case encrypt_then_mac enc_key mac_key plaintext g of (r, g') \<Rightarrow>
           (py (map_sum id (\<lambda>c. \<lparr>ed_etype = ETYPE, ed_kvno = kvno, ed_cipher = c\<rparr>) r), g')))"

definition krb_decrypt :: "byte list \<Rightarrow> encrypted_data \<Rightarrow> exn + byte list" where
  "krb_decrypt key data =
     (if ed_etype data \<noteq> ETYPE then Inl KerberosError
      else (case split_key key of (enc_key, mac_key) \<Rightarrow>
        (case verify_then_decrypt enc_key mac_key (ed_cipher data) of
           Inl e \<Rightarrow> Inl (if is_value_error e then KerberosError else Py e)
         | Inr pt \<Rightarrow> Inr pt)))"

text \<open>An encrypted object.\<close>

definition seal :: "pickling \<Rightarrow> byte list \<Rightarrow> payload \<Rightarrow> nat \<Rightarrow> (rng, encrypted_data) op" where
  "seal pk key obj kvno = krb_encrypt key (pk_dumps pk obj) kvno"

definition unseal :: "pickling \<Rightarrow> byte list \<Rightarrow> encrypted_data \<Rightarrow> exn + payload" where
  "unseal pk key data = bind_res (krb_decrypt key data) (pk_loads pk)"

section \<open>The key distribution center\<close>

record principal =
  pr_name :: string
  pr_realm :: string
  pr_key :: "byte list"
  pr_kvno :: nat
  pr_require_preauth :: bool
  pr_is_service :: bool
  pr_groups :: "string list"

definition full_name :: "principal \<Rightarrow> string" where
  "full_name p = pr_name p @ ''@'' @ pr_realm p"

record kdc =
  kd_realm :: string
  kd_now :: int
  kd_principals :: "(string, principal) dict"
  kd_ticket_lifetime :: int
  kd_clock_skew :: int
  kd_krbtgt_key :: "byte list"
  kd_log :: "string list"
  kd_rng :: rng

type_synonym 'a kdc_op = "(kdc, 'a) op"

definition kd_draw :: "(rng, 'a) op \<Rightarrow> 'a kdc_op" where
  "kd_draw = zoom kd_rng (\<lambda>g k. k\<lparr>kd_rng := g\<rparr>)"

definition rnd :: "nat \<Rightarrow> (rng, byte list) op" where
  "rnd n g = (case random_bytes n g of (b, g') \<Rightarrow> (Inr b, g'))"

definition kd_write :: "string \<Rightarrow> unit kdc_op" where
  "kd_write line = modify (\<lambda>k. k\<lparr>kd_log := kd_log k @ [line]\<rparr>)"

definition add_principal :: "string \<Rightarrow> string option \<Rightarrow> bool \<Rightarrow> bool \<Rightarrow> string list option \<Rightarrow> principal kdc_op" where
  "add_principal name password is_service require_preauth groups =
     bindM (gets kd_realm) (\<lambda>realm.
     bindM (case password of
              Some pw \<Rightarrow> lift (py (string_to_key pw (realm @ name) STRING_TO_KEY_ITERATIONS))
            | None \<Rightarrow> kd_draw (rnd 32)) (\<lambda>key.
     let p = \<lparr>pr_name = name, pr_realm = realm, pr_key = key, pr_kvno = 1, pr_require_preauth = require_preauth,
              pr_is_service = is_service, pr_groups = (case groups of None \<Rightarrow> [] | Some gs \<Rightarrow> gs)\<rparr>
     in bindM (modify (\<lambda>k. k\<lparr>kd_principals := dset name p (kd_principals k)\<rparr>)) (\<lambda>_. ret p)))"

text \<open>Pre-authentication: a recent time under the client's key.\<close>

definition preauth_stamp :: "byte list \<Rightarrow> encrypted_data \<Rightarrow> exn + int" where
  "preauth_stamp key pa =
     bind_res (krb_decrypt key pa) (\<lambda>bs. py (bind_res (ascii_decode bs) py_int))"

definition check_preauth :: "principal \<Rightarrow> encrypted_data option \<Rightarrow> int \<Rightarrow> int \<Rightarrow> exn + unit" where
  "check_preauth client pa now skew =
     (case pa of
        None \<Rightarrow> Inl KerberosError
      | Some d \<Rightarrow> bind_res (preauth_stamp (pr_key client) d) (\<lambda>stamp.
          if \<bar>now - stamp\<bar> > skew then Inl KerberosError else Inr ()))"

text \<open>The key and the end time for the client.\<close>

definition session_items :: "byte list \<Rightarrow> int \<Rightarrow> payload" where
  "session_items session_key end_time =
     PItems [(''session_key'', IBytes session_key), (''end_time'', IInt end_time)]"

text \<open>
  Both exchanges end alike: a new session key is drawn, the ticket part with it is sealed for the
  service, the event is logged, and the session key is sealed for the client.
\<close>

definition issue_krb_ticket :: "pickling \<Rightarrow> byte list \<Rightarrow> nat \<Rightarrow> enc_ticket_part \<Rightarrow> string \<Rightarrow> byte list \<Rightarrow> (encrypted_data \<times> encrypted_data) kdc_op" where
  "issue_krb_ticket pk ticket_key kvno part line reply_key =
     bindM (kd_draw (rnd 32)) (\<lambda>session_key.
     bindM (kd_draw (seal pk ticket_key (PTicket (part\<lparr>et_session_key := session_key\<rparr>)) kvno)) (\<lambda>enc.
     bindM (kd_write line) (\<lambda>_.
     bindM (kd_draw (seal pk reply_key (session_items session_key (et_end_time part)) 1)) (\<lambda>reply.
     ret (enc, reply)))))"

text \<open>The ticket part of a login, but for the session key.\<close>

definition initial_part :: "principal \<Rightarrow> kdc \<Rightarrow> enc_ticket_part" where
  "initial_part client k =
     \<lparr>et_client = full_name client, et_realm = kd_realm k, et_session_key = [],
      et_auth_time = kd_now k, et_start_time = kd_now k, et_end_time = kd_now k + kd_ticket_lifetime k, et_renew_till = 0,
      et_flags = (if pr_require_preauth client then [''initial'', ''pre-authent''] else [''initial'']),
      et_authorization_data = [(''groups'', pr_groups client)]\<rparr>"

definition roastable_line :: "string \<Rightarrow> string" where
  "roastable_line name = ''WARNING: '' @ name @ '' has preauth disabled -- AS-REP roastable''"

definition as_line :: "principal \<Rightarrow> string" where
  "as_line client = ''AS-REP: TGT issued to '' @ full_name client"

definition as_req :: "pickling \<Rightarrow> string \<Rightarrow> encrypted_data option \<Rightarrow> krb_rep kdc_op" where
  "as_req pk client_name pa =
     bindM (gets (\<lambda>k. dget (kd_principals k) client_name)) (\<lambda>found. case found of
       None \<Rightarrow> raise KerberosError
     | Some client \<Rightarrow>
         bindM (if pr_require_preauth client
                then (\<lambda>k. (check_preauth client pa (kd_now k) (kd_clock_skew k), k))
                else kd_write (roastable_line client_name)) (\<lambda>_.
         bindM (\<lambda>k. issue_krb_ticket pk (kd_krbtgt_key k) 1 (initial_part client k)
                  (as_line client) (pr_key client) k) (\<lambda>(enc, reply).
         gets (\<lambda>k. \<lparr>rep_client = full_name client,
              rep_ticket = \<lparr>tk_realm = kd_realm k, tk_service = TGT_SERVICE, tk_enc_part = enc\<rparr>,
              rep_enc_part = reply\<rparr>))))"

text \<open>The ticket in a request of the ticket-granting service, and the authenticator that goes with it.\<close>

definition open_tgt :: "pickling \<Rightarrow> krb_ticket \<Rightarrow> kdc \<Rightarrow> exn + enc_ticket_part" where
  "open_tgt pk tgt k =
     (if tk_service tgt \<noteq> TGT_SERVICE then Inl KerberosError
      else bind_res (bind_res (unseal pk (kd_krbtgt_key k) (tk_enc_part tgt)) as_ticket_part) (\<lambda>t.
        if kd_now k > et_end_time t then Inl KerberosError else Inr t))"

definition open_authenticator :: "pickling \<Rightarrow> enc_ticket_part \<Rightarrow> encrypted_data \<Rightarrow> int \<Rightarrow> int \<Rightarrow> exn + krb_authenticator" where
  "open_authenticator pk t authenticator now skew =
     bind_res (unseal pk (et_session_key t) authenticator) (\<lambda>obj.
     bind_res (attr_client obj) (\<lambda>client.
       if client \<noteq> et_client t then Inl KerberosError
       else bind_res (as_authenticator obj) (\<lambda>auth.
         if \<bar>now - au_timestamp auth\<bar> > skew then Inl KerberosError else Inr auth)))"

text \<open>The ticket part for a service: the identity and the groups are those of the ticket-granting ticket.\<close>

definition service_part :: "enc_ticket_part \<Rightarrow> kdc \<Rightarrow> enc_ticket_part" where
  "service_part t k =
     \<lparr>et_client = et_client t, et_realm = kd_realm k, et_session_key = [],
      et_auth_time = et_auth_time t, et_start_time = kd_now k,
      et_end_time = min (kd_now k + kd_ticket_lifetime k) (et_end_time t), et_renew_till = 0,
      et_flags = et_flags t, et_authorization_data = et_authorization_data t\<rparr>"

definition tgs_line :: "enc_ticket_part \<Rightarrow> string \<Rightarrow> string" where
  "tgs_line t service_name = ''TGS-REP: '' @ et_client t @ '' -> '' @ service_name"

definition tgs_req :: "pickling \<Rightarrow> krb_ticket \<Rightarrow> encrypted_data \<Rightarrow> string \<Rightarrow> krb_rep kdc_op" where
  "tgs_req pk tgt authenticator service_name =
     bindM (\<lambda>k. (open_tgt pk tgt k, k)) (\<lambda>t.
     bindM (\<lambda>k. (open_authenticator pk t authenticator (kd_now k) (kd_clock_skew k), k)) (\<lambda>_.
     bindM (gets (\<lambda>k. dget (kd_principals k) service_name)) (\<lambda>found. case found of
       None \<Rightarrow> raise KerberosError
     | Some service \<Rightarrow>
         bindM (\<lambda>k. issue_krb_ticket pk (pr_key service) (pr_kvno service) (service_part t k)
                  (tgs_line t service_name) (et_session_key t) k) (\<lambda>(enc, reply).
         gets (\<lambda>k. \<lparr>rep_client = et_client t,
              rep_ticket = \<lparr>tk_realm = kd_realm k, tk_service = service_name, tk_enc_part = enc\<rparr>,
              rep_enc_part = reply\<rparr>)))))"

text \<open>The attacks that the class shows.\<close>

definition forge_golden_ticket :: "pickling \<Rightarrow> string \<Rightarrow> string list \<Rightarrow> int \<Rightarrow> krb_ticket kdc_op" where
  "forge_golden_ticket pk client_name groups lifetime =
     bindM (gets (\<lambda>k. (kd_now k, kd_realm k, kd_krbtgt_key k))) (\<lambda>(now, realm, krbtgt).
     bindM (kd_draw (rnd 32)) (\<lambda>session_key.
     bindM (kd_draw (seal pk krbtgt (PTicket
              \<lparr>et_client = client_name @ ''@'' @ realm, et_realm = realm, et_session_key = session_key,
               et_auth_time = now, et_start_time = now, et_end_time = now + lifetime, et_renew_till = 0,
               et_flags = [''initial'', ''forged''], et_authorization_data = [(''groups'', groups)]\<rparr>) 1)) (\<lambda>enc.
     ret \<lparr>tk_realm = realm, tk_service = TGT_SERVICE, tk_enc_part = enc\<rparr>)))"

definition kerberoastable_material :: "krb_ticket \<Rightarrow> byte list" where
  "kerberoastable_material t = ed_cipher (tk_enc_part t)"

fun crack_service_ticket :: "kdc \<Rightarrow> krb_ticket \<Rightarrow> string list \<Rightarrow> string \<Rightarrow> exn + string option" where
  "crack_service_ticket k t [] service_name = Inr None"
| "crack_service_ticket k t (password # rest) service_name =
     bind_res (py (string_to_key password (kd_realm k @ service_name) STRING_TO_KEY_ITERATIONS)) (\<lambda>key.
       case krb_decrypt key (tk_enc_part t) of
         Inr _ \<Rightarrow> Inr (Some password)
       | Inl e \<Rightarrow> if e = KerberosError then crack_service_ticket k t rest service_name else Inl e)"

section \<open>The client\<close>

record cached_ticket =
  ct_ticket :: krb_ticket
  ct_session_key :: "byte list"
  ct_end_time :: int

record kclient =
  kc_principal :: string
  kc_realm :: string
  kc_kdc :: kdc
  kc_now :: int
  kc_long_term_key :: "byte list option"
  kc_tgt :: "cached_ticket option"
  kc_service_tickets :: "(string, cached_ticket) dict"
  kc_rng :: rng

type_synonym 'a client_op = "(kclient, 'a) op"

definition kc_draw :: "(rng, 'a) op \<Rightarrow> 'a client_op" where
  "kc_draw = zoom kc_rng (\<lambda>g c. c\<lparr>kc_rng := g\<rparr>)"

definition at_kdc :: "'a kdc_op \<Rightarrow> 'a client_op" where
  "at_kdc = zoom kc_kdc (\<lambda>k c. c\<lparr>kc_kdc := k\<rparr>)"

text \<open>The reply, opened with a key: the session key and the end time go to the cache.\<close>

definition open_reply :: "pickling \<Rightarrow> byte list \<Rightarrow> krb_rep \<Rightarrow> exn + cached_ticket" where
  "open_reply pk key rep =
     bind_res (unseal pk key (rep_enc_part rep)) (\<lambda>obj.
     bind_res (bind_res (payload_item obj ''session_key'') item_bytes) (\<lambda>session_key.
     bind_res (bind_res (payload_item obj ''end_time'') item_int) (\<lambda>end_time.
     Inr \<lparr>ct_ticket = rep_ticket rep, ct_session_key = session_key, ct_end_time = end_time\<rparr>)))"

definition kinit :: "pickling \<Rightarrow> string \<Rightarrow> cached_ticket client_op" where
  "kinit pk password =
     bindM (gets (\<lambda>c. kc_realm c @ kc_principal c)) (\<lambda>salt.
     bindM (lift (py (string_to_key password salt STRING_TO_KEY_ITERATIONS))) (\<lambda>key.
     bindM (modify (\<lambda>c. c\<lparr>kc_long_term_key := Some key\<rparr>)) (\<lambda>_.
     bindM (gets kc_now) (\<lambda>now.
     bindM (lift (py (ascii_encode (int_str now)))) (\<lambda>stamp.
     bindM (kc_draw (krb_encrypt key stamp 1)) (\<lambda>pa.
     bindM (gets kc_principal) (\<lambda>name.
     bindM (at_kdc (as_req pk name (Some pa))) (\<lambda>rep.
     bindM (lift (open_reply pk key rep)) (\<lambda>tgt.
     bindM (modify (\<lambda>c. c\<lparr>kc_tgt := Some tgt\<rparr>)) (\<lambda>_.
     ret tgt))))))))))"

definition make_authenticator :: "pickling \<Rightarrow> byte list \<Rightarrow> encrypted_data client_op" where
  "make_authenticator pk session_key =
     bindM (kc_draw (rnd 4)) (\<lambda>seq_bytes.
     bindM (gets (\<lambda>c. PAuth
              \<lparr>au_client = kc_principal c @ ''@'' @ kc_realm c, au_realm = kc_realm c, au_timestamp = kc_now c,
               au_microseconds = 0, au_checksum = [], au_subkey = None,
               au_sequence_number = bytes_to_int seq_bytes\<rparr>)) (\<lambda>auth.
     kc_draw (seal pk session_key auth 1)))"

definition get_service_ticket :: "pickling \<Rightarrow> string \<Rightarrow> cached_ticket client_op" where
  "get_service_ticket pk service_name =
     bindM (gets (\<lambda>c. case dget (kc_service_tickets c) service_name of
                        Some t \<Rightarrow> if kc_now c < ct_end_time t then Some t else None | None \<Rightarrow> None)) (\<lambda>cached.
     case cached of
       Some t \<Rightarrow> ret t
     | None \<Rightarrow>
         bindM (gets kc_tgt) (\<lambda>tgt. case tgt of
           None \<Rightarrow> raise KerberosError
         | Some t \<Rightarrow>
             bindM (\<lambda>c. guard (kc_now c \<le> ct_end_time t) KerberosError c) (\<lambda>_.
             bindM (make_authenticator pk (ct_session_key t)) (\<lambda>auth.
             bindM (at_kdc (tgs_req pk (ct_ticket t) auth service_name)) (\<lambda>rep.
             bindM (lift (open_reply pk (ct_session_key t) rep)) (\<lambda>fresh.
             bindM (modify (\<lambda>c. c\<lparr>kc_service_tickets := dset service_name fresh (kc_service_tickets c)\<rparr>)) (\<lambda>_.
             ret fresh)))))))"

definition client_ap_req :: "pickling \<Rightarrow> string \<Rightarrow> (krb_ticket \<times> encrypted_data) client_op" where
  "client_ap_req pk service_name =
     bindM (get_service_ticket pk service_name) (\<lambda>cached.
     bindM (make_authenticator pk (ct_session_key cached)) (\<lambda>auth.
     ret (ct_ticket cached, auth)))"

text \<open>\<open>"timestamp" in payload\<close> is a \<open>TypeError\<close> for an object that is not a container.\<close>

definition verify_ap_rep :: "pickling \<Rightarrow> string \<Rightarrow> encrypted_data \<Rightarrow> kclient \<Rightarrow> exn + bool" where
  "verify_ap_rep pk service_name ap_rep c =
     (case dget (kc_service_tickets c) service_name of
        None \<Rightarrow> Inr False
      | Some cached \<Rightarrow>
          (case unseal pk (ct_session_key cached) ap_rep of
             Inl e \<Rightarrow> if e = KerberosError then Inr False else Inl e
           | Inr (PItems d) \<Rightarrow> Inr (dget d ''timestamp'' \<noteq> None)
           | Inr _ \<Rightarrow> Inl (Py TypeError)))"

definition import_ticket :: "string \<Rightarrow> krb_ticket \<Rightarrow> byte list \<Rightarrow> int \<Rightarrow> unit client_op" where
  "import_ticket service_name t session_key end_time =
     modify (\<lambda>c. c\<lparr>kc_service_tickets := dset service_name
       \<lparr>ct_ticket = t, ct_session_key = session_key, ct_end_time = end_time\<rparr> (kc_service_tickets c)\<rparr>)"

definition import_tgt :: "krb_ticket \<Rightarrow> byte list \<Rightarrow> int \<Rightarrow> unit client_op" where
  "import_tgt t session_key end_time =
     modify (\<lambda>c. c\<lparr>kc_tgt := Some \<lparr>ct_ticket = t, ct_session_key = session_key, ct_end_time = end_time\<rparr>\<rparr>)"

section \<open>The service\<close>

record authenticated_client =
  ac_name :: string
  ac_realm :: string
  ac_groups :: "string list"
  ac_session_key :: "byte list"
  ac_auth_time :: int
  ac_ticket_end :: int
  ac_flags :: "string list"

record kservice =
  ks_name :: string
  ks_realm :: string
  ks_key :: "byte list"
  ks_now :: int
  ks_clock_skew :: int
  ks_replay_cache :: "(string \<times> int \<times> int, int) dict"
  ks_rng :: rng

type_synonym 'a service_op = "(kservice, 'a) op"

definition ks_draw :: "(rng, 'a) op \<Rightarrow> 'a service_op" where
  "ks_draw = zoom ks_rng (\<lambda>g s. s\<lparr>ks_rng := g\<rparr>)"

definition purge_replay_cache :: "int \<Rightarrow> unit service_op" where
  "purge_replay_cache now =
     modify (\<lambda>s. s\<lparr>ks_replay_cache := filter (\<lambda>(key, expiry). \<not> expiry < now) (ks_replay_cache s)\<rparr>)"

text \<open>The checks of a request before the replay cache is looked at.\<close>

definition open_ap_req :: "pickling \<Rightarrow> krb_ticket \<Rightarrow> encrypted_data \<Rightarrow> kservice \<Rightarrow> exn + (enc_ticket_part \<times> krb_authenticator)" where
  "open_ap_req pk t authenticator s =
     (if tk_service t \<noteq> ks_name s then Inl KerberosError
      else bind_res (bind_res (unseal pk (ks_key s) (tk_enc_part t)) as_ticket_part) (\<lambda>part.
        if ks_now s > et_end_time part then Inl KerberosError
        else if ks_now s + ks_clock_skew s < et_start_time part then Inl KerberosError
        else bind_res (open_authenticator pk part authenticator (ks_now s) (ks_clock_skew s)) (\<lambda>auth.
          Inr (part, auth))))"

definition replay_key :: "krb_authenticator \<Rightarrow> string \<times> int \<times> int" where
  "replay_key a = (au_client a, au_timestamp a, au_sequence_number a)"

definition remember_authenticator :: "krb_authenticator \<Rightarrow> unit service_op" where
  "remember_authenticator a =
     bindM (gets ks_now) (\<lambda>now.
     bindM (purge_replay_cache now) (\<lambda>_.
     bindM (\<lambda>s. guard (dget (ks_replay_cache s) (replay_key a) = None) KerberosError s) (\<lambda>_.
     modify (\<lambda>s. s\<lparr>ks_replay_cache := dset (replay_key a) (now + ks_clock_skew s) (ks_replay_cache s)\<rparr>))))"

definition service_ap_req :: "pickling \<Rightarrow> krb_ticket \<Rightarrow> encrypted_data \<Rightarrow> bool \<Rightarrow> (authenticated_client \<times> encrypted_data option) service_op" where
  "service_ap_req pk t authenticator mutual =
     bindM (\<lambda>s. (open_ap_req pk t authenticator s, s)) (\<lambda>(part, auth).
     bindM (remember_authenticator auth) (\<lambda>_.
     let client = \<lparr>ac_name = et_client part, ac_realm = et_realm part,
                   ac_groups = (case dget (et_authorization_data part) ''groups'' of None \<Rightarrow> [] | Some gs \<Rightarrow> gs),
                   ac_session_key = et_session_key part, ac_auth_time = et_auth_time part,
                   ac_ticket_end = et_end_time part, ac_flags = et_flags part\<rparr>
     in if mutual
        then bindM (ks_draw (seal pk (et_session_key part)
               (PItems [(''timestamp'', IInt (au_timestamp auth)), (''sequence'', IInt (au_sequence_number auth))]) 1))
               (\<lambda>rep. ret (client, Some rep))
        else ret (client, None)))"

section \<open>What is sealed opens\<close>

lemma krb_encrypt_run: "\<exists>d g'. krb_encrypt key pt kvno g = (Inr d, g') \<and> krb_decrypt key d = Inr pt"
proof -
  have "length (fst (split_key key)) \<in> {16, 24, 32}"
    by (simp add: split_key_def hmac_sha256_def hmac_alg_def Let_def)
  then obtain data g' where "encrypt_then_mac (fst (split_key key)) (snd (split_key key)) pt g = (Inr data, g')"
      "verify_then_decrypt (fst (split_key key)) (snd (split_key key)) data = Inr pt"
    by (rule encrypt_then_mac_opens)
  then show ?thesis by (simp add: krb_encrypt_def krb_decrypt_def split_beta)
qed

lemma seal_run: "pickle_ok pk \<Longrightarrow> \<exists>d g'. seal pk key obj kvno g = (Inr d, g') \<and> unseal pk key d = Inr obj"
  using krb_encrypt_run [of key "pk_dumps pk obj" kvno g] by (auto simp: seal_def unseal_def)

lemma rnd_run: "\<exists>b g'. rnd n g = (Inr b, g')"
  by (simp add: rnd_def split_beta)

lemma issue_krb_ticket_run:
  assumes "pickle_ok pk"
  obtains enc reply sk g where
    "issue_krb_ticket pk tkey kvno part line rkey k = (Inr (enc, reply), k\<lparr>kd_log := kd_log k @ [line], kd_rng := g\<rparr>)"
    "unseal pk tkey enc = Inr (PTicket (part\<lparr>et_session_key := sk\<rparr>))"
    "unseal pk rkey reply = Inr (session_items sk (et_end_time part))"
proof -
  obtain sk g1 where 1: "rnd 32 (kd_rng k) = (Inr sk, g1)" using rnd_run by blast
  obtain enc g2 where 2: "seal pk tkey (PTicket (part\<lparr>et_session_key := sk\<rparr>)) kvno g1 = (Inr enc, g2)"
      "unseal pk tkey enc = Inr (PTicket (part\<lparr>et_session_key := sk\<rparr>))"
    using seal_run [OF assms] by blast
  obtain reply g3 where 3: "seal pk rkey (session_items sk (et_end_time part)) 1 g2 = (Inr reply, g3)"
      "unseal pk rkey reply = Inr (session_items sk (et_end_time part))"
    using seal_run [OF assms] by blast
  show thesis
    by (rule that [of enc reply g3 sk])
      (use 1 2 3 in \<open>simp_all add: issue_krb_ticket_def bindM_def kd_draw_def zoom_def kd_write_def\<close>)
qed

lemma open_reply_run:
  "unseal pk key (rep_enc_part rep) = Inr (session_items sk e) \<Longrightarrow>
     open_reply pk key rep = Inr \<lparr>ct_ticket = rep_ticket rep, ct_session_key = sk, ct_end_time = e\<rparr>"
  by (simp add: open_reply_def session_items_def payload_item_def item_bytes_def item_int_def)

end
