(* ===== verification/Realm.thy ===== *)
theory Realm
  imports Kerberos
begin

text \<open>
  Properties of \<open>Kerberos\<close>: the three exchanges fit together, what a ticket grants, and the replay
  cache of a service.
\<close>

section \<open>The exchanges, step by step\<close>

text \<open>A ticket that opens with a key, and the session key and end time the client has with it.\<close>

definition usable :: "pickling \<Rightarrow> byte list \<Rightarrow> enc_ticket_part \<Rightarrow> cached_ticket \<Rightarrow> bool" where
  "usable pk key part ct \<longleftrightarrow>
     unseal pk key (tk_enc_part (ct_ticket ct)) = Inr (PTicket part)
     \<and> ct_session_key ct = et_session_key part \<and> ct_end_time ct = et_end_time part"

text \<open>The fields of a distribution center that no exchange changes.\<close>

definition same_kdc :: "kdc \<Rightarrow> kdc \<Rightarrow> bool" where
  "same_kdc k k' \<longleftrightarrow> (\<exists>l g. k' = k\<lparr>kd_log := l, kd_rng := g\<rparr>)"

lemma same_kdcD:
  "same_kdc k k' \<Longrightarrow> kd_realm k' = kd_realm k \<and> kd_now k' = kd_now k \<and> kd_principals k' = kd_principals k
    \<and> kd_ticket_lifetime k' = kd_ticket_lifetime k \<and> kd_clock_skew k' = kd_clock_skew k \<and> kd_krbtgt_key k' = kd_krbtgt_key k"
  by (auto simp: same_kdc_def)

lemma as_req_grants:
  assumes pk: "pickle_ok pk" and p: "dget (kd_principals k) name = Some p"
    and pa: "pr_require_preauth p \<Longrightarrow> check_preauth p pa (kd_now k) (kd_clock_skew k) = Inr ()"
  obtains rep k' sk ct where "as_req pk name pa k = (Inr rep, k')" "same_kdc k k'"
    "open_reply pk (pr_key p) rep = Inr ct" "tk_service (ct_ticket ct) = TGT_SERVICE"
    "usable pk (kd_krbtgt_key k) ((initial_part p k)\<lparr>et_session_key := sk\<rparr>) ct"
proof -
  define k1 where "k1 = (if pr_require_preauth p then k
    else k\<lparr>kd_log := kd_log k @ [roastable_line name]\<rparr>)"
  have k1: "kd_krbtgt_key k1 = kd_krbtgt_key k" "initial_part p k1 = initial_part p k" "kd_realm k1 = kd_realm k"
    by (simp_all add: k1_def initial_part_def)
  obtain enc reply sk g where run: "issue_krb_ticket pk (kd_krbtgt_key k1) 1 (initial_part p k1) (as_line p) (pr_key p) k1
        = (Inr (enc, reply), k1\<lparr>kd_log := kd_log k1 @ [as_line p], kd_rng := g\<rparr>)"
      "unseal pk (kd_krbtgt_key k1) enc = Inr (PTicket ((initial_part p k1)\<lparr>et_session_key := sk\<rparr>))"
      "unseal pk (pr_key p) reply = Inr (session_items sk (et_end_time (initial_part p k1)))"
    by (rule issue_krb_ticket_run [OF pk])
  let ?rep = "\<lparr>rep_client = full_name p, rep_ticket = \<lparr>tk_realm = kd_realm k, tk_service = TGT_SERVICE, tk_enc_part = enc\<rparr>, rep_enc_part = reply\<rparr>"
  let ?k' = "k1\<lparr>kd_log := kd_log k1 @ [as_line p], kd_rng := g\<rparr>"
  show thesis
  proof (rule that [of ?rep ?k' "\<lparr>ct_ticket = rep_ticket ?rep, ct_session_key = sk, ct_end_time = et_end_time (initial_part p k)\<rparr>" sk])
    show "as_req pk name pa k = (Inr ?rep, ?k')"
      using p pa run(1) k1(3)
      by (cases "pr_require_preauth p") (simp_all add: as_req_def bindM_def k1_def kd_write_def)
    show "open_reply pk (pr_key p) ?rep = Inr \<lparr>ct_ticket = rep_ticket ?rep, ct_session_key = sk, ct_end_time = et_end_time (initial_part p k)\<rparr>"
      by (rule open_reply_run) (use run(3) k1 in simp)
  qed (use run k1 in \<open>auto simp: same_kdc_def usable_def k1_def\<close>)
qed

lemma tgs_req_grants:
  assumes pk: "pickle_ok pk" and q: "dget (kd_principals k) svc = Some q"
    and t: "open_tgt pk tgt k = Inr t" and a: "open_authenticator pk t auth (kd_now k) (kd_clock_skew k) = Inr a"
  obtains rep k' sk ct where "tgs_req pk tgt auth svc k = (Inr rep, k')" "same_kdc k k'"
    "open_reply pk (et_session_key t) rep = Inr ct" "tk_service (ct_ticket ct) = svc" "ct_ticket ct = rep_ticket rep"
    "usable pk (pr_key q) ((service_part t k)\<lparr>et_session_key := sk\<rparr>) ct"
proof -
  obtain enc reply sk g where run: "issue_krb_ticket pk (pr_key q) (pr_kvno q) (service_part t k)
          (tgs_line t svc) (et_session_key t) k
        = (Inr (enc, reply), k\<lparr>kd_log := kd_log k @ [tgs_line t svc], kd_rng := g\<rparr>)"
      "unseal pk (pr_key q) enc = Inr (PTicket ((service_part t k)\<lparr>et_session_key := sk\<rparr>))"
      "unseal pk (et_session_key t) reply = Inr (session_items sk (et_end_time (service_part t k)))"
    by (rule issue_krb_ticket_run [OF pk])
  let ?rep = "\<lparr>rep_client = et_client t, rep_ticket = \<lparr>tk_realm = kd_realm k, tk_service = svc, tk_enc_part = enc\<rparr>, rep_enc_part = reply\<rparr>"
  let ?k' = "k\<lparr>kd_log := kd_log k @ [tgs_line t svc], kd_rng := g\<rparr>"
  show thesis
  proof (rule that [of ?rep ?k' "\<lparr>ct_ticket = rep_ticket ?rep, ct_session_key = sk, ct_end_time = et_end_time (service_part t k)\<rparr>" sk])
    show "tgs_req pk tgt auth svc k = (Inr ?rep, ?k')"
      using q t a by (simp add: tgs_req_def bindM_def run(1))
    show "open_reply pk (et_session_key t) ?rep = Inr \<lparr>ct_ticket = rep_ticket ?rep, ct_session_key = sk, ct_end_time = et_end_time (service_part t k)\<rparr>"
      by (rule open_reply_run) (use run(3) in simp)
  qed (use run in \<open>auto simp: same_kdc_def usable_def\<close>)
qed

text \<open>A granted ticket, from the run of the request.\<close>

lemma tgs_req_grantsE:
  assumes pk: "pickle_ok pk" and run: "tgs_req pk tgt auth svc k = (Inr rep, k')"
  obtains t a q sk where "open_tgt pk tgt k = Inr t" "open_authenticator pk t auth (kd_now k) (kd_clock_skew k) = Inr a"
    "dget (kd_principals k) svc = Some q" "tk_service (rep_ticket rep) = svc"
    "unseal pk (pr_key q) (tk_enc_part (rep_ticket rep)) = Inr (PTicket ((service_part t k)\<lparr>et_session_key := sk\<rparr>))"
proof -
  obtain t a q where s: "open_tgt pk tgt k = Inr t" "open_authenticator pk t auth (kd_now k) (kd_clock_skew k) = Inr a"
      "dget (kd_principals k) svc = Some q"
    using run by (auto simp: tgs_req_def bindM_def split: sum.splits option.splits)
  obtain rep' k'' sk ct where g: "tgs_req pk tgt auth svc k = (Inr rep', k'')" "tk_service (ct_ticket ct) = svc"
      "ct_ticket ct = rep_ticket rep'" "usable pk (pr_key q) ((service_part t k)\<lparr>et_session_key := sk\<rparr>) ct"
    by (rule tgs_req_grants [OF pk s(3,1,2)])
  with run s show thesis by (intro that [of t a q sk]) (auto simp: usable_def)
qed

lemma make_authenticator_run:
  assumes "pickle_ok pk"
  obtains d g seq where "make_authenticator pk sk c = (Inr d, c\<lparr>kc_rng := g\<rparr>)"
    "unseal pk sk d = Inr (PAuth \<lparr>au_client = kc_principal c @ ''@'' @ kc_realm c, au_realm = kc_realm c, au_timestamp = kc_now c,
       au_microseconds = 0, au_checksum = [], au_subkey = None, au_sequence_number = seq\<rparr>)"
proof -
  obtain b g1 where 1: "rnd 4 (kc_rng c) = (Inr b, g1)" using rnd_run by blast
  let ?a = "PAuth \<lparr>au_client = kc_principal c @ ''@'' @ kc_realm c, au_realm = kc_realm c, au_timestamp = kc_now c,
       au_microseconds = 0, au_checksum = [], au_subkey = None, au_sequence_number = bytes_to_int b\<rparr>"
  obtain d g2 where 2: "seal pk sk ?a 1 g1 = (Inr d, g2)" "unseal pk sk d = Inr ?a"
    using seal_run [OF assms] by blast
  show thesis
    by (rule that [of d g2 "bytes_to_int b"]) (use 1 2 in \<open>simp_all add: make_authenticator_def bindM_def kc_draw_def zoom_def\<close>)
qed

lemma open_authenticator_run:
  "unseal pk (et_session_key t) d = Inr (PAuth a) \<Longrightarrow> au_client a = et_client t \<Longrightarrow> \<bar>now - au_timestamp a\<bar> \<le> skew \<Longrightarrow>
     open_authenticator pk t d now skew = Inr a"
  by (simp add: open_authenticator_def attr_client_def as_authenticator_def)

section \<open>Logging in and using a service\<close>

text \<open>
  A client whose password is the one of its principal, with clocks that agree within the skew.
\<close>

definition can_log_in :: "kclient \<Rightarrow> string \<Rightarrow> principal \<Rightarrow> bool" where
  "can_log_in c password p \<longleftrightarrow>
     dget (kd_principals (kc_kdc c)) (kc_principal c) = Some p
     \<and> pr_name p = kc_principal c \<and> pr_realm p = kc_realm c
     \<and> string_to_key password (kc_realm c @ kc_principal c) STRING_TO_KEY_ITERATIONS = Inr (pr_key p)
     \<and> \<bar>kd_now (kc_kdc c) - kc_now c\<bar> \<le> kd_clock_skew (kc_kdc c)
     \<and> kc_now c \<le> kd_now (kc_kdc c) + kd_ticket_lifetime (kc_kdc c)
     \<and> 0 \<le> kd_ticket_lifetime (kc_kdc c)"

lemma kinit_run:
  assumes pk: "pickle_ok pk" and ok: "can_log_in c password p"
  obtains ct c' sk where "kinit pk password c = (Inr ct, c')" "kc_tgt c' = Some ct" "same_kdc (kc_kdc c) (kc_kdc c')"
    "kc_principal c' = kc_principal c" "kc_realm c' = kc_realm c" "kc_now c' = kc_now c" "kc_service_tickets c' = kc_service_tickets c"
    "usable pk (kd_krbtgt_key (kc_kdc c)) ((initial_part p (kc_kdc c))\<lparr>et_session_key := sk\<rparr>) ct" "tk_service (ct_ticket ct) = TGT_SERVICE"
proof -
  obtain b where b: "ascii_encode (int_str (kc_now c)) = Inr b" using is_ascii_int_str by (simp add: ascii_encode_def)
  obtain pa g where pa: "krb_encrypt (pr_key p) b 1 (kc_rng c) = (Inr pa, g)" "krb_decrypt (pr_key p) pa = Inr b"
    using krb_encrypt_run by blast
  have stamp: "preauth_stamp (pr_key p) pa = Inr (kc_now c)"
    using pa(2) ascii_decode_encode [OF b] by (simp add: preauth_stamp_def)
  have ok': "check_preauth p (Some pa) (kd_now (kc_kdc c)) (kd_clock_skew (kc_kdc c)) = Inr ()"
    using ok stamp by (simp add: check_preauth_def can_log_in_def)
  obtain rep k' sk ct where g: "as_req pk (kc_principal c) (Some pa) (kc_kdc c) = (Inr rep, k')" "same_kdc (kc_kdc c) k'"
      "open_reply pk (pr_key p) rep = Inr ct" "tk_service (ct_ticket ct) = TGT_SERVICE"
      "usable pk (kd_krbtgt_key (kc_kdc c)) ((initial_part p (kc_kdc c))\<lparr>et_session_key := sk\<rparr>) ct"
    by (rule as_req_grants [OF pk, of "kc_kdc c" "kc_principal c" p "Some pa"]) (use ok ok' in \<open>auto simp: can_log_in_def\<close>)
  let ?c' = "c\<lparr>kc_long_term_key := Some (pr_key p), kc_rng := g, kc_kdc := k', kc_tgt := Some ct\<rparr>"
  have key: "string_to_key password (kc_realm c @ kc_principal c) STRING_TO_KEY_ITERATIONS = Inr (pr_key p)"
    using ok by (simp add: can_log_in_def)
  show thesis
  proof (rule that [of ct ?c' sk])
    show "kinit pk password c = (Inr ct, ?c')"
      using b pa(1) g(1,3) key by (simp add: kinit_def bindM_def kc_draw_def at_kdc_def zoom_def)
  qed (use g in simp_all)
qed

lemma get_service_ticket_run:
  assumes pk: "pickle_ok pk" and tgt: "kc_tgt c = Some tgt" "tk_service (ct_ticket tgt) = TGT_SERVICE"
    and u: "usable pk (kd_krbtgt_key (kc_kdc c)) t tgt" and who: "et_client t = kc_principal c @ ''@'' @ kc_realm c"
    and time: "kc_now c \<le> et_end_time t" "kd_now (kc_kdc c) \<le> et_end_time t" "\<bar>kd_now (kc_kdc c) - kc_now c\<bar> \<le> kd_clock_skew (kc_kdc c)"
    and none: "dget (kc_service_tickets c) svc = None" and q: "dget (kd_principals (kc_kdc c)) svc = Some q"
  obtains ct c' sk where "get_service_ticket pk svc c = (Inr ct, c')" "dget (kc_service_tickets c') svc = Some ct"
    "kc_principal c' = kc_principal c" "kc_realm c' = kc_realm c" "kc_now c' = kc_now c" "tk_service (ct_ticket ct) = svc"
    "usable pk (pr_key q) ((service_part t (kc_kdc c))\<lparr>et_session_key := sk\<rparr>) ct"
proof -
  let ?k = "kc_kdc c"
  have t: "open_tgt pk (ct_ticket tgt) ?k = Inr t"
    using tgt u time by (simp add: open_tgt_def usable_def as_ticket_part_def)
  obtain d g n where d: "make_authenticator pk (ct_session_key tgt) c = (Inr d, c\<lparr>kc_rng := g\<rparr>)"
      "unseal pk (ct_session_key tgt) d = Inr (PAuth \<lparr>au_client = kc_principal c @ ''@'' @ kc_realm c, au_realm = kc_realm c, au_timestamp = kc_now c,
       au_microseconds = 0, au_checksum = [], au_subkey = None, au_sequence_number = n\<rparr>)"
    by (rule make_authenticator_run [OF pk])
  have key: "ct_session_key tgt = et_session_key t" "ct_end_time tgt = et_end_time t" using u by (simp_all add: usable_def)
  obtain a where a: "open_authenticator pk t d (kd_now ?k) (kd_clock_skew ?k) = Inr a"
    using open_authenticator_run [of pk t d _ "kd_now ?k" "kd_clock_skew ?k"] d(2) key who time(3) by auto
  obtain rep k' sk ct where g: "tgs_req pk (ct_ticket tgt) d svc ?k = (Inr rep, k')" "same_kdc ?k k'"
      "open_reply pk (et_session_key t) rep = Inr ct" "tk_service (ct_ticket ct) = svc" "ct_ticket ct = rep_ticket rep"
      "usable pk (pr_key q) ((service_part t ?k)\<lparr>et_session_key := sk\<rparr>) ct"
    by (rule tgs_req_grants [OF pk q t a])
  let ?c' = "c\<lparr>kc_rng := g, kc_kdc := k', kc_service_tickets := dset svc ct (kc_service_tickets c)\<rparr>"
  show thesis
  proof (rule that [of ct ?c' sk])
    show "get_service_ticket pk svc c = (Inr ct, ?c')"
      using none tgt(1) time(1) key d(1) g(1,3)
      by (simp add: get_service_ticket_def bindM_def at_kdc_def zoom_def)
  qed (use g in simp_all)
qed

lemma service_ap_req_run:
  assumes pk: "pickle_ok pk" and svc: "tk_service tk = ks_name s" and part: "unseal pk (ks_key s) (tk_enc_part tk) = Inr (PTicket part)"
    and time: "ks_now s \<le> et_end_time part" "et_start_time part \<le> ks_now s + ks_clock_skew s"
    and a: "unseal pk (et_session_key part) d = Inr (PAuth a)" "au_client a = et_client part" "\<bar>ks_now s - au_timestamp a\<bar> \<le> ks_clock_skew s"
    and fresh: "dget (ks_replay_cache s) (replay_key a) = None"
  obtains who rep s' where "service_ap_req pk tk d True s = (Inr (who, Some rep), s')" "ac_name who = et_client part"
    "ac_groups who = (case dget (et_authorization_data part) ''groups'' of None \<Rightarrow> [] | Some gs \<Rightarrow> gs)"
    "ac_session_key who = et_session_key part"
    "unseal pk (et_session_key part) rep =
       Inr (PItems [(''timestamp'', IInt (au_timestamp a)), (''sequence'', IInt (au_sequence_number a))])"
proof -
  let ?i = "PItems [(''timestamp'', IInt (au_timestamp a)), (''sequence'', IInt (au_sequence_number a))]"
  obtain rep g where r: "seal pk (et_session_key part) ?i 1 (ks_rng s) = (Inr rep, g)" "unseal pk (et_session_key part) rep = Inr ?i"
    using seal_run [OF pk] by blast
  have o: "open_ap_req pk tk d s = Inr (part, a)"
    using svc part time open_authenticator_run [OF a] by (simp add: open_ap_req_def as_ticket_part_def)
  have "dget (filter (\<lambda>(key, expiry). \<not> expiry < ks_now s) (ks_replay_cache s)) (replay_key a) = None"
    using fresh by (simp add: dget_None_iff) auto
  then show thesis
    by (intro that) (use r o in \<open>auto simp: service_ap_req_def bindM_def remember_authenticator_def purge_replay_cache_def ks_draw_def zoom_def Let_def\<close>)
qed

text \<open>
  C7: A login is good for a service: when the client has its password, the three clocks agree within
  the skew and inside the life of the ticket, and the client and the service have not used this second
  before, then \<open>kinit\<close>, the request for a service ticket, \<open>ap_req\<close> and mutual authentication all succeed,
  and the service learns the name and the groups that the distribution center has for the client.
\<close>

theorem kerberos_login_reaches_the_service:
  assumes pk: "pickle_ok pk" and ok: "can_log_in c password p" and none: "dget (kc_service_tickets c) (ks_name s) = None"
    and q: "dget (kd_principals (kc_kdc c)) (ks_name s) = Some q" "ks_key s = pr_key q"
    and time: "\<bar>ks_now s - kc_now c\<bar> \<le> ks_clock_skew s" "kd_now (kc_kdc c) \<le> ks_now s + ks_clock_skew s"
      "ks_now s \<le> kd_now (kc_kdc c) + kd_ticket_lifetime (kc_kdc c)"
    and fresh: "\<forall>n. dget (ks_replay_cache s) (full_name p, kc_now c, n) = None"
  shows "\<exists>tgt c1 tk d c2 who rep s'.
    kinit pk password c = (Inr tgt, c1)
    \<and> client_ap_req pk (ks_name s) c1 = (Inr (tk, d), c2)
    \<and> service_ap_req pk tk d True s = (Inr (who, Some rep), s')
    \<and> verify_ap_rep pk (ks_name s) rep c2 = Inr True
    \<and> ac_name who = full_name p \<and> ac_groups who = pr_groups p"
proof -
  have p: "full_name p = kc_principal c @ ''@'' @ kc_realm c"
    and t: "\<bar>kd_now (kc_kdc c) - kc_now c\<bar> \<le> kd_clock_skew (kc_kdc c)" "kc_now c \<le> kd_now (kc_kdc c) + kd_ticket_lifetime (kc_kdc c)"
      "0 \<le> kd_ticket_lifetime (kc_kdc c)"
    using ok by (auto simp: can_log_in_def full_name_def)
  obtain tgt c1 sk where 1: "kinit pk password c = (Inr tgt, c1)" "kc_tgt c1 = Some tgt" "same_kdc (kc_kdc c) (kc_kdc c1)"
      "kc_principal c1 = kc_principal c" "kc_realm c1 = kc_realm c" "kc_now c1 = kc_now c" "kc_service_tickets c1 = kc_service_tickets c"
      "usable pk (kd_krbtgt_key (kc_kdc c)) ((initial_part p (kc_kdc c))\<lparr>et_session_key := sk\<rparr>) tgt" "tk_service (ct_ticket tgt) = TGT_SERVICE"
    by (rule kinit_run [OF pk ok])
  note k = same_kdcD [OF 1(3)]
  let ?t = "(initial_part p (kc_kdc c))\<lparr>et_session_key := sk\<rparr>"
  let ?part = "\<lambda>sk'. (service_part ?t (kc_kdc c1))\<lparr>et_session_key := sk'\<rparr>"
  obtain ct c2 sk' where 2: "get_service_ticket pk (ks_name s) c1 = (Inr ct, c2)" "dget (kc_service_tickets c2) (ks_name s) = Some ct"
      "kc_principal c2 = kc_principal c1" "kc_realm c2 = kc_realm c1" "kc_now c2 = kc_now c1" "tk_service (ct_ticket ct) = ks_name s"
      "usable pk (pr_key q) (?part sk') ct"
    by (rule get_service_ticket_run [OF pk 1(2,9), of ?t "ks_name s" q])
      (use 1 k t none q(1) p in \<open>simp_all add: initial_part_def\<close>)
  have u: "unseal pk (ks_key s) (tk_enc_part (ct_ticket ct)) = Inr (PTicket (?part sk'))" "ct_session_key ct = sk'"
    using 2(7) q(2) by (simp_all add: usable_def)
  obtain d g n where 3: "make_authenticator pk (ct_session_key ct) c2 = (Inr d, c2\<lparr>kc_rng := g\<rparr>)"
      "unseal pk (ct_session_key ct) d = Inr (PAuth \<lparr>au_client = kc_principal c2 @ ''@'' @ kc_realm c2, au_realm = kc_realm c2, au_timestamp = kc_now c2,
       au_microseconds = 0, au_checksum = [], au_subkey = None, au_sequence_number = n\<rparr>)"
    by (rule make_authenticator_run [OF pk])
  obtain who rep s' where 4: "service_ap_req pk (ct_ticket ct) d True s = (Inr (who, Some rep), s')" "ac_name who = et_client (?part sk')"
      "ac_groups who = (case dget (et_authorization_data (?part sk')) ''groups'' of None \<Rightarrow> [] | Some gs \<Rightarrow> gs)"
      "\<exists>ts n. unseal pk sk' rep = Inr (PItems [(''timestamp'', IInt ts), (''sequence'', IInt n)])"
    by (rule service_ap_req_run [OF pk 2(6) u(1), of d])
      (use 1 2 3 u k t p time fresh in \<open>auto simp: service_part_def initial_part_def replay_key_def\<close>)
  have "client_ap_req pk (ks_name s) c1 = (Inr (ct_ticket ct, d), c2\<lparr>kc_rng := g\<rparr>)"
    using 2(1) 3(1) by (simp add: client_ap_req_def bindM_def)
  moreover have "verify_ap_rep pk (ks_name s) rep (c2\<lparr>kc_rng := g\<rparr>) = Inr True"
    using 2(2) u(2) 4(4) by (auto simp: verify_ap_rep_def)
  ultimately show ?thesis using 1(1) 4 by (force simp: service_part_def initial_part_def)
qed

text \<open>
  C21: A service ticket gives no more than the ticket-granting ticket: whatever requests are sent, a
  ticket that the distribution center grants names the client, the flags and the groups of a
  ticket-granting ticket that has not expired, sealed under the \<open>krbtgt\<close> key, whose session key the
  requester has used; it starts now and ends no later than that ticket and than the lifetime allows;
  and only the key of the requested service opens it.
\<close>

theorem service_ticket_is_bounded:
  assumes "pickle_ok pk" "tgs_req pk tgt auth svc k = (Inr rep, k')"
  shows "\<exists>t a q part.
    unseal pk (kd_krbtgt_key k) (tk_enc_part tgt) = Inr (PTicket t) \<and> kd_now k \<le> et_end_time t
    \<and> unseal pk (et_session_key t) auth = Inr (PAuth a) \<and> au_client a = et_client t
    \<and> \<bar>kd_now k - au_timestamp a\<bar> \<le> kd_clock_skew k
    \<and> dget (kd_principals k) svc = Some q
    \<and> unseal pk (pr_key q) (tk_enc_part (rep_ticket rep)) = Inr (PTicket part)
    \<and> et_client part = et_client t \<and> et_flags part = et_flags t \<and> et_authorization_data part = et_authorization_data t
    \<and> et_start_time part = kd_now k \<and> et_end_time part \<le> et_end_time t \<and> et_end_time part \<le> kd_now k + kd_ticket_lifetime k"
proof -
  obtain t a q sk where g: "open_tgt pk tgt k = Inr t" "open_authenticator pk t auth (kd_now k) (kd_clock_skew k) = Inr a"
      "dget (kd_principals k) svc = Some q"
      "unseal pk (pr_key q) (tk_enc_part (rep_ticket rep)) = Inr (PTicket ((service_part t k)\<lparr>et_session_key := sk\<rparr>))"
    by (rule tgs_req_grantsE [OF assms])
  have t: "unseal pk (kd_krbtgt_key k) (tk_enc_part tgt) = Inr (PTicket t)" "kd_now k \<le> et_end_time t"
    using g(1) by (auto simp: open_tgt_def as_ticket_part_def bind_res_def split: if_splits sum.splits payload.splits)
  have a: "unseal pk (et_session_key t) auth = Inr (PAuth a)" "au_client a = et_client t" "\<bar>kd_now k - au_timestamp a\<bar> \<le> kd_clock_skew k"
    using g(2) by (auto simp: open_authenticator_def attr_client_def as_authenticator_def bind_res_def split: if_splits sum.splits payload.splits)
  show ?thesis
    by (intro exI [of _ t] exI [of _ a] exI [of _ q] exI [of _ "(service_part t k)\<lparr>et_session_key := sk\<rparr>"])
      (use t a g in \<open>simp add: service_part_def\<close>)
qed

text \<open>
  Who has the \<open>krbtgt\<close> key needs no principal: the forged ticket opens like one that was granted, with
  any name and groups.  And a guessed password is always recognised.
\<close>

lemma forged_ticket_opens:
  assumes pk: "pickle_ok pk" and "0 \<le> lifetime"
  shows "\<exists>t k' part. forge_golden_ticket pk name groups lifetime k = (Inr t, k') \<and> open_tgt pk t k' = Inr part
    \<and> et_client part = name @ ''@'' @ kd_realm k \<and> et_authorization_data part = [(''groups'', groups)]"
proof -
  obtain sk g1 where 1: "rnd 32 (kd_rng k) = (Inr sk, g1)" using rnd_run by blast
  define part where "part = \<lparr>et_client = name @ ''@'' @ kd_realm k, et_realm = kd_realm k, et_session_key = sk,
    et_auth_time = kd_now k, et_start_time = kd_now k, et_end_time = kd_now k + lifetime, et_renew_till = 0,
    et_flags = [''initial'', ''forged''], et_authorization_data = [(''groups'', groups)]\<rparr>"
  obtain enc g2 where 2: "seal pk (kd_krbtgt_key k) (PTicket part) 1 g1 = (Inr enc, g2)" "unseal pk (kd_krbtgt_key k) enc = Inr (PTicket part)"
    using seal_run [OF pk] by blast
  have "forge_golden_ticket pk name groups lifetime k =
      (Inr \<lparr>tk_realm = kd_realm k, tk_service = TGT_SERVICE, tk_enc_part = enc\<rparr>, k\<lparr>kd_rng := g2\<rparr>)"
    using 1 2(1) by (simp add: forge_golden_ticket_def bindM_def kd_draw_def zoom_def part_def)
  moreover have "open_tgt pk \<lparr>tk_realm = kd_realm k, tk_service = TGT_SERVICE, tk_enc_part = enc\<rparr> (k\<lparr>kd_rng := g2\<rparr>) = Inr part"
    using 2(2) assms(2) by (simp add: open_tgt_def as_ticket_part_def) (simp add: part_def)
  ultimately show ?thesis by (simp add: part_def)
qed

lemma cracking_misses_no_password:
  "crack_service_ticket k t pws svc = Inr None \<Longrightarrow> pw \<in> set pws \<Longrightarrow>
     string_to_key pw (kd_realm k @ svc) STRING_TO_KEY_ITERATIONS = Inr key \<Longrightarrow> krb_decrypt key (tk_enc_part t) = Inl KerberosError"
  by (induction pws) (auto simp: bind_res_def py_def split: sum.splits if_splits)

section \<open>The replay cache\<close>

text \<open>What happens at a service: time passes, and requests come in.\<close>

datatype service_event = Pass nat | Request krb_ticket encrypted_data bool

fun service_step :: "pickling \<Rightarrow> service_event \<Rightarrow> kservice \<Rightarrow> kservice" where
  "service_step pk (Pass n) s = s\<lparr>ks_now := ks_now s + int n\<rparr>"
| "service_step pk (Request t d m) s = snd (service_ap_req pk t d m s)"

definition service_run :: "pickling \<Rightarrow> service_event list \<Rightarrow> kservice \<Rightarrow> kservice" where
  "service_run pk es s = fold (service_step pk) es s"

text \<open>The cache holds an entry until \<open>T\<close>: it is there, or \<open>T\<close> has passed.\<close>

definition spent :: "(string \<times> int \<times> int) \<Rightarrow> int \<Rightarrow> kservice \<Rightarrow> bool" where
  "spent k T s \<longleftrightarrow> ks_now s > T \<or> (\<exists>expiry. dget (ks_replay_cache s) k = Some expiry \<and> expiry \<ge> T)"

lemma dget_purged:
  "dget d x = Some e \<Longrightarrow> now \<le> e \<Longrightarrow> dget (filter (\<lambda>(key, expiry). \<not> expiry < now) d) x = Some (e :: int)"
  by (induction d) (auto split: if_splits)

lemma ks_draw_ret: "\<exists>r g. bindM (ks_draw f) (\<lambda>x. ret (h x)) s = (r, s\<lparr>ks_rng := g\<rparr>)"
  by (auto simp: bindM_def ks_draw_def zoom_def split: prod.split sum.split)

lemma service_ap_req_cases:
  obtains (refused) e where "service_ap_req pk t d m s = (Inl e, s)"
  | (replayed) part a expiry where "open_ap_req pk t d s = Inr (part, a)"
      "dget (filter (\<lambda>(key, expiry). \<not> expiry < ks_now s) (ks_replay_cache s)) (replay_key a) = Some expiry"
      "service_ap_req pk t d m s = (Inl KerberosError, s\<lparr>ks_replay_cache := filter (\<lambda>(key, expiry). \<not> expiry < ks_now s) (ks_replay_cache s)\<rparr>)"
  | (accepted) part a g r where "open_ap_req pk t d s = Inr (part, a)"
      "dget (filter (\<lambda>(key, expiry). \<not> expiry < ks_now s) (ks_replay_cache s)) (replay_key a) = None"
      "service_ap_req pk t d m s = (r, s\<lparr>ks_replay_cache :=
         dset (replay_key a) (ks_now s + ks_clock_skew s) (filter (\<lambda>(key, expiry). \<not> expiry < ks_now s) (ks_replay_cache s)), ks_rng := g\<rparr>)"
proof (cases "open_ap_req pk t d s")
  case (Inl e)
  then show thesis by (intro refused) (simp add: service_ap_req_def bindM_def)
next
  case (Inr pa)
  obtain part a where pa: "pa = (part, a)" by (cases pa)
  let ?d = "filter (\<lambda>(key, expiry). \<not> expiry < ks_now s) (ks_replay_cache s)"
  show thesis
  proof (cases "dget ?d (replay_key a)")
    case (Some expiry)
    with Inr pa show thesis
      by (intro replayed) (simp_all add: service_ap_req_def bindM_def remember_authenticator_def purge_replay_cache_def)
  next
    case None
    let ?s = "s\<lparr>ks_replay_cache := dset (replay_key a) (ks_now s + ks_clock_skew s) ?d\<rparr>"
    have rem: "remember_authenticator a s = (Inr (), ?s)"
      using None by (simp add: remember_authenticator_def purge_replay_cache_def bindM_def)
    have "\<exists>r g. service_ap_req pk t d m s = (r, ?s\<lparr>ks_rng := g\<rparr>)"
    proof (cases m)
      case True
      with Inr pa rem show ?thesis by (simp add: service_ap_req_def bindM_run Let_def ks_draw_ret)
    next
      case False
      with Inr pa rem show ?thesis
        by (intro exI [of _ "ks_rng s"] exI) (simp add: service_ap_req_def bindM_def Let_def)
    qed
    then obtain r g where "service_ap_req pk t d m s = (r, ?s\<lparr>ks_rng := g\<rparr>)" by blast
    then show thesis by (intro accepted [OF Inr [unfolded pa] None]) simp
  qed
qed

text \<open>Only the clock moves, and only forwards; the skew never changes.\<close>

lemma spent_step: "spent k T s \<Longrightarrow> spent k T (service_step pk e s)"
proof (cases e)
  case (Request t d m)
  assume s: "spent k T s"
  have kept: "\<exists>x. dget (filter (\<lambda>(key, expiry). \<not> expiry < ks_now s) (ks_replay_cache s)) k = Some x \<and> x \<ge> T"
    if "\<not> ks_now s > T"
    using s that dget_purged [of "ks_replay_cache s" k _ "ks_now s"] by (fastforce simp: spent_def)
  show ?thesis
  proof (cases rule: service_ap_req_cases [of pk t d m s])
    case (refused e)
    with s Request show ?thesis by simp
  next
    case (replayed part b x)
    with s Request kept show ?thesis by (auto simp: spent_def)
  next
    case (accepted part b g r)
    show ?thesis
    proof (cases "ks_now s > T")
      case False
      with kept accepted(2) have "replay_key b \<noteq> k" by auto
      with False kept accepted(3) Request show ?thesis by (auto simp: spent_def)
    qed (use accepted(3) Request in \<open>simp add: spent_def\<close>)
  qed
qed (auto simp: spent_def)

lemma spent_run: "spent k T s \<Longrightarrow> spent k T (service_run pk es s)"
  unfolding service_run_def by (induction es arbitrary: s) (auto intro: spent_step)

lemma service_step_skew: "ks_clock_skew (service_step pk e s) = ks_clock_skew s"
proof (cases e)
  case (Request t d m)
  then show ?thesis by (cases rule: service_ap_req_cases [of pk t d m s]) auto
qed simp

lemma service_run_skew [simp]: "ks_clock_skew (service_run pk es s) = ks_clock_skew s"
  unfolding service_run_def by (induction es arbitrary: s) (auto simp: service_step_skew)

lemma open_ap_req_time: "open_ap_req pk t d s = Inr (part, a) \<Longrightarrow> \<bar>ks_now s - au_timestamp a\<bar> \<le> ks_clock_skew s"
  by (auto simp: open_ap_req_def open_authenticator_def bind_res_def split: if_splits sum.splits)

lemma spent_refused:
  assumes "spent (replay_key b) T s" "open_ap_req pk t d s = Inr (part, b)" "ks_now s \<le> T"
  shows "fst (service_ap_req pk t d m s) = Inl KerberosError"
proof -
  obtain x where x: "dget (ks_replay_cache s) (replay_key b) = Some x" "ks_now s \<le> x"
    using assms by (auto simp: spent_def)
  show ?thesis
    using assms(2) dget_purged [OF x] by (simp add: service_ap_req_def bindM_def remember_authenticator_def purge_replay_cache_def)
qed

text \<open>An accepted request is in the cache for \<open>clock_skew\<close> from when it was seen.\<close>

lemma accepted_is_spent:
  assumes "open_ap_req pk t d s = Inr (part, a)" "service_ap_req pk t d m s = (Inr r, s1)"
  shows "spent (replay_key a) (ks_now s + ks_clock_skew s) s1 \<and> ks_clock_skew s1 = ks_clock_skew s"
  using assms by (cases rule: service_ap_req_cases [of pk t d m s]) (auto simp: spent_def)

text \<open>
  C3: When a service has accepted an authenticator then, after any further time and any further requests,
  each request whose authenticator has the same client, timestamp and sequence number is refused, whatever
  its ticket -- with one exception, which the code has: the timestamp was ahead of the clock of the service
  when it was accepted, more than \<open>clock_skew\<close> has passed since then (so the cache has forgotten it) and
  the timestamp is still within \<open>clock_skew\<close> of the clock.  So a request is refused each time when its
  timestamp was not ahead, and always within \<open>clock_skew\<close> of the acceptance.  A request that does not open
  is not accepted.
\<close>

theorem replayed_authenticator_is_refused:
  assumes "open_ap_req pk t d s = Inr (part, a)" "service_ap_req pk t d m s = (Inr r, s1)" "s' = service_run pk es s1"
  shows "\<forall>t' d' m'. case open_ap_req pk t' d' s' of
      Inl _ \<Rightarrow> \<not> isOk (fst (service_ap_req pk t' d' m' s'))
    | Inr (part', b) \<Rightarrow> replay_key b = replay_key a \<longrightarrow>
        fst (service_ap_req pk t' d' m' s') = Inl KerberosError
        \<or> ks_now s < au_timestamp a \<and> ks_now s + ks_clock_skew s < ks_now s' \<and> ks_now s' \<le> au_timestamp a + ks_clock_skew s"
proof -
  from accepted_is_spent [OF assms(1,2)] assms(3)
  have sp: "spent (replay_key a) (ks_now s + ks_clock_skew s) s'" and skew: "ks_clock_skew s' = ks_clock_skew s"
    by (simp_all add: spent_run)
  have "fst (service_ap_req pk t' d' m' s') = Inl KerberosError
      \<or> ks_now s < au_timestamp a \<and> ks_now s + ks_clock_skew s < ks_now s' \<and> ks_now s' \<le> au_timestamp a + ks_clock_skew s"
    if o: "open_ap_req pk t' d' s' = Inr (part', b)" and same: "replay_key b = replay_key a" for t' d' m' part' b
  proof (cases "ks_now s' \<le> ks_now s + ks_clock_skew s")
    case True
    with sp same spent_refused [OF _ o True] show ?thesis by simp
  next
    case False
    with open_ap_req_time [OF o] same skew show ?thesis by (simp add: replay_key_def) linarith
  qed
  moreover have "\<not> isOk (fst (service_ap_req pk t' d' m' s'))" if "open_ap_req pk t' d' s' = Inl e" for t' d' m' e
    using that by (simp add: service_ap_req_def bindM_def)
  ultimately show ?thesis by (simp split: sum.split)
qed

text \<open>
  The cache forgets an authenticator \<open>clock_skew\<close> after it was seen, not after its timestamp: one whose
  timestamp is ahead of the clock of the service is accepted a second time.
\<close>

lemma future_authenticator_is_accepted_again:
  assumes o: "open_ap_req pk t d s = Inr (part, a)" and acc: "isOk (fst (service_ap_req pk t d False s))"
    and future: "ks_now s < au_timestamp a" and skew: "0 \<le> ks_clock_skew s" and e: "ks_now s + ks_clock_skew s + 1 \<le> et_end_time part"
  shows "isOk (fst (service_ap_req pk t d False (service_run pk [Request t d False, Pass (nat (ks_clock_skew s + 1))] s)))"
proof -
  obtain a' part' g r where 1: "open_ap_req pk t d s = Inr (part', a')"
      "dget (filter (\<lambda>(key, expiry). \<not> expiry < ks_now s) (ks_replay_cache s)) (replay_key a') = None"
      "service_ap_req pk t d False s = (r, s\<lparr>ks_replay_cache :=
         dset (replay_key a') (ks_now s + ks_clock_skew s) (filter (\<lambda>(key, expiry). \<not> expiry < ks_now s) (ks_replay_cache s)), ks_rng := g\<rparr>)"
    using acc by (cases rule: service_ap_req_cases [of pk t d False s]) auto
  with o have same: "a' = a" "part' = part" by simp_all
  let ?now = "ks_now s + ks_clock_skew s + 1"
  define D where "D = dset (replay_key a) (ks_now s + ks_clock_skew s) (filter (\<lambda>(key, expiry). \<not> expiry < ks_now s) (ks_replay_cache s))"
  define s2 where "s2 = s\<lparr>ks_replay_cache := D, ks_rng := g, ks_now := ?now\<rparr>"
  have s2: "service_run pk [Request t d False, Pass (nat (ks_clock_skew s + 1))] s = s2"
    using 1 skew by (simp add: service_run_def s2_def same D_def)
  have "open_ap_req pk t d s2 = Inr (part, a)"
    using o future skew e
    by (auto simp: s2_def open_ap_req_def open_authenticator_def bind_res_def split: if_splits sum.splits)
  moreover have "(replay_key a, x) \<in> set D \<Longrightarrow> x < ?now" for x
  proof -
    assume x: "(replay_key a, x) \<in> set D"
    have "replay_key a \<notin> set (dkeys (filter (\<lambda>(key, expiry). \<not> expiry < ks_now s) (ks_replay_cache s)))"
      using 1(2) by (simp only: same dget_None_iff) simp
    then have "D = filter (\<lambda>(key, expiry). \<not> expiry < ks_now s) (ks_replay_cache s) @ [(replay_key a, ks_now s + ks_clock_skew s)]"
      unfolding D_def by (rule dset_new)
    with x 1(2) show "x < ?now" by (force simp: same dget_None_iff)
  qed
  then have "dget (filter (\<lambda>(key, expiry). \<not> expiry < ?now) D) (replay_key a) = None"
    by (auto simp: dget_None_iff)
  ultimately show ?thesis
    by (simp add: s2 service_ap_req_def bindM_def remember_authenticator_def purge_replay_cache_def) (simp add: s2_def)
qed

section \<open>Samples\<close>

text \<open>
  A serialization of the payloads: a list of fields, a field being a list of bytes, each after a 1, and a 0.
\<close>

definition join_fields :: "byte list list \<Rightarrow> byte list" where
  "join_fields fs = concat (map (\<lambda>f. concat (map (\<lambda>b. [1, b]) f) @ [0]) fs)"

fun fields_of :: "byte list \<Rightarrow> byte list list" where
  "fields_of [] = []"
| "fields_of [b] = [[]]"
| "fields_of (b # c # r) =
     (if b = 0 then [] # fields_of (c # r)
      else (case fields_of r of [] \<Rightarrow> [[c]] | f # fs \<Rightarrow> (c # f) # fs))"

lemma fields_of_0: "fields_of (0 # r) = [] # fields_of r"
  by (cases r) auto

lemma fields_of_join: "fields_of (join_fields fs) = fs"
proof (induction fs)
  case (Cons f fs)
  have "fields_of (concat (map (\<lambda>b. [1, b]) f) @ 0 # r) = f # fields_of r" for r
    by (induction f) (simp_all add: fields_of_0)
  with Cons show ?case by (simp add: join_fields_def)
qed (simp add: join_fields_def)

definition str_field :: "string \<Rightarrow> byte list" where "str_field s = map of_char s"
definition field_str :: "byte list \<Rightarrow> string" where "field_str f = map (\<lambda>b. char_of (unat b)) f"
definition int_field :: "int \<Rightarrow> byte list" where "int_field i = str_field (int_str i)"
definition field_int :: "byte list \<Rightarrow> int" where
  "field_int f = (case py_int (field_str f) of Inr i \<Rightarrow> i | Inl _ \<Rightarrow> 0)"

lemma field_str_field [simp]: "field_str (str_field s) = s"
proof -
  have "unat (of_char c :: byte) = (of_char c :: nat)" for c
    using unat_of_nat_byte [of "of_char c"] by (simp add: of_nat_of_char)
  then show ?thesis by (simp add: str_field_def field_str_def comp_def)
qed

lemma field_int_field [simp]: "field_int (int_field i) = i"
  by (simp add: field_int_def int_field_def)

definition group_field :: "string \<times> string list \<Rightarrow> byte list" where
  "group_field e = join_fields (str_field (fst e) # map str_field (snd e))"

definition field_group :: "byte list \<Rightarrow> string \<times> string list" where
  "field_group f = (case fields_of f of [] \<Rightarrow> ([], []) | k # vs \<Rightarrow> (field_str k, map field_str vs))"

definition item_field :: "string \<times> item \<Rightarrow> byte list" where
  "item_field e = (case snd e of IBytes b \<Rightarrow> join_fields [str_field (fst e), [], b] | IInt n \<Rightarrow> join_fields [str_field (fst e), int_field n])"

definition field_item :: "byte list \<Rightarrow> string \<times> item" where
  "field_item f = (case fields_of f of [k, _, b] \<Rightarrow> (field_str k, IBytes b) | [k, n] \<Rightarrow> (field_str k, IInt (field_int n)) | _ \<Rightarrow> ([], IInt 0))"

lemma field_group_field [simp]: "field_group (group_field e) = e"
  by (simp add: field_group_def group_field_def fields_of_join comp_def)

lemma field_item_field [simp]: "field_item (item_field e) = e"
  by (cases e; cases "snd e") (simp_all add: field_item_def item_field_def fields_of_join)

definition sample_dumps :: "payload \<Rightarrow> byte list" where
  "sample_dumps p =
     (case p of
        PTicket t \<Rightarrow> join_fields [[0], str_field (et_client t), str_field (et_realm t), et_session_key t,
          int_field (et_auth_time t), int_field (et_start_time t), int_field (et_end_time t), int_field (et_renew_till t),
          join_fields (map str_field (et_flags t)), join_fields (map group_field (et_authorization_data t))]
      | PAuth a \<Rightarrow> join_fields [[1], str_field (au_client a), str_field (au_realm a), int_field (au_timestamp a),
          int_field (au_microseconds a), au_checksum a, (case au_subkey a of None \<Rightarrow> [] | Some b \<Rightarrow> 0 # b), int_field (au_sequence_number a)]
      | PItems d \<Rightarrow> join_fields ([2] # map item_field d))"

definition fields_ticket :: "byte list list \<Rightarrow> enc_ticket_part" where
  "fields_ticket fs =
     \<lparr>et_client = field_str (fs ! 0), et_realm = field_str (fs ! 1), et_session_key = fs ! 2,
      et_auth_time = field_int (fs ! 3), et_start_time = field_int (fs ! 4), et_end_time = field_int (fs ! 5),
      et_renew_till = field_int (fs ! 6), et_flags = map field_str (fields_of (fs ! 7)),
      et_authorization_data = map field_group (fields_of (fs ! 8))\<rparr>"

definition fields_auth :: "byte list list \<Rightarrow> krb_authenticator" where
  "fields_auth fs =
     \<lparr>au_client = field_str (fs ! 0), au_realm = field_str (fs ! 1), au_timestamp = field_int (fs ! 2),
      au_microseconds = field_int (fs ! 3), au_checksum = fs ! 4,
      au_subkey = (case fs ! 5 of [] \<Rightarrow> None | _ # b \<Rightarrow> Some b), au_sequence_number = field_int (fs ! 6)\<rparr>"

definition sample_loads :: "byte list \<Rightarrow> exn + payload" where
  "sample_loads bs =
     (case fields_of bs of
        [] \<Rightarrow> Inl (Py Unmodelled)
      | f # fs \<Rightarrow> Inr (if f = [0] then PTicket (fields_ticket fs) else if f = [1] then PAuth (fields_auth fs)
                      else PItems (map field_item fs)))"

definition sample_pickling :: pickling where
  "sample_pickling = \<lparr>pk_dumps = sample_dumps, pk_loads = sample_loads\<rparr>"

lemma sample_pickling_ok: "pickle_ok sample_pickling"
proof -
  have "sample_loads (sample_dumps x) = Inr x" for x
  proof (cases x)
    case (PAuth a)
    then show ?thesis by (cases "au_subkey a") (simp_all add: sample_loads_def sample_dumps_def fields_of_join fields_auth_def)
  qed (simp_all add: sample_loads_def sample_dumps_def fields_of_join fields_ticket_def comp_def)
  then show ?thesis by (simp add: pickle_ok_def sample_pickling_def)
qed

definition sample_password_key :: "byte list" where
  "sample_password_key = (case string_to_key ''open sesame'' ''LAB.LOCALalice'' STRING_TO_KEY_ITERATIONS of Inr k \<Rightarrow> k | Inl _ \<Rightarrow> [])"

definition sample_kdc :: kdc where
  "sample_kdc =
     \<lparr>kd_realm = ''LAB.LOCAL'', kd_now = 1000,
      kd_principals =
        [(''alice'', \<lparr>pr_name = ''alice'', pr_realm = ''LAB.LOCAL'', pr_key = sample_password_key, pr_kvno = 1,
           pr_require_preauth = True, pr_is_service = False, pr_groups = [''staff'']\<rparr>),
         (''HTTP/web'', \<lparr>pr_name = ''HTTP/web'', pr_realm = ''LAB.LOCAL'', pr_key = [7], pr_kvno = 1,
           pr_require_preauth = True, pr_is_service = True, pr_groups = []\<rparr>)],
      kd_ticket_lifetime = 36000, kd_clock_skew = 300, kd_krbtgt_key = [9], kd_log = [],
      kd_rng = \<lparr>tape = \<lambda>_ _. 0, drawn = 0\<rparr>\<rparr>"

definition sample_client :: kclient where
  "sample_client =
     \<lparr>kc_principal = ''alice'', kc_realm = ''LAB.LOCAL'', kc_kdc = sample_kdc, kc_now = 1010, kc_long_term_key = None,
      kc_tgt = None, kc_service_tickets = [], kc_rng = \<lparr>tape = \<lambda>_ _. 1, drawn = 0\<rparr>\<rparr>"

definition sample_service :: kservice where
  "sample_service =
     \<lparr>ks_name = ''HTTP/web'', ks_realm = ''LAB.LOCAL'', ks_key = [7], ks_now = 1020, ks_clock_skew = 300,
      ks_replay_cache = [], ks_rng = \<lparr>tape = \<lambda>_ _. 2, drawn = 0\<rparr>\<rparr>"

definition sample_principal :: principal where
  "sample_principal =
     \<lparr>pr_name = ''alice'', pr_realm = ''LAB.LOCAL'', pr_key = sample_password_key, pr_kvno = 1,
      pr_require_preauth = True, pr_is_service = False, pr_groups = [''staff'']\<rparr>"

lemma sample_can_log_in: "can_log_in sample_client ''open sesame'' sample_principal"
proof -
  have "\<exists>k. string_to_key pw salt STRING_TO_KEY_ITERATIONS = Inr k" for pw salt
    by (simp add: string_to_key_def pbkdf2_hmac_def hash_named_def STRING_TO_KEY_ITERATIONS_def)
  then have "string_to_key ''open sesame'' ''LAB.LOCALalice'' STRING_TO_KEY_ITERATIONS = Inr sample_password_key"
    unfolding sample_password_key_def by (metis sum.simps(6))
  then show ?thesis by (simp add: can_log_in_def sample_client_def sample_kdc_def sample_principal_def)
qed

theorem kerberos_login_reaches_the_service_witness:
  "\<exists>tgt c1 tk d c2 who rep s'.
    kinit sample_pickling ''open sesame'' sample_client = (Inr tgt, c1)
    \<and> client_ap_req sample_pickling (ks_name sample_service) c1 = (Inr (tk, d), c2)
    \<and> service_ap_req sample_pickling tk d True sample_service = (Inr (who, Some rep), s')
    \<and> verify_ap_rep sample_pickling (ks_name sample_service) rep c2 = Inr True
    \<and> ac_name who = full_name sample_principal \<and> ac_groups who = pr_groups sample_principal"
  by (rule kerberos_login_reaches_the_service
        [OF sample_pickling_ok sample_can_log_in, of sample_service "snd (kd_principals sample_kdc ! 1)"])
    (simp_all add: sample_client_def sample_kdc_def sample_service_def)

theorem service_ticket_is_bounded_witness:
  "\<exists>tgt auth rep k'. tgs_req sample_pickling tgt auth ''HTTP/web'' sample_kdc = (Inr rep, k')
    \<and> (\<exists>t a q part.
      unseal sample_pickling (kd_krbtgt_key sample_kdc) (tk_enc_part tgt) = Inr (PTicket t) \<and> kd_now sample_kdc \<le> et_end_time t
      \<and> unseal sample_pickling (et_session_key t) auth = Inr (PAuth a) \<and> au_client a = et_client t
      \<and> \<bar>kd_now sample_kdc - au_timestamp a\<bar> \<le> kd_clock_skew sample_kdc
      \<and> dget (kd_principals sample_kdc) ''HTTP/web'' = Some q
      \<and> unseal sample_pickling (pr_key q) (tk_enc_part (rep_ticket rep)) = Inr (PTicket part)
      \<and> et_client part = et_client t \<and> et_flags part = et_flags t \<and> et_authorization_data part = et_authorization_data t
      \<and> et_start_time part = kd_now sample_kdc \<and> et_end_time part \<le> et_end_time t
      \<and> et_end_time part \<le> kd_now sample_kdc + kd_ticket_lifetime sample_kdc)"
proof -
  let ?t = "initial_part sample_principal sample_kdc"
  obtain e where e: "unseal sample_pickling [9] e = Inr (PTicket ?t)"
    using seal_run [OF sample_pickling_ok] by blast
  let ?tgt = "\<lparr>tk_realm = ''LAB.LOCAL'', tk_service = TGT_SERVICE, tk_enc_part = e\<rparr>"
  obtain auth a where a: "open_authenticator sample_pickling ?t auth (kd_now sample_kdc) (kd_clock_skew sample_kdc) = Inr a"
  proof (rule make_authenticator_run [OF sample_pickling_ok, of "et_session_key ?t" sample_client])
    fix d g n
    assume "unseal sample_pickling (et_session_key ?t) d = Inr (PAuth \<lparr>au_client = kc_principal sample_client @ ''@'' @ kc_realm sample_client,
      au_realm = kc_realm sample_client, au_timestamp = kc_now sample_client, au_microseconds = 0, au_checksum = [],
      au_subkey = None, au_sequence_number = n\<rparr>)"
    then show thesis
      by (intro that open_authenticator_run) (auto simp: initial_part_def full_name_def sample_principal_def sample_client_def sample_kdc_def)
  qed
  have o: "open_tgt sample_pickling ?tgt sample_kdc = Inr ?t"
  proof -
    have "kd_krbtgt_key sample_kdc = [9]" "\<not> kd_now sample_kdc > et_end_time ?t" by (simp_all add: initial_part_def sample_kdc_def)
    with e show ?thesis by (simp add: open_tgt_def as_ticket_part_def)
  qed
  obtain rep k' where "tgs_req sample_pickling ?tgt auth ''HTTP/web'' sample_kdc = (Inr rep, k')"
    by (rule tgs_req_grants [OF sample_pickling_ok _ o a, of "''HTTP/web''" "snd (kd_principals sample_kdc ! 1)"])
      (simp add: sample_kdc_def)
  with service_ticket_is_bounded [OF sample_pickling_ok this] show ?thesis by blast
qed

lemma sample_request:
  assumes "\<bar>1020 - ts\<bar> \<le> 300"
  obtains t d part a who rep s' where "open_ap_req sample_pickling t d sample_service = Inr (part, a)" "au_timestamp a = ts"
    "service_ap_req sample_pickling t d True sample_service = (Inr (who, Some rep), s')"
proof -
  let ?part = "initial_part sample_principal sample_kdc"
  let ?a = "\<lparr>au_client = et_client ?part, au_realm = ''LAB.LOCAL'', au_timestamp = ts, au_microseconds = 0, au_checksum = [],
      au_subkey = None, au_sequence_number = 5\<rparr>"
  obtain e where e: "unseal sample_pickling [7] e = Inr (PTicket ?part)" using seal_run [OF sample_pickling_ok] by blast
  obtain d where d: "unseal sample_pickling (et_session_key ?part) d = Inr (PAuth ?a)" using seal_run [OF sample_pickling_ok] by blast
  let ?t = "\<lparr>tk_realm = ''LAB.LOCAL'', tk_service = ''HTTP/web'', tk_enc_part = e\<rparr>"
  have s: "ks_name sample_service = ''HTTP/web''" "ks_key sample_service = [7]" "ks_now sample_service = 1020"
      "ks_clock_skew sample_service = 300" "ks_replay_cache sample_service = []"
    by (simp_all add: sample_service_def)
  have p: "et_end_time ?part = 37000" "et_start_time ?part = 1000" by (simp_all add: initial_part_def sample_kdc_def)
  have "open_ap_req sample_pickling ?t d sample_service = Inr (?part, ?a)"
    using e d assms open_authenticator_run [OF d, of 1020 300]
    by (simp add: open_ap_req_def s p as_ticket_part_def)
  moreover obtain who rep s' where "service_ap_req sample_pickling ?t d True sample_service = (Inr (who, Some rep), s')"
    by (rule service_ap_req_run [OF sample_pickling_ok, of ?t sample_service ?part d ?a]) (use e d assms in \<open>simp_all add: s p\<close>)
  ultimately show thesis by (intro that [of ?t d ?part ?a who rep s']) simp_all
qed

theorem replayed_authenticator_is_refused_witness:
  "\<exists>t d part a r s1.
    open_ap_req sample_pickling t d sample_service = Inr (part, a) \<and> service_ap_req sample_pickling t d True sample_service = (Inr r, s1)
    \<and> au_timestamp a = 1100
    \<and> (\<forall>t' d' m'. case open_ap_req sample_pickling t' d' (service_run sample_pickling [Pass 290] s1) of
        Inl _ \<Rightarrow> \<not> isOk (fst (service_ap_req sample_pickling t' d' m' (service_run sample_pickling [Pass 290] s1)))
      | Inr (part', b) \<Rightarrow> replay_key b = replay_key a \<longrightarrow>
          fst (service_ap_req sample_pickling t' d' m' (service_run sample_pickling [Pass 290] s1)) = Inl KerberosError)"
proof -
  obtain t d part a who rep s1 where s: "open_ap_req sample_pickling t d sample_service = Inr (part, a)" "au_timestamp a = 1100"
      "service_ap_req sample_pickling t d True sample_service = (Inr (who, Some rep), s1)"
    by (rule sample_request [of 1100]) simp
  have "ks_now (service_run sample_pickling [Pass 290] s1) = 1310"
    using s(3) by (cases rule: service_ap_req_cases [of sample_pickling t d True sample_service])
      (auto simp: service_run_def sample_service_def)
  moreover have "ks_now sample_service = 1020" "ks_clock_skew sample_service = 300" by (simp_all add: sample_service_def)
  ultimately have "\<forall>t' d' m'. case open_ap_req sample_pickling t' d' (service_run sample_pickling [Pass 290] s1) of
        Inl _ \<Rightarrow> \<not> isOk (fst (service_ap_req sample_pickling t' d' m' (service_run sample_pickling [Pass 290] s1)))
      | Inr (part', b) \<Rightarrow> replay_key b = replay_key a \<longrightarrow>
          fst (service_ap_req sample_pickling t' d' m' (service_run sample_pickling [Pass 290] s1)) = Inl KerberosError"
    using replayed_authenticator_is_refused [OF s(1,3) refl, of "[Pass 290]"] by (simp del: isOk_iff cong: sum.case_cong)
  with s show ?thesis by blast
qed

end
