(* ===== verification/Scim.thy ===== *)
theory Scim
  imports Exn Encoding "HOL-Library.Sublist"
begin

text \<open>
  \<open>directory/scim.py\<close>: the provisioning server, its users, the PATCH operations and the filter
  language.  The attributes of a user are whatever the request bodies had, so they are \<open>pyval\<close>s; the
  server is a record whose source of random bytes is a field.  A returned resource is a value: that it
  shares lists with the server is not modelled, and neither is Python's limit on the depth of recursion: on
  parentheses nested near a thousand deep \<open>parse_or\<close> and \<open>parse_term\<close> raise \<open>RecursionError\<close>, here they go on.
\<close>

section \<open>Users and errors\<close>

definition USER_SCHEMA :: string where "USER_SCHEMA = ''urn:ietf:params:scim:schemas:core:2.0:User''"
definition GROUP_SCHEMA :: string where "GROUP_SCHEMA = ''urn:ietf:params:scim:schemas:core:2.0:Group''"
definition LIST_SCHEMA :: string where "LIST_SCHEMA = ''urn:ietf:params:scim:api:messages:2.0:ListResponse''"
definition PATCH_SCHEMA :: string where "PATCH_SCHEMA = ''urn:ietf:params:scim:api:messages:2.0:PatchOp''"
definition ERROR_SCHEMA :: string where "ERROR_SCHEMA = ''urn:ietf:params:scim:api:messages:2.0:Error''"

definition scim_error_to_dict :: "nat \<Rightarrow> string \<Rightarrow> string option \<Rightarrow> pydict" where
  "scim_error_to_dict status detail scim_type =
     (let body = [(''schemas'', PList [PStr ERROR_SCHEMA]), (''status'', PStr (nat_digits status)), (''detail'', PStr detail)]
      in case scim_type of Some (c # t) \<Rightarrow> body @ [(''scimType'', PStr (c # t))] | _ \<Rightarrow> body)"

record scim_user =
  su_id :: string
  su_user_name :: pyval
  su_external_id :: pyval
  su_active :: pyval
  su_emails :: pyval
  su_name :: pyval
  su_groups :: "string list"
  su_meta :: pydict

record scim_group =
  sg_id :: string
  sg_display_name :: string
  sg_members :: "string list"
  sg_external_id :: "string option"

definition to_resource :: "string \<Rightarrow> scim_user \<Rightarrow> pydict" where
  "to_resource location_base u =
     [(''schemas'', PList [PStr USER_SCHEMA]), (''id'', PStr (su_id u)), (''externalId'', su_external_id u),
      (''userName'', su_user_name u), (''active'', su_active u), (''name'', su_name u), (''emails'', su_emails u),
      (''groups'', PList (map (\<lambda>g. PDict [(''value'', PStr g)]) (su_groups u))),
      (''meta'', PDict (dmerge [(''resourceType'', PStr ''User''),
         (''location'', PStr (location_base @ ''/Users/'' @ su_id u))] (su_meta u)))]"

record scim_server =
  sc_location_base :: string
  sc_users :: "(string, scim_user) dict"
  sc_groups :: "(string, scim_group) dict"
  sc_events :: "string list"
  sc_rng :: rng

type_synonym 'a scim_op = "(scim_server, 'a) op"

text \<open>\<open>body.get(k, default)\<close>.\<close>

definition body_get :: "pydict \<Rightarrow> string \<Rightarrow> pyval \<Rightarrow> pyval" where
  "body_get d k v = (case dget d k of None \<Rightarrow> v | Some x \<Rightarrow> x)"

definition log_user :: "string \<Rightarrow> scim_user \<Rightarrow> unit scim_op" where
  "log_user what u = modify (\<lambda>s. s\<lparr>sc_events :=
     sc_events s @ [what @ '' '' @ py_str (su_user_name u) @ '' (active='' @ py_str (su_active u) @ '')'']\<rparr>)"

text \<open>\<open>self.users.get(user_id)\<close>, or a 404.\<close>

definition find_user :: "string \<Rightarrow> scim_user scim_op" where
  "find_user user_id s = (case dget (sc_users s) user_id of None \<Rightarrow> (Inl (SCIMError 404), s) | Some u \<Rightarrow> (Inr u, s))"

definition put_user :: "string \<Rightarrow> scim_user \<Rightarrow> unit scim_op" where
  "put_user user_id u = modify (\<lambda>s. s\<lparr>sc_users := dset user_id u (sc_users s)\<rparr>)"

definition resource_of :: "scim_user \<Rightarrow> pydict scim_op" where
  "resource_of u = gets (\<lambda>s. to_resource (sc_location_base s) u)"

section \<open>Creation, reading, replacement, deletion\<close>

text \<open>The loop over the users: the names are compared by their \<open>lower()\<close>.\<close>

fun check_unique :: "pyval \<Rightarrow> scim_user list \<Rightarrow> exn + unit" where
  "check_unique user_name [] = Inr ()"
| "check_unique user_name (existing # rest) =
     bind_res (py (str_of (su_user_name existing))) (\<lambda>theirs.
     bind_res (py (str_of user_name)) (\<lambda>name.
       if lower theirs = lower name then Inl (SCIMError 409) else check_unique user_name rest))"

definition create_user :: "pydict \<Rightarrow> pydict scim_op" where
  "create_user body =
     bindM (guard (truthy (pget body ''userName'')) (SCIMError 400)) (\<lambda>_.
     bindM (\<lambda>s. (check_unique (pget body ''userName'') (dvalues (sc_users s)), s)) (\<lambda>_.
     bindM (\<lambda>s. case random_token 12 (sc_rng s) of (t, g) \<Rightarrow> (Inr t, s\<lparr>sc_rng := g\<rparr>)) (\<lambda>id.
     let user = \<lparr>su_id = id, su_user_name = pget body ''userName'', su_external_id = pget body ''externalId'',
                 su_active = body_get body ''active'' (PBool True), su_emails = body_get body ''emails'' (PList []),
                 su_name = body_get body ''name'' (PDict []), su_groups = [], su_meta = []\<rparr>
     in bindM (put_user id user) (\<lambda>_. bindM (log_user ''user.created'' user) (\<lambda>_. resource_of user)))))"

definition get_user :: "string \<Rightarrow> pydict scim_op" where
  "get_user user_id = bindM (find_user user_id) resource_of"

definition replaced :: "pydict \<Rightarrow> scim_user \<Rightarrow> scim_user" where
  "replaced body u =
     u\<lparr>su_user_name := body_get body ''userName'' (su_user_name u),
       su_external_id := body_get body ''externalId'' (su_external_id u),
       su_active := body_get body ''active'' (PBool True),
       su_emails := body_get body ''emails'' (su_emails u),
       su_name := body_get body ''name'' (su_name u)\<rparr>"

definition replace_user :: "string \<Rightarrow> pydict \<Rightarrow> pydict scim_op" where
  "replace_user user_id body =
     bindM (find_user user_id) (\<lambda>u.
     bindM (put_user user_id (replaced body u)) (\<lambda>_.
     bindM (log_user ''user.replaced'' (replaced body u)) (\<lambda>_. resource_of (replaced body u))))"

definition delete_user :: "string \<Rightarrow> unit scim_op" where
  "delete_user user_id =
     bindM (find_user user_id) (\<lambda>u.
     bindM (modify (\<lambda>s. s\<lparr>sc_users := ddel user_id (sc_users s)\<rparr>)) (\<lambda>_.
     modify (\<lambda>s. s\<lparr>sc_events := sc_events s @ [''user.deleted '' @ py_str (su_user_name u)]\<rparr>)))"

section \<open>PATCH\<close>

definition set_attribute :: "pyval \<Rightarrow> pyval \<Rightarrow> (scim_user, unit) op" where
  "set_attribute path v =
     bindM (lift (py (str_of path))) (\<lambda>p.
     let attribute = before_first (CHR ''['') (before_first (CHR ''.'') (lower p)) in
     if attribute = ''active'' then modify (\<lambda>u. u\<lparr>su_active := PBool (v \<noteq> PNone \<and> truthy v)\<rparr>)
     else if attribute = ''username'' then modify (\<lambda>u. u\<lparr>su_user_name := v\<rparr>)
     else if attribute = ''name'' then modify (\<lambda>u. u\<lparr>su_name := (if truthy v then v else PDict [])\<rparr>)
     else if attribute = ''emails'' then modify (\<lambda>u. u\<lparr>su_emails := (if truthy v then v else PList [])\<rparr>)
     else if attribute = ''externalid'' then modify (\<lambda>u. u\<lparr>su_external_id := v\<rparr>)
     else ret ())"

fun set_attributes :: "pydict \<Rightarrow> (scim_user, unit) op" where
  "set_attributes [] = ret ()"
| "set_attributes ((key, item) # rest) = bindM (set_attribute (PStr key) item) (\<lambda>_. set_attributes rest)"

definition apply_patch :: "string \<Rightarrow> pyval \<Rightarrow> pyval \<Rightarrow> (scim_user, unit) op" where
  "apply_patch op path v =
     (case (truthy path, v) of
        (False, PDict d) \<Rightarrow> set_attributes d
      | _ \<Rightarrow> if op = ''remove'' then set_attribute path PNone else set_attribute path v)"

definition apply_operation :: "pyval \<Rightarrow> (scim_user, unit) op" where
  "apply_operation operation =
     bindM (lift (py (as_dict operation))) (\<lambda>d.
     bindM (if truthy (pget d ''op'') then lift (py (map_sum id lower (str_of (pget d ''op'')))) else ret []) (\<lambda>op.
     bindM (guard (op \<in> {''add'', ''remove'', ''replace''}) (SCIMError 400)) (\<lambda>_.
     apply_patch op (body_get d ''path'' (PStr [])) (pget d ''value''))))"

fun apply_operations :: "pyval list \<Rightarrow> (scim_user, unit) op" where
  "apply_operations [] = ret ()"
| "apply_operations (operation # rest) = bindM (apply_operation operation) (\<lambda>_. apply_operations rest)"

text \<open>The user object is changed in place, so what was done before an exception stays done.\<close>

definition at_user :: "string \<Rightarrow> scim_user \<Rightarrow> (scim_user, unit) op \<Rightarrow> scim_user scim_op" where
  "at_user user_id u m s =
     (case m u of (r, u') \<Rightarrow> (map_sum id (\<lambda>_. u') r, s\<lparr>sc_users := dset user_id u' (sc_users s)\<rparr>))"

definition patch_operations :: "pydict \<Rightarrow> pyval" where
  "patch_operations body = (if truthy (pget body ''Operations'') then pget body ''Operations'' else pget body ''operations'')"

definition patch_user :: "string \<Rightarrow> pydict \<Rightarrow> pydict scim_op" where
  "patch_user user_id body =
     bindM (find_user user_id) (\<lambda>u.
     bindM (guard (truthy (patch_operations body)) (SCIMError 400)) (\<lambda>_.
     bindM (lift (py (py_iter (patch_operations body)))) (\<lambda>operations.
     bindM (at_user user_id u (apply_operations operations)) (\<lambda>u'.
     bindM (log_user ''user.patched'' u') (\<lambda>_. resource_of u')))))"

definition deactivate_user :: "string \<Rightarrow> pydict scim_op" where
  "deactivate_user user_id =
     patch_user user_id
       [(''schemas'', PList [PStr PATCH_SCHEMA]),
        (''Operations'', PList [PDict [(''op'', PStr ''replace''), (''path'', PStr ''active''), (''value'', PBool False)]])]"

definition is_active :: "string \<Rightarrow> scim_server \<Rightarrow> bool" where
  "is_active user_id s = (case dget (sc_users s) user_id of None \<Rightarrow> False | Some u \<Rightarrow> truthy (su_active u))"

section \<open>Filters\<close>

text \<open>
  The tokens: a parenthesis, a quoted text up to the next quote, or the longest run without white
  space and parentheses (which is what an unclosed quote starts).
\<close>

definition word_char :: "char \<Rightarrow> bool" where
  "word_char c \<longleftrightarrow> \<not> is_space c \<and> c \<noteq> CHR ''('' \<and> c \<noteq> CHR '')''"

function scim_tokens :: "string \<Rightarrow> string list" where
  "scim_tokens [] = []"
| "scim_tokens (c # s) =
     (if is_space c then scim_tokens s
      else if c = CHR ''('' \<or> c = CHR '')'' then [c] # scim_tokens s
      else if c = CHR 0x22 \<and> CHR 0x22 \<in> set s
      then (c # takeWhile (\<lambda>x. x \<noteq> CHR 0x22) s @ [c]) # scim_tokens (tl (dropWhile (\<lambda>x. x \<noteq> CHR 0x22) s))
      else (c # takeWhile word_char s) # scim_tokens (dropWhile word_char s))"
  by pat_completeness auto
termination
  by (relation "measure length")
    (auto simp: le_imp_less_Suc length_dropWhile_le intro: le_less_trans [OF diff_le_self])

datatype scim_filter =
    FOr scim_filter scim_filter
  | FAnd scim_filter scim_filter
  | FPresent string
  | FCompare string string string

text \<open>
  The parser; the closures of the code are the constructors of \<open>scim_filter\<close>.  The rules are the three
  functions of the code and the loops of \<open>parse_or\<close> and \<open>parse_and\<close>, with the part read so far.
  \<open>Diverges\<close> stands for too little fuel.
\<close>

abbreviation invalid_filter :: "exn + 'a" where
  "invalid_filter \<equiv> Inl (SCIMError 400)"

definition term_tokens :: "string list \<Rightarrow> exn + (scim_filter \<times> string list)" where
  "term_tokens ts =
     (case ts of
        attr # operator # rest \<Rightarrow>
          (if lower operator = ''pr'' then Inr (FPresent (lower attr), rest)
           else (case rest of
             [] \<Rightarrow> invalid_filter
           | raw # rest' \<Rightarrow>
               Inr (FCompare (lower attr) (lower operator) (if prefix [CHR 0x22] raw then butlast (tl raw) else raw), rest')))
      | _ \<Rightarrow> invalid_filter)"

datatype rule = OrRule | OrLoop scim_filter | AndRule | AndLoop scim_filter | TermRule

primrec scim_parse :: "nat \<Rightarrow> rule \<Rightarrow> string list \<Rightarrow> exn + (scim_filter \<times> string list)" where
  "scim_parse 0 r ts = Inl (Py Diverges)"
| "scim_parse (Suc n) r ts =
     (case r of
        OrRule \<Rightarrow> bind_res (scim_parse n AndRule ts) (\<lambda>(left, rest). scim_parse n (OrLoop left) rest)
      | OrLoop left \<Rightarrow>
          (case ts of
             [] \<Rightarrow> Inr (left, ts)
           | t # rest \<Rightarrow>
               if lower t = ''or''
               then bind_res (scim_parse n AndRule rest) (\<lambda>(right, rest'). scim_parse n (OrLoop (FOr left right)) rest')
               else Inr (left, ts))
      | AndRule \<Rightarrow> bind_res (scim_parse n TermRule ts) (\<lambda>(left, rest). scim_parse n (AndLoop left) rest)
      | AndLoop left \<Rightarrow>
          (case ts of
             [] \<Rightarrow> Inr (left, ts)
           | t # rest \<Rightarrow>
               if lower t = ''and''
               then bind_res (scim_parse n TermRule rest) (\<lambda>(right, rest'). scim_parse n (AndLoop (FAnd left right)) rest')
               else Inr (left, ts))
      | TermRule \<Rightarrow>
          (case ts of
             [] \<Rightarrow> invalid_filter
           | t # rest \<Rightarrow>
               if t \<in> {'')'', ''and'', ''or''} then invalid_filter
               else if t = ''('' then
                 bind_res (scim_parse n OrRule rest) (\<lambda>(inner, rest').
                   case rest' of
                     [] \<Rightarrow> invalid_filter
                   | u # rest'' \<Rightarrow> if u = '')'' then Inr (inner, rest'') else invalid_filter)
               else term_tokens ts))"

definition filter_fuel :: "string list \<Rightarrow> nat" where
  "filter_fuel ts = 3 * length ts + 3"

definition parse_scim_filter :: "string \<Rightarrow> exn + scim_filter" where
  "parse_scim_filter text =
     (if strip text = [] then invalid_filter
      else (let ts = scim_tokens text in
        bind_res (scim_parse (filter_fuel ts) OrRule ts) (\<lambda>(f, rest). if rest = [] then Inr f else invalid_filter)))"

text \<open>
  \<open>user.emails[0]["value"] if user.emails else None\<close>, on whatever the user's e-mails are; it is computed
  for every attribute.
\<close>

definition first_email :: "pyval \<Rightarrow> py_error + pyval" where
  "first_email emails =
     (if \<not> truthy emails then Inr PNone
      else (case emails of
         PList (PDict d # _) \<Rightarrow> (case dget d ''value'' of None \<Rightarrow> Inl KeyError | Some v \<Rightarrow> Inr v)
       | PDict _ \<Rightarrow> Inl KeyError
       | _ \<Rightarrow> Inl TypeError))"

definition scim_attr :: "scim_user \<Rightarrow> string \<Rightarrow> py_error + pyval" where
  "scim_attr u attr =
     bind_res (first_email (su_emails u)) (\<lambda>email.
       Inr (if attr = ''username'' then su_user_name u
            else if attr = ''externalid'' then su_external_id u
            else if attr = ''active'' then su_active u
            else if attr = ''emails.value'' then email
            else PNone))"

definition scim_comparison :: "string \<Rightarrow> string \<Rightarrow> string \<Rightarrow> scim_user \<Rightarrow> exn + bool" where
  "scim_comparison attr operator v u =
     bind_res (py (scim_attr u attr)) (\<lambda>actual.
       case actual of
         PNone \<Rightarrow> Inr False
       | PBool b \<Rightarrow> Inr (if operator = ''eq'' then b = (lower v = ''true'') else b \<noteq> (lower v = ''true''))
       | _ \<Rightarrow>
           (let a = lower (py_str actual); b = lower v in
            if operator = ''eq'' then Inr (a = b)
            else if operator = ''ne'' then Inr (a \<noteq> b)
            else if operator = ''co'' then Inr (sublist b a)
            else if operator = ''sw'' then Inr (prefix b a)
            else if operator = ''ew'' then Inr (suffix b a)
            else Inl (SCIMError 400)))"

fun filter_matches :: "scim_filter \<Rightarrow> scim_user \<Rightarrow> exn + bool" where
  "filter_matches (FOr f g) u = bind_res (filter_matches f u) (\<lambda>b. if b then Inr True else filter_matches g u)"
| "filter_matches (FAnd f g) u = bind_res (filter_matches f u) (\<lambda>b. if b then filter_matches g u else Inr False)"
| "filter_matches (FPresent attr) u = bind_res (py (scim_attr u attr)) (\<lambda>v. Inr (truthy v))"
| "filter_matches (FCompare attr operator v) u = scim_comparison attr operator v u"

text \<open>\<open>xs[i:j]\<close>: a negative index counts from the end.\<close>

definition slice_index :: "nat \<Rightarrow> int \<Rightarrow> nat" where
  "slice_index len i = (if i < 0 then nat (max 0 (i + int len)) else min (nat i) len)"

definition py_slice :: "int \<Rightarrow> int \<Rightarrow> 'a list \<Rightarrow> 'a list" where
  "py_slice i j xs = take (slice_index (length xs) j - slice_index (length xs) i) (drop (slice_index (length xs) i) xs)"

fun matching :: "scim_filter \<Rightarrow> scim_user list \<Rightarrow> exn + scim_user list" where
  "matching f [] = Inr []"
| "matching f (u # us) =
     bind_res (filter_matches f u) (\<lambda>b. bind_res (matching f us) (\<lambda>rest. Inr (if b then u # rest else rest)))"

definition scim_list_users :: "string option \<Rightarrow> int \<Rightarrow> int \<Rightarrow> scim_server \<Rightarrow> exn + pydict" where
  "scim_list_users filter_string start_index count s =
     bind_res
       (case filter_string of
          Some (c # t) \<Rightarrow> bind_res (parse_scim_filter (c # t)) (\<lambda>f. matching f (dvalues (sc_users s)))
        | _ \<Rightarrow> Inr (dvalues (sc_users s))) (\<lambda>matches.
     let page = py_slice (start_index - 1) (start_index - 1 + count) matches in
       Inr [(''schemas'', PList [PStr LIST_SCHEMA]), (''totalResults'', PInt (int (length matches))),
            (''startIndex'', PInt start_index), (''itemsPerPage'', PInt (int (length page))),
            (''Resources'', PList (map (\<lambda>u. PDict (to_resource (sc_location_base s) u)) page))])"

end
