(* ===== verification/Provisioning.thy ===== *)
theory Provisioning
  imports Scim
begin

text \<open>Properties of \<open>Scim\<close>: the filter language, deactivation, and what the checks leave open.\<close>

declare scim_tokens.simps [simp del]

section \<open>Reading a filter ends\<close>

definition rank :: "rule \<Rightarrow> nat" where
  "rank r = (case r of OrRule \<Rightarrow> 2 | AndRule \<Rightarrow> 1 | _ \<Rightarrow> 0)"

definition consumes :: "rule \<Rightarrow> nat" where
  "consumes r = (case r of OrLoop _ \<Rightarrow> 0 | AndLoop _ \<Rightarrow> 0 | _ \<Rightarrow> 1)"

text \<open>A result is a filter and fewer tokens, or the error of a malformed filter.\<close>

definition good_parse :: "nat \<Rightarrow> exn + ('f \<times> string list) \<Rightarrow> bool" where
  "good_parse n r = (case r of Inl e \<Rightarrow> e = SCIMError 400 | Inr (_, rest) \<Rightarrow> length rest \<le> n)"

lemma good_parse_simps [simp]:
  "good_parse n (Inl e) \<longleftrightarrow> e = SCIMError 400" "good_parse n (Inr (f, rest)) \<longleftrightarrow> length rest \<le> n"
  by (simp_all add: good_parse_def)

lemma good_parse_bind:
  assumes "good_parse k r" "k \<le> m" "\<And>f rest. length rest \<le> k \<Longrightarrow> good_parse (length rest) (h f rest)"
  shows "good_parse m (bind_res r (\<lambda>(f, rest). h f rest))"
proof (cases r)
  case (Inr p)
  obtain f rest where p: "p = (f, rest)" by (cases p)
  with Inr assms(1) have "length rest \<le> k" by simp
  with assms(2) assms(3) [of rest f] show ?thesis by (auto simp: Inr p good_parse_def split: sum.splits)
qed (use assms in simp)

lemma good_term_tokens: "good_parse (length ts - 1) (term_tokens ts)"
  by (auto simp: term_tokens_def split: list.split)

lemma scim_parse_good:
  "3 * length ts + rank r < n \<Longrightarrow> good_parse (length ts - consumes r) (scim_parse n r ts)"
proof (induction n arbitrary: r ts)
  case (Suc n)
  have IH: "good_parse (length us - consumes r) (scim_parse n r us)" if "3 * length us + rank r < n" for us r
    using Suc.IH that .
  have shorter: "3 * length us < n" if "length us \<le> length ts - 1" "0 < n" for us :: "string list"
    using that Suc.prems by (cases ts) (auto simp: rank_def)
  show ?case
  proof (cases r)
    case OrRule
    with Suc.prems IH [of ts AndRule] have "good_parse (length ts - 1) (scim_parse n AndRule ts)" by (simp add: rank_def consumes_def)
    then show ?thesis unfolding OrRule scim_parse.simps rule.case
      by (rule good_parse_bind) (use IH [of _ "OrLoop _"] shorter Suc.prems OrRule in \<open>simp_all add: rank_def consumes_def\<close>)
  next
    case (OrLoop left)
    show ?thesis
    proof (cases "\<exists>t rest. ts = t # rest \<and> lower t = ''or''")
      case True
      then obtain t rest where ts: "ts = t # rest" "lower t = ''or''" by blast
      with Suc.prems IH [of rest AndRule] have "good_parse (length rest - 1) (scim_parse n AndRule rest)" by (simp add: rank_def consumes_def)
      then have "good_parse (length ts) (bind_res (scim_parse n AndRule rest) (\<lambda>(right, y). scim_parse n (OrLoop (FOr left right)) y))"
        by (rule good_parse_bind) (use IH [of _ "OrLoop _"] shorter Suc.prems ts in \<open>simp_all add: rank_def consumes_def\<close>)
      then show ?thesis by (simp add: OrLoop ts consumes_def)
    qed (use OrLoop in \<open>auto simp: consumes_def split: list.split\<close>)
  next
    case AndRule
    with Suc.prems IH [of ts TermRule] have "good_parse (length ts - 1) (scim_parse n TermRule ts)" by (simp add: rank_def consumes_def)
    then show ?thesis unfolding AndRule scim_parse.simps rule.case
      by (rule good_parse_bind) (use IH [of _ "AndLoop _"] shorter Suc.prems AndRule in \<open>simp_all add: rank_def consumes_def\<close>)
  next
    case (AndLoop left)
    show ?thesis
    proof (cases "\<exists>t rest. ts = t # rest \<and> lower t = ''and''")
      case True
      then obtain t rest where ts: "ts = t # rest" "lower t = ''and''" by blast
      with Suc.prems IH [of rest TermRule] have "good_parse (length rest - 1) (scim_parse n TermRule rest)" by (simp add: rank_def consumes_def)
      then have "good_parse (length ts) (bind_res (scim_parse n TermRule rest) (\<lambda>(right, y). scim_parse n (AndLoop (FAnd left right)) y))"
        by (rule good_parse_bind) (use IH [of _ "AndLoop _"] shorter Suc.prems ts in \<open>simp_all add: rank_def consumes_def\<close>)
      then show ?thesis by (simp add: AndLoop ts consumes_def)
    qed (use AndLoop in \<open>auto simp: consumes_def split: list.split\<close>)
  next
    case TermRule
    show ?thesis
    proof (cases "\<exists>rest. ts = ''('' # rest")
      case True
      then obtain rest where ts: "ts = ''('' # rest" by blast
      have "good_parse (length rest - 1) (scim_parse n OrRule rest)" using Suc.prems IH [of rest OrRule] TermRule ts by (simp add: rank_def consumes_def)
      then show ?thesis by (auto simp: TermRule ts consumes_def good_parse_def bind_res_def split: sum.splits list.split)
    qed (use TermRule good_term_tokens [of ts] in \<open>auto simp: consumes_def good_parse_def split: list.split\<close>)
  qed
qed simp

lemma parse_scim_filter_ends: "\<exists>f. parse_scim_filter text = Inr f \<or> parse_scim_filter text = Inl (SCIMError 400)"
  using scim_parse_good [of "scim_tokens text" OrRule "filter_fuel (scim_tokens text)"]
  by (auto simp: parse_scim_filter_def filter_fuel_def rank_def consumes_def good_parse_def Let_def bind_res_def split: sum.splits)

section \<open>Printing and reading\<close>

text \<open>
  A filter written out: names and operators as they are, every value between quotes, every
  combination between parentheses.
\<close>

fun show_tokens :: "scim_filter \<Rightarrow> string list" where
  "show_tokens (FOr f g) = [''(''] @ show_tokens f @ [''or''] @ show_tokens g @ ['')'']"
| "show_tokens (FAnd f g) = [''(''] @ show_tokens f @ [''and''] @ show_tokens g @ ['')'']"
| "show_tokens (FPresent attr) = [attr, ''pr'']"
| "show_tokens (FCompare attr operator v) = [attr, operator, [CHR 0x22] @ v @ [CHR 0x22]]"

definition show_filter :: "scim_filter \<Rightarrow> string" where
  "show_filter f = join '' '' (show_tokens f)"

definition plain_word :: "string \<Rightarrow> bool" where
  "plain_word w \<longleftrightarrow> w \<noteq> [] \<and> lower w = w \<and> w \<notin> {''and'', ''or''} \<and> (\<forall>c \<in> set w. word_char c \<and> c \<noteq> CHR 0x22)"

fun printable :: "scim_filter \<Rightarrow> bool" where
  "printable (FOr f g) = (printable f \<and> printable g)"
| "printable (FAnd f g) = (printable f \<and> printable g)"
| "printable (FPresent attr) = plain_word attr"
| "printable (FCompare attr operator v) = (plain_word attr \<and> plain_word operator \<and> operator \<noteq> ''pr'' \<and> CHR 0x22 \<notin> set v)"

definition ends_token :: "string \<Rightarrow> bool" where
  "ends_token r \<longleftrightarrow> (case r of [] \<Rightarrow> True | c # _ \<Rightarrow> c = CHR '' '')"

definition good_token :: "string \<Rightarrow> bool" where
  "good_token t \<longleftrightarrow> (\<forall>r. ends_token r \<longrightarrow> scim_tokens (t @ r) = t # scim_tokens r)"

lemma good_tokenD: "good_token t \<Longrightarrow> ends_token r \<Longrightarrow> scim_tokens (t @ r) = t # scim_tokens r"
  by (simp add: good_token_def)

lemma good_token_paren: "good_token ''(''" "good_token '')''"
  by (simp_all add: good_token_def is_space_def scim_tokens.simps)

lemma good_token_word:
  assumes "w \<noteq> []" "\<forall>c \<in> set w. word_char c \<and> c \<noteq> CHR 0x22"
  shows "good_token w"
proof -
  obtain c t where w: "w = c # t" using assms(1) by (cases w) auto
  have "takeWhile word_char (t @ r) = t" "dropWhile word_char (t @ r) = r" if "ends_token r" for r
  proof -
    have t: "\<forall>c \<in> set t. word_char c" using assms(2) w by simp
    have r: "takeWhile word_char r = []" "dropWhile word_char r = r"
      using that by (cases r; simp add: ends_token_def word_char_def is_space_def)+
    show "takeWhile word_char (t @ r) = t" "dropWhile word_char (t @ r) = r"
      using t r by (simp_all add: takeWhile_append2 dropWhile_append2)
  qed
  then show ?thesis using assms(2) by (simp add: good_token_def w word_char_def scim_tokens.simps)
qed

lemma good_token_quoted:
  assumes "CHR 0x22 \<notin> set v"
  shows "good_token ([CHR 0x22] @ v @ [CHR 0x22])"
proof -
  have "takeWhile (\<lambda>x. x \<noteq> CHR 0x22) (v @ CHR 0x22 # r) = v" "dropWhile (\<lambda>x. x \<noteq> CHR 0x22) (v @ CHR 0x22 # r) = CHR 0x22 # r" for r
    using assms by (auto simp: takeWhile_append dropWhile_append)
  then show ?thesis by (simp add: good_token_def is_space_def scim_tokens.simps)
qed

lemma scim_tokens_join: "\<forall>t \<in> set ts. good_token t \<Longrightarrow> scim_tokens (join '' '' ts) = ts"
proof (induction ts)
  case (Cons t ts)
  have sp: "scim_tokens (CHR '' '' # s) = scim_tokens s" for s by (simp add: is_space_def scim_tokens.simps)
  show ?case
  proof (cases ts)
    case Nil
    with Cons good_tokenD [of t "[]"] show ?thesis by (simp add: join_def ends_token_def scim_tokens.simps)
  next
    case (Cons u us)
    have "join '' '' (t # ts) = t @ CHR '' '' # join '' '' ts" by (simp add: join_def Cons)
    with Cons.IH Cons.prems good_tokenD [of t "CHR '' '' # join '' '' ts"] show ?thesis by (simp add: ends_token_def sp)
  qed
qed (simp add: join_def scim_tokens.simps)

lemma show_tokens_good: "printable f \<Longrightarrow> t \<in> set (show_tokens f) \<Longrightarrow> good_token t"
proof (induction f)
  case (FPresent attr)
  moreover have "good_token ''pr''" by (rule good_token_word) (auto simp: word_char_def is_space_def)
  ultimately show ?case by (auto simp: plain_word_def intro: good_token_word)
next
  case (FCompare attr operator v)
  then show ?case using good_token_quoted [of v] by (auto simp: plain_word_def intro: good_token_word)
next
  case (FOr f g)
  moreover have "good_token ''or''" by (rule good_token_word) (auto simp: word_char_def is_space_def)
  ultimately show ?case using good_token_paren by auto
next
  case (FAnd f g)
  moreover have "good_token ''and''" by (rule good_token_word) (auto simp: word_char_def is_space_def)
  ultimately show ?case using good_token_paren by auto
qed

lemma lower_keywords [simp]:
  "lower ''or'' = ''or''" "lower ''and'' = ''and''" "lower ''pr'' = ''pr''" "lower '')'' = '')''" "lower ''('' = ''(''"
  by (simp_all add: lower_def lower_char_def Let_def)

lemma loop_stops:
  "0 < n \<Longrightarrow> ts = [] \<or> lower (hd ts) \<noteq> ''or'' \<Longrightarrow> scim_parse n (OrLoop l) ts = Inr (l, ts)"
  "0 < n \<Longrightarrow> ts = [] \<or> lower (hd ts) \<noteq> ''and'' \<Longrightarrow> scim_parse n (AndLoop l) ts = Inr (l, ts)"
  by (cases n; auto split: list.split)+

lemma plain_word_start: "plain_word w \<Longrightarrow> w \<notin> {'')'', ''and'', ''or'', ''(''} \<and> lower w = w"
proof -
  assume w: "plain_word w"
  then have c: "word_char c" if "c \<in> set w" for c using that by (simp add: plain_word_def)
  have "w \<noteq> '')''" "w \<noteq> ''(''" using c by (force simp: word_char_def)+
  with w show ?thesis by (simp add: plain_word_def)
qed

lemma parse_shown_term:
  "printable f \<Longrightarrow> 3 * length (show_tokens f @ rest) < n \<Longrightarrow> scim_parse n TermRule (show_tokens f @ rest) = Inr (f, rest)"
proof (induction f arbitrary: n rest)
  case (FPresent attr)
  then have "n = Suc (n - 1)" by simp
  moreover have "plain_word attr" using FPresent by simp
  ultimately show ?case using plain_word_start [of attr] by (cases n) (simp_all add: term_tokens_def)
next
  case (FCompare attr operator v)
  then have "n = Suc (n - 1)" by simp
  moreover have "plain_word attr" "plain_word operator" "operator \<noteq> ''pr''" using FCompare by simp_all
  ultimately show ?case using plain_word_start [of attr] plain_word_start [of operator] by (cases n) (simp_all add: term_tokens_def)
next
  case (FOr f g)
  define m where "m = n - 4"
  have n: "n = Suc (Suc (Suc (Suc m)))" "0 < m" using FOr.prems by (simp_all add: m_def)
  have 1: "scim_parse (Suc m) TermRule (show_tokens f @ ''or'' # show_tokens g @ '')'' # rest) = Inr (f, ''or'' # show_tokens g @ '')'' # rest)"
    by (rule FOr.IH) (use FOr.prems n in simp_all)
  have 2: "scim_parse m TermRule (show_tokens g @ '')'' # rest) = Inr (g, '')'' # rest)"
    by (rule FOr.IH) (use FOr.prems n in simp_all)
  have "scim_parse (Suc (Suc m)) AndRule (show_tokens f @ ''or'' # show_tokens g @ '')'' # rest) = Inr (f, ''or'' # show_tokens g @ '')'' # rest)"
    using 1 by (subst scim_parse.simps) (simp add: loop_stops del: scim_parse.simps)
  moreover have "scim_parse (Suc m) AndRule (show_tokens g @ '')'' # rest) = Inr (g, '')'' # rest)"
    using 2 n by (subst scim_parse.simps) (simp add: loop_stops del: scim_parse.simps)
  ultimately have "scim_parse (Suc (Suc (Suc m))) OrRule (show_tokens f @ ''or'' # show_tokens g @ '')'' # rest) = Inr (FOr f g, '')'' # rest)"
    by (subst scim_parse.simps) (simp add: loop_stops scim_parse.simps(2) [of "Suc m" "OrLoop _"] del: scim_parse.simps)
  then show ?case unfolding n(1) by (subst scim_parse.simps) (simp del: scim_parse.simps)
next
  case (FAnd f g)
  define m where "m = n - 4"
  have n: "n = Suc (Suc (Suc (Suc m)))" "0 < m" using FAnd.prems by (simp_all add: m_def)
  have 1: "scim_parse (Suc m) TermRule (show_tokens f @ ''and'' # show_tokens g @ '')'' # rest) = Inr (f, ''and'' # show_tokens g @ '')'' # rest)"
    by (rule FAnd.IH) (use FAnd.prems n in simp_all)
  have 2: "scim_parse m TermRule (show_tokens g @ '')'' # rest) = Inr (g, '')'' # rest)"
    by (rule FAnd.IH) (use FAnd.prems n in simp_all)
  have "scim_parse (Suc m) (AndLoop f) (''and'' # show_tokens g @ '')'' # rest) = Inr (FAnd f g, '')'' # rest)"
    using 2 n by (subst scim_parse.simps) (simp add: loop_stops del: scim_parse.simps)
  with 1 have "scim_parse (Suc (Suc m)) AndRule (show_tokens f @ ''and'' # show_tokens g @ '')'' # rest) = Inr (FAnd f g, '')'' # rest)"
    by (subst scim_parse.simps) (simp del: scim_parse.simps)
  then have "scim_parse (Suc (Suc (Suc m))) OrRule (show_tokens f @ ''and'' # show_tokens g @ '')'' # rest) = Inr (FAnd f g, '')'' # rest)"
    by (subst scim_parse.simps) (simp add: loop_stops del: scim_parse.simps)
  then show ?case unfolding n(1) by (subst scim_parse.simps) (simp del: scim_parse.simps)
qed

lemma show_tokens_first: "printable f \<Longrightarrow> \<exists>c s. show_filter f = c # s \<and> \<not> is_space c"
proof (cases f)
  case (FPresent attr)
  then show "printable f \<Longrightarrow> ?thesis" by (cases attr) (auto simp: show_filter_def join_def plain_word_def word_char_def)
next
  case (FCompare attr operator v)
  then show "printable f \<Longrightarrow> ?thesis" by (cases attr) (auto simp: show_filter_def join_def plain_word_def word_char_def)
qed (simp_all add: show_filter_def join_def is_space_def)

text \<open>
  C26: The filter language is safe to build queries in: reading a text ends, with a filter or with
  \<open>SCIMError\<close> 400; and a filter that is written out with its values between quotes is read back as it
  was, whatever characters but quotes the values contain.
\<close>

theorem scim_filter_roundtrip:
  assumes f: "printable f"
  shows "parse_scim_filter (show_filter f) = Inr f
    \<and> (\<exists>g. parse_scim_filter text = Inr g \<or> parse_scim_filter text = Inl (SCIMError 400))"
proof (intro conjI parse_scim_filter_ends)
  have t: "scim_tokens (show_filter f) = show_tokens f"
    unfolding show_filter_def by (rule scim_tokens_join) (use f show_tokens_good in blast)
  have "scim_parse (filter_fuel (show_tokens f) - 2) TermRule (show_tokens f @ []) = Inr (f, [])"
    by (rule parse_shown_term [OF f]) (simp add: filter_fuel_def)
  then have "scim_parse (filter_fuel (show_tokens f)) OrRule (show_tokens f) = Inr (f, [])"
    by (simp add: filter_fuel_def eval_nat_numeral loop_stops)
  moreover have "strip (show_filter f) \<noteq> []"
    using show_tokens_first [OF f] by (auto simp: strip_def dropWhile_append)
  ultimately show "parse_scim_filter (show_filter f) = Inr f" by (simp add: parse_scim_filter_def t)
qed

definition sample_filter :: scim_filter where
  "sample_filter = FOr (FCompare ''username'' ''eq'' ''x) or (active pr'') (FPresent ''active'')"

theorem scim_filter_roundtrip_witness:
  "parse_scim_filter (show_filter sample_filter) = Inr sample_filter
   \<and> (\<exists>g. parse_scim_filter '')'' = Inr g \<or> parse_scim_filter '')'' = Inl (SCIMError 400))"
  by (rule scim_filter_roundtrip)
    (simp add: sample_filter_def plain_word_def word_char_def is_space_def lower_def lower_char_def Let_def)

section \<open>Deactivation\<close>

lemma dget_put: "dget (sc_users (snd (put_user i u s))) j = (if j = i then Some u else dget (sc_users s) j)"
  by (simp add: put_user_def)

text \<open>What a client of the server may ask for, and the server after it.\<close>

datatype scim_event = Create pydict | Replace string pydict | Patch string pydict | Deactivate string | Delete string

fun scim_step :: "scim_event \<Rightarrow> scim_server \<Rightarrow> scim_server" where
  "scim_step (Create body) s = snd (create_user body s)"
| "scim_step (Replace i body) s = snd (replace_user i body s)"
| "scim_step (Patch i body) s = snd (patch_user i body s)"
| "scim_step (Deactivate i) s = snd (deactivate_user i s)"
| "scim_step (Delete i) s = snd (delete_user i s)"

text \<open>An event may bring a user back: a replacement or a patch of it, or a creation that draws its identifier.\<close>

fun may_revive :: "string \<Rightarrow> scim_event \<Rightarrow> scim_server \<Rightarrow> bool" where
  "may_revive i (Create body) s = (fst (random_token 12 (sc_rng s)) = i)"
| "may_revive i (Replace j body) s = (j = i)"
| "may_revive i (Patch j body) s = (j = i)"
| "may_revive i _ s = False"

fun never_revived :: "string \<Rightarrow> scim_event list \<Rightarrow> scim_server \<Rightarrow> bool" where
  "never_revived i [] s = True"
| "never_revived i (e # es) s = (\<not> may_revive i e s \<and> never_revived i es (scim_step e s))"

lemma create_user_other: "fst (random_token 12 (sc_rng s)) \<noteq> i \<Longrightarrow> dget (sc_users (snd (create_user body s))) i = dget (sc_users s) i"
  by (auto simp: create_user_def bindM_def put_user_def log_user_def resource_of_def Let_def split: prod.split sum.split)

lemma replace_user_other: "j \<noteq> i \<Longrightarrow> dget (sc_users (snd (replace_user j body s))) i = dget (sc_users s) i"
  by (auto simp: replace_user_def bindM_def put_user_def log_user_def resource_of_def find_user_def split: option.split)

lemma patch_user_other: "j \<noteq> i \<Longrightarrow> dget (sc_users (snd (patch_user j body s))) i = dget (sc_users s) i"
  by (auto simp: patch_user_def bindM_def at_user_def log_user_def resource_of_def find_user_def split: option.split sum.split prod.split)

lemma delete_user_other: "dget (sc_users (snd (delete_user j s))) i = (if j = i then None else dget (sc_users s) i)"
  by (auto simp: delete_user_def bindM_def find_user_def split: option.split)

lemma lower_literals [simp]: "lower ''replace'' = ''replace''" "lower ''active'' = ''active''"
  by (simp_all add: lower_def lower_char_def Let_def)

lemma deactivate_user_run:
  assumes "dget (sc_users s) i = Some u"
  shows "deactivate_user i s =
    (let u' = u\<lparr>su_active := PBool False\<rparr>
     in (Inr (to_resource (sc_location_base s) u'),
         s\<lparr>sc_users := dset i u' (sc_users s),
           sc_events := sc_events s @ [''user.patched'' @ '' '' @ py_str (su_user_name u') @ '' (active='' @ py_str (su_active u') @ '')'']\<rparr>))"
  using assms
  by (simp add: deactivate_user_def patch_user_def find_user_def patch_operations_def bindM_def py_iter_def at_user_def
      apply_operation_def as_dict_def str_of_def apply_patch_def body_get_def set_attribute_def before_first_def
      log_user_def resource_of_def Let_def)

lemma inactive_step: "\<not> is_active i s \<Longrightarrow> \<not> may_revive i e s \<Longrightarrow> \<not> is_active i (scim_step e s)"
proof (cases e)
  case (Deactivate j)
  assume "\<not> is_active i s"
  then show ?thesis
  proof (cases "dget (sc_users s) j")
    case None
    then have "snd (deactivate_user j s) = s" by (simp add: deactivate_user_def patch_user_def find_user_def bindM_def)
    with \<open>\<not> is_active i s\<close> Deactivate show ?thesis by simp
  next
    case (Some u)
    with \<open>\<not> is_active i s\<close> Deactivate show ?thesis by (simp add: deactivate_user_run is_active_def Let_def)
  qed
qed (auto simp: is_active_def create_user_other replace_user_other patch_user_other delete_user_other)

lemma inactive_run: "\<not> is_active i s \<Longrightarrow> never_revived i es s \<Longrightarrow> \<not> is_active i (fold scim_step es s)"
  by (induction es arbitrary: s) (auto dest: inactive_step)

text \<open>
  C15: Offboarding works: \<open>deactivate_user\<close> on a user that exists returns the resource with
  \<open>active\<close> false and changes no other user; the user is inactive from then on, through any further
  requests that neither replace nor patch it nor create a user with its identifier, also when it is
  deactivated again or deleted.
\<close>

theorem deactivated_user_stays_inactive:
  assumes "dget (sc_users s) i = Some u"
  shows "\<exists>r s'. deactivate_user i s = (Inr r, s') \<and> pget r ''active'' = PBool False
    \<and> (\<forall>j. dget (sc_users s') j = (if j = i then Some (u\<lparr>su_active := PBool False\<rparr>) else dget (sc_users s) j))
    \<and> (\<forall>es. never_revived i es s' \<longrightarrow> \<not> is_active i (fold scim_step es s'))"
proof -
  obtain r s' where r: "deactivate_user i s = (Inr r, s')" "pget r ''active'' = PBool False"
      "sc_users s' = dset i (u\<lparr>su_active := PBool False\<rparr>) (sc_users s)"
    using deactivate_user_run [OF assms] by (simp add: Let_def to_resource_def)
  then have "\<not> is_active i s'" by (simp add: is_active_def)
  with r inactive_run show ?thesis by (intro exI [of _ r] exI [of _ s']) auto
qed

definition sample_users :: scim_server where
  "sample_users =
     \<lparr>sc_location_base = ''https://api.auth-lab.local/scim/v2'',
      sc_users = map (\<lambda>(i, n). (i, \<lparr>su_id = i, su_user_name = PStr n, su_external_id = PNone, su_active = PBool True,
        su_emails = PList [], su_name = PDict [], su_groups = [], su_meta = []\<rparr>)) [(''u1'', ''alice''), (''u2'', ''bob'')],
      sc_groups = [], sc_events = [], sc_rng = \<lparr>tape = \<lambda>_ _. 0, drawn = 0\<rparr>\<rparr>"

theorem deactivated_user_stays_inactive_witness:
  "\<exists>r s'. deactivate_user ''u1'' sample_users = (Inr r, s') \<and> pget r ''active'' = PBool False
    \<and> never_revived ''u1'' [Deactivate ''u1'', Patch ''u2'' [], Delete ''u1''] s'
    \<and> \<not> is_active ''u1'' (fold scim_step [Deactivate ''u1'', Patch ''u2'' [], Delete ''u1''] s')"
proof -
  have u: "dget (sc_users sample_users) ''u1'' = Some (snd (sc_users sample_users ! 0))" by (simp add: sample_users_def)
  from deactivated_user_stays_inactive [OF u]
  obtain r s' where r: "deactivate_user ''u1'' sample_users = (Inr r, s')" "pget r ''active'' = PBool False"
      "\<forall>es. never_revived ''u1'' es s' \<longrightarrow> \<not> is_active ''u1'' (fold scim_step es s')" by blast
  moreover have "never_revived ''u1'' [Deactivate ''u1'', Patch ''u2'' [], Delete ''u1''] s'" by simp
  ultimately show ?thesis by blast
qed

section \<open>What the checks leave open\<close>

text \<open>Creation compares names without regard to case; replacement and PATCH do not look at the other users.\<close>

definition names_unique :: "scim_server \<Rightarrow> bool" where
  "names_unique s = distinct (concat (map (\<lambda>u. case su_user_name u of PStr n \<Rightarrow> [lower n] | _ \<Rightarrow> []) (dvalues (sc_users s))))"

lemma patch_duplicates_a_name:
  "names_unique sample_users
   \<and> \<not> names_unique (snd (patch_user ''u1''
        [(''Operations'', PList [PDict [(''op'', PStr ''replace''), (''path'', PStr ''userName''), (''value'', PStr ''BOB'')]])] sample_users))
   \<and> \<not> names_unique (snd (replace_user ''u1'' [(''userName'', PStr ''bob'')] sample_users))"
  by code_simp

text \<open>A name that was removed makes every later creation raise.\<close>

lemma nameless_user_blocks_creation:
  "su_user_name u = PNone \<Longrightarrow> dvalues (sc_users s) = u # us \<Longrightarrow> truthy (pget body ''userName'') \<Longrightarrow>
     fst (create_user body s) = Inl (Py AttributeError)"
  by (simp add: create_user_def bindM_def str_of_def)

text \<open>The text \<open>"False"\<close>, which some identity providers send, activates.\<close>

lemma text_false_activates:
  "set_attribute (PStr ''active'') (PStr ''False'') u = (Inr (), u\<lparr>su_active := PBool True\<rparr>)"
  by (simp add: set_attribute_def str_of_def before_first_def)

text \<open>One user whose first e-mail has no value makes every filter fail, whatever it asks for.\<close>

lemma valueless_email_breaks_filters:
  "su_emails u = PList (PDict [] # es) \<Longrightarrow> filter_matches (FCompare attr operator v) u = Inl (Py KeyError)
     \<and> filter_matches (FPresent attr) u = Inl (Py KeyError)"
  by (simp add: scim_comparison_def scim_attr_def first_email_def)

text \<open>On a boolean attribute every operator but \<open>eq\<close> is \<open>ne\<close>, also one that does not exist.\<close>

lemma any_operator_on_booleans:
  "su_active u = PBool b \<Longrightarrow> su_emails u = PList [] \<Longrightarrow> operator \<noteq> ''eq'' \<Longrightarrow>
     filter_matches (FCompare ''active'' operator v) u = filter_matches (FCompare ''active'' ''ne'' v) u"
  by (simp add: scim_comparison_def scim_attr_def first_email_def)

end
