(* ===== verification/Argon2.thy ===== *)
theory Argon2
  imports Kdf
begin

text \<open>
  \<open>passwords/argon2.py\<close>: Argon2 (RFC 9106).  The masked integers of the code are \<open>64 word\<close>s; a memory
  block is the list of its 128 words, the memory the list of the blocks, lane after lane.  What is
  proved: the reference block that a new block is computed from lies in the memory, has been computed,
  is neither the block being computed nor the one before it, and in another lane it is outside the slice
  that is being filled; and the tag has the requested length.
\<close>

unbundle bit_operations_syntax

section \<open>Constants and mixing\<close>

definition BLOCK_SIZE :: nat where "BLOCK_SIZE = 1024"
definition WORDS_PER_BLOCK :: nat where "WORDS_PER_BLOCK = 128"
definition SYNC_POINTS :: nat where "SYNC_POINTS = 4"
definition VERSION :: nat where "VERSION = 0x13"
definition TYPE_D :: nat where "TYPE_D = 0"
definition TYPE_I :: nat where "TYPE_I = 1"
definition TYPE_ID :: nat where "TYPE_ID = 2"
definition MASK32 :: "64 word" where "MASK32 = 0xffffffff"
definition TEACHING_MAX_MEMORY_KIB :: nat where "TEACHING_MAX_MEMORY_KIB = 1024"

type_synonym block = "64 word list"

definition rotr64 :: "64 word \<Rightarrow> nat \<Rightarrow> 64 word" where
  "rotr64 v count = drop_bit count v OR push_bit (64 - count) v"

text \<open>\<open>va + vb + 2 * (va & MASK32) * (vb & MASK32)\<close>.\<close>

definition mul_add :: "64 word \<Rightarrow> 64 word \<Rightarrow> 64 word" where
  "mul_add x y = x + y + 2 * (x AND MASK32) * (y AND MASK32)"

definition argon_mix :: "nat \<times> nat \<times> nat \<times> nat \<Rightarrow> 64 word list \<Rightarrow> 64 word list" where
  "argon_mix q v =
     (case q of (a, b, c, d) \<Rightarrow>
        let va = v ! a; vb = v ! b; vc = v ! c; vd = v ! d;
            va = mul_add va vb; vd = rotr64 (vd XOR va) 32;
            vc = mul_add vc vd; vb = rotr64 (vb XOR vc) 24;
            va = mul_add va vb; vd = rotr64 (vd XOR va) 16;
            vc = mul_add vc vd; vb = rotr64 (vb XOR vc) 63
        in v[a := va, b := vb, c := vc, d := vd])"

text \<open>The eight calls of \<open>_permute\<close> have the indices of BLAKE2b.\<close>

definition permute :: "64 word list \<Rightarrow> 64 word list" where
  "permute v = fold argon_mix B2_MIXES v"

text \<open>The words of a row and of a column, which are permuted in place.\<close>

definition row_indices :: "nat \<Rightarrow> nat list" where
  "row_indices row = [row * 16..<row * 16 + 16]"

definition col_indices :: "nat \<Rightarrow> nat list" where
  "col_indices col = concat (map (\<lambda>row. [row * 16 + 2 * col, row * 16 + 2 * col + 1]) [0..<8])"

definition permute_at :: "nat list \<Rightarrow> 64 word list \<Rightarrow> 64 word list" where
  "permute_at idx q = fold (\<lambda>(i, w) q. q[i := w]) (zip idx (permute (map ((!) q) idx))) q"

definition compress :: "block \<Rightarrow> block \<Rightarrow> block \<Rightarrow> bool \<Rightarrow> block" where
  "compress x y out xor_into_out =
     (let r = map2 (XOR) x y;
          q = fold (\<lambda>row. permute_at (row_indices row)) [0..<8] r;
          q = fold (\<lambda>col. permute_at (col_indices col)) [0..<8] q
      in if xor_into_out then map2 (XOR) out (map2 (XOR) q r) else map2 (XOR) q r)"

section \<open>Hashing to any length\<close>

text \<open>\<open>struct.pack("<I", n)\<close>.\<close>

definition pack_le32 :: "int \<Rightarrow> py_error + byte list" where
  "pack_le32 n = (if 0 \<le> n \<and> n < 2 ^ 32 then Inr (nat_le 4 (nat n)) else Inl StructError)"

fun blake2b_chain :: "nat \<Rightarrow> byte list \<Rightarrow> byte list" where
  "blake2b_chain remaining blk =
     (if remaining > 64 then (let b = blake2b 64 blk in take 32 b @ blake2b_chain (remaining - 32) b)
      else blake2b remaining blk)"

declare blake2b_chain.simps [simp del]

definition blake2b_long :: "nat \<Rightarrow> byte list \<Rightarrow> py_error + byte list" where
  "blake2b_long out_len data =
     bind_res (pack_le32 (int out_len)) (\<lambda>prefix.
       Inr (if out_len \<le> 64 then blake2b out_len (prefix @ data)
            else (let b = blake2b 64 (prefix @ data) in take 32 b @ blake2b_chain (out_len - 32) b)))"

definition words_of_bytes :: "byte list \<Rightarrow> block" where
  "words_of_bytes data = map le_word (chunks 8 data)"

definition bytes_of_words :: "block \<Rightarrow> byte list" where
  "bytes_of_words ws = concat (map word_le ws)"

section \<open>Addresses\<close>

record argon_context =
  cx_lanes :: int
  cx_columns :: int
  cx_segment :: int
  cx_passes :: int
  cx_variant :: nat

definition zero_block :: block where
  "zero_block = replicate WORDS_PER_BLOCK 0"

definition address_block :: "argon_context \<Rightarrow> int \<Rightarrow> int \<Rightarrow> int \<Rightarrow> int \<Rightarrow> block" where
  "address_block ctx block_index pass_number lane slice_number =
     (let counter = zero_block[0 := of_int pass_number, 1 := of_int lane, 2 := of_int slice_number,
            3 := of_int (cx_lanes ctx * cx_columns ctx), 4 := of_int (cx_passes ctx),
            5 := of_nat (cx_variant ctx), 6 := of_int block_index];
          first = compress zero_block counter zero_block False
      in compress zero_block first zero_block False)"

text \<open>The number of blocks that may be referenced.\<close>

definition reference_area :: "argon_context \<Rightarrow> bool \<Rightarrow> int \<Rightarrow> int \<Rightarrow> int \<Rightarrow> int" where
  "reference_area ctx same_lane pass_number slice_number index_in_segment =
     (if pass_number = 0
      then (if slice_number = 0 then index_in_segment - 1
            else if same_lane then slice_number * cx_segment ctx + index_in_segment - 1
            else slice_number * cx_segment ctx - (if index_in_segment = 0 then 1 else 0))
      else if same_lane then cx_columns ctx - cx_segment ctx + index_in_segment - 1
      else cx_columns ctx - cx_segment ctx - (if index_in_segment = 0 then 1 else 0))"

definition reference_index :: "argon_context \<Rightarrow> int \<Rightarrow> int \<Rightarrow> int \<Rightarrow> int \<Rightarrow> int \<Rightarrow> int \<Rightarrow> int \<times> int" where
  "reference_index ctx j1 j2 pass_number lane slice_number index_in_segment =
     (let reference_lane = (if pass_number = 0 \<and> slice_number = 0 then lane else j2 mod cx_lanes ctx);
          area = reference_area ctx (reference_lane = lane) pass_number slice_number index_in_segment;
          relative = (j1 * j1) div 2 ^ 32;
          relative = area - 1 - (area * relative) div 2 ^ 32;
          start = (if pass_number = 0 then 0
                   else if slice_number = int SYNC_POINTS - 1 then 0 else (slice_number + 1) * cx_segment ctx)
      in (reference_lane, (start + relative) mod cx_columns ctx))"

section \<open>Filling the memory\<close>

type_synonym argon_memory = "block list"

definition block_at :: "argon_context \<Rightarrow> argon_memory \<Rightarrow> int \<Rightarrow> int \<Rightarrow> block" where
  "block_at ctx mem lane column = mem ! nat (lane * cx_columns ctx + column)"

text \<open>The addresses of a segment, computed 128 at a time: the current ones and how often.\<close>

type_synonym addressing = "block \<times> int"

definition next_address :: "argon_context \<Rightarrow> int \<Rightarrow> int \<Rightarrow> int \<Rightarrow> int \<Rightarrow> addressing \<Rightarrow> addressing" where
  "next_address ctx pass_number lane slice_number index_in_segment ad =
     (case ad of (addresses, counter) \<Rightarrow>
        if index_in_segment mod int WORDS_PER_BLOCK = 0 \<or> addresses = []
        then (address_block ctx (counter + 1) pass_number lane slice_number, counter + 1)
        else (addresses, counter))"

definition fill_block :: "argon_context \<Rightarrow> int \<Rightarrow> int \<Rightarrow> int \<Rightarrow> bool \<Rightarrow> int \<Rightarrow> argon_memory \<times> addressing \<Rightarrow> argon_memory \<times> addressing" where
  "fill_block ctx pass_number slice_number lane use_independent index_in_segment st =
     (case st of (mem, ad) \<Rightarrow>
        let column = slice_number * cx_segment ctx + index_in_segment;
            previous = block_at ctx mem lane ((column - 1) mod cx_columns ctx);
            ad' = (if use_independent then next_address ctx pass_number lane slice_number index_in_segment ad else ad);
            word = (if use_independent then fst ad' ! nat (index_in_segment mod int WORDS_PER_BLOCK) else previous ! 0);
            j1 = uint (word AND MASK32);
            j2 = uint (drop_bit 32 word AND MASK32)
        in (case reference_index ctx j1 j2 pass_number lane slice_number index_in_segment of
              (reference_lane, reference_column) \<Rightarrow>
                (mem[nat (lane * cx_columns ctx + column) :=
                   compress previous (block_at ctx mem reference_lane reference_column)
                     (block_at ctx mem lane column) (pass_number > 0)], ad')))"

definition fill_segment :: "argon_context \<Rightarrow> int \<Rightarrow> int \<Rightarrow> bool \<Rightarrow> int \<Rightarrow> argon_memory \<Rightarrow> argon_memory" where
  "fill_segment ctx pass_number slice_number use_independent lane mem =
     fst (fold (fill_block ctx pass_number slice_number lane use_independent)
       [(if pass_number = 0 \<and> slice_number = 0 then 2 else 0)..cx_segment ctx - 1] (mem, ([], 0)))"

definition uses_independent :: "argon_context \<Rightarrow> int \<Rightarrow> int \<Rightarrow> bool" where
  "uses_independent ctx pass_number slice_number \<longleftrightarrow>
     cx_variant ctx = TYPE_I
     \<or> (cx_variant ctx = TYPE_ID \<and> pass_number = 0 \<and> slice_number < int SYNC_POINTS div 2)"

definition fill_memory :: "argon_context \<Rightarrow> argon_memory \<Rightarrow> argon_memory" where
  "fill_memory ctx mem =
     fold (\<lambda>(pass_number, slice_number) mem.
         fold (fill_segment ctx pass_number slice_number (uses_independent ctx pass_number slice_number))
           [0..cx_lanes ctx - 1] mem)
       (List.product [0..cx_passes ctx - 1] [0..int SYNC_POINTS - 1]) mem"

text \<open>The first two columns of every lane come from the initial hash.\<close>

definition first_blocks :: "argon_context \<Rightarrow> byte list \<Rightarrow> argon_memory \<Rightarrow> py_error + argon_memory" where
  "first_blocks ctx h0 mem =
     fold_res (\<lambda>(lane, column) mem.
         bind_res (pack_le32 column) (\<lambda>c. bind_res (pack_le32 lane) (\<lambda>l.
         bind_res (blake2b_long BLOCK_SIZE (h0 @ c @ l)) (\<lambda>data.
           Inr (mem[nat (lane * cx_columns ctx + column) := words_of_bytes data])))))
       (List.product [0..cx_lanes ctx - 1] [0, 1]) mem"

definition final_block :: "argon_context \<Rightarrow> argon_memory \<Rightarrow> block" where
  "final_block ctx mem =
     fold (\<lambda>lane final. map2 (XOR) final (block_at ctx mem lane (cx_columns ctx - 1)))
       [1..cx_lanes ctx - 1] (block_at ctx mem 0 (cx_columns ctx - 1))"

section \<open>The function\<close>

record argon_params =
  ap_time_cost :: int
  ap_memory_cost :: int
  ap_parallelism :: int
  ap_tag_length :: nat
  ap_variant :: nat
  ap_secret :: "byte list"
  ap_associated_data :: "byte list"
  ap_allow_slow :: bool

text \<open>\<open>Argon2Error\<close> is a \<open>ValueError\<close>.\<close>

definition argon_refuses :: "byte list \<Rightarrow> argon_params \<Rightarrow> bool" where
  "argon_refuses salt a \<longleftrightarrow>
     ap_parallelism a < 1 \<or> ap_time_cost a < 1 \<or> ap_memory_cost a < 8 * ap_parallelism a
     \<or> ap_tag_length a < 4 \<or> length salt < 8 \<or> ap_variant a \<notin> {TYPE_D, TYPE_I, TYPE_ID}
     \<or> (ap_memory_cost a > int TEACHING_MAX_MEMORY_KIB \<and> \<not> ap_allow_slow a)"

definition argon_context_of :: "argon_params \<Rightarrow> argon_context" where
  "argon_context_of a =
     (let unit = int SYNC_POINTS * ap_parallelism a;
          blocks = (ap_memory_cost a div unit) * unit;
          columns = blocks div ap_parallelism a
      in \<lparr>cx_lanes = ap_parallelism a, cx_columns = columns, cx_segment = columns div int SYNC_POINTS,
          cx_passes = ap_time_cost a, cx_variant = ap_variant a\<rparr>)"

text \<open>A byte string after its length.\<close>

definition pack_bytes :: "byte list \<Rightarrow> py_error + byte list" where
  "pack_bytes b = bind_res (pack_le32 (int (length b))) (\<lambda>n. Inr (n @ b))"

definition initial_hash :: "byte list \<Rightarrow> byte list \<Rightarrow> argon_params \<Rightarrow> py_error + byte list" where
  "initial_hash password salt a =
     bind_res (map_res pack_le32 [ap_parallelism a, int (ap_tag_length a), ap_memory_cost a, ap_time_cost a,
                 int VERSION, int (ap_variant a)]) (\<lambda>ns.
     bind_res (map_res pack_bytes [password, salt, ap_secret a, ap_associated_data a]) (\<lambda>bs.
       Inr (blake2b 64 (concat ns @ concat bs))))"

definition argon2 :: "byte list \<Rightarrow> byte list \<Rightarrow> argon_params \<Rightarrow> py_error + byte list" where
  "argon2 password salt a =
     (if argon_refuses salt a then Inl ValueError
      else (let ctx = argon_context_of a in
        bind_res (initial_hash password salt a) (\<lambda>h0.
        bind_res (first_blocks ctx h0 (replicate (nat (cx_lanes ctx * cx_columns ctx)) zero_block)) (\<lambda>mem.
          blake2b_long (ap_tag_length a) (bytes_of_words (final_block ctx (fill_memory ctx mem)))))))"

section \<open>The reference block\<close>

text \<open>The context of accepted parameters: four slices of at least two blocks in every lane.\<close>

definition good_context :: "argon_context \<Rightarrow> bool" where
  "good_context ctx \<longleftrightarrow> 1 \<le> cx_lanes ctx \<and> 2 \<le> cx_segment ctx \<and> cx_columns ctx = 4 * cx_segment ctx"

lemma accepted_context:
  assumes "\<not> argon_refuses salt a"
  shows "good_context (argon_context_of a)"
proof -
  define p where "p = ap_parallelism a"
  have p: "1 \<le> p" "8 * p \<le> ap_memory_cost a" using assms by (simp_all add: argon_refuses_def p_def)
  define k where "k = ap_memory_cost a div (4 * p)"
  have "8 * p div (4 * p) \<le> k" unfolding k_def using p by (intro zdiv_mono1) auto
  then have k: "2 \<le> k" using p by simp
  have "k * (4 * p) div p = 4 * k" using p by simp
  with k p show ?thesis by (simp add: good_context_def argon_context_of_def SYNC_POINTS_def k_def [symmetric] p_def [symmetric] Let_def)
qed

lemma relative_bounds:
  assumes "0 \<le> j" "j < 2 ^ 32" "1 \<le> (area :: int)"
  shows "0 \<le> area - 1 - (area * (j * j div 2 ^ 32)) div 2 ^ 32" "area - 1 - (area * (j * j div 2 ^ 32)) div 2 ^ 32 < area"
proof -
  have "j * j < 2 ^ 32 * 2 ^ 32" using assms(1,2) by (intro mult_strict_mono) auto
  then have "j * j div 2 ^ 32 \<le> (2 ^ 32 * 2 ^ 32 - 1) div 2 ^ 32" by (intro zdiv_mono1) auto
  moreover have "0 \<le> j * j" by simp
  ultimately have x: "0 \<le> j * j div 2 ^ 32" "j * j div 2 ^ 32 < 2 ^ 32" by (simp_all add: pos_imp_zdiv_nonneg_iff)
  then have "area * (j * j div 2 ^ 32) < area * 2 ^ 32" using assms(3) by (intro mult_strict_left_mono) auto
  then have "(area * (j * j div 2 ^ 32)) div 2 ^ 32 < area" by auto
  moreover have "0 \<le> (area * (j * j div 2 ^ 32)) div 2 ^ 32"
    using mult_nonneg_nonneg [OF _ x(1), of area] assms(3) by (simp add: pos_imp_zdiv_nonneg_iff)
  ultimately show "0 \<le> area - 1 - (area * (j * j div 2 ^ 32)) div 2 ^ 32" "area - 1 - (area * (j * j div 2 ^ 32)) div 2 ^ 32 < area"
    by linarith+
qed

lemma wrap: "0 \<le> x \<Longrightarrow> x < 2 * n \<Longrightarrow> x mod n = (if x < n then x else x - n)" for x n :: int
  by (simp add: mod_pos_pos_trivial) (metis add.commute diff_add_cancel diff_ge_0_iff_ge less_diff_eq linorder_not_less minus_mod_self2 mod_pos_pos_trivial mult_2 add_less_cancel_right)

text \<open>
  Whether a block may be referenced when the block in \<open>column\<close> of \<open>lane\<close> is computed, in the slice
  that starts at \<open>slice_start\<close>.
\<close>

definition ready :: "argon_context \<Rightarrow> int \<Rightarrow> int \<Rightarrow> int \<Rightarrow> int \<Rightarrow> int \<times> int \<Rightarrow> bool" where
  "ready ctx pass_number slice_number lane column rc =
     (case rc of (l, c) \<Rightarrow>
        0 \<le> l \<and> l < cx_lanes ctx \<and> 0 \<le> c \<and> c < cx_columns ctx
        \<and> (if pass_number = 0 then (if l = lane then c < column - 1 else c < slice_number * cx_segment ctx)
           else if l = lane then c \<noteq> column \<and> c \<noteq> (column - 1) mod cx_columns ctx
           else c div cx_segment ctx \<noteq> slice_number))"

lemma previous_column:
  assumes "(2 :: int) \<le> seg" "0 \<le> x" "x < 4 * seg"
  shows "(x - 1) mod (4 * seg) = (if x = 0 then 4 * seg - 1 else x - 1)"
proof (cases "x = 0")
  case True
  then show ?thesis using assms(1) by (simp add: zmod_minus1)
next
  case False
  with assms show ?thesis by (subst mod_pos_pos_trivial) auto
qed

lemma outside_segment:
  assumes "(2 :: int) \<le> seg" "c < sn * seg \<or> sn * seg + seg \<le> c"
  shows "c div seg \<noteq> sn"
proof
  assume "c div seg = sn"
  then have "c = sn * seg + c mod seg" using div_mult_mod_eq [of c seg] by simp
  moreover have "0 \<le> c mod seg" "c mod seg < seg" using assms(1) by simp_all
  ultimately show False using assms(2) by linarith
qed

lemma reference_ready:
  assumes good: "good_context ctx" and s: "0 \<le> sn" "sn < 4" and i: "0 \<le> index" "index < cx_segment ctx"
    and first: "pass = 0 \<Longrightarrow> sn = 0 \<Longrightarrow> 2 \<le> index" and l: "0 \<le> lane" "lane < cx_lanes ctx"
    and j1: "0 \<le> j1" "j1 < 2 ^ 32"
  shows "ready ctx pass sn lane (sn * cx_segment ctx + index) (reference_index ctx j1 j2 pass lane sn index)"
proof -
  define seg where "seg = cx_segment ctx"
  define rl where "rl = (if pass = 0 \<and> sn = 0 then lane else j2 mod cx_lanes ctx)"
  define area where "area = reference_area ctx (rl = lane) pass sn index"
  define rel where "rel = area - 1 - (area * (j1 * j1 div 2 ^ 32)) div 2 ^ 32"
  define start where "start = (if pass = 0 then 0 else if sn = int SYNC_POINTS - 1 then 0 else (sn + 1) * seg)"
  have g: "1 \<le> cx_lanes ctx" "2 \<le> seg" "cx_columns ctx = 4 * seg" using good by (simp_all add: good_context_def seg_def)
  have rl: "0 \<le> rl" "rl < cx_lanes ctx" using l g by (simp_all add: rl_def)
  have sl: "sn = 0 \<or> sn = 1 \<or> sn = 2 \<or> sn = 3" using s by linarith
  have col: "0 \<le> sn * seg + index" "sn * seg + index < 4 * seg"
    using sl i g(2) unfolding seg_def [symmetric] by (elim disjE; simp)+
  have "1 \<le> area"
    using sl g(2,3) i first by (auto simp: area_def reference_area_def seg_def)
  then have rel: "0 \<le> rel" "rel < area" unfolding rel_def using relative_bounds [OF j1] by blast+
  have eq: "reference_index ctx j1 j2 pass lane sn index = (rl, (start + rel) mod (4 * seg))"
    by (simp add: reference_index_def rl_def area_def rel_def start_def seg_def Let_def flip: g(3)) (simp add: g(3) seg_def)
  have area: "area = (if pass = 0 then (if sn = 0 then index - 1 else if rl = lane then sn * seg + index - 1 else sn * seg - (if index = 0 then 1 else 0))
      else if rl = lane then 3 * seg + index - 1 else 3 * seg - (if index = 0 then 1 else 0))"
    using g(3) by (simp add: area_def reference_area_def seg_def)
  have "start + rel < 2 * (4 * seg)" "0 \<le> start"
    using sl rel(2) area g(2) i unfolding start_def SYNC_POINTS_def seg_def [symmetric] by (auto split: if_splits)
  then have c: "(start + rel) mod (4 * seg) = (if start + rel < 4 * seg then start + rel else start + rel - 4 * seg)"
    using rel(1) by (intro wrap) linarith+
  note prev = previous_column [OF g(2) col]
  define m where "m = sn * seg"
  have m: "sn = 3 \<Longrightarrow> m = 3 * seg" "sn \<noteq> 3 \<Longrightarrow> m \<le> 2 * seg" "0 \<le> m" "sn = 0 \<Longrightarrow> m = 0" "sn \<noteq> 0 \<Longrightarrow> seg \<le> m"
    "(sn + 1) * seg = m + seg"
    using sl g(2) by (auto simp: m_def algebra_simps)
  define cc where "cc = (start + rel) mod (4 * seg)"
  have cc: "0 \<le> cc" "cc < 4 * seg" using g(2) by (simp_all add: cc_def)
  have start: "start = (if pass = 0 \<or> sn = 3 then 0 else m + seg)" using m(6) by (simp add: start_def SYNC_POINTS_def)
  have i': "0 \<le> index" "index < seg" using i by (simp_all add: seg_def)
  have "if pass = 0 then (if rl = lane then cc < m + index - 1 else cc < m)
      else if rl = lane then cc \<noteq> m + index \<and> cc \<noteq> (m + index - 1) mod (4 * seg) else cc < m \<or> m + seg \<le> cc"
  proof (cases "pass = 0")
    case True
    then have "rl = lane" if "sn = 0" using that by (simp add: rl_def)
    moreover have "cc = rel"
    proof -
      have "area \<le> m + seg" using True area [folded m_def] m(3,4) g(2) i' by (auto split: if_splits)
      moreover have "m \<le> 3 * seg" using m(1,2) g(2) by (cases "sn = 3") auto
      ultimately show ?thesis using True rel start by (simp add: cc_def mod_pos_pos_trivial)
    qed
    ultimately show ?thesis using True rel area m(4) by (cases "sn = 0"; cases "rl = lane") (simp_all add: m_def split: if_splits)
  next
    case False
    note pos = False m(1-5) cc rel g(2) i'
    show ?thesis
    proof (cases "sn = 3")
      case True
      with False start c cc_def have "cc = (if rel < 4 * seg then rel else rel - 4 * seg)" by simp
      with True pos area prev show ?thesis by (cases "rl = lane") (simp_all add: m_def split: if_splits)
    next
      case sn: False
      with False start c cc_def have "cc = (if m + seg + rel < 4 * seg then m + seg + rel else m + seg + rel - 4 * seg)" by simp
      with sn pos area prev show ?thesis by (cases "rl = lane") (simp_all add: m_def split: if_splits)
    qed
  qed
  moreover note outside_segment [OF g(2), of cc sn, folded m_def]
  ultimately show ?thesis
    using rl cc unfolding ready_def eq prod.case cc_def [symmetric] seg_def [symmetric] m_def [symmetric] g(3) [folded seg_def]
    by (auto split: if_splits)
qed

text \<open>
  C11: Argon2 reads only what is there: for accepted parameters, in every pass, slice, lane and position
  and for all pseudo-random words, the reference block lies in the memory.  In the first pass it has
  been computed before and is not the previous block; in a later pass it is neither the block being
  computed nor the previous one; in another lane it is in no slice that is still being filled, so the
  lanes of a slice do not depend on each other.
\<close>

theorem argon2_reference_is_ready:
  assumes "\<not> argon_refuses salt a" "0 \<le> sn" "sn < 4" "0 \<le> index" "index < cx_segment (argon_context_of a)"
    "pass = 0 \<Longrightarrow> sn = 0 \<Longrightarrow> 2 \<le> index" "0 \<le> lane" "lane < cx_lanes (argon_context_of a)"
  shows "ready (argon_context_of a) pass sn lane (sn * cx_segment (argon_context_of a) + index)
    (reference_index (argon_context_of a) (uint (word AND MASK32)) (uint (drop_bit 32 word AND MASK32)) pass lane sn index)"
proof (rule reference_ready [OF accepted_context [OF assms(1)] assms(2-8)])
  have "word AND MASK32 \<le> MASK32" by (rule word_and_le1)
  then show "uint (word AND MASK32) < 2 ^ 32" by (simp add: Word.word_le_def MASK32_def)
qed simp_all

definition sample_argon :: argon_params where
  "sample_argon = \<lparr>ap_time_cost = 2, ap_memory_cost = 70, ap_parallelism = 2, ap_tag_length = 32, ap_variant = TYPE_ID,
     ap_secret = [], ap_associated_data = [], ap_allow_slow = False\<rparr>"

theorem argon2_reference_is_ready_witness:
  "ready (argon_context_of sample_argon) 1 3 1 (3 * cx_segment (argon_context_of sample_argon) + 5)
    (reference_index (argon_context_of sample_argon) (uint (0x123456789 AND MASK32)) (uint (drop_bit 32 0x123456789 AND MASK32)) 1 1 3 5)"
  by (rule argon2_reference_is_ready [of "replicate 16 0"])
    (simp_all add: argon_refuses_def argon_context_of_def sample_argon_def TYPE_ID_def TEACHING_MAX_MEMORY_KIB_def SYNC_POINTS_def Let_def)

section \<open>The tag\<close>

lemma length_blake2b_chain: "length (blake2b_chain n b) = n"
proof (induction n b rule: blake2b_chain.induct)
  case (1 remaining blk)
  then show ?case
    by (subst blake2b_chain.simps) (auto simp: Let_def length_blake2b)
qed

lemma blake2b_long_length: "blake2b_long n data = Inr t \<Longrightarrow> length t = n"
  by (auto simp: blake2b_long_def bind_res_def Let_def length_blake2b length_blake2b_chain split: sum.splits if_splits)

lemma argon2_length: "argon2 pw salt a = Inr t \<Longrightarrow> length t = ap_tag_length a"
  by (auto simp: argon2_def bind_res_def Let_def dest: blake2b_long_length split: sum.splits if_splits)

text \<open>
  A cost that does not fit the initial hash is not a \<open>ValueError\<close>: the number of passes has no upper
  bound among the checks.
\<close>

lemma too_many_passes: "\<not> argon_refuses salt a \<Longrightarrow> 2 ^ 32 \<le> ap_time_cost a \<Longrightarrow> argon2 pw salt a = Inl StructError"
  by (auto simp: argon2_def initial_hash_def pack_le32_def bind_res_def Let_def)

end
