(* ===== verification/Hasher.thy ===== *)
theory Hasher
  imports Exn Urls Argon2
begin

text \<open>
  \<open>passwords/hasher.py\<close>: the parameters of the three key derivations, the stored form of a hash, and the
  hasher.  What depends on the installation is the record \<open>backend\<close>: whether \<open>hashlib\<close> has
  \<open>pbkdf2_hmac\<close>, and the \<open>argon2-cffi\<close> package, which is a function of the arguments it gets (\<open>None\<close> when
  it raises) or not installed.
\<close>

unbundle bit_operations_syntax

section \<open>PBKDF2 without the native function\<close>

text \<open>The loops: the value and the XOR of the values so far.\<close>

primrec pbkdf2_loop :: "nat \<Rightarrow> hash_alg \<Rightarrow> byte list \<Rightarrow> byte list \<Rightarrow> byte list \<Rightarrow> byte list" where
  "pbkdf2_loop 0 h password v accumulated = accumulated"
| "pbkdf2_loop (Suc k) h password v accumulated =
     (let v' = hmac_alg h password v in pbkdf2_loop k h password v' (map2 (XOR) accumulated v'))"

definition pbkdf2_fallback :: "string \<Rightarrow> byte list \<Rightarrow> byte list \<Rightarrow> int \<Rightarrow> nat \<Rightarrow> py_error + byte list" where
  "pbkdf2_fallback hash_name password salt iterations dklen =
     (if iterations < 1 then Inl ValueError
      else (case hash_named hash_name of
        None \<Rightarrow> Inl Unmodelled
      | Some h \<Rightarrow>
          (if dklen < 1 \<or> dklen > (2 ^ 32 - 1) * digest_size h then Inl ValueError
           else (let block_count = (dklen + digest_size h - 1) div digest_size h;
                     blk = (\<lambda>i. let v = hmac_alg h password (salt @ nat_be 4 i)
                                 in pbkdf2_loop (nat iterations - 1) h password v v)
             in Inr (take dklen (concat (map blk [1..<block_count + 1])))))))"

section \<open>Parameters\<close>

record scrypt_params =
  sp_n :: int
  sp_r :: int
  sp_p :: int
  sp_dklen :: nat
  sp_name :: string

record pbkdf2_params =
  pb_iterations :: int
  pb_hash_name :: string
  pb_dklen :: nat
  pb_name :: string

record argon2_params =
  ag_time_cost :: int
  ag_memory_cost :: int
  ag_parallelism :: int
  ag_dklen :: nat
  ag_variant :: string
  ag_version :: int

datatype kdf_params = PScrypt scrypt_params | PPbkdf2 pbkdf2_params | PArgon2 argon2_params

definition default_scrypt :: scrypt_params where
  "default_scrypt = \<lparr>sp_n = 16384, sp_r = 8, sp_p = 1, sp_dklen = 32, sp_name = ''scrypt''\<rparr>"

definition default_pbkdf2 :: pbkdf2_params where
  "default_pbkdf2 = \<lparr>pb_iterations = 600000, pb_hash_name = ''sha256'', pb_dklen = 32, pb_name = ''pbkdf2''\<rparr>"

definition default_argon2 :: argon2_params where
  "default_argon2 = \<lparr>ag_time_cost = 2, ag_memory_cost = 19456, ag_parallelism = 1, ag_dklen = 32,
     ag_variant = ''argon2id'', ag_version = int VERSION\<rparr>"

definition ARGON2_VARIANTS :: "(string, nat) dict" where
  "ARGON2_VARIANTS = [(''argon2id'', TYPE_ID), (''argon2i'', TYPE_I), (''argon2d'', TYPE_D)]"

definition is_production_strength :: "argon2_params \<Rightarrow> bool" where
  "is_production_strength a \<longleftrightarrow> ag_memory_cost a \<ge> 19456 \<and> ag_time_cost a \<ge> 2"

record backend =
  bk_native :: bool
  bk_cffi :: "(byte list \<Rightarrow> byte list \<Rightarrow> argon2_params \<Rightarrow> byte list option) option"

definition pbkdf2_any :: "backend \<Rightarrow> string \<Rightarrow> byte list \<Rightarrow> byte list \<Rightarrow> int \<Rightarrow> nat \<Rightarrow> py_error + byte list" where
  "pbkdf2_any bk hash_name password salt iterations dklen =
     (if bk_native bk then pbkdf2_hmac hash_name password salt iterations dklen
      else pbkdf2_fallback hash_name password salt iterations dklen)"

definition derive_scrypt :: "scrypt_params \<Rightarrow> byte list \<Rightarrow> byte list \<Rightarrow> py_error + byte list" where
  "derive_scrypt s password salt =
     hashlib_scrypt password salt (sp_n s) (sp_r s) (sp_p s) (sp_dklen s) (128 * sp_n s * sp_r s * 2 + 2 ^ 20)"

definition derive_argon2 :: "backend \<Rightarrow> argon2_params \<Rightarrow> byte list \<Rightarrow> byte list \<Rightarrow> py_error + byte list" where
  "derive_argon2 bk a password salt =
     (case bk_cffi bk of
        Some f \<Rightarrow> (case f password salt a of None \<Rightarrow> Inl ValueError | Some d \<Rightarrow> Inr d)
      | None \<Rightarrow>
          (if ag_version a \<noteq> int VERSION then Inl ValueError
           else (case dget ARGON2_VARIANTS (ag_variant a) of
             None \<Rightarrow> Inl KeyError
           | Some v \<Rightarrow>
               argon2 password salt \<lparr>ap_time_cost = ag_time_cost a, ap_memory_cost = ag_memory_cost a,
                 ap_parallelism = ag_parallelism a, ap_tag_length = ag_dklen a, ap_variant = v,
                 ap_secret = [], ap_associated_data = [], ap_allow_slow = False\<rparr>)))"

fun derive :: "backend \<Rightarrow> kdf_params \<Rightarrow> byte list \<Rightarrow> byte list \<Rightarrow> py_error + byte list" where
  "derive bk (PScrypt s) password salt = derive_scrypt s password salt"
| "derive bk (PPbkdf2 p) password salt = pbkdf2_any bk (pb_hash_name p) password salt (pb_iterations p) (pb_dklen p)"
| "derive bk (PArgon2 a) password salt = derive_argon2 bk a password salt"

fun kdf_encode :: "kdf_params \<Rightarrow> string" where
  "kdf_encode (PScrypt s) = ''n='' @ int_str (sp_n s) @ '',r='' @ int_str (sp_r s) @ '',p='' @ int_str (sp_p s)"
| "kdf_encode (PPbkdf2 p) = ''i='' @ int_str (pb_iterations p) @ '',h='' @ pb_hash_name p"
| "kdf_encode (PArgon2 a) =
     ''m='' @ int_str (ag_memory_cost a) @ '',t='' @ int_str (ag_time_cost a) @ '',p='' @ int_str (ag_parallelism a)"

fun kdf_name :: "kdf_params \<Rightarrow> string" where
  "kdf_name (PScrypt s) = sp_name s"
| "kdf_name (PPbkdf2 p) = pb_name p"
| "kdf_name (PArgon2 a) = ag_variant a"

fun kdf_dklen :: "kdf_params \<Rightarrow> nat" where
  "kdf_dklen (PScrypt s) = sp_dklen s"
| "kdf_dklen (PPbkdf2 p) = pb_dklen p"
| "kdf_dklen (PArgon2 a) = ag_dklen a"

text \<open>\<open>replace(params, dklen=...)\<close> and \<open>getattr(params, "version", None)\<close>.\<close>

fun with_dklen :: "nat \<Rightarrow> kdf_params \<Rightarrow> kdf_params" where
  "with_dklen n (PScrypt s) = PScrypt (s\<lparr>sp_dklen := n\<rparr>)"
| "with_dklen n (PPbkdf2 p) = PPbkdf2 (p\<lparr>pb_dklen := n\<rparr>)"
| "with_dklen n (PArgon2 a) = PArgon2 (a\<lparr>ag_dklen := n\<rparr>)"

fun kdf_version :: "kdf_params \<Rightarrow> int option" where
  "kdf_version (PArgon2 a) = Some (ag_version a)"
| "kdf_version _ = None"

section \<open>Stored hashes\<close>

record password_hash =
  ph_algorithm :: string
  ph_params :: string
  ph_salt :: "byte list"
  ph_digest :: "byte list"
  ph_version :: "int option"

definition encode_hash :: "password_hash \<Rightarrow> string" where
  "encode_hash ph =
     ''$'' @ ph_algorithm ph @ ''$''
     @ (case ph_version ph of None \<Rightarrow> [] | Some v \<Rightarrow> ''v='' @ int_str v @ ''$'')
     @ ph_params ph @ ''$'' @ b64u_encode (ph_salt ph) @ ''$'' @ b64u_encode (ph_digest ph)"

text \<open>The fields between the dollar signs: algorithm, version, parameters, salt and digest.\<close>

definition hash_fields :: "string list \<Rightarrow> py_error + (string \<times> int option \<times> string \<times> string \<times> string)" where
  "hash_fields parts =
     (case parts of
        [_, algorithm, vf, params, salt, dg] \<Rightarrow>
          (if prefix ''v='' vf
           then (case py_int (drop 2 vf) of
                   Inl e \<Rightarrow> Inl (if is_value_error e then ValueError else e)
                 | Inr v \<Rightarrow> Inr (algorithm, Some v, params, salt, dg))
           else Inl ValueError)
      | [_, algorithm, params, salt, dg] \<Rightarrow> Inr (algorithm, None, params, salt, dg)
      | _ \<Rightarrow> Inl ValueError)"

definition parse_hash :: "string \<Rightarrow> py_error + password_hash" where
  "parse_hash encoded =
     (if \<not> prefix ''$'' encoded then Inl ValueError
      else bind_res (hash_fields (split_on (CHR ''$'') encoded)) (\<lambda>(algorithm, version, params, salt_b64, digest_b64).
        if version \<noteq> None \<and> algorithm \<notin> set (dkeys ARGON2_VARIANTS) then Inl ValueError
        else bind_res (b64u_decode salt_b64) (\<lambda>salt.
             bind_res (b64u_decode digest_b64) (\<lambda>dg.
               Inr \<lparr>ph_algorithm = algorithm, ph_params = params, ph_salt = salt, ph_digest = dg, ph_version = version\<rparr>))))"

text \<open>\<open>dict(kv.split("=", 1) for kv in text.split(",") if kv)\<close>: an item that does not split is a \<open>ValueError\<close>.\<close>

definition param_fields :: "string \<Rightarrow> py_error + (string, string) dict" where
  "param_fields text =
     fold_res (\<lambda>kv d. case split_once (CHR ''='') kv of None \<Rightarrow> Inl ValueError | Some (k, v) \<Rightarrow> Inr (dset k v d))
       (filter (\<lambda>kv. kv \<noteq> []) (split_on (CHR '','') text)) []"

definition int_field_of :: "(string, string) dict \<Rightarrow> string \<Rightarrow> py_error + int" where
  "int_field_of d k = (case dget d k of None \<Rightarrow> Inl KeyError | Some s \<Rightarrow> py_int s)"

definition params_from_encoded :: "string \<Rightarrow> string \<Rightarrow> int option \<Rightarrow> py_error + kdf_params" where
  "params_from_encoded algorithm encoded_params version =
     bind_res (param_fields encoded_params) (\<lambda>d.
       if algorithm = ''scrypt'' then
         bind_res (int_field_of d ''n'') (\<lambda>n. bind_res (int_field_of d ''r'') (\<lambda>r. bind_res (int_field_of d ''p'') (\<lambda>p.
           Inr (PScrypt (default_scrypt\<lparr>sp_n := n, sp_r := r, sp_p := p\<rparr>)))))
       else if algorithm = ''pbkdf2'' then
         bind_res (int_field_of d ''i'') (\<lambda>i. case dget d ''h'' of None \<Rightarrow> Inl KeyError
           | Some h \<Rightarrow> Inr (PPbkdf2 (default_pbkdf2\<lparr>pb_iterations := i, pb_hash_name := h\<rparr>)))
       else if algorithm \<in> set (dkeys ARGON2_VARIANTS) then
         (case version of
            None \<Rightarrow> Inl ValueError
          | Some v \<Rightarrow>
              bind_res (int_field_of d ''m'') (\<lambda>m. bind_res (int_field_of d ''t'') (\<lambda>t. bind_res (int_field_of d ''p'') (\<lambda>p.
                Inr (PArgon2 (default_argon2\<lparr>ag_memory_cost := m, ag_time_cost := t, ag_parallelism := p,
                       ag_variant := algorithm, ag_version := v\<rparr>))))))
       else Inl ValueError)"

section \<open>The hasher\<close>

record password_hasher =
  hs_params :: kdf_params
  hs_pepper :: "byte list option"
  hs_backend :: backend

text \<open>
  \<open>unicodedata.normalize("NFKC", password)\<close>: of the characters of the model, these have a compatibility
  form; where it has characters from 256 on, the text is outside the model.
\<close>

definition nfkc_char :: "char \<Rightarrow> py_error + string" where
  "nfkc_char c =
     (let n = of_char c :: nat in
      if n \<in> {0xa8, 0xaf, 0xb4, 0xb5, 0xb8, 0xbc, 0xbd, 0xbe} then Inl Unmodelled
      else Inr (if n = 0xa0 then '' '' else if n = 0xaa then ''a'' else if n = 0xb2 then ''2''
                else if n = 0xb3 then ''3'' else if n = 0xb9 then ''1'' else if n = 0xba then ''o'' else [c]))"

definition nfkc :: "string \<Rightarrow> py_error + string" where
  "nfkc s = map_sum id concat (map_res nfkc_char s)"

definition prepare :: "password_hasher \<Rightarrow> string \<Rightarrow> py_error + byte list" where
  "prepare h password =
     bind_res (nfkc password) (\<lambda>normal.
       let data = utf8_encode normal
       in Inr (case hs_pepper h of Some (b # bs) \<Rightarrow> hmac_alg \<lparr>digest = sha256, digest_size = 32, block_size = 64\<rparr> (b # bs) data | _ \<Rightarrow> data))"

definition stored_form :: "kdf_params \<Rightarrow> byte list \<Rightarrow> byte list \<Rightarrow> string" where
  "stored_form params salt dg =
     encode_hash \<lparr>ph_algorithm = kdf_name params, ph_params = kdf_encode params, ph_salt = salt, ph_digest = dg,
       ph_version = kdf_version params\<rparr>"

definition hash_password :: "password_hasher \<Rightarrow> string \<Rightarrow> byte list option \<Rightarrow> rng \<Rightarrow> (py_error + string) \<times> rng" where
  "hash_password h password salt g =
     (case (case salt of Some s \<Rightarrow> (s, g) | None \<Rightarrow> random_bytes 16 g) of (s, g') \<Rightarrow>
        (bind_res (prepare h password) (\<lambda>data.
         bind_res (derive (hs_backend h) (hs_params h) data s) (\<lambda>dg.
           Inr (stored_form (hs_params h) s dg))), g'))"

definition verify_password :: "password_hasher \<Rightarrow> string \<Rightarrow> string \<Rightarrow> py_error + bool" where
  "verify_password h password encoded =
     (case bind_res (parse_hash encoded) (\<lambda>stored.
             bind_res (params_from_encoded (ph_algorithm stored) (ph_params stored) (ph_version stored)) (\<lambda>params.
               Inr (stored, params))) of
        Inl e \<Rightarrow> if is_value_error e \<or> e = KeyError then Inr False else Inl e
      | Inr (stored, params) \<Rightarrow>
          (case bind_res (prepare h password) (\<lambda>data.
                  derive (hs_backend h) (with_dklen (length (ph_digest stored)) params) data (ph_salt stored)) of
             Inl e \<Rightarrow> if is_value_error e then Inr False else Inl e
           | Inr candidate \<Rightarrow> Inr (candidate = ph_digest stored)))"

definition needs_rehash :: "password_hasher \<Rightarrow> string \<Rightarrow> py_error + bool" where
  "needs_rehash h encoded =
     (case parse_hash encoded of
        Inl e \<Rightarrow> if is_value_error e then Inr True else Inl e
      | Inr stored \<Rightarrow>
          Inr (ph_algorithm stored \<noteq> kdf_name (hs_params h) \<or> ph_version stored \<noteq> kdf_version (hs_params h)
               \<or> ph_params stored \<noteq> kdf_encode (hs_params h)))"

definition DUMMY_HASH :: string where
  "DUMMY_HASH = stored_form (PScrypt default_scrypt) (replicate 16 0) (replicate (sp_dklen default_scrypt) 0)"

definition fake_verify :: "password_hasher \<Rightarrow> string \<Rightarrow> py_error + bool" where
  "fake_verify h password =
     bind_res (verify_password h password
       (if hs_params h = PScrypt default_scrypt then DUMMY_HASH
        else stored_form (hs_params h) (replicate 16 0) (replicate (kdf_dklen (hs_params h)) 0))) (\<lambda>_. Inr False)"

section \<open>The fallback is PBKDF2\<close>

lemma pbkdf2_loop_block:
  "pbkdf2_loop k h pw v t = snd (((\<lambda>(u, t). let u' = hmac_alg h pw u in (u', map2 (XOR) t u')) ^^ k) (v, t))"
  by (induction k arbitrary: v t) (simp_all add: funpow_Suc_right Let_def del: funpow.simps)

lemma fallback_is_native:
  assumes "iterations < 2 ^ 63" "hash_named name = Some h" "dklen \<le> (2 ^ 32 - 1) * digest_size h" "- (2 ^ 63) \<le> iterations"
  shows "pbkdf2_fallback name pw salt iterations dklen = pbkdf2_hmac name pw salt iterations dklen"
proof -
  have "map f [1..<n + 1] = map (\<lambda>i. f (i + 1)) [0..<n]" for f :: "nat \<Rightarrow> byte list" and n
    by (simp add: map_Suc_upt [symmetric] comp_def del: upt_Suc)
  with assms show ?thesis
    by (auto simp: pbkdf2_fallback_def pbkdf2_hmac_def pbkdf2_block_def pbkdf2_loop_block Let_def simp del: upt_Suc)
qed

section \<open>Stored forms come back\<close>

lemma int_str_no [simp]:
  "CHR ''$'' \<notin> set (int_str i)" "CHR '','' \<notin> set (int_str i)" "CHR ''='' \<notin> set (int_str i)"
proof -
  have "\<not> is_digit (CHR ''$'')" "\<not> is_digit (CHR '','')" "\<not> is_digit (CHR ''='')" by (simp_all add: is_digit_def)
  then show "CHR ''$'' \<notin> set (int_str i)" "CHR '','' \<notin> set (int_str i)" "CHR ''='' \<notin> set (int_str i)"
    using int_str_chars [of _ i] by fastforce+
qed

lemma b64_no_dollar [simp]: "CHR ''$'' \<notin> set (b64u_encode bs)"
proof -
  have "b64_char n \<noteq> CHR ''$''" for n
  proof (cases "n < 64")
    case True
    then show ?thesis using b64_value_char [of n] by (auto simp: b64_value_def simp del: b64_value_char)
  qed (simp add: b64_char_def)
  then show ?thesis by (induction bs rule: b64u_encode.induct) (auto dest: sym)
qed

definition storable_hash :: "password_hash \<Rightarrow> bool" where
  "storable_hash ph \<longleftrightarrow>
     CHR ''$'' \<notin> set (ph_algorithm ph) \<and> CHR ''$'' \<notin> set (ph_params ph)
     \<and> (ph_version ph \<noteq> None \<longrightarrow> ph_algorithm ph \<in> set (dkeys ARGON2_VARIANTS))"

lemma parse_hash_encode:
  assumes "storable_hash ph"
  shows "parse_hash (encode_hash ph) = Inr ph"
proof (cases "ph_version ph")
  case None
  then have "split_on (CHR ''$'') (encode_hash ph) = [[], ph_algorithm ph, ph_params ph, b64u_encode (ph_salt ph), b64u_encode (ph_digest ph)]"
    using assms by (simp add: encode_hash_def storable_hash_def split_on_append split_on_absent)
  then show ?thesis
    using None by (simp add: parse_hash_def hash_fields_def) (simp add: encode_hash_def)
next
  case (Some v)
  have "split_on (CHR ''$'') (''v='' @ int_str v @ CHR ''$'' # r) = (''v='' @ int_str v) # split_on (CHR ''$'') r" for r
    using split_on_append [of "CHR ''$''" "''v='' @ int_str v" r] by simp
  then have "split_on (CHR ''$'') (encode_hash ph) =
      [[], ph_algorithm ph, ''v='' @ int_str v, ph_params ph, b64u_encode (ph_salt ph), b64u_encode (ph_digest ph)]"
    using assms Some by (simp add: encode_hash_def storable_hash_def split_on_append split_on_absent)
  then show ?thesis
    using assms Some by (simp add: parse_hash_def hash_fields_def storable_hash_def) (simp add: encode_hash_def)
qed

interpretation stored: codec encode_hash parse_hash storable_hash
  by unfold_locales (rule parse_hash_encode)

subsection \<open>Parameters\<close>

lemma param_fields_join:
  assumes "\<forall>(k, v) \<in> set kvs. CHR '','' \<notin> set k \<and> CHR '','' \<notin> set v \<and> CHR ''='' \<notin> set k"
    and "distinct (map fst kvs)" "kvs \<noteq> []"
  shows "param_fields (join '','' (map (\<lambda>(k, v). k @ ''='' @ v) kvs)) = Inr kvs"
proof -
  have split: "split_on (CHR '','') (join '','' ws) = ws" if "\<forall>w \<in> set ws. CHR '','' \<notin> set w" "ws \<noteq> []" for ws
    using that split_on_join [of "hd ws" "tl ws" "CHR '',''"] by simp
  have "fold_res (\<lambda>kv d. case split_once (CHR ''='') kv of None \<Rightarrow> Inl ValueError | Some (k, v) \<Rightarrow> Inr (dset k v d))
      (map (\<lambda>(k, v). k @ ''='' @ v) kvs) acc = Inr (acc @ kvs)"
    if "set (dkeys acc) \<inter> set (map fst kvs) = {}" for acc
    using assms(1,2) that
  proof (induction kvs arbitrary: acc)
    case (Cons kv kvs)
    obtain k v where kv: "kv = (k, v)" by (cases kv)
    have "split_once (CHR ''='') (k @ CHR ''='' # v) = Some (k, v)" using Cons.prems kv by (simp add: split_once_append)
    moreover have "dset k v acc = acc @ [(k, v)]" using Cons.prems kv by (intro dset_new) auto
    ultimately show ?case using Cons.IH [of "acc @ [(k, v)]"] Cons.prems kv by simp
  qed simp
  from this [of "[]"] show ?thesis
    using assms by (simp add: param_fields_def split split_beta case_prod_beta)
qed

text \<open>The parameters that a hasher can store: the names of the algorithms are the ones that are read back.\<close>

fun storable_params :: "kdf_params \<Rightarrow> bool" where
  "storable_params (PScrypt s) = (sp_name s = ''scrypt'')"
| "storable_params (PPbkdf2 p) = (pb_name p = ''pbkdf2'' \<and> hash_named (pb_hash_name p) \<noteq> None)"
| "storable_params (PArgon2 a) = (ag_variant a \<in> set (dkeys ARGON2_VARIANTS))"

lemma variant_not_other: "v \<in> set (dkeys ARGON2_VARIANTS) \<Longrightarrow> v \<noteq> ''scrypt'' \<and> v \<noteq> ''pbkdf2'' \<and> CHR ''$'' \<notin> set v"
  by (auto simp: ARGON2_VARIANTS_def)

lemma hash_name_plain: "hash_named h \<noteq> None \<Longrightarrow> CHR ''$'' \<notin> set h \<and> CHR '','' \<notin> set h"
  by (auto simp: hash_named_def split: if_splits)

lemma params_come_back:
  assumes "storable_params p"
  shows "params_from_encoded (kdf_name p) (kdf_encode p) (kdf_version p) = Inr p'
     \<Longrightarrow> with_dklen (kdf_dklen p) p' = p"
    "\<exists>p'. params_from_encoded (kdf_name p) (kdf_encode p) (kdf_version p) = Inr p'"
proof -
  have "\<exists>p'. params_from_encoded (kdf_name p) (kdf_encode p) (kdf_version p) = Inr p' \<and> with_dklen (kdf_dklen p) p' = p"
  proof (cases p)
    case (PScrypt s)
    have "param_fields (kdf_encode p) = Inr [(''n'', int_str (sp_n s)), (''r'', int_str (sp_r s)), (''p'', int_str (sp_p s))]"
      using param_fields_join [of "[(''n'', int_str (sp_n s)), (''r'', int_str (sp_r s)), (''p'', int_str (sp_p s))]"]
      by (simp add: PScrypt join_def)
    with PScrypt assms show ?thesis by (simp add: params_from_encoded_def int_field_of_def default_scrypt_def)
  next
    case (PPbkdf2 q)
    have "param_fields (kdf_encode p) = Inr [(''i'', int_str (pb_iterations q)), (''h'', pb_hash_name q)]"
      using param_fields_join [of "[(''i'', int_str (pb_iterations q)), (''h'', pb_hash_name q)]"] assms hash_name_plain
      by (simp add: PPbkdf2 join_def)
    with PPbkdf2 assms show ?thesis by (simp add: params_from_encoded_def int_field_of_def default_pbkdf2_def)
  next
    case (PArgon2 a)
    have "param_fields (kdf_encode p) = Inr [(''m'', int_str (ag_memory_cost a)), (''t'', int_str (ag_time_cost a)), (''p'', int_str (ag_parallelism a))]"
      using param_fields_join [of "[(''m'', int_str (ag_memory_cost a)), (''t'', int_str (ag_time_cost a)), (''p'', int_str (ag_parallelism a))]"]
      by (simp add: PArgon2 join_def)
    with PArgon2 assms variant_not_other [of "ag_variant a"] show ?thesis
      by (simp add: params_from_encoded_def int_field_of_def default_argon2_def)
  qed
  then show "params_from_encoded (kdf_name p) (kdf_encode p) (kdf_version p) = Inr p' \<Longrightarrow> with_dklen (kdf_dklen p) p' = p"
    "\<exists>p'. params_from_encoded (kdf_name p) (kdf_encode p) (kdf_version p) = Inr p'" by auto
qed

lemma kdf_encode_plain: "storable_params p \<Longrightarrow> CHR ''$'' \<notin> set (kdf_encode p) \<and> CHR ''$'' \<notin> set (kdf_name p)"
  using variant_not_other hash_name_plain by (cases p) auto

section \<open>A hash verifies\<close>

text \<open>What \<open>argon2-cffi\<close> documents: a raw hash has the requested length.\<close>

definition backend_ok :: "backend \<Rightarrow> bool" where
  "backend_ok bk \<longleftrightarrow> (\<forall>f pw salt a d. bk_cffi bk = Some f \<longrightarrow> f pw salt a = Some d \<longrightarrow> length d = ag_dklen a)"

lemma pbkdf2_fallback_length: "pbkdf2_fallback name pw salt c n = Inr k \<Longrightarrow> length k = n"
proof -
  assume k: "pbkdf2_fallback name pw salt c n = Inr k"
  then obtain h where h: "hash_named name = Some h" by (auto simp: pbkdf2_fallback_def split: option.splits if_splits)
  have blk: "length (let v = hmac_alg h pw (salt @ nat_be 4 i) in pbkdf2_loop (nat c - 1) h pw v v) = digest_size h" for i
    using length_pbkdf2_block [OF h, of pw salt "nat c" i] by (simp add: pbkdf2_loop_block pbkdf2_block_def Let_def)
  define d where "d = digest_size h"
  have d: "d \<ge> 20" using hash_named_digest_size [OF h] by (simp add: d_def)
  have "(n + d - 1) div d * d \<ge> n"
    using d div_mult_mod_eq [of "n + d - 1" d] mod_less_divisor [of d "n + d - 1"] by linarith
  then show ?thesis
    using k blk by (auto simp: pbkdf2_fallback_def h length_concat comp_def sum_list_triv d_def [symmetric] Let_def simp del: upt_Suc split: if_splits)
qed

lemma derive_length: "backend_ok bk \<Longrightarrow> derive bk p data salt = Inr d \<Longrightarrow> length d = kdf_dklen p"
proof (cases p)
  case (PScrypt s)
  then show "derive bk p data salt = Inr d \<Longrightarrow> ?thesis" using hashlib_scrypt_length by (simp add: derive_scrypt_def)
next
  case (PPbkdf2 q)
  then show "derive bk p data salt = Inr d \<Longrightarrow> ?thesis"
    using pbkdf2_hmac_length pbkdf2_fallback_length by (simp add: pbkdf2_any_def split: if_splits)
next
  case (PArgon2 a)
  then show "backend_ok bk \<Longrightarrow> derive bk p data salt = Inr d \<Longrightarrow> ?thesis"
    by (auto simp: derive_argon2_def backend_ok_def dest: argon2_length split: option.splits if_splits)
qed

lemma hash_password_run:
  assumes "hash_password h pw salt g = (Inr enc, g')"
  obtains s data d where "prepare h pw = Inr data" "derive (hs_backend h) (hs_params h) data s = Inr d"
    "enc = stored_form (hs_params h) s d" "salt \<noteq> None \<longrightarrow> salt = Some s"
  using assms by (auto simp: hash_password_def split_beta split: option.splits elim!: bind_res_InrE)

lemma parse_stored_form:
  assumes "storable_params p"
  shows "parse_hash (stored_form p s d) =
    Inr \<lparr>ph_algorithm = kdf_name p, ph_params = kdf_encode p, ph_salt = s, ph_digest = d, ph_version = kdf_version p\<rparr>"
  unfolding stored_form_def
  by (rule parse_hash_encode) (use assms kdf_encode_plain [OF assms] in \<open>cases p; auto simp: storable_hash_def\<close>)

lemma verify_stored_form:
  assumes bk: "backend_ok (hs_backend h)" and p: "storable_params p" and d: "length d = kdf_dklen p"
  shows "verify_password h pw (stored_form p s d) =
    (case bind_res (prepare h pw) (\<lambda>data. derive (hs_backend h) p data s) of
       Inl e \<Rightarrow> if is_value_error e then Inr False else Inl e
     | Inr c \<Rightarrow> Inr (c = d))"
proof -
  obtain p' where "params_from_encoded (kdf_name p) (kdf_encode p) (kdf_version p) = Inr p'" "with_dklen (kdf_dklen p) p' = p"
    using params_come_back [OF p] by blast
  then show ?thesis by (simp add: verify_password_def parse_stored_form [OF p] d split: sum.split)
qed

text \<open>
  C17: A hash verifies the password it was made of and needs no rehash, whatever the salt, the algorithm
  and its cost, the pepper and the version of Argon2 are: the parameters are read back from the stored
  text.  Another password is accepted exactly if its derived digest is the same.
\<close>

theorem hashed_password_verifies:
  assumes "backend_ok (hs_backend h)" "storable_params (hs_params h)" "hash_password h pw (Some s) g = (Inr enc, g')"
  shows "verify_password h pw enc = Inr True \<and> needs_rehash h enc = Inr False
    \<and> (\<forall>other. verify_password h other enc = Inr True \<longleftrightarrow>
         bind_res (prepare h other) (\<lambda>data. derive (hs_backend h) (hs_params h) data s)
         = bind_res (prepare h pw) (\<lambda>data. derive (hs_backend h) (hs_params h) data s))"
proof -
  obtain data d where d: "prepare h pw = Inr data" "derive (hs_backend h) (hs_params h) data s = Inr d" "enc = stored_form (hs_params h) s d"
    using assms(3) by (auto elim: hash_password_run)
  have v: "verify_password h other enc = (case bind_res (prepare h other) (\<lambda>data. derive (hs_backend h) (hs_params h) data s) of
       Inl e \<Rightarrow> if is_value_error e then Inr False else Inl e | Inr c \<Rightarrow> Inr (c = d))" for other
    unfolding d(3) by (rule verify_stored_form [OF assms(1,2) derive_length [OF assms(1) d(2)]])
  have "needs_rehash h enc = Inr False"
    by (simp add: needs_rehash_def d(3) parse_stored_form [OF assms(2)])
  with d(1,2) show ?thesis by (auto simp: v split: sum.split)
qed

definition sample_hasher :: password_hasher where
  "sample_hasher = \<lparr>hs_params = PPbkdf2 (default_pbkdf2\<lparr>pb_iterations := 1000\<rparr>), hs_pepper = Some [1, 2, 3],
     hs_backend = \<lparr>bk_native = True, bk_cffi = None\<rparr>\<rparr>"

theorem hashed_password_verifies_witness:
  "\<exists>enc g'. hash_password sample_hasher ''correct horse'' (Some [5, 6, 7, 8]) \<lparr>tape = \<lambda>_ _. 0, drawn = 0\<rparr> = (Inr enc, g')
    \<and> verify_password sample_hasher ''correct horse'' enc = Inr True \<and> needs_rehash sample_hasher enc = Inr False"
proof -
  let ?h = sample_hasher
  have ok: "backend_ok (hs_backend ?h)" "storable_params (hs_params ?h)"
    by (simp_all add: backend_ok_def sample_hasher_def default_pbkdf2_def hash_named_def)
  obtain data where "prepare ?h ''correct horse'' = Inr data" by (simp add: prepare_def nfkc_def nfkc_char_def Let_def)
  moreover obtain d where "derive (hs_backend ?h) (hs_params ?h) data [5, 6, 7, 8] = Inr d"
    by (simp add: sample_hasher_def default_pbkdf2_def pbkdf2_any_def pbkdf2_hmac_def hash_named_def)
  ultimately obtain enc where "hash_password ?h ''correct horse'' (Some [5, 6, 7, 8]) \<lparr>tape = \<lambda>_ _. 0, drawn = 0\<rparr> = (Inr enc, \<lparr>tape = \<lambda>_ _. 0, drawn = 0\<rparr>)"
    by (simp add: hash_password_def)
  with hashed_password_verifies [OF ok this] show ?thesis by blast
qed

section \<open>What verification raises\<close>

lemma py_int_errors: "py_int s = Inl e \<Longrightarrow> e = ValueError"
  by (auto simp: py_int_def int_digits_def split: list.splits if_splits)

lemma map_sum_Inl_iff: "map_sum id f r = Inl e \<longleftrightarrow> r = Inl e"
  by (cases r) auto

lemma b64u_decode_errors: "b64u_decode s = Inl e \<Longrightarrow> e = ValueError"
proof -
  have "a2b_loop q l p t = Inl e \<Longrightarrow> e = ValueError" for q l p t
    by (induction q l p t rule: a2b_loop.induct) (auto simp: map_sum_Inl_iff split: if_splits option.splits)
  then show "b64u_decode s = Inl e \<Longrightarrow> ?thesis" by (auto simp: b64u_decode_def urlsafe_b64decode_def split: if_splits)
qed

lemma parse_hash_errors: "parse_hash t = Inl e \<Longrightarrow> e = ValueError"
  by (auto simp: parse_hash_def hash_fields_def bind_res_def is_value_error_def dest: py_int_errors b64u_decode_errors
      split: if_splits sum.splits list.splits prod.splits)

lemma int_field_errors: "int_field_of d k = Inl e \<Longrightarrow> e = ValueError \<or> e = KeyError"
  by (auto simp: int_field_of_def dest: py_int_errors split: option.splits)

lemma param_fields_errors: "param_fields t = Inl e \<Longrightarrow> e = ValueError"
proof -
  have "fold_res (\<lambda>kv d. case split_once (CHR ''='') kv of None \<Rightarrow> Inl ValueError | Some (k, v) \<Rightarrow> Inr (dset k v d)) kvs d = Inl e \<Longrightarrow> e = ValueError" for kvs d
    by (induction kvs arbitrary: d) (auto split: option.splits)
  then show "param_fields t = Inl e \<Longrightarrow> ?thesis" by (simp add: param_fields_def)
qed

lemma params_from_encoded_errors: "params_from_encoded alg t v = Inl e \<Longrightarrow> e = ValueError \<or> e = KeyError"
  by (auto simp: params_from_encoded_def bind_res_def dest: param_fields_errors int_field_errors
      split: if_splits sum.splits option.splits)

lemma pbkdf2_hmac_errors: "pbkdf2_hmac name pw salt c n = Inl e \<Longrightarrow> e \<in> {ValueError, OverflowError, Unmodelled}"
  by (auto simp: pbkdf2_hmac_def split: option.splits if_splits)

lemma argon2_errors: "argon2 pw salt a = Inl e \<Longrightarrow> e \<in> {ValueError, StructError}"
proof -
  have pack: "map_res pack_le32 ns = Inl e \<Longrightarrow> e = StructError" for ns e
    by (induction ns) (auto simp: pack_le32_def bind_res_def split: if_splits sum.splits)
  have packs: "map_res pack_bytes bs = Inl e \<Longrightarrow> e = StructError" for bs e
    by (induction bs) (auto simp: pack_bytes_def pack_le32_def bind_res_def split: if_splits sum.splits)
  have long: "blake2b_long n b = Inl e \<Longrightarrow> e = StructError" for n b e
    by (auto simp: blake2b_long_def pack_le32_def bind_res_def split: if_splits)
  have fold: "fold_res (\<lambda>(lane, column) mem.
         bind_res (pack_le32 column) (\<lambda>c. bind_res (pack_le32 lane) (\<lambda>l.
         bind_res (blake2b_long BLOCK_SIZE (h0 @ c @ l)) (\<lambda>data.
           Inr (mem[nat (lane * cx_columns ctx + column) := words_of_bytes data]))))) lcs mem = Inl e \<Longrightarrow> e = StructError" for ctx h0 lcs mem e
    by (induction lcs arbitrary: mem) (auto simp: bind_res_def pack_le32_def dest: long split: if_splits sum.splits)
  have "first_blocks ctx h0 mem = Inl e \<Longrightarrow> e = StructError" for ctx h0 mem
    unfolding first_blocks_def by (rule fold)
  moreover have "initial_hash pw salt a = Inl e \<Longrightarrow> e = StructError"
    by (auto simp: initial_hash_def bind_res_def simp del: map_res.simps dest: pack packs split: sum.splits)
  ultimately show "argon2 pw salt a = Inl e \<Longrightarrow> ?thesis"
    by (auto simp: argon2_def Let_def bind_res_def dest: long split: if_splits sum.splits)
qed

lemma derive_errors:
  "params_from_encoded alg t v = Inr p \<Longrightarrow> derive bk (with_dklen n p) data salt = Inl e
     \<Longrightarrow> e \<in> {ValueError, OverflowError, StructError, Unmodelled}"
proof (cases p)
  case (PScrypt s)
  then show "derive bk (with_dklen n p) data salt = Inl e \<Longrightarrow> ?thesis"
    by (auto simp: derive_scrypt_def hashlib_scrypt_def bind_res_def dest: pbkdf2_hmac_errors split: if_splits sum.splits)
next
  case (PPbkdf2 q)
  then show "derive bk (with_dklen n p) data salt = Inl e \<Longrightarrow> ?thesis"
    by (auto simp: pbkdf2_any_def pbkdf2_fallback_def Let_def dest: pbkdf2_hmac_errors split: if_splits option.splits)
next
  case (PArgon2 a)
  assume "params_from_encoded alg t v = Inr p"
  then have "ag_variant a \<in> set (dkeys ARGON2_VARIANTS)"
    using PArgon2 by (auto simp: params_from_encoded_def bind_res_def intro: rev_image_eqI split: if_splits sum.splits option.splits)
  then obtain x where "dget ARGON2_VARIANTS (ag_variant a) = Some x" by (cases "dget ARGON2_VARIANTS (ag_variant a)") (auto simp: dget_None_iff)
  with PArgon2 show "derive bk (with_dklen n p) data salt = Inl e \<Longrightarrow> ?thesis"
    by (auto simp: derive_argon2_def dest: argon2_errors split: if_splits option.splits)
qed

lemma prepare_errors: "prepare h pw = Inl e \<Longrightarrow> e = Unmodelled"
proof -
  have "map_res nfkc_char s = Inl e \<Longrightarrow> e = Unmodelled" for s
    by (induction s) (auto simp: nfkc_char_def Let_def bind_res_def split: if_splits sum.splits)
  then show "prepare h pw = Inl e \<Longrightarrow> ?thesis"
    by (auto simp: prepare_def nfkc_def bind_res_def Let_def map_sum_Inl_iff split: sum.splits)
qed

text \<open>
  Whatever the stored text is, verification answers, but for two exceptions that a cost in it can cause:
  the number of iterations of native PBKDF2 and the costs of Argon2 have a limit that is not checked.
\<close>

lemma verification_answers:
  "case verify_password h pw enc of Inr _ \<Rightarrow> True | Inl e \<Rightarrow> e \<in> {OverflowError, StructError, Unmodelled}"
proof (cases "verify_password h pw enc")
  case (Inl e)
  then have "e \<in> {ValueError, OverflowError, StructError, Unmodelled}" "\<not> is_value_error e"
    by (auto simp: verify_password_def bind_res_def is_value_error_def
        dest: parse_hash_errors params_from_encoded_errors prepare_errors derive_errors split: sum.splits if_splits)
  with Inl show ?thesis by (auto simp: is_value_error_def)
qed simp

text \<open>One such text: Argon2 with more passes than a 32-bit field holds.\<close>

definition overflowing_hash :: string where
  "overflowing_hash = stored_form (PArgon2 (default_argon2\<lparr>ag_memory_cost := 64, ag_time_cost := 2 ^ 32\<rparr>)) (replicate 16 0) (replicate 32 0)"

lemma verification_raises_struct_error:
  assumes "bk_cffi (hs_backend h) = None" "prepare h pw = Inr data"
  shows "verify_password h pw overflowing_hash = Inl StructError"
proof -
  let ?a = "default_argon2\<lparr>ag_memory_cost := 64, ag_time_cost := 2 ^ 32\<rparr>"
  have p: "storable_params (PArgon2 ?a)" by (simp add: default_argon2_def ARGON2_VARIANTS_def)
  have "backend_ok (hs_backend h)" using assms(1) by (simp add: backend_ok_def)
  from verify_stored_form [OF this p, of "replicate 32 0" pw "replicate 16 0"]
  have "verify_password h pw overflowing_hash =
    (case derive (hs_backend h) (PArgon2 ?a) data (replicate 16 0) of
       Inl e \<Rightarrow> if is_value_error e then Inr False else Inl e | Inr c \<Rightarrow> Inr (c = replicate 32 0))"
    using assms(2) by (simp add: overflowing_hash_def default_argon2_def)
  moreover have "derive (hs_backend h) (PArgon2 ?a) data (replicate 16 0) = Inl StructError"
    using assms(1) by (simp add: derive_argon2_def default_argon2_def ARGON2_VARIANTS_def too_many_passes argon_refuses_def TYPE_ID_def TEACHING_MAX_MEMORY_KIB_def)
  ultimately show ?thesis by (simp add: is_value_error_def)
qed

end
