(* ===== verification/Ldap.thy ===== *)
theory Ldap
  imports Hasher "HOL-Library.Sublist"
begin

text \<open>
  \<open>directory/ldap.py\<close>: escaping, distinguished names, the search filter language, and the directory with
  its two ways to authenticate.  The directory is a record with its hasher and its source of random
  bytes.  Python's limit on the depth of recursion, which a deeply nested filter would hit, is not
  modelled.
\<close>

section \<open>Escaping\<close>

definition escape_filter_char :: "char \<Rightarrow> string" where
  "escape_filter_char c =
     (if c = CHR 0x5C then [CHR 0x5C, CHR ''5'', CHR ''c'']
      else if c = CHR ''*'' then [CHR 0x5C, CHR ''2'', CHR ''a'']
      else if c = CHR ''('' then [CHR 0x5C, CHR ''2'', CHR ''8'']
      else if c = CHR '')'' then [CHR 0x5C, CHR ''2'', CHR ''9'']
      else if c = CHR 0x00 then [CHR 0x5C, CHR ''0'', CHR ''0'']
      else [c])"

definition escape_filter :: "string \<Rightarrow> string" where
  "escape_filter v = concat (map escape_filter_char v)"

definition DN_ESCAPE :: "char set" where
  "DN_ESCAPE = {CHR '','', CHR ''+'', CHR 0x22, CHR 0x5C, CHR ''<'', CHR ''>'', CHR '';'', CHR ''=''}"

definition escape_dn :: "string \<Rightarrow> string" where
  "escape_dn v =
     concat (map (\<lambda>(i, c).
       if c \<in> DN_ESCAPE \<or> c = CHR 0x00 then [CHR 0x5C, c]
       else if c = CHR '' '' \<and> (i = 0 \<or> i = length v - 1) then [CHR 0x5C, CHR '' '']
       else if c = CHR ''#'' \<and> i = 0 then [CHR 0x5C, CHR ''#'']
       else [c]) (zip [0..<length v] v))"

section \<open>Distinguished names\<close>

type_synonym dn = "(string \<times> string) list"

text \<open>The characters of the current part are kept in reverse.\<close>

fun split_dn_loop :: "string \<Rightarrow> bool \<Rightarrow> string \<Rightarrow> string list" where
  "split_dn_loop current escaped [] = [rev current]"
| "split_dn_loop current escaped (c # cs) =
     (if escaped then split_dn_loop (c # current) False cs
      else if c = CHR 0x5C then split_dn_loop (c # current) True cs
      else if c = CHR '','' then rev current # split_dn_loop [] False cs
      else split_dn_loop (c # current) False cs)"

definition split_dn :: "string \<Rightarrow> string list" where
  "split_dn text = split_dn_loop [] False text"

definition rdn_parse :: "string \<Rightarrow> exn + (string \<times> string)" where
  "rdn_parse part =
     (case split_once (CHR ''='') part of
        None \<Rightarrow> Inl LDAPError
      | Some (attr, v) \<Rightarrow> Inr (lower (strip attr), strip v))"

definition dn_parse :: "string \<Rightarrow> exn + dn" where
  "dn_parse text = map_res rdn_parse (split_dn text)"

definition dn_str :: "dn \<Rightarrow> string" where
  "dn_str d = join '','' (map (\<lambda>(attr, v). attr @ ''='' @ v) d)"

definition dn_rdn :: "dn \<Rightarrow> string \<times> string" where
  "dn_rdn d = hd d"

definition is_child_of :: "dn \<Rightarrow> dn \<Rightarrow> bool" where
  "is_child_of d base = (if length base > length d then False else drop (length d - length base) d = base)"

section \<open>Entries\<close>

record entry =
  en_dn :: string
  en_attributes :: "(string, string list) dict"

definition entry_get :: "entry \<Rightarrow> string \<Rightarrow> string list" where
  "entry_get e name = (case dget (en_attributes e) (lower name) of None \<Rightarrow> [] | Some vs \<Rightarrow> vs)"

definition entry_first :: "entry \<Rightarrow> string \<Rightarrow> string option" where
  "entry_first e name = (case entry_get e name of [] \<Rightarrow> None | v # _ \<Rightarrow> Some v)"

section \<open>Filters\<close>

datatype lfilter =
    LAnd "lfilter list"
  | LOr "lfilter list"
  | LNot lfilter
  | LPresent string
  | LSubstring string "string list"
  | LEquals string string

text \<open>\<open>int(text, 16)\<close> of one or two characters: white space, a sign and underscores as for decimal numbers.\<close>

definition hex_digits :: "string \<Rightarrow> py_error + int" where
  "hex_digits s =
     (if \<forall>g \<in> set (split_on (CHR ''_'') s). g \<noteq> [] \<and> (\<forall>c \<in> set g. hex_value c \<noteq> None)
      then Inr (int (fold (\<lambda>c n. n * 16 + the (hex_value c)) (remove_char (CHR ''_'') s) 0)) else Inl ValueError)"

definition int_base16 :: "string \<Rightarrow> py_error + int" where
  "int_base16 s =
     (case strip s of
        [] \<Rightarrow> Inl ValueError
      | c # r \<Rightarrow>
          (if c = CHR ''-'' then map_sum id uminus (hex_digits r)
           else if c = CHR ''+'' then hex_digits r
           else hex_digits (c # r)))"

text \<open>\<open>chr(n)\<close>; two characters give less than 256.\<close>

definition py_chr :: "int \<Rightarrow> py_error + char" where
  "py_chr n = (if n < 0 then Inl ValueError else if n \<ge> 256 then Inl Unmodelled else Inr (char_of (nat n)))"

fun unescape_filter_value :: "string \<Rightarrow> py_error + string" where
  "unescape_filter_value [] = Inr []"
| "unescape_filter_value [c] = Inr [c]"
| "unescape_filter_value (c # d # r) =
     (if c = CHR 0x5C
      then bind_res (bind_res (int_base16 (d # take 1 r)) py_chr) (\<lambda>x.
             map_sum id ((#) x) (unescape_filter_value (drop 1 r)))
      else map_sum id ((#) c) (unescape_filter_value (d # r)))"

definition ldap_assertion :: "string \<Rightarrow> exn + lfilter" where
  "ldap_assertion text =
     (case split_once (CHR ''='') text of
        None \<Rightarrow> Inl LDAPError
      | Some (a, v) \<Rightarrow>
          (let attr = lower (strip a) in
           if v = ''*'' then Inr (LPresent attr)
           else if CHR ''*'' \<in> set v then Inr (LSubstring attr (split_on (CHR ''*'') v))
           else bind_res (py (unescape_filter_value v)) (\<lambda>u. Inr (LEquals attr u))))"

text \<open>\<open>_expect\<close>.\<close>

definition expect :: "char \<Rightarrow> string \<Rightarrow> exn + string" where
  "expect c s = (case s of [] \<Rightarrow> Inl LDAPError | x # r \<Rightarrow> if x = c then Inr r else Inl LDAPError)"

text \<open>
  \<open>parse\<close> reads one filter (\<open>LOne\<close>), its loop over the sub-filters any number (\<open>LMany\<close>); both return a
  list and the rest of the text.  \<open>Diverges\<close> stands for too little fuel.
\<close>

datatype lrule = LOne | LMany

primrec ldap_parse :: "nat \<Rightarrow> lrule \<Rightarrow> string \<Rightarrow> exn + (lfilter list \<times> string)" where
  "ldap_parse 0 r s = Inl (Py Diverges)"
| "ldap_parse (Suc n) r s =
     (case r of
        LOne \<Rightarrow>
          (case s of
             p # c # rest \<Rightarrow>
               (if p \<noteq> CHR ''('' then Inl LDAPError
                else if c = CHR ''&'' \<or> c = CHR ''|'' then
                  bind_res (ldap_parse n LMany rest) (\<lambda>(children, rest').
                    if children = [] then Inl LDAPError
                    else bind_res (expect (CHR '')'') rest') (\<lambda>rest''.
                      Inr ([if c = CHR ''&'' then LAnd children else LOr children], rest'')))
                else if c = CHR ''!'' then
                  bind_res (ldap_parse n LOne rest) (\<lambda>(child, rest').
                    bind_res (expect (CHR '')'') rest') (\<lambda>rest''. Inr ([LNot (hd child)], rest'')))
                else
                  bind_res (expect (CHR '')'') (dropWhile (\<lambda>x. x \<noteq> CHR '')'') (c # rest))) (\<lambda>rest'.
                  bind_res (ldap_assertion (takeWhile (\<lambda>x. x \<noteq> CHR '')'') (c # rest))) (\<lambda>f.
                    Inr ([f], rest'))))
           | _ \<Rightarrow> Inl LDAPError)
      | LMany \<Rightarrow>
          (if prefix ''('' s
           then bind_res (ldap_parse n LOne s) (\<lambda>(f, rest).
                bind_res (ldap_parse n LMany rest) (\<lambda>(fs, rest'). Inr (f @ fs, rest')))
           else Inr ([], s)))"

definition ldap_fuel :: "string \<Rightarrow> nat" where
  "ldap_fuel s = 2 * length s + 2"

definition parse_filter :: "string \<Rightarrow> exn + lfilter" where
  "parse_filter text =
     (let t = strip text in
      bind_res (ldap_parse (ldap_fuel t) LOne t) (\<lambda>(f, rest). if rest \<noteq> [] then Inl LDAPError else Inr (hd f)))"

text \<open>\<open>candidate.find(middle, position)\<close>.\<close>

definition find_from :: "string \<Rightarrow> string \<Rightarrow> nat \<Rightarrow> nat option" where
  "find_from candidate middle position =
     find (\<lambda>i. prefix middle (drop i candidate)) [position..<Suc (length candidate)]"

fun match_middles :: "string \<Rightarrow> nat \<Rightarrow> string list \<Rightarrow> bool" where
  "match_middles candidate position [] = True"
| "match_middles candidate position (middle # rest) =
     (case find_from candidate middle position of
        None \<Rightarrow> False | Some found \<Rightarrow> match_middles candidate (found + length middle) rest)"

definition substring_match :: "string \<Rightarrow> string list \<Rightarrow> bool" where
  "substring_match candidate parts \<longleftrightarrow>
     prefix (hd parts) candidate \<and> suffix (last parts) candidate
     \<and> match_middles candidate (length (hd parts)) (butlast (tl parts))
     \<and> (length (hd parts) + length (last parts) \<le> length candidate \<or> length parts = 1)"

fun ldap_matches :: "lfilter \<Rightarrow> entry \<Rightarrow> bool" where
  "ldap_matches (LAnd fs) e = list_all (\<lambda>f. ldap_matches f e) fs"
| "ldap_matches (LOr fs) e = list_ex (\<lambda>f. ldap_matches f e) fs"
| "ldap_matches (LNot f) e = (\<not> ldap_matches f e)"
| "ldap_matches (LPresent attr) e = (entry_get e attr \<noteq> [])"
| "ldap_matches (LSubstring attr parts) e = list_ex (\<lambda>c. substring_match c parts) (entry_get e attr)"
| "ldap_matches (LEquals attr v) e = list_ex (\<lambda>x. constant_time_equals x v) (entry_get e attr)"

section \<open>The directory\<close>

record ldap =
  ld_entries :: "(string, entry) dict"
  ld_hasher :: password_hasher
  ld_rng :: rng

type_synonym 'a ldap_op = "(ldap, 'a) op"

definition normalized_attributes :: "(string, string list) dict \<Rightarrow> (string, string list) dict" where
  "normalized_attributes attributes = fold (\<lambda>(k, v). dset (lower k) v) attributes []"

definition LAB_LABEL :: string where "LAB_LABEL = ''{LAB}''"

definition with_password :: "string option \<Rightarrow> (string, string list) dict \<Rightarrow> (string, string list) dict ldap_op" where
  "with_password password attrs s =
     (case password of
        None \<Rightarrow> (Inr attrs, s)
      | Some pw \<Rightarrow>
          (case hash_password (ld_hasher s) pw None (ld_rng s) of (r, g) \<Rightarrow>
             (py (map_sum id (\<lambda>enc. dset ''userpassword'' [LAB_LABEL @ enc] attrs) r), s\<lparr>ld_rng := g\<rparr>)))"

definition ldap_add :: "string \<Rightarrow> (string, string list) dict \<Rightarrow> string option \<Rightarrow> entry ldap_op" where
  "ldap_add dn attributes password =
     bindM (lift (dn_parse dn)) (\<lambda>d.
     bindM (with_password password (normalized_attributes attributes)) (\<lambda>attrs.
     let e = \<lparr>en_dn = dn_str d, en_attributes = attrs\<rparr>
     in bindM (modify (\<lambda>s. s\<lparr>ld_entries := dset (dn_str d) e (ld_entries s)\<rparr>)) (\<lambda>_. ret e)))"

definition refuse_slowly :: "ldap \<Rightarrow> string \<Rightarrow> exn + bool" where
  "refuse_slowly s password = bind_res (py (fake_verify (ld_hasher s) password)) (\<lambda>_. Inr False)"

definition simple_bind :: "string \<Rightarrow> string \<Rightarrow> ldap \<Rightarrow> exn + bool" where
  "simple_bind dn password s =
     (if password = [] then Inl LDAPError
      else (case dn_parse dn of
        Inl e \<Rightarrow> if e = LDAPError then Inr False else Inl e
      | Inr d \<Rightarrow>
          (case dget (ld_entries s) (dn_str d) of
             None \<Rightarrow> refuse_slowly s password
           | Some e \<Rightarrow>
               (case entry_first e ''userpassword'' of
                  None \<Rightarrow> refuse_slowly s password
                | Some stored \<Rightarrow>
                    (if stored = [] \<or> \<not> prefix LAB_LABEL stored then refuse_slowly s password
                     else py (verify_password (ld_hasher s) password (drop (length LAB_LABEL) stored)))))))"

fun searched :: "dn \<Rightarrow> lfilter \<Rightarrow> entry list \<Rightarrow> exn + entry list" where
  "searched base f [] = Inr []"
| "searched base f (e # es) =
     bind_res (dn_parse (en_dn e)) (\<lambda>d.
     bind_res (searched base f es) (\<lambda>rest.
       Inr (if is_child_of d base \<and> ldap_matches f e then e # rest else rest)))"

definition ldap_search :: "string \<Rightarrow> string \<Rightarrow> ldap \<Rightarrow> exn + entry list" where
  "ldap_search base_dn filter_string s =
     bind_res (dn_parse base_dn) (\<lambda>base.
     bind_res (parse_filter filter_string) (\<lambda>f.
       searched base f (dvalues (ld_entries s))))"

definition user_filter :: "string \<Rightarrow> string \<Rightarrow> string" where
  "user_filter uid_attr username = ''('' @ uid_attr @ ''='' @ escape_filter username @ '')''"

definition ldap_authenticate :: "string \<Rightarrow> string \<Rightarrow> string \<Rightarrow> string \<Rightarrow> ldap \<Rightarrow> exn + entry option" where
  "ldap_authenticate username password base_dn uid_attr s =
     (if password = [] then Inr None
      else bind_res (ldap_search base_dn (user_filter uid_attr username) s) (\<lambda>matches.
        case matches of
          [e] \<Rightarrow> bind_res (simple_bind (en_dn e) password s) (\<lambda>ok. Inr (if ok then Some e else None))
        | _ \<Rightarrow> bind_res (refuse_slowly s password) (\<lambda>_. Inr None)))"

text \<open>A new directory.\<close>

definition empty_ldap :: "password_hasher \<Rightarrow> rng \<Rightarrow> ldap" where
  "empty_ldap h g = \<lparr>ld_entries = [], ld_hasher = h, ld_rng = g\<rparr>"

end
