(* ===== verification/Directory.thy ===== *)
theory Directory
  imports Ldap
begin

text \<open>
  Properties of the directory: filters with escaped values are read back, normalised names are stable, and
  who is authenticated.
\<close>

section \<open>Filters\<close>

subsection \<open>Escaped values\<close>

lemma unescape_plain: "c \<noteq> CHR 0x5C \<Longrightarrow> unescape_filter_value (c # r) = map_sum id ((#) c) (unescape_filter_value r)"
  by (cases r) simp_all

lemma unescape_pair:
  "int_base16 [d, e] = Inr n \<Longrightarrow> 0 \<le> n \<Longrightarrow> n < 256
     \<Longrightarrow> unescape_filter_value (CHR 0x5C # d # e # r) = map_sum id ((#) (char_of (nat n))) (unescape_filter_value r)"
  by (simp add: py_chr_def)

lemma escaped_pairs:
  "int_base16 [CHR ''5'', CHR ''c''] = Inr 92" "int_base16 [CHR ''2'', CHR ''a''] = Inr 42"
  "int_base16 [CHR ''2'', CHR ''8''] = Inr 40" "int_base16 [CHR ''2'', CHR ''9''] = Inr 41"
  "int_base16 [CHR ''0'', CHR ''0''] = Inr 0"
  by code_simp+

lemma unescape_escape [simp]: "unescape_filter_value (escape_filter v) = Inr v"
proof (induction v)
  case (Cons c v)
  then have IH: "unescape_filter_value (concat (map escape_filter_char v)) = Inr v" by (simp add: escape_filter_def)
  have "char_of (92 :: nat) = CHR 0x5C" "char_of (42 :: nat) = CHR ''*''" "char_of (40 :: nat) = CHR ''(''"
    "char_of (41 :: nat) = CHR '')''" "char_of (0 :: nat) = CHR 0x00" by code_simp+
  with IH show ?case
    by (auto simp: escape_filter_def escape_filter_char_def unescape_plain unescape_pair [OF escaped_pairs(1)]
        unescape_pair [OF escaped_pairs(2)] unescape_pair [OF escaped_pairs(3)] unescape_pair [OF escaped_pairs(4)]
        unescape_pair [OF escaped_pairs(5)] simp del: unescape_filter_value.simps(3))
qed (simp add: escape_filter_def)

interpretation escaped: codec escape_filter unescape_filter_value "\<lambda>_. True"
  by unfold_locales simp

lemma escaped_has_no [simp]:
  "CHR '')'' \<notin> set (escape_filter v)" "CHR ''('' \<notin> set (escape_filter v)" "CHR ''*'' \<notin> set (escape_filter v)"
  by (auto simp: escape_filter_def escape_filter_char_def split: if_splits)

subsection \<open>Reading a written filter\<close>

fun show_ldap :: "lfilter \<Rightarrow> string" where
  "show_ldap (LAnd fs) = ''(&'' @ concat (map show_ldap fs) @ '')''"
| "show_ldap (LOr fs) = ''(|'' @ concat (map show_ldap fs) @ '')''"
| "show_ldap (LNot f) = ''(!'' @ show_ldap f @ '')''"
| "show_ldap (LPresent a) = ''('' @ a @ ''=*)''"
| "show_ldap (LSubstring a parts) = ''('' @ a @ ''='' @ join ''*'' parts @ '')''"
| "show_ldap (LEquals a v) = ''('' @ a @ ''='' @ escape_filter v @ '')''"

text \<open>
  Names of attributes that can be written, and filters that can.  A part of a substring filter is not
  unescaped when it is read, so it stands for itself.
\<close>

definition plain_attr :: "string \<Rightarrow> bool" where
  "plain_attr a \<longleftrightarrow> CHR ''='' \<notin> set a \<and> CHR '')'' \<notin> set a \<and> strip a = a
     \<and> (a \<noteq> [] \<longrightarrow> hd a \<notin> {CHR ''&'', CHR ''|'', CHR ''!''})"

fun writable :: "lfilter \<Rightarrow> bool" where
  "writable (LAnd fs) = (fs \<noteq> [] \<and> list_all writable fs)"
| "writable (LOr fs) = (fs \<noteq> [] \<and> list_all writable fs)"
| "writable (LNot f) = writable f"
| "writable (LPresent a) = (plain_attr a \<and> lower a = a)"
| "writable (LSubstring a parts) =
     (plain_attr a \<and> lower a = a \<and> length parts \<ge> 2 \<and> parts \<noteq> [[], []]
      \<and> list_all (\<lambda>p. CHR ''*'' \<notin> set p \<and> CHR '')'' \<notin> set p) parts)"
| "writable (LEquals a v) = (plain_attr a \<and> lower a = a)"

lemma assertion_equals: "plain_attr a \<Longrightarrow> ldap_assertion (a @ CHR ''='' # escape_filter v) = Inr (LEquals (lower a) v)"
proof -
  have "escape_filter v \<noteq> ''*''" by (metis escaped_has_no(3) list.set_intros(1))
  then show "plain_attr a \<Longrightarrow> ?thesis" by (simp add: ldap_assertion_def plain_attr_def split_once_append)
qed

lemma set_join: "x \<in> set (join [c] ws) \<Longrightarrow> x = c \<or> (\<exists>w \<in> set ws. x \<in> set w)"
  by (cases ws) (auto simp: join_def split: if_splits)

lemma assertion_substring:
  assumes "writable (LSubstring a parts)"
  shows "ldap_assertion (a @ CHR ''='' # join ''*'' parts) = Inr (LSubstring a parts)"
proof -
  have s: "split_on (CHR ''*'') (join ''*'' parts) = parts" using assms split_on_join [of "hd parts" "tl parts" "CHR ''*''"] by (cases parts) (auto simp: list_all_iff)
  have "join ''*'' parts \<noteq> ''*''" using s assms by auto
  moreover have "CHR ''*'' \<in> set (join ''*'' parts)"
  proof (rule ccontr)
    assume "CHR ''*'' \<notin> set (join ''*'' parts)"
    then have "length (split_on (CHR ''*'') (join ''*'' parts)) = 1" by (simp add: split_on_absent)
    then show False unfolding s using assms by simp
  qed
  ultimately show ?thesis using s assms by (simp add: ldap_assertion_def plain_attr_def split_once_append)
qed

text \<open>An assertion in parentheses is read up to the closing one.\<close>

lemma parse_assertion:
  assumes "plain_attr a" "CHR '')'' \<notin> set v" "ldap_assertion (a @ CHR ''='' # v) = Inr f" "0 < n"
  shows "ldap_parse n LOne (CHR ''('' # a @ CHR ''='' # v @ CHR '')'' # rest) = Inr ([f], rest)"
proof -
  obtain m where n: "n = Suc m" using assms(4) by (cases n) auto
  let ?t = "a @ CHR ''='' # v @ CHR '')'' # rest"
  have "\<forall>x \<in> set (a @ CHR ''='' # v). x \<noteq> CHR '')''" using assms(1,2) by (auto simp: plain_attr_def)
  then have "takeWhile (\<lambda>x. x \<noteq> CHR '')'') ((a @ CHR ''='' # v) @ CHR '')'' # rest) = a @ CHR ''='' # v"
    "dropWhile (\<lambda>x. x \<noteq> CHR '')'') ((a @ CHR ''='' # v) @ CHR '')'' # rest) = CHR '')'' # rest"
    using takeWhile_append2 [of "a @ CHR ''='' # v" "\<lambda>x. x \<noteq> CHR '')''"]
      dropWhile_append2 [of "a @ CHR ''='' # v" "\<lambda>x. x \<noteq> CHR '')''"] by simp_all
  then have "takeWhile (\<lambda>x. x \<noteq> CHR '')'') ?t = a @ CHR ''='' # v" "dropWhile (\<lambda>x. x \<noteq> CHR '')'') ?t = CHR '')'' # rest"
    by simp_all
  moreover obtain c r where t: "?t = c # r" "c \<noteq> CHR ''&''" "c \<noteq> CHR ''|''" "c \<noteq> CHR ''!''"
    using assms(1) by (cases a) (auto simp: plain_attr_def)
  ultimately show ?thesis using assms(3) unfolding n by (simp add: expect_def)
qed

lemma show_ldap_starts: "\<exists>r. show_ldap f = CHR ''('' # r \<and> r \<noteq> []"
  by (cases f) auto

lemma parse_shown_many:
  assumes "\<And>f m r. f \<in> set fs \<Longrightarrow> 2 * length (show_ldap f @ r) < m \<Longrightarrow> ldap_parse m LOne (show_ldap f @ r) = Inr ([f], r)"
    and "2 * length (concat (map show_ldap fs) @ rest) + 1 < n" "\<not> prefix ''('' rest"
  shows "ldap_parse n LMany (concat (map show_ldap fs) @ rest) = Inr (fs, rest)"
  using assms
proof (induction fs arbitrary: n)
  case Nil
  then show ?case by (cases n) auto
next
  case (Cons f fs)
  obtain m where n: "n = Suc m" using Cons.prems(2) by (cases n) auto
  obtain r where r: "show_ldap f = CHR ''('' # r" using show_ldap_starts by blast
  let ?more = "concat (map show_ldap fs) @ rest"
  have "ldap_parse m LOne (show_ldap f @ ?more) = Inr ([f], ?more)"
    using Cons.prems(1) [of f ?more m] Cons.prems(2) n by simp
  moreover have "ldap_parse m LMany ?more = Inr (fs, rest)"
    by (rule Cons.IH) (use Cons.prems n r in auto)
  ultimately show ?case unfolding n by (simp add: r)
qed

lemma parse_shown:
  "writable f \<Longrightarrow> 2 * length (show_ldap f @ rest) < n \<Longrightarrow> ldap_parse n LOne (show_ldap f @ rest) = Inr ([f], rest)"
proof (induction f arbitrary: rest n rule: show_ldap.induct)
  case (1 fs)
  obtain m where n: "n = Suc m" using 1(3) by (cases n) auto
  have "ldap_parse m LMany (concat (map show_ldap fs) @ CHR '')'' # rest) = Inr (fs, CHR '')'' # rest)"
    by (rule parse_shown_many) (use 1 n in \<open>auto simp: list_all_iff\<close>)
  with 1(2) show ?case unfolding n by (simp add: expect_def)
next
  case (2 fs)
  obtain m where n: "n = Suc m" using 2(3) by (cases n) auto
  have "ldap_parse m LMany (concat (map show_ldap fs) @ CHR '')'' # rest) = Inr (fs, CHR '')'' # rest)"
    by (rule parse_shown_many) (use 2 n in \<open>auto simp: list_all_iff\<close>)
  with 2(2) show ?case unfolding n by (simp add: expect_def)
next
  case (3 f)
  obtain m where n: "n = Suc m" using 3(3) by (cases n) auto
  have "ldap_parse m LOne (show_ldap f @ CHR '')'' # rest) = Inr ([f], CHR '')'' # rest)"
    by (rule 3(1)) (use 3 n in auto)
  then show ?case unfolding n by (simp add: expect_def)
next
  case (4 a)
  have "ldap_assertion (a @ CHR ''='' # ''*'') = Inr (LPresent a)"
    using 4(1) split_once_append [of "CHR ''=''" a "''*''"] by (simp add: ldap_assertion_def plain_attr_def)
  from parse_assertion [OF _ _ this, of n rest] show ?case using 4 by simp
next
  case (5 a parts)
  have "CHR '')'' \<notin> set (join ''*'' parts)" using 5(1) set_join [of "CHR '')''" "CHR ''*''" parts] by (auto simp: list_all_iff)
  from parse_assertion [OF _ this assertion_substring [OF 5(1)], of n rest] show ?case using 5 by simp
next
  case (6 a v)
  from parse_assertion [OF _ escaped_has_no(1) assertion_equals, of a n v rest] show ?case using 6 by simp
qed

lemma strip_same: "s = [] \<or> \<not> is_space (hd s) \<and> \<not> is_space (last s) \<Longrightarrow> strip s = s"
  by (auto simp: strip_def dropWhile_eq_self_iff [THEN iffD2] hd_rev)

lemma strip_show: "strip (show_ldap f) = show_ldap f"
proof (rule strip_same)
  have "\<not> is_space (CHR ''('')" "\<not> is_space (CHR '')'')" by (simp_all add: is_space_def)
  moreover have "last (show_ldap f) = CHR '')''" by (cases f) auto
  moreover obtain r where "show_ldap f = CHR ''('' # r" using show_ldap_starts by blast
  ultimately show "show_ldap f = [] \<or> \<not> is_space (hd (show_ldap f)) \<and> \<not> is_space (last (show_ldap f))" by simp
qed

interpretation filters: codec show_ldap parse_filter writable
  by unfold_locales
    (use parse_shown [of _ "[]"] in \<open>simp add: parse_filter_def strip_show ldap_fuel_def del: ldap_parse.simps\<close>)

subsection \<open>Reading ends\<close>

lemma hex_value_bound: "hex_value c = Some n \<Longrightarrow> n < 16"
  by (auto simp: hex_value_def Let_def split: if_splits)

lemma hex_fold_bound:
  "\<forall>c \<in> set s. hex_value c \<noteq> None \<Longrightarrow> fold (\<lambda>c n. n * 16 + the (hex_value c)) s a < (a + 1) * 16 ^ length s"
proof (induction s arbitrary: a)
  case (Cons c s)
  obtain v where v: "hex_value c = Some v" "v < 16" using Cons.prems hex_value_bound by fastforce
  have "fold (\<lambda>c n. n * 16 + the (hex_value c)) s (a * 16 + v) < (a * 16 + v + 1) * 16 ^ length s"
    using Cons by simp
  also have "\<dots> \<le> ((a + 1) * 16) * 16 ^ length s" using v by (intro mult_le_mono1) simp
  finally show ?case using v by (simp add: algebra_simps)
qed simp

lemma hex_digits_bound: "hex_digits s = Inr n \<Longrightarrow> length s \<le> 2 \<Longrightarrow> 0 \<le> n \<and> n < 256"
proof -
  assume n: "hex_digits s = Inr n" "length s \<le> 2"
  let ?r = "remove_char (CHR ''_'') s"
  have hex: "\<forall>c \<in> set ?r. hex_value c \<noteq> None"
  proof
    fix c assume "c \<in> set ?r"
    then have "c \<in> set s" "c \<noteq> CHR ''_''" by (auto simp: remove_char_def)
    then have "\<exists>g \<in> set (split_on (CHR ''_'') s). c \<in> set g" by (induction s) (auto split: list.splits)
    then show "hex_value c \<noteq> None" using n(1) by (auto simp: hex_digits_def split: if_splits)
  qed
  have "length ?r \<le> 2" unfolding remove_char_def by (rule order_trans [OF length_filter_le n(2)])
  then have "(16 :: nat) ^ length ?r \<le> 16 ^ 2" by (intro power_increasing) simp_all
  with hex_fold_bound [OF hex, of 0] n(1) show ?thesis by (auto simp: hex_digits_def split: if_splits)
qed

lemma length_strip: "length (strip s) \<le> length s"
  unfolding strip_def by (metis length_dropWhile_le length_rev order_trans)

lemma int_base16_bound: "int_base16 s = Inr n \<Longrightarrow> length s \<le> 2 \<Longrightarrow> n < 256"
proof -
  assume n: "int_base16 s = Inr n" "length s \<le> 2"
  show ?thesis
  proof (cases "strip s")
    case (Cons c r)
    with length_strip [of s] n(2) have "length (c # r) \<le> 2" by simp
    with n(1) Cons hex_digits_bound [of r] hex_digits_bound [of "c # r"] show ?thesis
      by (cases "hex_digits r") (auto simp: int_base16_def split: if_splits)
  qed (use n in \<open>simp add: int_base16_def\<close>)
qed

lemma int_base16_errors: "int_base16 s = Inl e \<Longrightarrow> e = ValueError"
  by (auto simp: int_base16_def hex_digits_def map_sum_Inl_iff split: list.splits if_splits)

lemma unescape_errors: "unescape_filter_value s = Inl e \<Longrightarrow> e = ValueError"
proof (induction s rule: unescape_filter_value.induct)
  case (3 c d r)
  have "length (d # take 1 r) \<le> 2" by (cases r) auto
  with 3 int_base16_bound [of "d # take 1 r"] int_base16_errors [of "d # take 1 r"] show ?case
    by (auto simp: py_chr_def bind_res_def map_sum_Inl_iff split: if_splits sum.splits)
qed simp_all

text \<open>What reading may do: a filter, \<open>LDAPError\<close> or \<open>ValueError\<close>; a filter takes characters.\<close>

definition reads :: "nat \<Rightarrow> exn + (lfilter list \<times> string) \<Rightarrow> bool" where
  "reads k r = (case r of Inl e \<Rightarrow> e = LDAPError \<or> e = Py ValueError | Inr (fs, rest) \<Rightarrow> length rest \<le> k)"

lemma reads_simps [simp]:
  "reads k (Inl e) \<longleftrightarrow> e = LDAPError \<or> e = Py ValueError" "reads k (Inr (fs, rest)) \<longleftrightarrow> length rest \<le> k"
  by (simp_all add: reads_def)

lemma reads_bind:
  assumes "reads k r" "\<And>fs rest. length rest \<le> k \<Longrightarrow> reads m (h fs rest)"
  shows "reads m (bind_res r (\<lambda>(fs, rest). h fs rest))"
  using assms by (cases r) (auto simp: reads_def)

lemma reads_expect:
  "reads m (bind_res (expect c s) h)" if "\<And>rest. length rest < length s \<Longrightarrow> reads m (h rest)"
  using that by (auto simp: expect_def reads_def split: list.split)

lemma assertion_errors: "ldap_assertion s = Inl e \<Longrightarrow> e = LDAPError \<or> e = Py ValueError"
  by (auto simp: ldap_assertion_def Let_def bind_res_def py_Inl_iff dest: unescape_errors
      split: option.splits if_splits sum.splits)

lemma reads_mono: "reads k r \<Longrightarrow> k \<le> m \<Longrightarrow> reads m r"
  by (auto simp: reads_def split: sum.splits)

lemma ldap_parse_reads:
  "2 * length s + (if r = LMany then 1 else 0) < n
     \<Longrightarrow> reads (if r = LMany then length s else length s - 1) (ldap_parse n r s)"
proof (induction n arbitrary: r s)
  case (Suc n)
  show ?case
  proof (cases r)
    case LMany
    show ?thesis
    proof (cases "prefix ''('' s")
      case True
      then have s: "length s > 0" by auto
      have one: "reads (length s - 1) (ldap_parse n LOne s)" using Suc.IH [of s LOne] Suc.prems LMany by simp
      have "reads (length s) (bind_res (ldap_parse n LOne s) (\<lambda>(f, rest).
          bind_res (ldap_parse n LMany rest) (\<lambda>(fs, rest'). Inr (f @ fs, rest'))))"
      proof (rule reads_bind [OF one])
        fix f :: "lfilter list" and rest :: string assume l: "length rest \<le> length s - 1"
        have "2 * length rest + 1 < n" using Suc.prems LMany l s by (cases s) auto
        then have "reads (length rest) (ldap_parse n LMany rest)" using Suc.IH [of rest LMany] by simp
        then show "reads (length s) (bind_res (ldap_parse n LMany rest) (\<lambda>(fs, rest'). Inr (f @ fs, rest')))"
          by (rule reads_bind) (use l in \<open>simp add: reads_def\<close>)
      qed
      with True LMany show ?thesis by simp
    qed (simp add: LMany reads_def)
  next
    case LOne
    show ?thesis
    proof (cases "\<exists>c rest. s = CHR ''('' # c # rest")
      case True
      then obtain c rest where s: "s = CHR ''('' # c # rest" by blast
      have many: "reads (length rest) (ldap_parse n LMany rest)" and one: "reads (length rest) (ldap_parse n LOne rest)"
        using Suc.IH [of rest LMany] Suc.IH [of rest LOne] Suc.prems LOne s reads_mono by auto
      let ?r = "dropWhile (\<lambda>x. x \<noteq> CHR '')'') (c # rest)"
      have "length ?r \<le> length (c # rest)" by (rule length_dropWhile_le)
      moreover have "reads (length s - 1) (bind_res (ldap_parse n LMany rest) (\<lambda>(children, rest').
          if children = [] then Inl LDAPError else bind_res (expect (CHR '')'') rest') (\<lambda>rest''. Inr ([f children], rest''))))" for f
        by (rule reads_bind [OF many]) (use s in \<open>auto intro!: reads_expect\<close>)
      moreover have "reads (length s - 1) (bind_res (ldap_parse n LOne rest) (\<lambda>(child, rest').
          bind_res (expect (CHR '')'') rest') (\<lambda>rest''. Inr ([LNot (hd child)], rest''))))"
        by (rule reads_bind [OF one]) (use s in \<open>auto intro!: reads_expect\<close>)
      moreover have "reads (length s - 1) (bind_res (expect (CHR '')'') ?r) (\<lambda>rest'.
          bind_res (ldap_assertion (takeWhile (\<lambda>x. x \<noteq> CHR '')'') (c # rest))) (\<lambda>f. Inr ([f], rest'))))"
        by (rule reads_expect)
          (use calculation(1) s in \<open>auto simp: reads_def bind_res_def dest: assertion_errors split: sum.split\<close>)
      ultimately show ?thesis using LOne s by simp
    qed (auto simp: LOne reads_def split: list.split)
  qed
qed simp

lemma parse_filter_errors: "parse_filter t = Inl e \<Longrightarrow> e = LDAPError \<or> e = Py ValueError"
  using ldap_parse_reads [of "strip t" LOne "ldap_fuel (strip t)"]
  by (auto simp: parse_filter_def ldap_fuel_def reads_def Let_def bind_res_def simp del: ldap_parse.simps
      split: sum.splits if_splits)

subsection \<open>Substrings\<close>

text \<open>One asterisk: the value is a beginning and an end that do not overlap, with anything between.\<close>

lemma substring_two_parts: "substring_match c [p, q] \<longleftrightarrow> (\<exists>m. c = p @ m @ q)"
proof
  assume "substring_match c [p, q]"
  then have "prefix p c" "suffix q c" "length p + length q \<le> length c" by (simp_all add: substring_match_def)
  then obtain r where r: "c = p @ r" "suffix q (p @ r)" "length q \<le> length r" by (auto simp: prefix_def)
  then have "suffix q r" by (metis suffix_length_suffix suffixI)
  then show "\<exists>m. c = p @ m @ q" using r(1) by (auto simp: suffix_def)
qed (auto simp: substring_match_def suffix_def)

text \<open>
  With more asterisks a part in the middle may overlap the end; the parts are not unescaped; an escape that
  is no number raises \<open>ValueError\<close>; an opening parenthesis is an ordinary character of a value.
\<close>

lemma middle_overlaps_the_end: "substring_match ''ab'' [''a'', ''b'', ''b'']"
  by code_simp

lemma substring_is_not_unescaped:
  "parse_filter [CHR ''('', CHR ''a'', CHR ''='', CHR 0x5C, CHR ''2'', CHR ''a'', CHR ''*'', CHR '')'']
     = Inr (LSubstring ''a'' [[CHR 0x5C, CHR ''2'', CHR ''a''], []])"
  by code_simp

lemma bad_escape_raises: "parse_filter [CHR ''('', CHR ''a'', CHR ''='', CHR 0x5C, CHR ''z'', CHR '')''] = Inl (Py ValueError)"
  by code_simp

lemma parenthesis_in_value: "parse_filter ''(a=(b)'' = Inr (LEquals ''a'' ''(b'')"
  by code_simp

section \<open>Normalised names\<close>

text \<open>
  The two halves of the loop of \<open>_split_dn\<close>: whether the next character is escaped, and whether a text,
  from there on, has no comma that splits it.
\<close>

primrec next_escaped :: "bool \<Rightarrow> string \<Rightarrow> bool" where
  "next_escaped b [] = b"
| "next_escaped b (c # cs) = next_escaped (\<not> b \<and> c = CHR 0x5C) cs"

primrec unsplit :: "bool \<Rightarrow> string \<Rightarrow> bool" where
  "unsplit b [] = True"
| "unsplit b (c # cs) = ((b \<or> c \<noteq> CHR '','') \<and> unsplit (\<not> b \<and> c = CHR 0x5C) cs)"

lemma next_escaped_append [simp]: "next_escaped b (x @ y) = next_escaped (next_escaped b x) y"
  by (induction x arbitrary: b) auto

lemma unsplit_append [simp]: "unsplit b (x @ y) \<longleftrightarrow> unsplit b x \<and> unsplit (next_escaped b x) y"
  by (induction x arbitrary: b) auto

lemma next_escaped_last: "next_escaped False w \<Longrightarrow> w \<noteq> [] \<and> last w = CHR 0x5C"
  by (induction w rule: rev_induct) auto

lemma split_loop_unsplit:
  "unsplit b p \<Longrightarrow> split_dn_loop cur b (p @ q) = split_dn_loop (rev p @ cur) (next_escaped b p) q"
  by (induction p arbitrary: cur b) auto

lemma split_loop_parts:
  "unsplit False (rev cur) \<Longrightarrow> next_escaped False (rev cur) = b \<Longrightarrow> x \<in> set (split_dn_loop cur b s) \<Longrightarrow> unsplit False x"
  by (induction cur b s arbitrary: x rule: split_dn_loop.induct) (auto split: if_splits)

lemma split_loop_not_Nil [simp]: "split_dn_loop cur b s \<noteq> []"
  by (induction cur b s rule: split_dn_loop.induct) auto

lemma join_parts: "ws \<noteq> [] \<Longrightarrow> join [c] (w # ws) = w @ c # join [c] ws" "join [c] [w] = w"
  by (cases ws) (simp_all add: join_def)

lemma join_split_loop: "join '','' (split_dn_loop cur b s) = rev cur @ s"
  by (induction cur b s rule: split_dn_loop.induct) (auto simp: join_parts)

text \<open>Stripping.\<close>

lemma strip_parts: obtains l r where "s = l @ strip s @ r" "\<forall>c \<in> set l. is_space c" "\<forall>c \<in> set r. is_space c"
proof -
  let ?t = "dropWhile is_space s"
  have "s = takeWhile is_space s @ strip s @ rev (takeWhile is_space (rev ?t))"
    unfolding strip_def by (metis rev_append rev_rev_ident takeWhile_dropWhile_id)
  moreover have "\<forall>c \<in> set (takeWhile is_space xs). is_space c" for xs by (meson set_takeWhileD)
  ultimately show thesis using that by (metis set_rev)
qed

lemma strip_ends: "strip s \<noteq> [] \<Longrightarrow> \<not> is_space (hd (strip s)) \<and> \<not> is_space (last (strip s))"
proof
  assume s: "strip s \<noteq> []"
  let ?t = "dropWhile is_space s"
  from s show "\<not> is_space (last (strip s))"
    unfolding strip_def by (metis hd_dropWhile last_rev rev_is_Nil_conv)
  have "strip s = []" if "?t = []" unfolding strip_def that by simp
  with s have "?t \<noteq> []" by blast
  then have "\<not> is_space (hd ?t)" by (rule hd_dropWhile)
  moreover have "?t = strip s @ rev (takeWhile is_space (rev ?t))"
    unfolding strip_def by (metis rev_append rev_rev_ident takeWhile_dropWhile_id)
  then have "hd ?t = hd (strip s)" using s by (metis hd_append2)
  ultimately show "\<not> is_space (hd (strip s))" by simp
qed

lemma strip_same_iff: "strip s = s \<longleftrightarrow> s = [] \<or> \<not> is_space (hd s) \<and> \<not> is_space (last s)"
  using strip_same strip_ends by metis

lemma strip_strip [simp]: "strip (strip s) = strip s"
  using strip_ends [of s] by (auto simp: strip_same_iff)

lemma of_lower_char:
  "of_char (lower_char c) = (let n = of_char c :: nat in if (65 \<le> n \<and> n \<le> 90) \<or> (192 \<le> n \<and> n \<le> 222 \<and> n \<noteq> 215) then n + 32 else n)"
  by (auto simp: lower_char_def Let_def)

lemma lower_char_kinds [simp]:
  "is_space (lower_char c) = is_space c" "lower_char (lower_char c) = lower_char c"
  "lower_char c = CHR '','' \<longleftrightarrow> c = CHR '',''" "lower_char c = CHR 0x5C \<longleftrightarrow> c = CHR 0x5C" "lower_char c = CHR ''='' \<longleftrightarrow> c = CHR ''=''"
proof -
  have eq: "c = d \<longleftrightarrow> of_char c = (of_char d :: nat)" for c d by simp
  show "is_space (lower_char c) = is_space c" by (auto simp: is_space_def of_lower_char Let_def)
  show "lower_char (lower_char c) = lower_char c" by (subst eq) (auto simp: of_lower_char Let_def)
  show "lower_char c = CHR '','' \<longleftrightarrow> c = CHR '',''" "lower_char c = CHR 0x5C \<longleftrightarrow> c = CHR 0x5C" "lower_char c = CHR ''='' \<longleftrightarrow> c = CHR ''=''"
    unfolding eq by (auto simp: of_lower_char Let_def)
qed

text \<open>\<open>str\<close> of one component as \<open>DN.parse\<close> leaves it.\<close>

definition normal_part :: "string \<Rightarrow> bool" where
  "normal_part p \<longleftrightarrow> (\<exists>a v. p = a @ CHR ''='' # v \<and> CHR ''='' \<notin> set a \<and> strip a = a \<and> lower a = a \<and> strip v = v)"

lemma strip_lower: "strip a = a \<Longrightarrow> strip (lower a) = lower a"
  by (auto simp: strip_same_iff lower_def hd_map last_map)

lemma unsplit_lower [simp]: "unsplit b (lower a) = unsplit b a" "next_escaped b (lower a) = next_escaped b a"
  by (induction a arbitrary: b) (auto simp: lower_def)

lemma spaces_escape_nothing: "\<forall>c \<in> set l. is_space c \<Longrightarrow> next_escaped False l = False"
proof (induction l)
  case (Cons c l)
  then have "c \<noteq> CHR 0x5C" by (auto simp: is_space_def)
  with Cons show ?case by simp
qed simp

lemma unsplit_strip: "unsplit False s \<Longrightarrow> unsplit False (strip s)"
proof -
  obtain l r where "s = l @ strip s @ r" "\<forall>c \<in> set l. is_space c" by (rule strip_parts)
  then show "unsplit False s \<Longrightarrow> ?thesis" by (metis spaces_escape_nothing unsplit_append)
qed

lemma rdn_parse_normal:
  assumes "rdn_parse part = Inr (a, v)"
  shows "normal_part (a @ CHR ''='' # v)" "unsplit False part \<Longrightarrow> unsplit False (a @ CHR ''='' # v)"
proof -
  obtain ra rv where r: "part = ra @ CHR ''='' # rv" "CHR ''='' \<notin> set ra" "a = lower (strip ra)" "v = strip rv"
    using assms by (auto simp: rdn_parse_def dest: split_once_SomeD split: option.splits)
  obtain x y where "ra = x @ strip ra @ y" by (rule strip_parts)
  then have "CHR ''='' \<notin> set (strip ra)" using r(2) by (metis Un_iff set_append)
  then have "CHR ''='' \<notin> set a" by (auto simp: r(3) lower_def dest: lower_char_kinds(5) [THEN iffD1, OF sym])
  then show "normal_part (a @ CHR ''='' # v)"
    unfolding normal_part_def using r(3,4) strip_lower [of "strip ra"]
    by (intro exI [of _ a] exI [of _ v]) (simp add: lower_def)
  assume "unsplit False part"
  then have "unsplit False ra" "unsplit False rv" using r(1) by simp_all
  then show "unsplit False (a @ CHR ''='' # v)" using unsplit_strip [of ra] unsplit_strip [of rv] by (simp add: r(3,4))
qed

lemma normal_part_parses: "normal_part p \<Longrightarrow> \<exists>a v. rdn_parse p = Inr (a, v) \<and> a @ CHR ''='' # v = p"
  by (auto simp: normal_part_def rdn_parse_def split_once_append)

text \<open>Two components that an escaped comma joins are one.\<close>

lemma normal_part_join:
  assumes "normal_part w" "next_escaped False w" "normal_part p"
  shows "normal_part (w @ CHR '','' # p)"
proof -
  obtain a v where w: "w = a @ CHR ''='' # v" "CHR ''='' \<notin> set a" "strip a = a" "lower a = a" "strip v = v"
    using assms(1) by (auto simp: normal_part_def)
  obtain b u where p: "p = b @ CHR ''='' # u" "strip u = u" using assms(3) by (auto simp: normal_part_def)
  have "v \<noteq> []" using next_escaped_last [OF assms(2)] w(1) by auto
  moreover have "\<not> is_space (last p)" using p by (auto simp: strip_same_iff is_space_def)
  ultimately have "strip (v @ CHR '','' # p) = v @ CHR '','' # p" using w(5) p(1) by (simp add: strip_same_iff)
  with w show ?thesis by (auto simp: normal_part_def)
qed

lemma split_normal_parts:
  assumes "\<forall>p \<in> set ps. normal_part p \<and> unsplit False p" "ps \<noteq> []"
    and "cur = [] \<or> (\<exists>w. cur = CHR '','' # rev w \<and> normal_part w \<and> next_escaped False w)"
  shows "\<forall>x \<in> set (split_dn_loop cur False (join '','' ps)). normal_part x"
  using assms
proof (induction ps arbitrary: cur)
  case (Cons p ps)
  have normal: "normal_part (rev cur @ p)" using Cons.prems normal_part_join by auto
  have ne: "next_escaped False (rev cur @ p) = next_escaped False p" using Cons.prems(3) by auto
  show ?case
  proof (cases "ps = []")
    case True
    have "split_dn_loop cur False (p @ []) = [rev cur @ p]" using Cons.prems(1) by (subst split_loop_unsplit) simp_all
    with True normal show ?thesis by (simp add: join_parts)
  next
    case False
    have s: "split_dn_loop cur False (join '','' (p # ps)) =
        split_dn_loop (rev p @ cur) (next_escaped False p) (CHR '','' # join '','' ps)"
      using Cons.prems(1) by (simp add: join_parts(1) [OF False] split_loop_unsplit)
    show ?thesis
    proof (cases "next_escaped False p")
      case True
      have "\<forall>x \<in> set (split_dn_loop (CHR '','' # rev (rev cur @ p)) False (join '','' ps)). normal_part x"
        by (rule Cons.IH) (use Cons.prems(1) False normal ne True in \<open>auto intro!: exI [of _ "rev cur @ p"]\<close>)
      with True show ?thesis by (simp add: s)
    next
      case nesc: False
      have "\<forall>x \<in> set (split_dn_loop [] False (join '','' ps)). normal_part x"
        by (rule Cons.IH) (use Cons.prems False in auto)
      with nesc normal show ?thesis by (simp add: s)
    qed
  qed
qed simp

lemma map_res_parts: "map_res rdn_parse ps = Inr d \<Longrightarrow> length d = length ps \<and> (\<forall>(p, r) \<in> set (zip ps d). rdn_parse p = Inr r)"
  by (induction ps arbitrary: d) (auto split: sum.splits)

lemma parse_normal_parts: "\<forall>x \<in> set ps. normal_part x \<Longrightarrow> \<exists>d. map_res rdn_parse ps = Inr d \<and> map (\<lambda>(a, v). a @ ''='' @ v) d = ps"
proof (induction ps)
  case (Cons p ps)
  then obtain d where "map_res rdn_parse ps = Inr d" "map (\<lambda>(a, v). a @ ''='' @ v) d = ps" by auto
  moreover obtain a v where "rdn_parse p = Inr (a, v)" "a @ CHR ''='' # v = p" using Cons.prems normal_part_parses by fastforce
  ultimately show ?case by simp
qed simp

text \<open>The text of a parsed name is a name that stays as it is, also when an escaped comma joins components.\<close>

lemma normal_name_is_stable:
  assumes "dn_parse t = Inr d"
  shows "\<exists>d'. dn_parse (dn_str d) = Inr d' \<and> dn_str d' = dn_str d"
proof -
  let ?ps = "split_dn_loop [] False t" and ?ns = "map (\<lambda>(a, v). a @ ''='' @ v) d"
  have d: "map_res rdn_parse ?ps = Inr d" using assms by (simp add: dn_parse_def split_dn_def)
  have parts: "length d = length ?ps" "\<forall>(p, r) \<in> set (zip ?ps d). rdn_parse p = Inr r" using map_res_parts [OF d] by auto
  have "normal_part n \<and> unsplit False n" if n: "n \<in> set ?ns" for n
  proof -
    obtain i where "i < length ?ns" "?ns ! i = n" using n unfolding in_set_conv_nth by blast
    then have i: "i < length d" "n = (case d ! i of (a, v) \<Rightarrow> a @ ''='' @ v)" by auto
    have "(?ps ! i, d ! i) \<in> set (zip ?ps d)" using i(1) parts(1) by (auto simp: set_zip)
    with parts(2) have "rdn_parse (?ps ! i) = Inr (d ! i)" by auto
    moreover have "unsplit False (?ps ! i)" using split_loop_parts [of "[]" False _ t] i(1) parts(1) by simp
    ultimately show ?thesis using rdn_parse_normal i(2) by (cases "d ! i") auto
  qed
  moreover have "?ns \<noteq> []" using parts(1) by auto
  ultimately have "\<forall>x \<in> set (split_dn_loop [] False (dn_str d)). normal_part x"
    unfolding dn_str_def by (intro split_normal_parts) auto
  then obtain d' where "dn_parse (dn_str d) = Inr d'" "map (\<lambda>(a, v). a @ ''='' @ v) d' = split_dn_loop [] False (dn_str d)"
    unfolding dn_parse_def split_dn_def using parse_normal_parts by blast
  then show ?thesis using join_split_loop [of "[]" False "dn_str d"] by (simp add: dn_str_def)
qed

text \<open>
  Stripping takes an escaped space at the end of a value and leaves its backslash, which then escapes the
  comma: the name of an entry below \<open>dc=lab\<close> becomes one component, below nothing.
\<close>

lemma escaped_space_swallows_the_base:
  "dn_parse (''cn='' @ escape_dn ''a '' @ '',dc=lab'') = Inr [(''cn'', [CHR ''a'', CHR 0x5C]), (''dc'', ''lab'')]"
  "dn_parse (dn_str [(''cn'', [CHR ''a'', CHR 0x5C]), (''dc'', ''lab'')]) = Inr [(''cn'', [CHR ''a'', CHR 0x5C] @ '',dc=lab'')]"
  by code_simp+

section \<open>Who is authenticated\<close>

text \<open>Additions one after the other; one that raises leaves the entries as they are.\<close>

definition ldap_adds :: "(string \<times> (string, string list) dict \<times> string option) list \<Rightarrow> ldap \<Rightarrow> ldap" where
  "ldap_adds ops s = fold (\<lambda>(dn, attributes, password) s. snd (ldap_add dn attributes password s)) ops s"

text \<open>Every entry is filed under its own normalised name.\<close>

definition filed :: "ldap \<Rightarrow> bool" where
  "filed s \<longleftrightarrow> distinct (dkeys (ld_entries s))
     \<and> (\<forall>k e. dget (ld_entries s) k = Some e \<longrightarrow> en_dn e = k \<and> (\<exists>d. dn_parse k = Inr d \<and> dn_str d = k))"

lemma ldap_add_cases:
  obtains x g where "ldap_add dn attributes password s = (Inl x, s\<lparr>ld_rng := g\<rparr>)"
  | d attrs g where "dn_parse dn = Inr d"
      "ldap_add dn attributes password s = (Inr \<lparr>en_dn = dn_str d, en_attributes = attrs\<rparr>,
         s\<lparr>ld_rng := g, ld_entries := dset (dn_str d) \<lparr>en_dn = dn_str d, en_attributes = attrs\<rparr> (ld_entries s)\<rparr>)"
proof (cases "dn_parse dn")
  case (Inl x)
  then have "ldap_add dn attributes password s = (Inl x, s\<lparr>ld_rng := ld_rng s\<rparr>)" by (simp add: ldap_add_def)
  then show thesis by (rule that(1))
next
  case (Inr d)
  obtain r g where w: "with_password password (normalized_attributes attributes) s = (r, s\<lparr>ld_rng := g\<rparr>)"
  proof (cases password)
    case (Some pw)
    then show ?thesis using that by (cases "hash_password (ld_hasher s) pw None (ld_rng s)") (simp add: with_password_def)
  qed (simp add: with_password_def that [of _ "ld_rng s"])
  show thesis
  proof (cases r)
    case (Inl x)
    then have "ldap_add dn attributes password s = (Inl x, s\<lparr>ld_rng := g\<rparr>)" using Inr w by (simp add: ldap_add_def bindM_def)
    then show thesis by (rule that(1))
  next
    case (Inr attrs)
    show thesis by (rule that(2) [OF \<open>dn_parse dn = Inr d\<close>, of attrs g])
      (use Inr w \<open>dn_parse dn = Inr d\<close> in \<open>simp add: ldap_add_def bindM_def Let_def\<close>)
  qed
qed

lemma ldap_add_filed: "filed s \<Longrightarrow> filed (snd (ldap_add dn attributes password s))"
  by (rule ldap_add_cases [of dn attributes password s])
    (use normal_name_is_stable in \<open>auto simp: filed_def split: if_splits\<close>)

lemma ldap_add_hasher: "ld_hasher (snd (ldap_add dn attributes password s)) = ld_hasher s"
  by (rule ldap_add_cases [of dn attributes password s]) auto

lemma ldap_adds_filed: "filed s \<Longrightarrow> filed (ldap_adds ops s) \<and> ld_hasher (ldap_adds ops s) = ld_hasher s"
  unfolding ldap_adds_def
  by (induction ops arbitrary: s) (auto simp: ldap_add_filed ldap_add_hasher split: prod.split)

lemma empty_ldap_filed [simp]: "filed (empty_ldap h g)" "ld_hasher (empty_ldap h g) = h"
  by (simp_all add: filed_def empty_ldap_def)

definition lies_under :: "entry \<Rightarrow> dn \<Rightarrow> bool" where
  "lies_under e base = (case dn_parse (en_dn e) of Inl _ \<Rightarrow> False | Inr d \<Rightarrow> is_child_of d base)"

text \<open>The entries below a base that have a value of an attribute, literally.\<close>

definition users_named :: "dn \<Rightarrow> string \<Rightarrow> string \<Rightarrow> ldap \<Rightarrow> entry list" where
  "users_named base uid_attr username s =
     filter (\<lambda>e. lies_under e base \<and> username \<in> set (entry_get e uid_attr)) (dvalues (ld_entries s))"

lemma lower_lower [simp]: "lower (lower s) = lower s"
  by (simp add: lower_def)

lemma entry_get_lower [simp]: "entry_get e (lower a) = entry_get e a"
  by (simp add: entry_get_def)

lemma parse_user_filter: "plain_attr a \<Longrightarrow> parse_filter (user_filter a v) = Inr (LEquals (lower a) v)"
proof -
  assume a: "plain_attr a"
  have t: "user_filter a v = CHR ''('' # a @ CHR ''='' # escape_filter v @ CHR '')'' # []" by (simp add: user_filter_def)
  have "strip (user_filter a v) = user_filter a v"
    by (rule strip_same) (simp add: user_filter_def is_space_def)
  moreover have "ldap_parse (ldap_fuel (user_filter a v)) LOne (user_filter a v) = Inr ([LEquals (lower a) v], [])"
    unfolding t by (rule parse_assertion [OF a escaped_has_no(1) assertion_equals [OF a]]) (simp add: ldap_fuel_def)
  ultimately show ?thesis by (simp add: parse_filter_def)
qed

lemma searched_all:
  "\<forall>e \<in> set es. \<exists>d. dn_parse (en_dn e) = Inr d \<Longrightarrow> searched base f es = Inr (filter (\<lambda>e. lies_under e base \<and> ldap_matches f e) es)"
  by (induction es) (auto simp: lies_under_def)

lemma filed_values:
  assumes "filed s" "e \<in> set (dvalues (ld_entries s))"
  obtains d where "dn_parse (en_dn e) = Inr d" "dn_str d = en_dn e" "dget (ld_entries s) (en_dn e) = Some e"
proof -
  obtain k where "(k, e) \<in> set (ld_entries s)" using assms(2) by auto
  then have "dget (ld_entries s) k = Some e" using assms(1) by (simp add: filed_def)
  then show thesis using assms(1) that unfolding filed_def by blast
qed

lemma search_users:
  assumes "filed s" "plain_attr a"
  shows "ldap_search base_dn (user_filter a v) s = bind_res (dn_parse base_dn) (\<lambda>base. Inr (users_named base a v s))"
proof -
  have "\<forall>e \<in> set (dvalues (ld_entries s)). \<exists>d. dn_parse (en_dn e) = Inr d" using filed_values [OF assms(1)] by blast
  then have "searched base (LEquals (lower a) v) (dvalues (ld_entries s)) = Inr (users_named base a v s)" for base
    by (auto simp: searched_all users_named_def list_ex_iff intro!: filter_cong)
  with assms(2) show ?thesis by (simp add: ldap_search_def parse_user_filter)
qed

lemma refused_slowly [simp]: "refuse_slowly s password \<noteq> Inr True"
  by (auto simp: refuse_slowly_def bind_res_def split: sum.splits)

text \<open>Whose password a bind checks.\<close>

lemma bind_iff:
  assumes "filed s" "e \<in> set (dvalues (ld_entries s))"
  shows "simple_bind (en_dn e) password s = Inr True \<longleftrightarrow>
    password \<noteq> [] \<and> (\<exists>enc. entry_first e ''userpassword'' = Some (LAB_LABEL @ enc) \<and> verify_password (ld_hasher s) password enc = Inr True)"
proof -
  obtain d where d: "dn_parse (en_dn e) = Inr d" "dn_str d = en_dn e" "dget (ld_entries s) (en_dn e) = Some e"
    using filed_values [OF assms] .
  show ?thesis
  proof (cases "\<exists>enc. entry_first e ''userpassword'' = Some (LAB_LABEL @ enc)")
    case True
    then obtain enc where "entry_first e ''userpassword'' = Some (LAB_LABEL @ enc)" by blast
    with d show ?thesis by (simp add: simple_bind_def LAB_LABEL_def)
  next
    case False
    then have "\<not> prefix LAB_LABEL t" if "entry_first e ''userpassword'' = Some t" for t
      using that by (auto simp: prefix_def)
    with False d show ?thesis by (auto simp: simple_bind_def split: option.split)
  qed
qed

lemma authenticates_iff:
  assumes "filed s" "plain_attr a"
  shows "ldap_authenticate username password base_dn a s = Inr (Some e) \<longleftrightarrow>
    password \<noteq> [] \<and> (\<exists>base enc. dn_parse base_dn = Inr base \<and> users_named base a username s = [e]
      \<and> entry_first e ''userpassword'' = Some (LAB_LABEL @ enc) \<and> verify_password (ld_hasher s) password enc = Inr True)"
    (is "?l \<longleftrightarrow> ?r")
proof
  assume l: ?l
  then obtain base where b: "dn_parse base_dn = Inr base" "password \<noteq> []" "users_named base a username s = [e]"
      "simple_bind (en_dn e) password s = Inr True"
    by (auto simp: ldap_authenticate_def search_users [OF assms] elim!: bind_res_InrE split: if_splits list.splits)
  then have "e \<in> set (dvalues (ld_entries s))" by (metis filter_is_subset list.set_intros(1) subset_iff users_named_def)
  from bind_iff [OF assms(1) this] b show ?r by blast
next
  assume ?r
  then obtain base enc where b: "password \<noteq> []" "dn_parse base_dn = Inr base" "users_named base a username s = [e]"
      "entry_first e ''userpassword'' = Some (LAB_LABEL @ enc)" "verify_password (ld_hasher s) password enc = Inr True" by blast
  then have "e \<in> set (dvalues (ld_entries s))" by (metis filter_is_subset list.set_intros(1) subset_iff users_named_def)
  with bind_iff [OF assms(1)] b have "simple_bind (en_dn e) password s = Inr True" by blast
  with b show ?l by (simp add: ldap_authenticate_def search_users [OF assms])
qed

lemma hash_verifies:
  assumes "backend_ok (hs_backend h)" "storable_params (hs_params h)" "hash_password h pw salt g = (Inr enc, g')"
  shows "verify_password h pw enc = Inr True"
proof -
  obtain t data d where d: "prepare h pw = Inr data" "derive (hs_backend h) (hs_params h) data t = Inr d" "enc = stored_form (hs_params h) t d"
    using assms(3) by (rule hash_password_run)
  show ?thesis
    unfolding d(3) using verify_stored_form [OF assms(1,2) derive_length [OF assms(1) d(2)]] d(1,2) by simp
qed

lemma added_password_verifies:
  assumes "backend_ok (hs_backend (ld_hasher s))" "storable_params (hs_params (ld_hasher s))"
    and "ldap_add dn attributes (Some pw) s = (Inr e, s')"
  shows "\<exists>enc. entry_first e ''userpassword'' = Some (LAB_LABEL @ enc) \<and> verify_password (ld_hasher s) pw enc = Inr True"
proof -
  obtain r g where h: "hash_password (ld_hasher s) pw None (ld_rng s) = (r, g)" by (rule prod.exhaust)
  obtain enc where r: "r = Inr enc" and e: "en_attributes e = dset ''userpassword'' [LAB_LABEL @ enc] (normalized_attributes attributes)"
    using assms(3) h by (cases r; cases "dn_parse dn") (auto simp: ldap_add_def with_password_def bindM_def Let_def)
  have "lower ''userpassword'' = ''userpassword''" by code_simp
  then have "entry_first e ''userpassword'' = Some (LAB_LABEL @ enc)" by (simp add: entry_first_def entry_get_def e)
  with hash_verifies [OF assms(1,2)] h r show ?thesis by blast
qed

lemma distinct_entries: "filed s \<Longrightarrow> distinct (dvalues (ld_entries s))"
proof -
  assume f: "filed s"
  have "en_dn e = k" if "(k, e) \<in> set (ld_entries s)" for k e using f that unfolding filed_def by (metis map_of_is_SomeI)
  then have "map (\<lambda>(k, e). en_dn e) (ld_entries s) = dkeys (ld_entries s)" by (auto intro!: map_cong)
  then have "map en_dn (dvalues (ld_entries s)) = dkeys (ld_entries s)" by (simp add: comp_def split_beta)
  with f show ?thesis unfolding filed_def by (metis distinct_map)
qed

lemma filter_single: "distinct xs \<Longrightarrow> x \<in> set xs \<Longrightarrow> P x \<Longrightarrow> \<forall>y \<in> set xs. P y \<longrightarrow> y = x \<Longrightarrow> filter P xs = [x]"
proof (induction xs)
  case (Cons y ys)
  show ?case
  proof (cases "y = x")
    case True
    then have "\<forall>z \<in> set ys. \<not> P z" using Cons.prems(1,4) by (metis distinct.simps(2) list.set_intros(2))
    with True Cons.prems(3) show ?thesis by (simp add: filter_empty_conv)
  next
    case False
    then have "\<not> P y" using Cons.prems(4) by (meson list.set_intros(1))
    moreover have "filter P ys = [x]" by (rule Cons.IH) (use Cons.prems(1) in simp, use Cons.prems(2) False in simp, rule Cons.prems(3), use Cons.prems(4) in \<open>meson list.set_intros(2)\<close>)
    ultimately show ?thesis by simp
  qed
qed simp

section \<open>The properties\<close>

text \<open>
  C40: A filter is read back as it was written: an escaped value, whatever is in it, stays the value of its
  assertion.  Reading any text ends, with a filter, \<open>LDAPError\<close>, or \<open>ValueError\<close> for a bad escape.
\<close>

theorem ldap_filter_roundtrip:
  assumes "writable f"
  shows "parse_filter (show_ldap f) = Inr f
    \<and> (case parse_filter t of Inl e \<Rightarrow> e = LDAPError \<or> e = Py ValueError | Inr _ \<Rightarrow> True)"
  using filters.dec_enc [OF assms] parse_filter_errors [of t] by (auto split: sum.split)

theorem ldap_filter_roundtrip_witness:
  "parse_filter (show_ldap (LAnd [LEquals ''uid'' ''*)(uid=*))(|(uid=*'', LNot (LSubstring ''mail'' [[], ''@lab''])]))
     = Inr (LAnd [LEquals ''uid'' ''*)(uid=*))(|(uid=*'', LNot (LSubstring ''mail'' [[], ''@lab''])])"
  by (rule ldap_filter_roundtrip [THEN conjunct1]) code_simp

text \<open>
  C14: \<open>authenticate\<close> returns an entry exactly if the password is not empty, the entry is the only one
  below the base with the user name, literally, among the values of the attribute, and its stored hash
  verifies the password; after any additions.
\<close>

theorem directory_authenticates_exactly:
  assumes "plain_attr a" and "s = ldap_adds ops (empty_ldap h g)"
  shows "ldap_authenticate username password base_dn a s = Inr (Some e) \<longleftrightarrow>
    password \<noteq> [] \<and> (\<exists>base enc. dn_parse base_dn = Inr base \<and> users_named base a username s = [e]
      \<and> entry_first e ''userpassword'' = Some (LAB_LABEL @ enc) \<and> verify_password h password enc = Inr True)"
  using authenticates_iff [OF _ assms(1), of s] ldap_adds_filed [of "empty_ldap h g" ops] assms(2) by simp

theorem directory_authenticates_exactly_witness:
  "ldap_authenticate ''*'' ''x'' ''dc=lab'' ''uid''
     (ldap_adds [(''uid=alice,dc=lab'', [(''uid'', [''alice''])], None)] (empty_ldap sample_hasher \<lparr>tape = \<lambda>_ _. 0, drawn = 0\<rparr>)) \<notin> Inr ` Some ` UNIV"
proof -
  let ?g = "\<lparr>tape = \<lambda>_ _. 0, drawn = 0\<rparr>"
  let ?ops = "[(''uid=alice,dc=lab'', [(''uid'', [''alice''])], None)]"
  have "dn_parse ''uid=alice,dc=lab'' = Inr [(''uid'', ''alice''), (''dc'', ''lab'')]" "lower ''uid'' = ''uid''" by code_simp+
  then have "users_named base ''uid'' ''*'' (ldap_adds ?ops (empty_ldap sample_hasher ?g)) = []" for base
    by (simp add: users_named_def ldap_adds_def ldap_add_def with_password_def normalized_attributes_def empty_ldap_def bindM_def Let_def entry_get_def)
  moreover have "plain_attr ''uid''" by code_simp
  ultimately have "ldap_authenticate ''*'' ''x'' ''dc=lab'' ''uid'' (ldap_adds ?ops (empty_ldap sample_hasher ?g)) \<noteq> Inr (Some e)" for e
    by (subst directory_authenticates_exactly [OF _ refl]) simp_all
  then show ?thesis by blast
qed

text \<open>
  C18: A user who was added with a password is authenticated by it, if no other entry below the base has
  the user name: hashing, the stored label, the name the entry is filed under and the search fit together.
\<close>

theorem added_user_logs_in:
  assumes "backend_ok (hs_backend h)" "storable_params (hs_params h)" "plain_attr a" "s = ldap_adds ops (empty_ldap h g)"
    and add: "ldap_add dn attributes (Some pw) s = (Inr e, s')" and "pw \<noteq> []"
    and "dn_parse base_dn = Inr base" "lies_under e base" "username \<in> set (entry_get e a)"
    and only: "\<forall>x \<in> set (dvalues (ld_entries s')). lies_under x base \<and> username \<in> set (entry_get x a) \<longrightarrow> x = e"
  shows "ldap_authenticate username pw base_dn a s' = Inr (Some e)"
proof -
  have s: "filed s" "ld_hasher s = h" using ldap_adds_filed [of "empty_ldap h g" ops] assms(4) by simp_all
  have filed: "filed s'" and hasher: "ld_hasher s' = h"
    using ldap_add_filed [OF s(1), of dn attributes "Some pw"] ldap_add_hasher [of dn attributes "Some pw" s] s(2) add by simp_all
  have "dget (ld_entries s') (en_dn e) = Some e"
    by (rule ldap_add_cases [of dn attributes "Some pw" s]) (use add in auto)
  then have "e \<in> set (dvalues (ld_entries s'))" by (rule dget_in_values)
  then have "users_named base a username s' = [e]"
    unfolding users_named_def by (rule filter_single [OF distinct_entries [OF filed] _ _ only]) (simp_all add: assms(8,9))
  moreover obtain enc where "entry_first e ''userpassword'' = Some (LAB_LABEL @ enc)" "verify_password h pw enc = Inr True"
    using added_password_verifies [OF _ _ add] assms(1,2) s(2) by auto
  ultimately show ?thesis using assms(6,7) by (simp add: authenticates_iff [OF filed assms(3)] hasher)
qed

theorem added_user_logs_in_witness:
  "\<exists>e s'. ldap_add ''uid=alice,dc=lab'' [(''uid'', [''alice''])] (Some ''correct horse'')
       (empty_ldap sample_hasher \<lparr>tape = \<lambda>_ _. 0, drawn = 0\<rparr>) = (Inr e, s')
     \<and> ldap_authenticate ''alice'' ''correct horse'' ''dc=lab'' ''uid'' s' = Inr (Some e)"
proof -
  let ?g = "\<lparr>tape = \<lambda>_ _. 0, drawn = 0\<rparr>"
  have ok: "backend_ok (hs_backend sample_hasher)" "storable_params (hs_params sample_hasher)"
    by (simp_all add: backend_ok_def sample_hasher_def default_pbkdf2_def hash_named_def)
  obtain data where "prepare sample_hasher ''correct horse'' = Inr data" by (simp add: prepare_def nfkc_def nfkc_char_def Let_def)
  moreover obtain d where "derive (hs_backend sample_hasher) (hs_params sample_hasher) data (fst (random_bytes 16 ?g)) = Inr d"
    by (simp add: sample_hasher_def default_pbkdf2_def pbkdf2_any_def pbkdf2_hmac_def hash_named_def)
  ultimately obtain enc g where h: "hash_password sample_hasher ''correct horse'' None ?g = (Inr enc, g)"
    by (cases "random_bytes 16 ?g") (simp add: hash_password_def)
  have dn: "dn_parse ''uid=alice,dc=lab'' = Inr [(''uid'', ''alice''), (''dc'', ''lab'')]" "dn_parse ''dc=lab'' = Inr [(''dc'', ''lab'')]"
    "dn_str [(''uid'', ''alice''), (''dc'', ''lab'')] = ''uid=alice,dc=lab''" "lower ''uid'' = ''uid''" "plain_attr ''uid''" by code_simp+
  let ?e = "\<lparr>en_dn = ''uid=alice,dc=lab'', en_attributes = [(''uid'', [''alice'']), (''userpassword'', [LAB_LABEL @ enc])]\<rparr>"
  let ?s = "\<lparr>ld_entries = [(''uid=alice,dc=lab'', ?e)], ld_hasher = sample_hasher, ld_rng = g\<rparr>"
  have add: "ldap_add ''uid=alice,dc=lab'' [(''uid'', [''alice''])] (Some ''correct horse'') (empty_ldap sample_hasher ?g) = (Inr ?e, ?s)"
    by (simp add: ldap_add_def with_password_def empty_ldap_def h dn normalized_attributes_def bindM_def Let_def)
  have "ldap_authenticate ''alice'' ''correct horse'' ''dc=lab'' ''uid'' ?s = Inr (Some ?e)"
    by (rule added_user_logs_in [OF ok dn(5) _ add _ dn(2), of "[]" ?g])
      (simp_all add: ldap_adds_def lies_under_def dn is_child_of_def entry_get_def)
  with add show ?thesis by blast
qed

end
