(* ===== verification/Spec2Isabelle.thy ===== *)
theory Spec2Isabelle
  imports Prelude Search Rbac Abac Rebac PolicyComparison PolicyParity
    Encoding Urls Json Hashing Arith Rsa Mfa Der Ec Ed25519 Exn Jws Jwks Jwt
    Pkce Dpop Rar OauthModels AuthServer AuthInv AuthProps AuthSafety AuthFlow
    Signed Jar Jarm Par Ciba Fapi Resource Relying Login Device
    Aes Cbor Cose WebAuthn Authenticator Passkeys Stdlib Kdf Kerberos Realm Scim Provisioning Argon2 Hasher Ldap Directory
begin

text \<open>
  A verification library for \<open>auth-lab\<close> (\<open>src/authlab\<close>), a Python implementation of
  authentication and authorization protocols on its own cryptography.

  \<^bold>\<open>The program and its model.\<close>  The package is layered, and so is the library.  Each operation of
  a class or module is one definition with the branches of the code; a group of lines that the code
  repeats or that has a purpose of its own is a definition too.

  \<^item> Foundations.  \<open>Prelude\<close>: Python values (\<open>pyval\<close>), insertion-ordered dictionaries as association
    lists (\<open>dset\<close>, \<open>dget\<close>, \<open>ddel\<close>, \<open>dupd\<close>), Python's exceptions as \<open>py_error\<close>, strings with the Latin-1
    characters, \<open>str\<close> methods.  \<open>Exn\<close>: the exceptions of \<open>jose/errors.py\<close> and \<open>oauth/errors.py\<close>, and
    operations on a mutable object as functions from the state to a result and the next state; an
    exception keeps the changes made before it.  \<open>Encoding\<close> (\<open>util/encoding.py\<close>, \<open>util/ct.py\<close>), \<open>Urls\<close>
    (what is used of \<open>urllib.parse\<close>), \<open>Json\<close> (what is used of \<open>json\<close>), \<open>Hashing\<close> (SHA-1 and SHA-2, HMAC),
    \<open>Arith\<close> (\<open>pow\<close> with its inverse form, gcd).
  \<^item> Authorization engines (\<open>authz\<close>).  \<open>Rbac\<close>, \<open>Abac\<close>, \<open>Rebac\<close>; \<open>Search\<close> holds the recursion that the
    relation engine and the data set share; \<open>PolicyComparison\<close> models the five adapters of
    \<open>policy_comparison.py\<close>, \<open>PolicyParity\<close> their agreement.
  \<^item> Cryptography (\<open>crypto\<close>).  \<open>Rsa\<close> (\<open>primes.py\<close>, \<open>rsa.py\<close>), \<open>Der\<close> (\<open>asn1.py\<close> and the DER reader of \<open>ec.py\<close>),
    \<open>Ec\<close> (\<open>ec.py\<close>), \<open>Ed25519\<close> (\<open>ed25519.py\<close>), \<open>Aes\<close> (\<open>aes.py\<close>), \<open>Cbor\<close> (\<open>cbor.py\<close>).  The state of the
    cipher is the list of its 16 bytes; a CBOR value is a datatype with the Python types the module handles.
  \<^item> Second factors (\<open>mfa\<close>).  \<open>Mfa\<close>: \<open>hotp.py\<close>, \<open>totp.py\<close>, \<open>recovery.py\<close>.
  \<^item> Signed tokens (\<open>jose\<close>).  \<open>Jws\<close>, \<open>Jwks\<close>, \<open>Jwt\<close>.
  \<^item> OAuth (\<open>oauth\<close>).  \<open>Pkce\<close>, \<open>Dpop\<close>, \<open>Rar\<close>; \<open>OauthModels\<close> (\<open>models.py\<close>), \<open>AuthServer\<close>
    (\<open>authorization_server.py\<close>: the server object is the record \<open>auth_server\<close>, its clock and random source
    are fields); \<open>AuthInv\<close>, \<open>AuthProps\<close>, \<open>AuthSafety\<close>, \<open>AuthFlow\<close>, \<open>Device\<close> prove its properties.  \<open>Signed\<close>
    holds what the signed messages share; \<open>Jar\<close>, \<open>Jarm\<close>, \<open>Par\<close>, \<open>Ciba\<close>, \<open>Fapi\<close> (\<open>fapi2_security.py\<close>,
    \<open>fapi2_message_signing.py\<close>), \<open>Resource\<close> (\<open>resource_server.py\<close>) and \<open>Relying\<close> (\<open>client.py\<close>) are the
    modules around the server, composed with it as in the code: an operation of a part of the state is
    lifted with \<open>zoom\<close>.  \<open>Login\<close> composes the client, the server, the API and the client again.

  \<^item> Passkeys (\<open>webauthn\<close>).  \<open>Cose\<close> (\<open>cose.py\<close>), \<open>WebAuthn\<close> (\<open>relying_party.py\<close>: the record
    \<open>relying_party\<close>, its two ceremonies as operations on it), \<open>Authenticator\<close> (\<open>authenticator.py\<close>);
    \<open>Passkeys\<close> composes the two and has the properties.
  \<^item> Kerberos (\<open>kerberos\<close>).  \<open>Kerberos\<close>: the messages as records, the distribution center, the client and
    the service, each a record with its own clock and random source; \<open>Realm\<close> has the properties.  \<open>pickle\<close>
    is a parameter of which only \<open>loads (dumps x) = x\<close> is used.  \<open>Stdlib\<close> and \<open>Kdf\<close> hold what is used of
    \<open>int\<close>, PBKDF2, BLAKE2b and scrypt.
  \<^item> Provisioning (\<open>directory/scim.py\<close>).  \<open>Scim\<close>: users whose attributes are arbitrary values, PATCH, and
    filters as a datatype with their tokens, their parser and their meaning; \<open>Provisioning\<close> has the properties.
  \<^item> The directory (\<open>directory/ldap.py\<close>).  \<open>Ldap\<close>: escaping, distinguished names, search filters, and the
    record \<open>ldap\<close> with its two ways to authenticate; \<open>Directory\<close> has the properties.
  \<^item> Password hashes (\<open>passwords\<close>).  \<open>Argon2\<close> (\<open>argon2.py\<close>), on 64-bit words; it gives the tags of
    RFC 9106 on the test vectors there.  \<open>Hasher\<close> (\<open>hasher.py\<close>): the three families of parameters, the stored
    form, hashing and verification.  Whether \<open>hashlib\<close> has PBKDF2 and whether \<open>argon2-cffi\<close> is installed is the
    record \<open>backend\<close>; of the latter only the length of its result is used (\<open>backend_ok\<close>).

  \<^bold>\<open>What is proved.\<close>

  \<^item> The engines decide what their rules say: reachability in the role hierarchy, deny-overrides,
    derivability of a relation within the depth bound; the five adapters agree on a data set within their
    bounds (\<open>guarded_search\<close> is the interface the depth-bounded searches are instances of).
  \<^item> Encodings come back (\<open>codec\<close>, \<open>codec_chain\<close>: UTF-8, base64url, JSON, DER signatures); the JSON
    reader's fuel, twice the length of the text, is enough (\<open>json_fuel_enough\<close>).
  \<^item> An RSA signature verifies; a token that is accepted is authentic, and one that was issued is
    accepted (\<open>signature_scheme\<close>, interpreted for HS256 and RS256).
  \<^item> The authorization server, over every sequence of its operations (\<open>server_run\<close>, by the interface
    \<open>stable_property\<close> of properties that its updates keep): the store is well formed; a code and a rotated
    refresh token are used once; reuse ends the family.  What each grant has checked; what introspection
    reports.  The honest flow completes (\<open>login_completes\<close>): from the URL the client builds, through the callback
    and the token endpoint with the authentication of the client, to an access token that is live and, where
    it is signed, opens an API, and to an ID token that the client validates.
  \<^item> The modules around it: request objects, authorization responses, pushed references, backchannel
    requests, proofs and callbacks are each accepted once and only where they belong
    (\<open>par_implements_tickets\<close> states the pushed requests as a refinement of a store of tickets; \<open>Ciba\<close> has the
    interface \<open>request_property\<close>); tokens bound to a key or a certificate are not downgraded; a cached
    introspection answer is at most its lifetime old.

  \<^item> Passkeys: a challenge is spent by the first ceremony that tries it, and over every run the accepted
    responses carry pairwise different challenges, so none is accepted twice; what makes an assertion acceptable,
    exactly; a registration completes; stored credentials stay well formed over every run.
  \<^item> Kerberos: a login is good for a service, with mutual authentication; a service ticket gives no more and
    ends no later than the ticket it was granted for; an accepted authenticator is refused afterwards, except
    when its timestamp was ahead of the clock of the service and \<open>clock_skew\<close> has passed since: the theorem states
    that window, and \<open>future_authenticator_is_accepted_again\<close> shows that in it the service does accept again.
    Decryption undoes encryption through every layer of \<open>Aes\<close>.
  \<^item> Provisioning: a filter with quoted values is read back as it was, and reading ends on every text (the
    fuel \<open>filter_fuel\<close>, three times the number of tokens, is enough: \<open>scim_parse_good\<close>); a deactivated user
    stays inactive.  Argon2 refers only to blocks that are computed and, in other lanes, finished.
  \<^item> Password hashes: a hash verifies the password it was made of, whatever its algorithm and cost; what
    verification raises on an arbitrary stored text (\<open>verification_answers\<close>).
  \<^item> The directory: a filter is read back as it was written, with anything as an escaped value, and reading
    ends on every text (the fuel \<open>ldap_fuel\<close>, twice its length, is enough: \<open>ldap_parse_reads\<close>); the text of
    a parsed name is stable (\<open>normal_name_is_stable\<close>), so a bind reaches the entry that was found, and who is
    authenticated is stated exactly.

  \<^bold>\<open>Conventions.\<close>  Time is an argument or a field of the state and only moves between operations; the
  random source is a tape of bytes with a position, and \<open>never_again\<close> says that a value does not come up
  on the rest of the tape: that is what single use of random identifiers rests on.  Values outside the
  model (characters above \<open>00ff\<close>, floating point numbers, hosts in brackets) give the outcome \<open>Unmodelled\<close>, and
  a loop that does not end gives \<open>Diverges\<close>; both are errors, so nothing is claimed of them.  Two limits of
  CPython are left out: recursion is as deep as the value (the readers of JSON, CBOR, SCIM filters and LDAP filters
  raise \<open>RecursionError\<close> near a thousand levels, which is none of the errors they document), and integers of any
  length are converted to and from text (\<open>int\<close> and \<open>str\<close> refuse more than 4300 digits by default).  The loops that
  may not end are \<open>partial_function\<close>s: rejection sampling (\<open>randbelow\<close>, shown to end on a source that keeps
  giving usable numbers in \<open>Device\<close>), the search for primes, and the nonce of ECDSA.  Texts of exceptions are
  not modelled; their classes, codes and statuses are.  HTTP is not modelled: an operation starts
  with parsed parameters.

  \<^bold>\<open>Not modelled.\<close>  The certificates of \<open>x509.py\<close> and the decision log of \<open>abac.py\<close> that hides attributes: they could be
  modelled on what is here.  \<open>saml\<close> rests on the XML parser of the standard library, \<open>mtls\<close> on sockets and
  \<open>ssl\<close>, \<open>server.py\<close> on \<open>http.server\<close>; drills, attacks and scripts print what the library does.
  That P-256 has prime order and that the hash functions are collision-free is nowhere assumed: what is
  proved of ECDSA and Ed25519 is their structure, and statements about signatures and tags speak of what
  verifies, not of who can make it.
\<close>

end
